(* ===== verification/Kernel_Prelude.thy ===== *)
theory Kernel_Prelude
  imports Main "HOL-Library.Word" "HOL-Library.Monad_Syntax"
begin

text \<open>
  Shared vocabulary of the development: the widths of \<^verbatim>\<open>types.h\<close>, C's signed arithmetic on
  mathematical integers, arrays as lists with checked access, bounded \<^verbatim>\<open>for\<close> loops and C
  strings. Undefined behaviour of the source (an access outside an array, a dereference of
  \<^verbatim>\<open>NULL\<close>, a division by zero) and a loop that does not return are the value
  \<^term>\<open>None\<close>; every other result, the error returns of the code included, is a
  \<^term>\<open>Some\<close>.
\<close>

unbundle bit_operations_syntax

named_theorems kernel_simps \<open>equations that evaluate the kernel's state updates\<close>
named_theorems arr_simps \<open>checked array accesses that are known to be in range\<close>

section \<open>Machine integers\<close>

type_synonym u8 = "8 word"
type_synonym u16 = "16 word"
type_synonym u32 = "32 word"

text \<open>
  A value of C type \<^verbatim>\<open>int32_t\<close> is an \<^typ>\<open>int\<close>; \<^verbatim>\<open>wrap32\<close> is the two's complement
  reduction of an arithmetic result to 32 bits, \<^verbatim>\<open>u32_of\<close> the conversion to
  \<^verbatim>\<open>uint32_t\<close>. Signed division and remainder truncate towards zero.
\<close>

definition wrap32 :: "int \<Rightarrow> int" where
  "wrap32 k = sint (word_of_int k :: u32)"

definition u32_of :: "int \<Rightarrow> u32" where
  "u32_of k = word_of_int k"

definition cdiv :: "int \<Rightarrow> int \<Rightarrow> int" where
  "cdiv a b = sgn a * sgn b * (\<bar>a\<bar> div \<bar>b\<bar>)"

definition cmod :: "int \<Rightarrow> int \<Rightarrow> int" where
  "cmod a b = a - cdiv a b * b"

lemma wrap32_id: "- 2147483648 \<le> k \<Longrightarrow> k < 2147483648 \<Longrightarrow> wrap32 k = k"
  by (simp add: wrap32_def sint_sbintrunc' signed_take_bit_int_eq_self)

lemma cdiv_pos: "0 \<le> a \<Longrightarrow> 0 < b \<Longrightarrow> cdiv a b = a div b"
  by (cases "a = 0") (simp_all add: cdiv_def)

lemma cmod_pos: "0 \<le> a \<Longrightarrow> 0 < b \<Longrightarrow> cmod a b = a mod b"
  by (simp add: cmod_def cdiv_pos minus_div_mult_eq_mod)

text \<open>A word below a bound is one of finitely many numerals.\<close>

lemma word_lt_cases:
  fixes n :: "'a::len word"
  assumes "unat n < k"
  shows "n \<in> of_nat ` {..<k}"
proof
  show "n = of_nat (unat n)" by simp
  show "unat n \<in> {..<k}" using assms by simp
qed

lemma ucast_u8_u32 [simp]: "(ucast (ucast (v :: u8) :: u32) :: u8) = v"
  by (rule bit_word_eqI) (auto simp: bit_simps)

lemmas enum_lt = lessThan_nat_numeral lessThan_Suc

section \<open>Arrays\<close>

text \<open>An array is a list; an access outside it is undefined behaviour.\<close>

definition rd :: "'a list \<Rightarrow> nat \<Rightarrow> 'a option" where
  "rd xs i = (if i < length xs then Some (xs ! i) else None)"

definition wr :: "'a list \<Rightarrow> nat \<Rightarrow> 'a \<Rightarrow> 'a list option" where
  "wr xs i v = (if i < length xs then Some (xs[i := v]) else None)"

text \<open>The same with an index of C type \<^verbatim>\<open>int\<close>, which may be negative.\<close>

definition rdi :: "'a list \<Rightarrow> int \<Rightarrow> 'a option" where
  "rdi xs i = (if 0 \<le> i then rd xs (nat i) else None)"

definition wri :: "'a list \<Rightarrow> int \<Rightarrow> 'a \<Rightarrow> 'a list option" where
  "wri xs i v = (if 0 \<le> i then wr xs (nat i) v else None)"

lemma rd_in [arr_simps]: "i < length xs \<Longrightarrow> rd xs i = Some (xs ! i)"
  by (simp add: rd_def)

lemma rd_out [arr_simps]: "length xs \<le> i \<Longrightarrow> rd xs i = None"
  by (simp add: rd_def)

lemma wr_in [arr_simps]: "i < length xs \<Longrightarrow> wr xs i v = Some (xs[i := v])"
  by (simp add: wr_def)

lemma wr_out [arr_simps]: "length xs \<le> i \<Longrightarrow> wr xs i v = None"
  by (simp add: wr_def)

lemma wr_length: "wr xs i v = Some ys \<Longrightarrow> length ys = length xs"
  by (auto simp: wr_def split: if_splits)

section \<open>Loops\<close>

text \<open>
  \<^verbatim>\<open>for (i = lo; i < hi; i++) body\<close> with a body that may fault: the indices are visited in
  ascending order and the first fault ends the loop.
\<close>

fun fold_opt :: "('a \<Rightarrow> 's \<Rightarrow> 's option) \<Rightarrow> 'a list \<Rightarrow> 's \<Rightarrow> 's option" where
  "fold_opt f [] s = Some s"
| "fold_opt f (x # xs) s = do { s' \<leftarrow> f x s; fold_opt f xs s' }"

definition for_range :: "nat \<Rightarrow> nat \<Rightarrow> (nat \<Rightarrow> 's \<Rightarrow> 's option) \<Rightarrow> 's \<Rightarrow> 's option" where
  "for_range lo hi f s = fold_opt f [lo..<hi] s"

lemma fold_opt_append:
  "fold_opt f (xs @ ys) s = do { s' \<leftarrow> fold_opt f xs s; fold_opt f ys s' }"
  by (induction xs arbitrary: s) (auto split: Option.bind_split)

lemma for_range_empty [simp]: "hi \<le> lo \<Longrightarrow> for_range lo hi f s = Some s"
  by (simp add: for_range_def)

lemma for_range_step:
  "lo < hi \<Longrightarrow> for_range lo hi f s = do { s' \<leftarrow> f lo s; for_range (Suc lo) hi f s' }"
  by (simp add: for_range_def upt_conv_Cons)

lemma for_range_last:
  "lo \<le> hi \<Longrightarrow> for_range lo (Suc hi) f s = do { s' \<leftarrow> for_range lo hi f s; f hi s' }"
  by (simp add: for_range_def fold_opt_append bind_eq_Some_conv split: Option.bind_split)

text \<open>
  The loop rule: \<^term>\<open>g\<close> gives the state before each index, and the body takes one to the
  next. It proves that the loop does not fault, and what it computes.
\<close>

lemma for_range_closed:
  assumes "lo \<le> hi" and "g lo = s"
    and "\<And>i. lo \<le> i \<Longrightarrow> i < hi \<Longrightarrow> f i (g i) = Some (g (Suc i))"
  shows "for_range lo hi f s = Some (g hi)"
  using assms(1) assms(3)
proof (induction hi rule: dec_induct)
  case base
  then show ?case by (simp add: assms(2))
next
  case (step n)
  then show ?case by (simp add: for_range_last)
qed

lemma fold_opt_inv:
  assumes "P s" and "\<And>x s. x \<in> set xs \<Longrightarrow> P s \<Longrightarrow> \<exists>t. f x s = Some t \<and> P t"
  shows "\<exists>t. fold_opt f xs s = Some t \<and> P t"
  using assms
proof (induction xs arbitrary: s)
  case Nil
  then show ?case by simp
next
  case (Cons x xs)
  obtain t where t: "f x s = Some t" "P t" using Cons.prems by force
  have "\<exists>u. fold_opt f xs t = Some u \<and> P u"
    by (rule Cons.IH) (use t Cons.prems in auto)
  with t show ?case by simp
qed

text \<open>The invariant rule: a body that keeps \<^term>\<open>P\<close> and never faults.\<close>

lemma for_range_inv:
  assumes "P s" and "\<And>i s. lo \<le> i \<Longrightarrow> i < hi \<Longrightarrow> P s \<Longrightarrow> \<exists>t. f i s = Some t \<and> P t"
  shows "\<exists>t. for_range lo hi f s = Some t \<and> P t"
  unfolding for_range_def by (rule fold_opt_inv) (use assms in auto)

text \<open>The loop that fills the positions from \<^term>\<open>i\<close> to \<^term>\<open>n\<close> with one value.\<close>

lemma fill_loop:
  "i \<le> n \<Longrightarrow> n \<le> length dest \<Longrightarrow>
   for_range i n (\<lambda>i dest. wr dest i v) dest = Some (take i dest @ replicate (n - i) v @ drop n dest)"
proof (rule for_range_closed [where g = "\<lambda>j. take i dest @ replicate (j - i) v @ drop j dest"])
  fix j
  assume "i \<le> j" "j < n" "n \<le> length dest"
  then show "wr (take i dest @ replicate (j - i) v @ drop j dest) j v =
      Some (take i dest @ replicate (Suc j - i) v @ drop (Suc j) dest)"
    by (simp add: wr_def list_update_append min_absorb2 Suc_diff_le replicate_append_same
        Cons_nth_drop_Suc [symmetric])
qed auto

text \<open>The loops that replace every element, and that copy from one array to another.\<close>

lemma map_loop:
  assumes "length xs = n"
  shows "for_range 0 n (\<lambda>i ys. do { x \<leftarrow> rd ys i; wr ys i (f i x) }) xs =
    Some (map (\<lambda>i. f i (xs ! i)) [0..<n])"
proof -
  have "for_range 0 n (\<lambda>i ys. do { x \<leftarrow> rd ys i; wr ys i (f i x) }) xs =
      Some (map (\<lambda>i. f i (xs ! i)) [0..<n] @ drop n xs)"
  proof (rule for_range_closed [where g = "\<lambda>j. map (\<lambda>i. f i (xs ! i)) [0..<j] @ drop j xs"])
    fix i assume "i < n"
    then show "(do { x \<leftarrow> rd (map (\<lambda>i. f i (xs ! i)) [0..<i] @ drop i xs) i;
        wr (map (\<lambda>i. f i (xs ! i)) [0..<i] @ drop i xs) i (f i x) }) =
        Some (map (\<lambda>i. f i (xs ! i)) [0..<Suc i] @ drop (Suc i) xs)"
      using assms by (simp add: rd_def wr_def nth_append list_update_append Cons_nth_drop_Suc [symmetric])
  qed simp_all
  then show ?thesis using assms by simp
qed

lemma copy_loop:
  assumes "n \<le> length src" and "n \<le> length dest"
  shows "for_range 0 n (\<lambda>i ys. do { x \<leftarrow> rd src i; wr ys i x }) dest = Some (take n src @ drop n dest)"
proof (rule for_range_closed [where g = "\<lambda>j. take j src @ drop j dest"])
  fix i assume "i < n"
  then show "(do { x \<leftarrow> rd src i; wr (take i src @ drop i dest) i x }) =
      Some (take (Suc i) src @ drop (Suc i) dest)"
    using assms by (simp add: rd_def wr_def list_update_append min_absorb2 take_Suc_conv_app_nth
        Cons_nth_drop_Suc [symmetric])
qed simp_all

lemma replicate_num: "replicate (numeral k) x = x # replicate (pred_numeral k) x"
  by (simp add: numeral_eq_Suc)

section \<open>C strings\<close>

text \<open>A literal of the source as the bytes the compiler stores, its terminating zero included.\<close>

definition bytes_of :: "string \<Rightarrow> u8 list" where
  "bytes_of s = map of_char s"

definition cstr :: "string \<Rightarrow> u8 list" where
  "cstr s = bytes_of s @ [0]"

abbreviation chr :: "char \<Rightarrow> u8" where
  "chr c \<equiv> of_char c"

lemma length_bytes_of [simp]: "length (bytes_of s) = length s"
  by (simp add: bytes_of_def)

end
