(* ===== verification/Machine.thy ===== *)
theory Machine
  imports Kernel_Prelude
begin

text \<open>
  The processor and memory the C code runs on, as far as the kernel touches them: linear memory
  as a function from addresses to bytes, the flags register, and the trace of port accesses.
  It models the inline functions and macros of \<^verbatim>\<open>lib.h\<close> (\<^verbatim>\<open>inb\<close>, \<^verbatim>\<open>outb\<close>,
  \<^verbatim>\<open>outw\<close>, \<^verbatim>\<open>cli\<close>, \<^verbatim>\<open>sti\<close>, \<^verbatim>\<open>cli_and_save\<close>, \<^verbatim>\<open>restore_flags\<close>) and the
  little-endian loads and stores of C. What a port returns is decided by the device, which is
  not code of the repository: it is a parameter \<^verbatim>\<open>dev\<close> of the operations that read ports, a
  function of the accesses made so far.
\<close>

unbundle bit_operations_syntax

section \<open>State\<close>

datatype io_event = Out8 u16 u8 | Out16 u16 u16 | In8 u16 u8

type_synonym device = "io_event list \<Rightarrow> u16 \<Rightarrow> u8"

text \<open>The trace holds the most recent access first.\<close>

record machine =
  mem :: "u32 \<Rightarrow> u8"
  eflags :: u32
  io_trace :: "io_event list"

definition IF_MASK :: u32 where
  "IF_MASK = 0x200"

section \<open>Ports and the interrupt flag\<close>

definition outb :: "u8 \<Rightarrow> u16 \<Rightarrow> 'a machine_scheme \<Rightarrow> 'a machine_scheme" where
  "outb data port s = s\<lparr>io_trace := Out8 port data # io_trace s\<rparr>"

definition outw :: "u16 \<Rightarrow> u16 \<Rightarrow> 'a machine_scheme \<Rightarrow> 'a machine_scheme" where
  "outw data port s = s\<lparr>io_trace := Out16 port data # io_trace s\<rparr>"

definition inb :: "device \<Rightarrow> u16 \<Rightarrow> 'a machine_scheme \<Rightarrow> u32 \<times> 'a machine_scheme" where
  "inb dev port s =
     (let v = dev (io_trace s) port in (ucast v, s\<lparr>io_trace := In8 port v # io_trace s\<rparr>))"

definition cli :: "'a machine_scheme \<Rightarrow> 'a machine_scheme" where
  "cli s = s\<lparr>eflags := eflags s AND NOT IF_MASK\<rparr>"

definition sti :: "'a machine_scheme \<Rightarrow> 'a machine_scheme" where
  "sti s = s\<lparr>eflags := eflags s OR IF_MASK\<rparr>"

definition cli_and_save :: "'a machine_scheme \<Rightarrow> u32 \<times> 'a machine_scheme" where
  "cli_and_save s = (eflags s, cli s)"

definition restore_flags :: "u32 \<Rightarrow> 'a machine_scheme \<Rightarrow> 'a machine_scheme" where
  "restore_flags flags s = s\<lparr>eflags := flags\<rparr>"

definition interrupts_on :: "'a machine_scheme \<Rightarrow> bool" where
  "interrupts_on s = (eflags s AND IF_MASK \<noteq> 0)"

text \<open>The bytes written to a port, the most recent first.\<close>

fun writes_to :: "u16 \<Rightarrow> io_event list \<Rightarrow> u8 list" where
  "writes_to p [] = []"
| "writes_to p (Out8 q v # es) = (if p = q then v # writes_to p es else writes_to p es)"
| "writes_to p (Out16 q v # es) = writes_to p es"
| "writes_to p (In8 q v # es) = writes_to p es"

lemmas port_simps [kernel_simps] =
  outb_def outw_def inb_def cli_def sti_def cli_and_save_def restore_flags_def Let_def

lemma interrupts_off_cli: "\<not> interrupts_on (cli s)"
  by (simp add: interrupts_on_def cli_def and.assoc)

lemma interrupts_on_sti: "interrupts_on (sti s)"
  by (simp add: interrupts_on_def sti_def bit.conj_disj_distrib2 IF_MASK_def)

section \<open>Loads and stores\<close>

text \<open>
  Memory is little-endian; addresses wrap around at 32 bits. \<^verbatim>\<open>ld32\<close> and \<^verbatim>\<open>st32\<close> are the
  accesses through a \<^verbatim>\<open>uint32_t *\<close>.
\<close>

definition ld32 :: "(u32 \<Rightarrow> u8) \<Rightarrow> u32 \<Rightarrow> u32" where
  "ld32 m a = ucast (m a) OR push_bit 8 (ucast (m (a + 1)))
     OR push_bit 16 (ucast (m (a + 2))) OR push_bit 24 (ucast (m (a + 3)))"

definition st32 :: "(u32 \<Rightarrow> u8) \<Rightarrow> u32 \<Rightarrow> u32 \<Rightarrow> (u32 \<Rightarrow> u8)" where
  "st32 m a v = m(a := ucast v, a + 1 := ucast (drop_bit 8 v),
     a + 2 := ucast (drop_bit 16 v), a + 3 := ucast (drop_bit 24 v))"

lemma bytes_of_word:
  fixes v :: u32
  shows "ucast (ucast v :: u8) OR push_bit 8 (ucast (ucast (drop_bit 8 v) :: u8))
     OR push_bit 16 (ucast (ucast (drop_bit 16 v) :: u8))
     OR push_bit 24 (ucast (ucast (drop_bit 24 v) :: u8)) = v"
proof (rule bit_word_eqI)
  fix n
  assume "n < LENGTH(32)"
  then consider "n < 8" | "8 \<le> n" "n < 16" | "16 \<le> n" "n < 24" | "24 \<le> n" "n < 32"
    by force
  then show "bit (ucast (ucast v :: u8) OR push_bit 8 (ucast (ucast (drop_bit 8 v) :: u8))
     OR push_bit 16 (ucast (ucast (drop_bit 16 v) :: u8))
     OR push_bit 24 (ucast (ucast (drop_bit 24 v) :: u8)) :: u32) n = bit v n"
    by cases (auto simp: bit_simps)
qed

text \<open>Two dwords do not overlap when each lies four bytes or more after the other.\<close>

definition apart4 :: "u32 \<Rightarrow> u32 \<Rightarrow> bool" where
  "apart4 a b = (4 \<le> b - a \<and> 4 \<le> a - b)"

lemma ld32_st32_same [simp]: "ld32 (st32 m a v) a = v"
proof -
  have "a + 1 \<noteq> a" "a + 2 \<noteq> a" "a + 3 \<noteq> a" "a + 1 \<noteq> a + 2" "a + 1 \<noteq> a + 3" "a + 2 \<noteq> a + 3"
    by simp_all
  then show ?thesis by (simp add: ld32_def st32_def bytes_of_word)
qed

lemma apart4_neq:
  assumes "apart4 a b" and "i < 4" and "j < 4"
  shows "b + j \<noteq> a + i"
proof
  assume eq: "b + j = a + i"
  show False
  proof (cases "j \<le> i")
    case True
    have "b = a + i - j" using eq by (simp add: eq_diff_eq)
    then have "b - a = i - j" by simp
    moreover have "i - j < 4" using word_sub_le [OF True] assms(2) by (rule le_less_trans)
    ultimately show False using assms(1) by (auto simp: apart4_def)
  next
    case False
    have "a = b + j - i" using eq by (simp add: eq_diff_eq)
    then have "a - b = j - i" by simp
    moreover have "j - i < 4" using word_sub_le [of i j] False assms(3)
      by (meson le_less_trans linear)
    ultimately show False using assms(1) by (auto simp: apart4_def)
  qed
qed

lemma st32_byte_other:
  assumes "4 \<le> x - a"
  shows "st32 m a v x = m x"
proof -
  have "x \<noteq> a + i" if "i < 4" for i :: u32
    using that assms by auto
  from this [of 0] this [of 1] this [of 2] this [of 3] show ?thesis
    by (simp add: st32_def)
qed

lemma ld32_st32_apart:
  assumes "apart4 a b"
  shows "ld32 (st32 m a v) b = ld32 m b"
proof -
  have same: "st32 m a v (b + j) = m (b + j)" if j: "j < 4" for j :: u32
  proof -
    have "b + j \<noteq> a + i" if "i < 4" for i :: u32
      by (rule apart4_neq [OF assms that j])
    from this [of 0] this [of 1] this [of 2] this [of 3] show ?thesis
      by (simp add: st32_def)
  qed
  from same [of 0] same [of 1] same [of 2] same [of 3] show ?thesis
    by (simp add: ld32_def)
qed

end
