(* ===== verification/Pic.thy ===== *)
theory Pic
  imports Machine
begin

text \<open>
  The 8259 interrupt controller driver, \<^verbatim>\<open>i8259.c\<close>: the two mask bytes the driver keeps and
  the bytes it sends to the master and the slave. The abstract view of the component is the set
  of interrupt lines that are enabled; the locale \<^verbatim>\<open>irq_controller\<close> states what a client may
  rely on, and it is interpreted on the driver at the end.
\<close>

unbundle bit_operations_syntax

section \<open>The driver\<close>

definition MASTER_COMMAND :: u16 where "MASTER_COMMAND = 0x20"
definition SLAVE_COMMAND :: u16 where "SLAVE_COMMAND = 0xA0"
definition MASTER_DATA :: u16 where "MASTER_DATA = 0x21"
definition SLAVE_DATA :: u16 where "SLAVE_DATA = 0xA1"
definition ICW1 :: u8 where "ICW1 = 0x11"
definition ICW2_MASTER :: u8 where "ICW2_MASTER = 0x20"
definition ICW2_SLAVE :: u8 where "ICW2_SLAVE = 0x28"
definition ICW3_MASTER :: u8 where "ICW3_MASTER = 0x04"
definition ICW3_SLAVE :: u8 where "ICW3_SLAVE = 0x02"
definition ICW4 :: u8 where "ICW4 = 0x01"
definition EOI :: u32 where "EOI = 0x60"
definition CASCADE_IR :: u32 where "CASCADE_IR = 0x02"
definition INTERRUPTS_MASKED :: u8 where "INTERRUPTS_MASKED = 0xFF"
definition UNMASK_2 :: u8 where "UNMASK_2 = 0xFB"

lemmas pic_consts =
  MASTER_COMMAND_def SLAVE_COMMAND_def MASTER_DATA_def SLAVE_DATA_def ICW1_def ICW2_MASTER_def
  ICW2_SLAVE_def ICW3_MASTER_def ICW3_SLAVE_def ICW4_def EOI_def CASCADE_IR_def
  INTERRUPTS_MASKED_def UNMASK_2_def

record pic = machine +
  master_mask :: u8
  slave_mask :: u8

definition i8259_init :: "'a pic_scheme \<Rightarrow> 'a pic_scheme" where
  "i8259_init s0 = (
     let (flags, s) = cli_and_save s0;
         s = s\<lparr>master_mask := INTERRUPTS_MASKED\<rparr>;
         s = s\<lparr>slave_mask := INTERRUPTS_MASKED\<rparr>;
         s = outb ICW1 MASTER_COMMAND s;
         s = outb ICW2_MASTER MASTER_DATA s;
         s = outb ICW3_MASTER MASTER_DATA s;
         s = outb ICW4 MASTER_DATA s;
         s = outb ICW1 SLAVE_COMMAND s;
         s = outb ICW2_SLAVE SLAVE_DATA s;
         s = outb ICW3_SLAVE SLAVE_DATA s;
         s = outb ICW4 SLAVE_DATA s;
         s = outb (master_mask s) MASTER_DATA s;
         s = outb (slave_mask s) SLAVE_DATA s
     in restore_flags flags s)"

definition irq_bit :: "u32 \<Rightarrow> u8" where
  "irq_bit irq_num = push_bit (unat (irq_num AND 7)) 1"

definition enable_irq :: "u32 \<Rightarrow> 'a pic_scheme \<Rightarrow> 'a pic_scheme" where
  "enable_irq irq_num s0 = (
     let (flags, s) = cli_and_save s0;
         mask = NOT (irq_bit irq_num);
         s = (if irq_num AND 8 \<noteq> 0 then
                (let s = s\<lparr>slave_mask := slave_mask s AND mask\<rparr>;
                     s = outb (slave_mask s) SLAVE_DATA s;
                     s = s\<lparr>master_mask := master_mask s AND UNMASK_2\<rparr>
                 in outb (master_mask s) MASTER_DATA s)
              else
                (let s = s\<lparr>master_mask := master_mask s AND mask\<rparr>
                 in outb (master_mask s) MASTER_DATA s))
     in restore_flags flags s)"

definition disable_irq :: "u32 \<Rightarrow> 'a pic_scheme \<Rightarrow> 'a pic_scheme" where
  "disable_irq irq_num s0 = (
     let mask = irq_bit irq_num;
         (flags, s) = cli_and_save s0;
         s = (if irq_num AND 8 \<noteq> 0 then
                (let s = s\<lparr>slave_mask := slave_mask s OR mask\<rparr>
                 in outb (slave_mask s) SLAVE_DATA s)
              else
                (let s = s\<lparr>master_mask := master_mask s OR mask\<rparr>
                 in outb (master_mask s) MASTER_DATA s))
     in restore_flags flags s)"

definition send_eoi :: "u32 \<Rightarrow> 'a pic_scheme \<Rightarrow> 'a pic_scheme" where
  "send_eoi irq_num s0 = (
     let (flags, s) = cli_and_save s0;
         s = (if irq_num AND 8 \<noteq> 0 then
                (let s = outb (ucast (EOI OR (irq_num AND 7))) SLAVE_COMMAND s
                 in outb (ucast (EOI OR CASCADE_IR)) MASTER_COMMAND s)
              else outb (ucast (EOI OR irq_num)) MASTER_COMMAND s)
     in restore_flags flags s)"

section \<open>The abstract view: the enabled lines\<close>

definition line_masked :: "'a pic_scheme \<Rightarrow> nat \<Rightarrow> bool" where
  "line_masked s n = (if n < 8 then bit (master_mask s) n else bit (slave_mask s) (n - 8))"

definition enabled_lines :: "'a pic_scheme \<Rightarrow> nat set" where
  "enabled_lines s = {n. n < 16 \<and> \<not> line_masked s n}"

text \<open>The mask registers of the chips hold what was last written to their data ports.\<close>

definition pic_in_sync :: "'a pic_scheme \<Rightarrow> bool" where
  "pic_in_sync s =
     ((case writes_to MASTER_DATA (io_trace s) of [] \<Rightarrow> False | v # _ \<Rightarrow> v = master_mask s) \<and>
      (case writes_to SLAVE_DATA (io_trace s) of [] \<Rightarrow> False | v # _ \<Rightarrow> v = slave_mask s))"

lemma irq_select:
  fixes n :: u32
  assumes "unat n < 16"
  shows "(n AND 8 \<noteq> 0) = (8 \<le> unat n)"
    and "unat (n AND 7) = (if unat n < 8 then unat n else unat n - 8)"
  using word_lt_cases [OF assms] by (auto simp: enum_lt)

lemma bit_irq_bit: "bit (irq_bit n) k = (k = unat (n AND 7) \<and> k < 8)"
  by (auto simp: irq_bit_def bit_simps)

lemma bit_unmask_2: "k < 8 \<Longrightarrow> bit UNMASK_2 k = (k \<noteq> 2)"
  by (drule lessThan_iff [THEN iffD2]) (auto simp: enum_lt UNMASK_2_def)

lemma bit_masked: "k < 8 \<Longrightarrow> bit INTERRUPTS_MASKED k"
  by (drule lessThan_iff [THEN iffD2]) (auto simp: enum_lt INTERRUPTS_MASKED_def)

lemma enabled_lines_enable:
  assumes "unat n < 16"
  shows "enabled_lines (enable_irq n s) =
    enabled_lines s \<union> {unat n} \<union> (if 8 \<le> unat n then {2} else {})"
  using irq_select [OF assms] assms
  by (auto simp: enabled_lines_def line_masked_def enable_irq_def kernel_simps bit_simps
      bit_irq_bit bit_unmask_2 split: if_splits)

lemma enabled_lines_disable:
  assumes "unat n < 16"
  shows "enabled_lines (disable_irq n s) = enabled_lines s - {unat n}"
  using irq_select [OF assms] assms
  by (auto simp: enabled_lines_def line_masked_def disable_irq_def kernel_simps bit_simps
      bit_irq_bit split: if_splits)

lemma enabled_lines_init: "enabled_lines (i8259_init s) = {}"
  by (auto simp: enabled_lines_def line_masked_def i8259_init_def kernel_simps bit_masked)

lemma enabled_lines_eoi: "enabled_lines (send_eoi n s) = enabled_lines s"
  by (simp add: enabled_lines_def line_masked_def send_eoi_def kernel_simps)

lemmas pic_ops = i8259_init_def enable_irq_def disable_irq_def send_eoi_def

lemma pic_keeps_flags [simp]:
  "eflags (i8259_init s) = eflags s" "eflags (enable_irq n s) = eflags s"
  "eflags (disable_irq n s) = eflags s" "eflags (send_eoi n s) = eflags s"
  by (simp_all add: pic_ops kernel_simps)

lemma pic_keeps_mem [simp]:
  "mem (i8259_init s) = mem s" "mem (enable_irq n s) = mem s"
  "mem (disable_irq n s) = mem s" "mem (send_eoi n s) = mem s"
  by (simp_all add: pic_ops kernel_simps)

lemma pic_keeps_more [simp]:
  "more (i8259_init s) = more s" "more (enable_irq n s) = more s"
  "more (disable_irq n s) = more s" "more (send_eoi n s) = more s"
  by (simp_all add: pic_ops kernel_simps)

section \<open>The interface of an interrupt controller\<close>

text \<open>
  What the drivers of the devices rely on: enabling a line opens it, and the cascade line with
  a line of the slave, and closes none; disabling closes exactly one; after initialisation no
  line is open; acknowledging changes none.
\<close>

locale irq_controller =
  fixes init :: "'s \<Rightarrow> 's"
    and enable :: "u32 \<Rightarrow> 's \<Rightarrow> 's"
    and disable :: "u32 \<Rightarrow> 's \<Rightarrow> 's"
    and eoi :: "u32 \<Rightarrow> 's \<Rightarrow> 's"
    and open_lines :: "'s \<Rightarrow> nat set"
  assumes open_init: "open_lines (init s) = {}"
    and open_enable: "unat n < 16 \<Longrightarrow>
      open_lines (enable n s) = open_lines s \<union> {unat n} \<union> (if 8 \<le> unat n then {2} else {})"
    and open_disable: "unat n < 16 \<Longrightarrow> open_lines (disable n s) = open_lines s - {unat n}"
    and open_eoi: "open_lines (eoi n s) = open_lines s"
begin

text \<open>The lines open after enabling a list of lines from the initial state.\<close>

lemma open_fold_enable:
  "\<forall>n \<in> set ns. unat n < 16 \<Longrightarrow>
     open_lines (fold enable ns s) =
     open_lines s \<union> unat ` set ns \<union> (if \<exists>n \<in> set ns. 8 \<le> unat n then {2} else {})"
  by (induction ns arbitrary: s) (auto simp: open_enable)

lemma open_after_boot:
  "\<forall>n \<in> set ns. unat n < 16 \<Longrightarrow>
     open_lines (fold enable ns (init s)) =
     unat ` set ns \<union> (if \<exists>n \<in> set ns. 8 \<le> unat n then {2} else {})"
  by (simp add: open_fold_enable open_init)

lemma disable_enable:
  "unat n < 16 \<Longrightarrow> unat n \<notin> open_lines s \<Longrightarrow>
     open_lines (disable n (enable n s)) = open_lines s \<union> (if 8 \<le> unat n then {2} else {})"
  by (auto simp: open_enable open_disable)

end

interpretation pic_lines: irq_controller i8259_init enable_irq disable_irq send_eoi enabled_lines
  by unfold_locales
    (simp_all only: enabled_lines_init enabled_lines_enable enabled_lines_disable enabled_lines_eoi)

section \<open>Properties\<close>

text \<open>Any sequence of calls of the driver.\<close>

datatype pic_call = EnableIrq u32 | DisableIrq u32 | SendEoi u32

fun do_pic_call :: "pic_call \<Rightarrow> 'a pic_scheme \<Rightarrow> 'a pic_scheme" where
  "do_pic_call (EnableIrq n) s = enable_irq n s"
| "do_pic_call (DisableIrq n) s = disable_irq n s"
| "do_pic_call (SendEoi n) s = send_eoi n s"

lemma pic_in_sync_init: "pic_in_sync (i8259_init s)"
  by (simp add: pic_in_sync_def i8259_init_def kernel_simps pic_consts)

lemma pic_in_sync_call: "pic_in_sync s \<Longrightarrow> pic_in_sync (do_pic_call c s)"
  by (cases c)
    (auto simp: pic_in_sync_def pic_ops kernel_simps pic_consts split: list.splits)

lemma pic_in_sync_calls: "pic_in_sync s \<Longrightarrow> pic_in_sync (fold do_pic_call cs s)"
  by (induction cs arbitrary: s) (simp_all add: pic_in_sync_call)

lemma pic_calls_keep_flags: "eflags (fold do_pic_call cs s) = eflags s"
proof (induction cs arbitrary: s)
  case (Cons c cs)
  then show ?case by (cases c) simp_all
qed simp

text \<open>The driver implements the abstract controller on the lines 0 to 15: initialisation
  masks every line; enabling a line opens it, opens the cascade line 2 as well when the line is
  on the slave, and changes no other line; disabling a line closes that line only; an
  end-of-interrupt changes no line.\<close>

theorem pic_refines_line_set:
  assumes "unat n < 16"
  shows "enabled_lines (i8259_init s) = {} \<and>
    enabled_lines (enable_irq n s) =
      enabled_lines s \<union> {unat n} \<union> (if 8 \<le> unat n then {2} else {}) \<and>
    enabled_lines (disable_irq n s) = enabled_lines s - {unat n} \<and>
    enabled_lines (send_eoi n s) = enabled_lines s"
  using pic_lines.open_init pic_lines.open_enable [OF assms] pic_lines.open_disable [OF assms]
    pic_lines.open_eoi by blast

definition pic_demo :: pic where
  "pic_demo = \<lparr>mem = (\<lambda>_. 0), eflags = IF_MASK, io_trace = [], master_mask = 0xFF, slave_mask = 0xFF\<rparr>"

theorem pic_refines_line_set_witness:
  "unat (8 :: u32) < 16 \<and>
   enabled_lines (enable_irq 8 pic_demo) = enabled_lines pic_demo \<union> {8} \<union> {2} \<and>
   enabled_lines (disable_irq 8 pic_demo) = enabled_lines pic_demo - {8}"
proof -
  have h: "unat (8 :: u32) < 16" by simp
  show ?thesis using pic_refines_line_set [OF h, of pic_demo] by simp
qed

text \<open>After initialisation and any sequence of enabling, disabling and acknowledging, the
  mask registers of both chips (the last byte written to their data ports) equal the masks the
  driver keeps in memory, and every call leaves the interrupt flag as it found it.\<close>

theorem pic_masks_match_chips:
  "pic_in_sync (fold do_pic_call cs (i8259_init s)) \<and>
   eflags (fold do_pic_call cs (i8259_init s)) = eflags s"
  by (simp add: pic_in_sync_calls pic_in_sync_init pic_calls_keep_flags)

text \<open>The end-of-interrupt protocol: for a line of the master one specific EOI goes to the
  master; for a line of the slave the slave is acknowledged first, with the line's number on the
  slave, and then the cascade line on the master. Nothing else is sent and no mask changes.\<close>

theorem send_eoi_protocol:
  assumes "unat n < 16"
  shows "io_trace (send_eoi n s) =
    (if unat n < 8 then [Out8 0x20 (0x60 OR ucast n)]
     else [Out8 0x20 0x62, Out8 0xA0 (0x60 OR ucast (n - 8))]) @ io_trace s \<and>
    master_mask (send_eoi n s) = master_mask s \<and> slave_mask (send_eoi n s) = slave_mask s"
  using word_lt_cases [OF assms]
  by (auto simp: enum_lt send_eoi_def kernel_simps pic_consts)

theorem send_eoi_protocol_witness:
  "unat (8 :: u32) < 16 \<and>
   io_trace (send_eoi 8 pic_demo) = [Out8 0x20 0x62, Out8 0xA0 0x60]"
proof -
  have h: "unat (8 :: u32) < 16" by simp
  show ?thesis using send_eoi_protocol [OF h, of pic_demo] by (simp add: pic_demo_def)
qed

end
