(* ===== verification/Rtc.thy ===== *)
theory Rtc
  imports Pic
begin

text \<open>
  The real-time clock driver, \<^verbatim>\<open>rtc.c\<close>, with its interrupt handler
  \<^verbatim>\<open>do_idt_rtc\<close> of \<^verbatim>\<open>hardware_intr_handlers.c\<close>. The CMOS chip is the device parameter of the
  port reads. \<^verbatim>\<open>rtc_read\<close> spins until an interrupt handler sets a flag: the interrupts that
  may be taken between two polls are a list of state transformers, and the result is
  \<^term>\<open>None\<close> when they end before the loop does.
\<close>

unbundle bit_operations_syntax

section \<open>The driver\<close>

definition RTC_REGISTER :: u16 where "RTC_REGISTER = 0x70"
definition IO_PORT :: u16 where "IO_PORT = 0x71"
definition STATUS_REG_A :: u8 where "STATUS_REG_A = 0x8A"
definition STATUS_REG_B :: u8 where "STATUS_REG_B = 0x8B"
definition STATUS_REG_C :: u8 where "STATUS_REG_C = 0x8C"
definition BIT6_MASK :: u8 where "BIT6_MASK = 0x40"
definition INT_MAX :: int where "INT_MAX = 0x7FFFFFFF"
definition SIXTEEN :: int where "SIXTEEN = 0x0F"
definition TOP4BITS :: u8 where "TOP4BITS = 0xF0"

lemmas rtc_consts =
  RTC_REGISTER_def IO_PORT_def STATUS_REG_A_def STATUS_REG_B_def STATUS_REG_C_def
  BIT6_MASK_def INT_MAX_def SIXTEEN_def TOP4BITS_def

record rtc = pic +
  interrupt_received :: int

text \<open>
  The recursion of \<^verbatim>\<open>rtc_get_power_of_2\<close> does not end on every argument, and its addition can
  leave the range of \<^verbatim>\<open>int32_t\<close>.
\<close>

partial_function (option) rtc_get_power_of_2 :: "int \<Rightarrow> int option" where
  "rtc_get_power_of_2 number =
     (if number = 1 then Some 0
      else if cmod number 2 = 1 then Some INT_MAX
      else do { r \<leftarrow> rtc_get_power_of_2 (cdiv number 2); Some (wrap32 (1 + r)) })"

definition rtc_set_frequency ::
  "device \<Rightarrow> int \<Rightarrow> 'a rtc_scheme \<Rightarrow> (int \<times> 'a rtc_scheme) option" where
  "rtc_set_frequency dev frequency s0 = (
     let (flags, s) = cli_and_save s0 in
     if frequency < 2 \<or> frequency > 1024 then Some (-1, restore_flags flags s)
     else do {
       power_of_2 \<leftarrow> rtc_get_power_of_2 frequency;
       if power_of_2 = INT_MAX then Some (-1, restore_flags flags s)
       else
         let rate = wrap32 (16 - power_of_2);
             rate = rate AND SIXTEEN;
             s = outb STATUS_REG_A RTC_REGISTER s;
             (prev, s) = inb dev IO_PORT s;
             s = outb STATUS_REG_A RTC_REGISTER s;
             s = outb ((ucast prev AND TOP4BITS) OR word_of_int rate) IO_PORT s
         in Some (0, restore_flags flags s) })"

definition rtc_init :: "device \<Rightarrow> 'a rtc_scheme \<Rightarrow> 'a rtc_scheme" where
  "rtc_init dev s = (
     let s = outb STATUS_REG_B RTC_REGISTER s;
         (prev, s) = inb dev IO_PORT s;
         s = outb STATUS_REG_B RTC_REGISTER s;
         s = outb (ucast prev OR BIT6_MASK) IO_PORT s
     in s\<lparr>interrupt_received := 0\<rparr>)"

definition rtc_open :: "device \<Rightarrow> 'a rtc_scheme \<Rightarrow> (int \<times> 'a rtc_scheme) option" where
  "rtc_open dev s = (
     let s = rtc_init dev s;
         s = enable_irq 8 s
     in do { (_, s) \<leftarrow> rtc_set_frequency dev 2 s; Some (0, s) })"

definition rtc_close :: "device \<Rightarrow> 'a rtc_scheme \<Rightarrow> (int \<times> 'a rtc_scheme) option" where
  "rtc_close dev s = do { (_, s) \<leftarrow> rtc_set_frequency dev 2 s; Some (0, s) }"

text \<open>\<^verbatim>\<open>rtc_write\<close> takes the frequency from the first four bytes of the buffer, whatever
  \<^verbatim>\<open>nbytes\<close> says.\<close>

definition rtc_write ::
  "device \<Rightarrow> u32 \<Rightarrow> int \<Rightarrow> 'a rtc_scheme \<Rightarrow> (int \<times> 'a rtc_scheme) option" where
  "rtc_write dev buf nbytes s =
     (let freq = sint (ld32 (mem s) buf) in rtc_set_frequency dev freq s)"

definition rtc_process_interrupt :: "device \<Rightarrow> 'a rtc_scheme \<Rightarrow> 'a rtc_scheme" where
  "rtc_process_interrupt dev s0 = (
     let (flags, s) = cli_and_save s0;
         s = outb STATUS_REG_C RTC_REGISTER s;
         (_, s) = inb dev IO_PORT s;
         s = s\<lparr>interrupt_received := 1\<rparr>
     in restore_flags flags s)"

definition do_idt_rtc :: "device \<Rightarrow> 'a rtc_scheme \<Rightarrow> 'a rtc_scheme" where
  "do_idt_rtc dev s = send_eoi 8 (rtc_process_interrupt dev s)"

fun rtc_read_spin :: "('a rtc_scheme \<Rightarrow> 'a rtc_scheme) list \<Rightarrow> 'a rtc_scheme \<Rightarrow>
    (int \<times> 'a rtc_scheme) option" where
  "rtc_read_spin [] s = (if interrupt_received s = 1 then Some (0, s) else None)"
| "rtc_read_spin (intr # rest) s =
     (if interrupt_received s = 1 then Some (0, s) else rtc_read_spin rest (intr s))"

definition rtc_read :: "('a rtc_scheme \<Rightarrow> 'a rtc_scheme) list \<Rightarrow> 'a rtc_scheme \<Rightarrow>
    (int \<times> 'a rtc_scheme) option" where
  "rtc_read intrs s = rtc_read_spin intrs (s\<lparr>interrupt_received := 0\<rparr>)"

section \<open>The logarithm\<close>

lemma power_of_2_one: "rtc_get_power_of_2 1 = Some 0"
  by (simp add: rtc_get_power_of_2.simps)

lemma power_of_2_odd: "1 < n \<Longrightarrow> n mod 2 = 1 \<Longrightarrow> rtc_get_power_of_2 n = Some INT_MAX"
  by (simp add: rtc_get_power_of_2.simps [of n] cmod_pos)

lemma power_of_2_even:
  "0 < m \<Longrightarrow> rtc_get_power_of_2 (2 * m) = do { r \<leftarrow> rtc_get_power_of_2 m; Some (wrap32 (1 + r)) }"
  by (simp add: rtc_get_power_of_2.simps [of "2 * m"] cmod_pos cdiv_pos)

lemma power_of_2_power: "k < 32 \<Longrightarrow> rtc_get_power_of_2 (2 ^ k) = Some (int k)"
proof (induction k)
  case 0
  show ?case by (simp add: power_of_2_one)
next
  case (Suc k)
  then show ?case by (simp add: power_of_2_even wrap32_id)
qed

text \<open>
  On an even number that is not a power of two the recursion meets an odd factor and then adds
  to the error value \<^verbatim>\<open>INT_MAX\<close>.
\<close>

lemma power_of_2_multiple:
  assumes "1 < m" and "m mod 2 = 1" and "0 < k" and "k < 32"
  shows "rtc_get_power_of_2 (2 ^ k * m) = Some (int k - 2147483649)"
  using assms(3,4)
proof (induction k)
  case (Suc k)
  have eq: "rtc_get_power_of_2 (2 ^ Suc k * m) =
      do { r \<leftarrow> rtc_get_power_of_2 (2 ^ k * m); Some (wrap32 (1 + r)) }"
    using power_of_2_even [of "2 ^ k * m"] assms(1) by (simp add: mult.assoc)
  show ?case
  proof (cases "k = 0")
    case True
    have "wrap32 2147483648 = - 2147483648" by (simp add: wrap32_def)
    with True eq assms(1,2) show ?thesis by (simp add: power_of_2_odd INT_MAX_def)
  next
    case False
    with Suc have "rtc_get_power_of_2 (2 ^ k * m) = Some (int k - 2147483649)" by simp
    with eq Suc.prems show ?thesis by (simp add: wrap32_id)
  qed
qed simp

text \<open>It returns for positive arguments only.\<close>

lemma power_of_2_returns_pos: "rtc_get_power_of_2 n = Some r \<Longrightarrow> 0 < \<bar>n\<bar>"
proof (rule rtc_get_power_of_2.raw_induct [where P = "\<lambda>n r. 0 < \<bar>n\<bar>"])
  fix f n r
  assume IH: "\<And>n r. f n = Some r \<Longrightarrow> 0 < \<bar>n\<bar>"
    and eq: "(if n = 1 then Some 0 else if cmod n 2 = 1 then Some INT_MAX
       else do { r \<leftarrow> f (cdiv n 2); Some (wrap32 (1 + r)) }) = Some r"
  show "0 < \<bar>n\<bar>"
  proof (rule ccontr)
    assume "\<not> 0 < \<bar>n\<bar>"
    then have "n = 0" by simp
    with eq obtain r' where "f 0 = Some r'"
      by (auto simp: cmod_def cdiv_def bind_eq_Some_conv)
    then show False using IH by force
  qed
qed

section \<open>What setting the frequency does\<close>

text \<open>The state after the rate \<^term>\<open>r\<close> has been put into the low half of register A.\<close>

definition rate_programmed :: "device \<Rightarrow> u8 \<Rightarrow> 'a rtc_scheme \<Rightarrow> 'a rtc_scheme" where
  "rate_programmed dev r s =
     (let v = dev (Out8 0x70 0x8A # io_trace s) 0x71
      in s\<lparr>io_trace := [Out8 0x71 ((v AND 0xF0) OR r), Out8 0x70 0x8A, In8 0x71 v, Out8 0x70 0x8A]
            @ io_trace s\<rparr>)"

lemma set_frequency_reject:
  "frequency < 2 \<or> frequency > 1024 \<or> rtc_get_power_of_2 frequency = Some INT_MAX \<Longrightarrow>
   rtc_set_frequency dev frequency s = Some (-1, s)"
  by (auto simp: rtc_set_frequency_def kernel_simps)

lemma set_frequency_accept:
  assumes "2 \<le> frequency" "frequency \<le> 1024"
    and "rtc_get_power_of_2 frequency = Some p" "p \<noteq> INT_MAX"
    and "r = word_of_int (wrap32 (16 - p) AND 15)"
  shows "rtc_set_frequency dev frequency s = Some (0, rate_programmed dev r s)"
  using assms
  by (simp add: rtc_set_frequency_def rate_programmed_def kernel_simps rtc_consts)

text \<open>Every frequency in the accepted range is a power of two times an odd number.\<close>

lemma odd_part:
  "0 < (n :: int) \<Longrightarrow> \<exists>k m. n = 2 ^ k * m \<and> m mod 2 = 1 \<and> 0 < m"
proof (induction "nat n" arbitrary: n rule: less_induct)
  case less
  show ?case
  proof (cases "n mod 2 = 1")
    case True
    then have "n = 2 ^ 0 * n \<and> n mod 2 = 1 \<and> 0 < n" using less.prems by simp
    then show ?thesis by blast
  next
    case False
    then obtain m where m: "n = 2 * m" by (metis dvd_def mod_2_eq_odd one_mod_two_eq_one odd_iff_mod_2_eq_one)
    with less.prems have "0 < m" "nat m < nat n" by auto
    then obtain k j where "m = 2 ^ k * j \<and> j mod 2 = 1 \<and> 0 < j" using less.hyps by blast
    with m have "n = 2 ^ Suc k * j \<and> j mod 2 = 1 \<and> 0 < j" by simp
    then show ?thesis by blast
  qed
qed

lemma exponent_bound:
  assumes "2 ^ k * (m :: int) \<le> 2 ^ j" and "0 < m"
  shows "k \<le> j"
proof -
  have "(2 :: int) ^ k \<le> 2 ^ k * m" using assms(2) by simp
  then have "(2 :: int) ^ k \<le> 2 ^ j" using assms(1) by linarith
  then show ?thesis by simp
qed

lemma set_frequency_total: "\<exists>r t. rtc_set_frequency dev frequency s = Some (r, t) \<and> (r = 0 \<or> r = -1)"
proof (cases "frequency < 2 \<or> frequency > 1024")
  case True
  then have "rtc_set_frequency dev frequency s = Some (-1, s)"
    using set_frequency_reject by blast
  then show ?thesis by blast
next
  case False
  then obtain k m where km: "frequency = 2 ^ k * m" "m mod 2 = 1" "0 < m"
    using odd_part [of frequency] by auto
  have "2 ^ k * m \<le> 2 ^ 10" using False km by simp
  then have k: "k < 32" using exponent_bound [of k m 10] km by simp
  have "\<exists>p. rtc_get_power_of_2 frequency = Some p"
  proof (cases "m = 1")
    case True
    then show ?thesis using km k power_of_2_power [of k] by simp
  next
    case m: False
    show ?thesis
    proof (cases "k = 0")
      case True
      then show ?thesis using m km power_of_2_odd [of m] by simp
    next
      case k0: False
      show ?thesis using power_of_2_multiple [of m k] m km k k0 by simp
    qed
  qed
  then obtain p where p: "rtc_get_power_of_2 frequency = Some p" by blast
  show ?thesis
  proof (cases "p = INT_MAX")
    case True
    then show ?thesis using p set_frequency_reject by blast
  next
    case ok: False
    have "rtc_set_frequency dev frequency s =
        Some (0, rate_programmed dev (word_of_int (wrap32 (16 - p) AND 15)) s)"
      by (rule set_frequency_accept) (use False p ok in auto)
    then show ?thesis by blast
  qed
qed

section \<open>Waiting for the next tick\<close>

text \<open>An interrupt that is not the clock's leaves the flag alone.\<close>

definition foreign_intr :: "('a rtc_scheme \<Rightarrow> 'a rtc_scheme) \<Rightarrow> bool" where
  "foreign_intr f = (\<forall>s. interrupt_received (f s) = interrupt_received s)"

lemma tick_received: "interrupt_received (do_idt_rtc dev s) = 1"
  by (simp add: do_idt_rtc_def rtc_process_interrupt_def send_eoi_def kernel_simps)

lemma rtc_spin_received: "interrupt_received s = 1 \<Longrightarrow> rtc_read_spin fs s = Some (0, s)"
  by (cases fs) simp_all

lemma rtc_spin_foreign:
  "\<forall>f \<in> set fs. foreign_intr f \<Longrightarrow> interrupt_received s = 0 \<Longrightarrow>
   rtc_read_spin (fs @ gs) s = rtc_read_spin gs (fold (\<lambda>f. f) fs s)"
  by (induction fs arbitrary: s) (auto simp: foreign_intr_def)

lemma foreign_fold:
  "\<forall>f \<in> set fs. foreign_intr f \<Longrightarrow> interrupt_received (fold (\<lambda>f. f) fs s) = interrupt_received s"
  by (induction fs arbitrary: s) (simp_all add: foreign_intr_def)

section \<open>Properties\<close>

definition rtc_demo :: rtc where
  "rtc_demo = \<lparr>mem = (\<lambda>_. 0), eflags = IF_MASK, io_trace = [], master_mask = 0xFF,
     slave_mask = 0xFF, interrupt_received = 0\<rparr>"

text \<open>Setting a frequency \<^term>\<open>(2::int) ^ k\<close> from 2 to 1024 Hz succeeds: the only effect is to
  read register A and write it back with its high half kept and the rate
  \<^term>\<open>(16::nat) - k\<close> in the low half, and that rate divides the chip's 32768 Hz down to exactly
  the frequency asked for. The interrupt flag is as before.\<close>

theorem rtc_power_of_two_programmed:
  assumes "1 \<le> k" and "k \<le> 10"
  shows "rtc_set_frequency dev (2 ^ k) s = Some (0, rate_programmed dev (of_nat (16 - k)) s) \<and>
    32768 div 2 ^ ((16 - k) - 1) = (2 ^ k :: nat)"
proof
  have c: "k \<in> {..<11}" using assms by simp
  have p: "rtc_get_power_of_2 (2 ^ k) = Some (int k)" using assms by (simp add: power_of_2_power)
  have lo: "(2 :: int) \<le> 2 ^ k" and hi: "(2 :: int) ^ k \<le> 1024"
    using assms c by (auto simp: enum_lt)
  have "of_nat (16 - k) = (word_of_int (wrap32 (16 - int k) AND 15) :: u8)"
    using assms c by (auto simp: enum_lt wrap32_id)
  then show "rtc_set_frequency dev (2 ^ k) s = Some (0, rate_programmed dev (of_nat (16 - k)) s)"
    using assms by (intro set_frequency_accept [OF lo hi p]) (auto simp: INT_MAX_def)
  show "32768 div 2 ^ ((16 - k) - 1) = (2 ^ k :: nat)"
    using assms c by (auto simp: enum_lt)
qed

theorem rtc_power_of_two_programmed_witness:
  "(1 :: nat) \<le> 5 \<and> (5 :: nat) \<le> 10 \<and>
   rtc_set_frequency (\<lambda>_ _. 0x26) 32 rtc_demo = Some (0, rate_programmed (\<lambda>_ _. 0x26) 11 rtc_demo)"
proof -
  have h: "(1 :: nat) \<le> 5" "(5 :: nat) \<le> 10" by simp_all
  show ?thesis
    using rtc_power_of_two_programmed [OF h, of "\<lambda>_ _. 0x26" rtc_demo] by simp
qed

text \<open>For every argument the call returns, with 0 or -1: the recursion that computes the
  logarithm, which does not end on 0, is only entered on arguments where it ends. Below 2, above
  1024 and on odd numbers the result is -1 and neither the chip nor any other state is touched.\<close>

theorem rtc_set_frequency_returns:
  "(\<exists>r t. rtc_set_frequency dev frequency s = Some (r, t) \<and> (r = 0 \<or> r = -1)) \<and>
   (frequency < 2 \<or> frequency > 1024 \<or> frequency mod 2 = 1 \<longrightarrow>
     rtc_set_frequency dev frequency s = Some (-1, s)) \<and>
   rtc_get_power_of_2 0 = None"
proof (intro conjI impI)
  show "\<exists>r t. rtc_set_frequency dev frequency s = Some (r, t) \<and> (r = 0 \<or> r = -1)"
    by (rule set_frequency_total)
  show "rtc_get_power_of_2 0 = None"
    using power_of_2_returns_pos [of 0] by (cases "rtc_get_power_of_2 0") auto
  assume h: "frequency < 2 \<or> frequency > 1024 \<or> frequency mod 2 = 1"
  show "rtc_set_frequency dev frequency s = Some (-1, s)"
  proof (cases "frequency < 2 \<or> frequency > 1024")
    case False
    then have "rtc_get_power_of_2 frequency = Some INT_MAX"
      using h by (intro power_of_2_odd) auto
    then show ?thesis using set_frequency_reject by blast
  next
    case True
    then show ?thesis using set_frequency_reject by blast
  qed
qed

theorem rtc_set_frequency_returns_witness:
  "(7 :: int) mod 2 = 1 \<and> rtc_set_frequency (\<lambda>_ _. 0) 7 rtc_demo = Some (-1, rtc_demo)"
  using rtc_set_frequency_returns [of "\<lambda>_ _. 0" 7 rtc_demo] by simp

text \<open>An even number in the range that is not a power of two is not rejected: the error value
  of the recursion is added to and overflows, the comparison with it fails, the call returns 0,
  and the rate programmed is \<^term>\<open>((17::nat) - k) mod 16\<close> for the exponent \<^term>\<open>k\<close> of 2 in the
  number, so 6 Hz stops the periodic interrupt (rate 0) and 12 Hz gives 2 Hz (rate 15).\<close>

theorem rtc_even_non_power_accepted:
  assumes "1 < m" and "m mod 2 = 1" and "0 < k" and "2 ^ k * m \<le> 1024"
  shows "rtc_set_frequency dev (2 ^ k * m) s =
    Some (0, rate_programmed dev (of_nat ((17 - k) mod 16)) s)"
proof -
  have "2 ^ k * m \<le> 2 ^ 10" using assms(4) by simp
  then have k10: "k \<le> 10" using exponent_bound [of k m 10] assms by simp
  then have c: "k \<in> {..<11}" by simp
  have p: "rtc_get_power_of_2 (2 ^ k * m) = Some (int k - 2147483649)"
    using assms k10 by (simp add: power_of_2_multiple)
  have "(1 :: int) \<le> 2 ^ k" by simp
  then have "1 * m \<le> 2 ^ k * m" using assms(1) by (intro mult_right_mono) auto
  then have lo: "2 \<le> 2 ^ k * m" using assms(1) by linarith
  have "of_nat ((17 - k) mod 16) =
      (word_of_int (wrap32 (16 - (int k - 2147483649)) AND 15) :: u8)"
    using assms(3) c by (auto simp: enum_lt wrap32_def)
  then show ?thesis
    using k10 by (intro set_frequency_accept [OF lo assms(4) p]) (auto simp: INT_MAX_def)
qed

theorem rtc_even_non_power_accepted_witness:
  "(1 :: int) < 3 \<and> (3 :: int) mod 2 = 1 \<and> (0 :: nat) < 1 \<and> (2 :: int) ^ 1 * 3 \<le> 1024 \<and>
   rtc_set_frequency (\<lambda>_ _. 0x26) 6 rtc_demo = Some (0, rate_programmed (\<lambda>_ _. 0x26) 0 rtc_demo)"
proof -
  have h: "(1 :: int) < 3" "(3 :: int) mod 2 = 1" "(0 :: nat) < 1" "(2 :: int) ^ 1 * 3 \<le> 1024"
    by simp_all
  show ?thesis using rtc_even_non_power_accepted [OF h, of "\<lambda>_ _. 0x26" rtc_demo] by simp
qed

text \<open>A read of the clock waits for the next tick: ticks before the call do not count, other
  interrupts do not end the wait, it does not return before a clock interrupt is taken, and it
  returns 0 in the state right after the first one.\<close>

theorem rtc_read_waits_for_tick:
  assumes "\<forall>f \<in> set fs. foreign_intr f"
  shows "rtc_read fs s = None \<and>
    rtc_read (fs @ do_idt_rtc dev # gs) s =
      Some (0, do_idt_rtc dev (fold (\<lambda>f. f) fs (s\<lparr>interrupt_received := 0\<rparr>)))"
proof -
  let ?s = "s\<lparr>interrupt_received := 0\<rparr>"
  have r0: "interrupt_received (fold (\<lambda>f. f) fs ?s) = 0"
    using foreign_fold [OF assms, of ?s] by simp
  have "rtc_read_spin fs ?s = rtc_read_spin [] (fold (\<lambda>f. f) fs ?s)"
    using rtc_spin_foreign [OF assms, of ?s "[]"] by simp
  moreover have "rtc_read_spin (fs @ do_idt_rtc dev # gs) ?s =
      rtc_read_spin gs (do_idt_rtc dev (fold (\<lambda>f. f) fs ?s))"
    using rtc_spin_foreign [OF assms, of ?s "do_idt_rtc dev # gs"] r0 by simp
  ultimately show ?thesis
    using r0 by (simp add: rtc_read_def rtc_spin_received tick_received)
qed

theorem rtc_read_waits_for_tick_witness:
  "foreign_intr (send_eoi 1 :: rtc \<Rightarrow> rtc) \<and>
   rtc_read [send_eoi 1, do_idt_rtc (\<lambda>_ _. 0)] rtc_demo =
     Some (0, do_idt_rtc (\<lambda>_ _. 0) (send_eoi 1 rtc_demo))"
proof -
  have h: "\<forall>f \<in> set [send_eoi 1 :: rtc \<Rightarrow> rtc]. foreign_intr f"
    by (simp add: foreign_intr_def send_eoi_def kernel_simps)
  have e: "rtc_demo\<lparr>interrupt_received := 0\<rparr> = rtc_demo" by (simp add: rtc_demo_def)
  show ?thesis
    using rtc_read_waits_for_tick [OF h, of rtc_demo "\<lambda>_ _. 0" "[]"] h by (simp add: e)
qed

end
