(* ===== verification/Pit.thy ===== *)
theory Pit
  imports Rtc
begin

text \<open>
  The interval timer driver, \<^verbatim>\<open>pit.c\<close>, without \<^verbatim>\<open>pit_process_interrupt\<close> (which switches
  tasks and belongs to the scheduler): programming channel 0 of the timer, and opening and
  closing its interrupt line.
\<close>

unbundle bit_operations_syntax

section \<open>The driver\<close>

definition PIT_CHANNEL_0 :: u16 where "PIT_CHANNEL_0 = 0x40"
definition PIT_COMMAND :: u16 where "PIT_COMMAND = 0x43"
definition PIT_FREQUENCY :: u32 where "PIT_FREQUENCY = 1193182"
definition PIT_MAX_FREQ :: u32 where "PIT_MAX_FREQ = PIT_FREQUENCY"
definition PIT_MIN_FREQ :: u32 where "PIT_MIN_FREQ = 19"
definition INIT_FREQUENCY :: u32 where "INIT_FREQUENCY = 300"
definition ACCESS_MODE_LOHIBYTE :: u8 where "ACCESS_MODE_LOHIBYTE = 0x30"
definition OPERATING_MODE_3 :: u8 where "OPERATING_MODE_3 = 0x6"

lemmas pit_consts =
  PIT_CHANNEL_0_def PIT_COMMAND_def PIT_FREQUENCY_def PIT_MAX_FREQ_def PIT_MIN_FREQ_def
  INIT_FREQUENCY_def ACCESS_MODE_LOHIBYTE_def OPERATING_MODE_3_def

definition pit_set_frequency :: "u32 \<Rightarrow> 'a rtc_scheme \<Rightarrow> int \<times> 'a rtc_scheme" where
  "pit_set_frequency frequency s0 = (
     let (flags, s) = cli_and_save s0 in
     if frequency > PIT_MAX_FREQ \<or> frequency < PIT_MIN_FREQ then (-1, restore_flags flags s)
     else
       let dh = ucast (drop_bit 8 (PIT_FREQUENCY div frequency)) :: u8;
           dl = ucast (PIT_FREQUENCY div frequency) :: u8;
           s = outb dl PIT_CHANNEL_0 s;
           s = outb dh PIT_CHANNEL_0 s
       in (0, restore_flags flags s))"

definition pit_enable :: "'a rtc_scheme \<Rightarrow> 'a rtc_scheme" where
  "pit_enable s = enable_irq 0 s"

definition pit_disable :: "'a rtc_scheme \<Rightarrow> 'a rtc_scheme" where
  "pit_disable s = disable_irq 0 s"

definition pit_init :: "'a rtc_scheme \<Rightarrow> int \<times> 'a rtc_scheme" where
  "pit_init s = (
     let s = outb (ACCESS_MODE_LOHIBYTE OR OPERATING_MODE_3) PIT_COMMAND s;
         (_, s) = pit_set_frequency INIT_FREQUENCY s;
         s = pit_enable s
     in (0, s))"

section \<open>Properties\<close>

text \<open>The two bytes together are the 16-bit divisor.\<close>

lemma two_bytes:
  fixes q :: u32
  assumes "unat q < 65536"
  shows "unat (ucast (drop_bit 8 q) :: u8) * 256 + unat (ucast q :: u8) = unat q"
proof -
  have "unat (ucast (drop_bit 8 q) :: u8) = unat q div 256"
    using assms by (simp add: unsigned_ucast_eq drop_bit_eq_div unat_div take_bit_eq_mod less_mult_imp_div_less)
  moreover have "unat (ucast q :: u8) = unat q mod 256"
    by (simp add: unsigned_ucast_eq take_bit_eq_mod)
  ultimately show ?thesis by simp
qed

text \<open>For a frequency from 19 to 1193182 Hz the timer is given the low and then the high byte of
  a divisor that fits in its 16 bits and is the base frequency divided by the argument, rounded
  down; outside that range the call returns -1 and sends nothing. No other state changes.\<close>

theorem pit_divisor_programmed:
  "(let f = unat frequency; (r, t) = pit_set_frequency frequency s in
    if 19 \<le> f \<and> f \<le> 1193182 then
      r = 0 \<and> (\<exists>lo hi. t = s\<lparr>io_trace := [Out8 0x40 hi, Out8 0x40 lo] @ io_trace s\<rparr> \<and>
        unat hi * 256 + unat lo = 1193182 div f)
    else r = -1 \<and> t = s)"
proof (cases "19 \<le> unat frequency \<and> unat frequency \<le> 1193182")
  case True
  have "1193182 div unat frequency \<le> 1193182 div 19"
    using True by (intro div_le_mono2) auto
  then have "unat (1193182 div frequency) < 65536" by (simp add: unat_div)
  from two_bytes [OF this] have q:
    "unat (ucast (drop_bit 8 (1193182 div frequency)) :: u8) * 256 +
     unat (ucast (1193182 div frequency) :: u8) = 1193182 div unat frequency"
    by (simp add: unat_div)
  have "\<not> frequency > 1193182 \<and> \<not> frequency < 19"
    using True by (simp add: word_less_nat_alt)
  with True q show ?thesis
    by (auto simp: pit_set_frequency_def kernel_simps pit_consts)
next
  case False
  then have "frequency > 1193182 \<or> frequency < 19"
    by (auto simp: word_less_nat_alt)
  with False show ?thesis
    by (auto simp: pit_set_frequency_def kernel_simps pit_consts)
qed

text \<open>Initialisation selects mode 3 with a two-byte load on channel 0, programs the divisor
  3977 (300 Hz), opens line 0 and returns 0.\<close>

theorem pit_init_programs_300hz:
  "fst (pit_init s) = 0 \<and>
   writes_to 0x40 (io_trace (snd (pit_init s))) =
     [ucast (drop_bit 8 (3977 :: u16)), ucast (3977 :: u16)] @ writes_to 0x40 (io_trace s) \<and>
   writes_to 0x43 (io_trace (snd (pit_init s))) = 0x36 # writes_to 0x43 (io_trace s) \<and>
   enabled_lines (snd (pit_init s)) = insert 0 (enabled_lines s)"
proof -
  have "enabled_lines (snd (pit_init s)) = insert 0 (enabled_lines s)"
    using pic_lines.open_enable [of 0 "snd (pit_set_frequency INIT_FREQUENCY
      (outb (ACCESS_MODE_LOHIBYTE OR OPERATING_MODE_3) PIT_COMMAND s))"]
    by (auto simp: pit_init_def pit_enable_def pit_set_frequency_def kernel_simps pit_consts
        enabled_lines_def line_masked_def)
  then show ?thesis
    by (simp add: pit_init_def pit_enable_def pit_set_frequency_def enable_irq_def kernel_simps
        pit_consts pic_consts)
qed

end
