(* ===== verification/Console.thy ===== *)
theory Console
  imports Pit
begin

text \<open>
  The text screen of \<^verbatim>\<open>lib.c\<close>: the 80 by 25 character page, its software cursor and the
  hardware cursor. A page is its 4000 bytes, a character byte and an attribute byte for each
  cell, in an array with checked access; \<^verbatim>\<open>video_mem\<close> is the page at address
  \<^verbatim>\<open>VIDEO\<close>, and \<^verbatim>\<open>clear_line\<close> and \<^verbatim>\<open>scroll_up\<close> also work on the page a terminal keeps while
  it is not displayed. The abstract view of a page is its list of 2000 cells.
\<close>

unbundle bit_operations_syntax

section \<open>State\<close>

definition NUM_COLS :: int where "NUM_COLS = 80"
definition NUM_ROWS :: int where "NUM_ROWS = 25"
definition ATTRIB :: u8 where "ATTRIB = 0x7"
definition VGA_PORT :: u16 where "VGA_PORT = 0x03D4"
definition CURSOR_HI_INDEX :: int where "CURSOR_HI_INDEX = 0x0E"
definition CURSOR_LOW_INDEX :: int where "CURSOR_LOW_INDEX = 0x0F"

lemmas screen_consts = NUM_COLS_def NUM_ROWS_def ATTRIB_def

record console = rtc +
  screen_x :: int
  screen_y :: int
  video_mem :: "u8 list"

section \<open>Operations on a page\<close>

text \<open>
  \<^verbatim>\<open>memmove\<close> inside one array: the copy runs upwards when the source is not below the
  destination and downwards otherwise, one byte at a time (\<^verbatim>\<open>rep movsb\<close>).
\<close>

fun movsb_up :: "u8 list \<Rightarrow> nat \<Rightarrow> nat \<Rightarrow> nat \<Rightarrow> u8 list option" where
  "movsb_up buf dest src 0 = Some buf"
| "movsb_up buf dest src (Suc n) = do {
     b \<leftarrow> rd buf src;
     buf \<leftarrow> wr buf dest b;
     movsb_up buf (dest + 1) (src + 1) n }"

fun movsb_down :: "u8 list \<Rightarrow> nat \<Rightarrow> nat \<Rightarrow> nat \<Rightarrow> u8 list option" where
  "movsb_down buf dest src 0 = Some buf"
| "movsb_down buf dest src (Suc n) = do {
     b \<leftarrow> rd buf (src + n);
     buf \<leftarrow> wr buf (dest + n) b;
     movsb_down buf dest src n }"

definition memmove :: "u8 list \<Rightarrow> nat \<Rightarrow> nat \<Rightarrow> nat \<Rightarrow> u8 list option" where
  "memmove buf dest src n =
     (if dest \<le> src then movsb_up buf dest src n else movsb_down buf dest src n)"

definition clear_line :: "u8 list \<Rightarrow> int \<Rightarrow> u8 list option" where
  "clear_line video_memory rownum =
     (if rownum < 0 \<or> rownum \<ge> NUM_ROWS then Some video_memory
      else for_range 0 (nat NUM_COLS) (\<lambda>i vm. do {
             vm \<leftarrow> wri vm (NUM_COLS * rownum * 2 + int i * 2) (chr CHR '' '');
             wri vm (NUM_COLS * rownum * 2 + int i * 2 + 1) ATTRIB }) video_memory)"

definition scroll_up :: "u8 list \<Rightarrow> u8 list option" where
  "scroll_up video_memory = do {
     vm \<leftarrow> memmove video_memory 0 (nat (NUM_COLS * 2)) (nat (NUM_COLS * (NUM_ROWS - 1) * 2));
     clear_line vm (NUM_ROWS - 1) }"

section \<open>The screen\<close>

definition clear :: "'a console_scheme \<Rightarrow> 'a console_scheme option" where
  "clear s = do {
     vm \<leftarrow> for_range 0 (nat (NUM_ROWS * NUM_COLS)) (\<lambda>i vm. do {
             vm \<leftarrow> wri vm (int i * 2) (chr CHR '' '');
             wri vm (int i * 2 + 1) ATTRIB }) (video_mem s);
     Some (s\<lparr>video_mem := vm\<rparr>) }"

definition newline_byte :: "u8 \<Rightarrow> bool" where
  "newline_byte c = (c = 10 \<or> c = 13)"

definition putc :: "u8 \<Rightarrow> 'a console_scheme \<Rightarrow> 'a console_scheme option" where
  "putc c s =
     (if newline_byte c then
        (let s = s\<lparr>screen_y := screen_y s + 1\<rparr>;
             s = s\<lparr>screen_x := 0\<rparr>
         in if screen_y s \<ge> NUM_ROWS then do {
              vm \<leftarrow> scroll_up (video_mem s);
              Some (s\<lparr>video_mem := vm, screen_y := screen_y s - 1\<rparr>) }
            else Some s)
      else do {
        vm \<leftarrow> wri (video_mem s) ((NUM_COLS * screen_y s + screen_x s) * 2) c;
        vm \<leftarrow> wri vm ((NUM_COLS * screen_y s + screen_x s) * 2 + 1) ATTRIB;
        let s = s\<lparr>video_mem := vm\<rparr>;
            s = s\<lparr>screen_x := screen_x s + 1\<rparr>;
            s = s\<lparr>screen_x := cmod (screen_x s) NUM_COLS\<rparr>
        in Some (s\<lparr>screen_y := cmod (screen_y s + cdiv (screen_x s) NUM_COLS) NUM_ROWS\<rparr>) })"

definition get_cursor_pos :: "'a console_scheme \<Rightarrow> int \<times> int" where
  "get_cursor_pos s = (screen_x s, screen_y s)"

definition set_cursor_pos :: "int \<Rightarrow> int \<Rightarrow> 'a console_scheme \<Rightarrow> 'a console_scheme" where
  "set_cursor_pos x y s =
     (let s = (if x \<ge> 0 \<and> x < NUM_COLS then s\<lparr>screen_x := x\<rparr> else s)
      in if y \<ge> 0 \<and> y < NUM_ROWS then s\<lparr>screen_y := y\<rparr> else s)"

definition set_blinking_cursor_pos :: "int \<Rightarrow> int \<Rightarrow> 'a machine_scheme \<Rightarrow> 'a machine_scheme" where
  "set_blinking_cursor_pos x y s =
     (let y = (if x = 0 then y + 1 else y);
          fullNumber = y * NUM_COLS + x;
          lowEight = fullNumber AND 0xFF;
          highEight = drop_bit 8 fullNumber AND 0xFF;
          s = outw (word_of_int (highEight * 256 + CURSOR_HI_INDEX)) VGA_PORT s
      in outw (word_of_int (lowEight * 256 + CURSOR_LOW_INDEX)) VGA_PORT s)"

definition test_interrupts :: "'a console_scheme \<Rightarrow> 'a console_scheme option" where
  "test_interrupts s = do {
     vm \<leftarrow> for_range 0 (nat (NUM_ROWS * NUM_COLS)) (\<lambda>i vm. do {
             b \<leftarrow> rd vm (2 * i);
             wr vm (2 * i) (b + 1) }) (video_mem s);
     Some (s\<lparr>video_mem := vm\<rparr>) }"

section \<open>The abstract screen\<close>

text \<open>A page as its cells, row after row, and what a character does to a screen of cells.\<close>

definition page :: "u8 list \<Rightarrow> bool" where
  "page vm = (length vm = 4000)"

definition cells_of :: "u8 list \<Rightarrow> (u8 \<times> u8) list" where
  "cells_of vm = map (\<lambda>i. (vm ! (2 * i), vm ! (2 * i + 1))) [0..<2000]"

definition blank :: "u8 \<times> u8" where
  "blank = (32, 7)"

type_synonym screen = "int \<times> int \<times> (u8 \<times> u8) list"

definition type_char :: "u8 \<Rightarrow> screen \<Rightarrow> screen" where
  "type_char c sc = (case sc of (x, y, cells) \<Rightarrow>
     if newline_byte c
     then (if y = 24 then (0, 24, drop 80 cells @ replicate 80 blank) else (0, y + 1, cells))
     else ((x + 1) mod 80, y, cells[nat (80 * y + x) := (c, 7)]))"

definition on_screen :: "int \<Rightarrow> int \<Rightarrow> bool" where
  "on_screen x y = (0 \<le> x \<and> x < 80 \<and> 0 \<le> y \<and> y < 25)"

definition screen_ok :: "'a console_scheme \<Rightarrow> bool" where
  "screen_ok s = (on_screen (screen_x s) (screen_y s) \<and> page (video_mem s))"

definition screen_of :: "'a console_scheme \<Rightarrow> screen" where
  "screen_of s = (screen_x s, screen_y s, cells_of (video_mem s))"


section \<open>The byte copy\<close>

lemma movsb_up_correct:
  "dest \<le> src \<Longrightarrow> src + n \<le> length buf \<Longrightarrow>
   \<exists>out. movsb_up buf dest src n = Some out \<and> length out = length buf \<and>
     (\<forall>i < length buf. out ! i = (if dest \<le> i \<and> i < dest + n then buf ! (src + (i - dest)) else buf ! i))"
proof (induction n arbitrary: buf dest src)
  case 0
  then show ?case by auto
next
  case (Suc n)
  let ?b = "buf[dest := buf ! src]"
  obtain out where out: "movsb_up ?b (dest + 1) (src + 1) n = Some out" "length out = length buf"
    "\<forall>i < length buf. out ! i =
       (if dest + 1 \<le> i \<and> i < dest + 1 + n then ?b ! (src + 1 + (i - (dest + 1))) else ?b ! i)"
    using Suc.IH [of "dest + 1" "src + 1" ?b] Suc.prems by auto
  have "out ! i = (if dest \<le> i \<and> i < dest + Suc n then buf ! (src + (i - dest)) else buf ! i)"
    if "i < length buf" for i
  proof -
    have "src + 1 + (i - (dest + 1)) = src + (i - dest)" if "dest < i" using that by simp
    then show ?thesis
      using out(3) that Suc.prems
      by (cases "i = dest") (auto simp: nth_list_update)
  qed
  then show ?case using out Suc.prems by (simp add: arr_simps)
qed

lemma movsb_down_correct:
  "src < dest \<Longrightarrow> dest + n \<le> length buf \<Longrightarrow>
   \<exists>out. movsb_down buf dest src n = Some out \<and> length out = length buf \<and>
     (\<forall>i < length buf. out ! i = (if dest \<le> i \<and> i < dest + n then buf ! (src + (i - dest)) else buf ! i))"
proof (induction n arbitrary: buf)
  case 0
  then show ?case by auto
next
  case (Suc n)
  let ?b = "buf[dest + n := buf ! (src + n)]"
  obtain out where out: "movsb_down ?b dest src n = Some out" "length out = length buf"
    "\<forall>i < length buf. out ! i =
       (if dest \<le> i \<and> i < dest + n then ?b ! (src + (i - dest)) else ?b ! i)"
    using Suc.IH [of ?b] Suc.prems by auto
  have "out ! i = (if dest \<le> i \<and> i < dest + Suc n then buf ! (src + (i - dest)) else buf ! i)"
    if "i < length buf" for i
    using out(3) that Suc.prems
    by (cases "i = dest + n") (auto simp: nth_list_update)
  then show ?case using out Suc.prems by (simp add: arr_simps)
qed

text \<open>Both directions copy the bytes the source range held before the call.\<close>

lemma memmove_nth:
  assumes "dest + n \<le> length buf" and "src + n \<le> length buf"
  shows "\<exists>out. memmove buf dest src n = Some out \<and> length out = length buf \<and>
    (\<forall>i < length buf. out ! i = (if dest \<le> i \<and> i < dest + n then buf ! (src + (i - dest)) else buf ! i))"
  using movsb_up_correct [of dest src n buf] movsb_down_correct [of src dest n buf] assms
  by (cases "dest \<le> src") (simp_all add: memmove_def)

lemma memmove_append:
  assumes "dest + n \<le> length buf" and "src + n \<le> length buf"
  shows "memmove buf dest src n =
    Some (take dest buf @ take n (drop src buf) @ drop (dest + n) buf)"
proof -
  obtain out where out: "memmove buf dest src n = Some out" "length out = length buf"
    "\<forall>i < length buf. out ! i = (if dest \<le> i \<and> i < dest + n then buf ! (src + (i - dest)) else buf ! i)"
    using memmove_nth [OF assms] by auto
  have len: "length (take dest buf) = dest" "length (take n (drop src buf)) = n"
    using assms by simp_all
  have "out = take dest buf @ take n (drop src buf) @ drop (dest + n) buf"
  proof (rule nth_equalityI)
    show "length out = length (take dest buf @ take n (drop src buf) @ drop (dest + n) buf)"
      using out(2) assms by simp
    fix i assume "i < length out"
    then consider "i < dest" | "dest \<le> i" "i < dest + n" | "dest + n \<le> i" "i < length buf"
      using out(2) by linarith
    then show "out ! i = (take dest buf @ take n (drop src buf) @ drop (dest + n) buf) ! i"
      by cases (use out assms len in \<open>auto simp: nth_append simp del: length_take\<close>)
  qed
  with out show ?thesis by simp
qed

section \<open>Clearing and scrolling\<close>

text \<open>The page with the first \<^term>\<open>n\<close> cells from byte \<^term>\<open>base\<close> on blank.\<close>

definition blanked :: "nat \<Rightarrow> nat \<Rightarrow> u8 list \<Rightarrow> u8 list" where
  "blanked base n vm = map (\<lambda>j. if base \<le> j \<and> j < base + 2 * n
     then (if even (j - base) then 32 else 7) else vm ! j) [0..<length vm]"

lemma length_blanked [simp]: "length (blanked base n vm) = length vm"
  by (simp add: blanked_def)

lemma blanked_0: "blanked base 0 vm = vm"
  by (rule nth_equalityI) (auto simp: blanked_def)

lemma blanked_step:
  assumes "base + 2 * n + 1 < length vm"
  shows "do { vm' \<leftarrow> wri (blanked base n vm) (int base + int n * 2) (chr CHR '' '');
      wri vm' (int base + int n * 2 + 1) ATTRIB } = Some (blanked base (Suc n) vm)"
proof -
  have idx: "nat (int base + int n * 2) = base + 2 * n" "nat (int base + int n * 2 + 1) = base + 2 * n + 1"
    by simp_all
  have "(blanked base n vm)[base + 2 * n := 32, base + 2 * n + 1 := 7] = blanked base (Suc n) vm"
  proof (rule nth_equalityI)
    fix i
    assume "i < length ((blanked base n vm)[base + 2 * n := 32, base + 2 * n + 1 := 7])"
    then show "(blanked base n vm)[base + 2 * n := 32, base + 2 * n + 1 := 7] ! i =
        blanked base (Suc n) vm ! i"
      using assms by (cases "i = base + 2 * n"; cases "i = Suc (base + 2 * n)")
        (auto simp: blanked_def)
  qed simp
  then show ?thesis
    using assms by (simp add: wri_def idx arr_simps ATTRIB_def)
qed

lemma blank_loop:
  assumes "base + 2 * n \<le> length vm"
  shows "for_range 0 n (\<lambda>i vm. do { vm \<leftarrow> wri vm (int base + int i * 2) (chr CHR '' '');
      wri vm (int base + int i * 2 + 1) ATTRIB }) vm = Some (blanked base n vm)"
  by (rule for_range_closed) (use assms blanked_step in \<open>auto simp: blanked_0\<close>)

lemma clear_line_blanks:
  assumes "0 \<le> r" and "r < 25" and "page vm"
  shows "clear_line vm r = Some (blanked (160 * nat r) 80 vm)"
proof -
  have "160 * nat r + 2 * 80 \<le> length vm" using assms by (simp add: page_def)
  from blank_loop [OF this] show ?thesis
    using assms by (simp add: clear_line_def NUM_COLS_def NUM_ROWS_def mult.assoc mult.commute)
qed

lemma clear_blanks:
  assumes "page (video_mem s)"
  shows "clear s = Some (s\<lparr>video_mem := blanked 0 2000 (video_mem s)\<rparr>)"
  using blank_loop [of 0 2000 "video_mem s"] assms
  by (simp add: clear_def NUM_COLS_def NUM_ROWS_def page_def)

lemma length_cells_of [simp]: "length (cells_of vm) = 2000"
  by (simp add: cells_of_def)

lemma nth_cells_of: "i < 2000 \<Longrightarrow> cells_of vm ! i = (vm ! (2 * i), vm ! (2 * i + 1))"
  by (simp add: cells_of_def)

lemma cells_of_blanked:
  assumes "page vm"
  shows "cells_of (blanked (2 * b) n vm) =
    map (\<lambda>i. if b \<le> i \<and> i < b + n then blank else cells_of vm ! i) [0..<2000]"
  by (rule nth_equalityI)
    (use assms in \<open>auto simp: nth_cells_of blanked_def page_def blank_def\<close>)

lemma scroll_up_cells:
  assumes "page vm"
  shows "\<exists>out. scroll_up vm = Some out \<and> page out \<and>
    cells_of out = drop 80 (cells_of vm) @ replicate 80 blank"
proof -
  let ?m = "drop 160 vm @ drop 3840 vm"
  have m: "memmove vm 0 160 3840 = Some ?m" "page ?m"
    using memmove_append [of 0 3840 vm 160] assms by (simp_all add: page_def)
  have out: "scroll_up vm = Some (blanked 3840 80 ?m)"
    using m clear_line_blanks [of 24 ?m] by (simp add: scroll_up_def NUM_COLS_def NUM_ROWS_def)
  have "cells_of (blanked 3840 80 ?m) =
      map (\<lambda>i. if 1920 \<le> i \<and> i < 2000 then blank else cells_of ?m ! i) [0..<2000]"
    using cells_of_blanked [OF m(2), of 1920 80] by simp
  also have "\<dots> = drop 80 (cells_of vm) @ replicate 80 blank"
    by (rule nth_equalityI) (use assms in \<open>auto simp: nth_append nth_cells_of page_def\<close>)
  finally show ?thesis using out m(2) by (simp add: page_def)
qed

section \<open>Typing on the screen\<close>

text \<open>
  What a client of a character device relies on: a state that is \<^verbatim>\<open>ok\<close> shows a cursor on
  the screen, and each character takes it, without a fault, to a state that is \<^verbatim>\<open>ok\<close> and
  shows what \<^term>\<open>type_char\<close> prescribes.
\<close>

locale text_device =
  fixes put :: "u8 \<Rightarrow> 's \<Rightarrow> 's option"
    and view :: "'s \<Rightarrow> screen"
    and ok :: "'s \<Rightarrow> bool"
  assumes put_char: "ok s \<Longrightarrow> \<exists>t. put c s = Some t \<and> ok t \<and> view t = type_char c (view s)"
begin

lemma put_string:
  "ok s \<Longrightarrow> \<exists>t. fold_opt put cs s = Some t \<and> ok t \<and> view t = fold type_char cs (view s)"
proof (induction cs arbitrary: s)
  case Nil
  then show ?case by simp
next
  case (Cons c cs)
  obtain t where t: "put c s = Some t" "ok t" "view t = type_char c (view s)"
    using put_char [OF Cons.prems] by blast
  show ?case using Cons.IH [OF t(2)] t by simp
qed

end

lemma cells_of_put:
  assumes "page vm" and "k < 2000"
  shows "cells_of (vm[2 * k := c, 2 * k + 1 := a]) = (cells_of vm)[k := (c, a)]"
proof (rule nth_equalityI)
  fix i assume "i < length (cells_of (vm[2 * k := c, 2 * k + 1 := a]))"
  then show "cells_of (vm[2 * k := c, 2 * k + 1 := a]) ! i = (cells_of vm)[k := (c, a)] ! i"
    using assms by (cases "i = k")
      (auto simp: nth_cells_of page_def nth_list_update nth_Cons' dest: arg_cong [of _ _ even])
qed simp

lemma write_cell:
  assumes "page vm" and "on_screen x y"
  shows "do { vm \<leftarrow> wri vm ((NUM_COLS * y + x) * 2) c; wri vm ((NUM_COLS * y + x) * 2 + 1) ATTRIB } =
    Some (vm[2 * nat (80 * y + x) := c, 2 * nat (80 * y + x) + 1 := 7])"
proof -
  have "nat ((80 * y + x) * 2) = 2 * nat (80 * y + x)"
    "nat ((80 * y + x) * 2 + 1) = 2 * nat (80 * y + x) + 1"
    using assms(2) by (simp_all add: on_screen_def nat_mult_distrib nat_add_distrib)
  moreover have "nat (80 * y + x) < 2000" using assms(2) unfolding on_screen_def by linarith
  ultimately show ?thesis
    using assms by (simp add: wri_def arr_simps screen_consts page_def on_screen_def)
qed

lemma page_update [simp]: "page (vm[i := c]) = page vm"
  by (simp add: page_def)

lemma on_screen_next:
  assumes "on_screen x y"
  shows "cmod (x + 1) NUM_COLS = (x + 1) mod 80"
    and "cmod (y + cdiv ((x + 1) mod 80) NUM_COLS) NUM_ROWS = y"
    and "on_screen ((x + 1) mod 80) y"
    and "nat (80 * y + x) < 2000"
proof -
  show "nat (80 * y + x) < 2000" using assms unfolding on_screen_def by linarith
qed (use assms in \<open>auto simp: on_screen_def NUM_COLS_def NUM_ROWS_def cmod_pos cdiv_pos\<close>)

text \<open>
  \<^verbatim>\<open>putc\<close> and \<^verbatim>\<open>vputc\<close> run the same code on two places; \<^verbatim>\<open>page_put\<close> is their common
  effect on a cursor and a page.
\<close>

definition page_put :: "u8 \<Rightarrow> int \<Rightarrow> int \<Rightarrow> u8 list \<Rightarrow> (int \<times> int \<times> u8 list) option" where
  "page_put c x y vm =
     (if newline_byte c then
        (if y + 1 \<ge> NUM_ROWS then do { vm \<leftarrow> scroll_up vm; Some (0, y, vm) } else Some (0, y + 1, vm))
      else do {
        vm \<leftarrow> wri vm ((NUM_COLS * y + x) * 2) c;
        vm \<leftarrow> wri vm ((NUM_COLS * y + x) * 2 + 1) ATTRIB;
        let x = cmod (x + 1) NUM_COLS in Some (x, cmod (y + cdiv x NUM_COLS) NUM_ROWS, vm) })"

lemma page_put_shows:
  assumes "on_screen x y" and "page vm"
  shows "\<exists>x' y' vm'. page_put c x y vm = Some (x', y', vm') \<and> on_screen x' y' \<and> page vm' \<and>
    (x', y', cells_of vm') = type_char c (x, y, cells_of vm)"
proof (cases "newline_byte c")
  case True
  obtain out where "scroll_up vm = Some out" "page out"
    "cells_of out = drop 80 (cells_of vm) @ replicate 80 blank"
    using scroll_up_cells assms by auto
  then show ?thesis using True assms
    by (auto simp: page_put_def on_screen_def NUM_ROWS_def type_char_def)
next
  case False
  note w = write_cell [OF assms(2,1), of c] and n = on_screen_next [OF assms(1)]
  obtain vm' where "wri vm ((NUM_COLS * y + x) * 2) c = Some vm'"
    "wri vm' ((NUM_COLS * y + x) * 2 + 1) ATTRIB =
     Some (vm[2 * nat (80 * y + x) := c, 2 * nat (80 * y + x) + 1 := 7])"
    using w by (auto simp: bind_eq_Some_conv)
  then show ?thesis using False assms n
    by (simp add: page_put_def Let_def type_char_def cells_of_put del: One_nat_def)
qed

lemma putc_page_put:
  "putc c s = do { (x, y, vm) \<leftarrow> page_put c (screen_x s) (screen_y s) (video_mem s);
     Some (s\<lparr>screen_x := x, screen_y := y, video_mem := vm\<rparr>) }"
  by (auto simp: putc_def page_put_def Let_def bind_eq_Some_conv split: Option.bind_split)

lemma putc_shows:
  assumes "screen_ok s"
  shows "\<exists>t. putc c s = Some t \<and> screen_ok t \<and> screen_of t = type_char c (screen_of s)"
  using page_put_shows [of "screen_x s" "screen_y s" "video_mem s" c] assms
  by (auto simp: putc_page_put screen_ok_def screen_of_def)

interpretation console_dev: text_device putc screen_of screen_ok
  by unfold_locales (rule putc_shows)

text \<open>Only the cursor and the page change.\<close>

lemma putc_frame:
  "putc c s = Some t \<Longrightarrow> t = s\<lparr>screen_x := screen_x t, screen_y := screen_y t, video_mem := video_mem t\<rparr>"
  by (auto simp: putc_def Let_def bind_eq_Some_conv split: if_splits)

lemma set_cursor_ok [simp]: "screen_ok s \<Longrightarrow> screen_ok (set_cursor_pos x y s)"
  by (simp add: screen_ok_def set_cursor_pos_def on_screen_def NUM_COLS_def NUM_ROWS_def Let_def)

lemma clear_shows:
  assumes "page (video_mem s)"
  shows "\<exists>t. clear s = Some t \<and> page (video_mem t) \<and> cells_of (video_mem t) = replicate 2000 blank \<and>
    t = s\<lparr>video_mem := video_mem t\<rparr>"
proof -
  have "cells_of (blanked 0 2000 (video_mem s)) = replicate 2000 blank"
    using cells_of_blanked [OF assms, of 0 2000] by (auto intro: nth_equalityI)
  then show ?thesis using assms by (simp add: clear_blanks page_def)
qed

section \<open>Properties of the screen\<close>

definition console_demo :: console where
  "console_demo = \<lparr>mem = (\<lambda>_. 0), eflags = 0x200, io_trace = [], master_mask = 0, slave_mask = 0,
     interrupt_received = 0, screen_x = 79, screen_y = 3, video_mem = replicate 4000 0\<rparr>"

lemma console_demo_ok: "screen_ok console_demo"
  by (simp add: screen_ok_def console_demo_def page_def on_screen_def)

text \<open>\<^verbatim>\<open>memmove\<close> inside an array copies the bytes the source range held before the call, in
  whichever direction the ranges overlap, and changes nothing else.\<close>

theorem memmove_overlapping:
  assumes "dest + n \<le> length buf" and "src + n \<le> length buf"
  shows "memmove buf dest src n = Some (take dest buf @ take n (drop src buf) @ drop (dest + n) buf)"
  by (rule memmove_append [OF assms])

theorem memmove_overlapping_witness:
  "memmove [1, 2, 3, 4, 5] 1 0 3 = Some [1, 1, 2, 3, 5] \<and>
   memmove [1, 2, 3, 4, 5] 0 2 3 = Some [3, 4, 5, 4, 5]"
  using memmove_overlapping [of 1 3 "[1, 2, 3, 4, 5]" 0] memmove_overlapping [of 0 3 "[1, 2, 3, 4, 5]" 2]
  by (simp add: eval_nat_numeral)

text \<open>On a screen whose cursor is in the 80 by 25 area, printing any sequence of bytes stays inside
  the page, keeps the cursor in the area and shows exactly what typing the bytes one after the
  other shows: a newline goes to the next row or scrolls the last one, any other byte is put at the
  cursor with the standard attribute.\<close>

theorem putc_types_text:
  assumes "screen_ok s"
  shows "\<exists>t. fold_opt putc cs s = Some t \<and> screen_ok t \<and> screen_of t = fold type_char cs (screen_of s)"
  using assms by (rule console_dev.put_string)

theorem putc_types_text_witness:
  "screen_ok console_demo \<and> (\<exists>t. fold_opt putc [chr CHR ''A'', 10, chr CHR ''B''] console_demo = Some t \<and>
     screen_x t = 1 \<and> screen_y t = 4 \<and> cells_of (video_mem t) ! 319 = (chr CHR ''A'', 7))"
proof -
  obtain t where t: "fold_opt putc [chr CHR ''A'', 10, chr CHR ''B''] console_demo = Some t"
    "screen_of t = fold type_char [chr CHR ''A'', 10, chr CHR ''B''] (screen_of console_demo)"
    using putc_types_text [OF console_demo_ok] by blast
  have "screen_of console_demo = (79, 3, cells_of (replicate 4000 0))"
    by (simp add: screen_of_def console_demo_def)
  then have "screen_x t = 1 \<and> screen_y t = 4 \<and> cells_of (video_mem t) ! 319 = (chr CHR ''A'', 7)"
    using t(2) by (simp add: screen_of_def type_char_def newline_byte_def)
  then show ?thesis using t(1) console_demo_ok by blast
qed

text \<open>Printing 80 bytes none of which is a newline brings the cursor back to the row and the column
  it started from: at the end of a row the software cursor returns to the start of the same row, so
  a longer line overwrites itself.\<close>

lemma type_columns:
  "(\<forall>c \<in> set cs. \<not> newline_byte c) \<Longrightarrow> 0 \<le> x \<Longrightarrow> x < 80 \<Longrightarrow>
   \<exists>cells'. fold type_char cs (x, y, cells) = ((x + int (length cs)) mod 80, y, cells')"
proof (induction cs arbitrary: x cells)
  case Nil
  then show ?case by simp
next
  case (Cons c cs)
  obtain cells' where "fold type_char cs ((x + 1) mod 80, y, cells[nat (80 * y + x) := (c, 7)]) =
      (((x + 1) mod 80 + int (length cs)) mod 80, y, cells')"
    using Cons.IH [of "(x + 1) mod 80"] Cons.prems by auto
  moreover have "((x + 1) mod 80 + int (length cs)) mod 80 = (x + int (length (c # cs))) mod 80"
    using mod_add_left_eq [of "x + 1" 80 "int (length cs)"] by (simp add: algebra_simps)
  moreover have "type_char c (x, y, cells) = ((x + 1) mod 80, y, cells[nat (80 * y + x) := (c, 7)])"
    using Cons.prems by (simp add: type_char_def)
  ultimately show ?case by auto
qed

theorem full_row_returns_to_start:
  assumes "screen_ok s" and "\<forall>c \<in> set cs. \<not> newline_byte c" and "length cs = 80"
  shows "\<exists>t. fold_opt putc cs s = Some t \<and> screen_x t = screen_x s \<and> screen_y t = screen_y s"
proof -
  obtain t where t: "fold_opt putc cs s = Some t" "screen_of t = fold type_char cs (screen_of s)"
    using console_dev.put_string assms(1) by blast
  have "0 \<le> screen_x s" "screen_x s < 80" using assms(1) by (simp_all add: screen_ok_def on_screen_def)
  then obtain cells' where "fold type_char cs (screen_of s) = (screen_x s, screen_y s, cells')"
    using type_columns [OF assms(2)] assms(3) by (fastforce simp: screen_of_def)
  with t show ?thesis by (simp add: screen_of_def)
qed

theorem full_row_returns_to_start_witness:
  "screen_ok console_demo \<and> (\<exists>t. fold_opt putc (replicate 80 (chr CHR ''a'')) console_demo = Some t \<and>
     screen_x t = 79 \<and> screen_y t = 3)"
proof -
  have "\<forall>c \<in> set (replicate 80 (chr CHR ''a'')). \<not> newline_byte c" by (simp add: newline_byte_def)
  from full_row_returns_to_start [OF console_demo_ok this] console_demo_ok show ?thesis
    by (simp add: console_demo_def)
qed

text \<open>The hardware cursor is programmed with two port writes whose bytes together are the cell number
  of the position; when the column is 0 the row is taken one too far down, so a cursor at the start
  of the last row is programmed outside the 2000 cells of the page.\<close>

definition hw_cursor :: "'a machine_scheme \<Rightarrow> nat option" where
  "hw_cursor s = (case io_trace s of
     Out16 p1 lo # Out16 p2 hi # es \<Rightarrow>
       (if p1 = 0x3D4 \<and> p2 = 0x3D4 \<and> lo AND 0xFF = 0xF \<and> hi AND 0xFF = 0xE
        then Some (unat (drop_bit 8 hi) * 256 + unat (drop_bit 8 lo)) else None)
   | _ \<Rightarrow> None)"

lemma int_and_255: "(k :: int) AND 255 = k mod 256"
  using take_bit_eq_mask [of 8 k] by (simp add: take_bit_eq_mod mask_eq_exp_minus_1)

lemma cursor_word:
  assumes "0 \<le> a" and "a < 256" and "0 \<le> b" and "b < 256"
  shows "(word_of_int (a * 256 + b) :: u16) AND 0xFF = word_of_int b"
    and "unat (drop_bit 8 (word_of_int (a * 256 + b) :: u16)) = nat a"
proof -
  define w :: u16 where "w = word_of_int (a * 256 + b)"
  have r: "uint w = a * 256 + b"
    unfolding w_def using assms by (simp only: uint_word_of_int) simp
  have "uint (w AND 0xFF) = uint (word_of_int b :: u16)"
    using assms by (simp add: uint_and r int_and_255 uint_word_of_int)
  then show "(word_of_int (a * 256 + b) :: u16) AND 0xFF = word_of_int b"
    by (simp only: word_uint_eq_iff w_def)
  have "uint (drop_bit 8 w) = a"
    using assms by (simp add: drop_bit_eq_div uint_div r)
  then show "unat (drop_bit 8 (word_of_int (a * 256 + b) :: u16)) = nat a"
    by (simp only: unat_eq_nat_uint w_def)
qed

theorem hardware_cursor_programmed:
  assumes "on_screen x y"
  shows "hw_cursor (set_blinking_cursor_pos x y s) = Some (nat (80 * (if x = 0 then y + 1 else y) + x))"
proof -
  let ?v = "80 * (if x = 0 then y + 1 else y) + x"
  have v: "0 \<le> ?v" "?v < 65536" using assms by (auto simp: on_screen_def)
  have hi: "drop_bit 8 ?v AND 255 = ?v div 256"
    using v by (simp add: drop_bit_eq_div int_and_255)
  have lo: "?v AND 255 = ?v mod 256" by (rule int_and_255)
  have b: "0 \<le> ?v div 256" "?v div 256 < 256" "0 \<le> ?v mod 256" "?v mod 256 < 256"
    using v by simp_all
  have sum: "nat (?v div 256) * 256 + nat (?v mod 256) = nat ?v"
    using v(1) by (simp only: nat_div_distrib nat_mod_distrib) simp
  have st: "set_blinking_cursor_pos x y s = s\<lparr>io_trace :=
      Out16 0x3D4 (word_of_int (?v mod 256 * 256 + 15)) #
      Out16 0x3D4 (word_of_int (?v div 256 * 256 + 14)) # io_trace s\<rparr>"
    using hi lo by (simp add: set_blinking_cursor_pos_def outw_def Let_def NUM_COLS_def VGA_PORT_def
      CURSOR_HI_INDEX_def CURSOR_LOW_INDEX_def mult.commute split del: if_split)
  show ?thesis
    using cursor_word [OF b(3,4), of 15] cursor_word [OF b(1,2), of 14] sum
    by (simp add: st hw_cursor_def split del: if_split)
qed

theorem hardware_cursor_programmed_witness:
  "on_screen 5 2 \<and> hw_cursor (set_blinking_cursor_pos 5 2 console_demo) = Some 165 \<and>
   on_screen 0 24 \<and> hw_cursor (set_blinking_cursor_pos 0 24 console_demo) = Some 2000"
proof -
  have h: "on_screen 5 2" "on_screen 0 24" by (simp_all add: on_screen_def)
  show ?thesis
    using hardware_cursor_programmed [OF h(1), of console_demo]
      hardware_cursor_programmed [OF h(2), of console_demo] h by simp
qed

end
