(* ===== verification/TermBuffer.thy ===== *)
theory TermBuffer
  imports Console
begin

text \<open>
  The data of a virtual terminal (\<^verbatim>\<open>terminal.h\<close>) and the character output of \<^verbatim>\<open>lib.c\<close> to
  a terminal that is not displayed (\<^verbatim>\<open>vputc\<close>), which works on the terminal's own page. It is a
  second instance of the device that \<^theory_text>\<open>Console\<close> describes.
\<close>

definition MAX_SUPPORTED_TERMINALS :: nat where "MAX_SUPPORTED_TERMINALS = 3"
definition BUFFER_SIZE :: nat where "BUFFER_SIZE = 128"
definition MAX_SUPPORTED_HISTORY :: nat where "MAX_SUPPORTED_HISTORY = 16"
definition SHELL_OFFSET :: int where "SHELL_OFFSET = 7"

lemmas terminal_consts =
  MAX_SUPPORTED_TERMINALS_def BUFFER_SIZE_def MAX_SUPPORTED_HISTORY_def SHELL_OFFSET_def

datatype terminal_state = TERMINAL_IDLE | TERMINAL_READ | TERMINAL_DONE_READ | TERMINAL_WRITE

record terminal_line =
  input_pointer :: int
  line :: "u8 list"

record terminal =
  t_screen_x :: int
  t_screen_y :: int
  history_index :: int
  chars_printed :: int
  starting_offset :: int
  input :: terminal_line
  previous_input :: terminal_line
  video_buffer :: "u8 list"
  t_ptid :: u32
  input_history :: "terminal_line list"
  t_state :: terminal_state

definition vputc :: "u8 \<Rightarrow> terminal \<Rightarrow> terminal option" where
  "vputc c term =
     (if newline_byte c then
        (let term = term\<lparr>t_screen_y := t_screen_y term + 1\<rparr>;
             term = term\<lparr>t_screen_x := 0\<rparr>
         in if t_screen_y term \<ge> NUM_ROWS then do {
              vm \<leftarrow> scroll_up (video_buffer term);
              Some (term\<lparr>video_buffer := vm, t_screen_y := t_screen_y term - 1\<rparr>) }
            else Some term)
      else do {
        vm \<leftarrow> wri (video_buffer term) ((NUM_COLS * t_screen_y term + t_screen_x term) * 2) c;
        vm \<leftarrow> wri vm ((NUM_COLS * t_screen_y term + t_screen_x term) * 2 + 1) ATTRIB;
        let term = term\<lparr>video_buffer := vm\<rparr>;
            term = term\<lparr>t_screen_x := t_screen_x term + 1\<rparr>;
            term = term\<lparr>t_screen_x := cmod (t_screen_x term) NUM_COLS\<rparr>
        in Some (term\<lparr>t_screen_y :=
             cmod (t_screen_y term + cdiv (t_screen_x term) NUM_COLS) NUM_ROWS\<rparr>) })"

definition terminal_shown :: "terminal \<Rightarrow> bool" where
  "terminal_shown term = (on_screen (t_screen_x term) (t_screen_y term) \<and> page (video_buffer term))"

definition terminal_screen :: "terminal \<Rightarrow> screen" where
  "terminal_screen term = (t_screen_x term, t_screen_y term, cells_of (video_buffer term))"

lemma vputc_page_put:
  "vputc c s = do { (x, y, vm) \<leftarrow> page_put c (t_screen_x s) (t_screen_y s) (video_buffer s);
     Some (s\<lparr>t_screen_x := x, t_screen_y := y, video_buffer := vm\<rparr>) }"
  by (auto simp: vputc_def page_put_def Let_def bind_eq_Some_conv split: Option.bind_split)

lemma vputc_shows:
  assumes "terminal_shown s"
  shows "\<exists>t. vputc c s = Some t \<and> terminal_shown t \<and> terminal_screen t = type_char c (terminal_screen s)"
  using page_put_shows [of "t_screen_x s" "t_screen_y s" "video_buffer s" c] assms
  by (auto simp: vputc_page_put terminal_shown_def terminal_screen_def)

interpretation terminal_dev: text_device vputc terminal_screen terminal_shown
  by unfold_locales (rule vputc_shows)

lemma vputc_frame:
  "vputc c s = Some t \<Longrightarrow>
   t = s\<lparr>t_screen_x := t_screen_x t, t_screen_y := t_screen_y t, video_buffer := video_buffer t\<rparr>"
  by (auto simp: vputc_page_put bind_eq_Some_conv)

end
