(* ===== verification/CString.thy ===== *)
theory CString
  imports Kernel_Prelude
begin

text \<open>
  The string functions of \<^verbatim>\<open>lib.c\<close>. A pointer into an array is the array and an offset;
  reading or writing outside the array is a fault (\<^term>\<open>None\<close>), so a result
  \<^term>\<open>Some\<close> says that the call stays inside its buffers. Results of C type \<^verbatim>\<open>int8_t\<close> are
  read as signed bytes.
\<close>

unbundle bit_operations_syntax

section \<open>The functions\<close>

function strlen_from :: "u8 list \<Rightarrow> nat \<Rightarrow> nat \<Rightarrow> nat option" where
  "strlen_from s off len =
     (if off + len < length s
      then (if s ! (off + len) \<noteq> 0 then strlen_from s off (Suc len) else Some len)
      else None)"
  by pat_completeness auto
termination
  by (relation "measure (\<lambda>(s, off, len). length s - (off + len))") auto

declare strlen_from.simps [simp del]

definition strlen :: "u8 list \<Rightarrow> nat \<Rightarrow> nat option" where
  "strlen s off = strlen_from s off 0"

function strrev_loop :: "u8 list \<Rightarrow> nat \<Rightarrow> int \<Rightarrow> int \<Rightarrow> u8 list option" where
  "strrev_loop s off beg end =
     (if beg < end then do {
        tmp \<leftarrow> rdi s (int off + end);
        b \<leftarrow> rdi s (int off + beg);
        s \<leftarrow> wri s (int off + end) b;
        s \<leftarrow> wri s (int off + beg) tmp;
        strrev_loop s off (beg + 1) (end - 1) }
      else Some s)"
  by pat_completeness auto
termination
  by (relation "measure (\<lambda>(s, off, beg, end). nat (end - beg))") auto

declare strrev_loop.simps [simp del]

definition strrev :: "u8 list \<Rightarrow> nat \<Rightarrow> u8 list option" where
  "strrev s off = do { n \<leftarrow> strlen s off; strrev_loop s off 0 (int n - 1) }"

definition itoa_lookup :: "u8 list" where
  "itoa_lookup = cstr ''0123456789ABCDEFGHIJKLMNOPQRSTUVWXYZ''"

text \<open>
  The loop of \<^verbatim>\<open>itoa\<close>: \<^verbatim>\<open>pos\<close> is \<^verbatim>\<open>newbuf\<close>. The remainder and the quotient are unsigned,
  because \<^verbatim>\<open>newval\<close> is. The result is the buffer and the final \<^verbatim>\<open>newbuf\<close>.
\<close>

function itoa_loop :: "u32 \<Rightarrow> u8 list \<Rightarrow> nat \<Rightarrow> u32 \<Rightarrow> (u8 list \<times> nat) option" where
  "itoa_loop newval buf pos radix =
     (if newval > 0 then
        (if radix = 0 then None
         else do {
           d \<leftarrow> rd itoa_lookup (unat (newval mod radix));
           (if pos < length buf
            then itoa_loop (newval div radix) (buf[pos := d]) (Suc pos) radix
            else None) })
      else Some (buf, pos))"
  by pat_completeness auto
termination
  by (relation "measure (\<lambda>(newval, buf, pos, radix). length buf - pos)") auto

declare itoa_loop.simps [simp del]

definition itoa :: "u32 \<Rightarrow> u8 list \<Rightarrow> nat \<Rightarrow> u32 \<Rightarrow> u8 list option" where
  "itoa value buf off radix =
     (if value = 0 then do {
        buf \<leftarrow> wr buf off (chr CHR ''0'');
        wr buf (off + 1) 0 }
      else do {
        (buf, pos) \<leftarrow> itoa_loop value buf off radix;
        buf \<leftarrow> wr buf pos 0;
        strrev buf off })"

function strncmp_loop :: "u8 list \<Rightarrow> u8 list \<Rightarrow> nat \<Rightarrow> nat \<Rightarrow> int option" where
  "strncmp_loop s1 s2 i n =
     (if i < n then do {
        a \<leftarrow> rd s1 i;
        b \<leftarrow> rd s2 i;
        (if a \<noteq> b \<or> a = 0 then Some (sint a - sint b) else strncmp_loop s1 s2 (Suc i) n) }
      else Some 0)"
  by pat_completeness auto
termination
  by (relation "measure (\<lambda>(s1, s2, i, n). n - i)") auto

declare strncmp_loop.simps [simp del]

definition strncmp :: "u8 list \<Rightarrow> u8 list \<Rightarrow> nat \<Rightarrow> int option" where
  "strncmp s1 s2 n = strncmp_loop s1 s2 0 n"

function strcpy_loop :: "u8 list \<Rightarrow> u8 list \<Rightarrow> nat \<Rightarrow> (u8 list \<times> nat) option" where
  "strcpy_loop dest src i =
     (if i < length src then
        (if src ! i \<noteq> 0 then do {
           dest \<leftarrow> wr dest i (src ! i);
           strcpy_loop dest src (Suc i) }
         else Some (dest, i))
      else None)"
  by pat_completeness auto
termination
  by (relation "measure (\<lambda>(dest, src, i). length src - i)") auto

declare strcpy_loop.simps [simp del]

definition strcpy :: "u8 list \<Rightarrow> u8 list \<Rightarrow> u8 list option" where
  "strcpy dest src = do { (dest, i) \<leftarrow> strcpy_loop dest src 0; wr dest i 0 }"

text \<open>\<^verbatim>\<open>src[i] != '\0' && i < n\<close>: the source byte is read before the bound is tested.\<close>

function strncpy_loop :: "u8 list \<Rightarrow> u8 list \<Rightarrow> nat \<Rightarrow> nat \<Rightarrow> (u8 list \<times> nat) option" where
  "strncpy_loop dest src i n =
     (if i < length src then
        (if src ! i \<noteq> 0 \<and> i < n then do {
           dest \<leftarrow> wr dest i (src ! i);
           strncpy_loop dest src (Suc i) n }
         else Some (dest, i))
      else None)"
  by pat_completeness auto
termination
  by (relation "measure (\<lambda>(dest, src, i, n). length src - i)") auto

declare strncpy_loop.simps [simp del]

definition strncpy :: "u8 list \<Rightarrow> u8 list \<Rightarrow> nat \<Rightarrow> u8 list option" where
  "strncpy dest src n = do {
     (dest, i) \<leftarrow> strncpy_loop dest src 0 n;
     for_range i n (\<lambda>i dest. wr dest i 0) dest }"

section \<open>Length\<close>

text \<open>The string of length \<^term>\<open>n\<close> at an offset: its first zero byte is \<^term>\<open>n\<close> bytes on.\<close>

definition string_at :: "u8 list \<Rightarrow> nat \<Rightarrow> nat \<Rightarrow> bool" where
  "string_at s off n = (off + n < length s \<and> s ! (off + n) = 0 \<and> (\<forall>i < n. s ! (off + i) \<noteq> 0))"

lemma strlen_from_string:
  "string_at s off n \<Longrightarrow> k \<le> n \<Longrightarrow> strlen_from s off k = Some n"
proof (induction "n - k" arbitrary: k)
  case 0
  then show ?case by (simp add: strlen_from.simps [of s off k] string_at_def)
next
  case (Suc d)
  then show ?case
    by (subst strlen_from.simps) (auto simp: string_at_def)
qed

lemma strlen_string: "string_at s off n \<Longrightarrow> strlen s off = Some n"
  by (simp add: strlen_def strlen_from_string)

lemma strlen_from_sound:
  "strlen_from s off k = Some n \<Longrightarrow> k \<le> n \<and> off + n < length s \<and> s ! (off + n) = 0 \<and>
     (\<forall>i. k \<le> i \<and> i < n \<longrightarrow> s ! (off + i) \<noteq> 0)"
proof (induction s off k rule: strlen_from.induct)
  case (1 s off len)
  show ?case
  proof (cases "off + len < length s \<and> s ! (off + len) \<noteq> 0")
    case True
    then have "strlen_from s off (Suc len) = Some n"
      using "1.prems" by (simp add: strlen_from.simps [of s off len])
    note IH = "1.IH" [OF conjunct1 [OF True] conjunct2 [OF True] this]
    have "s ! (off + i) \<noteq> 0" if "len \<le> i" "i < n" for i
      using IH True that by (cases "i = len") auto
    with IH show ?thesis by auto
  next
    case False
    then show ?thesis
      using "1.prems" by (auto simp: strlen_from.simps [of s off len] split: if_splits)
  qed
qed

lemma strlen_iff: "strlen s off = Some n \<longleftrightarrow> string_at s off n"
proof
  assume "strlen s off = Some n"
  then show "string_at s off n"
    using strlen_from_sound [of s off 0 n] by (simp add: strlen_def string_at_def)
qed (rule strlen_string)

section \<open>Reversal\<close>

text \<open>Swapping inwards reverses the part between the two positions and keeps the rest.\<close>

lemma strrev_loop_correct:
  assumes "0 \<le> beg" and "int off + end < int (length s)"
  shows "\<exists>t. strrev_loop s off beg end = Some t \<and> length t = length s \<and>
    (\<forall>k < length s. t ! k =
      (if int off + beg \<le> int k \<and> int k \<le> int off + end
       then s ! nat (2 * int off + beg + end - int k) else s ! k))"
  using assms
proof (induction s off beg "end" rule: strrev_loop.induct)
  case (1 s off beg "end")
  show ?case
  proof (cases "beg < end")
    case False
    have "nat (2 * int off + beg + end - int k) = k"
      if "int off + beg \<le> int k" "int k \<le> int off + end" for k
      using that False by linarith
    with False show ?thesis by (auto simp: strrev_loop.simps [of s off beg "end"])
  next
    case True
    let ?b = "nat (int off + beg)" and ?e = "nat (int off + end)"
    let ?s = "s[?e := s ! ?b, ?b := s ! ?e]"
    have len: "?b < length s" "?e < length s" "?b < ?e" using True "1.prems" by linarith+
    have "\<exists>t. strrev_loop ?s off (beg + 1) (end - 1) = Some t \<and> length t = length ?s \<and>
      (\<forall>k < length ?s. t ! k =
        (if int off + (beg + 1) \<le> int k \<and> int k \<le> int off + (end - 1)
         then ?s ! nat (2 * int off + (beg + 1) + (end - 1) - int k) else ?s ! k))"
      by (rule "1.IH" [where a = "s ! ?e" and aa = "s ! ?b" and ab = "s[?e := s ! ?b]"])
        (use True "1.prems" len in \<open>auto simp: rdi_def wri_def arr_simps\<close>)
    then obtain t where t: "strrev_loop ?s off (beg + 1) (end - 1) = Some t" "length t = length s"
      and nth: "\<And>k. k < length s \<Longrightarrow> t ! k =
        (if int off + (beg + 1) \<le> int k \<and> int k \<le> int off + (end - 1)
         then ?s ! nat (2 * int off + beg + end - int k) else ?s ! k)"
      by (auto simp: algebra_simps)
    have step: "strrev_loop s off beg end = strrev_loop ?s off (beg + 1) (end - 1)"
      using True "1.prems" len
      by (subst strrev_loop.simps) (auto simp: rdi_def wri_def arr_simps)
    have "t ! k = (if int off + beg \<le> int k \<and> int k \<le> int off + end
        then s ! nat (2 * int off + beg + end - int k) else s ! k)" if k: "k < length s" for k
    proof -
      consider "k = ?b" | "k = ?e" | "int off + beg < int k" "int k < int off + end"
        | "int k < int off + beg \<or> int off + end < int k"
        using "1.prems" by linarith
      then show ?thesis
      proof cases
        case 1
        then have "int k = int off + beg" using "1.prems" by linarith
        then have "nat (2 * int off + beg + end - int k) = ?e" by simp
        then show ?thesis using nth [OF k] 1 len True \<open>int k = int off + beg\<close> by simp
      next
        case 2
        then have "int k = int off + end" using "1.prems" True by linarith
        then have "nat (2 * int off + beg + end - int k) = ?b" by simp
        then show ?thesis using nth [OF k] 2 len True \<open>int k = int off + end\<close> by simp
      next
        case 3
        let ?m = "nat (2 * int off + beg + end - int k)"
        have "?m \<noteq> ?b" "?m \<noteq> ?e" using 3 len "1.prems" by linarith+
        then show ?thesis using nth [OF k] 3 by simp
      next
        case 4
        then have "k \<noteq> ?b" "k \<noteq> ?e" using "1.prems" True by linarith+
        then show ?thesis using nth [OF k] 4 by auto
      qed
    qed
    with step t show ?thesis by simp
  qed
qed

lemma strrev_string:
  assumes "string_at s off n"
  shows "strrev s off = Some (take off s @ rev (take n (drop off s)) @ drop (off + n) s)"
proof -
  have len: "off + n < length s" using assms by (simp add: string_at_def)
  obtain t where t: "strrev_loop s off 0 (int n - 1) = Some t" "length t = length s"
    and nth: "\<And>k. k < length s \<Longrightarrow> t ! k =
      (if int off \<le> int k \<and> int k \<le> int off + (int n - 1)
       then s ! nat (2 * int off + (int n - 1) - int k) else s ! k)"
    using strrev_loop_correct [of 0 off "int n - 1" s] len by (auto simp: algebra_simps)
  have "t = take off s @ rev (take n (drop off s)) @ drop (off + n) s"
  proof (rule nth_equalityI)
    fix k
    assume k: "k < length t"
    consider "k < off" | "off \<le> k" "k < off + n" | "off + n \<le> k" by linarith
    then show "t ! k = (take off s @ rev (take n (drop off s)) @ drop (off + n) s) ! k"
    proof cases
      case 2
      then have m: "nat (2 * int off + (int n - 1) - int k) = off + (n - Suc (k - off))" by linarith
      have "(take off s @ rev (take n (drop off s)) @ drop (off + n) s) ! k =
          rev (take n (drop off s)) ! (k - off)"
        using 2 len by (simp add: nth_append min_absorb2)
      also have "\<dots> = s ! (off + (n - Suc (k - off)))"
        using 2 len by (simp add: rev_nth min_absorb2)
      finally show ?thesis using nth [of k] k t 2 m by simp
    qed (use nth [of k] k t len in \<open>auto simp: nth_append min_absorb2\<close>)
  qed (use t len in simp)
  with t show ?thesis by (simp add: strrev_def strlen_string [OF assms])
qed

section \<open>Conversion of numbers\<close>

text \<open>The specification: the digits of a number, and the number a text denotes.\<close>

function digits_lsd :: "nat \<Rightarrow> nat \<Rightarrow> u8 list" where
  "digits_lsd r v =
     (if v = 0 \<or> r < 2 then [] else itoa_lookup ! (v mod r) # digits_lsd r (v div r))"
  by pat_completeness auto
termination
  by (relation "measure snd") auto

declare digits_lsd.simps [simp del]

lemma digits_lsd_0 [simp]: "digits_lsd r 0 = []"
  by (simp add: digits_lsd.simps)

lemma itoa_loop_0 [simp]: "itoa_loop 0 buf pos radix = Some (buf, pos)"
  by (simp add: itoa_loop.simps)

definition numeral_text :: "nat \<Rightarrow> nat \<Rightarrow> u8 list" where
  "numeral_text r v = (if v = 0 then [chr CHR ''0''] else rev (digits_lsd r v))"

definition digit_val :: "u8 \<Rightarrow> nat" where
  "digit_val c = (if c \<le> 57 then unat c - 48 else unat c - 55)"

definition text_value :: "nat \<Rightarrow> u8 list \<Rightarrow> nat" where
  "text_value r cs = foldl (\<lambda>a c. a * r + digit_val c) 0 cs"

lemma length_itoa_lookup: "length itoa_lookup = 37"
  by (simp add: itoa_lookup_def cstr_def bytes_of_def)

lemma digit_val_lookup: "d < 36 \<Longrightarrow> digit_val (itoa_lookup ! d) = d \<and> itoa_lookup ! d \<noteq> 0"
  by (drule lessThan_iff [THEN iffD2])
    (auto simp: enum_lt itoa_lookup_def cstr_def bytes_of_def digit_val_def)

lemma digits_lsd_nonzero: "r \<le> 36 \<Longrightarrow> 0 \<notin> set (digits_lsd r v)"
proof (induction r v rule: digits_lsd.induct)
  case (1 r v)
  show ?case
  proof (cases "v = 0 \<or> r < 2")
    case True
    then show ?thesis by (simp add: digits_lsd.simps [of r v])
  next
    case False
    then have "v mod r < r" by simp
    then have "v mod r < 36" using "1.prems" by linarith
    then have "itoa_lookup ! (v mod r) \<noteq> 0" using digit_val_lookup by blast
    then show ?thesis using 1 False by (simp add: digits_lsd.simps [of r v])
  qed
qed

lemma text_value_snoc: "text_value r (cs @ [c]) = text_value r cs * r + digit_val c"
  by (simp add: text_value_def)

lemma text_value_digits: "2 \<le> r \<Longrightarrow> r \<le> 36 \<Longrightarrow> text_value r (rev (digits_lsd r v)) = v"
proof (induction r v rule: digits_lsd.induct)
  case (1 r v)
  show ?case
  proof (cases "v = 0")
    case True
    then show ?thesis by (simp add: text_value_def)
  next
    case False
    have "v mod r < r" using "1.prems" by simp
    then have "v mod r < 36" using "1.prems" by linarith
    with False 1 show ?thesis
      by (simp add: digits_lsd.simps [of r v] text_value_snoc digit_val_lookup)
  qed
qed

lemma text_value_numeral: "2 \<le> r \<Longrightarrow> r \<le> 36 \<Longrightarrow> text_value r (numeral_text r v) = v"
  by (auto simp: numeral_text_def text_value_digits) (simp add: text_value_def digit_val_def)

text \<open>A number below \<^term>\<open>r ^ k\<close> has at most \<^term>\<open>k\<close> digits.\<close>

lemma length_digits_lsd: "2 \<le> r \<Longrightarrow> v < r ^ k \<Longrightarrow> length (digits_lsd r v) \<le> k"
proof (induction k arbitrary: v)
  case 0
  then show ?case by simp
next
  case (Suc k)
  have "v div r < r ^ k"
    using Suc.prems by (simp add: div_less_iff_less_mult mult.commute)
  with Suc show ?case by (simp add: digits_lsd.simps [of r v])
qed

lemma length_numeral_text: "2 \<le> r \<Longrightarrow> 0 < k \<Longrightarrow> v < r ^ k \<Longrightarrow> length (numeral_text r v) \<le> k"
  using length_digits_lsd [of r v k] by (simp add: numeral_text_def)

text \<open>The most significant digit of a number is not 0.\<close>

lemma all_less_two: "(\<forall>i < (2 :: nat). P i) = (P 0 \<and> P 1)"
  by (auto simp: less_2_cases_iff)

lemma hd_digits_nonzero:
  "2 \<le> r \<Longrightarrow> r \<le> 36 \<Longrightarrow> 0 < v \<Longrightarrow>
   digits_lsd r v \<noteq> [] \<and> last (digits_lsd r v) \<noteq> chr CHR ''0''"
proof (induction r v rule: digits_lsd.induct)
  case (1 r v)
  have ds: "digits_lsd r v = itoa_lookup ! (v mod r) # digits_lsd r (v div r)"
    using "1.prems" by (simp add: digits_lsd.simps [of r v])
  show ?case
  proof (cases "v div r = 0")
    case True
    then have "v mod r = v" "v < 36" using "1.prems" by (auto simp: div_eq_0_iff)
    then have "itoa_lookup ! (v mod r) \<noteq> chr CHR ''0''"
      using digit_val_lookup [of v] "1.prems" by (auto simp: digit_val_def)
    then show ?thesis using ds True by simp
  next
    case False
    then show ?thesis using 1 ds by simp
  qed
qed

lemma itoa_loop_digits:
  assumes "2 \<le> unat radix" and "unat radix \<le> 36"
  shows "pos + length (digits_lsd (unat radix) (unat v)) \<le> length buf \<Longrightarrow>
    itoa_loop v buf pos radix =
      Some (take pos buf @ digits_lsd (unat radix) (unat v) @
              drop (pos + length (digits_lsd (unat radix) (unat v))) buf,
            pos + length (digits_lsd (unat radix) (unat v)))"
proof (induction "unat v" arbitrary: v buf pos rule: less_induct)
  case less
  let ?r = "unat radix"
  show ?case
  proof (cases "v = 0")
    case True
    then show ?thesis by simp
  next
    case False
    let ?d = "itoa_lookup ! (unat v mod ?r)" and ?ds = "digits_lsd ?r (unat v div ?r)"
    have v0: "unat v \<noteq> 0" using False by (simp add: unat_eq_0)
    have ds: "digits_lsd ?r (unat v) = ?d # ?ds"
      using v0 assms by (simp add: digits_lsd.simps [of ?r "unat v"])
    have pos: "pos < length buf" and room: "Suc pos + length ?ds \<le> length (buf[pos := ?d])"
      using less.prems ds by simp_all
    have small: "unat (v div radix) < unat v"
      using v0 assms by (simp add: unat_div)
    have rd: "rd itoa_lookup (unat (v mod radix)) = Some ?d"
    proof -
      have "unat v mod ?r < ?r" using assms by simp
      then have "unat v mod ?r < 37" using assms by linarith
      then show ?thesis by (simp add: rd_def length_itoa_lookup unat_mod)
    qed
    have "itoa_loop v buf pos radix = itoa_loop (v div radix) (buf[pos := ?d]) (Suc pos) radix"
      using False assms pos rd
      by (subst itoa_loop.simps) (auto simp: word_gt_0 unat_eq_0)
    also have "\<dots> = Some (take (Suc pos) (buf[pos := ?d]) @ ?ds @
        drop (Suc pos + length ?ds) (buf[pos := ?d]), Suc pos + length ?ds)"
      using less.hyps [OF small, of "Suc pos" "buf[pos := ?d]"] room by (simp add: unat_div)
    finally show ?thesis
      using pos ds by (simp add: take_Suc_conv_app_nth)
  qed
qed

text \<open>\<^verbatim>\<open>itoa\<close> writes the numeral and a terminating zero at the offset, and nothing else.\<close>

lemma itoa_writes_numeral:
  assumes "2 \<le> unat radix" and "unat radix \<le> 36"
    and "off + length (numeral_text (unat radix) (unat v)) < length buf"
  shows "itoa v buf off radix =
    Some (take off buf @ numeral_text (unat radix) (unat v) @ [0] @
          drop (off + length (numeral_text (unat radix) (unat v)) + 1) buf)"
proof (cases "v = 0")
  case True
  then have len: "off + 1 < length buf" using assms(3) by (simp add: numeral_text_def)
  then have "buf[off := 48, Suc off := 0] = take off buf @ [48, 0] @ drop (off + 2) buf"
    by (simp add: list_update_append upd_conv_take_nth_drop take_Suc_conv_app_nth)
  with True len show ?thesis by (simp add: itoa_def numeral_text_def arr_simps)
next
  case False
  let ?ds = "digits_lsd (unat radix) (unat v)"
  have v0: "unat v \<noteq> 0" using False by (simp add: unat_eq_0)
  have room: "off + length ?ds < length buf" using assms(3) v0 by (simp add: numeral_text_def)
  let ?b1 = "take off buf @ ?ds @ drop (off + length ?ds) buf"
  let ?b2 = "take off buf @ ?ds @ 0 # drop (off + length ?ds + 1) buf"
  have l: "itoa_loop v buf off radix = Some (?b1, off + length ?ds)"
    using itoa_loop_digits [OF assms(1,2), of off v buf] room by simp
  have "?b1[off + length ?ds := 0] = ?b2"
    using room by (simp add: list_update_append Cons_nth_drop_Suc [symmetric])
  then have w: "wr ?b1 (off + length ?ds) 0 = Some ?b2" using room by (simp add: wr_def)
  have nz: "0 \<notin> set ?ds" using digits_lsd_nonzero assms by blast
  have "string_at ?b2 off (length ?ds)"
    using room nz by (auto simp: string_at_def nth_append min_absorb2 in_set_conv_nth)
  then have "strrev ?b2 off = Some (take off ?b2 @ rev (take (length ?ds) (drop off ?b2)) @
      drop (off + length ?ds) ?b2)"
    by (rule strrev_string)
  also have "\<dots> = Some (take off buf @ rev ?ds @ 0 # drop (off + length ?ds + 1) buf)"
    using room by (simp add: min_absorb2)
  finally show ?thesis
    using False l w v0 by (simp add: itoa_def numeral_text_def)
qed

section \<open>Copying and comparing\<close>

lemma strcpy_loop_string:
  "string_at src 0 n \<Longrightarrow> n \<le> length dest \<Longrightarrow> i \<le> n \<Longrightarrow>
   strcpy_loop dest src i = Some (take i dest @ take (n - i) (drop i src) @ drop n dest, n)"
proof (induction "n - i" arbitrary: i dest)
  case 0
  then show ?case by (simp add: strcpy_loop.simps [of dest src] string_at_def)
next
  case (Suc d)
  then have i: "i < n" "i < length src" "i < length dest" "src ! i \<noteq> 0"
    by (auto simp: string_at_def)
  have "strcpy_loop dest src i = strcpy_loop (dest[i := src ! i]) src (Suc i)"
    using i by (subst strcpy_loop.simps) (simp add: arr_simps)
  also have "\<dots> = Some (take (Suc i) (dest[i := src ! i]) @ take (n - Suc i) (drop (Suc i) src) @
      drop n (dest[i := src ! i]), n)"
    by (rule Suc.hyps(1)) (use Suc i in auto)
  also have "take (n - i) (drop i src) = src ! i # take (n - Suc i) (drop (Suc i) src)"
    using i by (simp add: Cons_nth_drop_Suc [symmetric] Suc_diff_Suc [symmetric])
  ultimately show ?case using i by (simp add: take_Suc_conv_app_nth)
qed

lemma strcpy_string:
  assumes "string_at src 0 n" and "n < length dest"
  shows "strcpy dest src = Some (take n src @ [0] @ drop (n + 1) dest)"
proof -
  have "strcpy_loop dest src 0 = Some (take n src @ drop n dest, n)"
    using strcpy_loop_string [OF assms(1), of dest 0] assms(2) by simp
  moreover have "(take n src @ drop n dest)[n := 0] = take n src @ 0 # drop (Suc n) dest"
    using assms by (simp add: list_update_append string_at_def Cons_nth_drop_Suc [symmetric])
  moreover have "n < length (take n src @ drop n dest)"
    using assms by (simp add: string_at_def)
  ultimately show ?thesis by (simp add: strcpy_def wr_def)
qed

lemma strncpy_loop_string:
  "string_at src 0 m \<Longrightarrow> n \<le> length dest \<Longrightarrow> i \<le> min m n \<Longrightarrow>
   strncpy_loop dest src i n =
     Some (take i dest @ take (min m n - i) (drop i src) @ drop (min m n) dest, min m n)"
proof (induction "min m n - i" arbitrary: i dest)
  case 0
  then have "i = min m n" by simp
  with 0 show ?case
    by (subst strncpy_loop.simps) (auto simp: string_at_def min_def split: if_splits)
next
  case (Suc d)
  let ?k = "min m n"
  from Suc have i: "i < ?k" "i < n" "i < length src" "i < length dest" "src ! i \<noteq> 0"
    by (auto simp: string_at_def)
  have "strncpy_loop dest src i n = strncpy_loop (dest[i := src ! i]) src (Suc i) n"
    using i by (subst strncpy_loop.simps) (simp add: arr_simps)
  also have "\<dots> = Some (take (Suc i) (dest[i := src ! i]) @ take (?k - Suc i) (drop (Suc i) src) @
      drop ?k (dest[i := src ! i]), ?k)"
    by (rule Suc.hyps(1)) (use Suc i in auto)
  also have "take (?k - i) (drop i src) = src ! i # take (?k - Suc i) (drop (Suc i) src)"
    using i by (simp add: Cons_nth_drop_Suc [symmetric] Suc_diff_Suc [symmetric])
  ultimately show ?case using i by (simp add: take_Suc_conv_app_nth)
qed

lemma strncpy_string:
  assumes "string_at src 0 m" and "n \<le> length dest"
  shows "strncpy dest src n = Some (take n (take m src @ replicate n 0) @ drop n dest)"
proof -
  let ?k = "min m n"
  let ?d = "take ?k src @ drop ?k dest"
  have m: "m < length src" using assms by (simp add: string_at_def)
  have "strncpy_loop dest src 0 n = Some (?d, ?k)"
    using strncpy_loop_string [OF assms, of 0] by simp
  moreover have "for_range ?k n (\<lambda>i dest. wr dest i 0) ?d =
      Some (take ?k ?d @ replicate (n - ?k) 0 @ drop n ?d)"
    by (rule fill_loop) (use assms m in auto)
  moreover have "take ?k ?d @ replicate (n - ?k) 0 @ drop n ?d =
      take n (take m src @ replicate n 0) @ drop n dest"
    using m assms(2) by (auto simp: min_def)
  ultimately show ?thesis by (simp add: strncpy_def)
qed

text \<open>What \<^verbatim>\<open>strncmp\<close> compares: the bytes up to the bound or the first zero.\<close>

definition cprefix :: "nat \<Rightarrow> u8 list \<Rightarrow> u8 list" where
  "cprefix n s = takeWhile (\<lambda>c. c \<noteq> 0) (take n s)"

lemma strncmp_loop_eq:
  "i \<le> n \<Longrightarrow> n \<le> length s1 \<or> (\<exists>k \<ge> i. k < length s1 \<and> s1 ! k = 0) \<Longrightarrow>
   n \<le> length s2 \<or> (\<exists>k \<ge> i. k < length s2 \<and> s2 ! k = 0) \<Longrightarrow>
   \<exists>r. strncmp_loop s1 s2 i n = Some r \<and>
     (r = 0 \<longleftrightarrow> cprefix (n - i) (drop i s1) = cprefix (n - i) (drop i s2))"
proof (induction "n - i" arbitrary: i)
  case 0
  then show ?case by (subst strncmp_loop.simps) (simp add: cprefix_def)
next
  case (Suc d)
  then have i: "i < n" "i < length s1" "i < length s2" by auto
  have pre: "cprefix (n - i) (drop i s) =
      (if s ! i = 0 then [] else s ! i # cprefix (n - Suc i) (drop (Suc i) s))"
    if "i < length s" for s
    using that i
    by (simp add: cprefix_def Cons_nth_drop_Suc [symmetric] Suc_diff_Suc [symmetric])
  show ?case
  proof (cases "s1 ! i \<noteq> s2 ! i \<or> s1 ! i = 0")
    case True
    then have "strncmp_loop s1 s2 i n = Some (sint (s1 ! i) - sint (s2 ! i))"
      using i by (subst strncmp_loop.simps) (simp add: arr_simps)
    moreover have "sint (s1 ! i) - sint (s2 ! i) = 0 \<longleftrightarrow> s1 ! i = s2 ! i"
      by (auto simp: signed_word_eqI)
    ultimately show ?thesis using True pre i by auto
  next
    case False
    then have "strncmp_loop s1 s2 i n = strncmp_loop s1 s2 (Suc i) n"
      using i by (subst strncmp_loop.simps) (simp add: arr_simps)
    moreover have "\<exists>r. strncmp_loop s1 s2 (Suc i) n = Some r \<and>
      (r = 0 \<longleftrightarrow> cprefix (n - Suc i) (drop (Suc i) s1) = cprefix (n - Suc i) (drop (Suc i) s2))"
    proof (rule Suc.hyps(1))
      have "k \<noteq> i" if "s1 ! k = 0 \<or> s2 ! k = 0" for k using False that by auto
      then show "n \<le> length s1 \<or> (\<exists>k \<ge> Suc i. k < length s1 \<and> s1 ! k = 0)"
        and "n \<le> length s2 \<or> (\<exists>k \<ge> Suc i. k < length s2 \<and> s2 ! k = 0)"
        using Suc.prems by (metis Suc_leI le_neq_implies_less)+
    qed (use Suc i in auto)
    ultimately show ?thesis using False pre i by auto
  qed
qed

section \<open>Properties\<close>

text \<open>\<^verbatim>\<open>itoa\<close> in every base from 2 to 36 puts, at the offset, the shortest non-empty numeral
  without leading zeros, zero-terminated; read back in the same base the text is the value
  converted; it takes at most 33 bytes, and no byte before it or after its terminator changes.\<close>

theorem itoa_roundtrip:
  assumes "2 \<le> unat radix" and "unat radix \<le> 36" and "off + 32 < length buf"
  shows "\<exists>cs. itoa v buf off radix = Some (take off buf @ cs @ [0] @ drop (off + length cs + 1) buf) \<and>
    cs \<noteq> [] \<and> length cs \<le> 32 \<and> 0 \<notin> set cs \<and> text_value (unat radix) cs = unat v \<and>
    (hd cs = chr CHR ''0'' \<longrightarrow> v = 0)"
proof (intro exI conjI)
  let ?r = "unat radix"
  let ?cs = "numeral_text ?r (unat v)"
  have "unat v < 2 ^ 32" using unsigned_less [of v, where 'a = nat] by simp
  also have "(2 :: nat) ^ 32 \<le> ?r ^ 32" by (rule power_mono) (use assms in auto)
  finally show len: "length ?cs \<le> 32" by (intro length_numeral_text) (use assms in auto)
  show "itoa v buf off radix = Some (take off buf @ ?cs @ [0] @ drop (off + length ?cs + 1) buf)"
    by (rule itoa_writes_numeral) (use assms len in auto)
  show "text_value ?r ?cs = unat v" using assms by (simp add: text_value_numeral)
  show "0 \<notin> set ?cs" using digits_lsd_nonzero assms by (auto simp: numeral_text_def)
  show "?cs \<noteq> []" using assms
    by (auto simp: numeral_text_def digits_lsd.simps [of ?r "unat v"])
  show "hd ?cs = chr CHR ''0'' \<longrightarrow> v = 0"
    using hd_digits_nonzero [of ?r "unat v"] assms
    by (cases "v = 0") (auto simp: numeral_text_def hd_rev unat_gt_0 unat_eq_0 simp del: unsigned_eq_0_iff)
qed

theorem itoa_roundtrip_witness:
  "2 \<le> unat (10 :: u32) \<and> unat (10 :: u32) \<le> 36 \<and> 0 + 32 < length (replicate 36 (0 :: u8)) \<and>
   (\<exists>cs. itoa 391 (replicate 36 0) 0 10 = Some (cs @ [0] @ drop (length cs + 1) (replicate 36 0)) \<and>
     text_value 10 cs = 391)"
proof -
  have h: "2 \<le> unat (10 :: u32)" "unat (10 :: u32) \<le> 36"
    "0 + 32 < length (replicate 36 (0 :: u8))" by simp_all
  show ?thesis using itoa_roundtrip [OF h, of 391] h by auto
qed

text \<open>On a destination large enough, \<^verbatim>\<open>strcpy\<close> copies a string and its terminator, and
  \<^verbatim>\<open>strncpy\<close> fills exactly \<^term>\<open>n\<close> bytes: the string cut off at \<^term>\<open>n\<close> bytes, or the string
  padded with zeros. Both leave the rest of the destination alone.\<close>

theorem string_copies_correct:
  assumes "string_at src 0 m" and "n \<le> length dest" and "m < length dest"
  shows "strcpy dest src = Some (take m src @ [0] @ drop (m + 1) dest) \<and>
    strncpy dest src n = Some (take n (take m src @ replicate n 0) @ drop n dest)"
  using assms by (simp add: strcpy_string strncpy_string)

theorem string_copies_correct_witness:
  "string_at (cstr ''ls'') 0 2 \<and> strncpy [9, 9, 9, 9, 9] (cstr ''ls'') 4 = Some [108, 115, 0, 0, 9]"
proof -
  have h: "string_at (cstr ''ls'') 0 2" "4 \<le> length [9, 9, 9, 9, 9 :: u8]"
    "2 < length [9, 9, 9, 9, 9 :: u8]"
    by (simp_all add: string_at_def cstr_def bytes_of_def less_Suc_eq less_2_cases_iff all_less_two)
  show ?thesis using string_copies_correct [OF h] h(1)
    by (simp add: cstr_def bytes_of_def take_Cons' numeral_2_eq_2)
qed

text \<open>When each argument is zero-terminated or has \<^term>\<open>n\<close> bytes, \<^verbatim>\<open>strncmp\<close> stays inside both
  and its result is 0 exactly when the two agree up to the first zero or the first \<^term>\<open>n\<close>
  bytes.\<close>

theorem strncmp_zero_iff:
  assumes "n \<le> length s1 \<or> 0 \<in> set s1" and "n \<le> length s2 \<or> 0 \<in> set s2"
  shows "\<exists>r. strncmp s1 s2 n = Some r \<and> (r = 0 \<longleftrightarrow> cprefix n s1 = cprefix n s2)"
  using strncmp_loop_eq [of 0 n s1 s2] assms by (auto simp: strncmp_def in_set_conv_nth)

theorem strncmp_zero_iff_witness:
  "0 \<in> set (cstr ''shell'') \<and> (\<exists>r. strncmp (cstr ''shell'') (cstr ''sh'') 5 = Some r \<and> r \<noteq> 0)"
proof -
  have h: "5 \<le> length (cstr ''shell'') \<or> 0 \<in> set (cstr ''shell'')"
    "5 \<le> length (cstr ''sh'') \<or> 0 \<in> set (cstr ''sh'')"
    by (simp_all add: cstr_def)
  have "cprefix 5 (cstr ''shell'') \<noteq> cprefix 5 (cstr ''sh'')"
    by (simp add: cprefix_def cstr_def bytes_of_def take_Cons')
  then show ?thesis using strncmp_zero_iff [OF h] by (auto simp: cstr_def)
qed

end
