(* ===== verification/Printf.thy ===== *)
theory Printf
  imports TermBuffer CString
begin

text \<open>
  Formatted output of \<^verbatim>\<open>lib.c\<close>. \<^verbatim>\<open>printf\<close> and \<^verbatim>\<open>puts\<close> write to the screen with
  \<^verbatim>\<open>putc\<close>, \<^verbatim>\<open>vprintf\<close> and \<^verbatim>\<open>vputs\<close> are the same text with \<^verbatim>\<open>vputc\<close>; the
  definitions take the output function as an argument. A format string is an array of bytes;
  an argument is the 32-bit value on the stack or the array its pointer points to, and a
  conversion that finds no argument of its kind is undefined. The specification is a parser of
  format strings into directives and the text of each directive.
\<close>

unbundle bit_operations_syntax

section \<open>The functions\<close>

datatype print_arg = IntArg u32 | StrArg "u8 list"

function puts_loop :: "(u8 \<Rightarrow> 's \<Rightarrow> 's option) \<Rightarrow> u8 list \<Rightarrow> nat \<Rightarrow> nat \<Rightarrow> 's \<Rightarrow> (nat \<times> 's) option" where
  "puts_loop put s off index st =
     (if off + index < length s then
        (if s ! (off + index) \<noteq> 0 then do {
           st \<leftarrow> put (s ! (off + index)) st;
           puts_loop put s off (Suc index) st }
         else Some (index, st))
      else None)"
  by pat_completeness auto
termination
  by (relation "measure (\<lambda>(put, s, off, index, st). length s - (off + index))") auto

declare puts_loop.simps [simp del]

definition puts_with :: "(u8 \<Rightarrow> 's \<Rightarrow> 's option) \<Rightarrow> u8 list \<Rightarrow> nat \<Rightarrow> 's \<Rightarrow> (nat \<times> 's) option" where
  "puts_with put s off st = puts_loop put s off 0 st"

text \<open>
  One conversion: \<^verbatim>\<open>alternate\<close> is set by \<^verbatim>\<open>#\<close>, \<^verbatim>\<open>c\<close> is the conversion character. The
  scratch arrays start uninitialised in the source; every byte of them that is read has been
  written, so their first contents do not matter.
\<close>

definition convert ::
  "(u8 \<Rightarrow> 's \<Rightarrow> 's option) \<Rightarrow> bool \<Rightarrow> u8 \<Rightarrow> print_arg list \<Rightarrow> 's \<Rightarrow> (print_arg list \<times> 's) option" where
  "convert put alternate c esp st =
     (if c = chr CHR ''%'' then do { st \<leftarrow> put (chr CHR ''%'') st; Some (esp, st) }
      else if c = chr CHR ''x'' then
        (case esp of IntArg v # esp \<Rightarrow>
           (if \<not> alternate then do {
              conv_buf \<leftarrow> itoa v (replicate 64 0) 0 16;
              (_, st) \<leftarrow> puts_with put conv_buf 0 st;
              Some (esp, st) }
            else do {
              conv_buf \<leftarrow> itoa v (replicate 64 0) 8 16;
              starting_index \<leftarrow> strlen conv_buf 8;
              conv_buf \<leftarrow> for_range starting_index 8 (\<lambda>i buf. wr buf i (chr CHR ''0'')) conv_buf;
              (_, st) \<leftarrow> puts_with put conv_buf starting_index st;
              Some (esp, st) })
         | _ \<Rightarrow> None)
      else if c = chr CHR ''u'' then
        (case esp of IntArg v # esp \<Rightarrow> do {
           conv_buf \<leftarrow> itoa v (replicate 36 0) 0 10;
           (_, st) \<leftarrow> puts_with put conv_buf 0 st;
           Some (esp, st) }
         | _ \<Rightarrow> None)
      else if c = chr CHR ''d'' then
        (case esp of IntArg v # esp \<Rightarrow> do {
           conv_buf \<leftarrow> (if sint v < 0 then itoa (- v) ((replicate 36 0)[0 := chr CHR ''-'']) 1 10
                        else itoa v (replicate 36 0) 0 10);
           (_, st) \<leftarrow> puts_with put conv_buf 0 st;
           Some (esp, st) }
         | _ \<Rightarrow> None)
      else if c = chr CHR ''c'' then
        (case esp of IntArg v # esp \<Rightarrow> do { st \<leftarrow> put (ucast v) st; Some (esp, st) } | _ \<Rightarrow> None)
      else if c = chr CHR ''s'' then
        (case esp of StrArg s # esp \<Rightarrow> do { (_, st) \<leftarrow> puts_with put s 0 st; Some (esp, st) }
         | _ \<Rightarrow> None)
      else Some (esp, st))"

text \<open>
  The loop over the format: the list is what \<^verbatim>\<open>buf\<close> points to, \<^verbatim>\<open>n\<close> is
  \<^verbatim>\<open>buf - format\<close>. \<^verbatim>\<open>format_conv\<close> is the label \<^verbatim>\<open>format_char_switch\<close>.
\<close>

fun format_loop :: "(u8 \<Rightarrow> 's \<Rightarrow> 's option) \<Rightarrow> nat \<Rightarrow> u8 list \<Rightarrow> print_arg list \<Rightarrow> 's \<Rightarrow> (nat \<times> 's) option"
and format_conv :: "(u8 \<Rightarrow> 's \<Rightarrow> 's option) \<Rightarrow> bool \<Rightarrow> nat \<Rightarrow> u8 list \<Rightarrow> print_arg list \<Rightarrow> 's \<Rightarrow> (nat \<times> 's) option"
where
  "format_loop put n [] esp st = None"
| "format_loop put n (c # buf) esp st =
     (if c = 0 then Some (n, st)
      else if c = chr CHR ''%'' then format_conv put False (Suc n) buf esp st
      else do { st \<leftarrow> put c st; format_loop put (Suc n) buf esp st })"
| "format_conv put alternate n [] esp st = None"
| "format_conv put alternate n (c # buf) esp st =
     (if c = chr CHR ''#'' then format_conv put True (Suc n) buf esp st
      else do { (esp, st) \<leftarrow> convert put alternate c esp st; format_loop put (Suc n) buf esp st })"

definition puts :: "u8 list \<Rightarrow> nat \<Rightarrow> 'a console_scheme \<Rightarrow> (nat \<times> 'a console_scheme) option" where
  "puts = puts_with putc"

definition printf ::
  "u8 list \<Rightarrow> print_arg list \<Rightarrow> 'a console_scheme \<Rightarrow> (nat \<times> 'a console_scheme) option" where
  "printf fmt args st = format_loop putc 0 fmt args st"

definition vputs :: "u8 list \<Rightarrow> nat \<Rightarrow> terminal \<Rightarrow> (nat \<times> terminal) option" where
  "vputs = puts_with vputc"

definition vprintf :: "u8 list \<Rightarrow> print_arg list \<Rightarrow> terminal \<Rightarrow> (nat \<times> terminal) option" where
  "vprintf fmt args term = format_loop vputc 0 fmt args term"

section \<open>The specification\<close>

datatype directive = Lit u8 | Conv bool u8

text \<open>The directives up to the terminating zero and the position of that zero.\<close>

fun parse_format :: "u8 list \<Rightarrow> (directive list \<times> nat) option"
and parse_conv :: "bool \<Rightarrow> u8 list \<Rightarrow> (directive list \<times> nat) option"
where
  "parse_format [] = None"
| "parse_format (c # cs) =
     (if c = 0 then Some ([], 0)
      else if c = chr CHR ''%'' then map_option (apsnd Suc) (parse_conv False cs)
      else map_option (\<lambda>(ds, n). (Lit c # ds, Suc n)) (parse_format cs))"
| "parse_conv alt [] = None"
| "parse_conv alt (c # cs) =
     (if c = chr CHR ''#'' then map_option (apsnd Suc) (parse_conv True cs)
      else map_option (\<lambda>(ds, n). (Conv alt c # ds, Suc n)) (parse_format cs))"

definition c_string :: "u8 list \<Rightarrow> u8 list option" where
  "c_string s = (if 0 \<in> set s then Some (takeWhile (\<lambda>c. c \<noteq> 0) s) else None)"

definition hex8 :: "u32 \<Rightarrow> u8 list" where
  "hex8 v = (let t = numeral_text 16 (unat v) in replicate (8 - length t) (chr CHR ''0'') @ t)"

definition signed_text :: "u32 \<Rightarrow> u8 list" where
  "signed_text v = (if sint v < 0 then chr CHR ''-'' # numeral_text 10 (nat (- sint v))
     else numeral_text 10 (nat (sint v)))"

definition conv_text :: "bool \<Rightarrow> u8 \<Rightarrow> print_arg list \<Rightarrow> (u8 list \<times> print_arg list) option" where
  "conv_text alt c args =
     (if c = chr CHR ''%'' then Some ([chr CHR ''%''], args)
      else if c = chr CHR ''x'' then (case args of IntArg v # args \<Rightarrow>
        Some (if alt then hex8 v else numeral_text 16 (unat v), args) | _ \<Rightarrow> None)
      else if c = chr CHR ''u'' then
        (case args of IntArg v # args \<Rightarrow> Some (numeral_text 10 (unat v), args) | _ \<Rightarrow> None)
      else if c = chr CHR ''d'' then
        (case args of IntArg v # args \<Rightarrow> Some (signed_text v, args) | _ \<Rightarrow> None)
      else if c = chr CHR ''c'' then
        (case args of IntArg v # args \<Rightarrow> Some ([ucast v], args) | _ \<Rightarrow> None)
      else if c = chr CHR ''s'' then
        (case args of StrArg s # args \<Rightarrow> map_option (\<lambda>t. (t, args)) (c_string s) | _ \<Rightarrow> None)
      else Some ([], args))"

fun render :: "directive list \<Rightarrow> print_arg list \<Rightarrow> u8 list option" where
  "render [] args = Some []"
| "render (Lit c # ds) args = map_option (\<lambda>t. c # t) (render ds args)"
| "render (Conv alt c # ds) args = do {
     (t, args) \<leftarrow> conv_text alt c args;
     u \<leftarrow> render ds args;
     Some (t @ u) }"

section \<open>Printing is output of the rendered text\<close>

lemma puts_loop_text:
  "puts_loop put s off i st = do {
     t \<leftarrow> c_string (drop (off + i) s);
     st' \<leftarrow> fold_opt put t st;
     Some (i + length t, st') }"
proof (induction put s off i st rule: puts_loop.induct)
  case (1 put s off i st)
  show ?case
  proof (cases "off + i < length s")
    case False
    then show ?thesis by (simp add: puts_loop.simps c_string_def)
  next
    case True
    then have d: "drop (off + i) s = s ! (off + i) # drop (off + Suc i) s"
      by (simp add: Cons_nth_drop_Suc)
    show ?thesis
    proof (cases "s ! (off + i) = 0")
      case True
      then show ?thesis using \<open>off + i < length s\<close> d
        by (simp add: puts_loop.simps c_string_def)
    next
      case False
      have "puts_loop put s off (Suc i) st' = do {
          t \<leftarrow> c_string (drop (off + Suc i) s); st'' \<leftarrow> fold_opt put t st';
          Some (Suc i + length t, st'') }" if "put (s ! (off + i)) st = Some st'" for st'
        by (rule "1.IH" [OF True False that])
      then show ?thesis using True False d
        by (subst puts_loop.simps) (auto simp: c_string_def split: Option.bind_split)
    qed
  qed
qed

lemma puts_with_text:
  "puts_with put s off st = do {
     t \<leftarrow> c_string (drop off s); st' \<leftarrow> fold_opt put t st; Some (length t, st') }"
  by (simp add: puts_with_def puts_loop_text)

lemma c_string_append: "0 \<notin> set t \<Longrightarrow> c_string (t @ 0 # u) = Some t"
  by (induction t) (auto simp: c_string_def)

lemma numeral_text_no_zero: "2 \<le> r \<Longrightarrow> r \<le> 36 \<Longrightarrow> 0 \<notin> set (numeral_text r v)"
  using digits_lsd_nonzero by (auto simp: numeral_text_def)

lemma length_u32_text: "length (numeral_text 16 (unat (v :: u32))) \<le> 8"
    "length (numeral_text 10 (unat (v :: u32))) \<le> 10"
proof -
  have "unat v < 2 ^ 32" using unsigned_less [of v, where 'a = nat] by simp
  then show "length (numeral_text 16 (unat v)) \<le> 8" "length (numeral_text 10 (unat v)) \<le> 10"
    by (auto intro!: length_numeral_text)
qed

text \<open>Printing a number that \<^verbatim>\<open>itoa\<close> has written into a scratch array at \<^term>\<open>off\<close>.\<close>

lemma puts_itoa:
  assumes "2 \<le> unat r" and "unat r \<le> 36" and "off + 33 \<le> length buf" and "0 \<notin> set (take off buf)"
    and "length (numeral_text (unat r) (unat v)) \<le> 32"
  shows "\<exists>b. itoa v buf off r = Some b \<and> puts_with put b 0 st = do {
      st' \<leftarrow> fold_opt put (take off buf @ numeral_text (unat r) (unat v)) st;
      Some (off + length (numeral_text (unat r) (unat v)), st') }"
proof -
  let ?t = "numeral_text (unat r) (unat v)"
  have w: "itoa v buf off r = Some ((take off buf @ ?t) @ 0 # drop (off + length ?t + 1) buf)"
    using itoa_writes_numeral [of r off v buf] assms by simp
  have "c_string ((take off buf @ ?t) @ 0 # drop (off + length ?t + 1) buf) = Some (take off buf @ ?t)"
    by (rule c_string_append) (use assms numeral_text_no_zero in auto)
  then show ?thesis using w assms(3) by (simp add: puts_with_text)
qed

lemma puts_hex8:
  "\<exists>b k b'. itoa v (replicate 64 0) 8 16 = Some b \<and> strlen b 8 = Some k \<and>
     for_range k 8 (\<lambda>i buf. wr buf i (chr CHR ''0'')) b = Some b' \<and>
     puts_with put b' k st = do { st' \<leftarrow> fold_opt put (hex8 v) st; Some (length (hex8 v), st') }"
proof -
  let ?t = "numeral_text 16 (unat v)" and ?z = "chr CHR ''0''"
  let ?r = "0 # drop (8 + length ?t + 1) (replicate 64 0)"
  let ?b = "replicate 8 0 @ ?t @ ?r" and ?b' = "replicate (length ?t) 0 @ replicate (8 - length ?t) ?z @ ?t @ ?r"
  note len = length_u32_text(1) [of v]
  have nz: "0 \<notin> set ?t" by (simp add: numeral_text_no_zero)
  have w: "itoa v (replicate 64 0) 8 16 = Some ?b"
    using itoa_writes_numeral [of 16 8 v "replicate 64 0"] len by simp
  have sl: "strlen ?b 8 = Some (length ?t)"
    by (rule strlen_string) (use nz in \<open>auto simp: string_at_def nth_append in_set_conv_nth\<close>)
  have "for_range (length ?t) 8 (\<lambda>i buf. wr buf i ?z) ?b =
      Some (take (length ?t) ?b @ replicate (8 - length ?t) ?z @ drop 8 ?b)"
    by (rule fill_loop) (use len in auto)
  then have fill: "for_range (length ?t) 8 (\<lambda>i buf. wr buf i ?z) ?b = Some ?b'"
    using len by (simp add: min_absorb1)
  have "c_string (drop (length ?t) ?b') = Some (hex8 v)"
    using c_string_append [of "replicate (8 - length ?t) ?z @ ?t"] nz by (simp add: hex8_def Let_def)
  then show ?thesis using w sl fill by (simp add: puts_with_text)
qed

lemma signed_text_bits:
  "signed_text v = (if sint v < 0 then chr CHR ''-'' # numeral_text 10 (unat (- v))
     else numeral_text 10 (unat v))"
proof (cases "sint v < 0")
  case True
  then have "uint (- v) = - sint v"
  proof -
    have "- v = word_of_int (- sint v)" by simp
    then have "uint (- v) = (- sint v) mod 2 ^ 32" by (simp only: uint_word_of_int) simp
    then show ?thesis using True sint_greater_eq [of v] by simp
  qed
  then show ?thesis using True by (simp add: signed_text_def unat_eq_nat_uint)
next
  case False
  have "uint v = uint (word_of_int (sint v) :: u32)" by simp
  also have "\<dots> = sint v mod 2 ^ LENGTH(32)" by (rule uint_word_of_int)
  also have "\<dots> = sint v" using False sint_less [of v] by (intro mod_pos_pos_trivial) simp_all
  finally have "unat v = nat (sint v)" by (simp only: unat_eq_nat_uint)
  then show ?thesis using False by (simp add: signed_text_def)
qed

lemma convert_text:
  "convert put alt c args st = do {
     (t, args') \<leftarrow> conv_text alt c args;
     st' \<leftarrow> fold_opt put t st;
     Some (args', st') }"
proof -
  note len = length_u32_text
  have hex: "\<exists>b. itoa v (replicate 64 0) 0 16 = Some b \<and> puts_with put b 0 st = do {
      st' \<leftarrow> fold_opt put (numeral_text 16 (unat v)) st; Some (length (numeral_text 16 (unat v)), st') }"
    for v using puts_itoa [of 16 0 "replicate 64 0" v put st] len(1) [of v] by simp
  have dec: "\<exists>b. itoa v (replicate 36 0) 0 10 = Some b \<and> puts_with put b 0 st = do {
      st' \<leftarrow> fold_opt put (numeral_text 10 (unat v)) st; Some (length (numeral_text 10 (unat v)), st') }"
    for v using puts_itoa [of 10 0 "replicate 36 0" v put st] len(2) [of v] by simp
  have neg: "\<exists>b. itoa (- v) ((replicate 36 0)[0 := chr CHR ''-'']) 1 10 = Some b \<and>
      puts_with put b 0 st = do {
        st' \<leftarrow> fold_opt put (chr CHR ''-'' # numeral_text 10 (unat (- v))) st;
        Some (1 + length (numeral_text 10 (unat (- v))), st') }" for v
  proof -
    have "take 1 ((replicate 36 0)[0 := chr CHR ''-'']) = [chr CHR ''-'']"
      using replicate_Suc [of 35 "0 :: u8"] by simp
    then show ?thesis
      using puts_itoa [of 10 1 "(replicate 36 0)[0 := chr CHR ''-'']" "- v" put st] len(2) [of "- v"]
      by simp
  qed
  show ?thesis
  proof (cases args)
    case Nil
    then show ?thesis by (simp add: convert_def conv_text_def)
  next
    case (Cons a as)
    show ?thesis
    proof (cases a)
      case (StrArg s)
      then show ?thesis using Cons
        by (simp add: convert_def conv_text_def puts_with_text split: Option.bind_split)
    next
      case (IntArg v)
      obtain bh where bh: "itoa v (replicate 64 0) 0 16 = Some bh" "puts_with put bh 0 st = do {
        st' \<leftarrow> fold_opt put (numeral_text 16 (unat v)) st; Some (length (numeral_text 16 (unat v)), st') }"
        using hex by blast
      obtain bd where bd: "itoa v (replicate 36 0) 0 10 = Some bd" "puts_with put bd 0 st = do {
        st' \<leftarrow> fold_opt put (numeral_text 10 (unat v)) st; Some (length (numeral_text 10 (unat v)), st') }"
        using dec by blast
      obtain bn where bn: "itoa (- v) ((replicate 36 0)[0 := chr CHR ''-'']) 1 10 = Some bn"
        "puts_with put bn 0 st = do {
          st' \<leftarrow> fold_opt put (chr CHR ''-'' # numeral_text 10 (unat (- v))) st;
          Some (1 + length (numeral_text 10 (unat (- v))), st') }"
        using neg by blast
      obtain b k b' where b8: "itoa v (replicate 64 0) 8 16 = Some b" "strlen b 8 = Some k"
        "for_range k 8 (\<lambda>i buf. wr buf i (chr CHR ''0'')) b = Some b'"
        "puts_with put b' k st = do { st' \<leftarrow> fold_opt put (hex8 v) st; Some (length (hex8 v), st') }"
        using puts_hex8 [of v put st] by auto
      show ?thesis
        using Cons IntArg bh bd bn b8
        by (simp add: convert_def conv_text_def signed_text_bits)
    qed
  qed
qed

text \<open>
  The loop prints the rendered text and returns the position of the terminating zero; it faults
  when the format runs past its end, an argument is missing or the output faults, and only then.
\<close>

lemma format_loop_text:
  "format_loop put n fmt args st = do {
     (ds, k) \<leftarrow> parse_format fmt;
     t \<leftarrow> render ds args;
     st' \<leftarrow> fold_opt put t st;
     Some (n + k, st') }"
  "format_conv put alt n fmt args st = do {
     (ds, k) \<leftarrow> parse_conv alt fmt;
     t \<leftarrow> render ds args;
     st' \<leftarrow> fold_opt put t st;
     Some (n + k, st') }"
proof (induction put n fmt args st and put alt n fmt args st rule: format_loop_format_conv.induct)
  case (1 put n esp st)
  then show ?case by simp
next
  case (2 put n c buf esp st)
  then show ?case
    by (auto simp: bind_eq_None_conv apsnd_def split: Option.bind_split option.splits)
next
  case (3 put alternate n esp st)
  then show ?case by simp
next
  case (4 put alternate n c buf esp st)
  then show ?case
    by (auto simp: convert_text fold_opt_append bind_eq_Some_conv bind_eq_None_conv
        split: Option.bind_split option.splits)
qed

section \<open>Properties of formatted output\<close>

text \<open>C29. On a screen that is in order, \<^verbatim>\<open>printf\<close> with a terminated format and matching
  arguments types exactly the text that the format denotes and returns the length of the format; and \<^verbatim>\<open>vprintf\<close>
  does the same on the page of a terminal in the background.\<close>

theorem printf_types_text:
  assumes "screen_ok s" and "parse_format fmt = Some (ds, n)" and "render ds args = Some t" and "terminal_shown v"
  shows "(\<exists>s'. printf fmt args s = Some (n, s') \<and> screen_ok s' \<and> screen_of s' = fold type_char t (screen_of s)) \<and>
    (\<exists>v'. vprintf fmt args v = Some (n, v') \<and> terminal_shown v' \<and> terminal_screen v' = fold type_char t (terminal_screen v))"
proof -
  obtain s' where "fold_opt putc t s = Some s'" "screen_ok s'"
    "screen_of s' = fold type_char t (screen_of s)"
    using console_dev.put_string [OF assms(1)] by blast
  moreover obtain v' where "fold_opt vputc t v = Some v'" "terminal_shown v'"
    "terminal_screen v' = fold type_char t (terminal_screen v)"
    using terminal_dev.put_string [OF assms(4)] by blast
  ultimately show ?thesis using assms(2,3) by (simp add: printf_def vprintf_def format_loop_text)
qed

theorem printf_types_text_witness:
  "(\<exists>s'. printf (cstr ''%d:0x%#x'') [IntArg (- 7), IntArg 0xBEEF] console_demo =
     Some (8, s') \<and> screen_of s' = fold type_char (bytes_of ''-7:0x0000BEEF'') (screen_of console_demo)) \<and>
   (\<exists>v t. terminal_shown v \<and> vprintf (cstr ''%d:0x%#x'') [IntArg (- 7), IntArg 0xBEEF] v = Some (8, t) \<and>
     terminal_screen t = fold type_char (bytes_of ''-7:0x0000BEEF'') (terminal_screen v))"
proof -
  define v :: terminal where "v = \<lparr>t_screen_x = 79, t_screen_y = 3, history_index = 0, chars_printed = 0, starting_offset = 0,
    input = \<lparr>input_pointer = 0, line = []\<rparr>, previous_input = \<lparr>input_pointer = 0, line = []\<rparr>,
    video_buffer = replicate 4000 0, t_ptid = 0, input_history = [], t_state = TERMINAL_IDLE\<rparr>"
  have v: "terminal_shown v" by (simp add: v_def terminal_shown_def on_screen_def page_def)
  have p: "parse_format (cstr ''%d:0x%#x'') =
      Some ([Conv False 100, Lit 58, Lit 48, Lit 120, Conv True 120], 8)"
    by (simp add: cstr_def bytes_of_def)
  have r: "render [Conv False 100, Lit 58, Lit 48, Lit 120, Conv True 120]
      [IntArg (- 7), IntArg 0xBEEF] = Some (bytes_of ''-7:0x0000BEEF'')"
    by (simp add: conv_text_def signed_text_def numeral_text_def digits_lsd.simps hex8_def
        itoa_lookup_def bytes_of_def cstr_def replicate_num)
  show ?thesis using printf_types_text [OF console_demo_ok p r v] v by blast
qed

text \<open>\<^verbatim>\<open>%#x\<close> shows a 32-bit value as exactly eight hexadecimal digits, padded with zeros on
  the left, that denote the value.\<close>

lemma text_value_zeros: "text_value r (replicate n 48 @ t) = text_value r t"
  by (induction n) (simp_all add: text_value_def digit_val_def)

theorem hex8_format:
  "format_loop put 0 (cstr ''%#x'') [IntArg v] st = do { st' \<leftarrow> fold_opt put (hex8 v) st; Some (3, st') } \<and>
   length (hex8 v) = 8 \<and> text_value 16 (hex8 v) = unat v"
proof (intro conjI)
  show "format_loop put 0 (cstr ''%#x'') [IntArg v] st = do { st' \<leftarrow> fold_opt put (hex8 v) st; Some (3, st') }"
    by (simp add: format_loop_text cstr_def bytes_of_def conv_text_def numeral_3_eq_3)
  show "length (hex8 v) = 8" using length_u32_text(1) [of v] by (simp add: hex8_def Let_def)
  show "text_value 16 (hex8 v) = unat v"
    by (simp add: hex8_def Let_def text_value_zeros text_value_numeral)
qed

end
