(* ===== verification/Paging.thy ===== *)
theory Paging
  imports Printf
begin

text \<open>
  Page directories and page tables, \<^verbatim>\<open>paging.c\<close>. The tables are dwords of memory, written
  through the pointers \<^verbatim>\<open>pd\<close> and \<^verbatim>\<open>pt\<close>; the control registers are part of the state. The
  specification is \<^verbatim>\<open>translate\<close>, the page walk of the processor with 4 MB pages enabled
  (Intel's manual, volume 3). Kernel memory is accessed at its identity mapping, which
  \<open>paging_identity\<close> below shows to be what the initial tables provide.
\<close>

unbundle bit_operations_syntax

section \<open>State and constants\<close>

definition FIRST_20_BITS :: u32 where "FIRST_20_BITS = 0xFFFFF000"
definition FIRST_10_BITS :: u32 where "FIRST_10_BITS = 0xFFC00000"
definition KERNEL_LOCATION :: u32 where "KERNEL_LOCATION = 0x400000"
definition NUM_PAGES :: nat where "NUM_PAGES = 1024"
definition SIZE_4KB_PAGE :: u32 where "SIZE_4KB_PAGE = 0x1000"
definition SIZE_4MB_PAGE :: u32 where "SIZE_4MB_PAGE = 0x400000"
definition CR4_4MB_PAGE_BIT :: u32 where "CR4_4MB_PAGE_BIT = 0x10"
definition CR0_PAGE_ENBL_BIT :: u32 where "CR0_PAGE_ENBL_BIT = 0x80000000"
definition SUPERVISOR_RW_PRESENT :: u32 where "SUPERVISOR_RW_PRESENT = 0x3"
definition RW_PRESENT :: u32 where "RW_PRESENT = 0x3"
definition PAGE_SIZE_BIT :: u32 where "PAGE_SIZE_BIT = 0x80"
definition PDE_BASE_ADDRESS_OFF :: nat where "PDE_BASE_ADDRESS_OFF = 22"
definition PTE_BASE_ADDRESS_OFF :: nat where "PTE_BASE_ADDRESS_OFF = 12"
definition PTE_MASK :: u32 where "PTE_MASK = 0x3FF000"

lemmas paging_consts =
  KERNEL_LOCATION_def NUM_PAGES_def SIZE_4KB_PAGE_def SIZE_4MB_PAGE_def
  CR4_4MB_PAGE_BIT_def CR0_PAGE_ENBL_BIT_def SUPERVISOR_RW_PRESENT_def RW_PRESENT_def
  PAGE_SIZE_BIT_def PDE_BASE_ADDRESS_OFF_def PTE_BASE_ADDRESS_OFF_def

record paging = console +
  pd :: u32
  pt :: u32
  cr0 :: u32
  cr3 :: u32
  cr4 :: u32

section \<open>Operations\<close>

text \<open>The element \<^term>\<open>i\<close> of an array of dwords at \<^term>\<open>base\<close>.\<close>

abbreviation dword_at :: "u32 \<Rightarrow> u32 \<Rightarrow> u32" where
  "dword_at base i \<equiv> base + 4 * i"

definition store32 :: "u32 \<Rightarrow> u32 \<Rightarrow> 'a machine_scheme \<Rightarrow> 'a machine_scheme" where
  "store32 a v s = s\<lparr>mem := st32 (mem s) a v\<rparr>"

text \<open>The loop that identity maps the first 4 MB, page 0 excepted.\<close>

definition fill_page_table :: "'a paging_scheme \<Rightarrow> 'a paging_scheme" where
  "fill_page_table s = snd (fold (\<lambda>i (addr, s).
     (let s = (if i \<noteq> 0 then store32 (dword_at (pt s) (of_nat i)) (addr OR SUPERVISOR_RW_PRESENT) s
               else s)
      in (addr + SIZE_4KB_PAGE, s))) [0..<NUM_PAGES] (0, s))"

definition paging_init :: "'a paging_scheme \<Rightarrow> 'a paging_scheme" where
  "paging_init s = (
     let s = store32 (dword_at (pd s) 0) (pt s AND FIRST_20_BITS) s;
         s = store32 (dword_at (pd s) 0) (ld32 (mem s) (dword_at (pd s) 0) OR SUPERVISOR_RW_PRESENT) s;
         s = fill_page_table s;
         s = store32 (dword_at (pd s) 1) (KERNEL_LOCATION AND FIRST_10_BITS) s;
         s = store32 (dword_at (pd s) 1)
               (ld32 (mem s) (dword_at (pd s) 1) OR (PAGE_SIZE_BIT OR SUPERVISOR_RW_PRESENT)) s;
         s = s\<lparr>cr3 := pd s\<rparr>;
         s = s\<lparr>cr4 := cr4 s OR CR4_4MB_PAGE_BIT\<rparr>
     in s\<lparr>cr0 := cr0 s OR CR0_PAGE_ENBL_BIT\<rparr>)"

definition pd_index :: "u32 \<Rightarrow> u32" where
  "pd_index virt_addr = drop_bit PDE_BASE_ADDRESS_OFF (virt_addr AND FIRST_10_BITS)"

definition pt_index :: "u32 \<Rightarrow> u32" where
  "pt_index virt_addr = drop_bit PTE_BASE_ADDRESS_OFF (virt_addr AND PTE_MASK)"

definition map_page_directory ::
  "u32 \<Rightarrow> u32 \<Rightarrow> u8 \<Rightarrow> u8 \<Rightarrow> 'a paging_scheme \<Rightarrow> int \<times> 'a paging_scheme" where
  "map_page_directory phys_addr virt_addr sz user s =
     (0, if sz = 0 then
           store32 (dword_at (pd s) (pd_index virt_addr))
             ((phys_addr AND FIRST_20_BITS) OR push_bit 2 (ucast user) OR RW_PRESENT) s
         else if sz = 1 then
           store32 (dword_at (pd s) (pd_index virt_addr))
             ((phys_addr AND FIRST_10_BITS) OR PAGE_SIZE_BIT OR push_bit 2 (ucast user) OR RW_PRESENT) s
         else s)"

text \<open>The page table that the directory entry of an address names.\<close>

definition pg_table :: "u32 \<Rightarrow> 'a paging_scheme \<Rightarrow> u32" where
  "pg_table virt_addr s = ld32 (mem s) (dword_at (pd s) (pd_index virt_addr)) AND FIRST_20_BITS"

definition map_page_table ::
  "u32 \<Rightarrow> u32 \<Rightarrow> u8 \<Rightarrow> 'a paging_scheme \<Rightarrow> int \<times> 'a paging_scheme" where
  "map_page_table phys_addr virt_addr user s =
     (0, store32 (dword_at (pg_table virt_addr s) (pt_index virt_addr))
           ((phys_addr AND FIRST_20_BITS) OR push_bit 2 (ucast user) OR RW_PRESENT) s)"

definition set_pde :: "u32 \<Rightarrow> 'a paging_scheme \<Rightarrow> int \<times> 'a paging_scheme" where
  "set_pde virt_addr s =
     (let a = dword_at (pd s) (pd_index virt_addr) in (0, store32 a (ld32 (mem s) a OR 1) s))"

definition set_pte :: "u32 \<Rightarrow> 'a paging_scheme \<Rightarrow> int \<times> 'a paging_scheme" where
  "set_pte virt_addr s =
     (let a = dword_at (pg_table virt_addr s) (pt_index virt_addr)
      in (0, store32 a (ld32 (mem s) a OR 1) s))"

definition clear_pde :: "u32 \<Rightarrow> 'a paging_scheme \<Rightarrow> int \<times> 'a paging_scheme" where
  "clear_pde virt_addr s = (0, store32 (dword_at (pd s) (pd_index virt_addr)) 0 s)"

definition clear_pte :: "u32 \<Rightarrow> 'a paging_scheme \<Rightarrow> int \<times> 'a paging_scheme" where
  "clear_pte virt_addr s =
     (0, store32 (dword_at (pg_table virt_addr s) (pt_index virt_addr)) 0 s)"

section \<open>The page walk\<close>

text \<open>
  The physical address an access reaches, or \<^term>\<open>None\<close> for a page fault. A user access needs
  the user bit at both levels; the source marks every present page writable.
\<close>

definition present :: "u32 \<Rightarrow> bool" where
  "present e = bit e 0"

definition allows :: "bool \<Rightarrow> u32 \<Rightarrow> bool" where
  "allows user e = (present e \<and> (user \<longrightarrow> bit e 2))"

definition translate :: "(u32 \<Rightarrow> u8) \<Rightarrow> u32 \<Rightarrow> bool \<Rightarrow> u32 \<Rightarrow> u32 option" where
  "translate m dir user va = (
     let pde = ld32 m (dword_at (dir AND FIRST_20_BITS) (drop_bit 22 va)) in
     if \<not> allows user pde then None
     else if bit pde 7 then Some ((pde AND FIRST_10_BITS) OR (va AND 0x3FFFFF))
     else let pte = ld32 m (dword_at (pde AND FIRST_20_BITS) (drop_bit 12 va AND 0x3FF)) in
       if \<not> allows user pte then None
       else Some ((pte AND FIRST_20_BITS) OR (va AND 0xFFF)))"

section \<open>Entries of tables\<close>

lemma first_bits: "FIRST_20_BITS = NOT (mask 12)" "FIRST_10_BITS = NOT (mask 22)"
  by (simp_all add: FIRST_20_BITS_def FIRST_10_BITS_def mask_eq_exp_minus_1)

lemma mask_bits: "(0x3FFFFF :: u32) = mask 22" "(0xFFF :: u32) = mask 12" "(0x3FF :: u32) = mask 10"
    "(3 :: u32) = mask 2" "PTE_MASK = push_bit 12 (mask 10)"
  by (simp_all add: PTE_MASK_def mask_eq_exp_minus_1)

lemma u32_bit_lt: "bit (w :: u32) n \<Longrightarrow> n < 32"
  by (drule bit_imp_le_length) simp

lemma index_bits: "pd_index va = drop_bit 22 va" "pt_index va = drop_bit 12 va AND 0x3FF"
proof -
  show "pd_index va = drop_bit 22 va"
    unfolding pd_index_def first_bits PDE_BASE_ADDRESS_OFF_def
  proof (rule bit_word_eqI)
    fix n
    show "bit (drop_bit 22 (va AND NOT (mask 22))) n = bit (drop_bit 22 va) n"
      using u32_bit_lt [of va "22 + n"] by (auto simp: bit_simps)
  qed
  show "pt_index va = drop_bit 12 va AND 0x3FF"
    unfolding pt_index_def mask_bits PTE_BASE_ADDRESS_OFF_def
    by (rule bit_word_eqI) (auto simp: bit_simps dest: u32_bit_lt)
qed

definition page_aligned :: "u32 \<Rightarrow> bool" where
  "page_aligned a = (a AND FIRST_20_BITS = a)"

lemma page_aligned_bit: "page_aligned a \<Longrightarrow> n < 12 \<Longrightarrow> \<not> bit a n"
  by (metis page_aligned_def first_bits(1) bit_and_iff bit_not_iff bit_mask_iff possible_bit_word)

lemma four_times: "4 * (i :: u32) = push_bit 2 i"
  by (simp add: push_bit_eq_mult)

lemma small_bit:
  fixes i :: u32
  assumes "i < 1024" and "10 \<le> n"
  shows "\<not> bit i n"
proof -
  have "i = take_bit 10 i"
    using assms(1) by (simp add: take_bit_eq_mod word_unat_eq_iff unat_mod word_less_nat_alt)
  then show ?thesis using assms(2) by (metis bit_take_bit_iff not_less)
qed

lemma entry_or:
  assumes "page_aligned base" and "i < 1024"
  shows "base + 4 * i = base OR push_bit 2 i"
proof -
  have "base AND push_bit 2 i = 0"
  proof (rule bit_word_eqI)
    fix n
    show "bit (base AND push_bit 2 i) n = bit (0 :: u32) n"
      using page_aligned_bit [OF assms(1), of n] small_bit [OF assms(2), of "n - 2"]
      by (cases "n < 12") (auto simp: bit_simps)
  qed
  then show ?thesis unfolding four_times by (rule disjunctive_add_eq_or)
qed

lemma dword_apart:
  assumes "a AND 3 = 0" and "b AND 3 = 0" and "a \<noteq> b"
  shows "apart4 a b"
proof -
  have far: "4 \<le> x - y" if "x AND 3 = 0" "y AND 3 = 0" "x \<noteq> y" for x y :: u32
  proof (rule ccontr)
    have m: "uint z mod 4 = 0" if "z AND 3 = 0" for z :: u32
    proof -
      have "uint (z AND 3) = uint z mod 4"
        using take_bit_eq_mask [of 2 "uint z"] by (simp add: uint_and take_bit_eq_mod mask_eq_exp_minus_1)
      then show ?thesis using that by simp
    qed
    assume "\<not> 4 \<le> x - y"
    then have "uint (x - y) < 4" by (simp add: word_less_alt not_le)
    moreover have "uint (x - y) mod 4 = 0"
      using m [OF that(1)] m [OF that(2)]
      by (simp add: uint_word_ariths mod_mod_cancel) (metis diff_zero mod_0 mod_diff_eq)
    ultimately have "uint (x - y) = 0" by simp
    then show False using that(3) by (simp add: uint_0_iff)
  qed
  then show ?thesis using assms by (simp add: apart4_def)
qed

text \<open>An entry of a table: the page it lies in, and its address is a multiple of 4.\<close>

lemma entry_page:
  assumes "page_aligned base" and "i < 1024"
  shows "(base + 4 * i) AND FIRST_20_BITS = base"
  unfolding entry_or [OF assms] first_bits
proof (rule bit_word_eqI)
  fix n
  show "bit ((base OR push_bit 2 i) AND NOT (mask 12)) n = bit base n"
    using page_aligned_bit [OF assms(1), of n] small_bit [OF assms(2), of "n - 2"]
    by (cases "n < 12") (auto simp: bit_simps dest: bit_imp_le_length)
qed

lemma entry_mod4:
  assumes "page_aligned base" and "i < 1024"
  shows "(base + 4 * i) AND 3 = 0"
  unfolding entry_or [OF assms] mask_bits
proof (rule bit_word_eqI)
  fix n
  show "bit ((base OR push_bit 2 i) AND mask 2) n = bit (0 :: u32) n"
    using page_aligned_bit [OF assms(1), of n] by (auto simp: bit_simps)
qed

lemma entry_inj:
  assumes "page_aligned base" and "i < 1024" and "j < 1024"
  shows "base + 4 * i = base + 4 * j \<longleftrightarrow> i = j"
proof
  assume "base + 4 * i = base + 4 * j"
  then have "push_bit 2 i = push_bit 2 j" by (simp add: four_times)
  show "i = j"
  proof (rule bit_word_eqI)
    fix n assume "n < LENGTH(32)"
    have "bit (push_bit 2 i) (n + 2) = bit (push_bit 2 j) (n + 2)"
      using \<open>push_bit 2 i = push_bit 2 j\<close> by simp
    then show "bit i n = bit j n"
      using small_bit [OF assms(2), of n] small_bit [OF assms(3), of n]
      by (cases "n < 10") (auto simp: bit_simps not_less)
  qed
qed simp

lemma entries_apart:
  assumes "page_aligned b" and "page_aligned b'" and "i < 1024" and "j < 1024" and "b \<noteq> b' \<or> i \<noteq> j"
  shows "apart4 (b + 4 * i) (b' + 4 * j)"
proof (rule dword_apart)
  show "b + 4 * i \<noteq> b' + 4 * j"
    using entry_page [OF assms(1,3)] entry_page [OF assms(2,4)] entry_inj [OF assms(1,3,4)] assms(5)
    by metis
qed (use entry_mod4 assms in auto)

text \<open>A store into one entry is seen in that entry only.\<close>

lemma ld32_entry:
  assumes "page_aligned b" and "page_aligned b'" and "i < 1024" and "j < 1024"
  shows "ld32 (st32 m (b + 4 * i) v) (b' + 4 * j) = (if b = b' \<and> i = j then v else ld32 m (b' + 4 * j))"
  using entries_apart [OF assms] by (auto simp: ld32_st32_apart)

lemma index_lt: "drop_bit 22 (va :: u32) < 1024" "(x :: u32) AND 0x3FF < 1024"
proof -
  have "unat (drop_bit 22 va) < 1024"
    using unsigned_less [of va, where 'a = nat] by (simp add: drop_bit_eq_div unat_div)
  then show "drop_bit 22 va < 1024" by (simp add: word_less_nat_alt)
  have "x AND 0x3FF \<le> 0x3FF" by (rule word_and_le1)
  then show "x AND 0x3FF < 1024" by (rule le_less_trans) simp
qed

section \<open>The identity table\<close>

definition aligned_tables :: "'a paging_scheme \<Rightarrow> bool" where
  "aligned_tables s = (page_aligned (pd s) \<and> page_aligned (pt s) \<and> pd s \<noteq> pt s)"

text \<open>
  What the loop has done before index \<^term>\<open>n\<close>: the entries below \<^term>\<open>n\<close> except entry 0 map their
  page to itself, and the dwords of every other page and the rest of the table are as before.
\<close>

definition filled_to :: "nat \<Rightarrow> 'a paging_scheme \<Rightarrow> (u32 \<Rightarrow> u8) \<Rightarrow> bool" where
  "filled_to n s m =
     ((\<forall>i < 1024. ld32 m (pt s + 4 * i) =
        (if i \<noteq> 0 \<and> unat i < n then 4096 * i OR 3 else ld32 (mem s) (pt s + 4 * i))) \<and>
      (\<forall>b i. page_aligned b \<and> b \<noteq> pt s \<and> i < 1024 \<longrightarrow> ld32 m (b + 4 * i) = ld32 (mem s) (b + 4 * i)))"

lemma of_nat_lt_1024: "n < 1024 \<Longrightarrow> (of_nat n :: u32) < 1024"
  by (simp add: word_less_nat_alt unat_of_nat)

lemma fill_step:
  assumes "page_aligned (pt s)" and "n < 1024" and "filled_to n s m"
  shows "filled_to (Suc n) s (if n \<noteq> 0 then st32 m (pt s + 4 * of_nat n) (4096 * of_nat n OR 3) else m)"
proof (cases "n = 0")
  case True
  then show ?thesis using assms(3) by (simp add: filled_to_def unat_eq_0)
next
  case False
  have u: "unat (of_nat n :: u32) = n" using assms(2) by (simp add: unat_of_nat)
  have "(of_nat n :: u32) \<noteq> 0"
  proof
    assume "(of_nat n :: u32) = 0"
    then show False using u False by simp
  qed
  with u of_nat_lt_1024 [OF assms(2)]
  have n: "(of_nat n :: u32) < 1024" "unat (of_nat n :: u32) = n" "(of_nat n :: u32) \<noteq> 0"
    by simp_all
  have e: "(unat i < Suc n) = (unat i < n \<or> i = of_nat n)" for i :: u32
    using n(2) by (auto simp: less_Suc_eq)
  have "ld32 m (pt s + 4 * 0) = ld32 (mem s) (pt s + 4 * 0)"
    using assms(3) unfolding filled_to_def by (elim conjE allE [of _ 0]) simp
  then show ?thesis
    using assms(3) False n e
    by (auto simp: filled_to_def ld32_entry assms(1))
qed

lemma fill_page_table_fills:
  assumes "page_aligned (pt s)"
  shows "\<exists>m. fill_page_table s = s\<lparr>mem := m\<rparr> \<and> filled_to 1024 s m"
proof -
  let ?f = "\<lambda>i (addr, s :: 'a paging_scheme).
     (let s = (if i \<noteq> 0 then store32 (dword_at (pt s) (of_nat i)) (addr OR SUPERVISOR_RW_PRESENT) s
               else s) in (addr + SIZE_4KB_PAGE, s))"
  have "\<exists>m. fold ?f [0..<n] (0, s) = (4096 * of_nat n, s\<lparr>mem := m\<rparr>) \<and> filled_to n s m" if "n \<le> 1024" for n
    using that
  proof (induction n)
    case 0
    have "filled_to 0 s (mem s)" by (simp add: filled_to_def)
    then show ?case by (auto intro!: exI [of _ "mem s"])
  next
    case (Suc n)
    then obtain m where m: "fold ?f [0..<n] (0, s) = (4096 * of_nat n, s\<lparr>mem := m\<rparr>)" "filled_to n s m"
      by auto
    show ?case
      using fill_step [OF assms _ m(2)] Suc.prems m(1)
      by (auto simp: store32_def SUPERVISOR_RW_PRESENT_def SIZE_4KB_PAGE_def algebra_simps split: if_splits)
  qed
  from this [of 1024] show ?thesis by (auto simp: fill_page_table_def NUM_PAGES_def)
qed

section \<open>What the operations do to the page walk\<close>

text \<open>Two addresses share a directory entry when they lie in the same 4 MB.\<close>

lemma flag_bits: "PAGE_SIZE_BIT = push_bit 7 1" "RW_PRESENT = mask 2" "SUPERVISOR_RW_PRESENT = mask 2"
  by (simp_all add: paging_consts mask_eq_exp_minus_1)

lemma translate_4mb:
  assumes "ld32 m (dword_at (dir AND FIRST_20_BITS) (drop_bit 22 va)) =
      (phys AND FIRST_10_BITS) OR PAGE_SIZE_BIT OR push_bit 2 (ucast (w :: u8)) OR RW_PRESENT"
    and "w = 0 \<or> w = 1"
  shows "translate m dir user va =
    (if user \<and> w = 0 then None else Some ((phys AND FIRST_10_BITS) OR (va AND 0x3FFFFF)))"
proof -
  let ?e = "(phys AND FIRST_10_BITS) OR PAGE_SIZE_BIT OR push_bit 2 (ucast w) OR RW_PRESENT"
  have a: "allows user ?e \<longleftrightarrow> (user \<longrightarrow> w = 1)"
    using assms(2) by (auto simp: allows_def present_def first_bits flag_bits bit_simps)
  have s: "bit ?e 7" by (simp add: bit_simps flag_bits)
  have b: "?e AND FIRST_10_BITS = phys AND FIRST_10_BITS"
  proof (rule bit_word_eqI)
    fix n
    show "bit (?e AND FIRST_10_BITS) n = bit (phys AND FIRST_10_BITS) n"
      using assms(2) small_bit [of 128 n] by (auto simp: first_bits bit_simps flag_bits)
  qed
  show ?thesis using assms a s b by (auto simp: translate_def Let_def)
qed

lemma translate_same_entries:
  assumes "ld32 m' (dword_at (dir AND FIRST_20_BITS) (drop_bit 22 va)) =
      ld32 m (dword_at (dir AND FIRST_20_BITS) (drop_bit 22 va))"
    and "\<And>e. e = ld32 m (dword_at (dir AND FIRST_20_BITS) (drop_bit 22 va)) \<Longrightarrow> \<not> bit e 7 \<Longrightarrow>
      ld32 m' (dword_at (e AND FIRST_20_BITS) (drop_bit 12 va AND 0x3FF)) =
      ld32 m (dword_at (e AND FIRST_20_BITS) (drop_bit 12 va AND 0x3FF))"
  shows "translate m' dir user va = translate m dir user va"
  using assms by (simp add: translate_def Let_def)

text \<open>
  Overwriting one directory entry: the walk for addresses of that 4 MB region changes, the others
  are as before unless their page table is the directory itself.
\<close>

lemma directory_update:
  assumes "page_aligned dir" and "drop_bit 22 va \<noteq> (i :: u32)" and "i < 1024"
    and "ld32 m (dword_at dir (drop_bit 22 va)) AND FIRST_20_BITS \<noteq> dir \<or> bit (ld32 m (dword_at dir (drop_bit 22 va))) 7"
  shows "translate (st32 m (dword_at dir i) v) dir user va = translate m dir user va"
proof (rule translate_same_entries)
  have dir: "dir AND FIRST_20_BITS = dir" using assms(1) by (simp add: page_aligned_def)
  have aligned: "page_aligned (e AND FIRST_20_BITS)" for e
    by (simp add: page_aligned_def and.assoc)
  show "ld32 (st32 m (dword_at dir i) v) (dword_at (dir AND FIRST_20_BITS) (drop_bit 22 va)) =
      ld32 m (dword_at (dir AND FIRST_20_BITS) (drop_bit 22 va))"
    unfolding dir using assms(2) by (simp add: ld32_entry [OF assms(1,1,3) index_lt(1)])
  fix e
  assume "e = ld32 m (dword_at (dir AND FIRST_20_BITS) (drop_bit 22 va))" "\<not> bit e 7"
  then have "e AND FIRST_20_BITS \<noteq> dir" using assms(4) unfolding dir by auto
  then show "ld32 (st32 m (dword_at dir i) v) (dword_at (e AND FIRST_20_BITS) (drop_bit 12 va AND 0x3FF)) =
      ld32 m (dword_at (e AND FIRST_20_BITS) (drop_bit 12 va AND 0x3FF))"
    by (auto simp: ld32_entry [OF assms(1) aligned assms(3) index_lt(2)])
qed

lemma map_4mb_translate:
  assumes "page_aligned (pd s)" and "user = 0 \<or> user = 1" and "drop_bit 22 va = drop_bit 22 virt"
  shows "translate (mem (snd (map_page_directory phys virt 1 user s))) (pd s) u va =
    (if u \<and> user = 0 then None else Some ((phys AND FIRST_10_BITS) OR (va AND 0x3FFFFF)))"
proof (rule translate_4mb)
  have "pd s AND FIRST_20_BITS = pd s" using assms(1) by (simp add: page_aligned_def)
  then show "ld32 (mem (snd (map_page_directory phys virt 1 user s)))
      (dword_at (pd s AND FIRST_20_BITS) (drop_bit 22 va)) =
      (phys AND FIRST_10_BITS) OR PAGE_SIZE_BIT OR push_bit 2 (ucast user) OR RW_PRESENT"
    using assms(3) by (simp add: map_page_directory_def store32_def index_bits)
qed (rule assms(2))

lemma clear_pde_translate:
  assumes "page_aligned (pd s)" and "drop_bit 22 va = drop_bit 22 virt"
  shows "translate (mem (snd (clear_pde virt s))) (pd s) u va = None"
proof -
  have "pd s AND FIRST_20_BITS = pd s" using assms(1) by (simp add: page_aligned_def)
  then show ?thesis
    using assms(2) by (simp add: translate_def clear_pde_def store32_def index_bits allows_def present_def)
qed

section \<open>Properties of paging\<close>

definition paging_demo :: paging where
  "paging_demo = \<lparr>mem = (\<lambda>_. 0), eflags = 0, io_trace = [], master_mask = 0, slave_mask = 0,
     interrupt_received = 0, screen_x = 0, screen_y = 0, video_mem = replicate 4000 0,
     pd = 0x420000, pt = 0x421000, cr0 = 0x11, cr3 = 0, cr4 = 0\<rparr>"

text \<open>Mapping a 4 MB page changes the page walk for exactly the 4 MB region of the virtual
  address: there every address goes to the same offset in the physical 4 MB page, for user
  accesses when the user flag is set; every other address is translated as before, provided its page
  table is not the directory itself. Clearing the entry again makes the region fault.\<close>

theorem map_page_directory_4mb:
  assumes "page_aligned (pd s)" and "user = 0 \<or> user = 1"
  shows "\<exists>t. map_page_directory phys virt 1 user s = (0, t) \<and> pd t = pd s \<and>
    (\<forall>u va. drop_bit 22 va = drop_bit 22 virt \<longrightarrow>
       translate (mem t) (pd s) u va =
         (if u \<and> user = 0 then None else Some ((phys AND FIRST_10_BITS) OR (va AND 0x3FFFFF))) \<and>
       translate (mem (snd (clear_pde virt t))) (pd s) u va = None) \<and>
    (\<forall>u va. drop_bit 22 va \<noteq> drop_bit 22 virt \<longrightarrow>
       ld32 (mem s) (dword_at (pd s) (drop_bit 22 va)) AND FIRST_20_BITS \<noteq> pd s \<longrightarrow>
       translate (mem t) (pd s) u va = translate (mem s) (pd s) u va)"
proof -
  let ?t = "snd (map_page_directory phys virt 1 user s)"
  have t: "map_page_directory phys virt 1 user s = (0, ?t)" "pd ?t = pd s"
    by (simp_all add: map_page_directory_def store32_def)
  have "translate (mem ?t) (pd s) u va = translate (mem s) (pd s) u va"
    if "drop_bit 22 va \<noteq> drop_bit 22 virt"
      "ld32 (mem s) (dword_at (pd s) (drop_bit 22 va)) AND FIRST_20_BITS \<noteq> pd s" for u va
    using directory_update [OF assms(1) that(1) index_lt(1)] that(2)
    by (simp add: map_page_directory_def store32_def index_bits)
  with t show ?thesis
    using map_4mb_translate [OF assms] clear_pde_translate [of ?t] assms(1) by auto
qed

theorem map_page_directory_4mb_witness:
  "page_aligned (pd paging_demo) \<and> (\<exists>t. map_page_directory 0x800000 0x8000000 1 1 paging_demo = (0, t) \<and>
     translate (mem t) 0x420000 True 0x8048000 = Some 0x848000)"
proof -
  have a: "page_aligned (pd paging_demo)"
    by (simp add: page_aligned_def paging_demo_def FIRST_20_BITS_def)
  have b: "(1 :: u8) = 0 \<or> (1 :: u8) = 1" by simp
  have "drop_bit 22 (0x8048000 :: u32) = drop_bit 22 0x8000000" by simp
  with map_page_directory_4mb [OF a b, where phys = "0x800000" and virt = "0x8000000"] a show ?thesis
    by (auto simp: paging_demo_def FIRST_10_BITS_def)
qed

text \<open>Started on tables that mark nothing present, initialisation turns paging on with large pages
  enabled, and the directory it loads maps every address from 4 KB up to 8 MB to itself for the
  supervisor only; the first page, which \<^verbatim>\<open>NULL\<close> points to, and every other address fault.\<close>

definition identity_map :: "bool \<Rightarrow> u32 \<Rightarrow> u32 option" where
  "identity_map user va = (if \<not> user \<and> 0x1000 \<le> va \<and> va < 0x800000 then Some va else None)"

definition fresh_tables :: "'a paging_scheme \<Rightarrow> bool" where
  "fresh_tables s = (aligned_tables s \<and> (\<forall>i < 1024. \<not> present (ld32 (mem s) (dword_at (pd s) i))) \<and>
     \<not> present (ld32 (mem s) (pt s)))"

lemma paging_init_memory:
  assumes "aligned_tables s"
  shows "\<exists>m. paging_init s = s\<lparr>mem := m, cr3 := pd s, cr4 := cr4 s OR 0x10, cr0 := cr0 s OR 0x80000000\<rparr> \<and>
    (\<forall>i < 1024. ld32 m (dword_at (pd s) i) =
       (if i = 0 then pt s OR 3 else if i = 1 then 0x400083 else ld32 (mem s) (dword_at (pd s) i))) \<and>
    (\<forall>i < 1024. ld32 m (dword_at (pt s) i) =
       (if i \<noteq> 0 then 4096 * i OR 3 else ld32 (mem s) (pt s)))"
proof -
  have al: "page_aligned (pd s)" "page_aligned (pt s)" "pd s \<noteq> pt s"
    using assms by (simp_all add: aligned_tables_def)
  have e0: "ld32 (st32 m (pd s) v) (b + 4 * j) = (if b = pd s \<and> j = 0 then v else ld32 m (b + 4 * j))"
    if "page_aligned b" "j < 1024" for m v b j
    using ld32_entry [OF al(1) that(1), of 0 j m v] that(2) by auto
  have e1: "ld32 (st32 m (pd s + 4) v) (b + 4 * j) = (if b = pd s \<and> j = 1 then v else ld32 m (b + 4 * j))"
    if "page_aligned b" "j < 1024" for m v b j
    using ld32_entry [OF al(1) that(1), of 1 j m v] that(2) by auto
  define m1 where "m1 = st32 (st32 (mem s) (pd s) (pt s)) (pd s) (pt s OR 3)"
  obtain m2 where m2: "fill_page_table (s\<lparr>mem := m1\<rparr>) = s\<lparr>mem := m2\<rparr>" "filled_to 1024 (s\<lparr>mem := m1\<rparr>) m2"
    using fill_page_table_fills [of "s\<lparr>mem := m1\<rparr>"] al(2) by auto
  let ?m = "st32 (st32 m2 (pd s + 4) 0x400000) (pd s + 4) 0x400083"
  have init: "paging_init s = s\<lparr>mem := ?m, cr3 := pd s, cr4 := cr4 s OR 0x10, cr0 := cr0 s OR 0x80000000\<rparr>"
    using m2(1) al(2)
    by (simp add: paging_init_def store32_def Let_def page_aligned_def m1_def paging_consts FIRST_10_BITS_def)
  have dir: "ld32 ?m (pd s + 4 * i) =
      (if i = 0 then pt s OR 3 else if i = 1 then 0x400083 else ld32 (mem s) (pd s + 4 * i))"
    if i: "i < 1024" for i
  proof -
    have "ld32 m2 (pd s + 4 * i) = ld32 m1 (pd s + 4 * i)"
      using m2(2) al i by (auto simp: filled_to_def)
    then show ?thesis by (simp only: e1 [OF al(1) i] m1_def e0 [OF al(1) i]) auto
  qed
  have tab: "ld32 ?m (pt s + 4 * i) = (if i \<noteq> 0 then 4096 * i OR 3 else ld32 (mem s) (pt s))"
    if i: "i < 1024" for i
  proof -
    have "unat i < 1024" using i by (simp add: word_less_nat_alt)
    then have "ld32 m2 (pt s + 4 * i) = (if i \<noteq> 0 then 4096 * i OR 3 else ld32 m1 (pt s + 4 * i))"
      using m2(2) i by (simp add: filled_to_def)
    then show ?thesis using al(3) e0 [OF al(2) i] e0 [OF al(2), of 0]
      by (simp only: e1 [OF al(2) i]) (simp add: m1_def)
  qed
  show ?thesis using init dir tab by blast
qed

lemma walk_4kb:
  assumes "pde = tab OR 3" and "page_aligned tab" and "ld32 m (dword_at (dir AND FIRST_20_BITS) (drop_bit 22 va)) = pde"
  shows "translate m dir user va = (
    let pte = ld32 m (dword_at tab (drop_bit 12 va AND 0x3FF)) in
    if user \<or> \<not> present pte then None else Some ((pte AND FIRST_20_BITS) OR (va AND 0xFFF)))"
proof -
  have f: "pde AND FIRST_20_BITS = tab"
  proof (rule bit_word_eqI)
    fix n show "bit (pde AND FIRST_20_BITS) n = bit tab n"
      using page_aligned_bit [OF assms(2), of n] unfolding assms(1) first_bits mask_bits
      by (auto simp: bit_simps dest: u32_bit_lt)
  qed
  have b: "bit pde 0" "\<not> bit pde 2" "\<not> bit pde 7"
    using page_aligned_bit [OF assms(2)] unfolding assms(1) mask_bits by (auto simp: bit_simps)
  show ?thesis using assms(3) f b by (auto simp: translate_def Let_def allows_def present_def)
qed

lemma walk_identity_4kb:
  assumes "drop_bit 22 (va :: u32) = 0"
  shows "((4096 * (drop_bit 12 va AND 0x3FF) OR 3) AND FIRST_20_BITS) OR (va AND 0xFFF) = va"
proof (rule bit_word_eqI)
  have push: "4096 * (drop_bit 12 va AND 0x3FF) = push_bit 12 (drop_bit 12 va AND 0x3FF)"
    by (simp add: push_bit_eq_mult)
  fix n
  have "\<not> bit va n" if "22 \<le> n"
    using arg_cong [OF assms, of "\<lambda>w. bit w (n - 22)"] that by (simp add: bit_simps)
  then show "bit (((4096 * (drop_bit 12 va AND 0x3FF) OR 3) AND FIRST_20_BITS) OR (va AND 0xFFF)) n = bit va n"
    unfolding push unfolding first_bits mask_bits
    by (cases "22 \<le> n") (auto simp: bit_simps dest: u32_bit_lt)
qed

lemma walk_identity_4mb:
  assumes "drop_bit 22 (va :: u32) = 1"
  shows "(0x400083 AND FIRST_10_BITS) OR (va AND 0x3FFFFF) = va"
proof -
  have "(0x400083 :: u32) AND FIRST_10_BITS = push_bit 22 (drop_bit 22 va)"
    by (simp add: assms FIRST_10_BITS_def)
  moreover have "push_bit 22 (drop_bit 22 va) OR (va AND mask 22) = va"
    by (rule bit_word_eqI) (auto simp: bit_simps dest: u32_bit_lt)
  ultimately show ?thesis by (simp only: mask_bits)
qed

lemma and_index:
  assumes "(i :: u32) < 1024"
  shows "i AND 0x3FF = i"
  unfolding mask_bits
proof (rule bit_word_eqI)
  fix n
  show "bit (i AND mask 10) n = bit i n"
    using small_bit [OF assms, of n] by (cases "n < 10") (auto simp: bit_and_iff bit_mask_iff)
qed

lemma region_index:
  fixes va :: u32
  shows "drop_bit 22 va = 0 \<longleftrightarrow> va < 0x400000"
    and "drop_bit 22 va = 1 \<longleftrightarrow> 0x400000 \<le> va \<and> va < 0x800000"
    and "va < 0x400000 \<Longrightarrow> drop_bit 12 va AND 0x3FF = 0 \<longleftrightarrow> va < 0x1000"
proof -
  have d: "unat (drop_bit 22 va) = unat va div 4194304" "unat (drop_bit 12 va) = unat va div 4096"
    by (simp_all add: drop_bit_eq_div unat_div)
  show "drop_bit 22 va = 0 \<longleftrightarrow> va < 0x400000"
    unfolding word_unat_eq_iff d word_less_nat_alt by auto
  show "drop_bit 22 va = 1 \<longleftrightarrow> 0x400000 \<le> va \<and> va < 0x800000"
    unfolding word_unat_eq_iff d word_less_nat_alt word_le_nat_alt by auto
  assume "va < 0x400000"
  then have "unat va < 4194304" by (simp add: word_less_nat_alt)
  then have "drop_bit 12 va < 1024" by (simp add: word_less_nat_alt d)
  then have "drop_bit 12 va AND 0x3FF = drop_bit 12 va" by (rule and_index)
  then show "drop_bit 12 va AND 0x3FF = 0 \<longleftrightarrow> va < 0x1000"
    by (simp only: word_unat_eq_iff [of "drop_bit 12 va"] d word_less_nat_alt) auto
qed

lemma paging_init_walk:
  assumes "fresh_tables s"
  shows "translate (mem (paging_init s)) (pd s) user va = identity_map user va"
proof -
  have al: "aligned_tables s" using assms by (simp add: fresh_tables_def)
  have pt: "page_aligned (pt s)" and pd: "pd s AND FIRST_20_BITS = pd s"
    using al by (simp_all add: aligned_tables_def page_aligned_def)
  obtain m where m: "mem (paging_init s) = m"
    and dir: "\<And>i. i < 1024 \<Longrightarrow> ld32 m (dword_at (pd s) i) =
       (if i = 0 then pt s OR 3 else if i = 1 then 0x400083 else ld32 (mem s) (dword_at (pd s) i))"
    and tab: "\<And>i. i < 1024 \<Longrightarrow> ld32 m (dword_at (pt s) i) =
       (if i \<noteq> 0 then 4096 * i OR 3 else ld32 (mem s) (pt s))"
    using paging_init_memory [OF al] by auto
  let ?k = "drop_bit 12 va AND 0x3FF"
  consider "va < 0x400000" | "0x400000 \<le> va" "va < 0x800000" | "0x800000 \<le> va" by fastforce
  then show ?thesis
  proof cases
    case 1
    then have i: "drop_bit 22 va = 0" and k: "?k = 0 \<longleftrightarrow> va < 0x1000" and up: "va < 0x800000"
      using region_index [of va] by (auto intro: less_trans)
    have w: "translate m (pd s) user va = (
        let pte = ld32 m (dword_at (pt s) ?k) in
        if user \<or> \<not> present pte then None else Some ((pte AND FIRST_20_BITS) OR (va AND 0xFFF)))"
      by (rule walk_4kb [OF refl pt]) (use dir [of 0] i pd in auto)
    show ?thesis
    proof (cases "?k = 0")
      case True
      then show ?thesis using w tab [of 0] assms k m
        by (auto simp: Let_def fresh_tables_def identity_map_def)
    next
      case False
      then have "present (4096 * ?k OR 3)" by (simp add: present_def bit_simps mask_bits(4))
      then show ?thesis using w False tab [OF index_lt(2)] walk_identity_4kb [OF i] k up m
        by (simp add: Let_def identity_map_def not_less)
    qed
  next
    case 2
    then have i: "drop_bit 22 va = 1" using region_index(2) by blast
    have "ld32 m (dword_at (pd s AND FIRST_20_BITS) (drop_bit 22 va)) = 0x400083"
      using dir [of 1] i pd by simp
    moreover have "bit (0x400083 :: u32) 0" "\<not> bit (0x400083 :: u32) 2" "bit (0x400083 :: u32) 7"
      by simp_all
    ultimately show ?thesis using walk_identity_4mb [OF i] 2 m order_trans [of "0x1000" "0x400000" va]
      by (simp add: translate_def Let_def allows_def present_def identity_map_def)
  next
    case 3
    then have "drop_bit 22 va \<noteq> 0" "drop_bit 22 va \<noteq> 1"
      using region_index(1,2) [of va] by (auto dest: le_less_trans)
    then show ?thesis using 3 dir [OF index_lt(1) [of va]] assms pd m index_lt(1) [of va]
      by (simp add: translate_def Let_def allows_def identity_map_def fresh_tables_def not_less)
  qed
qed

theorem paging_identity:
  assumes "fresh_tables s"
  shows "let t = paging_init s in cr3 t = pd s \<and> bit (cr0 t) 31 \<and> bit (cr4 t) 4 \<and>
    (\<forall>user va. translate (mem t) (cr3 t) user va = identity_map user va)"
proof -
  have "aligned_tables s" using assms by (simp add: fresh_tables_def)
  from paging_init_memory [OF this] have "cr3 (paging_init s) = pd s"
    "cr0 (paging_init s) = cr0 s OR 0x80000000" "cr4 (paging_init s) = cr4 s OR 0x10" by auto
  then show ?thesis using paging_init_walk [OF assms]
    by (simp add: Let_def bit_or_iff)
qed

theorem paging_identity_witness:
  "fresh_tables paging_demo \<and>
   translate (mem (paging_init paging_demo)) 0x420000 False 0xB8000 = Some 0xB8000 \<and>
   translate (mem (paging_init paging_demo)) 0x420000 True 0xB8000 = None"
proof -
  have f: "fresh_tables paging_demo"
    by (simp add: fresh_tables_def aligned_tables_def page_aligned_def paging_demo_def FIRST_20_BITS_def
      present_def ld32_def)
  show ?thesis using paging_identity [OF f] f
    by (auto simp: Let_def identity_map_def paging_demo_def)
qed

end
