(* ===== verification/FileSys.thy ===== *)
theory FileSys
  imports Paging
begin

text \<open>
  The read-only file system, \<^verbatim>\<open>filesys.c\<close> without the file operations of a task. The image
  is memory at \<^verbatim>\<open>file_sys\<close>: a header block with the directory, one block per inode, then the
  data blocks. Field accesses are loads at the offsets of \<^verbatim>\<open>filesys.h\<close>; a file name argument is
  an array with checked access; destination buffers are addresses. The abstract view of a file is
  \<^verbatim>\<open>file_byte\<close>, the byte at a position of the file.
\<close>

unbundle bit_operations_syntax

section \<open>State\<close>

definition FILESYS_SIZE :: u32 where "FILESYS_SIZE = 4096"
definition DATABLOCK_SIZE :: u32 where "DATABLOCK_SIZE = 4096"
definition FILENAME_LEN :: nat where "FILENAME_LEN = 32"
definition ELF_MAGIC_SIZE :: u32 where "ELF_MAGIC_SIZE = 4"
definition ELF_MAGIC :: u32 where "ELF_MAGIC = 0x464c457f"

record dentry =
  file_name :: "u8 list"
  file_type :: u32
  inode_num :: u32

record filesys = paging +
  file_sys :: u32

text \<open>The fields of \<^verbatim>\<open>file_sys_t\<close>, \<^verbatim>\<open>dentry_t\<close> and \<^verbatim>\<open>inode_t\<close> in memory.\<close>

type_synonym memory = "u32 \<Rightarrow> u8"

definition fs_num_dentries :: "memory \<Rightarrow> u32 \<Rightarrow> u32" where "fs_num_dentries m fs = ld32 m fs"
definition fs_num_inodes :: "memory \<Rightarrow> u32 \<Rightarrow> u32" where "fs_num_inodes m fs = ld32 m (fs + 4)"
definition fs_num_blocks :: "memory \<Rightarrow> u32 \<Rightarrow> u32" where "fs_num_blocks m fs = ld32 m (fs + 8)"
definition fs_dentry :: "u32 \<Rightarrow> u32 \<Rightarrow> u32" where "fs_dentry fs i = fs + 64 + 64 * i"
definition inode_len :: "memory \<Rightarrow> u32 \<Rightarrow> u32" where "inode_len m node = ld32 m node"
definition inode_dblock :: "memory \<Rightarrow> u32 \<Rightarrow> u32 \<Rightarrow> u32" where
  "inode_dblock m node k = ld32 m (node + 4 + 4 * k)"

section \<open>Operations\<close>

definition get_inode :: "u32 \<Rightarrow> 'a filesys_scheme \<Rightarrow> u32" where
  "get_inode inode s =
     (if inode \<ge> fs_num_inodes (mem s) (file_sys s) then 0
      else file_sys s + FILESYS_SIZE + inode * 4096)"

definition get_datablocks :: "'a filesys_scheme \<Rightarrow> u32" where
  "get_datablocks s = get_inode 0 s + fs_num_inodes (mem s) (file_sys s) * 4096"

definition init_file_system :: "u32 \<Rightarrow> 'a filesys_scheme \<Rightarrow> int \<times> 'a filesys_scheme" where
  "init_file_system start_addr s =
     (if start_addr = 0 then (- 1, s) else (0, s\<lparr>file_sys := start_addr\<rparr>))"

definition write_data :: "u32 \<Rightarrow> u32 \<Rightarrow> u32 \<Rightarrow> 'a filesys_scheme \<Rightarrow> int \<times> 'a filesys_scheme" where
  "write_data offset buf len s = (- 1, s)"

text \<open>The comparison of a directory entry with a name stops at the first difference.\<close>

function names_equal :: "memory \<Rightarrow> u32 \<Rightarrow> u8 list \<Rightarrow> nat \<Rightarrow> bool option" where
  "names_equal m a fname j =
     (if j < FILENAME_LEN then do {
        c \<leftarrow> rd fname j;
        (if m (a + of_nat j) \<noteq> c then Some False else names_equal m a fname (Suc j)) }
      else Some True)"
  by pat_completeness auto
termination
  by (relation "measure (\<lambda>(m, a, fname, j). FILENAME_LEN - j)") auto

declare names_equal.simps [simp del]

function find_dentry :: "memory \<Rightarrow> u32 \<Rightarrow> u8 list \<Rightarrow> nat \<Rightarrow> nat \<Rightarrow> nat option option" where
  "find_dentry m fs fname i n =
     (if i < n then do {
        equal \<leftarrow> names_equal m (fs_dentry fs (of_nat i)) fname 0;
        (if equal then Some (Some i) else find_dentry m fs fname (Suc i) n) }
      else Some None)"
  by pat_completeness auto
termination
  by (relation "measure (\<lambda>(m, fs, fname, i, n). n - i)") auto

declare find_dentry.simps [simp del]

text \<open>The copy of entry \<^term>\<open>i\<close> into a \<^verbatim>\<open>dentry_t\<close> that both searches end with.\<close>

definition copy_dentry :: "memory \<Rightarrow> u32 \<Rightarrow> u32 \<Rightarrow> dentry" where
  "copy_dentry m fs i =
     \<lparr>file_name = map (\<lambda>j. m (fs_dentry fs i + of_nat j)) [0..<FILENAME_LEN],
      file_type = ld32 m (fs_dentry fs i + 32),
      inode_num = ld32 m (fs_dentry fs i + 36)\<rparr>"

definition read_dentry_by_name ::
  "u8 list \<Rightarrow> dentry \<Rightarrow> 'a filesys_scheme \<Rightarrow> (int \<times> dentry) option" where
  "read_dentry_by_name fname dentry s = do {
     c \<leftarrow> rd fname 0;
     (if c = chr CHR ''.'' then do {
        name \<leftarrow> wr (file_name dentry) 0 (chr CHR ''.'');
        Some (0, dentry\<lparr>file_type := ld32 (mem s) (fs_dentry (file_sys s) 0 + 32),
                        inode_num := ld32 (mem s) (fs_dentry (file_sys s) 0 + 36),
                        file_name := name\<rparr>) }
      else do {
        found \<leftarrow> find_dentry (mem s) (file_sys s) fname 0
                   (unat (fs_num_dentries (mem s) (file_sys s)));
        (case found of
           None \<Rightarrow> Some (- 1, dentry)
         | Some i \<Rightarrow> Some (0, copy_dentry (mem s) (file_sys s) (of_nat i))) }) }"

definition read_dentry_by_index :: "u32 \<Rightarrow> dentry \<Rightarrow> 'a filesys_scheme \<Rightarrow> int \<times> dentry" where
  "read_dentry_by_index index dentry s =
     (if index \<ge> fs_num_dentries (mem s) (file_sys s) then (- 1, dentry)
      else (0, copy_dentry (mem s) (file_sys s) index))"

text \<open>
  The copy loop of \<^verbatim>\<open>read_data\<close>: \<^verbatim>\<open>blocks\<close> is the array of data blocks, \<^verbatim>\<open>dblock\<close> the
  current one. The result is the value returned and the memory.
\<close>

lemma u32_succ: "unat (i :: u32) < unat (len :: u32) \<Longrightarrow> unat (i + 1) = Suc (unat i)"
  using unsigned_less [of len, where 'a = nat] by (simp add: unat_word_ariths)

function read_loop :: "u32 \<Rightarrow> u32 \<Rightarrow> u32 \<Rightarrow> u32 \<Rightarrow> u32 \<Rightarrow> u32 \<Rightarrow> u32 \<Rightarrow> u32 \<Rightarrow> u32 \<Rightarrow> u32 \<Rightarrow> memory \<Rightarrow> int \<times> memory"
where
  "read_loop fs node blocks block_length buf len i offset dblock_page dblock m =
     (if i < len then
        (let m = m(buf + i := m (dblock + (i + offset) mod DATABLOCK_SIZE)) in
         if (i + 1 + offset) mod DATABLOCK_SIZE = 0 then
           (let dblock_page = dblock_page + 1 in
            if dblock_page = block_length then (sint i, m)
            else if dblock_page > block_length then (- 1, m)
            else if inode_dblock m node dblock_page \<ge> fs_num_blocks m fs then (- 1, m)
            else read_loop fs node blocks block_length buf len (i + 1) 0 dblock_page
                   (blocks + inode_dblock m node dblock_page * 4096) m)
         else read_loop fs node blocks block_length buf len (i + 1) offset dblock_page dblock m)
      else (sint i, m))"
  by pat_completeness auto
termination
  by (relation "measure (\<lambda>(fs, node, blocks, bl, buf, len, i, r). unat len - unat i)")
    (auto simp: word_less_nat_alt u32_succ)

declare read_loop.simps [simp del]

definition read_data :: "u32 \<Rightarrow> u32 \<Rightarrow> u32 \<Rightarrow> u32 \<Rightarrow> 'a filesys_scheme \<Rightarrow> int \<times> 'a filesys_scheme" where
  "read_data inode offset buf len s =
     (if inode \<ge> fs_num_inodes (mem s) (file_sys s) then (- 1, s)
      else
        let node = get_inode inode s;
            block_length = inode_len (mem s) node div DATABLOCK_SIZE + 1;
            dblock_page = offset div DATABLOCK_SIZE
        in if dblock_page \<ge> block_length then (- 1, s)
           else
             let offset = offset mod DATABLOCK_SIZE;
                 dblocks = get_datablocks s;
                 dblock = dblocks + inode_dblock (mem s) node dblock_page * 4096
             in if inode_dblock (mem s) node dblock_page \<ge> fs_num_blocks (mem s) (file_sys s) then (- 1, s)
                else
                  let (r, m) = read_loop (file_sys s) node dblocks block_length buf len 0 offset
                                 dblock_page dblock (mem s)
                  in (r, s\<lparr>mem := m\<rparr>))"

text \<open>
  \<^verbatim>\<open>header\<close> is the address of the local array of \<^verbatim>\<open>load_program\<close>. The local \<^verbatim>\<open>dentry\<close>
  starts uninitialised; no byte of it is read that the search has not set.
\<close>

definition blank_dentry :: dentry where
  "blank_dentry = \<lparr>file_name = replicate FILENAME_LEN 0, file_type = 0, inode_num = 0\<rparr>"

definition load_program ::
  "u32 \<Rightarrow> u8 list \<Rightarrow> u32 \<Rightarrow> 'a filesys_scheme \<Rightarrow> (int \<times> 'a filesys_scheme) option" where
  "load_program header fname pgrm_addr s =
     (if pgrm_addr = 0 then Some (- 1, s)
      else do {
        (r, dentry) \<leftarrow> read_dentry_by_name fname blank_dentry s;
        (if r = - 1 then Some (- 1, s)
         else if file_type dentry \<noteq> 2 then Some (- 1, s)
         else
           let (r, s) = read_data (inode_num dentry) 0 header ELF_MAGIC_SIZE s
           in if r \<noteq> sint ELF_MAGIC_SIZE then Some (- 1, s)
              else if ld32 (mem s) header \<noteq> ELF_MAGIC then Some (- 1, s)
              else
                let (_, s) = read_data (inode_num dentry) 0 pgrm_addr (- 1) s
                in Some (sint (ld32 (mem s) (pgrm_addr + 24)), s)) })"

section \<open>The specification\<close>

text \<open>Byte \<^term>\<open>k\<close> of the blocks of a file.\<close>

definition block_addr :: "memory \<Rightarrow> u32 \<Rightarrow> u32 \<Rightarrow> u32" where
  "block_addr m fs b = fs + 4096 + fs_num_inodes m fs * 4096 + b * 4096"

definition inode_addr :: "u32 \<Rightarrow> u32 \<Rightarrow> u32" where
  "inode_addr fs inode = fs + 4096 + inode * 4096"

definition file_byte :: "memory \<Rightarrow> u32 \<Rightarrow> u32 \<Rightarrow> nat \<Rightarrow> u8" where
  "file_byte m fs inode k =
     m (block_addr m fs (inode_dblock m (inode_addr fs inode) (of_nat (k div 4096))) + of_nat (k mod 4096))"

definition file_len :: "memory \<Rightarrow> u32 \<Rightarrow> u32 \<Rightarrow> nat" where
  "file_len m fs inode = unat (inode_len m (inode_addr fs inode))"

text \<open>The bytes the loop can reach: the blocks up to the one that holds the end of the file.\<close>

definition file_room :: "memory \<Rightarrow> u32 \<Rightarrow> u32 \<Rightarrow> nat" where
  "file_room m fs inode = 4096 * (file_len m fs inode div 4096 + 1)"

definition image_size :: "memory \<Rightarrow> u32 \<Rightarrow> nat" where
  "image_size m fs = 4096 * (1 + unat (fs_num_inodes m fs) + unat (fs_num_blocks m fs))"

text \<open>An image that fits in memory and whose inodes name existing blocks.\<close>

definition image_ok :: "memory \<Rightarrow> u32 \<Rightarrow> bool" where
  "image_ok m fs = (image_size m fs < 2 ^ 32 \<and>
     (\<forall>inode < fs_num_inodes m fs. \<forall>k \<le> file_len m fs inode div 4096.
        k < 1023 \<and> inode_dblock m (inode_addr fs inode) (of_nat k) < fs_num_blocks m fs))"

text \<open>\<^term>\<open>n\<close> bytes at \<^term>\<open>buf\<close> that lie outside the image.\<close>

definition clear_of_image :: "memory \<Rightarrow> u32 \<Rightarrow> u32 \<Rightarrow> nat \<Rightarrow> bool" where
  "clear_of_image m fs buf n =
     (n \<le> 2 ^ 32 \<and> (\<forall>i < n. image_size m fs \<le> unat (buf + of_nat i - fs)))"

text \<open>
  The position of the file from which byte \<^term>\<open>i\<close> of a read at \<^term>\<open>offset\<close> is taken. It is
  \<^term>\<open>offset + i\<close> until the end of the first block; from there on the loop restarts the block
  at the running index, which is right for an aligned offset only.
\<close>

definition source_pos :: "nat \<Rightarrow> nat \<Rightarrow> nat" where
  "source_pos offset i =
     (if offset mod 4096 = 0 then offset + i
      else if offset mod 4096 + i < 4096 then offset + i
      else 4096 * (offset div 4096) + 4096 + i)"

definition copied :: "u32 \<Rightarrow> (nat \<Rightarrow> u8) \<Rightarrow> nat \<Rightarrow> memory \<Rightarrow> memory" where
  "copied buf src n m = (\<lambda>a. if unat (a - buf) < n then src (unat (a - buf)) else m a)"

section \<open>The copy loop\<close>

lemma copied_0 [simp]: "copied buf src 0 m = m"
  by (simp add: copied_def)

lemma word_offset_iff: "i < 2 ^ 32 \<Longrightarrow> unat ((a :: u32) - b) = i \<longleftrightarrow> a = b + of_nat i"
proof
  assume "unat (a - b) = i"
  then have "a - b = of_nat i" by auto
  then show "a = b + of_nat i" by (simp add: diff_eq_eq)
next
  assume "i < 2 ^ 32" "a = b + of_nat i"
  then show "unat (a - b) = i" by (simp add: unat_of_nat)
qed

lemma copied_Suc:
  assumes "i < 2 ^ 32"
  shows "(copied buf src i m)(buf + of_nat i := src i) = copied buf src (Suc i) m"
proof
  fix a :: u32
  show "((copied buf src i m)(buf + of_nat i := src i)) a = copied buf src (Suc i) m a"
    using word_offset_iff [OF assms, of a buf] by (auto simp: copied_def less_Suc_eq)
qed

lemma copied_cong: "(\<And>j. j < n \<Longrightarrow> f j = g j) \<Longrightarrow> copied buf f n m = copied buf g n m"
  by (auto simp: copied_def fun_eq_iff)

lemma image_byte:
  assumes "clear_of_image m fs buf n" and "image_size m fs < 2 ^ 32" and "k < image_size m fs" and "i \<le> n"
  shows "copied buf src i m (fs + of_nat k) = m (fs + of_nat k)"
proof -
  have "\<not> unat (fs + of_nat k - buf) < i"
  proof
    assume j: "unat (fs + of_nat k - buf) < i"
    let ?j = "unat (fs + of_nat k - buf)"
    have "buf + of_nat ?j - fs = of_nat k" by simp
    moreover have "unat (of_nat k :: u32) = k" using assms(2,3) by (simp add: unat_of_nat)
    moreover have "image_size m fs \<le> unat (buf + of_nat ?j - fs)"
      using assms(1,4) j unfolding clear_of_image_def by (meson less_le_trans)
    ultimately show False using assms(3) by simp
  qed
  then show ?thesis by (simp add: copied_def)
qed

lemma image_dword:
  assumes "clear_of_image m fs buf n" and "image_size m fs < 2 ^ 32" and "k + 3 < image_size m fs" and "i \<le> n"
  shows "ld32 (copied buf src i m) (fs + of_nat k) = ld32 m (fs + of_nat k)"
proof -
  have "copied buf src i m (fs + of_nat (k + j)) = m (fs + of_nat (k + j))" if "j < 4" for j
    by (rule image_byte [OF assms(1,2) _ assms(4)]) (use that assms(3) in simp)
  from this [of 0] this [of 1] this [of 2] this [of 3] show ?thesis
    by (simp add: ld32_def add.assoc add.commute add.left_commute)
qed

text \<open>Where the fields the loop reads lie in the image.\<close>

lemma inode_fits: "k \<le> 1022 \<Longrightarrow> i + 1 \<le> (n :: nat) \<Longrightarrow> 4096 * (1 + i) + 4 + 4 * k + 3 < 4096 * (1 + n + b)"
  by simp

lemma block_fits: "r < 4096 \<Longrightarrow> b < (k :: nat) \<Longrightarrow> 4096 * (1 + n + b) + r < 4096 * (1 + n + k)"
  by simp

lemma image_fields:
  assumes "inode < fs_num_inodes m fs" and "k < 1023" and "b < fs_num_blocks m fs" and "r < 4096"
  shows "inode_addr fs inode + 4 + 4 * of_nat k = fs + of_nat (4096 * (1 + unat inode) + 4 + 4 * k)"
    and "4096 * (1 + unat inode) + 4 + 4 * k + 3 < image_size m fs"
    and "block_addr m fs b + of_nat r = fs + of_nat (4096 * (1 + unat (fs_num_inodes m fs) + unat b) + r)"
    and "4096 * (1 + unat (fs_num_inodes m fs) + unat b) + r < image_size m fs"
    and "8 + 3 < image_size m fs"
proof -
  have i: "unat inode < unat (fs_num_inodes m fs)" "unat b < unat (fs_num_blocks m fs)"
    using assms(1,3) by (simp_all add: word_less_nat_alt)
  show "inode_addr fs inode + 4 + 4 * of_nat k = fs + of_nat (4096 * (1 + unat inode) + 4 + 4 * k)"
    by (simp add: inode_addr_def algebra_simps)
  show "block_addr m fs b + of_nat r = fs + of_nat (4096 * (1 + unat (fs_num_inodes m fs) + unat b) + r)"
    by (simp add: block_addr_def algebra_simps)
  show "4096 * (1 + unat inode) + 4 + 4 * k + 3 < image_size m fs"
  proof -
    have "k \<le> 1022" "unat inode + 1 \<le> unat (fs_num_inodes m fs)" using assms(2) i by simp_all
    then show ?thesis unfolding image_size_def by (intro inode_fits)
  qed
  show "4096 * (1 + unat (fs_num_inodes m fs) + unat b) + r < image_size m fs"
    using i assms(4) unfolding image_size_def by (intro block_fits)
  show "8 + 3 < image_size m fs"
    by (simp add: image_size_def)
qed

lemma mod_4096_word: "(of_nat x :: u32) mod 4096 = of_nat (x mod 4096)"
proof -
  have "unat ((of_nat x :: u32) mod 4096) = x mod 4096"
    by (simp add: unat_mod unat_of_nat take_bit_eq_mod mod_mod_cancel)
  moreover have "unat (of_nat (x mod 4096) :: u32) = x mod 4096"
    by (simp add: unat_of_nat take_bit_eq_mod)
  ultimately show ?thesis by (simp only: word_unat_eq_iff)
qed

text \<open>The loop's \<^verbatim>\<open>offset\<close> before byte \<^term>\<open>i\<close>.\<close>

definition loop_offset :: "nat \<Rightarrow> nat \<Rightarrow> nat" where
  "loop_offset offset i = (if offset mod 4096 + i < 4096 then offset mod 4096 else 0)"

lemma source_pos_block: "\<exists>c. source_pos offset i = 4096 * c + (i + loop_offset offset i)"
proof -
  have "4096 * (offset div 4096) + offset mod 4096 = offset" by simp
  then consider "offset mod 4096 = 0" "offset = 4096 * (offset div 4096)"
    | "offset mod 4096 \<noteq> 0" "offset mod 4096 + i < 4096"
    | "offset mod 4096 \<noteq> 0" "4096 \<le> offset mod 4096 + i" by linarith
  then show ?thesis
  proof cases
    case 1
    then have "source_pos offset i = 4096 * (offset div 4096) + (i + loop_offset offset i)"
      by (simp add: source_pos_def loop_offset_def)
    then show ?thesis ..
  next
    case 2
    then have "source_pos offset i = 4096 * (offset div 4096) + (i + loop_offset offset i)"
      by (simp add: source_pos_def loop_offset_def)
    then show ?thesis ..
  next
    case 3
    then have "source_pos offset i = 4096 * (offset div 4096 + 1) + (i + loop_offset offset i)"
      by (simp add: source_pos_def loop_offset_def)
    then show ?thesis ..
  qed
qed

lemma source_pos_mod: "(i + loop_offset offset i) mod 4096 = source_pos offset i mod 4096"
  using source_pos_block [of offset i] by auto

lemma source_pos_crossing:
  "(i + 1 + loop_offset offset i) mod 4096 = 0 \<longleftrightarrow> (source_pos offset i + 1) mod 4096 = 0"
proof -
  obtain c where "source_pos offset i = 4096 * c + (i + loop_offset offset i)"
    using source_pos_block by blast
  then have "source_pos offset i + 1 = 4096 * c + (i + 1 + loop_offset offset i)" by simp
  then show ?thesis by simp
qed

text \<open>The next byte: at the end of a block the loop goes to the start of the next one.\<close>

lemma div_4096_Suc:
  fixes p :: nat
  shows "(p + 1) mod 4096 = 0 \<Longrightarrow> (p + 1) div 4096 = p div 4096 + 1"
    and "(p + 1) mod 4096 \<noteq> 0 \<Longrightarrow> (p + 1) div 4096 = p div 4096"
  by (simp_all add: div_Suc)

lemma source_pos_next:
  "(source_pos offset i + 1) mod 4096 \<noteq> 0 \<Longrightarrow>
     loop_offset offset (Suc i) = loop_offset offset i \<and>
     source_pos offset (Suc i) = source_pos offset i + 1"
  "(source_pos offset i + 1) mod 4096 = 0 \<Longrightarrow>
     loop_offset offset (Suc i) = 0 \<and> source_pos offset (Suc i) div 4096 = source_pos offset i div 4096 + 1"
proof -
  obtain q w where qw: "offset = 4096 * q + w" "w < 4096"
    by (metis mod_less_divisor mult_div_mod_eq zero_less_numeral)
  have m: "offset mod 4096 = w" "offset div 4096 = q" using qw by simp_all
  have block_end: "w + i + 1 = 4096 \<longleftrightarrow> (offset + i + 1) mod 4096 = 0" if "w + i < 4096"
  proof -
    have "offset + i + 1 = 4096 * q + (w + i + 1)" using qw(1) by simp
    then have "(offset + i + 1) mod 4096 = (w + i + 1) mod 4096" by (simp only: mod_mult_self4)
    then show ?thesis using that by (cases "w + i + 1 = 4096") auto
  qed
  note defs = source_pos_def loop_offset_def m
  show "loop_offset offset (Suc i) = loop_offset offset i \<and> source_pos offset (Suc i) = source_pos offset i + 1"
    if "(source_pos offset i + 1) mod 4096 \<noteq> 0"
    using that block_end by (cases "w = 0"; cases "w + i < 4096") (auto simp: defs)
  assume z: "(source_pos offset i + 1) mod 4096 = 0"
  have off: "loop_offset offset (Suc i) = 0"
    using z block_end by (cases "w = 0"; cases "w + i < 4096") (auto simp: defs)
  show "loop_offset offset (Suc i) = 0 \<and> source_pos offset (Suc i) div 4096 = source_pos offset i div 4096 + 1"
  proof (cases "w \<noteq> 0 \<and> w + i < 4096")
    case True
    then have e: "w + i + 1 = 4096" using z block_end by (simp add: defs)
    then have "source_pos offset (Suc i) = 4096 * (q + 1) + Suc i" "source_pos offset i = 4096 * q + (w + i)"
      using True qw(1) by (auto simp: defs)
    then show ?thesis using off True e by simp
  next
    case False
    then have "source_pos offset (Suc i) = source_pos offset i + 1" by (auto simp: defs)
    then show ?thesis using off div_4096_Suc(1) [OF z] by simp
  qed
qed

lemma unat_of_nat_u32: "a < 4294967296 \<Longrightarrow> unat (of_nat a :: u32) = a"
  by (simp add: unat_of_nat)

lemma sint_of_nat_u32: "k < 2147483648 \<Longrightarrow> sint (of_nat k :: u32) = int k"
  using wrap32_id [of "int k"] by (simp add: wrap32_def)

lemma of_nat_u32_inj: "a < 4294967296 \<Longrightarrow> b < 4294967296 \<Longrightarrow> (of_nat a :: u32) = of_nat b \<longleftrightarrow> a = b"
  by (metis unat_of_nat_u32)

lemma of_nat_u32_less:
  "a < 4294967296 \<Longrightarrow> b < 4294967296 \<Longrightarrow> (of_nat a :: u32) < of_nat b \<longleftrightarrow> a < b"
  by (simp add: word_less_nat_alt unat_of_nat_u32)

text \<open>The loop before byte \<^term>\<open>i\<close>, when the bytes before it have been copied.\<close>

definition loop_at :: "memory \<Rightarrow> u32 \<Rightarrow> u32 \<Rightarrow> u32 \<Rightarrow> u32 \<Rightarrow> nat \<Rightarrow> nat \<Rightarrow> int \<times> memory" where
  "loop_at m fs inode buf len offset i =
     (let p = source_pos offset i div 4096; node = inode_addr fs inode;
          src = (\<lambda>j. file_byte m fs inode (source_pos offset j))
      in read_loop fs node (block_addr m fs 0) (of_nat (file_len m fs inode div 4096 + 1)) buf len
           (of_nat i) (of_nat (loop_offset offset i)) (of_nat p)
           (block_addr m fs (inode_dblock m node (of_nat p))) (copied buf src i m))"

lemma loop_at_step:
  assumes ok: "image_ok m fs" "inode < fs_num_inodes m fs" and clear: "clear_of_image m fs buf n"
    and i: "i < unat len" "i < n" and room: "source_pos offset i < file_room m fs inode"
  shows "loop_at m fs inode buf len offset i =
    (if source_pos offset i + 1 = file_room m fs inode
     then (sint (of_nat i :: u32), copied buf (\<lambda>j. file_byte m fs inode (source_pos offset j)) (Suc i) m)
     else loop_at m fs inode buf len offset (Suc i))"
proof -
  let ?pos = "source_pos offset i" and ?node = "inode_addr fs inode"
  let ?src = "\<lambda>j. file_byte m fs inode (source_pos offset j)"
  let ?p = "?pos div 4096" and ?BL = "file_len m fs inode div 4096 + 1"
  have size: "image_size m fs < 2 ^ 32" using ok by (simp add: image_ok_def)
  have p: "?p < ?BL" using room by (simp add: file_room_def less_mult_imp_div_less mult.commute)
  have blk: "k < 1023" "inode_dblock m ?node (of_nat k) < fs_num_blocks m fs" if "k < ?BL" for k
    using ok that by (auto simp: image_ok_def)
  have BL: "?BL \<le> 1023" using blk(1) [of "?BL - 1"] by simp
  have i32: "i < 2 ^ 32" using i(2) clear by (simp add: clear_of_image_def)
  define c where "c = copied buf ?src i m"
  define c' where "c' = copied buf ?src (Suc i) m"
  have idx: "(of_nat i + of_nat (loop_offset offset i) :: u32) mod 4096 = of_nat (?pos mod 4096)"
    using mod_4096_word [of "i + loop_offset offset i"] by (simp add: source_pos_mod)
  have cross: "(of_nat i + 1 + of_nat (loop_offset offset i) :: u32) mod 4096 = 0 \<longleftrightarrow> (?pos + 1) mod 4096 = 0"
  proof -
    have w: "(of_nat i + 1 + of_nat (loop_offset offset i) :: u32) mod 4096 =
        of_nat ((i + 1 + loop_offset offset i) mod 4096)"
      using mod_4096_word [of "i + 1 + loop_offset offset i"] by (simp add: ac_simps)
    have "(of_nat (k mod 4096) :: u32) = 0 \<longleftrightarrow> k mod 4096 = 0" for k
      using of_nat_u32_inj [of "k mod 4096" 0] by (simp add: less_trans [OF mod_less_divisor])
    then show ?thesis unfolding w source_pos_crossing [symmetric] .
  qed
  have byte: "c (block_addr m fs (inode_dblock m ?node (of_nat ?p)) + of_nat (?pos mod 4096)) = ?src i"
  proof -
    have r: "?pos mod 4096 < 4096" by simp
    note f = image_fields(3,4) [OF ok(2) blk(1) [OF p] blk(2) [OF p] r]
    show ?thesis
      unfolding c_def f(1) image_byte [OF clear size f(2) less_imp_le [OF i(2)]]
      by (simp only: file_byte_def f(1))
  qed
  have upd: "c(buf + of_nat i := ?src i) = c'"
    unfolding c_def c'_def by (rule copied_Suc [OF i32])
  have nb: "fs_num_blocks c' fs = fs_num_blocks m fs"
    using image_dword [OF clear size image_fields(5) [OF ok(2) blk(1) [OF p] blk(2) [OF p], of 0], of "Suc i" ?src] i(2)
    by (simp add: fs_num_blocks_def c'_def)
  have nd: "inode_dblock c' ?node (of_nat k) = inode_dblock m ?node (of_nat k)" if "k < ?BL" for k
  proof -
    have r: "(0 :: nat) < 4096" by simp
    note f = image_fields(1,2) [OF ok(2) blk(1) [OF that] blk(2) [OF that] r]
    show ?thesis
      unfolding inode_dblock_def f(1) c'_def
      by (rule image_dword [OF clear size f(2)]) (use i(2) in simp)
  qed
  have lt: "(of_nat i :: u32) < len" using i(1) i32 by (simp add: word_less_nat_alt unat_of_nat)
  show ?thesis
  proof (cases "(?pos + 1) mod 4096 = 0")
    case False
    then have "?pos + 1 \<noteq> file_room m fs inode" by (auto simp: file_room_def)
    moreover note source_pos_next(1) [OF False] div_4096_Suc(2) [OF False]
    ultimately show ?thesis
      using lt idx cross False byte upd
      by (simp add: loop_at_def Let_def read_loop.simps [of fs ?node] DATABLOCK_SIZE_def
          c_def [symmetric] c'_def [symmetric] add.commute)
  next
    case True
    then have pe: "?pos + 1 = 4096 * (?p + 1)"
      using mult_div_mod_eq [of 4096 "?pos + 1"] div_4096_Suc(1) [OF True] by simp
    have fin: "?pos + 1 = file_room m fs inode \<longleftrightarrow> ?p + 1 = ?BL"
      unfolding file_room_def pe mult_cancel1 by simp
    have pw: "(of_nat ?p + 1 :: u32) = of_nat (?p + 1)" by simp
    have eq: "(of_nat ?p + 1 :: u32) = of_nat ?BL \<longleftrightarrow> ?p + 1 = ?BL"
      unfolding pw using p BL by (intro of_nat_u32_inj) linarith+
    have gt: "(of_nat ?BL :: u32) < of_nat ?p + 1 \<longleftrightarrow> False"
      unfolding pw by (subst of_nat_u32_less) (use p BL in auto)
    have step: "loop_at m fs inode buf len offset i =
      (if of_nat ?p + 1 = (of_nat ?BL :: u32) then (sint (of_nat i :: u32), c')
       else if of_nat ?BL < (of_nat ?p + 1 :: u32) then (- 1, c')
       else if fs_num_blocks c' fs \<le> inode_dblock c' ?node (of_nat ?p + 1) then (- 1, c')
       else read_loop fs ?node (block_addr m fs 0) (of_nat ?BL) buf len (of_nat i + 1) 0 (of_nat ?p + 1)
         (block_addr m fs 0 + inode_dblock c' ?node (of_nat ?p + 1) * 4096) c')"
      unfolding loop_at_def Let_def c_def [symmetric]
      by (subst read_loop.simps) (simp only: lt cross True idx byte upd DATABLOCK_SIZE_def Let_def if_True simp_thms)
    show ?thesis
    proof (cases "?p + 1 = ?BL")
      case True
      then show ?thesis unfolding step eq fin c'_def by (simp only: simp_thms if_True)
    next
      case False
      then have lt: "?p + 1 < ?BL" using p by linarith
      have "block_addr m fs 0 + inode_dblock m ?node (of_nat (?p + 1)) * 4096 =
          block_addr m fs (inode_dblock m ?node (of_nat (?p + 1)))"
        by (simp add: block_addr_def)
      moreover have "\<not> fs_num_blocks m fs \<le> inode_dblock m ?node (of_nat (?p + 1))"
        using blk(2) [OF lt] by (simp only: not_le)
      moreover have iw: "of_nat i + 1 = (of_nat (Suc i) :: u32)" by simp
      moreover note source_pos_next(2) [OF \<open>(?pos + 1) mod 4096 = 0\<close>]
      ultimately show ?thesis
        unfolding step eq fin gt nb using False
        by (simp only: if_False pw nd [OF lt] loop_at_def Let_def semiring_1_class.of_nat_0 iw)
          (simp only: c'_def)
    qed
  qed
qed

text \<open>
  A read of \<^term>\<open>n\<close> bytes whose last byte comes before the end of the blocks of the file copies
  all of them; one that meets the end stops there and returns one less than it copied.
\<close>

definition reads_inside :: "memory \<Rightarrow> u32 \<Rightarrow> u32 \<Rightarrow> nat \<Rightarrow> nat \<Rightarrow> bool" where
  "reads_inside m fs inode offset n =
     (offset < file_room m fs inode \<and> (\<forall>i < n. source_pos offset i + 1 < file_room m fs inode))"

lemma loop_at_run:
  assumes ok: "image_ok m fs" "inode < fs_num_inodes m fs" and clear: "clear_of_image m fs buf n"
    and k: "k \<le> n" "k \<le> unat len" and inside: "reads_inside m fs inode offset k"
  shows "loop_at m fs inode buf len offset 0 = loop_at m fs inode buf len offset k"
  using k inside
proof (induction k)
  case 0
  then show ?case by simp
next
  case (Suc k)
  then have "loop_at m fs inode buf len offset k = loop_at m fs inode buf len offset (Suc k)"
    using loop_at_step [OF ok clear, of k len offset] by (auto simp: reads_inside_def)
  then show ?case using Suc by (simp add: reads_inside_def)
qed

lemma loop_at_done:
  "loop_at m fs inode buf len offset (unat len) =
     (sint len, copied buf (\<lambda>j. file_byte m fs inode (source_pos offset j)) (unat len) m)"
  by (simp add: loop_at_def Let_def read_loop.simps [of fs])

lemma read_data_loop:
  assumes ok: "image_ok (mem s) (file_sys s)" "inode < fs_num_inodes (mem s) (file_sys s)"
    and off: "unat offset < file_room (mem s) (file_sys s) inode"
  shows "read_data inode offset buf len s =
    (let (r, m) = loop_at (mem s) (file_sys s) inode buf len (unat offset) 0 in (r, s\<lparr>mem := m\<rparr>))"
proof -
  let ?m = "mem s" and ?fs = "file_sys s" and ?p = "unat offset div 4096"
  let ?BL = "file_len ?m ?fs inode div 4096 + 1"
  have p: "?p < ?BL" using off by (simp add: file_room_def less_mult_imp_div_less mult.commute)
  have blk: "inode_dblock ?m (inode_addr ?fs inode) (of_nat k) < fs_num_blocks ?m ?fs" if "k < ?BL" for k
    using ok that by (auto simp: image_ok_def)
  have "?p = unat (offset div 4096)" by (simp add: unat_div)
  then have pw: "offset div 4096 = of_nat ?p" by (simp only:) simp
  have ow: "offset mod 4096 = of_nat (unat offset mod 4096)"
    using mod_4096_word [of "unat offset"] by simp
  have BL: "inode_len ?m (inode_addr ?fs inode) div 4096 + 1 = of_nat ?BL"
  proof -
    have "file_len ?m ?fs inode div 4096 = unat (inode_len ?m (inode_addr ?fs inode) div 4096)"
      by (simp add: unat_div file_len_def)
    then show ?thesis by (simp only:) simp
  qed
  have "?BL \<le> 1023" using ok by (force simp: image_ok_def)
  then have lt: "(of_nat ?p :: u32) < of_nat ?BL"
    using of_nat_u32_less [of ?p ?BL] p by linarith
  have node: "get_inode inode s = inode_addr ?fs inode"
    using leD [of "fs_num_inodes ?m ?fs" inode] ok(2) by (auto simp: get_inode_def inode_addr_def FILESYS_SIZE_def)
  have "0 < fs_num_inodes ?m ?fs" using ok(2) by (rule le_less_trans [OF word_zero_le])
  then have blocks: "get_datablocks s = block_addr ?m ?fs 0"
    by (auto simp: get_datablocks_def get_inode_def block_addr_def FILESYS_SIZE_def)
  have sp: "source_pos (unat offset) 0 div 4096 = ?p" by (simp add: source_pos_def)
  have lo: "loop_offset (unat offset) 0 = unat offset mod 4096" by (simp add: loop_offset_def)
  have dblock: "block_addr ?m ?fs 0 + b * 4096 = block_addr ?m ?fs b" for b
    by (simp add: block_addr_def)
  have guards: "(fs_num_inodes ?m ?fs \<le> inode) = False" "(of_nat ?BL \<le> (of_nat ?p :: u32)) = False"
    "(fs_num_blocks ?m ?fs \<le> inode_dblock ?m (inode_addr ?fs inode) (of_nat ?p)) = False"
    using ok(2) lt blk [OF p] by (simp_all only: not_le simp_thms leD)
  show ?thesis
    unfolding read_data_def loop_at_def Let_def node blocks DATABLOCK_SIZE_def BL pw ow sp lo guards dblock
    by (simp only: if_False copied_0 semiring_1_class.of_nat_0)
qed

lemma read_data_inside:
  assumes ok: "image_ok (mem s) (file_sys s)" "inode < fs_num_inodes (mem s) (file_sys s)"
    and clear: "clear_of_image (mem s) (file_sys s) buf (unat len)"
    and inside: "reads_inside (mem s) (file_sys s) inode (unat offset) (unat len)"
  shows "read_data inode offset buf len s = (sint len, s\<lparr>mem := copied buf
    (\<lambda>j. file_byte (mem s) (file_sys s) inode (source_pos (unat offset) j)) (unat len) (mem s)\<rparr>)"
proof -
  have "unat offset < file_room (mem s) (file_sys s) inode" using inside by (simp add: reads_inside_def)
  note read_data_loop [OF ok this]
  moreover note loop_at_run [OF ok clear order_refl order_refl inside]
  ultimately show ?thesis by (simp add: loop_at_done Let_def)
qed

lemma read_data_to_end:
  assumes ok: "image_ok (mem s) (file_sys s)" "inode < fs_num_inodes (mem s) (file_sys s)"
    and clear: "clear_of_image (mem s) (file_sys s) buf (file_room (mem s) (file_sys s) inode)"
    and len: "file_room (mem s) (file_sys s) inode \<le> unat len"
  shows "read_data inode 0 buf len s =
    (int (file_room (mem s) (file_sys s) inode) - 1, s\<lparr>mem := copied buf
      (file_byte (mem s) (file_sys s) inode) (file_room (mem s) (file_sys s) inode) (mem s)\<rparr>)"
proof -
  let ?room = "file_room (mem s) (file_sys s) inode"
  have pos: "source_pos 0 i = i" for i by (simp add: source_pos_def)
  have room: "0 < ?room" "unat (0 :: u32) < ?room" by (simp_all add: file_room_def)
  have "?room \<le> 4096 * 1023"
  proof -
    have "file_len (mem s) (file_sys s) inode div 4096 < 1023" using ok by (auto simp: image_ok_def)
    then show ?thesis by (simp add: file_room_def)
  qed
  then have si: "sint (of_nat (?room - 1) :: u32) = int ?room - 1"
    using room(1) by (subst sint_of_nat_u32) (simp_all add: of_nat_diff)
  have inside: "reads_inside (mem s) (file_sys s) inode 0 (?room - 1)"
    using room by (auto simp: reads_inside_def pos)
  have "loop_at (mem s) (file_sys s) inode buf len 0 0 =
      loop_at (mem s) (file_sys s) inode buf len 0 (?room - 1)"
    by (rule loop_at_run [OF ok clear _ _ inside]) (use len in auto)
  also have "\<dots> = (int ?room - 1, copied buf (file_byte (mem s) (file_sys s) inode) ?room (mem s))"
    using loop_at_step [OF ok clear, of "?room - 1" len 0] room len si by (simp add: pos)
  finally show ?thesis using read_data_loop [OF ok room(2)] by simp
qed

section \<open>Reads outside the image keep it\<close>

definition same_image :: "memory \<Rightarrow> memory \<Rightarrow> u32 \<Rightarrow> bool" where
  "same_image m m' fs = (\<forall>k < image_size m fs. m' (fs + of_nat k) = m (fs + of_nat k))"

lemma same_image_dword:
  assumes "same_image m m' fs" and "k + 3 < image_size m fs"
  shows "ld32 m' (fs + of_nat k) = ld32 m (fs + of_nat k)"
proof -
  have "m' (fs + of_nat (k + j)) = m (fs + of_nat (k + j))" if "j < 4" for j
    using assms that by (simp add: same_image_def del: of_nat_add)
  from this [of 0] this [of 1] this [of 2] this [of 3] show ?thesis
    by (simp add: ld32_def add.assoc add.commute add.left_commute)
qed

lemma same_image_header:
  assumes "same_image m m' fs"
  shows "fs_num_dentries m' fs = fs_num_dentries m fs" and "fs_num_inodes m' fs = fs_num_inodes m fs"
    and "fs_num_blocks m' fs = fs_num_blocks m fs" and "image_size m' fs = image_size m fs"
proof -
  have "11 < image_size m fs" by (simp add: image_size_def)
  then show h: "fs_num_dentries m' fs = fs_num_dentries m fs" "fs_num_inodes m' fs = fs_num_inodes m fs"
    "fs_num_blocks m' fs = fs_num_blocks m fs"
    using same_image_dword [OF assms, of 0] same_image_dword [OF assms, of 4] same_image_dword [OF assms, of 8]
    by (simp_all add: fs_num_dentries_def fs_num_inodes_def fs_num_blocks_def)
  show "image_size m' fs = image_size m fs" by (simp add: image_size_def h)
qed

lemma same_image_file:
  assumes same: "same_image m m' fs" and ok: "image_ok m fs" "inode < fs_num_inodes m fs"
  shows "file_len m' fs inode = file_len m fs inode" and "file_room m' fs inode = file_room m fs inode"
    and "k \<le> file_len m fs inode div 4096 \<Longrightarrow>
      inode_dblock m' (inode_addr fs inode) (of_nat k) = inode_dblock m (inode_addr fs inode) (of_nat k)"
    and "j < file_room m fs inode \<Longrightarrow> file_byte m' fs inode j = file_byte m fs inode j"
proof -
  have i: "unat inode < unat (fs_num_inodes m fs)" using ok(2) by (simp add: word_less_nat_alt)
  have len: "inode_addr fs inode = fs + of_nat (4096 * (1 + unat inode))"
    by (simp add: inode_addr_def algebra_simps)
  have "4096 * (1 + unat inode) + 3 < image_size m fs"
    using i by (simp add: image_size_def)
  then show fl: "file_len m' fs inode = file_len m fs inode"
    unfolding file_len_def inode_len_def len by (simp only: same_image_dword [OF same])
  then show "file_room m' fs inode = file_room m fs inode" by (simp add: file_room_def)
  have blk: "k < 1023" "inode_dblock m (inode_addr fs inode) (of_nat k) < fs_num_blocks m fs"
    if "k \<le> file_len m fs inode div 4096" for k
    using ok that by (auto simp: image_ok_def)
  show nd: "inode_dblock m' (inode_addr fs inode) (of_nat k) = inode_dblock m (inode_addr fs inode) (of_nat k)"
    if k: "k \<le> file_len m fs inode div 4096" for k
  proof -
    have r: "(0 :: nat) < 4096" by simp
    note f = image_fields(1,2) [OF ok(2) blk(1) [OF k] blk(2) [OF k] r]
    show ?thesis unfolding inode_dblock_def f(1) by (rule same_image_dword [OF same f(2)])
  qed
  show "file_byte m' fs inode j = file_byte m fs inode j" if j: "j < file_room m fs inode"
  proof -
    have k: "j div 4096 \<le> file_len m fs inode div 4096"
      using j by (simp add: file_room_def less_mult_imp_div_less mult.commute)
    have r: "j mod 4096 < 4096" by simp
    note f = image_fields(3,4) [OF ok(2) blk(1) [OF k] blk(2) [OF k] r]
    have "block_addr m' fs b = block_addr m fs b" for b
      by (simp add: block_addr_def same_image_header(2) [OF same])
    then show ?thesis
      using same f(2) unfolding file_byte_def nd [OF k] by (simp only: f(1)) (simp only: same_image_def)
  qed
qed

lemma same_image_ok:
  assumes "same_image m m' fs" and "image_ok m fs"
  shows "image_ok m' fs"
  using assms same_image_file [OF assms] same_image_header [OF assms(1)]
  by (auto simp: image_ok_def)

lemma same_image_copied:
  assumes "clear_of_image m fs buf n" and "image_ok m fs"
  shows "same_image m (copied buf src n m) fs"
  using image_byte [OF assms(1)] assms(2) by (simp add: same_image_def image_ok_def)

lemma copied_at:
  assumes "n \<le> 2 ^ 32" and "k < n"
  shows "copied buf src n m (buf + of_nat k) = src k"
  using word_offset_iff [of k "buf + of_nat k" buf] assms by (simp add: copied_def)

lemma copied_dword:
  assumes "n \<le> 2 ^ 32" and "k + 3 < n"
  shows "ld32 (copied buf src n m) (buf + of_nat k) = ld32 (\<lambda>a. src (unat a)) (of_nat k)"
proof -
  have "copied buf src n m (buf + of_nat (k + j)) = src (unat (of_nat (k + j) :: u32))" if "j < 4" for j
    using copied_at [OF assms(1), of "k + j" buf src m] assms that by (simp add: unat_of_nat_u32 del: of_nat_add)
  from this [of 0] this [of 1] this [of 2] this [of 3] show ?thesis
    by (simp add: ld32_def add.assoc add.commute add.left_commute)
qed

section \<open>Properties of the file system\<close>

text \<open>An image with one file, \<^verbatim>\<open>ls\<close>, of 5000 bytes: an ELF header in block 0, and in block 1
  at each position the position itself modulo 256.\<close>

definition fs_demo_mem :: memory where
  "fs_demo_mem a = (let k = unat (a - 0x10000) in
     if k = 0 \<or> k = 4 then 1 else if k = 8 then 2
     else if k = 64 then chr CHR ''l'' else if k = 65 then chr CHR ''s'' else if k = 96 then 2
     else if k = 4096 then 0x88 else if k = 4097 then 0x13 else if k = 4104 then 1
     else if k = 8192 then 0x7F else if k = 8193 then 0x45 else if k = 8194 then 0x4C
     else if k = 8195 then 0x46 else if k = 8217 then 0x80 else if k = 8218 then 4
     else if k = 8219 then 8 else if 12288 \<le> k \<and> k < 16384 then of_nat k else 0)"

definition fs_demo :: filesys where
  "fs_demo = \<lparr>mem = fs_demo_mem, eflags = 0, io_trace = [], master_mask = 0, slave_mask = 0,
     interrupt_received = 0, screen_x = 0, screen_y = 0, video_mem = replicate 4000 0,
     pd = 0, pt = 0, cr0 = 0, cr3 = 0, cr4 = 0, file_sys = 0x10000\<rparr>"

lemma fs_demo_sel [simp]: "mem fs_demo = fs_demo_mem" "file_sys fs_demo = 0x10000"
  by (simp_all add: fs_demo_def)

lemma fs_demo_header:
  "fs_num_dentries fs_demo_mem 0x10000 = 1" "fs_num_inodes fs_demo_mem 0x10000 = 1"
  "fs_num_blocks fs_demo_mem 0x10000 = 2" "file_len fs_demo_mem 0x10000 0 = 5000"
  "inode_dblock fs_demo_mem (inode_addr 0x10000 0) 0 = 0"
  "inode_dblock fs_demo_mem (inode_addr 0x10000 0) 1 = 1"
  by (simp_all add: fs_num_dentries_def fs_num_inodes_def fs_num_blocks_def file_len_def inode_len_def
      inode_addr_def inode_dblock_def ld32_def fs_demo_mem_def Let_def)

lemma fs_demo_image: "image_size fs_demo_mem 0x10000 = 16384" "file_room fs_demo_mem 0x10000 0 = 8192"
    "image_ok fs_demo_mem 0x10000"
proof -
  show "image_size fs_demo_mem 0x10000 = 16384" "file_room fs_demo_mem 0x10000 0 = 8192"
    by (simp_all add: image_size_def file_room_def fs_demo_header)
  then show "image_ok fs_demo_mem 0x10000"
    by (auto simp: image_ok_def fs_demo_header le_Suc_eq numeral_eq_Suc [of Num.One] dest!: le_neq_implies_less)
qed

lemma fs_demo_clear:
  assumes "unat buf < 65536" and "unat buf + n \<le> 65536"
  shows "clear_of_image fs_demo_mem 0x10000 buf n"
proof -
  have "16384 \<le> unat (buf + of_nat i - 0x10000)" if "i < n" for i
  proof -
    have "buf + of_nat i = of_nat (unat buf + i)" by simp
    then have u: "unat (buf + of_nat i) = unat buf + i"
      using assms that by (simp only: unat_of_nat_u32)
    then have "unat (buf + of_nat i - 0x10000) = unat (buf + of_nat i) + 4294901760"
      using assms that by (simp add: unat_sub_if')
    then show ?thesis by simp
  qed
  then show ?thesis using assms by (simp add: clear_of_image_def fs_demo_image)
qed

lemma read_data_inside_block:
  assumes "image_ok (mem s) (file_sys s)" and "inode < fs_num_inodes (mem s) (file_sys s)"
    and "clear_of_image (mem s) (file_sys s) buf (unat len)"
    and "unat offset mod 4096 = 0 \<or> unat offset mod 4096 + unat len \<le> 4096"
    and "unat offset + unat len < file_room (mem s) (file_sys s) inode"
  shows "read_data inode offset buf len s = (sint len, s\<lparr>mem := copied buf
    (\<lambda>j. file_byte (mem s) (file_sys s) inode (unat offset + j)) (unat len) (mem s)\<rparr>)"
proof -
  have pos: "source_pos (unat offset) j = unat offset + j" if "j < unat len" for j
    using assms(4) that by (auto simp: source_pos_def)
  have "reads_inside (mem s) (file_sys s) inode (unat offset) (unat len)"
    using assms(5) by (auto simp: reads_inside_def pos)
  moreover have "copied buf (\<lambda>j. file_byte (mem s) (file_sys s) inode (source_pos (unat offset) j)) (unat len) (mem s) =
      copied buf (\<lambda>j. file_byte (mem s) (file_sys s) inode (unat offset + j)) (unat len) (mem s)"
    by (rule copied_cong) (simp add: pos)
  ultimately show ?thesis by (simp add: read_data_inside [OF assms(1-3)])
qed

text \<open>A read that starts at a block boundary or stays inside one block, and ends before the end of
  the blocks of the file, returns the number of bytes asked for, puts exactly the bytes of the file
  from the offset on into the buffer, and changes nothing else.\<close>

theorem read_data_copies_file:
  assumes "image_ok (mem s) (file_sys s)" and "inode < fs_num_inodes (mem s) (file_sys s)"
    and "clear_of_image (mem s) (file_sys s) buf (unat len)"
    and "unat offset mod 4096 = 0 \<or> unat offset mod 4096 + unat len \<le> 4096"
    and "unat offset + unat len < file_room (mem s) (file_sys s) inode"
  shows "read_data inode offset buf len s = (sint len, s\<lparr>mem := copied buf
    (\<lambda>j. file_byte (mem s) (file_sys s) inode (unat offset + j)) (unat len) (mem s)\<rparr>)"
  by (rule read_data_inside_block [OF assms])

theorem read_data_copies_file_witness:
  "snd (read_data 0 4096 0x100 3 fs_demo) = fs_demo\<lparr>mem := copied 0x100 (\<lambda>j. file_byte fs_demo_mem 0x10000 0 (4096 + j)) 3 fs_demo_mem\<rparr> \<and>
   copied 0x100 (\<lambda>j. file_byte fs_demo_mem 0x10000 0 (4096 + j)) 3 fs_demo_mem 0x102 = 2"
proof -
  have h: "image_ok (mem fs_demo) (file_sys fs_demo)" "0 < fs_num_inodes (mem fs_demo) (file_sys fs_demo)"
    "clear_of_image (mem fs_demo) (file_sys fs_demo) 0x100 (unat (3 :: u32))"
    "unat (4096 :: u32) mod 4096 = 0 \<or> unat (4096 :: u32) mod 4096 + unat (3 :: u32) \<le> 4096"
    "unat (4096 :: u32) + unat (3 :: u32) < file_room (mem fs_demo) (file_sys fs_demo) 0"
    using fs_demo_image(2,3) fs_demo_header(2) by (auto intro!: fs_demo_clear)
  have "file_byte fs_demo_mem 0x10000 0 4098 = 2"
    by (simp add: file_byte_def fs_demo_header block_addr_def fs_demo_mem_def Let_def)
  then show ?thesis using read_data_copies_file [OF h] by (simp add: copied_def)
qed

text \<open>A read that starts inside a block and runs over its end does not continue with the next byte of
  the file: from the crossing on, byte \<^term>\<open>j\<close> of the buffer is taken from position
  \<^term>\<open>j\<close> counted from the start of the following block, so that bytes of the file are skipped.\<close>

theorem read_data_skips_after_crossing:
  assumes "image_ok (mem s) (file_sys s)" and "inode < fs_num_inodes (mem s) (file_sys s)"
    and "clear_of_image (mem s) (file_sys s) buf (unat len)"
    and "unat offset mod 4096 \<noteq> 0" and "4096 \<le> unat offset mod 4096 + j" and "j < unat len"
    and "4096 * (unat offset div 4096) + 4096 + unat len < file_room (mem s) (file_sys s) inode"
  shows "\<exists>t. read_data inode offset buf len s = (sint len, t) \<and>
    mem t (buf + of_nat j) = file_byte (mem s) (file_sys s) inode (4096 * (unat offset div 4096 + 1) + j)"
proof -
  have pos: "source_pos (unat offset) i + 1 < file_room (mem s) (file_sys s) inode" if "i < unat len" for i
  proof -
    have "unat offset mod 4096 < 4096" by simp
    moreover have "4096 * (unat offset div 4096) + unat offset mod 4096 = unat offset" by simp
    ultimately show ?thesis using assms(7) that unfolding source_pos_def by (auto split: if_splits)
  qed
  have "unat offset < file_room (mem s) (file_sys s) inode"
    using assms(7) mult_div_mod_eq [of 4096 "unat offset"] mod_less_divisor [of 4096 "unat offset"] by linarith
  then have inside: "reads_inside (mem s) (file_sys s) inode (unat offset) (unat len)"
    using pos by (simp add: reads_inside_def)
  have n: "unat len \<le> 2 ^ 32" using assms(3) by (simp add: clear_of_image_def)
  have "source_pos (unat offset) j = 4096 * (unat offset div 4096 + 1) + j"
    using assms(4,5) by (simp add: source_pos_def)
  with read_data_inside [OF assms(1-3) inside] copied_at [OF n assms(6)] show ?thesis by simp
qed

theorem read_data_skips_after_crossing_witness:
  "(\<exists>t. read_data 0 4000 0x100 200 fs_demo = (200, t) \<and> mem t (0x100 + 100) = 100) \<and>
   file_byte fs_demo_mem 0x10000 0 (4000 + 100) = 4"
proof -
  have h: "image_ok (mem fs_demo) (file_sys fs_demo)" "0 < fs_num_inodes (mem fs_demo) (file_sys fs_demo)"
    "clear_of_image (mem fs_demo) (file_sys fs_demo) 0x100 (unat (200 :: u32))"
    "unat (4000 :: u32) mod 4096 \<noteq> 0" "4096 \<le> unat (4000 :: u32) mod 4096 + 100" "100 < unat (200 :: u32)"
    "4096 * (unat (4000 :: u32) div 4096) + 4096 + unat (200 :: u32) < file_room (mem fs_demo) (file_sys fs_demo) 0"
    using fs_demo_image(2,3) fs_demo_header(2) by (auto intro!: fs_demo_clear)
  have "file_byte fs_demo_mem 0x10000 0 4196 = 100" "file_byte fs_demo_mem 0x10000 0 4100 = 4"
    by (simp_all add: file_byte_def fs_demo_header block_addr_def fs_demo_mem_def Let_def)
  then show ?thesis using read_data_skips_after_crossing [OF h] by auto
qed

text \<open>Dword \<^term>\<open>k\<close> of a file.\<close>

definition file_dword :: "memory \<Rightarrow> u32 \<Rightarrow> u32 \<Rightarrow> nat \<Rightarrow> u32" where
  "file_dword m fs inode k = ld32 (\<lambda>a. file_byte m fs inode (unat a)) (of_nat k)"

lemma read_header:
  assumes ok: "image_ok (mem s) (file_sys s)" "inode < fs_num_inodes (mem s) (file_sys s)"
    and clear: "clear_of_image (mem s) (file_sys s) header 4"
  shows "\<exists>m. read_data inode 0 header 4 s = (4, s\<lparr>mem := m\<rparr>) \<and>
    m = copied header (file_byte (mem s) (file_sys s) inode) 4 (mem s) \<and>
    ld32 m header = file_dword (mem s) (file_sys s) inode 0 \<and> same_image (mem s) m (file_sys s)"
proof -
  have room: "4 < file_room (mem s) (file_sys s) inode" by (simp add: file_room_def)
  have u: "unat (4 :: u32) = 4" "unat (0 :: u32) = 0" by simp_all
  have pos: "source_pos 0 j = j" for j by (simp add: source_pos_def)
  have "reads_inside (mem s) (file_sys s) inode 0 4"
    using room by (simp add: reads_inside_def pos)
  from read_data_inside [OF ok, of header 4 0, unfolded u, OF clear this]
  have "read_data inode 0 header 4 s = (4, s\<lparr>mem := copied header (file_byte (mem s) (file_sys s) inode) 4 (mem s)\<rparr>)"
    by (simp add: pos)
  then show ?thesis
    using copied_dword [of 4 0 header] same_image_copied [OF clear ok(1)] by (simp add: file_dword_def)
qed

lemma load_program_run:
  assumes m_def: "m = mem s" and fs_def: "fs = file_sys s"
    and ok: "image_ok m fs" and found: "read_dentry_by_name fname blank_dentry s = Some (0, d)"
    and d: "file_type d = 2" "inode_num d < fs_num_inodes m fs"
    and magic: "file_dword m fs (inode_num d) 0 = ELF_MAGIC"
    and clear: "clear_of_image m fs header 4" "clear_of_image m fs addr (file_room m fs (inode_num d))"
    and addr: "addr \<noteq> 0"
  shows "load_program header fname addr s = Some (sint (file_dword m fs (inode_num d) 24),
    s\<lparr>mem := copied addr (file_byte m fs (inode_num d)) (file_room m fs (inode_num d))
      (copied header (file_byte m fs (inode_num d)) 4 m)\<rparr>)"
proof -
  let ?ino = "inode_num d"
  obtain m1 where m1: "read_data ?ino 0 header 4 s = (4, s\<lparr>mem := m1\<rparr>)"
    "m1 = copied header (file_byte m fs ?ino) 4 m" "ld32 m1 header = file_dword m fs ?ino 0"
    "same_image m m1 fs"
    using read_header [of s ?ino header] ok d(2) clear(1) unfolding m_def fs_def by blast
  let ?s1 = "s\<lparr>mem := m1\<rparr>" and ?room = "file_room m fs ?ino"
  note f = same_image_file [OF m1(4) ok d(2)] and h = same_image_header [OF m1(4)]
  have ok1: "image_ok (mem ?s1) (file_sys ?s1)" "?ino < fs_num_inodes (mem ?s1) (file_sys ?s1)"
    "clear_of_image (mem ?s1) (file_sys ?s1) addr (file_room (mem ?s1) (file_sys ?s1) ?ino)"
    using same_image_ok [OF m1(4) ok] d(2) clear(2) h f by (simp_all add: fs_def [symmetric] clear_of_image_def)
  have room: "?room \<le> 4096 * 1023"
  proof -
    have "file_len m fs ?ino div 4096 < 1023" using ok d(2) by (auto simp: image_ok_def)
    then show ?thesis by (simp add: file_room_def)
  qed
  then have "file_room (mem ?s1) (file_sys ?s1) ?ino \<le> unat (- 1 :: u32)"
    using f(2) by (simp add: fs_def [symmetric] unsigned_minus_1_eq_mask mask_eq_exp_minus_1)
  note r = read_data_to_end [OF ok1 this]
  have c: "copied addr (file_byte m1 fs ?ino) ?room m1 = copied addr (file_byte m fs ?ino) ?room m1"
    by (rule copied_cong) (simp add: f(4))
  have e: "ld32 (copied addr (file_byte m fs ?ino) ?room m1) (addr + 24) = file_dword m fs ?ino 24"
    using copied_dword [of ?room 24 addr "file_byte m fs ?ino" m1] room
    by (simp add: file_dword_def file_room_def)
  show ?thesis
    using found d(1) addr m1 magic r c e f(2)
    by (simp add: load_program_def ELF_MAGIC_SIZE_def fs_def [symmetric])
qed

text \<open>Loading a program that the directory names and whose file starts with the ELF magic copies
  every byte of the file to the load address (and the rest of its last block), changes nothing else
  but the local header array, and returns the dword at position 24 of the file, the entry point.\<close>

theorem load_program_loads_file:
  assumes m_def: "m = mem s" and fs_def: "fs = file_sys s"
    and ok: "image_ok m fs" and found: "read_dentry_by_name fname blank_dentry s = Some (0, d)"
    and d: "file_type d = 2" "inode_num d < fs_num_inodes m fs"
    and magic: "file_dword m fs (inode_num d) 0 = ELF_MAGIC"
    and clear: "clear_of_image m fs header 4" "clear_of_image m fs addr (file_room m fs (inode_num d))"
    and addr: "addr \<noteq> 0"
  shows "load_program header fname addr s = Some (sint (file_dword m fs (inode_num d) 24),
    s\<lparr>mem := copied addr (file_byte m fs (inode_num d)) (file_room m fs (inode_num d))
      (copied header (file_byte m fs (inode_num d)) 4 m)\<rparr>)"
  using assms by (rule load_program_run)

text \<open>What the search of the directory finds.\<close>

definition entry_name :: "memory \<Rightarrow> u32 \<Rightarrow> nat \<Rightarrow> u8 list" where
  "entry_name m fs i = file_name (copy_dentry m fs (of_nat i))"

lemma names_equal_from:
  "FILENAME_LEN \<le> length fname \<Longrightarrow> j \<le> FILENAME_LEN \<Longrightarrow>
   names_equal m a fname j = Some (\<forall>k. j \<le> k \<and> k < FILENAME_LEN \<longrightarrow> m (a + of_nat k) = fname ! k)"
proof (induction m a fname j rule: names_equal.induct)
  case (1 m a fname j)
  show ?case
  proof (cases "j < FILENAME_LEN")
    case False
    then show ?thesis by (auto simp: names_equal.simps)
  next
    case True
    then have c: "rd fname j = Some (fname ! j)" using "1.prems" by (simp add: arr_simps)
    show ?thesis
    proof (cases "m (a + of_nat j) = fname ! j")
      case False
      then show ?thesis using True c by (subst names_equal.simps) auto
    next
      case eq: True
      have split: "(\<forall>k. j \<le> k \<and> k < FILENAME_LEN \<longrightarrow> m (a + of_nat k) = fname ! k) =
          (\<forall>k. Suc j \<le> k \<and> k < FILENAME_LEN \<longrightarrow> m (a + of_nat k) = fname ! k)"
        using eq by (metis Suc_leI Suc_leD le_neq_implies_less)
      show ?thesis
        using "1.IH" [OF True c] "1.prems" True c eq unfolding split by (subst names_equal.simps) auto
    qed
  qed
qed

lemma names_equal_iff:
  assumes "FILENAME_LEN \<le> length fname"
  shows "names_equal m (fs_dentry fs (of_nat i)) fname 0 = Some (entry_name m fs i = take FILENAME_LEN fname)"
  using names_equal_from [OF assms, of 0] assms
  by (auto simp: entry_name_def copy_dentry_def list_eq_iff_nth_eq)

lemma find_dentry_eq:
  assumes "FILENAME_LEN \<le> length fname"
  shows "find_dentry m fs fname i n =
    Some (find (\<lambda>k. entry_name m fs k = take FILENAME_LEN fname) [i..<n])"
proof (induction "n - i" arbitrary: i)
  case 0
  then show ?case by (simp add: find_dentry.simps)
next
  case (Suc d)
  then have "i < n" by simp
  with Suc show ?case
    by (subst find_dentry.simps) (simp add: names_equal_iff [OF assms] upt_conv_Cons)
qed

text \<open>The search for a 32-byte name that does not start with a dot gives the first entry of the
  directory whose 32-byte name is equal, the same as reading that entry by its index, and -1 when
  there is none.\<close>

theorem read_dentry_finds_first:
  assumes "FILENAME_LEN \<le> length fname" and "fname ! 0 \<noteq> chr CHR ''.''"
  shows "read_dentry_by_name fname d s = Some
    (case find (\<lambda>i. entry_name (mem s) (file_sys s) i = take FILENAME_LEN fname)
            [0..<unat (fs_num_dentries (mem s) (file_sys s))] of
       None \<Rightarrow> (- 1, d) | Some i \<Rightarrow> read_dentry_by_index (of_nat i) d s)"
proof -
  let ?n = "unat (fs_num_dentries (mem s) (file_sys s))"
  let ?f = "find (\<lambda>i. entry_name (mem s) (file_sys s) i = take FILENAME_LEN fname) [0..<?n]"
  have "fname \<noteq> []" using assms(1) by (auto simp: FILENAME_LEN_def)
  then have by_name: "read_dentry_by_name fname d s = Some
      (case ?f of None \<Rightarrow> (- 1, d) | Some i \<Rightarrow> (0, copy_dentry (mem s) (file_sys s) (of_nat i)))"
    using assms by (simp add: read_dentry_by_name_def rd_in find_dentry_eq split: option.splits)
  have "read_dentry_by_index (of_nat i) d s = (0, copy_dentry (mem s) (file_sys s) (of_nat i))"
    if "?f = Some i" for i
  proof -
    have "i < ?n" using that by (auto simp: find_Some_iff)
    then have "(of_nat i :: u32) < fs_num_dentries (mem s) (file_sys s)"
      using unsigned_less [of "fs_num_dentries (mem s) (file_sys s)", where 'a = nat]
      by (simp add: word_less_nat_alt unat_of_nat_u32)
    then show ?thesis by (auto simp: read_dentry_by_index_def)
  qed
  then show ?thesis unfolding by_name by (simp split: option.splits)
qed

text \<open>A program that the directory names: an executable file that starts with the magic.\<close>

definition program_file :: "memory \<Rightarrow> u32 \<Rightarrow> u8 list \<Rightarrow> u32 \<Rightarrow> bool" where
  "program_file m fs fname ino = (image_ok m fs \<and> fs_num_dentries m fs \<le> 63 \<and> length fname = 32 \<and>
     fname ! 0 \<noteq> chr CHR ''.'' \<and> ino < fs_num_inodes m fs \<and> file_dword m fs ino 0 = ELF_MAGIC \<and>
     (\<exists>i < unat (fs_num_dentries m fs). entry_name m fs i = fname \<and> (\<forall>j < i. entry_name m fs j \<noteq> fname) \<and>
        file_type (copy_dentry m fs (of_nat i)) = 2 \<and> inode_num (copy_dentry m fs (of_nat i)) = ino))"

lemma program_file_found:
  assumes "program_file (mem s) (file_sys s) fname ino"
  shows "\<exists>d. read_dentry_by_name fname blank_dentry s = Some (0, d) \<and> file_type d = 2 \<and> inode_num d = ino"
proof -
  obtain i where i: "i < unat (fs_num_dentries (mem s) (file_sys s))" "entry_name (mem s) (file_sys s) i = fname"
    "\<forall>j < i. entry_name (mem s) (file_sys s) j \<noteq> fname"
    "file_type (copy_dentry (mem s) (file_sys s) (of_nat i)) = 2"
    "inode_num (copy_dentry (mem s) (file_sys s) (of_nat i)) = ino"
    using assms unfolding program_file_def by blast
  have "find (\<lambda>k. entry_name (mem s) (file_sys s) k = fname) [0..<unat (fs_num_dentries (mem s) (file_sys s))] = Some i"
    using i(1-3) by (auto simp: find_Some_iff intro!: exI [of _ i])
  then show ?thesis
    using assms i(4,5)
    by (auto simp: program_file_def read_dentry_by_name_def rd_def find_dentry_eq FILENAME_LEN_def)
qed

text \<open>A memory that agrees with another but for \<^term>\<open>n\<close> bytes at \<^term>\<open>b\<close>.\<close>

definition same_outside :: "u32 \<Rightarrow> nat \<Rightarrow> memory \<Rightarrow> memory \<Rightarrow> bool" where
  "same_outside b n m m' = (\<forall>x. n \<le> unat (x - b) \<longrightarrow> m' x = m x)"

lemma same_outside_refl [simp, intro]: "same_outside b n m m"
  by (simp add: same_outside_def)

lemma same_outside_trans: "same_outside b n m m' \<Longrightarrow> same_outside b n m' m'' \<Longrightarrow> same_outside b n m m''"
  by (simp add: same_outside_def)

lemma same_outside_image:
  assumes clear: "clear_of_image m fs b n" and out: "same_outside b n m m'"
  shows "same_image m m' fs"
  unfolding same_image_def
proof (intro allI impI)
  fix k assume k: "k < image_size m fs"
  show "m' (fs + of_nat k) = m (fs + of_nat k)"
  proof (cases "n \<le> unat (fs + of_nat k - b)")
    case True
    then show ?thesis using out by (simp add: same_outside_def)
  next
    case False
    then have "image_size m fs \<le> unat (b + of_nat (unat (fs + of_nat k - b)) - fs)"
      using clear unfolding clear_of_image_def by (meson not_le)
    also have "\<dots> = unat (of_nat k :: u32)" by simp
    also have "\<dots> \<le> k" by (simp add: unat_of_nat take_bit_eq_mod)
    finally show ?thesis using k by simp
  qed
qed

lemma same_image_trans:
  "same_image m m' fs \<Longrightarrow> same_image m' m'' fs \<Longrightarrow> same_image m m'' fs"
  using same_image_header(4) by (simp add: same_image_def)

lemma same_image_entry:
  assumes same: "same_image m m' fs" and i: "i < 63"
  shows "copy_dentry m' fs (of_nat i) = copy_dentry m fs (of_nat i)"
proof -
  have a: "fs_dentry fs (of_nat i) + of_nat j = fs + of_nat (64 + 64 * i + j)" for j
    by (simp add: fs_dentry_def algebra_simps)
  have size: "64 + 64 * i + j < image_size m fs" if "j < 64" for j
    using i that by (simp add: image_size_def)
  have "m' (fs_dentry fs (of_nat i) + of_nat j) = m (fs_dentry fs (of_nat i) + of_nat j)" if "j < FILENAME_LEN" for j
  proof -
    have "64 + 64 * i + j < image_size m fs" using size [of j] that by (simp add: FILENAME_LEN_def)
    then show ?thesis using same unfolding a same_image_def by blast
  qed
  moreover have "ld32 m' (fs_dentry fs (of_nat i) + of_nat j) = ld32 m (fs_dentry fs (of_nat i) + of_nat j)"
    if "j < 61" for j
    unfolding a by (rule same_image_dword [OF same]) (use size [of "j + 3"] that in \<open>simp add: add.assoc\<close>)
  from this [of 32] this [of 36] have
    "ld32 m' (fs_dentry fs (of_nat i) + 32) = ld32 m (fs_dentry fs (of_nat i) + 32)"
    "ld32 m' (fs_dentry fs (of_nat i) + 36) = ld32 m (fs_dentry fs (of_nat i) + 36)" by simp_all
  ultimately show ?thesis by (simp add: copy_dentry_def)
qed

lemma same_image_dwords:
  assumes "same_image m m' fs" and "image_ok m fs" "ino < fs_num_inodes m fs" and "k + 3 < file_room m fs ino"
  shows "file_dword m' fs ino k = file_dword m fs ino k"
proof -
  have "file_len m fs ino div 4096 < 1023" using assms(2,3) by (auto simp: image_ok_def)
  then have "file_room m fs ino \<le> 4096 * 1023" by (simp add: file_room_def)
  then have "file_byte m' fs ino (unat (of_nat (k + j) :: u32)) = file_byte m fs ino (unat (of_nat (k + j) :: u32))" if "j < 4" for j
    using same_image_file(4) [OF assms(1-3), of "k + j"] assms(4) that by (simp add: unat_of_nat_u32 del: of_nat_add)
  from this [of 0] this [of 1] this [of 2] this [of 3] show ?thesis
    by (simp add: file_dword_def ld32_def add.assoc add.commute add.left_commute)
qed

lemma program_file_same:
  assumes same: "same_image m m' fs" and p: "program_file m fs fname ino"
  shows "program_file m' fs fname ino" "file_room m' fs ino = file_room m fs ino"
    "j < file_room m fs ino \<Longrightarrow> file_byte m' fs ino j = file_byte m fs ino j"
    "file_dword m' fs ino 24 = file_dword m fs ino 24"
proof -
  have ok: "image_ok m fs" "ino < fs_num_inodes m fs" using p by (simp_all add: program_file_def)
  note h = same_image_header [OF same] and f = same_image_file [OF same ok]
  have room: "4096 \<le> file_room m fs ino" by (simp add: file_room_def)
  have d: "file_dword m' fs ino 0 = file_dword m fs ino 0" "file_dword m' fs ino 24 = file_dword m fs ino 24"
    using same_image_dwords [OF same ok, of 0] same_image_dwords [OF same ok, of 24] room by simp_all
  have "unat (fs_num_dentries m fs) \<le> 63" using p by (simp add: program_file_def word_le_nat_alt)
  then have e: "copy_dentry m' fs (of_nat i) = copy_dentry m fs (of_nat i)" if "i < unat (fs_num_dentries m fs)" for i
    using same_image_entry [OF same, of i] that by simp
  obtain i where i: "i < unat (fs_num_dentries m fs)" "entry_name m fs i = fname"
    "\<forall>j < i. entry_name m fs j \<noteq> fname" "file_type (copy_dentry m fs (of_nat i)) = 2"
    "inode_num (copy_dentry m fs (of_nat i)) = ino"
    using p unfolding program_file_def by blast
  have "\<exists>i < unat (fs_num_dentries m' fs). entry_name m' fs i = fname \<and> (\<forall>j < i. entry_name m' fs j \<noteq> fname) \<and>
        file_type (copy_dentry m' fs (of_nat i)) = 2 \<and> inode_num (copy_dentry m' fs (of_nat i)) = ino"
    using i e by (intro exI [of _ i]) (auto simp: h entry_name_def)
  then show "program_file m' fs fname ino"
    using p same_image_ok [OF same ok(1)] d h by (simp add: program_file_def)
  show "file_room m' fs ino = file_room m fs ino" "file_dword m' fs ino 24 = file_dword m fs ino 24"
    by (rule f(2), rule d(2))
  show "j < file_room m fs ino \<Longrightarrow> file_byte m' fs ino j = file_byte m fs ino j" by (rule f(4))
qed

lemma load_program_file:
  assumes p: "program_file (mem s) (file_sys s) fname ino"
    and clear: "clear_of_image (mem s) (file_sys s) header 4"
      "clear_of_image (mem s) (file_sys s) addr (file_room (mem s) (file_sys s) ino)" and addr: "addr \<noteq> 0"
  shows "load_program header fname addr s = Some (sint (file_dword (mem s) (file_sys s) ino 24),
    s\<lparr>mem := copied addr (file_byte (mem s) (file_sys s) ino) (file_room (mem s) (file_sys s) ino)
      (copied header (file_byte (mem s) (file_sys s) ino) 4 (mem s))\<rparr>)"
proof -
  obtain d where d: "read_dentry_by_name fname blank_dentry s = Some (0, d)" "file_type d = 2" "inode_num d = ino"
    using program_file_found [OF p] by blast
  show ?thesis
    using load_program_run [OF refl refl _ d(1,2)] p clear addr d(3) by (simp add: program_file_def)
qed

definition ls_name :: "u8 list" where
  "ls_name = bytes_of ''ls'' @ replicate 30 0"

lemma ls_dentry:
  "copy_dentry fs_demo_mem 0x10000 0 = \<lparr>file_name = ls_name, file_type = 2, inode_num = 0\<rparr>"
  by (simp add: copy_dentry_def fs_dentry_def fs_demo_mem_def ls_name_def bytes_of_def ld32_def
      FILENAME_LEN_def Let_def upt_rec replicate_num)

lemma ls_entry: "entry_name fs_demo_mem 0x10000 0 = ls_name" "take FILENAME_LEN ls_name = ls_name"
    "FILENAME_LEN \<le> length ls_name" "ls_name ! 0 \<noteq> chr CHR ''.''"
  by (simp_all add: entry_name_def ls_dentry FILENAME_LEN_def ls_name_def bytes_of_def)

lemma ls_found:
  "read_dentry_by_name ls_name blank_dentry fs_demo =
   Some (0, \<lparr>file_name = ls_name, file_type = 2, inode_num = 0\<rparr>)"
proof -
  have "rd ls_name 0 = Some (ls_name ! 0)"
    by (simp add: rd_def ls_name_def)
  then show ?thesis using ls_entry
    by (simp add: read_dentry_by_name_def find_dentry_eq fs_demo_header ls_dentry)
qed

theorem read_dentry_finds_first_witness:
  "FILENAME_LEN \<le> length ls_name \<and>
   read_dentry_by_name ls_name blank_dentry fs_demo = Some (read_dentry_by_index 0 blank_dentry fs_demo)"
  using read_dentry_finds_first [OF ls_entry(3,4), of blank_dentry fs_demo] ls_entry
  by (simp add: fs_demo_header)

theorem load_program_loads_file_witness:
  "\<exists>t. load_program 0x100 ls_name 0x1000 fs_demo = Some (0x8048000, t) \<and> mem t 0x1001 = 0x45 \<and> mem t 0x2005 = 5"
proof -
  let ?d = "\<lparr>file_name = ls_name, file_type = 2, inode_num = 0\<rparr>"
  have b: "file_byte fs_demo_mem 0x10000 0 k = (if k < 4096 then fs_demo_mem (0x12000 + of_nat k)
      else fs_demo_mem (0x13000 + of_nat (k - 4096)))" if "k < 8192" for k
  proof (cases "k < 4096")
    case True
    then show ?thesis by (simp add: file_byte_def fs_demo_header block_addr_def)
  next
    case False
    then have "k div 4096 = 1" "k mod 4096 = k - 4096" using that by (auto simp: div_nat_eqI mod_if)
    then show ?thesis using False by (simp add: file_byte_def fs_demo_header block_addr_def)
  qed
  have m: "file_dword fs_demo_mem 0x10000 0 0 = ELF_MAGIC" "file_dword fs_demo_mem 0x10000 0 24 = 0x8048000"
    "file_byte fs_demo_mem 0x10000 0 1 = 0x45" "file_byte fs_demo_mem 0x10000 0 4101 = 5"
    by (simp_all add: file_dword_def ld32_def b fs_demo_mem_def Let_def ELF_MAGIC_def)
  have c: "clear_of_image fs_demo_mem 0x10000 0x100 4" "clear_of_image fs_demo_mem 0x10000 0x1000 8192"
    by (auto intro!: fs_demo_clear)
  have n: "inode_num ?d < fs_num_inodes fs_demo_mem 0x10000" by (simp add: fs_demo_header)
  show ?thesis
    using load_program_loads_file [of fs_demo_mem fs_demo "0x10000" ls_name ?d "0x100" "0x1000"]
      fs_demo_image ls_found m c n by (simp add: copied_def)
qed

end
