(* ===== verification/Task.thy ===== *)
theory Task
  imports FileSys
begin

text \<open>
  Task structures, \<^verbatim>\<open>task.c\<close>: where a task's structure, kernel stack and memory lie, how a task
  is initialised with its address space and its files, and how its program is loaded. A
  \<^verbatim>\<open>task_t\<close> is a record in a store addressed as the source addresses it; \<^verbatim>\<open>NULL\<close> is
  address 0, and following it is a fault. The tables of the address space are memory (theory
  Paging), so that the page walk can be computed from what \<^verbatim>\<open>init_task\<close> writes.
\<close>

unbundle bit_operations_syntax

section \<open>State\<close>

definition KERNEL_STACK_MASK :: u32 where "KERNEL_STACK_MASK = 0x7FE000"
definition KERNEL_STACK_SIZE :: u32 where "KERNEL_STACK_SIZE = 0x2000"
definition INIT_TASK_ADDR :: u32 where "INIT_TASK_ADDR = 0x800000"
definition EXECUTION_ADDR :: u32 where "EXECUTION_ADDR = 0x8000000"
definition ELAGS_IF :: u32 where "ELAGS_IF = 0x200"
definition KERNEL_CS :: u16 where "KERNEL_CS = 0x0010"
definition KERNEL_DS :: u16 where "KERNEL_DS = 0x0018"
definition USER_CS :: u16 where "USER_CS = 0x0023"
definition USER_DS :: u16 where "USER_DS = 0x002B"
definition KERNEL_LDT :: u16 where "KERNEL_LDT = 0x0038"
definition VIDEO :: u32 where "VIDEO = 0xB8000"
definition VIRTUAL_VID_MEM :: u32 where "VIRTUAL_VID_MEM = 0x10000000"
definition GARBAGE_VID_MEM :: u32 where "GARBAGE_VID_MEM = 0x10400000"

lemmas task_consts =
  KERNEL_STACK_MASK_def KERNEL_STACK_SIZE_def INIT_TASK_ADDR_def EXECUTION_ADDR_def ELAGS_IF_def
  KERNEL_CS_def KERNEL_DS_def USER_CS_def USER_DS_def KERNEL_LDT_def VIDEO_def VIRTUAL_VID_MEM_def
  GARBAGE_VID_MEM_def

text \<open>The fields of the task state segment that the kernel names.\<close>

record tss_t =
  tss_esp0 :: u32
  tss_ss0 :: u16
  tss_cr3 :: u32
  tss_eip :: u32
  tss_eflags :: u32
  tss_eax :: u32
  tss_ecx :: u32
  tss_edx :: u32
  tss_ebx :: u32
  tss_esp :: u32
  tss_ebp :: u32
  tss_esi :: u32
  tss_edi :: u32
  tss_cs :: u16
  tss_ss :: u16
  tss_ds :: u16
  tss_ldt_segment_selector :: u16

text \<open>The four tables of file operations; a \<^verbatim>\<open>fops\<close> pointer is one of them or \<^verbatim>\<open>NULL\<close>.\<close>

datatype fops = RtcFops | DirFops | FileFops | TermFops

record file_t =
  f_fops :: "fops option"
  f_dentry :: dentry
  f_inode :: u32
  f_offset :: u32
  f_flags :: u32

datatype task_state = TASK_RUNNING | TASK_SYS_CALL | TASK_EXCEPTION

record task_t =
  parent_task :: u32
  p_name :: "u8 list"
  task_pid :: int
  task_ptid :: int
  task_files :: "file_t list"
  task_tss :: tss_t
  ret_ebp :: u32
  ret_esp :: u32
  ret_eip :: u32
  ret_eflags :: u32
  page_directory :: u32
  page_table :: u32
  task_state :: task_state
  task_args :: "u8 list"

record tasks = filesys +
  task_store :: "u32 \<Rightarrow> task_t"
  tss :: tss_t

definition task_at :: "u32 \<Rightarrow> 'a tasks_scheme \<Rightarrow> task_t option" where
  "task_at a s = (if a = 0 then None else Some (task_store s a))"

definition set_task :: "u32 \<Rightarrow> task_t \<Rightarrow> 'a tasks_scheme \<Rightarrow> 'a tasks_scheme option" where
  "set_task a t s = (if a = 0 then None else Some (s\<lparr>task_store := (task_store s)(a := t)\<rparr>))"

section \<open>Operations\<close>

definition get_task_addr :: "u32 \<Rightarrow> u32" where
  "get_task_addr pid = INIT_TASK_ADDR + pid * SIZE_4MB_PAGE"

definition get_task_stack_addr :: "u32 \<Rightarrow> u32" where
  "get_task_stack_addr pid = INIT_TASK_ADDR - KERNEL_STACK_SIZE * pid - 4"

definition get_task :: "int \<Rightarrow> u32" where
  "get_task pid = (INIT_TASK_ADDR - KERNEL_STACK_SIZE * u32_of pid - 4) AND KERNEL_STACK_MASK"

definition init_task_pd :: "u32 \<Rightarrow> 'a tasks_scheme \<Rightarrow> 'a tasks_scheme option" where
  "init_task_pd task s = do {
     t \<leftarrow> task_at task s;
     let addr = get_task_addr (u32_of (task_pid t));
         t = t\<lparr>page_directory := addr\<rparr>;
         t = t\<lparr>page_table := addr + 4 * of_nat NUM_PAGES\<rparr>;
         old_pd = pd s;
         old_pt = pt s;
         s = s\<lparr>pd := page_directory t\<rparr>;
         s = s\<lparr>pt := page_table t\<rparr>;
         s = store32 (dword_at (pd s) 0) (pt s AND FIRST_20_BITS) s;
         s = store32 (dword_at (pd s) 0) (ld32 (mem s) (dword_at (pd s) 0) OR SUPERVISOR_RW_PRESENT) s;
         s = fill_page_table s;
         s = snd (map_page_directory KERNEL_LOCATION KERNEL_LOCATION 1 0 s);
         s = snd (map_page_directory addr addr 1 1 s);
         s = snd (map_page_directory addr EXECUTION_ADDR 1 1 s);
         s = snd (map_page_directory VIDEO VIRTUAL_VID_MEM 1 1 s);
         s = s\<lparr>pd := old_pd\<rparr>;
         s = s\<lparr>pt := old_pt\<rparr>
     in set_task task t s }"

definition stdio_file :: "nat \<Rightarrow> file_t \<Rightarrow> file_t" where
  "stdio_file i f =
     (let f = f\<lparr>f_fops := None, f_inode := 0, f_offset := 0, f_flags := 0\<rparr>
      in if i = 0 \<or> i = 1 then f\<lparr>f_fops := Some TermFops, f_flags := 1\<rparr> else f)"

definition init_task :: "int \<Rightarrow> 'a tasks_scheme \<Rightarrow> (u32 \<times> 'a tasks_scheme) option" where
  "init_task pid s = (
     let stack_addr = get_task_stack_addr (u32_of pid);
         task = stack_addr AND KERNEL_STACK_MASK
     in do {
       t \<leftarrow> task_at task s;
       s \<leftarrow> set_task task (t\<lparr>task_pid := pid\<rparr>) s;
       s \<leftarrow> init_task_pd task s;
       t \<leftarrow> task_at task s;
       let seg = (task_tss t)\<lparr>
             tss_esp := EXECUTION_ADDR + SIZE_4MB_PAGE - 4,
             tss_ebp := 0,
             tss_esp0 := stack_addr,
             tss_ss0 := KERNEL_DS,
             tss_ss := USER_DS,
             tss_cs := USER_CS,
             tss_ds := USER_DS,
             tss_cr3 := page_directory t,
             tss_eip := 0,
             tss_ldt_segment_selector := 0,
             tss_eflags := ELAGS_IF\<rparr>;
           t = t\<lparr>task_tss := seg, ret_eip := 0xBADF00D, ret_ebp := 0xBADF00D, ret_esp := 0xBADF00D,
                 ret_eflags := 0xBADF00D, parent_task := 0\<rparr>
       in do {
         files \<leftarrow> for_range 0 8 (\<lambda>i files. do { f \<leftarrow> rd files i; wr files i (stdio_file i f) }) (task_files t);
         arguments \<leftarrow> for_range 0 128 (\<lambda>i arguments. wr arguments i 0) (task_args t);
         s \<leftarrow> set_task task (t\<lparr>task_files := files, task_args := arguments\<rparr>) s;
         Some (task, s) } })"

definition save_state ::
  "u32 \<Rightarrow> u32 \<Rightarrow> u32 \<Rightarrow> u32 \<Rightarrow> u32 \<Rightarrow> u32 \<Rightarrow> u32 \<Rightarrow> u32 \<Rightarrow> u32 \<Rightarrow> 'a tasks_scheme \<Rightarrow> 'a tasks_scheme option" where
  "save_state task esp ebp eax ebx ecx edx esi edi s = do {
     t \<leftarrow> task_at task s;
     set_task task (t\<lparr>task_tss := (task_tss t)\<lparr>
       tss_esp := esp + 12, tss_ebp := ebp, tss_eax := eax, tss_ebx := ebx, tss_ecx := ecx,
       tss_edx := edx, tss_esi := esi, tss_edi := edi\<rparr>\<rparr>) s }"

text \<open>
  The assignments of \<^verbatim>\<open>load_state\<close> are to its own parameters, so only its result is observable.
\<close>

definition load_state :: "u16 \<Rightarrow> u32" where
  "load_state cs = (if cs = USER_CS then 0 else 1)"

definition load_tss :: "u32 \<Rightarrow> 'a tasks_scheme \<Rightarrow> (int \<times> 'a tasks_scheme) option" where
  "load_tss task s = do { t \<leftarrow> task_at task s; Some (0, s\<lparr>tss := task_tss t\<rparr>) }"

text \<open>
  \<^verbatim>\<open>load_program\<close> runs before the test of \<^verbatim>\<open>task\<close>; the file name and the arguments are the
  arrays of 32 and 128 bytes of the callers.
\<close>

definition load_program_to_task ::
  "u32 \<Rightarrow> u32 \<Rightarrow> u32 \<Rightarrow> u8 list \<Rightarrow> u8 list \<Rightarrow> 'a tasks_scheme \<Rightarrow> (int \<times> 'a tasks_scheme) option" where
  "load_program_to_task header task addr fname arguments s = do {
     (exe_addr, s) \<leftarrow> load_program header fname addr s;
     (if exe_addr = - 1 \<or> task = 0 then Some (- 1, s)
      else do {
        t \<leftarrow> task_at task s;
        let t = t\<lparr>task_tss := (task_tss t)\<lparr>tss_eip := u32_of exe_addr\<rparr>\<rparr>
        in do {
          xs \<leftarrow> for_range 0 128 (\<lambda>i xs. do { c \<leftarrow> rd arguments i; wr xs i c }) (task_args t);
          name \<leftarrow> for_range 0 32 (\<lambda>i name. do { c \<leftarrow> rd fname i; wr name i c }) (p_name t);
          name \<leftarrow> wr name 31 0;
          s \<leftarrow> set_task task (t\<lparr>task_args := xs, p_name := name\<rparr>) s;
          Some (0, s) } }) }"

section \<open>Where the tasks lie\<close>

definition task_pid_ok :: "int \<Rightarrow> bool" where
  "task_pid_ok k = (0 \<le> k \<and> k < 10)"

lemma pid_cases:
  assumes "task_pid_ok k"
  shows "k \<in> {0, 1, 2, 3, 4, 5, 6, 7, 8, 9}"
  using assms unfolding task_pid_ok_def by (simp, presburger)

lemma task_layout:
  assumes "task_pid_ok k"
  shows "get_task_addr (u32_of k) = of_int (0x800000 + 0x400000 * k)"
    and "get_task k = of_int (0x7FE000 - 0x2000 * k)"
    and "get_task_stack_addr (u32_of k) = get_task k + 0x1FFC"
    and "get_task_stack_addr (u32_of k) AND KERNEL_STACK_MASK = get_task k"
    and "get_task k \<noteq> 0"
    and "page_aligned (get_task_addr (u32_of k))"
    and "page_aligned (get_task_addr (u32_of k) + 4096)"
    and "pd_index (get_task_addr (u32_of k)) = of_int (2 + k)"
    and "get_task_addr (u32_of k) AND FIRST_10_BITS = get_task_addr (u32_of k)"
  using pid_cases [OF assms]
  by (auto simp: get_task_addr_def get_task_def get_task_stack_addr_def task_consts SIZE_4MB_PAGE_def
      u32_of_def page_aligned_def FIRST_20_BITS_def FIRST_10_BITS_def index_bits)

lemma get_task_inj:
  assumes "task_pid_ok j" and "task_pid_ok k" and "get_task j = get_task k"
  shows "j = k"
  using pid_cases [OF assms(1)] pid_cases [OF assms(2)] assms(3)
  unfolding task_layout(2) [OF assms(1)] task_layout(2) [OF assms(2)] by auto

section \<open>The address space of a new task\<close>

definition entry_4mb :: "u32 \<Rightarrow> u8 \<Rightarrow> u32" where
  "entry_4mb phys user = (phys AND FIRST_10_BITS) OR PAGE_SIZE_BIT OR push_bit 2 (ucast user) OR RW_PRESENT"

lemma map_4mb_memory:
  "map_page_directory phys virt 1 user s =
     (0, s\<lparr>mem := st32 (mem s) (pd s + 4 * pd_index virt) (entry_4mb phys user)\<rparr>)"
  by (simp add: map_page_directory_def store32_def entry_4mb_def)

text \<open>The tables that \<^verbatim>\<open>init_task_pd\<close> leaves at the task's address.\<close>

definition task_tables :: "memory \<Rightarrow> u32 \<Rightarrow> bool" where
  "task_tables m addr =
     (ld32 m addr = (addr + 4096) OR 3 \<and>
      ld32 m (addr + 4 * 1) = entry_4mb KERNEL_LOCATION 0 \<and>
      ld32 m (addr + 4 * pd_index addr) = entry_4mb addr 1 \<and>
      ld32 m (addr + 4 * 32) = entry_4mb addr 1 \<and>
      ld32 m (addr + 4 * 64) = entry_4mb VIDEO 1 \<and>
      (\<forall>i < 1024. i \<noteq> 0 \<longrightarrow> ld32 m (addr + 4096 + 4 * i) = 4096 * i OR 3))"

lemma init_task_pd_tables:
  assumes "task_at task s = Some t" and "task_pid_ok (task_pid t)"
  defines "addr \<equiv> get_task_addr (u32_of (task_pid t))"
  shows "\<exists>m. init_task_pd task s = Some (s\<lparr>mem := m, task_store := (task_store s)
      (task := t\<lparr>page_directory := addr, page_table := addr + 4096\<rparr>)\<rparr>) \<and> task_tables m addr"
proof -
  have al: "page_aligned addr" "page_aligned (addr + 4096)" "addr \<noteq> addr + 4096"
    using task_layout(6,7) [OF assms(2)] by (simp_all add: addr_def)
  have idx: "pd_index addr = of_int (2 + task_pid t)" using task_layout(8) [OF assms(2)] by (simp add: addr_def)
  have i: "pd_index addr < 1024" "pd_index addr \<noteq> 0" "pd_index addr \<noteq> 1" "pd_index addr \<noteq> 32" "pd_index addr \<noteq> 64"
    unfolding idx using pid_cases [OF assms(2)] by auto
  define s1 where "s1 = s\<lparr>pd := addr, pt := addr + 4096,
    mem := st32 (st32 (mem s) addr (addr + 4096)) addr ((addr + 4096) OR 3)\<rparr>"
  obtain m2 where m2: "fill_page_table s1 = s1\<lparr>mem := m2\<rparr>" "filled_to 1024 s1 m2"
    using fill_page_table_fills [of s1] al(2) by (auto simp: s1_def)
  define m where "m = st32 (st32 (st32 (st32 m2 (addr + 4 * 1) (entry_4mb KERNEL_LOCATION 0))
    (addr + 4 * pd_index addr) (entry_4mb addr 1)) (addr + 4 * 32) (entry_4mb addr 1))
    (addr + 4 * 64) (entry_4mb VIDEO 1)"
  have pt: "(addr + 4096) AND FIRST_20_BITS = addr + 4096" using al(2) by (simp add: page_aligned_def)
  have start: "init_task_pd task s = set_task task (t\<lparr>page_directory := addr, page_table := addr + 4096\<rparr>)
      (s1\<lparr>mem := m, pd := pd s, pt := pt s\<rparr>)"
    using m2(1) pt assms(1)
    by (simp add: init_task_pd_def Let_def store32_def map_4mb_memory s1_def m_def addr_def [symmetric]
        NUM_PAGES_def SUPERVISOR_RW_PRESENT_def index_bits KERNEL_LOCATION_def EXECUTION_ADDR_def
        VIRTUAL_VID_MEM_def)
  have "task \<noteq> 0" using assms(1) by (auto simp: task_at_def split: if_splits)
  then have run: "init_task_pd task s = Some (s\<lparr>mem := m, task_store := (task_store s)
      (task := t\<lparr>page_directory := addr, page_table := addr + 4096\<rparr>)\<rparr>)"
    unfolding start by (simp add: set_task_def s1_def)
  have e: "ld32 (st32 x (addr + 4 * k) v) (addr + 4 * j) = (if j = k then v else ld32 x (addr + 4 * j))"
    if "k < 1024" "j < 1024" for x k v j
    using ld32_entry [OF al(1,1) that] by auto
  have f: "ld32 (st32 x (addr + 4 * k) v) (addr + 4096 + 4 * j) = ld32 x (addr + 4096 + 4 * j)"
    if "k < 1024" "j < 1024" for x k v j
    using ld32_entry [OF al(1,2) that] al(3) by auto
  have lit: "(64 :: u32) < 1024" "(32 :: u32) < 1024" "(1 :: u32) < 1024" by simp_all
  have dir: "ld32 m (addr + 4 * j) = (if j = 64 then entry_4mb VIDEO 1 else if j = 32 then entry_4mb addr 1
      else if j = pd_index addr then entry_4mb addr 1 else if j = 1 then entry_4mb KERNEL_LOCATION 0
      else ld32 m2 (addr + 4 * j))" if "j < 1024" for j
    unfolding m_def by (simp only: e [OF lit(1) that] e [OF lit(2) that] e [OF lit(3) that] e [OF i(1) that])
  have tab: "ld32 m (addr + 4096 + 4 * j) = ld32 m2 (addr + 4096 + 4 * j)" if "j < 1024" for j
    unfolding m_def by (simp only: f [OF lit(1) that] f [OF lit(2) that] f [OF lit(3) that] f [OF i(1) that])
  have fill: "ld32 m2 (addr + 4096 + 4 * j) = 4096 * j OR 3" if "j < 1024" "j \<noteq> 0" for j
    using m2(2) that by (simp add: filled_to_def s1_def word_less_nat_alt)
  have "ld32 m2 (addr + 4 * 0) = ld32 (mem s1) (addr + 4 * 0)"
  proof -
    have "page_aligned addr \<and> addr \<noteq> pt s1 \<and> (0 :: u32) < 1024" using al by (simp add: s1_def)
    then show ?thesis using m2(2) unfolding filled_to_def by blast
  qed
  then have first: "ld32 m2 addr = (addr + 4096) OR 3" by (simp add: s1_def)
  have "task_tables m addr"
    unfolding task_tables_def
    using dir [of 0] dir [OF i(1)] dir [OF lit(1)] dir [OF lit(2)] dir [OF lit(3)] tab fill first i by auto
  then show ?thesis using run by blast
qed

text \<open>What such tables mean for the page walk.\<close>

lemma entry_walk:
  assumes "ld32 m (addr + 4 * k) = entry_4mb phys w" and "w = 0 \<or> w = 1" and "page_aligned addr"
    and "drop_bit 22 va = k"
  shows "translate m addr user va =
    (if user \<and> w = 0 then None else Some ((phys AND FIRST_10_BITS) OR (va AND 0x3FFFFF)))"
  by (rule translate_4mb [OF _ assms(2)])
    (use assms in \<open>simp add: page_aligned_def entry_4mb_def\<close>)

lemma low_walk:
  assumes "task_tables m addr" and "page_aligned addr" and "page_aligned (addr + 4096)"
    and "0x1000 \<le> va" and "va < 0x400000"
  shows "translate m addr user va = (if user then None else Some va)"
proof -
  let ?k = "drop_bit 12 va AND 0x3FF"
  have z: "drop_bit 22 va = 0" and k: "?k \<noteq> 0"
    using region_index(1,3) [of va] assms(4,5) by (auto simp: not_less)
  have a: "addr AND FIRST_20_BITS = addr" using assms(2) by (simp add: page_aligned_def)
  have e: "ld32 m (dword_at (addr + 4096) ?k) = 4096 * ?k OR 3"
    using assms(1) k index_lt(2) [of "drop_bit 12 va"] unfolding task_tables_def by blast
  have w: "translate m addr user va = (
      let pte = ld32 m (dword_at (addr + 4096) ?k) in
      if user \<or> \<not> present pte then None else Some ((pte AND FIRST_20_BITS) OR (va AND 0xFFF)))"
    by (rule walk_4kb [OF refl assms(3)]) (use assms(1) a z in \<open>simp add: task_tables_def\<close>)
  have "present (4096 * ?k OR 3)" by (simp add: present_def bit_simps mask_bits(4))
  then show ?thesis using w e walk_identity_4kb [OF z] by (simp add: Let_def)
qed

text \<open>The address space of a task, region by region, as \<^verbatim>\<open>init_task_pd\<close> sets it up.\<close>

lemma task_walks:
  assumes "task_tables m addr" and "task_pid_ok k" and "addr = get_task_addr (u32_of k)"
  shows "drop_bit 22 va = 32 \<Longrightarrow> translate m addr user va = Some (addr OR (va AND 0x3FFFFF))"
    and "drop_bit 22 va = pd_index addr \<Longrightarrow> translate m addr user va = Some va"
    and "drop_bit 22 va = 1 \<Longrightarrow> translate m addr user va = (if user then None else Some va)"
    and "drop_bit 22 va = 64 \<Longrightarrow> translate m addr user va = Some (va AND 0x3FFFFF)"
    and "0x1000 \<le> va \<Longrightarrow> va < 0x400000 \<Longrightarrow> translate m addr user va = (if user then None else Some va)"
proof -
  note l = task_layout [OF assms(2), folded assms(3)]
  have join: "(addr' AND FIRST_10_BITS) OR (va AND 0x3FFFFF) = va" if "pd_index addr' = drop_bit 22 va" for addr' :: u32
  proof (rule bit_word_eqI)
    fix n
    have "bit addr' n = bit va n" if "22 \<le> n"
      using arg_cong [OF \<open>pd_index addr' = drop_bit 22 va\<close>, of "\<lambda>w. bit w (n - 22)"] that
      by (simp add: index_bits bit_simps)
    then show "bit ((addr' AND FIRST_10_BITS) OR (va AND 0x3FFFFF)) n = bit va n"
      unfolding first_bits mask_bits by (cases "22 \<le> n") (auto simp: bit_simps dest: u32_bit_lt)
  qed
  note w = entry_walk [where addr = addr and m = m and user = user and va = va]
  show "translate m addr user va = Some (addr OR (va AND 0x3FFFFF))" if "drop_bit 22 va = 32"
    using w [where k = 32 and phys = addr and w = 1] assms(1) l that by (simp add: task_tables_def)
  show "translate m addr user va = Some va" if "drop_bit 22 va = pd_index addr"
    using w [where k = "pd_index addr" and phys = addr and w = 1] assms(1) l that join [of addr]
    by (simp add: task_tables_def)
  show "translate m addr user va = (if user then None else Some va)" if "drop_bit 22 va = 1"
  proof -
    have "pd_index KERNEL_LOCATION = drop_bit 22 va" using that by (simp add: KERNEL_LOCATION_def index_bits)
    then show ?thesis
      using w [where k = 1 and phys = KERNEL_LOCATION and w = 0] assms(1) l that join [of KERNEL_LOCATION]
      by (simp add: task_tables_def)
  qed
  show "translate m addr user va = Some (va AND 0x3FFFFF)" if "drop_bit 22 va = 64"
    using w [where k = 64 and phys = VIDEO and w = 1] assms(1) l that
    by (simp add: task_tables_def VIDEO_def FIRST_10_BITS_def)
  show "translate m addr user va = (if user then None else Some va)" if "0x1000 \<le> va" "va < 0x400000"
    by (rule low_walk [OF assms(1) l(6,7) that])
qed

section \<open>A new task\<close>

definition task_arrays_ok :: "task_t \<Rightarrow> bool" where
  "task_arrays_ok t = (length (task_files t) = 8 \<and> length (task_args t) = 128 \<and> length (p_name t) = 32)"

lemma init_task_result:
  assumes k: "task_pid_ok k" and arr: "task_arrays_ok (task_store s (get_task k))"
  defines "addr \<equiv> get_task_addr (u32_of k)" and "t0 \<equiv> task_store s (get_task k)"
  shows "\<exists>m t. init_task k s = Some (get_task k, s\<lparr>mem := m, task_store := (task_store s)(get_task k := t)\<rparr>) \<and>
    task_tables m addr \<and> task_arrays_ok t \<and> task_pid t = k \<and> task_ptid t = task_ptid t0 \<and>
    p_name t = p_name t0 \<and> task_state t = task_state t0 \<and> parent_task t = 0 \<and>
    page_directory t = addr \<and> page_table t = addr + 4096 \<and>
    task_tss t = (task_tss t0)\<lparr>tss_esp := 0x83FFFFC, tss_ebp := 0, tss_esp0 := get_task k + 0x1FFC,
      tss_ss0 := KERNEL_DS, tss_ss := USER_DS, tss_cs := USER_CS, tss_ds := USER_DS, tss_cr3 := addr,
      tss_eip := 0, tss_ldt_segment_selector := 0, tss_eflags := 0x200\<rparr> \<and>
    task_files t = map (\<lambda>i. stdio_file i (task_files t0 ! i)) [0..<8] \<and> task_args t = replicate 128 0"
proof -
  note l = task_layout [OF k]
  let ?a = "get_task k"
  let ?s1 = "s\<lparr>task_store := (task_store s)(?a := t0\<lparr>task_pid := k\<rparr>)\<rparr>"
  have at: "task_at ?a ?s1 = Some (t0\<lparr>task_pid := k\<rparr>)" using l(5) by (simp add: task_at_def)
  obtain m where pdm: "init_task_pd ?a ?s1 = Some (?s1\<lparr>mem := m, task_store := (task_store ?s1)
      (?a := t0\<lparr>task_pid := k, page_directory := addr, page_table := addr + 4096\<rparr>)\<rparr>)" "task_tables m addr"
    using init_task_pd_tables [OF at] k by (auto simp: addr_def)
  have files: "for_range 0 8 (\<lambda>i files. do { f \<leftarrow> rd files i; wr files i (stdio_file i f) }) (task_files t0) =
      Some (map (\<lambda>i. stdio_file i (task_files t0 ! i)) [0..<8])"
    using map_loop [of "task_files t0" 8 stdio_file] arr by (simp add: task_arrays_ok_def t0_def)
  have args: "for_range 0 128 (\<lambda>i arguments. wr arguments i 0) (task_args t0) = Some (replicate 128 0)"
    using fill_loop [of 0 128 "task_args t0" 0] arr by (simp add: task_arrays_ok_def t0_def)
  let ?t = "t0\<lparr>task_pid := k, page_directory := addr, page_table := addr + 4096,
    task_tss := (task_tss t0)\<lparr>tss_esp := 0x83FFFFC, tss_ebp := 0, tss_esp0 := get_task k + 0x1FFC,
      tss_ss0 := KERNEL_DS, tss_ss := USER_DS, tss_cs := USER_CS, tss_ds := USER_DS, tss_cr3 := addr,
      tss_eip := 0, tss_ldt_segment_selector := 0, tss_eflags := 0x200\<rparr>,
    ret_eip := 0xBADF00D, ret_ebp := 0xBADF00D, ret_esp := 0xBADF00D, ret_eflags := 0xBADF00D,
    parent_task := 0, task_files := map (\<lambda>i. stdio_file i (task_files t0 ! i)) [0..<8],
    task_args := replicate 128 0\<rparr>"
  have "init_task k s = Some (?a, s\<lparr>mem := m, task_store := (task_store s)(?a := ?t)\<rparr>)"
    using pdm l(3,4,5) files args
    by (simp add: init_task_def task_at_def set_task_def Let_def t0_def [symmetric]
        EXECUTION_ADDR_def SIZE_4MB_PAGE_def ELAGS_IF_def)
  moreover have "task_arrays_ok ?t" using arr by (simp add: task_arrays_ok_def t0_def)
  ultimately show ?thesis using pdm(2) by (intro exI [of _ m] exI [of _ ?t]) simp
qed

section \<open>Properties of tasks\<close>

definition task_demo_task :: task_t where
  "task_demo_task = \<lparr>parent_task = 0, p_name = replicate 32 0, task_pid = 0, task_ptid = 0,
     task_files = replicate 8 \<lparr>f_fops = None, f_dentry = blank_dentry, f_inode = 0, f_offset = 0, f_flags = 0\<rparr>,
     task_tss = \<lparr>tss_esp0 = 0, tss_ss0 = 0, tss_cr3 = 0, tss_eip = 0, tss_eflags = 0, tss_eax = 0,
       tss_ecx = 0, tss_edx = 0, tss_ebx = 0, tss_esp = 0, tss_ebp = 0, tss_esi = 0, tss_edi = 0,
       tss_cs = 0, tss_ss = 0, tss_ds = 0, tss_ldt_segment_selector = 0\<rparr>,
     ret_ebp = 0, ret_esp = 0, ret_eip = 0, ret_eflags = 0, page_directory = 0, page_table = 0,
     task_state = TASK_RUNNING, task_args = replicate 128 0\<rparr>"

definition tasks_demo :: tasks where
  "tasks_demo = filesys.extend fs_demo
     (tasks.fields (\<lambda>_. task_demo_task) (task_tss task_demo_task))"

lemma tasks_demo_sel [simp]: "task_store tasks_demo = (\<lambda>_. task_demo_task)" "mem tasks_demo = fs_demo_mem"
    "file_sys tasks_demo = 0x10000"
  by (simp_all add: tasks_demo_def filesys.defs tasks.defs fs_demo_def)

text \<open>C16. A new task, for every process id from 0 to 9, has its own memory: its program page at
  \<^verbatim>\<open>0x8000000\<close> and the same 4 MB at its identity address, both for user code; the kernel's 4 MB and
  the low 4 MB from the second page on for the supervisor only; and the video region. The walk is
  through the page directory the task records, and the kernel's own table pointers are restored.\<close>

theorem init_task_address_space:
  assumes "task_pid_ok k" and "task_arrays_ok (task_store s (get_task k))"
  shows "\<exists>u. init_task k s = Some (get_task k, u) \<and> pd u = pd s \<and> pt u = pt s \<and>
    (let dir = page_directory (task_store u (get_task k)); base = 0x800000 + 0x400000 * of_int k in
      dir = base \<and>
      (\<forall>user va.
        (drop_bit 22 va = 32 \<longrightarrow> translate (mem u) dir user va = Some (base OR (va AND 0x3FFFFF))) \<and>
        (drop_bit 22 va = of_int (2 + k) \<longrightarrow> translate (mem u) dir user va = Some va) \<and>
        (drop_bit 22 va = 1 \<longrightarrow> translate (mem u) dir user va = (if user then None else Some va)) \<and>
        (0x1000 \<le> va \<and> va < 0x400000 \<longrightarrow> translate (mem u) dir user va = (if user then None else Some va)) \<and>
        (drop_bit 22 va = 64 \<longrightarrow> translate (mem u) dir user va = Some (va AND 0x3FFFFF))))"
proof -
  note l = task_layout [OF assms(1)]
  obtain m t where r: "init_task k s = Some (get_task k, s\<lparr>mem := m, task_store := (task_store s)(get_task k := t)\<rparr>)"
    "task_tables m (get_task_addr (u32_of k))" "page_directory t = get_task_addr (u32_of k)"
    using init_task_result [OF assms] by blast
  have base: "get_task_addr (u32_of k) = 0x800000 + 0x400000 * of_int k" using l(1) by simp
  show ?thesis
    using r(1,3) l(8) task_walks [OF r(2) assms(1) refl]
    by (simp add: Let_def base [symmetric])
qed

theorem init_task_address_space_witness:
  "\<exists>u. init_task 3 tasks_demo = Some (0x7F8000, u) \<and>
     translate (mem u) 0x1400000 True 0x8048000 = Some 0x1448000 \<and>
     translate (mem u) 0x1400000 True 0x400000 = None"
proof -
  have h: "task_pid_ok 3" "task_arrays_ok (task_store tasks_demo (get_task 3))"
    by (simp_all add: task_pid_ok_def task_arrays_ok_def task_demo_task_def)
  have "get_task 3 = 0x7F8000" using task_layout(2) [OF h(1)] by simp
  then show ?thesis using init_task_address_space [OF h] by (auto simp: Let_def)
qed




text \<open>A new task has standard input and output open on the terminal and its other six descriptors
  closed, empty arguments, no parent, and a processor state that starts at the bottom of its stack
  page in user mode with interrupts on and with its own kernel stack.\<close>

theorem init_task_fresh_state:
  assumes "task_pid_ok k" and "task_arrays_ok (task_store s (get_task k))"
  shows "\<exists>u. init_task k s = Some (get_task k, u) \<and>
    (let t = task_store u (get_task k) in
      task_pid t = k \<and> parent_task t = 0 \<and> task_args t = replicate 128 0 \<and> length (task_files t) = 8 \<and>
      (\<forall>i < 8. f_offset (task_files t ! i) = 0 \<and> f_inode (task_files t ! i) = 0 \<and>
         f_fops (task_files t ! i) = (if i < 2 then Some TermFops else None) \<and>
         f_flags (task_files t ! i) = (if i < 2 then 1 else 0)) \<and>
      tss_cs (task_tss t) = USER_CS \<and> tss_esp (task_tss t) = 0x83FFFFC \<and>
      tss_eflags (task_tss t) AND 0x200 \<noteq> 0 \<and>
      tss_esp0 (task_tss t) = get_task k + 0x1FFC \<and> tss_cr3 (task_tss t) = page_directory t) \<and>
    (\<forall>a. a \<noteq> get_task k \<longrightarrow> task_store u a = task_store s a)"
proof -
  let ?t0 = "task_store s (get_task k)"
  obtain m t where r: "init_task k s = Some (get_task k, s\<lparr>mem := m, task_store := (task_store s)(get_task k := t)\<rparr>)"
    "task_pid t = k" "parent_task t = 0" "page_directory t = get_task_addr (u32_of k)"
    "task_tss t = (task_tss ?t0)\<lparr>tss_esp := 0x83FFFFC, tss_ebp := 0, tss_esp0 := get_task k + 0x1FFC,
      tss_ss0 := KERNEL_DS, tss_ss := USER_DS, tss_cs := USER_CS, tss_ds := USER_DS,
      tss_cr3 := get_task_addr (u32_of k), tss_eip := 0, tss_ldt_segment_selector := 0, tss_eflags := 0x200\<rparr>"
    "task_files t = map (\<lambda>i. stdio_file i (task_files ?t0 ! i)) [0..<8]" "task_args t = replicate 128 0"
    using init_task_result [OF assms] by blast
  have "\<forall>i < 8. f_offset (task_files t ! i) = 0 \<and> f_inode (task_files t ! i) = 0 \<and>
         f_fops (task_files t ! i) = (if i < 2 then Some TermFops else None) \<and>
         f_flags (task_files t ! i) = (if i < 2 then 1 else 0)"
    by (auto simp: r(6) stdio_file_def Let_def)
  then show ?thesis using r by (simp add: Let_def)
qed

theorem init_task_fresh_state_witness:
  "\<exists>u. init_task 2 tasks_demo = Some (0x7FA000, u) \<and> f_flags (task_files (task_store u 0x7FA000) ! 1) = 1 \<and>
     f_fops (task_files (task_store u 0x7FA000) ! 5) = None"
proof -
  have h: "task_pid_ok 2" "task_arrays_ok (task_store tasks_demo (get_task 2))"
    by (simp_all add: task_pid_ok_def task_arrays_ok_def task_demo_task_def)
  have "get_task 2 = 0x7FA000" using task_layout(2) [OF h(1)] by simp
  then show ?thesis using init_task_fresh_state [OF h] by (auto simp: Let_def)
qed

end
