(* ===== verification/Sched.thy ===== *)
theory Sched
  imports Task
begin

text \<open>
  The scheduler, \<^verbatim>\<open>sched.c\<close>: process ids and process trees (one tree for each terminal),
  creating and ending tasks, the choice of the next task and the switch to it. Where the source
  leaves C (the \<^verbatim>\<open>iret\<close> in \<^verbatim>\<open>execute_task\<close>), the operation is split: the part before returns
  the frame that the processor pops, the part after the label \<^verbatim>\<open>halt_addr\<close> runs when the task
  halts. The two bit vectors are seen as pools of identifiers, whose interface is the locale
  \<^verbatim>\<open>id_pool\<close>.
\<close>

unbundle bit_operations_syntax

section \<open>State\<close>

definition PROGRAM_IMAGE :: u32 where "PROGRAM_IMAGE = 0x48000"

text \<open>The scheduler's structure, and the list of terminals that the switch consults.\<close>

record kernel = tasks +
  task_vector :: u32
  max_tasks :: u32
  num_tasks :: u32
  cur_task :: int
  ptree_tasks :: "int list"
  ptree_vector :: int
  max_ptrees :: u32
  num_ptrees :: u32
  cur_ptree :: int
  terminal_list :: "terminal list"
  current_terminal_index :: int

section \<open>Identifiers\<close>

text \<open>\<^verbatim>\<open>1 << pid\<close> is undefined outside 0 to 31.\<close>

definition clear_pid :: "int \<Rightarrow> 'a kernel_scheme \<Rightarrow> (int \<times> 'a kernel_scheme) option" where
  "clear_pid pid s =
     (if 0 \<le> pid \<and> pid < 32
      then Some (0, s\<lparr>task_vector := task_vector s AND NOT (push_bit (nat pid) 1)\<rparr>) else None)"

function new_pid_loop :: "nat \<Rightarrow> nat \<Rightarrow> u32 \<Rightarrow> nat option" where
  "new_pid_loop i n vector =
     (if i < n then (if vector AND 1 = 0 then Some i else new_pid_loop (Suc i) n (drop_bit 1 vector))
      else None)"
  by pat_completeness auto
termination
  by (relation "measure (\<lambda>(i, n, vector). n - i)") auto

declare new_pid_loop.simps [simp del]

definition get_new_pid :: "'a kernel_scheme \<Rightarrow> int \<times> 'a kernel_scheme" where
  "get_new_pid s =
     (case new_pid_loop 0 (unat (max_tasks s)) (task_vector s) of
        Some i \<Rightarrow> (int i, s\<lparr>task_vector := task_vector s OR push_bit i 1\<rparr>)
      | None \<Rightarrow> (- 1, s))"

function new_ptid_loop :: "nat \<Rightarrow> nat \<Rightarrow> int \<Rightarrow> nat option" where
  "new_ptid_loop i n vector =
     (if i < n then (if vector AND push_bit i 1 = 0 then Some i else new_ptid_loop (Suc i) n vector)
      else None)"
  by pat_completeness auto
termination
  by (relation "measure (\<lambda>(i, n, vector). n - i)") auto

declare new_ptid_loop.simps [simp del]

definition get_new_ptid :: "'a kernel_scheme \<Rightarrow> int \<times> 'a kernel_scheme" where
  "get_new_ptid s =
     (case new_ptid_loop 0 (unat (max_ptrees s)) (ptree_vector s) of
        Some i \<Rightarrow> (int i, s\<lparr>ptree_vector := ptree_vector s OR push_bit i 1\<rparr>)
      | None \<Rightarrow> (- 1, s))"

definition create_ptree :: "'a kernel_scheme \<Rightarrow> (int \<times> 'a kernel_scheme) option" where
  "create_ptree s = (
     let (ptid, s) = get_new_ptid s
     in if ptid < 0 then Some (- 1, s)
        else do {
          let s = s\<lparr>num_ptrees := num_ptrees s + 1\<rparr>;
          ts \<leftarrow> wri (ptree_tasks s) ptid (- 1);
          Some (ptid, s\<lparr>ptree_tasks := ts\<rparr>) })"

section \<open>Current and next task\<close>

definition get_cur_task :: "'a kernel_scheme \<Rightarrow> u32" where
  "get_cur_task s = (if cur_task s < 0 then 0 else get_task (cur_task s))"

definition get_cur_task_state :: "'a kernel_scheme \<Rightarrow> task_state option" where
  "get_cur_task_state s = do { t \<leftarrow> task_at (get_cur_task s) s; Some (task_state t) }"

definition set_cur_task_state :: "task_state \<Rightarrow> 'a kernel_scheme \<Rightarrow> (int \<times> 'a kernel_scheme) option" where
  "set_cur_task_state st s = do {
     t \<leftarrow> task_at (get_cur_task s) s;
     s \<leftarrow> set_task (get_cur_task s) (t\<lparr>task_state := st\<rparr>) s;
     Some (0, s) }"

definition set_cur_ptree :: "int \<Rightarrow> 'a kernel_scheme \<Rightarrow> int \<times> 'a kernel_scheme" where
  "set_cur_ptree ptid s = (0, s\<lparr>cur_ptree := ptid\<rparr>)"

definition set_cur_task :: "int \<Rightarrow> 'a kernel_scheme \<Rightarrow> (int \<times> 'a kernel_scheme) option" where
  "set_cur_task pid s = do {
     let s = s\<lparr>cur_task := pid\<rparr>;
     t \<leftarrow> task_at (get_task pid) s;
     Some (0, s\<lparr>cur_ptree := task_ptid t\<rparr>) }"

definition set_ptree_task :: "int \<Rightarrow> int \<Rightarrow> 'a kernel_scheme \<Rightarrow> (int \<times> 'a kernel_scheme) option" where
  "set_ptree_task ptid pid s = do {
     ts \<leftarrow> wri (ptree_tasks s) ptid pid;
     Some (0, s\<lparr>ptree_tasks := ts\<rparr>) }"

definition clear_ptree_task :: "int \<Rightarrow> 'a kernel_scheme \<Rightarrow> (int \<times> 'a kernel_scheme) option" where
  "clear_ptree_task ptid s = do {
     ts \<leftarrow> wri (ptree_tasks s) ptid (- 1);
     Some (0, s\<lparr>ptree_tasks := ts\<rparr>) }"

text \<open>One of the two searches of \<^verbatim>\<open>get_next_task\<close>: the first active tree from \<^term>\<open>i\<close> up to
  \<^term>\<open>hi\<close>, as the address of its task.\<close>

function search_ptree :: "nat \<Rightarrow> nat \<Rightarrow> 'a kernel_scheme \<Rightarrow> u32 option option" where
  "search_ptree i hi s =
     (if i < hi then
        (if i \<ge> 32 then None
         else if wrap32 (ptree_vector s AND push_bit i 1) > 0
              then do { pid \<leftarrow> rd (ptree_tasks s) i; Some (Some (get_task pid)) }
              else search_ptree (Suc i) hi s)
      else Some None)"
  by pat_completeness auto
termination
  by (relation "measure (\<lambda>(i, hi, s). hi - i)") auto

declare search_ptree.simps [simp del]

definition get_next_task :: "'a kernel_scheme \<Rightarrow> u32 option" where
  "get_next_task s = do {
     r \<leftarrow> search_ptree (unat (u32_of (cur_ptree s) + 1)) (unat (max_ptrees s)) s;
     (case r of
        Some task \<Rightarrow> Some task
      | None \<Rightarrow> do {
          r \<leftarrow> search_ptree 0 (unat (u32_of (cur_ptree s))) s;
          (case r of
             Some task \<Rightarrow> Some task
           | None \<Rightarrow> do { pid \<leftarrow> rdi (ptree_tasks s) (cur_ptree s); Some (get_task pid) }) }) }"

section \<open>Creating and ending tasks\<close>

definition create_task ::
  "u32 \<Rightarrow> u8 list \<Rightarrow> u8 list \<Rightarrow> 'a kernel_scheme \<Rightarrow> (int \<times> 'a kernel_scheme) option" where
  "create_task header fname arguments s = (
     let (flags, s) = cli_and_save s;
         (pid, s) = get_new_pid s
     in if pid < 0 then Some (- 1, s)
        else
          let addr = get_task_addr (u32_of pid);
              s = s\<lparr>pd := cr3 s\<rparr>;
              s = snd (map_page_directory addr addr 1 1 s)
          in do {
            (task, s) \<leftarrow> init_task pid s;
            s \<leftarrow> (if cur_task s \<noteq> - 1 then do {
                     let parent = get_task (cur_task s);
                     p \<leftarrow> task_at parent s;
                     t \<leftarrow> task_at task s;
                     set_task task (t\<lparr>parent_task := parent, task_ptid := task_ptid p\<rparr>) s }
                   else Some s);
            (r, s) \<leftarrow> load_program_to_task header task (addr + PROGRAM_IMAGE) fname arguments s;
            (if r = - 1 then do {
               (_, s) \<leftarrow> clear_pid pid s;
               Some (- 1, restore_flags flags s) }
             else
               let s = s\<lparr>num_tasks := num_tasks s + 1\<rparr>
               in Some (pid, restore_flags flags s)) })"

definition end_task :: "int \<Rightarrow> 'a kernel_scheme \<Rightarrow> (int \<times> 'a kernel_scheme) option" where
  "end_task pid s = (
     let (flags, s) = cli_and_save s in do {
       t \<leftarrow> task_at (get_task pid) s;
       p \<leftarrow> task_at (parent_task t) s;
       let s = s\<lparr>cr3 := page_directory p\<rparr>;
           s = s\<lparr>pd := cr3 s\<rparr>;
           s = snd (map_page_directory VIDEO VIRTUAL_VID_MEM 1 1 s);
           addr = get_task_addr (u32_of pid)
       in do {
         (_, s) \<leftarrow> clear_pid pid s;
         let s = snd (clear_pde addr s);
             s = s\<lparr>num_tasks := num_tasks s - 1\<rparr>
         in do {
           (_, s) \<leftarrow> set_ptree_task (task_ptid p) (task_pid p) s;
           (_, s) \<leftarrow> set_cur_task (task_pid p) s;
           Some (0, restore_flags flags s) } } })"

section \<open>Switching\<close>

definition get_displaying_terminal :: "'a kernel_scheme \<Rightarrow> terminal option" where
  "get_displaying_terminal s = rdi (terminal_list s) (current_terminal_index s)"

definition switch_task :: "int \<Rightarrow> int \<Rightarrow> 'a kernel_scheme \<Rightarrow> (u32 \<times> 'a kernel_scheme) option" where
  "switch_task old_pid new_pid s = (
     let new_task = get_task new_pid;
         s = s\<lparr>pd := cr3 s\<rparr>;
         s = snd (map_page_directory GARBAGE_VID_MEM VIRTUAL_VID_MEM 1 1 s)
     in do {
       (_, s) \<leftarrow> set_cur_task new_pid s;
       (_, s) \<leftarrow> load_tss new_task s;
       t \<leftarrow> task_at new_task s;
       let s = s\<lparr>cr3 := page_directory t\<rparr>;
           s = s\<lparr>pd := cr3 s\<rparr>
       in do {
         term \<leftarrow> get_displaying_terminal s;
         Some (new_task,
           if u32_of (task_ptid t) = t_ptid term
           then snd (map_page_directory VIDEO VIRTUAL_VID_MEM 1 1 s) else s) } })"

text \<open>The frame that \<^verbatim>\<open>iret\<close> pops.\<close>

record iret_frame =
  fr_ss :: u16
  fr_esp :: u32
  fr_eflags :: u32
  fr_cs :: u16
  fr_eip :: u32

definition task_frame :: "task_t \<Rightarrow> iret_frame" where
  "task_frame t = \<lparr>fr_ss = tss_ss (task_tss t), fr_esp = tss_esp (task_tss t),
     fr_eflags = tss_eflags (task_tss t), fr_cs = tss_cs (task_tss t), fr_eip = tss_eip (task_tss t)\<rparr>"

text \<open>
  \<^verbatim>\<open>execute_task\<close> up to \<^verbatim>\<open>iret\<close>; \<^verbatim>\<open>halt_addr\<close> is the address of its label, \<^verbatim>\<open>esp\<close>
  and \<^verbatim>\<open>ebp\<close> are the registers that \<^verbatim>\<open>save_task_state\<close> stores.
\<close>

definition execute_task_enter ::
  "u32 \<Rightarrow> u32 \<Rightarrow> u32 \<Rightarrow> int \<Rightarrow> 'a kernel_scheme \<Rightarrow> (iret_frame \<times> 'a kernel_scheme) option" where
  "execute_task_enter halt_addr esp ebp pid s = (
     let s = snd (map_page_directory GARBAGE_VID_MEM VIRTUAL_VID_MEM 1 1 s);
         new_task = get_task pid
     in do {
       t \<leftarrow> task_at new_task s;
       s \<leftarrow> set_task new_task (t\<lparr>task_state := TASK_RUNNING, ret_eip := halt_addr\<rparr>) s;
       (_, s) \<leftarrow> set_cur_task pid s;
       t \<leftarrow> task_at new_task s;
       (_, s) \<leftarrow> set_ptree_task (task_ptid t) pid s;
       let t = t\<lparr>ret_esp := esp, ret_ebp := ebp\<rparr>
       in do {
         s \<leftarrow> set_task new_task t s;
         (_, s) \<leftarrow> load_tss new_task s;
         let frame = task_frame t;
             s = s\<lparr>cr3 := page_directory t\<rparr>;
             s = s\<lparr>pd := cr3 s\<rparr>
         in Some (frame, s) } })"

text \<open>From the label \<^verbatim>\<open>halt_addr\<close> on; \<^verbatim>\<open>al\<close> is the status a halting task leaves in the register.\<close>

definition execute_task_return :: "u8 \<Rightarrow> 'a kernel_scheme \<Rightarrow> (int \<times> 'a kernel_scheme) option" where
  "execute_task_return al s = do {
     let ret = uint al;
     st \<leftarrow> get_cur_task_state s;
     let ret = (if st = TASK_EXCEPTION then 256 else ret);
     t \<leftarrow> task_at (get_cur_task s) s;
     (_, s) \<leftarrow> end_task (task_pid t) s;
     (_, s) \<leftarrow> load_tss (get_cur_task s) s;
     Some (ret, s) }"

text \<open>One round of the loop of \<^verbatim>\<open>tasks_init\<close>; a failed \<^verbatim>\<open>create_task\<close> makes it follow the null
  pointer \<^verbatim>\<open>get_task(-1)\<close>.\<close>

definition init_terminal_task ::
  "u32 \<Rightarrow> u8 list \<Rightarrow> u8 list \<Rightarrow> 'a kernel_scheme \<Rightarrow> 'a kernel_scheme option" where
  "init_terminal_task header fname arguments s = do {
     (pid, s) \<leftarrow> create_task header fname arguments s;
     let task = get_task pid;
     (ptid, s) \<leftarrow> create_ptree s;
     t \<leftarrow> task_at task s;
     let t = t\<lparr>task_ptid := ptid\<rparr>;
     let t = t\<lparr>ret_eip := tss_eip (task_tss t)\<rparr>;
     let t = t\<lparr>ret_esp := tss_esp (task_tss t)\<rparr>;
     let t = t\<lparr>ret_ebp := tss_ebp (task_tss t)\<rparr>;
     let t = t\<lparr>ret_eflags := 0x200\<rparr>;
     s \<leftarrow> set_task task t s;
     (_, s) \<leftarrow> set_ptree_task (task_ptid t) (task_pid t) s;
     Some s }"

definition shell_fname :: "u8 list" where
  "shell_fname = bytes_of ''shell'' @ replicate 27 0"

definition tasks_init :: "u32 \<Rightarrow> 'a kernel_scheme \<Rightarrow> (int \<times> 'a kernel_scheme) option" where
  "tasks_init header s = do {
     let fname = shell_fname;
     let arguments = replicate 128 0;
     (_, s) \<leftarrow> create_task header fname arguments s;
     (_, s) \<leftarrow> set_cur_task 0 s;
     let init = get_task 0;
     s \<leftarrow> for_range 0 MAX_SUPPORTED_TERMINALS (\<lambda>_. init_terminal_task header fname arguments) s;
     t \<leftarrow> task_at init s;
     s \<leftarrow> set_task init (t\<lparr>task_tss := (task_tss t)\<lparr>tss_cs := 0x0010, tss_ds := 0x0018,
            tss_ss := 0x0018, tss_ldt_segment_selector := KERNEL_LDT\<rparr>\<rparr>) s;
     Some (0, s) }"

section \<open>Pools of identifiers\<close>

text \<open>
  The interface of an allocator of small numbers: it gives the least one that is not in use, or -1
  and no change when all up to the limit are.
\<close>

locale id_pool =
  fixes alloc :: "'s \<Rightarrow> int \<times> 's" and used :: "'s \<Rightarrow> nat set" and limit :: nat and ok :: "'s \<Rightarrow> bool"
  assumes alloc_free: "ok s \<Longrightarrow> k < limit \<Longrightarrow> k \<notin> used s \<Longrightarrow> (\<And>j. j < k \<Longrightarrow> j \<in> used s) \<Longrightarrow>
      fst (alloc s) = int k \<and> used (snd (alloc s)) = insert k (used s) \<and> ok (snd (alloc s))"
    and alloc_full: "ok s \<Longrightarrow> {..<limit} \<subseteq> used s \<Longrightarrow> alloc s = (- 1, s)"
begin

lemma alloc_cases:
  assumes "ok s"
  obtains (free) k where "k < limit" "k \<notin> used s" "\<And>j. j < k \<Longrightarrow> j \<in> used s" "fst (alloc s) = int k"
      "used (snd (alloc s)) = insert k (used s)" "ok (snd (alloc s))"
    | (full) "{..<limit} \<subseteq> used s" "alloc s = (- 1, s)"
proof (cases "{..<limit} \<subseteq> used s")
  case True
  then show ?thesis using full alloc_full [OF assms] by blast
next
  case False
  then obtain i where i: "i < limit" "i \<notin> used s" by auto
  let ?k = "LEAST i. i \<notin> used s"
  have k: "?k \<notin> used s" "?k \<le> i" using i(2) by (rule LeastI, rule Least_le)
  have below: "j \<in> used s" if "j < ?k" for j using not_less_Least [OF that] by simp
  have "?k < limit" using k(2) i(1) by simp
  with k(1) below alloc_free [OF assms this k(1) below] show ?thesis using free by blast
qed

lemma alloc_initial:
  assumes "ok s" and "used s = {..<k}" and "k < limit"
  shows "fst (alloc s) = int k \<and> used (snd (alloc s)) = {..<Suc k} \<and> ok (snd (alloc s))"
  using alloc_free [OF assms(1,3)] assms(2) by (auto simp: lessThan_Suc)

text \<open>From an empty pool, the first \<^term>\<open>limit\<close> calls give the numbers in order.\<close>

lemma alloc_many:
  assumes "ok s" and "used s = {}" and "n \<le> limit"
  shows "used (((\<lambda>s. snd (alloc s)) ^^ n) s) = {..<n} \<and> ok (((\<lambda>s. snd (alloc s)) ^^ n) s) \<and>
    (\<forall>k < n. fst (alloc (((\<lambda>s. snd (alloc s)) ^^ k) s)) = int k)"
  using assms(3)
proof (induction n)
  case 0
  then show ?case using assms by simp
next
  case (Suc n)
  then show ?case using alloc_initial [of "((\<lambda>s. snd (alloc s)) ^^ n) s" n] by (auto simp: less_Suc_eq)
qed

end

definition used_pids :: "'a kernel_scheme \<Rightarrow> nat set" where
  "used_pids s = {i. bit (task_vector s) i}"

definition used_ptids :: "'a kernel_scheme \<Rightarrow> nat set" where
  "used_ptids s = {i. bit (ptree_vector s) i}"

text \<open>The invariant of the scheduler's structure.\<close>

definition sched_ok :: "'a kernel_scheme \<Rightarrow> bool" where
  "sched_ok s = (max_tasks s = 10 \<and> max_ptrees s = 3 \<and> length (ptree_tasks s) = 32 \<and>
     used_pids s \<subseteq> {..<10} \<and> used_ptids s \<subseteq> {..<3})"

text \<open>The count that creating and ending tasks keeps.\<close>

definition tasks_counted :: "'a kernel_scheme \<Rightarrow> bool" where
  "tasks_counted s = (num_tasks s = of_nat (card (used_pids s)))"

lemma find_least:
  assumes "k < n" and "P k" and "\<And>j. j < k \<Longrightarrow> \<not> P j"
  shows "find P [0..<n] = Some k"
  using assms by (auto simp: find_Some_iff intro!: exI [of _ k])

lemma new_pid_loop_find: "new_pid_loop i n (drop_bit i v) = find (\<lambda>j. \<not> bit v j) [i..<n]"
proof (induction "n - i" arbitrary: i)
  case 0
  then show ?case by (simp add: new_pid_loop.simps)
next
  case (Suc d)
  then have "i < n" by simp
  have b: "drop_bit i v AND 1 = 0 \<longleftrightarrow> \<not> bit v i"
    by (simp add: and_one_eq bit_iff_odd_drop_bit even_iff_mod_2_eq_zero)
  have "new_pid_loop (Suc i) n (drop_bit 1 (drop_bit i v)) = find (\<lambda>j. \<not> bit v j) [Suc i..<n]"
    using Suc by (simp del: upt_Suc)
  then show ?case using \<open>i < n\<close> b
    by (subst new_pid_loop.simps) (simp add: upt_conv_Cons)
qed

lemma new_ptid_loop_find: "new_ptid_loop i n v = find (\<lambda>j. \<not> bit v j) [i..<n]"
proof (induction "n - i" arbitrary: i)
  case 0
  then show ?case by (simp add: new_ptid_loop.simps)
next
  case (Suc d)
  then have "i < n" by simp
  have "v AND push_bit i 1 = 0 \<longleftrightarrow> \<not> bit v i"
    using bit_eq_iff [of "v AND push_bit i 1" 0] by (auto simp: bit_simps)
  then show ?case using \<open>i < n\<close> Suc
    by (subst new_ptid_loop.simps) (simp add: upt_conv_Cons)
qed

lemma bit_set_insert:
  "i < 32 \<Longrightarrow> {j. bit (v OR push_bit i (1 :: u32)) j} = insert i {j. bit v j}"
  "{j. bit (w OR push_bit i (1 :: int)) j} = insert i {j. bit w j}"
  "{j. bit (v AND NOT (push_bit i (1 :: u32))) j} = {j. bit v j} - {i}"
  by (auto simp: bit_simps dest: u32_bit_lt)

lemma new_pid_cases:
  assumes "sched_ok s"
  shows "k < 10 \<Longrightarrow> k \<notin> used_pids s \<Longrightarrow> (\<And>j. j < k \<Longrightarrow> j \<in> used_pids s) \<Longrightarrow>
      get_new_pid s = (int k, s\<lparr>task_vector := task_vector s OR push_bit k 1\<rparr>)"
    and "{..<10} \<subseteq> used_pids s \<Longrightarrow> get_new_pid s = (- 1, s)"
proof -
  have loop: "new_pid_loop 0 (unat (max_tasks s)) (task_vector s) = find (\<lambda>j. \<not> bit (task_vector s) j) [0..<10]"
    using new_pid_loop_find [of 0 10 "task_vector s"] assms by (simp add: sched_ok_def)
  show "get_new_pid s = (int k, s\<lparr>task_vector := task_vector s OR push_bit k 1\<rparr>)"
    if "k < 10" "k \<notin> used_pids s" "\<And>j. j < k \<Longrightarrow> j \<in> used_pids s"
    using find_least [of k 10 "\<lambda>j. \<not> bit (task_vector s) j"] that
    unfolding get_new_pid_def loop by (simp add: used_pids_def)
  show "get_new_pid s = (- 1, s)" if full: "{..<10} \<subseteq> used_pids s"
  proof -
    have "find (\<lambda>j. \<not> bit (task_vector s) j) [0..<10] = None"
      using full by (auto simp: find_None_iff used_pids_def)
    then show ?thesis unfolding get_new_pid_def loop by simp
  qed
qed

lemma used_pids_new: "k < 32 \<Longrightarrow> used_pids (s\<lparr>task_vector := task_vector s OR push_bit k 1\<rparr>) = insert k (used_pids s)"
  by (simp add: used_pids_def bit_set_insert del: push_bit_of_1)

interpretation pids: id_pool get_new_pid used_pids 10 sched_ok
proof
  fix s :: "'a kernel_scheme" and k
  assume "sched_ok s" "k < 10" "k \<notin> used_pids s" "\<And>j. j < k \<Longrightarrow> j \<in> used_pids s"
  then show "fst (get_new_pid s) = int k \<and> used_pids (snd (get_new_pid s)) = insert k (used_pids s) \<and>
      sched_ok (snd (get_new_pid s))"
    using new_pid_cases(1) [of s k] used_pids_new [of k s] by (auto simp: sched_ok_def used_ptids_def)
qed (rule new_pid_cases(2))

interpretation ptids: id_pool get_new_ptid used_ptids 3 sched_ok
proof
  fix s :: "'a kernel_scheme" and k
  assume ok: "sched_ok s"
  have loop: "new_ptid_loop 0 (unat (max_ptrees s)) (ptree_vector s) = find (\<lambda>j. \<not> bit (ptree_vector s) j) [0..<3]"
    using ok by (simp add: new_ptid_loop_find sched_ok_def)
  show "fst (get_new_ptid s) = int k \<and> used_ptids (snd (get_new_ptid s)) = insert k (used_ptids s) \<and>
      sched_ok (snd (get_new_ptid s))"
    if "k < 3" "k \<notin> used_ptids s" "\<And>j. j < k \<Longrightarrow> j \<in> used_ptids s"
    using find_least [of k 3 "\<lambda>j. \<not> bit (ptree_vector s) j"] that ok
    unfolding get_new_ptid_def loop
    by (simp add: used_ptids_def used_pids_def sched_ok_def bit_set_insert del: push_bit_of_1)
  show "get_new_ptid s = (- 1, s)" if full: "{..<3} \<subseteq> used_ptids s"
  proof -
    have "find (\<lambda>j. \<not> bit (ptree_vector s) j) [0..<3] = None"
      using full by (auto simp: find_None_iff used_ptids_def)
    then show ?thesis unfolding get_new_ptid_def loop by simp
  qed
qed

section \<open>What the parts of creating a task leave alone\<close>

text \<open>Everything but memory, and everything but memory and the task structures.\<close>

definition only_mem :: "'a machine_scheme \<Rightarrow> 'a machine_scheme \<Rightarrow> bool" where
  "only_mem s t = (t\<lparr>mem := mem s\<rparr> = s)"

definition only_tasks :: "'a tasks_scheme \<Rightarrow> 'a tasks_scheme \<Rightarrow> bool" where
  "only_tasks s t = (t\<lparr>mem := mem s, task_store := task_store s\<rparr> = s)"

lemma only_mem_refl [simp, intro]: "only_mem s s" "only_mem s (s\<lparr>mem := m\<rparr>)"
  by (simp_all add: only_mem_def)

lemma only_tasks_refl: "only_tasks s s"
  by (simp add: only_tasks_def)

lemma only_mem_trans:
  assumes "only_mem s t" and "only_mem t u"
  shows "only_mem s u"
proof -
  have "u\<lparr>mem := mem s\<rparr> = (u\<lparr>mem := mem t\<rparr>)\<lparr>mem := mem s\<rparr>" by simp
  then show ?thesis using assms by (simp only: only_mem_def)
qed

lemma only_tasks_trans:
  assumes "only_tasks s t" and "only_tasks t u"
  shows "only_tasks s u"
proof -
  have "u\<lparr>mem := mem s, task_store := task_store s\<rparr> =
      (u\<lparr>mem := mem t, task_store := task_store t\<rparr>)\<lparr>mem := mem s, task_store := task_store s\<rparr>" by simp
  then show ?thesis using assms by (simp only: only_tasks_def)
qed

lemma only_mem_tasks:
  assumes "only_mem s t"
  shows "only_tasks s t"
proof -
  have "task_store t = task_store s"
    using arg_cong [OF assms [unfolded only_mem_def], of task_store] by simp
  then show ?thesis using assms by (simp add: only_tasks_def only_mem_def)
qed

lemma only_mem_eq: "only_mem s t \<Longrightarrow> t = s\<lparr>mem := mem t\<rparr>"
  unfolding only_mem_def by (drule arg_cong [where f = "\<lambda>x. x\<lparr>mem := mem t\<rparr>"]) simp

lemma set_task_only: "set_task a v s = Some t \<Longrightarrow> only_tasks s t"
  by (auto simp: set_task_def only_tasks_def split: if_splits)

lemma fill_page_table_only: "only_mem s (fill_page_table s)"
proof -
  let ?f = "\<lambda>i (addr, s :: 'a paging_scheme).
     (let s = (if i \<noteq> 0 then store32 (dword_at (pt s) (of_nat i)) (addr OR SUPERVISOR_RW_PRESENT) s
               else s) in (addr + SIZE_4KB_PAGE, s))"
  have "only_mem s (snd (fold ?f is (a, s)))" for "is" a and s :: "'a paging_scheme"
  proof (induction "is" arbitrary: a s)
    case Nil
    then show ?case by simp
  next
    case (Cons i js)
    obtain a' s' where f: "?f i (a, s) = (a', s')" by (cases "?f i (a, s)") blast
    have "only_mem s s'" using f by (auto simp: store32_def Let_def)
    moreover have "only_mem s' (snd (fold ?f js (a', s')))" by (rule Cons)
    ultimately have "only_mem s (snd (fold ?f js (a', s')))" by (rule only_mem_trans)
    then show ?case by (simp only: fold_Cons o_apply f)
  qed
  then show ?thesis by (simp add: fill_page_table_def)
qed

lemma init_task_pd_only:
  assumes "init_task_pd task s = Some u"
  shows "only_tasks s u"
proof -
  obtain t where t: "task_at task s = Some t"
    using assms by (auto simp: init_task_pd_def bind_eq_Some_conv)
  define addr where "addr = get_task_addr (u32_of (task_pid t))"
  define x where "x = s\<lparr>pd := addr, pt := addr + 4 * of_nat NUM_PAGES\<rparr>"
  define y where "y = store32 addr (ld32 (mem (store32 addr (pt x AND FIRST_20_BITS) x)) addr OR
    SUPERVISOR_RW_PRESENT) (store32 addr (pt x AND FIRST_20_BITS) x)"
  define z where "z = snd (map_page_directory VIDEO VIRTUAL_VID_MEM 1 1
    (snd (map_page_directory addr EXECUTION_ADDR 1 1 (snd (map_page_directory addr addr 1 1
      (snd (map_page_directory KERNEL_LOCATION KERNEL_LOCATION 1 0 (fill_page_table y))))))))"
  have "only_mem x y" by (simp add: y_def store32_def)
  moreover have "only_mem y (fill_page_table y)" by (rule fill_page_table_only)
  moreover have "only_mem (fill_page_table y) z" by (simp add: z_def map_4mb_memory)
  ultimately have "only_mem x z" by (blast intro: only_mem_trans)
  then have z: "z = x\<lparr>mem := mem z\<rparr>" by (rule only_mem_eq)
  have "set_task task (t\<lparr>page_directory := addr, page_table := addr + 4 * of_nat NUM_PAGES\<rparr>)
      (z\<lparr>pd := pd s, pt := pt s\<rparr>) = Some u"
    using assms unfolding init_task_pd_def t
    by (simp add: Let_def x_def y_def z_def store32_def addr_def)
  then have "only_tasks (z\<lparr>pd := pd s, pt := pt s\<rparr>) u" by (rule set_task_only)
  moreover have "only_tasks s (z\<lparr>pd := pd s, pt := pt s\<rparr>)"
    by (subst z) (simp add: x_def only_tasks_def)
  ultimately show ?thesis by (blast intro: only_tasks_trans)
qed

lemma init_task_only:
  assumes "init_task k s = Some (task, t)"
  shows "only_tasks s t \<and> task = get_task_stack_addr (u32_of k) AND KERNEL_STACK_MASK"
  using assms
  by (auto simp: init_task_def Let_def bind_eq_Some_conv dest!: set_task_only init_task_pd_only
      intro: only_tasks_trans)

lemma read_data_only: "only_mem s (snd (read_data i off buf len s))"
  by (auto simp: read_data_def Let_def split: prod.splits)

lemma load_program_only:
  assumes "load_program h f a s = Some (r, t)"
  shows "only_mem s t"
proof -
  have r: "only_mem s s'" if "read_data i off buf len s = (v, s')" for i off buf len v and s s' :: "'a filesys_scheme"
    using read_data_only [of s i off buf len] that by simp
  show ?thesis
    using assms unfolding load_program_def Let_def
    by (auto simp: bind_eq_Some_conv split: if_splits prod.splits dest!: r intro: only_mem_trans)
qed

lemma load_program_to_task_only:
  "load_program_to_task h task a f xs s = Some (r, t) \<Longrightarrow> only_tasks s t \<and> (r = 0 \<or> r = - 1)"
  by (auto simp: load_program_to_task_def Let_def bind_eq_Some_conv split: if_splits
      dest!: load_program_only only_mem_tasks set_task_only intro: only_tasks_trans)

text \<open>The parts of the state that only the scheduler's own code writes.\<close>

lemma only_tasks_fields:
  assumes "only_tasks s (t :: 'a kernel_scheme)"
  shows "task_vector t = task_vector s" "max_tasks t = max_tasks s" "num_tasks t = num_tasks s"
    "cur_task t = cur_task s" "ptree_tasks t = ptree_tasks s" "ptree_vector t = ptree_vector s"
    "max_ptrees t = max_ptrees s" "num_ptrees t = num_ptrees s" "cur_ptree t = cur_ptree s"
    "eflags t = eflags s" "pd t = pd s" "pt t = pt s" "cr3 t = cr3 s"
    "terminal_list t = terminal_list s" "current_terminal_index t = current_terminal_index s"
proof -
  have e: "f s = f (t\<lparr>mem := mem s, task_store := task_store s\<rparr>)" for f :: "'a kernel_scheme \<Rightarrow> 'b"
    using assms unfolding only_tasks_def by (rule arg_cong [OF sym])
  show "task_vector t = task_vector s" "max_tasks t = max_tasks s" "num_tasks t = num_tasks s"
    "cur_task t = cur_task s" "ptree_tasks t = ptree_tasks s" "ptree_vector t = ptree_vector s"
    "max_ptrees t = max_ptrees s" "num_ptrees t = num_ptrees s" "cur_ptree t = cur_ptree s"
    "eflags t = eflags s" "pd t = pd s" "pt t = pt s" "cr3 t = cr3 s"
    "terminal_list t = terminal_list s" "current_terminal_index t = current_terminal_index s"
    using e [of task_vector] e [of max_tasks] e [of num_tasks] e [of cur_task] e [of ptree_tasks]
      e [of ptree_vector] e [of max_ptrees] e [of num_ptrees] e [of cur_ptree] e [of eflags]
      e [of pd] e [of pt] e [of cr3] e [of terminal_list] e [of current_terminal_index]
    by simp_all
qed

section \<open>Creating and ending tasks\<close>

text \<open>Where initialising a task writes: the page that holds its tables.\<close>

lemma st32_outside:
  assumes "i < 1024"
  shows "same_outside b 4096 m (st32 m (b + 4 * i) v)"
  unfolding same_outside_def
proof (intro allI impI)
  fix x assume x: "4096 \<le> unat (x - b)"
  have "unat i < 1024" using assms by (simp add: word_less_nat_alt)
  then have i: "unat (4 * i) = 4 * unat i" by (simp add: unat_word_ariths)
  have "unat (x - b - 4 * i) = unat (x - b) - 4 * unat i"
    using x i \<open>unat i < 1024\<close> by (simp add: unat_sub_if')
  then have "4 \<le> x - (b + 4 * i)"
    using x \<open>unat i < 1024\<close> by (simp add: word_le_nat_alt diff_diff_add)
  then show "st32 m (b + 4 * i) v x = m x" by (rule st32_byte_other)
qed

lemma same_outside_wider:
  "same_outside b n m m' \<Longrightarrow> n \<le> k \<Longrightarrow> same_outside b k m m'"
  by (auto simp: same_outside_def)

lemma same_outside_shift:
  assumes "same_outside (b + 4096) 4096 m m'"
  shows "same_outside b 8192 m m'"
  unfolding same_outside_def
proof (intro allI impI)
  fix x assume x: "8192 \<le> unat (x - b)"
  have "unat (x - b - 4096) = unat (x - b) - 4096" using x by (simp add: unat_sub_if')
  then have "4096 \<le> unat (x - (b + 4096))" using x by (simp add: diff_diff_add)
  then show "m' x = m x" using assms by (simp add: same_outside_def)
qed

lemma fill_page_table_outside: "same_outside (pt s) 4096 (mem s) (mem (fill_page_table s))"
proof -
  let ?f = "\<lambda>i (addr, s :: 'a paging_scheme).
     (let s = (if i \<noteq> 0 then store32 (dword_at (pt s) (of_nat i)) (addr OR SUPERVISOR_RW_PRESENT) s
               else s) in (addr + SIZE_4KB_PAGE, s))"
  have "same_outside (pt s) 4096 (mem s) (mem (snd (fold ?f js (a, s))))"
    if "set js \<subseteq> {..<1024}" for js a and s :: "'a paging_scheme"
    using that
  proof (induction js arbitrary: a s)
    case Nil
    then show ?case by simp
  next
    case (Cons i js)
    obtain a' s' where f: "?f i (a, s) = (a', s')" by (cases "?f i (a, s)") blast
    have "i < 1024" using Cons.prems by simp
    then have "(of_nat i :: u32) < 1024" by (simp add: word_less_nat_alt unat_of_nat_u32)
    then have one: "same_outside (pt s) 4096 (mem s) (mem s')" and p: "pt s' = pt s"
      using f st32_outside [of "of_nat i" "pt s"] by (auto simp: store32_def Let_def split: if_splits)
    have "same_outside (pt s') 4096 (mem s') (mem (snd (fold ?f js (a', s'))))"
      by (rule Cons.IH) (use Cons.prems in simp)
    from same_outside_trans [OF one this [unfolded p]]
    have "same_outside (pt s) 4096 (mem s) (mem (snd (fold ?f js (a', s'))))" .
    then show ?case by (simp only: fold_Cons o_apply f)
  qed
  then show ?thesis by (simp add: fill_page_table_def NUM_PAGES_def lessThan_atLeast0)
qed

lemma pd_index_lt: "pd_index v < 1024"
  by (simp add: index_bits index_lt)

lemma map_4mb_outside: "same_outside (pd s) 4096 (mem s) (mem (snd (map_page_directory phys virt 1 user s)))"
  by (simp add: map_4mb_memory st32_outside pd_index_lt)

lemma init_task_pd_outside:
  assumes "init_task_pd task s = Some u" and "task_at task s = Some t"
  shows "same_outside (get_task_addr (u32_of (task_pid t))) 8192 (mem s) (mem u)"
proof -
  define addr where "addr = get_task_addr (u32_of (task_pid t))"
  define x where "x = s\<lparr>pd := addr, pt := addr + 4 * of_nat NUM_PAGES\<rparr>"
  define y where "y = store32 addr (ld32 (mem (store32 addr (pt x AND FIRST_20_BITS) x)) addr OR
    SUPERVISOR_RW_PRESENT) (store32 addr (pt x AND FIRST_20_BITS) x)"
  define z where "z = fill_page_table y"
  define z1 where "z1 = snd (map_page_directory KERNEL_LOCATION KERNEL_LOCATION 1 0 z)"
  define z2 where "z2 = snd (map_page_directory addr addr 1 1 z1)"
  define z3 where "z3 = snd (map_page_directory addr EXECUTION_ADDR 1 1 z2)"
  define z4 where "z4 = snd (map_page_directory VIDEO VIRTUAL_VID_MEM 1 1 z3)"
  have "pt y = addr + 4096" by (simp add: y_def store32_def x_def NUM_PAGES_def)
  then have tab: "same_outside addr 8192 (mem y) (mem z)"
    using fill_page_table_outside [of y] same_outside_shift [of addr] by (simp add: z_def)
  have z: "z = y\<lparr>mem := mem z\<rparr>" unfolding z_def by (rule only_mem_eq [OF fill_page_table_only])
  have pdz: "pd z = addr" by (subst z) (simp add: y_def store32_def x_def)
  then have pds: "pd z1 = addr" "pd z2 = addr" "pd z3 = addr"
    by (simp_all add: z1_def z2_def z3_def map_4mb_memory)
  have m: "same_outside addr 8192 (mem v) (mem (snd (map_page_directory phys virt 1 user v)))"
    if "pd v = addr" for v :: "'a tasks_scheme" and phys virt user
    using map_4mb_outside [of v phys virt user] that same_outside_wider [of addr 4096 _ _ 8192] by simp
  have st: "same_outside addr 8192 m' (st32 m' addr v)" for m' v
    using st32_outside [of 0 addr m' v] same_outside_wider [of addr 4096 _ _ 8192] by simp
  have "same_outside addr 8192 (mem s) (mem y)"
    using st by (auto simp: y_def store32_def x_def intro: same_outside_trans)
  moreover note tab
  moreover have "same_outside addr 8192 (mem z) (mem z1)" unfolding z1_def by (rule m [OF pdz])
  moreover have "same_outside addr 8192 (mem z1) (mem z2)" unfolding z2_def by (rule m [OF pds(1)])
  moreover have "same_outside addr 8192 (mem z2) (mem z3)" unfolding z3_def by (rule m [OF pds(2)])
  moreover have "same_outside addr 8192 (mem z3) (mem z4)" unfolding z4_def by (rule m [OF pds(3)])
  ultimately have frame: "same_outside addr 8192 (mem s) (mem z4)" by (blast intro: same_outside_trans)
  have "mem u = mem z4"
    using assms by (simp add: init_task_pd_def Let_def x_def y_def z_def z1_def z2_def z3_def z4_def
        store32_def addr_def set_task_def split: if_splits) auto
  then show ?thesis using frame by (simp add: addr_def)
qed

lemma init_task_outside:
  assumes "init_task k s = Some (task, t)"
  shows "same_outside (get_task_addr (u32_of k)) 8192 (mem s) (mem t)"
proof -
  let ?a = "get_task_stack_addr (u32_of k) AND KERNEL_STACK_MASK"
  obtain w u where "task_at ?a s = Some w"
    and u: "init_task_pd ?a (s\<lparr>task_store := (task_store s)(?a := w\<lparr>task_pid := k\<rparr>)\<rparr>) = Some u" "mem t = mem u"
    using assms by (auto simp: init_task_def Let_def bind_eq_Some_conv set_task_def task_at_def split: if_splits)
  then have "task_at ?a (s\<lparr>task_store := (task_store s)(?a := w\<lparr>task_pid := k\<rparr>)\<rparr>) = Some (w\<lparr>task_pid := k\<rparr>)"
    by (simp add: task_at_def split: if_splits)
  from init_task_pd_outside [OF u(1) this] show ?thesis using u(2) by simp
qed

lemma new_pid_only: "\<exists>v. get_new_pid s = (fst (get_new_pid s), s\<lparr>task_vector := v\<rparr>)"
  by (auto simp: get_new_pid_def split: option.splits intro: exI [of _ "task_vector s"])

text \<open>What a call that has found an identifier keeps of the scheduler's structure.\<close>

definition same_sched :: "'a kernel_scheme \<Rightarrow> 'a kernel_scheme \<Rightarrow> bool" where
  "same_sched s u = (num_tasks u = num_tasks s \<and> cur_task u = cur_task s \<and>
     ptree_tasks u = ptree_tasks s \<and> max_tasks u = max_tasks s \<and> max_ptrees u = max_ptrees s \<and>
     ptree_vector u = ptree_vector s \<and> num_ptrees u = num_ptrees s \<and> cur_ptree u = cur_ptree s)"

lemma create_task_cases:
  assumes "create_task header fname arguments s = Some (r, t)"
  obtains (no_pid) "fst (get_new_pid (cli s)) < 0" "r = - 1" "t = snd (get_new_pid (cli s))"
    | (made) pid u where "pid = fst (get_new_pid (cli s))" "0 \<le> pid" "same_sched s u"
        "task_vector u = task_vector (snd (get_new_pid (cli s)))"
        "r = pid" "t = u\<lparr>num_tasks := num_tasks s + 1, eflags := eflags s\<rparr>"
    | (failed) pid u where "pid = fst (get_new_pid (cli s))" "0 \<le> pid" "pid < 32" "same_sched s u"
        "task_vector u = task_vector (snd (get_new_pid (cli s)))"
        "r = - 1" "t = u\<lparr>task_vector := task_vector u AND NOT (push_bit (nat pid) 1), eflags := eflags s\<rparr>"
proof -
  obtain pid v where pid: "get_new_pid (cli s) = (pid, (cli s)\<lparr>task_vector := v\<rparr>)"
    using new_pid_only by metis
  show thesis
  proof (cases "pid < 0")
    case True
    then show ?thesis using no_pid pid assms
      by (simp add: create_task_def Let_def cli_and_save_def)
  next
    case False
    define s1 where "s1 = snd (map_page_directory (get_task_addr (u32_of pid)) (get_task_addr (u32_of pid)) 1 1
      ((cli s)\<lparr>task_vector := v, pd := cr3 s\<rparr>))"
    have s1: "same_sched s s1" "task_vector s1 = v"
      by (simp_all add: s1_def map_4mb_memory same_sched_def cli_def)
    define adopt where "adopt = (\<lambda>task (s2 :: 'a kernel_scheme).
      (if cur_task s2 \<noteq> - 1 then do {
         p \<leftarrow> task_at (get_task (cur_task s2)) s2;
         t \<leftarrow> task_at task s2;
         set_task task (t\<lparr>parent_task := get_task (cur_task s2), task_ptid := task_ptid p\<rparr>) s2 }
       else Some s2))"
    define finish where "finish = (\<lambda>(q :: int) (s4 :: 'a kernel_scheme).
      (if q = - 1 then do { (_, s5) \<leftarrow> clear_pid pid s4; Some (- 1, s5\<lparr>eflags := eflags s\<rparr>) }
       else Some (pid, s4\<lparr>num_tasks := num_tasks s4 + 1, eflags := eflags s\<rparr>)))"
    have "create_task header fname arguments s = do {
            (task, s2) \<leftarrow> init_task pid s1;
            s3 \<leftarrow> adopt task s2;
            (q, s4) \<leftarrow> load_program_to_task header task (get_task_addr (u32_of pid) + PROGRAM_IMAGE) fname arguments s3;
            finish q s4 }"
      using False pid
      unfolding create_task_def Let_def cli_and_save_def restore_flags_def s1_def cli_def adopt_def finish_def by simp
    with assms obtain task s2 s3 q s4 where run: "init_task pid s1 = Some (task, s2)" "adopt task s2 = Some s3"
      "load_program_to_task header task (get_task_addr (u32_of pid) + PROGRAM_IMAGE) fname arguments s3 = Some (q, s4)"
      "finish q s4 = Some (r, t)"
      by (auto simp: bind_eq_Some_conv)
    have "only_tasks s2 s3"
      using run(2) unfolding adopt_def
      by (auto simp: bind_eq_Some_conv only_tasks_refl dest: set_task_only split: if_splits)
    then have "only_tasks s1 s4"
      using init_task_only [OF run(1)] load_program_to_task_only [OF run(3)]
      by (blast intro: only_tasks_trans)
    note f = only_tasks_fields [OF this]
    have u: "same_sched s s4" "task_vector s4 = task_vector (snd (get_new_pid (cli s)))"
      using s1 f pid by (simp_all add: same_sched_def)
    have n: "num_tasks s4 = num_tasks s" using u(1) by (simp add: same_sched_def)
    show ?thesis
    proof (cases "q = - 1")
      case True
      then show ?thesis using failed [of pid s4] run(4) [unfolded finish_def] u False pid
        by (auto simp: clear_pid_def split: if_splits)
    next
      case False2: False
      then show ?thesis using made [of pid s4] run(4) [unfolded finish_def] u False pid n by simp
    qed
  qed
qed


text \<open>A call with arrays of the callers' lengths never faults.\<close>

lemma read_dentry_by_name_total:
  assumes "FILENAME_LEN \<le> length fname"
  shows "\<exists>r d. read_dentry_by_name fname blank_dentry s = Some (r, d)"
proof -
  have "0 < length fname" "fname \<noteq> []" using assms by (auto simp: FILENAME_LEN_def)
  then show ?thesis
    using assms
    by (auto simp: read_dentry_by_name_def rd_in find_dentry_eq blank_dentry_def wr_def FILENAME_LEN_def
        split: option.splits)
qed

lemma load_program_total:
  assumes "FILENAME_LEN \<le> length fname"
  shows "\<exists>r t. load_program header fname addr s = Some (r, t)"
  using read_dentry_by_name_total [OF assms, of s]
  by (auto simp: load_program_def Let_def split: prod.splits)

lemma load_program_to_task_total:
  assumes "length fname = 32" and "length arguments = 128" and "task \<noteq> 0"
    and "\<And>u. only_mem s u \<Longrightarrow> task_arrays_ok (task_store u task)"
  shows "\<exists>r t. load_program_to_task header task addr fname arguments s = Some (r, t) \<and>
    (r = - 1 \<or> (\<exists>seg. task_store t = (task_store s)(task := (task_store s task)
       \<lparr>task_tss := seg, task_args := arguments, p_name := fname[31 := 0]\<rparr>)))"
proof -
  obtain e u where l: "load_program header fname addr s = Some (e, u)"
    using load_program_total [of fname header addr s] assms(1) by (auto simp: FILENAME_LEN_def)
  have m: "only_mem s u" using load_program_only [OF l] .
  have st: "task_store u = task_store s"
    using arg_cong [OF m [unfolded only_mem_def], of task_store] by simp
  note a = assms(4) [OF m, unfolded task_arrays_ok_def]
  have xs: "for_range 0 128 (\<lambda>i xs. do { c \<leftarrow> rd arguments i; wr xs i c }) (task_args (task_store u task)) = Some arguments"
    using copy_loop [of 128 arguments "task_args (task_store u task)"] assms(2) a by simp
  have name: "for_range 0 32 (\<lambda>i name. do { c \<leftarrow> rd fname i; wr name i c }) (p_name (task_store u task)) = Some fname"
    using copy_loop [of 32 fname "p_name (task_store u task)"] assms(1) a by simp
  have w: "wr fname 31 0 = Some (fname[31 := 0])" using assms(1) by (simp add: wr_def)
  show ?thesis
    using l xs name w assms(3) st
    by (auto simp: load_program_to_task_def task_at_def set_task_def Let_def)
qed

text \<open>The arrays of every task structure have the lengths of their declarations.\<close>

definition stores_ok :: "'a tasks_scheme \<Rightarrow> bool" where
  "stores_ok s = (\<forall>k. task_pid_ok k \<longrightarrow> task_arrays_ok (task_store s (get_task k)))"

definition linked :: "'a kernel_scheme \<Rightarrow> task_t \<Rightarrow> bool" where
  "linked s t = (if cur_task s = - 1 then parent_task t = 0
     else parent_task t = get_task (cur_task s) \<and>
       task_ptid t = task_ptid (task_store s (get_task (cur_task s))))"

text \<open>What \<^verbatim>\<open>create_task\<close> has done when it calls \<^verbatim>\<open>load_program_to_task\<close>.\<close>

definition prepared :: "int \<Rightarrow> 'a kernel_scheme \<Rightarrow> 'a kernel_scheme \<Rightarrow> task_t \<Rightarrow> bool" where
  "prepared pid s u c = (task_store u = (task_store s)(get_task pid := c) \<and> file_sys u = file_sys s \<and>
     task_arrays_ok c \<and> task_pid c = pid \<and> linked s c \<and> task_args c = replicate 128 0 \<and>
     page_directory c = get_task_addr (u32_of pid) \<and> tss_cs (task_tss c) = USER_CS \<and>
     tss_ss (task_tss c) = USER_DS \<and> tss_esp (task_tss c) = 0x83FFFFC \<and> tss_eflags (task_tss c) = 0x200 \<and>
     task_tables (mem u) (get_task_addr (u32_of pid)) \<and>
     (\<exists>m. same_outside (cr3 s) 4096 (mem s) m \<and> same_outside (get_task_addr (u32_of pid)) 8192 m (mem u)))"

lemma create_task_prepare:
  assumes pid: "get_new_pid (cli s) = (pid, s0)" and ok: "task_pid_ok pid" and arr: "stores_ok s"
    and cur: "cur_task s = - 1 \<or> task_pid_ok (cur_task s) \<and> cur_task s \<noteq> pid"
  shows "\<exists>u c. prepared pid s u c \<and> create_task header fname arguments s = do {
    (r, v) \<leftarrow> load_program_to_task header (get_task pid) (get_task_addr (u32_of pid) + PROGRAM_IMAGE) fname arguments u;
    (if r = - 1 then Some (- 1, snd (the (clear_pid pid v))\<lparr>eflags := eflags s\<rparr>)
     else Some (pid, v\<lparr>num_tasks := num_tasks v + 1, eflags := eflags s\<rparr>)) }"
proof -
  note l = task_layout [OF ok]
  obtain v where s0: "s0 = (cli s)\<lparr>task_vector := v\<rparr>" using new_pid_only [of "cli s"] pid by auto
  define s1 where "s1 = snd (map_page_directory (get_task_addr (u32_of pid)) (get_task_addr (u32_of pid)) 1 1
    (s0\<lparr>pd := cr3 s0\<rparr>))"
  have s1: "task_store s1 = task_store s" "cur_task s1 = cur_task s" "file_sys s1 = file_sys s"
    by (simp_all add: s1_def s0 map_4mb_memory cli_def)
  have m1: "same_outside (cr3 s) 4096 (mem s) (mem s1)"
    using map_4mb_outside [of "s0\<lparr>pd := cr3 s0\<rparr>"] by (simp add: s1_def s0 cli_def)
  have "task_arrays_ok (task_store s1 (get_task pid))" using arr ok s1(1) by (simp add: stores_ok_def)
  from init_task_result [OF ok this] obtain m t where i: "init_task pid s1 =
      Some (get_task pid, s1\<lparr>mem := m, task_store := (task_store s1)(get_task pid := t)\<rparr>)"
    "task_tables m (get_task_addr (u32_of pid))" "task_arrays_ok t" "task_pid t = pid" "parent_task t = 0"
    "page_directory t = get_task_addr (u32_of pid)" "task_args t = replicate 128 0"
    "tss_cs (task_tss t) = USER_CS" "tss_ss (task_tss t) = USER_DS" "tss_esp (task_tss t) = 0x83FFFFC" "tss_eflags (task_tss t) = 0x200"
    by force
  define c where "c = (if cur_task s = - 1 then t else t\<lparr>parent_task := get_task (cur_task s),
    task_ptid := task_ptid (task_store s (get_task (cur_task s)))\<rparr>)"
  let ?s3 = "s1\<lparr>mem := m, task_store := (task_store s1)(get_task pid := c)\<rparr>"
  have "same_outside (get_task_addr (u32_of pid)) 8192 (mem s1) m" using init_task_outside [OF i(1)] by simp
  then have prep: "prepared pid s ?s3 c"
    using i m1 s1 by (auto simp: prepared_def c_def linked_def task_arrays_ok_def)
  have p: "0 \<le> pid" using ok by (simp add: task_pid_ok_def)
  have other: "get_task (cur_task s) \<noteq> get_task pid \<and> get_task (cur_task s) \<noteq> 0" if "cur_task s \<noteq> - 1"
    using cur that get_task_inj [OF _ ok] task_layout(5) by blast
  have clear: "clear_pid pid w = Some (0, snd (the (clear_pid pid w)))" for w :: "'a kernel_scheme"
    using ok by (simp add: clear_pid_def task_pid_ok_def)
  have "create_task header fname arguments s = do {
    (r, v) \<leftarrow> load_program_to_task header (get_task pid) (get_task_addr (u32_of pid) + PROGRAM_IMAGE) fname arguments ?s3;
    (if r = - 1 then do { (_, w) \<leftarrow> clear_pid pid v; Some (- 1, w\<lparr>eflags := eflags s\<rparr>) }
     else Some (pid, v\<lparr>num_tasks := num_tasks v + 1, eflags := eflags s\<rparr>)) }"
    using p pid i(1) l(5) other s1
    by (simp add: create_task_def Let_def cli_and_save_def s1_def [symmetric] task_at_def set_task_def
        c_def restore_flags_def if_distrib [of Some] cong: if_cong)
  also have "\<dots> = do {
    (r, v) \<leftarrow> load_program_to_task header (get_task pid) (get_task_addr (u32_of pid) + PROGRAM_IMAGE) fname arguments ?s3;
    (if r = - 1 then Some (- 1, snd (the (clear_pid pid v))\<lparr>eflags := eflags s\<rparr>)
     else Some (pid, v\<lparr>num_tasks := num_tasks v + 1, eflags := eflags s\<rparr>)) }"
    by (subst clear) (simp cong: if_cong)
  finally show ?thesis using prep by blast
qed

lemma create_task_run:
  assumes pid: "get_new_pid (cli s) = (pid, s0)" and ok: "task_pid_ok pid"
    and len: "length fname = 32" "length arguments = 128" and arr: "stores_ok s"
    and cur: "cur_task s = - 1 \<or> task_pid_ok (cur_task s) \<and> cur_task s \<noteq> pid"
  shows "\<exists>r t. create_task header fname arguments s = Some (r, t) \<and> (r = - 1 \<or> r = pid \<and>
    (\<exists>c. task_store t = (task_store s)(get_task pid := c) \<and> task_pid c = pid \<and> linked s c \<and>
       task_args c = arguments \<and> task_arrays_ok c \<and> page_directory c = get_task_addr (u32_of pid)))"
proof -
  from create_task_prepare [OF pid ok arr cur] obtain u c where prep: "prepared pid s u c"
    and run: "create_task header fname arguments s = do {
    (r, v) \<leftarrow> load_program_to_task header (get_task pid) (get_task_addr (u32_of pid) + PROGRAM_IMAGE) fname arguments u;
    (if r = - 1 then Some (- 1, snd (the (clear_pid pid v))\<lparr>eflags := eflags s\<rparr>)
     else Some (pid, v\<lparr>num_tasks := num_tasks v + 1, eflags := eflags s\<rparr>)) }" by blast
  have c: "task_store u = (task_store s)(get_task pid := c)" "task_arrays_ok c" "task_pid c = pid" "linked s c"
    "page_directory c = get_task_addr (u32_of pid)"
    using prep by (simp_all add: prepared_def)
  have "task_arrays_ok (task_store w (get_task pid))" if "only_mem u w" for w
    using arg_cong [OF that [unfolded only_mem_def], of task_store] c(1,2) by simp
  from load_program_to_task_total [OF len task_layout(5) [OF ok] this] obtain r v where
    r: "load_program_to_task header (get_task pid) (get_task_addr (u32_of pid) + PROGRAM_IMAGE) fname arguments u = Some (r, v)"
      "r = - 1 \<or> (\<exists>seg. task_store v = (task_store u)(get_task pid := (task_store u (get_task pid))
        \<lparr>task_tss := seg, task_args := arguments, p_name := fname[31 := 0]\<rparr>))"
    by blast
  show ?thesis
  proof (cases "r = - 1")
    case True
    then show ?thesis using run r(1) by simp
  next
    case False
    then obtain seg where seg: "task_store v = (task_store s)(get_task pid :=
        c\<lparr>task_tss := seg, task_args := arguments, p_name := fname[31 := 0]\<rparr>)" using r(2) c(1) by auto
    let ?c = "c\<lparr>task_tss := seg, task_args := arguments, p_name := fname[31 := 0]\<rparr>"
    have "task_pid ?c = pid \<and> linked s ?c \<and> task_args ?c = arguments \<and> task_arrays_ok ?c \<and>
        page_directory ?c = get_task_addr (u32_of pid)"
      using c len by (simp add: linked_def task_arrays_ok_def)
    moreover have "task_store (v\<lparr>num_tasks := num_tasks v + 1, eflags := eflags s\<rparr>) =
        (task_store s)(get_task pid := ?c)" using seg by simp
    moreover have "create_task header fname arguments s = Some (pid, v\<lparr>num_tasks := num_tasks v + 1, eflags := eflags s\<rparr>)"
      using run r(1) False by simp
    ultimately show ?thesis by blast
  qed
qed

text \<open>Counting identifiers.\<close>

lemma used_pids_clear:
  "used_pids (s\<lparr>task_vector := v AND NOT (push_bit k 1)\<rparr>) = {i. bit v i} - {k}"
  by (simp add: used_pids_def bit_set_insert(3) del: push_bit_of_1)

lemma used_pids_finite [simp]: "finite (used_pids s)"
  unfolding used_pids_def by (rule finite_subset [of _ "{..<32}"]) (auto dest: u32_bit_lt)

lemma least_free:
  assumes "\<not> {..<n} \<subseteq> (A :: nat set)"
  shows "(LEAST i. i \<notin> A) < n" "(LEAST i. i \<notin> A) \<notin> A" "\<And>j. j < (LEAST i. i \<notin> A) \<Longrightarrow> j \<in> A"
proof -
  obtain i where i: "i < n" "i \<notin> A" using assms by auto
  show "(LEAST i. i \<notin> A) \<notin> A" using i(2) by (rule LeastI)
  have "(LEAST i. i \<notin> A) \<le> i" using i(2) by (rule Least_le)
  then show "(LEAST i. i \<notin> A) < n" using i(1) by simp
  show "j \<in> A" if "j < (LEAST i. i \<notin> A)" for j using not_less_Least [OF that] by simp
qed

lemma cli_sched [simp]: "used_pids (cli s) = used_pids s" "sched_ok (cli s) = sched_ok s"
  by (simp_all add: used_pids_def used_ptids_def sched_ok_def cli_def)

lemma sched_ok_same:
  assumes "same_sched s u" and "sched_ok s" and "used_pids t \<subseteq> {..<10}"
    and "ptree_vector t = ptree_vector u" "max_tasks t = max_tasks u" "max_ptrees t = max_ptrees u"
      "ptree_tasks t = ptree_tasks u"
  shows "sched_ok t"
  using assms by (simp add: sched_ok_def same_sched_def used_ptids_def)

section \<open>Properties of the process ids\<close>

definition sched_init :: "'a kernel_scheme \<Rightarrow> 'a kernel_scheme" where
  "sched_init s = s\<lparr>task_vector := 0, max_tasks := 10, num_tasks := 0, cur_task := - 1,
     ptree_tasks := replicate 32 (- 1), ptree_vector := 0, max_ptrees := 3, num_ptrees := 0, cur_ptree := - 1\<rparr>"

definition kernel_demo :: kernel where
  "kernel_demo = sched_init (tasks.extend tasks_demo (kernel.fields 0 0 0 0 [] 0 0 0 0 [] 0))"

lemma sched_init_ok: "sched_ok (sched_init s)" "tasks_counted (sched_init s)" "used_pids (sched_init s) = {}"
    "used_ptids (sched_init s) = {}" "cur_task (sched_init s) = - 1"
  by (simp_all add: sched_init_def sched_ok_def tasks_counted_def used_pids_def used_ptids_def)

lemma stores_ok_demo: "stores_ok kernel_demo"
proof -
  have "task_store kernel_demo = task_store tasks_demo"
    by (simp add: kernel_demo_def sched_init_def tasks.defs)
  then show ?thesis by (simp add: stores_ok_def task_arrays_ok_def task_demo_task_def)
qed

text \<open>From the scheduler's initial structure, successive requests for a process id give 0 to 9
  in this order, and the ones after that are refused.\<close>

theorem pids_in_order:
  "(\<forall>k < 10. fst (get_new_pid (((\<lambda>s. snd (get_new_pid s)) ^^ k) (sched_init s))) = int k) \<and>
   get_new_pid (((\<lambda>s. snd (get_new_pid s)) ^^ 10) (sched_init s)) =
     (- 1, ((\<lambda>s. snd (get_new_pid s)) ^^ 10) (sched_init s))"
proof -
  let ?f = "\<lambda>s :: 'a kernel_scheme. snd (get_new_pid s)"
  have m: "used_pids ((?f ^^ 10) (sched_init s)) = {..<10} \<and> sched_ok ((?f ^^ 10) (sched_init s)) \<and>
      (\<forall>k < 10. fst (get_new_pid ((?f ^^ k) (sched_init s))) = int k)"
    by (rule pids.alloc_many [OF sched_init_ok(1,3)]) simp
  then show ?thesis using new_pid_cases(2) [of "(?f ^^ 10) (sched_init s)"] by blast
qed

theorem pids_in_order_witness:
  "fst (get_new_pid (((\<lambda>s. snd (get_new_pid s)) ^^ 7) kernel_demo)) = 7"
proof -
  have "\<forall>k < 10. fst (get_new_pid (((\<lambda>s. snd (get_new_pid s)) ^^ k) kernel_demo)) = int k"
    unfolding kernel_demo_def by (rule conjunct1 [OF pids_in_order])
  then have "(7 :: nat) < 10 \<longrightarrow> fst (get_new_pid (((\<lambda>s. snd (get_new_pid s)) ^^ 7) kernel_demo)) = int 7"
    by (rule spec)
  then show ?thesis by (simp del: funpow.simps)
qed

lemma create_task_keeps:
  assumes run: "create_task header fname arguments s = Some (r, t)"
    and ok: "sched_ok s" and counted: "tasks_counted s"
  shows "sched_ok t \<and> tasks_counted t \<and>
    (if {..<10} \<subseteq> used_pids s then r = - 1 \<and> used_pids t = used_pids s \<and> \<not> interrupts_on t
     else eflags t = eflags s \<and>
       (r = - 1 \<and> used_pids t = used_pids s \<or>
        r = int (LEAST i. i \<notin> used_pids s) \<and> used_pids t = insert (nat r) (used_pids s)))"
proof (cases "{..<10} \<subseteq> used_pids s")
  case True
  then have full: "get_new_pid (cli s) = (- 1, cli s)" using ok new_pid_cases(2) [of "cli s"] by simp
  from run have "r = - 1 \<and> t = cli s"
    by (rule create_task_cases) (use full in simp_all)
  then show ?thesis using True ok counted
    by (simp add: interrupts_off_cli) (simp add: tasks_counted_def cli_def used_pids_def)
next
  case False
  define k where "k = (LEAST i. i \<notin> used_pids s)"
  note k = least_free [OF False, folded k_def]
  have new: "get_new_pid (cli s) = (int k, (cli s)\<lparr>task_vector := task_vector (cli s) OR push_bit k 1\<rparr>)"
    by (rule new_pid_cases(1)) (use ok k in simp_all)
  have vec: "{i. bit (task_vector s OR push_bit k 1) i} = insert k (used_pids s)"
    using bit_set_insert(1) [of k "task_vector s"] k(1) by (simp add: used_pids_def del: push_bit_of_1)
  have small: "used_pids s \<subseteq> {..<10}" using ok by (simp add: sched_ok_def)
  from run show ?thesis
  proof (rule create_task_cases)
    assume "fst (get_new_pid (cli s)) < 0"
    then show ?thesis using new by simp
  next
    fix pid u
    assume a: "pid = fst (get_new_pid (cli s))" "same_sched s u"
      "task_vector u = task_vector (snd (get_new_pid (cli s)))" "r = pid"
      "t = u\<lparr>num_tasks := num_tasks s + 1, eflags := eflags s\<rparr>"
    have used: "used_pids t = insert k (used_pids s)"
      using a new vec by (simp add: used_pids_def cli_def)
    have "card (used_pids t) = Suc (card (used_pids s))" using k(2) by (simp add: used)
    then have "tasks_counted t" using a counted by (simp add: tasks_counted_def)
    moreover have "sched_ok t" by (rule sched_ok_same [OF a(2) ok]) (use a used small k(1) in auto)
    ultimately show ?thesis using False a new used by (simp add: k_def)
  next
    fix pid u
    assume a: "pid = fst (get_new_pid (cli s))" "same_sched s u"
      "task_vector u = task_vector (snd (get_new_pid (cli s)))" "r = - 1"
      "t = u\<lparr>task_vector := task_vector u AND NOT (push_bit (nat pid) 1), eflags := eflags s\<rparr>"
    have "used_pids t = insert k (used_pids s) - {k}"
      using a new vec bit_set_insert(3) [of "task_vector u" k]
      by (simp add: used_pids_def cli_def del: push_bit_of_1)
    then have used: "used_pids t = used_pids s" using k(2) by simp
    then have "tasks_counted t" using a counted by (simp add: tasks_counted_def same_sched_def)
    moreover have "sched_ok t" by (rule sched_ok_same [OF a(2) ok]) (use a used small in auto)
    ultimately show ?thesis using False a used by simp
  qed
qed

text \<open>The conditions under which the kernel calls \<^verbatim>\<open>create_task\<close>.\<close>

definition may_create :: "u8 list \<Rightarrow> u8 list \<Rightarrow> 'a kernel_scheme \<Rightarrow> bool" where
  "may_create fname arguments s = (sched_ok s \<and> stores_ok s \<and> length fname = 32 \<and> length arguments = 128 \<and>
     (cur_task s = - 1 \<or> task_pid_ok (cur_task s) \<and> nat (cur_task s) \<in> used_pids s))"

lemma create_task_full:
  assumes "sched_ok s" and "{..<10} \<subseteq> used_pids s"
  shows "create_task header fname arguments s = Some (- 1, cli s)"
  using new_pid_cases(2) [of "cli s"] assms by (simp add: create_task_def Let_def cli_and_save_def)

lemma create_task_free:
  assumes may: "may_create fname arguments s" and free: "\<not> {..<10} \<subseteq> used_pids s"
  shows "\<exists>r t. create_task header fname arguments s = Some (r, t) \<and>
    (r = - 1 \<or> r = int (LEAST i. i \<notin> used_pids s) \<and>
    (\<exists>c. task_store t = (task_store s)(get_task r := c) \<and> task_pid c = r \<and> linked s c \<and>
       task_args c = arguments \<and> task_arrays_ok c \<and> page_directory c = get_task_addr (u32_of r)))"
proof -
  define k where "k = (LEAST i. i \<notin> used_pids s)"
  note k = least_free [OF free, folded k_def]
  have "get_new_pid (cli s) = (int k, (cli s)\<lparr>task_vector := task_vector (cli s) OR push_bit k 1\<rparr>)"
    by (rule new_pid_cases(1)) (use may k in \<open>simp_all add: may_create_def\<close>)
  moreover have "task_pid_ok (int k)" using k(1) by (simp add: task_pid_ok_def)
  moreover have "cur_task s = - 1 \<or> task_pid_ok (cur_task s) \<and> cur_task s \<noteq> int k"
    using may k(2) by (auto simp: may_create_def)
  moreover have "length fname = 32" "length arguments = 128" "stores_ok s" using may by (simp_all add: may_create_def)
  ultimately obtain r t where r: "create_task header fname arguments s = Some (r, t)"
    "r = - 1 \<or> r = int k \<and>
    (\<exists>c. task_store t = (task_store s)(get_task (int k) := c) \<and> task_pid c = int k \<and> linked s c \<and>
       task_args c = arguments \<and> task_arrays_ok c \<and> page_directory c = get_task_addr (u32_of (int k)))"
    using create_task_run [of s "int k" _ fname arguments header] by blast
  from r(2) show ?thesis unfolding k_def [symmetric] by (intro exI [of _ r] exI [of _ t] conjI r(1)) auto
qed

text \<open>C24. Creating a task never faults and keeps the scheduler's structure: the count of tasks is the
  number of process ids in use before and after. With a free id, the id taken is the least free one
  if the program loads; if it does not, the id goes back to the pool and nothing is counted; either
  way the interrupt flag is what it was. With a full pool it fails and changes nothing but the interrupt
  flag, which it leaves off.\<close>

theorem create_task_keeps_pool:
  assumes "may_create fname arguments s" and "tasks_counted s"
  shows "\<exists>r t. create_task header fname arguments s = Some (r, t) \<and> sched_ok t \<and> tasks_counted t \<and>
    (if {..<10} \<subseteq> used_pids s then r = - 1 \<and> t = s\<lparr>eflags := eflags t\<rparr> \<and> \<not> interrupts_on t
     else eflags t = eflags s \<and>
      (r = - 1 \<and> used_pids t = used_pids s \<or>
       r = int (LEAST i. i \<notin> used_pids s) \<and> used_pids t = insert (nat r) (used_pids s)))"
proof (cases "{..<10} \<subseteq> used_pids s")
  case True
  have ok: "sched_ok s" using assms(1) by (simp add: may_create_def)
  from create_task_full [OF ok True] have run: "create_task header fname arguments s = Some (- 1, cli s)" .
  from create_task_keeps [OF run ok assms(2)] True show ?thesis
    by (intro exI [of _ "- 1"] exI [of _ "cli s"]) (simp add: run, simp add: cli_def)
next
  case False
  obtain r t where run: "create_task header fname arguments s = Some (r, t)"
    using create_task_free [OF assms(1) False] by blast
  from create_task_keeps [OF run _ assms(2)] assms(1) False show ?thesis
    by (intro exI [of _ r] exI [of _ t]) (simp add: run may_create_def)
qed

lemma kernel_demo_may:
  "may_create ls_name (replicate 128 0) kernel_demo" "tasks_counted kernel_demo" "\<not> {..<10} \<subseteq> used_pids kernel_demo"
  using stores_ok_demo
  by (simp_all add: may_create_def kernel_demo_def sched_init_ok ls_name_def lessThan_empty_iff)

theorem create_task_keeps_pool_witness:
  "\<exists>r t. create_task 0x100 ls_name (replicate 128 0) kernel_demo = Some (r, t) \<and> (r = - 1 \<or> r = 0) \<and>
     tasks_counted t"
  using create_task_keeps_pool [OF kernel_demo_may(1,2), of "0x100"] kernel_demo_may(3) LeastI [of "\<lambda>i. i \<notin> used_pids kernel_demo" 0]
    Least_equality [of "\<lambda>i. i \<notin> used_pids kernel_demo" 0]
  by (auto simp: kernel_demo_def sched_init_ok)

text \<open>Memory above the file-system image, and the tables of a task seen through its bytes.\<close>

lemma clear_above:
  assumes "unat fs + image_size m fs \<le> unat buf" and "unat buf + n \<le> 4294967296"
  shows "clear_of_image m fs buf n"
  unfolding clear_of_image_def
proof (intro conjI allI impI)
  show "n \<le> 2 ^ 32" using assms(2) by simp
  fix i assume i: "i < n"
  have "buf + of_nat i = of_nat (unat buf + i)" by simp
  then have u: "unat (buf + of_nat i) = unat buf + i"
    using assms(2) i by (simp only: unat_of_nat_u32)
  then have "unat (buf + of_nat i - fs) = unat buf + i - unat fs"
    using assms by (simp add: unat_sub_if')
  then show "image_size m fs \<le> unat (buf + of_nat i - fs)" using assms(1) by simp
qed

lemma task_tables_same:
  assumes t: "task_tables m addr" and same: "\<And>i. i < 8192 \<Longrightarrow> m' (addr + of_nat i) = m (addr + of_nat i)"
  shows "task_tables m' addr"
proof -
  have d: "ld32 m' (addr + of_nat k) = ld32 m (addr + of_nat k)" if "k + 3 < 8192" for k
    using same [of k] same [of "k + 1"] same [of "k + 2"] same [of "k + 3"] that
    by (simp add: ld32_def algebra_simps)
  have e: "ld32 m' (addr + 4 * i) = ld32 m (addr + 4 * i)"
    "ld32 m' (addr + 4096 + 4 * i) = ld32 m (addr + 4096 + 4 * i)" if "i < 1024" for i
  proof -
    have "unat i < 1024" using that by (simp add: word_less_nat_alt)
    then show "ld32 m' (addr + 4 * i) = ld32 m (addr + 4 * i)"
      "ld32 m' (addr + 4096 + 4 * i) = ld32 m (addr + 4096 + 4 * i)"
      using d [of "4 * unat i"] d [of "4096 + 4 * unat i"] by (simp_all add: add.assoc)
  qed
  have lit: "(64 :: u32) < 1024" "(32 :: u32) < 1024" "(1 :: u32) < 1024" by simp_all
  show ?thesis
    using t d [of 0] e(1) [OF lit(1)] e(1) [OF lit(2)] e(1) [OF lit(3)] e(1) [OF pd_index_lt, of addr] e(2)
    by (simp add: task_tables_def)
qed

lemma task_addr_range:
  assumes "task_pid_ok k"
  shows "0x800000 \<le> unat (get_task_addr (u32_of k))" "unat (get_task_addr (u32_of k)) \<le> 0x2C00000"
  using pid_cases [OF assms] by (auto simp: task_layout(1) [OF assms])

lemma offset_above:
  fixes a b :: u32
  assumes "unat a + i < 4294967296" and "unat b \<le> unat a + i"
  shows "unat (a + of_nat i - b) = unat a + i - unat b"
proof -
  have "a + of_nat i = of_nat (unat a + i)" by simp
  then have "unat (a + of_nat i) = unat a + i" using assms(1) by (simp only: unat_of_nat_u32)
  then show ?thesis using assms(2) by (simp add: unat_sub_if')
qed

lemma or_plus:
  fixes a b :: u32
  assumes "a AND b = 0"
  shows "a OR b = a + b"
  using assms by (rule disjunctive_add_eq_or [symmetric])

lemma program_offset:
  assumes "i < 0x3B8000"
  shows "(a AND FIRST_10_BITS) AND (0x48000 + of_nat i) = 0"
proof -
  have "(0x48000 + of_nat i :: u32) = of_nat (0x48000 + i)" by simp
  also have "\<dots> = take_bit 22 (of_nat (0x48000 + i))"
    by (rule sym, rule word_unat_eq_iff [THEN iffD2])
      (use assms in \<open>simp add: unat_of_nat_u32 take_bit_eq_mod unat_mod del: of_nat_add\<close>)
  finally have "(0x48000 + of_nat i :: u32) = take_bit 22 (of_nat (0x48000 + i))" .
  then show ?thesis
    by (simp add: first_bits) (auto simp: bit_eq_iff bit_simps)
qed

lemma program_page:
  assumes "i < 0x3B8000"
  shows "drop_bit 22 (0x8048000 + of_nat i :: u32) = 32" "(0x8048000 + of_nat i :: u32) AND 0x3FFFFF = 0x48000 + of_nat i"
proof -
  have e: "(0x8048000 + of_nat i :: u32) = of_nat (0x8048000 + i)" "(0x48000 + of_nat i :: u32) = of_nat (0x48000 + i)" by simp_all
  have "(0x8048000 + i) div 4194304 = 32" "(0x8048000 + i) mod 4194304 = 0x48000 + i"
    using assms by (simp_all add: div_nat_eqI mod_nat_eqI)
  then show "drop_bit 22 (0x8048000 + of_nat i :: u32) = 32" "(0x8048000 + of_nat i :: u32) AND 0x3FFFFF = 0x48000 + of_nat i"
    using assms unfolding e
    by (simp_all add: word_unat_eq_iff drop_bit_eq_div unat_div mask_bits(1) take_bit_eq_mod unat_mod
        unat_of_nat_u32 del: of_nat_add flip: take_bit_eq_mask)
qed

text \<open>The program image, the directory of the caller and the local header of \<^verbatim>\<open>load_program\<close> lie in
  the kernel's memory below 8 MB, apart from the file system; the program fits below its stack page.\<close>

definition loadable :: "u32 \<Rightarrow> u8 list \<Rightarrow> u32 \<Rightarrow> 'a kernel_scheme \<Rightarrow> bool" where
  "loadable header fname ino s = (program_file (mem s) (file_sys s) fname ino \<and>
     unat (file_sys s) + image_size (mem s) (file_sys s) \<le> 0x800000 \<and> unat header + 4 \<le> 0x800000 \<and>
     clear_of_image (mem s) (file_sys s) header 4 \<and> clear_of_image (mem s) (file_sys s) (cr3 s) 4096 \<and>
     file_room (mem s) (file_sys s) ino \<le> 0x3B8000 \<and> file_dword (mem s) (file_sys s) ino 24 \<noteq> 0xFFFFFFFF)"

lemma load_prepared:
  assumes prep: "prepared pid s u c" and ok: "task_pid_ok pid" and load: "loadable header fname ino s"
    and len: "length arguments = 128"
  defines "addr \<equiv> get_task_addr (u32_of pid)" and "m \<equiv> mem s" and "fs \<equiv> file_sys s"
  shows "\<exists>v. load_program_to_task header (get_task pid) (addr + PROGRAM_IMAGE) fname arguments u = Some (0, v) \<and>
    task_store v (get_task pid) = c\<lparr>task_tss := (task_tss c)\<lparr>tss_eip := file_dword m fs ino 24\<rparr>,
      task_args := arguments, p_name := fname[31 := 0]\<rparr> \<and>
    task_tables (mem v) addr \<and>
    (\<forall>i < file_room m fs ino. mem v (addr + PROGRAM_IMAGE + of_nat i) = file_byte m fs ino i)"
proof -
  note r = task_addr_range [OF ok, folded addr_def]
  have p: "program_file m fs fname ino" "unat fs + image_size m fs \<le> 0x800000" "unat header + 4 \<le> 0x800000"
    "clear_of_image m fs header 4" "clear_of_image m fs (cr3 s) 4096" "file_room m fs ino \<le> 0x3B8000"
    "file_dword m fs ino 24 \<noteq> 0xFFFFFFFF"
    using load by (simp_all add: loadable_def m_def fs_def)
  have u: "task_store u = (task_store s)(get_task pid := c)" "file_sys u = fs" "task_arrays_ok c"
    "task_tables (mem u) addr"
    using prep by (simp_all add: prepared_def fs_def addr_def)
  have same: "same_image m (mem u) fs"
  proof -
    obtain m1 where m1: "same_outside (cr3 s) 4096 m m1" "same_outside addr 8192 m1 (mem u)"
      using prep unfolding prepared_def m_def addr_def by blast
    have s1: "same_image m m1 fs" by (rule same_outside_image [OF p(5) m1(1)])
    have "clear_of_image m1 fs addr 8192"
      by (rule clear_above) (use r p(2) same_image_header(4) [OF s1] in simp_all)
    from same_image_trans [OF s1 same_outside_image [OF this m1(2)]] show ?thesis .
  qed
  note f = program_file_same [OF same p(1)] and h = same_image_header(4) [OF same]
  have a: "unat (addr + PROGRAM_IMAGE) = unat addr + 0x48000"
    using offset_above [of addr "0x48000" 0] r by (simp add: PROGRAM_IMAGE_def)
  have clear: "clear_of_image (mem u) fs header 4" "clear_of_image (mem u) fs (addr + PROGRAM_IMAGE) (file_room (mem u) fs ino)"
    using p(4) h clear_above [of fs "mem u" "addr + PROGRAM_IMAGE" "file_room (mem u) fs ino"] p(2,6) r
    by (simp_all add: clear_of_image_def f(2) a)
  have "addr + PROGRAM_IMAGE \<noteq> 0" using a by auto
  define m1 where "m1 = copied header (file_byte (mem u) fs ino) 4 (mem u)"
  define m2 where "m2 = copied (addr + PROGRAM_IMAGE) (file_byte (mem u) fs ino) (file_room (mem u) fs ino) m1"
  have load: "load_program header fname (addr + PROGRAM_IMAGE) u = Some (sint (file_dword m fs ino 24), u\<lparr>mem := m2\<rparr>)"
    using load_program_file [of u fname ino header "addr + PROGRAM_IMAGE"] f clear \<open>addr + PROGRAM_IMAGE \<noteq> 0\<close>
    by (simp add: u(2) m1_def m2_def)
  have entry: "sint (file_dword m fs ino 24) \<noteq> - 1"
  proof
    assume "sint (file_dword m fs ino 24) = - 1"
    then have "sint (file_dword m fs ino 24) = sint (- 1 :: u32)" by simp
    then have "file_dword m fs ino 24 = - 1" by (rule signed_word_eqI)
    then show False using p(7) by simp
  qed
  have len2: "length fname = 32" using p(1) by (simp add: program_file_def)
  have xs: "for_range 0 128 (\<lambda>i xs. do { x \<leftarrow> rd arguments i; wr xs i x }) (task_args c) = Some arguments"
    using copy_loop [of 128 arguments "task_args c"] len u(3) by (simp add: task_arrays_ok_def)
  have name: "for_range 0 32 (\<lambda>i name. do { x \<leftarrow> rd fname i; wr name i x }) (p_name c) = Some fname"
    using copy_loop [of 32 fname "p_name c"] len2 u(3) by (simp add: task_arrays_ok_def)
  have run: "\<exists>v. load_program_to_task header (get_task pid) (addr + PROGRAM_IMAGE) fname arguments u = Some (0, v) \<and>
      mem v = m2 \<and> task_store v (get_task pid) = c\<lparr>task_tss := (task_tss c)\<lparr>tss_eip := file_dword m fs ino 24\<rparr>,
      task_args := arguments, p_name := fname[31 := 0]\<rparr>"
    using load entry xs name wr_in [of 31 fname 0] len2 task_layout(5) [OF ok] u(1)
    by (simp add: load_program_to_task_def task_at_def set_task_def Let_def u32_of_def)
  have "m2 (addr + of_nat i) = mem u (addr + of_nat i)" if "i < 8192" for i
  proof -
    have "unat (addr + of_nat i - header) = unat addr + i - unat header"
      using offset_above [of addr i header] r p(3) that by simp
    then have "\<not> unat (addr + of_nat i - header) < 4" using r p(3) by linarith
    then have "m1 (addr + of_nat i) = mem u (addr + of_nat i)" by (simp add: m1_def copied_def)
    moreover have "\<not> unat (addr + of_nat i - (addr + PROGRAM_IMAGE)) < file_room (mem u) fs ino"
    proof -
      have "addr + of_nat i - (addr + PROGRAM_IMAGE) = of_nat i - 0x48000" by (simp add: PROGRAM_IMAGE_def)
      also have "unat \<dots> = 2 ^ 32 + i - 0x48000"
        using that by (simp add: unat_sub_if' unat_of_nat_u32)
      finally show ?thesis using p(6) f(2) by simp
    qed
    ultimately show ?thesis by (simp add: m2_def copied_def)
  qed
  then have "task_tables m2 addr" by (rule task_tables_same [OF u(4)])
  moreover have "m2 (addr + PROGRAM_IMAGE + of_nat i) = file_byte m fs ino i" if "i < file_room m fs ino" for i
    using copied_at [of "file_room m fs ino" i "addr + PROGRAM_IMAGE" "file_byte (mem u) fs ino" m1] that p(6) f(2,3)
    by (simp add: m2_def)
  ultimately show ?thesis using run by auto
qed

text \<open>C1. A program of the file system becomes a process: creating a task for it takes the least free
  process id, gives the task the arguments of the call and a user-mode start at the entry point
  of the file, and puts every byte of the file where the task's own page tables show it at
  0x8048000 in user mode; the running task becomes its parent.\<close>

theorem create_task_makes_process:
  assumes may: "may_create fname arguments s" and free: "\<not> {..<10} \<subseteq> used_pids s"
    and load: "loadable header fname ino s"
  shows "\<exists>t c. create_task header fname arguments s = Some (int (LEAST i. i \<notin> used_pids s), t) \<and>
    c = task_store t (get_task (int (LEAST i. i \<notin> used_pids s))) \<and>
    task_pid c = int (LEAST i. i \<notin> used_pids s) \<and> linked s c \<and> task_args c = arguments \<and>
    task_frame c = \<lparr>fr_ss = USER_DS, fr_esp = 0x83FFFFC, fr_eflags = 0x200, fr_cs = USER_CS,
      fr_eip = file_dword (mem s) (file_sys s) ino 24\<rparr> \<and>
    (\<forall>i < file_room (mem s) (file_sys s) ino. \<exists>a.
       translate (mem t) (page_directory c) True (0x8048000 + of_nat i) = Some a \<and>
       mem t a = file_byte (mem s) (file_sys s) ino i)"
proof -
  define k where "k = (LEAST i. i \<notin> used_pids s)"
  note k = least_free [OF free, folded k_def]
  have new: "get_new_pid (cli s) = (int k, (cli s)\<lparr>task_vector := task_vector (cli s) OR push_bit k 1\<rparr>)"
    by (rule new_pid_cases(1)) (use may k in \<open>simp_all add: may_create_def\<close>)
  have ok: "task_pid_ok (int k)" using k(1) by (simp add: task_pid_ok_def)
  have cur: "cur_task s = - 1 \<or> task_pid_ok (cur_task s) \<and> cur_task s \<noteq> int k"
    using may k(2) by (auto simp: may_create_def)
  have len: "stores_ok s" "length arguments = 128" using may by (simp_all add: may_create_def)
  define addr where "addr = get_task_addr (u32_of (int k))"
  obtain u c where prep: "prepared (int k) s u c" and run: "create_task header fname arguments s = do {
    (r, v) \<leftarrow> load_program_to_task header (get_task (int k)) (addr + PROGRAM_IMAGE) fname arguments u;
    (if r = - 1 then Some (- 1, snd (the (clear_pid (int k) v))\<lparr>eflags := eflags s\<rparr>)
     else Some (int k, v\<lparr>num_tasks := num_tasks v + 1, eflags := eflags s\<rparr>)) }"
    using create_task_prepare [OF new ok len(1) cur] unfolding addr_def by blast
  obtain v where v: "load_program_to_task header (get_task (int k)) (addr + PROGRAM_IMAGE) fname arguments u = Some (0, v)"
    "task_store v (get_task (int k)) = c\<lparr>task_tss := (task_tss c)\<lparr>tss_eip := file_dword (mem s) (file_sys s) ino 24\<rparr>,
      task_args := arguments, p_name := fname[31 := 0]\<rparr>" "task_tables (mem v) addr"
    "\<forall>i < file_room (mem s) (file_sys s) ino. mem v (addr + PROGRAM_IMAGE + of_nat i) = file_byte (mem s) (file_sys s) ino i"
    using load_prepared [OF prep ok load len(2)] unfolding addr_def by blast
  have room: "file_room (mem s) (file_sys s) ino \<le> 0x3B8000" using load by (simp add: loadable_def)
  have walk: "translate (mem v) addr True (0x8048000 + of_nat i) = Some (addr + PROGRAM_IMAGE + of_nat i)"
    if "i < file_room (mem s) (file_sys s) ino" for i
  proof -
    have i: "i < 0x3B8000" using that room by simp
    have d: "drop_bit 22 (0x8048000 + of_nat i :: u32) = 32" "(0x8048000 + of_nat i :: u32) AND 0x3FFFFF = 0x48000 + of_nat i"
      using program_page [OF i] by blast+
    have "addr AND FIRST_10_BITS = addr" using task_layout(9) [OF ok] by (simp add: addr_def)
    then have "addr OR (0x48000 + of_nat i) = addr + (0x48000 + of_nat i)"
      using program_offset [OF i, of addr] by (intro or_plus) (simp add: \<open>addr AND FIRST_10_BITS = addr\<close>)
    then show ?thesis
      using task_walks(1) [OF v(3) ok addr_def, of "0x8048000 + of_nat i" True] d
      by (simp add: PROGRAM_IMAGE_def add.assoc)
  qed
  show ?thesis
    unfolding k_def [symmetric]
    using run v walk prep
    by (intro exI [of _ "v\<lparr>num_tasks := num_tasks v + 1, eflags := eflags s\<rparr>"] exI
        [of _ "task_store v (get_task (int k))"])
      (simp add: prepared_def task_frame_def linked_def addr_def)
qed

lemma fs_demo_program:
  "program_file fs_demo_mem 0x10000 ls_name 0" "file_dword fs_demo_mem 0x10000 0 24 = 0x8048000"
proof -
  have b: "file_byte fs_demo_mem 0x10000 0 k = fs_demo_mem (0x12000 + of_nat k)" if "k < 4096" for k
    using that by (simp add: file_byte_def fs_demo_header block_addr_def)
  have m: "file_dword fs_demo_mem 0x10000 0 0 = ELF_MAGIC"
    by (simp add: file_dword_def ld32_def b fs_demo_mem_def Let_def ELF_MAGIC_def)
  show "file_dword fs_demo_mem 0x10000 0 24 = 0x8048000"
    by (simp add: file_dword_def ld32_def b fs_demo_mem_def Let_def)
  have "length ls_name = 32" "(1 :: u32) \<le> 63" by (simp_all add: ls_name_def)
  then show "program_file fs_demo_mem 0x10000 ls_name 0"
    using m ls_entry ls_dentry fs_demo_image(3) by (simp add: program_file_def fs_demo_header FILENAME_LEN_def)
qed

lemma kernel_demo_sel [simp]: "mem kernel_demo = fs_demo_mem" "file_sys kernel_demo = 0x10000" "cr3 kernel_demo = 0"
  by (simp_all add: kernel_demo_def sched_init_def tasks.defs tasks_demo_def filesys.defs fs_demo_def)

lemma kernel_demo_least: "(LEAST i. i \<notin> used_pids kernel_demo) = 0"
  by (rule Least_equality) (simp_all add: kernel_demo_def sched_init_ok)

theorem create_task_makes_process_witness:
  "\<exists>t c. create_task 0x100 ls_name (replicate 128 0) kernel_demo = Some (0, t) \<and>
     c = task_store t (get_task 0) \<and> fr_eip (task_frame c) = 0x8048000 \<and>
     (\<exists>a. translate (mem t) (page_directory c) True 0x8048000 = Some a)"
proof -
  have "loadable 0x100 ls_name 0 kernel_demo"
    using fs_demo_program fs_demo_image by (simp add: loadable_def fs_demo_clear)
  note w = create_task_makes_process [OF kernel_demo_may(1,3) this, unfolded kernel_demo_least kernel_demo_sel]
  from w obtain t c where t: "create_task 0x100 ls_name (replicate 128 0) kernel_demo = Some (int 0, t)"
    "c = task_store t (get_task (int 0))" "fr_eip (task_frame c) = 0x8048000"
    "\<forall>i < file_room fs_demo_mem 0x10000 0. \<exists>a. translate (mem t) (page_directory c) True (0x8048000 + of_nat i) = Some a \<and>
       mem t a = file_byte fs_demo_mem 0x10000 0 i"
    using fs_demo_program(2) by auto
  have "0 < file_room fs_demo_mem 0x10000 0" by (simp add: fs_demo_image)
  then have "\<exists>a. translate (mem t) (page_directory c) True 0x8048000 = Some a" using t(4) by (auto dest: spec [of _ 0])
  then show ?thesis using t(1-3) by auto
qed

text \<open>When all ten process ids are in use, creating a task fails and changes nothing but the
  interrupt flag, which is left clear: this return does not restore the saved flags.\<close>

theorem create_task_full_leaves_interrupts_off:
  assumes "sched_ok s" and "{..<10} \<subseteq> used_pids s"
  shows "create_task header fname arguments s = Some (- 1, s\<lparr>eflags := eflags s AND NOT IF_MASK\<rparr>) \<and>
    \<not> interrupts_on (s\<lparr>eflags := eflags s AND NOT IF_MASK\<rparr>)"
  using create_task_full [OF assms] interrupts_off_cli [of s] by (simp add: cli_def)

theorem create_task_full_leaves_interrupts_off_witness:
  "interrupts_on (kernel_demo\<lparr>task_vector := 0x3FF, eflags := 0x200\<rparr>) \<and>
   create_task 0x100 ls_name [] (kernel_demo\<lparr>task_vector := 0x3FF, eflags := 0x200\<rparr>) =
     Some (- 1, kernel_demo\<lparr>task_vector := 0x3FF, eflags := 0\<rparr>)"
proof -
  let ?s = "kernel_demo\<lparr>task_vector := 0x3FF, eflags := 0x200\<rparr>"
  have "used_pids ?s = {..<10}"
  proof -
    have "{i. bit (mask 10 :: u32) i} = {..<10}" by (auto simp: bit_simps)
    then show ?thesis by (simp add: used_pids_def mask_eq_exp_minus_1)
  qed
  then have "sched_ok ?s" "{..<10} \<subseteq> used_pids ?s"
    by (simp_all add: sched_ok_def kernel_demo_def sched_init_def used_ptids_def)
  then show ?thesis
    using create_task_full_leaves_interrupts_off [of ?s "0x100" ls_name "[]"]
    by (simp add: interrupts_on_def IF_MASK_def)
qed

text \<open>A task that is created while another runs is its child: it names the running task as its
  parent, belongs to the same terminal's tree, carries the arguments of the call, and no other task
  structure is changed.\<close>

theorem create_task_links_parent:
  assumes "may_create fname arguments s" and "\<not> {..<10} \<subseteq> used_pids s" and "cur_task s \<noteq> - 1"
  shows "\<exists>r t. create_task header fname arguments s = Some (r, t) \<and> (r = - 1 \<or>
    (let c = task_store t (get_task r); p = task_store s (get_task (cur_task s)) in
      task_pid c = r \<and> parent_task c = get_task (cur_task s) \<and> task_ptid c = task_ptid p \<and>
      task_args c = arguments \<and> page_directory c = get_task_addr (u32_of r) \<and>
      (\<forall>a. a \<noteq> get_task r \<longrightarrow> task_store t a = task_store s a)))"
  using create_task_free [OF assms(1,2), of header] assms(3)
  by (auto simp: Let_def linked_def)

theorem create_task_links_parent_witness:
  "\<exists>r t. create_task 0x100 ls_name (replicate 128 0) (kernel_demo\<lparr>task_vector := 1, cur_task := 0\<rparr>) = Some (r, t) \<and>
     (r = - 1 \<or> parent_task (task_store t (get_task r)) = 0x7FE000)"
proof -
  let ?s = "kernel_demo\<lparr>task_vector := 1, cur_task := 0\<rparr>"
  have u: "used_pids ?s = {0}" by (auto simp: used_pids_def bit_simps)
  have "stores_ok ?s" using stores_ok_demo by (simp add: stores_ok_def)
  then have "may_create ls_name (replicate 128 0) ?s"
    using u by (simp add: may_create_def sched_ok_def kernel_demo_def sched_init_def used_ptids_def
        task_pid_ok_def ls_name_def)
  moreover have "(1 :: nat) \<in> {..<10} - used_pids ?s" by (simp add: u)
  then have "\<not> {..<10} \<subseteq> used_pids ?s" by blast
  moreover have "get_task 0 = 0x7FE000" using task_layout(2) [of 0] by (simp add: task_pid_ok_def)
  ultimately show ?thesis using create_task_links_parent [of ls_name "replicate 128 0" ?s "0x100"]
    by (auto simp: Let_def)
qed

section \<open>Properties of the choice of the next task\<close>

text \<open>The trees in the order of the round: those after the current one, then those before it, then
  the current one itself.\<close>

definition round_order :: "nat \<Rightarrow> nat list" where
  "round_order c = [Suc c..<3] @ [0..<c] @ [c]"

definition next_ptree :: "'a kernel_scheme \<Rightarrow> nat \<Rightarrow> nat" where
  "next_ptree s c = hd (filter (\<lambda>i. i \<in> used_ptids s \<or> i = c) (round_order c))"

lemma search_ptree_find:
  assumes "sched_ok s" and "hi \<le> 3"
  shows "search_ptree i hi s = Some (map_option (\<lambda>i. get_task (ptree_tasks s ! i))
    (find (\<lambda>i. i \<in> used_ptids s) [i..<hi]))"
proof (induction "hi - i" arbitrary: i)
  case 0
  then show ?case by (simp add: search_ptree.simps)
next
  case (Suc d)
  then have i: "i < hi" "i < 3" using assms(2) by simp_all
  have "wrap32 (ptree_vector s AND push_bit i 1) > 0 \<longleftrightarrow> i \<in> used_ptids s"
  proof -
    have "ptree_vector s AND push_bit i 1 = (if bit (ptree_vector s) i then push_bit i 1 else 0)"
      by (rule bit_eqI) (auto simp: bit_simps)
    moreover have "wrap32 (push_bit i 1) > 0"
      using i(2) by (auto simp: less_Suc_eq numeral_eq_Suc wrap32_id)
    ultimately show ?thesis by (simp add: used_ptids_def wrap32_id)
  qed
  then show ?case using Suc i assms(1)
    by (subst search_ptree.simps) (simp add: upt_conv_Cons rd_def sched_ok_def)
qed

lemma hd_filter_find: "find P xs = (case filter P xs of [] \<Rightarrow> None | x # _ \<Rightarrow> Some x)"
  by (induction xs) auto

lemma get_next_task_eq:
  assumes "sched_ok s" and "cur_ptree s = int c" and "c < 3"
  shows "get_next_task s = Some (get_task (ptree_tasks s ! next_ptree s c))"
proof -
  have b: "unat (u32_of (cur_ptree s)) = c" "unat (u32_of (cur_ptree s) + 1) = Suc c" "unat (max_ptrees s) = 3"
    using assms by (auto simp: u32_of_def unat_of_nat_u32 sched_ok_def unat_word_ariths)
  have cur: "rdi (ptree_tasks s) (cur_ptree s) = Some (ptree_tasks s ! c)"
    using assms by (simp add: rdi_def rd_def sched_ok_def)
  let ?P = "\<lambda>i. i \<in> used_ptids s"
  have after: "search_ptree (Suc c) 3 s = Some (map_option (\<lambda>i. get_task (ptree_tasks s ! i)) (find ?P [Suc c..<3]))"
    and before: "search_ptree 0 c s = Some (map_option (\<lambda>i. get_task (ptree_tasks s ! i)) (find ?P [0..<c]))"
    using assms by (simp_all add: search_ptree_find)
  have f: "filter (\<lambda>i. ?P i \<or> i = c) [Suc c..<3] = filter ?P [Suc c..<3]"
    "filter (\<lambda>i. ?P i \<or> i = c) [0..<c] = filter ?P [0..<c]"
    by (auto intro!: filter_cong)
  show ?thesis
    unfolding get_next_task_def b after before cur next_ptree_def round_order_def
    by (auto simp: f hd_filter_find split: list.splits)
qed

text \<open>The next task is that of the first active tree in the round after the current tree; with no
  other active tree it is the current tree's own task.\<close>

theorem next_task_round_robin:
  assumes "sched_ok s" and "cur_ptree s = int c" and "c < 3"
  shows "get_next_task s = Some (get_task (ptree_tasks s ! next_ptree s c))"
  using assms by (rule get_next_task_eq)

lemma next_ptree_values:
  "next_ptree s 0 = (if 1 \<in> used_ptids s then 1 else if 2 \<in> used_ptids s then 2 else 0)"
  "next_ptree s 1 = (if 2 \<in> used_ptids s then 2 else if 0 \<in> used_ptids s then 0 else 1)"
  "next_ptree s (Suc 0) = (if 2 \<in> used_ptids s then 2 else if 0 \<in> used_ptids s then 0 else 1)"
  "next_ptree s 2 = (if 0 \<in> used_ptids s then 0 else if 1 \<in> used_ptids s then 1 else 2)"
proof -
  have r: "round_order 0 = [1, 2, 0]" "round_order 1 = [2, 0, 1]" "round_order 2 = [0, 1, 2]"
    by (simp_all add: round_order_def upt_rec)
  show zero: "next_ptree s 0 = (if 1 \<in> used_ptids s then 1 else if 2 \<in> used_ptids s then 2 else 0)"
    and two: "next_ptree s 2 = (if 0 \<in> used_ptids s then 0 else if 1 \<in> used_ptids s then 1 else 2)"
    and one: "next_ptree s 1 = (if 2 \<in> used_ptids s then 2 else if 0 \<in> used_ptids s then 0 else 1)"
    unfolding next_ptree_def r by simp_all
  from one show "next_ptree s (Suc 0) = (if 2 \<in> used_ptids s then 2 else if 0 \<in> used_ptids s then 0 else 1)" by simp
qed

theorem next_task_round_robin_witness:
  "get_next_task (kernel_demo\<lparr>ptree_vector := 7, ptree_tasks := [1, 5, 3] @ replicate 29 (- 1), cur_ptree := 0\<rparr>) =
     Some (get_task 5)"
proof -
  let ?s = "kernel_demo\<lparr>ptree_vector := 7, ptree_tasks := [1, 5, 3] @ replicate 29 (- 1), cur_ptree := 0\<rparr>"
  have "used_ptids ?s = {..<3}"
  proof -
    have "{i. bit (mask 3 :: int) i} = {..<3}" by (auto simp: bit_simps)
    then show ?thesis by (simp add: used_ptids_def mask_eq_exp_minus_1)
  qed
  then have u: "used_ptids ?s = {..<3}" "sched_ok ?s"
    by (simp_all add: sched_ok_def kernel_demo_def sched_init_def used_pids_def)
  have "1 \<in> used_ptids ?s" unfolding u(1) by simp
  then have "next_ptree ?s 0 = 1" by (simp only: next_ptree_values(1) if_True)
  then show ?thesis using next_task_round_robin [of ?s 0, OF u(2)] by simp
qed

text \<open>Giving the processor to the next task, and doing so repeatedly; the tasks of the active trees
  know their own process id and their tree.\<close>

definition next_turn :: "'a kernel_scheme \<Rightarrow> 'a kernel_scheme option" where
  "next_turn s = do {
     a \<leftarrow> get_next_task s;
     t \<leftarrow> task_at a s;
     (_, s) \<leftarrow> set_cur_task (task_pid t) s;
     Some s }"

fun turns :: "nat \<Rightarrow> 'a kernel_scheme \<Rightarrow> 'a kernel_scheme option" where
  "turns 0 s = Some s"
| "turns (Suc n) s = do { s \<leftarrow> next_turn s; turns n s }"

definition trees_ok :: "'a kernel_scheme \<Rightarrow> bool" where
  "trees_ok s = (sched_ok s \<and> (\<exists>c \<in> used_ptids s. cur_ptree s = int c) \<and>
     (\<forall>i \<in> used_ptids s. let k = ptree_tasks s ! i; t = task_store s (get_task k) in
        task_pid_ok k \<and> task_pid t = k \<and> task_ptid t = int i))"

lemma next_ptree_active:
  assumes "c \<in> used_ptids s"
  shows "next_ptree s c \<in> used_ptids s"
proof -
  have "filter (\<lambda>i. i \<in> used_ptids s \<or> i = c) (round_order c) \<noteq> []"
    by (simp add: round_order_def)
  from hd_in_set [OF this] show ?thesis using assms by (auto simp: next_ptree_def)
qed

lemma next_turn_moves:
  assumes ok: "trees_ok s" and c: "cur_ptree s = int c" "c \<in> used_ptids s"
  shows "\<exists>t. next_turn s = Some t \<and> trees_ok t \<and> cur_ptree t = int (next_ptree s c) \<and>
    cur_task t = ptree_tasks s ! next_ptree s c \<and> ptree_tasks t = ptree_tasks s \<and> used_ptids t = used_ptids s"
proof -
  let ?d = "next_ptree s c" and ?k = "ptree_tasks s ! next_ptree s c"
  have sched: "sched_ok s" using ok by (simp add: trees_ok_def)
  then have "c < 3" using c(2) by (auto simp: sched_ok_def)
  have d: "?d \<in> used_ptids s" by (rule next_ptree_active [OF c(2)])
  then have k: "task_pid_ok ?k" "task_pid (task_store s (get_task ?k)) = ?k"
    "task_ptid (task_store s (get_task ?k)) = int ?d"
    using ok by (auto simp: trees_ok_def Let_def)
  have next_task: "get_next_task s = Some (get_task ?k)"
    by (rule get_next_task_eq [OF sched c(1) \<open>c < 3\<close>])
  let ?t = "s\<lparr>cur_task := ?k, cur_ptree := int ?d\<rparr>"
  have "next_turn s = Some ?t"
    using next_task k task_layout(5) [OF k(1)] by (simp add: next_turn_def set_cur_task_def task_at_def Let_def)
  moreover have "trees_ok ?t"
    using ok d by (auto simp: trees_ok_def sched_ok_def used_ptids_def used_pids_def Let_def)
  moreover have "used_ptids ?t = used_ptids s" by (simp add: used_ptids_def)
  ultimately show ?thesis by (intro exI [of _ ?t]) simp
qed

lemma next_ptree_reaches:
  assumes "used_ptids s \<subseteq> {..<3}" and "c \<in> used_ptids s" and "d \<in> used_ptids s"
  shows "d = c \<or> d = next_ptree s c \<or> d = next_ptree s (next_ptree s c)"
proof -
  have "c \<in> {0, 1, 2}" "d \<in> {0, 1, 2}" using assms by auto
  then show ?thesis using assms(2,3) by (auto simp: next_ptree_values)
qed

text \<open>C30. No active terminal starves: whichever task runs, giving the processor to the next task again
  and again reaches the task of every active tree within two turns.\<close>

theorem round_robin_fair:
  assumes ok: "trees_ok s" and cur: "cur_task s = ptree_tasks s ! nat (cur_ptree s)" and d: "d \<in> used_ptids s"
  shows "\<exists>n \<le> 2. \<exists>t. turns n s = Some t \<and> cur_task t = ptree_tasks s ! d \<and> cur_ptree t = int d"
proof -
  obtain c where c: "c \<in> used_ptids s" "cur_ptree s = int c" using ok by (auto simp: trees_ok_def)
  from next_turn_moves [OF ok c(2,1)] obtain t1 where t1: "next_turn s = Some t1" "trees_ok t1"
    "cur_ptree t1 = int (next_ptree s c)" "cur_task t1 = ptree_tasks s ! next_ptree s c"
    "ptree_tasks t1 = ptree_tasks s" "used_ptids t1 = used_ptids s" by blast
  have "next_ptree s c \<in> used_ptids t1" using next_ptree_active [OF c(1)] t1(6) by simp
  from next_turn_moves [OF t1(2,3) this] obtain t2 where t2: "next_turn t1 = Some t2"
    "cur_ptree t2 = int (next_ptree t1 (next_ptree s c))"
    "cur_task t2 = ptree_tasks t1 ! next_ptree t1 (next_ptree s c)" by blast
  have same: "next_ptree t1 = next_ptree s" using t1(6) by (simp add: next_ptree_def fun_eq_iff)
  have "used_ptids s \<subseteq> {..<3}" using ok by (simp add: trees_ok_def sched_ok_def)
  then consider "d = c" | "d = next_ptree s c" | "d = next_ptree s (next_ptree s c)"
    using next_ptree_reaches [OF _ c(1) d] by blast
  then show ?thesis
  proof cases
    case 1
    then show ?thesis using c cur by (intro exI [of _ 0]) simp
  next
    case 2
    then show ?thesis using t1 by (intro exI [of _ 1]) simp
  next
    case 3
    then show ?thesis using t1 t2 same by (intro exI [of _ 2]) (simp add: numeral_2_eq_2)
  qed
qed

theorem round_robin_fair_witness:
  "\<exists>n \<le> 2. \<exists>t. turns n (kernel_demo\<lparr>ptree_vector := 3, ptree_tasks := [1, 5] @ replicate 30 (- 1),
       cur_ptree := 0, cur_task := 1, task_store := (\<lambda>a. if a = 0x7FC000
         then task_demo_task\<lparr>task_pid := 1, task_ptid := 0\<rparr> else task_demo_task\<lparr>task_pid := 5, task_ptid := 1\<rparr>)\<rparr>) = Some t \<and>
     cur_task t = 5"
proof -
  let ?s = "kernel_demo\<lparr>ptree_vector := 3, ptree_tasks := [1, 5] @ replicate 30 (- 1),
       cur_ptree := 0, cur_task := 1, task_store := (\<lambda>a. if a = 0x7FC000
         then task_demo_task\<lparr>task_pid := 1, task_ptid := 0\<rparr> else task_demo_task\<lparr>task_pid := 5, task_ptid := 1\<rparr>)\<rparr>"
  have "{i. bit (mask 2 :: int) i} = {0, 1}" by (auto simp: bit_simps)
  then have u: "used_ptids ?s = {0, 1}" by (simp add: used_ptids_def mask_eq_exp_minus_1)
  have "task_pid_ok 1" "task_pid_ok 5" by (simp_all add: task_pid_ok_def)
  then have g: "task_pid_ok 1" "task_pid_ok 5" "get_task 1 = 0x7FC000" "get_task 5 = 0x7F4000"
    by (simp_all add: task_layout(2))
  have "sched_ok ?s" unfolding sched_ok_def u by (auto simp: kernel_demo_def sched_init_def used_pids_def)
  then have "trees_ok ?s" unfolding trees_ok_def u by (simp add: Let_def g)
  moreover have "1 \<in> used_ptids ?s" unfolding u by simp
  ultimately show ?thesis using round_robin_fair [of ?s 1] by simp blast
qed

end
