(* ===== verification/TaskSwitch.thy ===== *)
theory TaskSwitch
  imports Sched
begin

text \<open>
  What \<^verbatim>\<open>execute_task\<close>, \<^verbatim>\<open>end_task\<close> and \<^verbatim>\<open>switch_task\<close> of theory Sched do to the kernel's
  state: which task is current, which address space and task state segment are loaded, where the
  video page of a task leads, and that a task that halts hands everything back to its parent.
\<close>

unbundle bit_operations_syntax

section \<open>Ending a task\<close>

text \<open>A task \<^term>\<open>pid\<close> with its parent \<^term>\<open>ppid\<close>, both with their structures in place.\<close>

definition child_of :: "int \<Rightarrow> int \<Rightarrow> 'a kernel_scheme \<Rightarrow> bool" where
  "child_of pid ppid s = (task_pid_ok pid \<and> task_pid_ok ppid \<and> pid \<noteq> ppid \<and>
     parent_task (task_store s (get_task pid)) = get_task ppid \<and>
     task_pid (task_store s (get_task pid)) = pid \<and> task_pid (task_store s (get_task ppid)) = ppid \<and>
     0 \<le> task_ptid (task_store s (get_task ppid)) \<and> task_ptid (task_store s (get_task ppid)) < 32)"

text \<open>What the end of a task leaves behind.\<close>

definition ended :: "int \<Rightarrow> int \<Rightarrow> 'a kernel_scheme \<Rightarrow> 'a kernel_scheme \<Rightarrow> bool" where
  "ended pid ppid s u = (let p = task_store s (get_task ppid) in
     cur_task u = ppid \<and> cur_ptree u = task_ptid p \<and>
     ptree_tasks u = (ptree_tasks s)[nat (task_ptid p) := ppid] \<and>
     used_pids u = used_pids s - {nat pid} \<and> num_tasks u = num_tasks s - 1 \<and>
     cr3 u = page_directory p \<and> pd u = page_directory p \<and> eflags u = eflags s \<and>
     task_store u = task_store s \<and> same_outside (page_directory p) 4096 (mem s) (mem u) \<and>
     max_tasks u = max_tasks s \<and> max_ptrees u = max_ptrees s \<and> ptree_vector u = ptree_vector s)"

lemma child_of_nonzero:
  assumes "child_of pid ppid s"
  shows "get_task pid \<noteq> 0" "get_task ppid \<noteq> 0" "get_task pid \<noteq> get_task ppid"
  using assms task_layout(5) get_task_inj by (auto simp: child_of_def)

lemma end_task_result:
  assumes c: "child_of pid ppid s" and len: "length (ptree_tasks s) = 32"
  shows "\<exists>u. end_task pid s = Some (0, u) \<and> ended pid ppid s u \<and> tss u = tss s"
proof -
  note n = child_of_nonzero [OF c]
  let ?p = "task_store s (get_task ppid)"
  have pid: "0 \<le> pid" "pid < 32" using c by (simp_all add: child_of_def task_pid_ok_def)
  have parent: "parent_task (task_store s (get_task pid)) = get_task ppid" "task_pid ?p = ppid"
    "0 \<le> task_ptid ?p" "nat (task_ptid ?p) < 32"
    using c by (auto simp: child_of_def)
  define m1 where "m1 = st32 (mem s) (page_directory ?p + 4 * pd_index VIRTUAL_VID_MEM) (entry_4mb VIDEO 1)"
  define m2 where "m2 = st32 m1 (page_directory ?p + 4 * pd_index (get_task_addr (u32_of pid))) 0"
  have m: "same_outside (page_directory ?p) 4096 (mem s) m2"
    using same_outside_trans [OF st32_outside [OF pd_index_lt] st32_outside [OF pd_index_lt]]
    by (simp add: m1_def m2_def)
  let ?v = "task_vector s AND NOT (push_bit (nat pid) 1)"
  let ?u = "s\<lparr>mem := m2, cr3 := page_directory ?p, pd := page_directory ?p, task_vector := ?v,
    num_tasks := num_tasks s - 1, ptree_tasks := (ptree_tasks s)[nat (task_ptid ?p) := ppid],
    cur_task := ppid, cur_ptree := task_ptid ?p\<rparr>"
  have "end_task pid s = Some (0, ?u)"
    using n pid parent len
    by (simp add: end_task_def Let_def cli_and_save_def cli_def restore_flags_def task_at_def map_4mb_memory
        clear_pid_def clear_pde_def store32_def set_ptree_task_def wri_def wr_def set_cur_task_def m1_def m2_def)
  moreover have "used_pids ?u = used_pids s - {nat pid}"
    by (simp add: used_pids_def bit_set_insert(3) del: push_bit_of_1)
  ultimately show ?thesis using m by (intro exI [of _ ?u]) (simp add: ended_def Let_def)
qed

section \<open>Running a task and returning from it\<close>

lemma execute_enter_result:
  assumes pid: "task_pid_ok pid" and t: "t = task_store s (get_task pid)"
    and tree: "0 \<le> task_ptid t" "task_ptid t < 32" and len: "length (ptree_tasks s) = 32"
  shows "\<exists>u. execute_task_enter halt_addr esp ebp pid s = Some (task_frame t, u) \<and>
    cur_task u = pid \<and> cur_ptree u = task_ptid t \<and> tss u = task_tss t \<and>
    cr3 u = page_directory t \<and> pd u = page_directory t \<and>
    ptree_tasks u = (ptree_tasks s)[nat (task_ptid t) := pid] \<and>
    task_store u = (task_store s)(get_task pid := t\<lparr>task_state := TASK_RUNNING, ret_eip := halt_addr,
      ret_esp := esp, ret_ebp := ebp\<rparr>) \<and>
    used_pids u = used_pids s \<and> num_tasks u = num_tasks s \<and> eflags u = eflags s \<and>
    max_tasks u = max_tasks s \<and> max_ptrees u = max_ptrees s \<and> ptree_vector u = ptree_vector s"
proof -
  have n: "get_task pid \<noteq> 0" by (rule task_layout(5) [OF pid])
  let ?m = "st32 (mem s) (pd s + 4 * pd_index VIRTUAL_VID_MEM) (entry_4mb GARBAGE_VID_MEM 1)"
  let ?t = "t\<lparr>task_state := TASK_RUNNING, ret_eip := halt_addr, ret_esp := esp, ret_ebp := ebp\<rparr>"
  let ?u = "s\<lparr>mem := ?m, task_store := (task_store s)(get_task pid := ?t), cur_task := pid,
    cur_ptree := task_ptid t, ptree_tasks := (ptree_tasks s)[nat (task_ptid t) := pid], tss := task_tss t,
    cr3 := page_directory t, pd := page_directory t\<rparr>"
  have i: "nat (task_ptid t) < 32" using tree by simp
  have "execute_task_enter halt_addr esp ebp pid s = Some (task_frame t, ?u)"
    using n i tree(1) len
    by (simp add: execute_task_enter_def Let_def map_4mb_memory task_at_def set_task_def set_cur_task_def
        set_ptree_task_def wri_def wr_def load_tss_def task_frame_def t)
  then show ?thesis by (intro exI [of _ ?u]) (simp add: used_pids_def)
qed

lemma execute_return_result:
  assumes c: "child_of pid ppid s" and cur: "cur_task s = pid" and len: "length (ptree_tasks s) = 32"
  shows "\<exists>u. execute_task_return al s =
      Some (if task_state (task_store s (get_task pid)) = TASK_EXCEPTION then 256 else uint al, u) \<and>
    ended pid ppid s u \<and> tss u = task_tss (task_store s (get_task ppid))"
proof -
  note n = child_of_nonzero [OF c]
  have k: "0 \<le> pid" "0 \<le> ppid" "task_pid (task_store s (get_task pid)) = pid"
    using c by (simp_all add: child_of_def task_pid_ok_def)
  obtain u where u: "end_task pid s = Some (0, u)" "ended pid ppid s u"
    using end_task_result [OF c len] by blast
  have f: "cur_task u = ppid" "task_store u = task_store s" using u(2) by (simp_all add: ended_def Let_def)
  have "execute_task_return al s =
      Some (if task_state (task_store s (get_task pid)) = TASK_EXCEPTION then 256 else uint al,
        u\<lparr>tss := task_tss (task_store s (get_task ppid))\<rparr>)"
    using n k u(1) f cur
    by (simp add: execute_task_return_def get_cur_task_state_def get_cur_task_def task_at_def load_tss_def)
  moreover have "ended pid ppid s (u\<lparr>tss := task_tss (task_store s (get_task ppid))\<rparr>)"
    using u(2) by (simp add: ended_def Let_def used_pids_def)
  ultimately show ?thesis by auto
qed

section \<open>The video page\<close>

lemma video_page:
  assumes x: "x < (0x400000 :: u32)"
  shows "drop_bit 22 (0x10000000 + x) = 64" "(0x10000000 + x) AND 0x3FFFFF = x"
proof -
  have u: "unat (0x10000000 + x) = 268435456 + unat x" "unat x < 4194304"
    using x by (simp_all add: unat_word_ariths word_less_nat_alt)
  have "(268435456 + unat x) div 4194304 = 64" "(268435456 + unat x) mod 4194304 = unat x"
    using u(2) by (simp_all add: div_nat_eqI mod_nat_eqI)
  then show "drop_bit 22 (0x10000000 + x) = 64" "(0x10000000 + x) AND 0x3FFFFF = x"
    by (simp_all add: word_unat_eq_iff drop_bit_eq_div unat_div mask_bits(1) take_bit_eq_mod unat_mod u
        flip: take_bit_eq_mask)
qed

lemma small_page:
  assumes "x < (0x400000 :: u32)"
  shows "(a AND FIRST_10_BITS) AND x = 0"
proof -
  have "x = take_bit 22 x"
    using assms by (simp add: word_unat_eq_iff take_bit_eq_mod unat_mod word_less_nat_alt)
  then have "(a AND FIRST_10_BITS) AND x = (a AND FIRST_10_BITS) AND take_bit 22 x" by simp
  also have "\<dots> = 0" unfolding first_bits by (auto simp: bit_eq_iff bit_simps)
  finally show ?thesis .
qed

definition terminal_demo :: terminal where
  "terminal_demo = \<lparr>t_screen_x = 0, t_screen_y = 0, history_index = 0, chars_printed = 0, starting_offset = SHELL_OFFSET,
     input = \<lparr>input_pointer = 0, line = replicate 128 0\<rparr>, previous_input = \<lparr>input_pointer = 0, line = replicate 128 0\<rparr>,
     video_buffer = replicate 4000 0, t_ptid = 0,
     input_history = replicate 16 \<lparr>input_pointer = 0, line = replicate 128 0\<rparr>, t_state = TERMINAL_IDLE\<rparr>"

section \<open>Properties\<close>

text \<open>A state in which the task has run for a while, interrupted by the timer or not: its state, its files and the registers
  saved of it may have changed, and so may the tasks of other trees; memory, screen and devices are arbitrary,
  but its parent and the rest of the kernel's bookkeeping are as they were.\<close>

definition ran_for_a_while :: "int \<Rightarrow> 'a kernel_scheme \<Rightarrow> 'a kernel_scheme \<Rightarrow> bool" where
  "ran_for_a_while pid u w = (cur_task w = cur_task u \<and> cur_ptree w = cur_ptree u \<and>
     ptree_tasks w = ptree_tasks u \<and> used_pids w = used_pids u \<and> num_tasks w = num_tasks u \<and>
     max_tasks w = max_tasks u \<and> max_ptrees w = max_ptrees u \<and> ptree_vector w = ptree_vector u \<and>
     (\<exists>st files regs. task_store w (get_task pid) =
        (task_store u (get_task pid))\<lparr>task_state := st, task_files := files, task_tss := regs\<rparr>) \<and>
     (let parent = parent_task (task_store u (get_task pid)) in task_store w parent = task_store u parent))"

lemma nat_of_pid: "task_pid_ok pid \<Longrightarrow> int (nat pid) = pid"
  by (simp add: task_pid_ok_def)

lemma ran_child:
  assumes c: "child_of pid ppid s" and u: "task_store u = (task_store s)(get_task pid :=
      (task_store s (get_task pid))\<lparr>task_state := TASK_RUNNING, ret_eip := a, ret_esp := b, ret_ebp := d\<rparr>)"
    and ran: "ran_for_a_while pid u w"
  shows "child_of pid ppid w" "task_store w (get_task ppid) = task_store s (get_task ppid)"
  using c u ran child_of_nonzero(3) [OF c] by (auto simp: child_of_def ran_for_a_while_def Let_def)

text \<open>C2. Executing a child and returning when it halts is a round trip. Entering it pops the frame its
  state segment describes, with its own address space and task state segment loaded and the child
  current in its tree. However long it runs, its halt brings the parent back as the current task of
  the same tree with the parent's address space and segment, frees the child's process id, and
  returns the child's status, or 256 after an exception.\<close>

theorem execute_then_halt_returns:
  assumes c: "child_of pid ppid s" and cur: "cur_task s = ppid" "cur_ptree s = task_ptid p"
    and p: "p = task_store s (get_task ppid)" and t: "t = task_store s (get_task pid)" "task_ptid t = task_ptid p"
    and tree: "length (ptree_tasks s) = 32" "ptree_tasks s ! nat (task_ptid p) = ppid"
  shows "\<exists>u. execute_task_enter halt_addr esp ebp pid s = Some (task_frame t, u) \<and>
    cur_task u = pid \<and> ptree_tasks u ! nat (task_ptid p) = pid \<and> cr3 u = page_directory t \<and> tss u = task_tss t \<and>
    (\<forall>w. ran_for_a_while pid u w \<longrightarrow> (\<exists>v. execute_task_return al w =
       Some (if task_state (task_store w (get_task pid)) = TASK_EXCEPTION then 256 else uint al, v) \<and>
       cur_task v = cur_task s \<and> cur_ptree v = cur_ptree s \<and> ptree_tasks v = ptree_tasks s \<and>
       used_pids v = used_pids s - {nat pid} \<and> num_tasks v = num_tasks s - 1 \<and>
       cr3 v = page_directory p \<and> tss v = task_tss p))"
proof -
  have pid: "task_pid_ok pid" and range: "0 \<le> task_ptid t" "task_ptid t < 32" "nat (task_ptid p) < 32"
    using c p t(2) by (auto simp: child_of_def)
  obtain u where u: "execute_task_enter halt_addr esp ebp pid s = Some (task_frame t, u)" "cur_task u = pid"
    "cur_ptree u = task_ptid t" "tss u = task_tss t" "cr3 u = page_directory t"
    "ptree_tasks u = (ptree_tasks s)[nat (task_ptid t) := pid]"
    "task_store u = (task_store s)(get_task pid := t\<lparr>task_state := TASK_RUNNING, ret_eip := halt_addr,
      ret_esp := esp, ret_ebp := ebp\<rparr>)" "used_pids u = used_pids s" "num_tasks u = num_tasks s"
    using execute_enter_result [OF pid t(1) range(1,2) tree(1), of halt_addr esp ebp] by blast
  have returns: "\<exists>v. execute_task_return al w =
       Some (if task_state (task_store w (get_task pid)) = TASK_EXCEPTION then 256 else uint al, v) \<and>
       cur_task v = cur_task s \<and> cur_ptree v = cur_ptree s \<and> ptree_tasks v = ptree_tasks s \<and>
       used_pids v = used_pids s - {nat pid} \<and> num_tasks v = num_tasks s - 1 \<and>
       cr3 v = page_directory p \<and> tss v = task_tss p" if ran: "ran_for_a_while pid u w" for w
  proof -
    note w = ran_child [OF c u(7) [unfolded t(1)] ran]
    have wc: "child_of pid ppid w" "task_store w (get_task ppid) = p" using w p by simp_all
    have wf: "cur_task w = pid" "length (ptree_tasks w) = 32" "ptree_tasks w = ptree_tasks u"
      "used_pids w = used_pids s" "num_tasks w = num_tasks s"
      using ran u(2,6,8,9) tree(1) by (simp_all add: ran_for_a_while_def)
    obtain v where v: "execute_task_return al w =
       Some (if task_state (task_store w (get_task pid)) = TASK_EXCEPTION then 256 else uint al, v)"
      "ended pid ppid w v" "tss v = task_tss p"
      using execute_return_result [OF wc(1) wf(1,2), of al] wc(2) by auto
    have "(ptree_tasks u)[nat (task_ptid p) := ppid] = ptree_tasks s"
      using u(6) t(2) tree range by (simp add: list_update_same_conv)
    then show ?thesis using v wf wc(2) cur by (intro exI [of _ v]) (simp add: ended_def Let_def)
  qed
  show ?thesis using u(1-6) returns t(2) tree(1) range(3) by (intro exI [of _ u]) simp
qed

definition family_demo :: kernel where
  "family_demo = kernel_demo\<lparr>task_vector := 0x12, num_tasks := 2, cur_task := 1, cur_ptree := 0, ptree_vector := 1,
     ptree_tasks := 1 # replicate 31 (- 1),
     task_store := (\<lambda>a. if a = 0x7FC000 then task_demo_task\<lparr>task_pid := 1, task_ptid := 0, page_directory := 0xC00000\<rparr>
       else task_demo_task\<lparr>task_pid := 4, task_ptid := 0, parent_task := 0x7FC000, page_directory := 0x1800000\<rparr>)\<rparr>"

lemma family_demo_tasks: "task_pid_ok 1" "task_pid_ok 4" "get_task 1 = 0x7FC000" "get_task 4 = 0x7F6000"
  by (simp_all add: task_pid_ok_def task_layout(2))

lemma family_demo_child: "child_of 4 1 family_demo"
  by (simp add: child_of_def family_demo_tasks family_demo_def)

theorem execute_then_halt_returns_witness:
  "\<exists>u v. execute_task_enter 0x401234 0x7F5000 0x7F5100 4 family_demo = Some (task_frame (task_store family_demo 0x7F6000), u) \<and>
     cur_task u = 4 \<and> execute_task_return 42 u = Some (42, v) \<and> cur_task v = 1 \<and> cr3 v = 0xC00000 \<and>
     ptree_tasks v = ptree_tasks family_demo"
proof -
  have h: "cur_task family_demo = 1" "cur_ptree family_demo = task_ptid (task_store family_demo (get_task 1))"
    "task_ptid (task_store family_demo (get_task 4)) = task_ptid (task_store family_demo (get_task 1))"
    "length (ptree_tasks family_demo) = 32"
    "ptree_tasks family_demo ! nat (task_ptid (task_store family_demo (get_task 1))) = 1"
    "page_directory (task_store family_demo (get_task 1)) = 0xC00000"
    by (simp_all add: family_demo_def family_demo_tasks)
  from execute_then_halt_returns [OF family_demo_child h(1,2) refl refl h(3,4,5), of "0x401234" "0x7F5000" "0x7F5100" 42]
  obtain u where u: "execute_task_enter 0x401234 0x7F5000 0x7F5100 4 family_demo =
      Some (task_frame (task_store family_demo 0x7F6000), u)" "cur_task u = 4"
    and returns: "\<forall>w. ran_for_a_while 4 u w \<longrightarrow> (\<exists>v. execute_task_return 42 w =
       Some (if task_state (task_store w 0x7F6000) = TASK_EXCEPTION then 256 else uint (42 :: u8), v) \<and>
       cur_task v = cur_task family_demo \<and> cur_ptree v = cur_ptree family_demo \<and>
       ptree_tasks v = ptree_tasks family_demo \<and> used_pids v = used_pids family_demo - {nat 4} \<and>
       num_tasks v = num_tasks family_demo - 1 \<and>
       cr3 v = page_directory (task_store family_demo (get_task 1)) \<and> tss v = task_tss (task_store family_demo (get_task 1)))"
    unfolding family_demo_tasks(4) by blast
  have "task_store u = (task_store family_demo)(0x7F6000 := (task_store family_demo 0x7F6000)
      \<lparr>task_state := TASK_RUNNING, ret_eip := 0x401234, ret_esp := 0x7F5000, ret_ebp := 0x7F5100\<rparr>)"
    using execute_enter_result [OF family_demo_tasks(2) refl, of family_demo "0x401234" "0x7F5000" "0x7F5100"] u(1)
    by (simp add: family_demo_tasks family_demo_def)
  then have st: "task_state (task_store u 0x7F6000) = TASK_RUNNING" by simp
  have "ran_for_a_while 4 u u"
    unfolding ran_for_a_while_def
    by (intro conjI refl exI [of _ "task_state (task_store u (get_task 4))"]
        exI [of _ "task_files (task_store u (get_task 4))"] exI [of _ "task_tss (task_store u (get_task 4))"]) simp_all
  from returns [rule_format, OF this] obtain v where "execute_task_return 42 u = Some (42, v)" "cur_task v = 1"
    "cr3 v = 0xC00000" "ptree_tasks v = ptree_tasks family_demo"
    using st h(1,6) by auto
  then show ?thesis using u by blast
qed

text \<open>C17. Switching makes the new task current with its own segment and address space, shows the text
  screen at its video page when its terminal is the displayed one, and leads the video page of the
  task switched away from to other memory, so that a task in the background cannot draw on the
  screen through the directory that was loaded. No byte of memory but those of the two entries changes, and so
  nothing else of any address space.\<close>

theorem switch_task_moves_video:
  assumes pid: "task_pid_ok pid" and t: "t = task_store s (get_task pid)"
    and shown: "get_displaying_terminal s = Some tm"
    and dirs: "page_aligned (cr3 s)" "page_aligned (page_directory t)" "page_directory t \<noteq> cr3 s"
  shows "\<exists>u. switch_task old pid s = Some (get_task pid, u) \<and>
    cur_task u = pid \<and> cur_ptree u = task_ptid t \<and> tss u = task_tss t \<and>
    cr3 u = page_directory t \<and> pd u = page_directory t \<and>
    (\<forall>x < 0x400000. translate (mem u) (cr3 s) True (0x10000000 + x) = Some (0x10400000 + x)) \<and>
    (u32_of (task_ptid t) = t_ptid tm \<longrightarrow>
       (\<forall>x < 0x400000. translate (mem u) (page_directory t) True (0x10000000 + x) = Some x)) \<and>
    (u32_of (task_ptid t) \<noteq> t_ptid tm \<longrightarrow>
       ld32 (mem u) (page_directory t + 4 * 64) = ld32 (mem s) (page_directory t + 4 * 64)) \<and>
    (\<forall>a. mem u a \<noteq> mem s a \<longrightarrow> a - (cr3 s + 4 * 64) < 4 \<or> u32_of (task_ptid t) = t_ptid tm \<and> a - (page_directory t + 4 * 64) < 4) \<and>
    u = s\<lparr>mem := mem u, cur_task := pid, cur_ptree := task_ptid t, tss := task_tss t, cr3 := page_directory t, pd := page_directory t\<rparr>"
proof -
  have n: "get_task pid \<noteq> 0" by (rule task_layout(5) [OF pid])
  let ?d = "page_directory t" and ?shown = "u32_of (task_ptid t) = t_ptid tm"
  have idx: "pd_index VIRTUAL_VID_MEM = 64" by (simp add: index_bits VIRTUAL_VID_MEM_def)
  define m1 where "m1 = st32 (mem s) (cr3 s + 4 * 64) (entry_4mb GARBAGE_VID_MEM 1)"
  define m2 where "m2 = (if ?shown then st32 m1 (?d + 4 * 64) (entry_4mb VIDEO 1) else m1)"
  let ?u = "s\<lparr>mem := m2, cur_task := pid, cur_ptree := task_ptid t, tss := task_tss t, cr3 := ?d, pd := ?d\<rparr>"
  have shown': "rdi (terminal_list s) (current_terminal_index s) = Some tm"
    using shown by (simp add: get_displaying_terminal_def)
  have run: "switch_task old pid s = Some (get_task pid, ?u)"
    using n t shown' by (simp add: switch_task_def Let_def map_4mb_memory idx set_cur_task_def task_at_def load_tss_def
        get_displaying_terminal_def m1_def m2_def)
  have lit: "(64 :: u32) < 1024" by simp
  have old: "ld32 m2 (cr3 s + 4 * 64) = entry_4mb GARBAGE_VID_MEM 1"
    using ld32_entry [OF dirs(2,1) lit lit] dirs(3) by (simp add: m2_def m1_def)
  have new: "ld32 m2 (?d + 4 * 64) = (if ?shown then entry_4mb VIDEO 1 else ld32 (mem s) (?d + 4 * 64))"
    using ld32_entry [OF dirs(1,2) lit lit] dirs(3) by (auto simp: m2_def m1_def)
  have w: "translate m2 dir True (0x10000000 + x) = Some ((phys AND FIRST_10_BITS) OR x)"
    if x: "x < 0x400000" and dir: "page_aligned dir" "ld32 m2 (dir + 4 * 64) = entry_4mb phys 1" for dir phys x
    using translate_4mb [of m2 dir "0x10000000 + x" phys 1 True] video_page [OF x] dir
    by (simp add: page_aligned_def entry_4mb_def)
  have "(GARBAGE_VID_MEM AND FIRST_10_BITS) OR x = 0x10400000 + x" if x: "x < 0x400000" for x
  proof -
    have "GARBAGE_VID_MEM AND FIRST_10_BITS = 0x10400000" by (simp add: GARBAGE_VID_MEM_def FIRST_10_BITS_def)
    moreover have "0x10400000 AND x = 0" using small_page [OF x, of "0x10400000"] by (simp add: FIRST_10_BITS_def)
    ultimately show ?thesis by (simp add: or_plus)
  qed
  moreover have "m2 a = mem s a" if "\<not> a - (cr3 s + 4 * 64) < 4" "?shown \<Longrightarrow> \<not> a - (?d + 4 * 64) < 4" for a
    using that st32_byte_other [of a "cr3 s + 4 * 64"] st32_byte_other [of a "?d + 4 * 64"] by (simp add: m2_def m1_def not_less)
  moreover have "(VIDEO AND FIRST_10_BITS) OR x = x" for x by (simp add: VIDEO_def FIRST_10_BITS_def)
  ultimately show ?thesis
    using run w [OF _ dirs(1) old] w [OF _ dirs(2), where phys = VIDEO] new by (intro exI [of _ ?u]) auto
qed

theorem switch_task_moves_video_witness:
  "\<exists>u. switch_task 1 4 (family_demo\<lparr>cr3 := 0xC00000, terminal_list := [terminal_demo], current_terminal_index := 0\<rparr>) = Some (0x7F6000, u) \<and>
     cur_task u = 4 \<and> translate (mem u) 0xC00000 True 0x100B8000 = Some 0x104B8000 \<and>
     translate (mem u) 0x1800000 True 0x100B8000 = Some 0xB8000"
proof -
  let ?s = "family_demo\<lparr>cr3 := 0xC00000, terminal_list := [terminal_demo], current_terminal_index := 0\<rparr>"
  have h: "get_displaying_terminal ?s = Some terminal_demo" "page_aligned (cr3 ?s)"
    "page_directory (task_store ?s (get_task 4)) = 0x1800000" "task_ptid (task_store ?s (get_task 4)) = 0"
    by (simp_all add: get_displaying_terminal_def rdi_def rd_def family_demo_def family_demo_tasks kernel_demo_def
        sched_init_def tasks.defs page_aligned_def FIRST_20_BITS_def)
  have "page_aligned (page_directory (task_store ?s (get_task 4)))"
    "page_directory (task_store ?s (get_task 4)) \<noteq> cr3 ?s"
    unfolding h(3) by (simp_all add: page_aligned_def FIRST_20_BITS_def)
  from switch_task_moves_video [OF family_demo_tasks(2) refl h(1,2) this, of 1]
  obtain u where u: "switch_task 1 4 ?s = Some (0x7F6000, u)" "cur_task u = 4"
    "\<forall>x < 0x400000. translate (mem u) 0xC00000 True (0x10000000 + x) = Some (0x10400000 + x)"
    "\<forall>x < 0x400000. translate (mem u) 0x1800000 True (0x10000000 + x) = Some x"
    unfolding h(3,4) by (auto simp: family_demo_tasks terminal_demo_def u32_of_def)
  have "translate (mem u) 0xC00000 True (0x10000000 + 0xB8000) = Some (0x10400000 + 0xB8000)"
    "translate (mem u) 0x1800000 True (0x10000000 + 0xB8000) = Some 0xB8000"
    by (rule u(3) [rule_format], simp) (rule u(4) [rule_format], simp)
  then show ?thesis using u(1,2) by simp
qed

end
