(* ===== verification/Timer.thy ===== *)
theory Timer
  imports TaskSwitch
begin

text \<open>
  The timer interrupt: its entry in \<^verbatim>\<open>hardware_intr.S\<close>, \<^verbatim>\<open>do_idt_pit\<close> and \<^verbatim>\<open>pit_process_interrupt\<close>. The
  entry builds the block that \<^verbatim>\<open>iret\<close> pops in the same form for an interrupted program and for an
  interrupted system call, saves the registers in the task's structure, calls the handler, which
  chooses the next task and replaces the block by that task's, and loads the registers of the task that
  is current then. The processor is a record of its registers; the contents of kernel stacks are not
  modelled, \<^verbatim>\<open>iret\<close> takes the block.
\<close>

unbundle bit_operations_syntax

section \<open>The processor\<close>

record cpu =
  r_eax :: u32
  r_ebx :: u32
  r_ecx :: u32
  r_edx :: u32
  r_esi :: u32
  r_edi :: u32
  r_ebp :: u32
  r_esp :: u32
  r_eip :: u32
  r_eflags :: u32
  r_cs :: u16
  r_ss :: u16
  r_ds :: u16
  r_es :: u16
  r_fs :: u16
  r_gs :: u16

text \<open>A selector of code that runs in user mode; and what \<^verbatim>\<open>iret\<close> to code with the selector \<^term>\<open>cs\<close> leaves in a data
  segment register: back in user mode a segment of the kernel is replaced by the null selector.\<close>

definition user_mode :: "u16 \<Rightarrow> bool" where
  "user_mode cs = (cs AND 3 \<noteq> 0)"

definition seg_after :: "u16 \<Rightarrow> u16" where
  "seg_after sel = (if user_mode sel then sel else 0)"

definition seg_for :: "u16 \<Rightarrow> u16 \<Rightarrow> u16" where
  "seg_for cs sel = (if user_mode cs then seg_after sel else sel)"


section \<open>The handler\<close>

definition save_task_state :: "iret_frame \<Rightarrow> task_t \<Rightarrow> task_t" where
  "save_task_state fr t = t\<lparr>task_tss := (task_tss t)\<lparr>tss_ss := fr_ss fr, tss_esp := fr_esp fr,
     tss_eflags := fr_eflags fr, tss_cs := fr_cs fr, tss_eip := fr_eip fr\<rparr>\<rparr>"

definition save_syscall_state :: "iret_frame \<Rightarrow> task_t \<Rightarrow> task_t" where
  "save_syscall_state fr t = t\<lparr>task_tss := (task_tss t)\<lparr>tss_eflags := fr_eflags fr, tss_cs := fr_cs fr,
     tss_eip := fr_eip fr\<rparr>\<rparr>"

text \<open>The two macros that overwrite the block, with the value they load into \<^verbatim>\<open>ds\<close>.\<close>

definition setup_task_stack :: "task_t \<Rightarrow> iret_frame \<Rightarrow> iret_frame \<times> u16" where
  "setup_task_stack t fr = (fr\<lparr>fr_ss := tss_ss (task_tss t), fr_esp := tss_esp (task_tss t),
     fr_eflags := tss_eflags (task_tss t), fr_cs := tss_cs (task_tss t), fr_eip := tss_eip (task_tss t)\<rparr>, 0x2B)"

definition setup_syscall_stack :: "task_t \<Rightarrow> iret_frame \<Rightarrow> iret_frame \<times> u16" where
  "setup_syscall_stack t fr = (fr\<lparr>fr_eflags := tss_eflags (task_tss t), fr_cs := tss_cs (task_tss t),
     fr_eip := tss_eip (task_tss t)\<rparr>, 0x18)"

definition pit_process_interrupt ::
  "iret_frame \<Rightarrow> 'a kernel_scheme \<Rightarrow> ((iret_frame \<times> u16) \<times> 'a kernel_scheme) option" where
  "pit_process_interrupt fr s = do {
     let cur = get_cur_task s;
     let cs = fr_cs fr;
     s \<leftarrow> (if cs = USER_CS then do {
              (_, s) \<leftarrow> set_cur_task_state TASK_RUNNING s;
              t \<leftarrow> task_at cur s;
              set_task cur (save_task_state fr t) s }
            else if cs = KERNEL_CS then do {
              (_, s) \<leftarrow> set_cur_task_state TASK_SYS_CALL s;
              t \<leftarrow> task_at cur s;
              set_task cur (save_syscall_state fr t) s }
            else Some s);
     t \<leftarrow> task_at cur s;
     next_task \<leftarrow> get_next_task s;
     n \<leftarrow> task_at next_task s;
     (cur, s) \<leftarrow> switch_task (task_pid t) (task_pid n) s;
     t \<leftarrow> task_at cur s;
     Some (if task_state t = TASK_RUNNING then setup_task_stack t fr else setup_syscall_stack t fr, s) }"

definition do_idt_pit ::
  "iret_frame \<Rightarrow> 'a kernel_scheme \<Rightarrow> ((iret_frame \<times> u16) \<times> 'a kernel_scheme) option" where
  "do_idt_pit fr s = do {
     (r, s) \<leftarrow> pit_process_interrupt fr s;
     Some (r, send_eoi 0 s) }"

section \<open>The entry\<close>

text \<open>The block on the stack. The processor pushes no stack pointer when it was in the kernel already;
  the entry moves what there is down by two words, and the two upper words keep what they held.\<close>

definition iret_block :: "cpu \<Rightarrow> iret_frame" where
  "iret_block c = \<lparr>fr_ss = (if r_cs c = KERNEL_CS then ucast (r_eflags c) else r_ss c),
     fr_esp = (if r_cs c = KERNEL_CS then ucast (r_cs c) else r_esp c),
     fr_eflags = r_eflags c, fr_cs = r_cs c, fr_eip = r_eip c\<rparr>"

text \<open>The stack pointer and the stack segment in the entry: of the interrupted kernel code, or those of the
  task state segment.\<close>

definition local_esp :: "cpu \<Rightarrow> 'a tasks_scheme \<Rightarrow> u32" where
  "local_esp c s = (if r_cs c = KERNEL_CS then r_esp c - 12 else tss_esp0 (tss s) - 20)"

definition entry_ss :: "cpu \<Rightarrow> 'a tasks_scheme \<Rightarrow> u16" where
  "entry_ss c s = (if r_cs c = KERNEL_CS then r_ss c else tss_ss0 (tss s))"

text \<open>The arguments of \<^verbatim>\<open>load_state\<close> on the stack after it has assigned to them, popped into the registers;
  \<^verbatim>\<open>es\<close>, \<^verbatim>\<open>fs\<close> and \<^verbatim>\<open>gs\<close>, which the entry does not save, are still those of the processor \<^term>\<open>c\<close> that came in.\<close>

definition load_registers :: "task_t \<Rightarrow> iret_frame \<Rightarrow> u16 \<Rightarrow> u16 \<Rightarrow> cpu \<Rightarrow> cpu" where
  "load_registers t fr ss ds c = (let g = task_tss t in
     \<lparr>r_eax = tss_eax g, r_ebx = tss_ebx g, r_ecx = tss_ecx g, r_edx = tss_edx g, r_esi = tss_esi g,
      r_edi = tss_edi g, r_ebp = tss_ebp g,
      r_esp = (if load_state (fr_cs fr) = 0 then fr_esp fr else tss_esp g), r_eip = fr_eip fr,
      r_eflags = fr_eflags fr, r_cs = fr_cs fr,
      r_ss = (if load_state (fr_cs fr) = 0 then fr_ss fr else ss), r_ds = seg_for (fr_cs fr) ds,
      r_es = seg_for (fr_cs fr) (r_es c), r_fs = seg_for (fr_cs fr) (r_fs c), r_gs = seg_for (fr_cs fr) (r_gs c)\<rparr>)"

definition idt_pit :: "cpu \<Rightarrow> 'a kernel_scheme \<Rightarrow> (cpu \<times> 'a kernel_scheme) option" where
  "idt_pit c s = do {
     let ss = entry_ss c s;
     s \<leftarrow> save_state (get_cur_task s) (local_esp c s) (r_ebp c) (r_eax c) (r_ebx c) (r_ecx c) (r_edx c)
            (r_esi c) (r_edi c) s;
     ((fr, ds), s) \<leftarrow> do_idt_pit (iret_block c) s;
     t \<leftarrow> task_at (get_cur_task s) s;
     Some (load_registers t fr ss ds c, s) }"

section \<open>What a tick does\<close>

text \<open>A processor that runs a user program, or a system call of one.\<close>

definition mode_ok :: "cpu \<Rightarrow> 'a tasks_scheme \<Rightarrow> bool" where
  "mode_ok c s = (if r_cs c = USER_CS then r_ds c = USER_DS \<and> tss_ss0 (tss s) = KERNEL_DS
     else r_cs c = KERNEL_CS \<and> r_ds c = KERNEL_DS \<and> r_ss c = KERNEL_DS)"

text \<open>The structure of a task that was interrupted.\<close>

definition suspended :: "cpu \<Rightarrow> task_t \<Rightarrow> bool" where
  "suspended c t = (let g = task_tss t in
     task_state t = (if r_cs c = USER_CS then TASK_RUNNING else TASK_SYS_CALL) \<and>
     tss_eax g = r_eax c \<and> tss_ebx g = r_ebx c \<and> tss_ecx g = r_ecx c \<and> tss_edx g = r_edx c \<and>
     tss_esi g = r_esi c \<and> tss_edi g = r_edi c \<and> tss_ebp g = r_ebp c \<and> tss_esp g = r_esp c \<and>
     tss_eip g = r_eip c \<and> tss_eflags g = r_eflags c \<and> tss_cs g = r_cs c \<and>
     (r_cs c = USER_CS \<longrightarrow> tss_ss g = r_ss c))"

lemma switch_task_store:
  assumes "switch_task old new s = Some (r, u)"
  shows "r = get_task new" "task_store u = task_store s" "cur_task u = new" "ptree_tasks u = ptree_tasks s"
    "ptree_vector u = ptree_vector s" "max_ptrees u = max_ptrees s" "tss u = task_tss (task_store s (get_task new))"
  using assms
  by (auto simp: switch_task_def Let_def map_4mb_memory set_cur_task_def load_tss_def task_at_def bind_eq_Some_conv
      split: if_splits)

lemma send_eoi_state: "\<exists>tr. send_eoi n s = s\<lparr>io_trace := tr\<rparr>"
  by (cases "n AND 8 = 0") (auto simp: send_eoi_def Let_def cli_and_save_def cli_def outb_def restore_flags_def)

lemma send_eoi_keeps:
  "task_store (send_eoi n s) = task_store s" "cur_task (send_eoi n s) = cur_task s" "mem (send_eoi n s) = mem s"
  "cr3 (send_eoi n s) = cr3 s"
  using send_eoi_state [of n s] by auto

text \<open>The registers that the entry ends with, from the structure of the task that is current then.\<close>

definition resumed :: "task_t \<Rightarrow> iret_frame \<Rightarrow> u16 \<Rightarrow> cpu \<Rightarrow> cpu" where
  "resumed t fr ss c = (let (fr, ds) = (if task_state t = TASK_RUNNING then setup_task_stack t fr else setup_syscall_stack t fr)
     in load_registers t fr ss ds c)"



lemma mode_ok_entry: "mode_ok c s \<Longrightarrow> entry_ss c s = KERNEL_DS"
  by (auto simp: mode_ok_def entry_ss_def USER_CS_def KERNEL_CS_def split: if_splits)

lemma save_state_result:
  "save_state a e b x1 x2 x3 x4 x5 x6 s = Some u \<Longrightarrow> a \<noteq> 0 \<and>
    u = s\<lparr>task_store := (task_store s)(a := (task_store s a)\<lparr>task_tss := (task_tss (task_store s a))\<lparr>tss_esp := e + 12,
      tss_ebp := b, tss_eax := x1, tss_ebx := x2, tss_ecx := x3, tss_edx := x4, tss_esi := x5, tss_edi := x6\<rparr>\<rparr>)\<rparr>"
  by (auto simp: save_state_def task_at_def set_task_def split: if_splits)

lemma next_task_store [simp]: "get_next_task (s\<lparr>task_store := f\<rparr>) = get_next_task s"
proof -
  have "search_ptree i hi (s\<lparr>task_store := f\<rparr>) = search_ptree i hi s" for i hi
  proof (induction "hi - i" arbitrary: i)
    case 0
    then show ?case by (simp add: search_ptree.simps)
  next
    case (Suc d)
    then have "search_ptree (Suc i) hi (s\<lparr>task_store := f\<rparr>) = search_ptree (Suc i) hi s" by simp
    then show ?case by (subst (1 2) search_ptree.simps) simp
  qed
  then show ?thesis by (simp add: get_next_task_def cong: option.case_cong)
qed

text \<open>The handler stores the rest of the interrupted state and comes out with another task's block.\<close>

definition saved_frame :: "iret_frame \<Rightarrow> task_t \<Rightarrow> task_t" where
  "saved_frame fr t = (if fr_cs fr = USER_CS then save_task_state fr (t\<lparr>task_state := TASK_RUNNING\<rparr>)
     else save_syscall_state fr (t\<lparr>task_state := TASK_SYS_CALL\<rparr>))"

lemma pit_process_eq:
  assumes "fr_cs fr = USER_CS \<or> fr_cs fr = KERNEL_CS" and "get_cur_task s \<noteq> 0"
  defines "s1 \<equiv> s\<lparr>task_store := (task_store s)(get_cur_task s := saved_frame fr (task_store s (get_cur_task s)))\<rparr>"
  shows "pit_process_interrupt fr s = do {
     a \<leftarrow> get_next_task s;
     n \<leftarrow> task_at a s1;
     (cur, s) \<leftarrow> switch_task (task_pid (task_store s1 (get_cur_task s))) (task_pid n) s1;
     t \<leftarrow> task_at cur s;
     Some (if task_state t = TASK_RUNNING then setup_task_stack t fr else setup_syscall_stack t fr, s) }"
proof -
  have d: "USER_CS \<noteq> KERNEL_CS" by (simp add: USER_CS_def KERNEL_CS_def)
  have g: "get_cur_task (s\<lparr>task_store := f\<rparr>) = get_cur_task s" for f by (simp add: get_cur_task_def)
  show ?thesis
    using assms(1,2) d
    by (auto simp: pit_process_interrupt_def Let_def set_cur_task_state_def task_at_def set_task_def g s1_def saved_frame_def)
qed

lemma pit_process_result:
  assumes "pit_process_interrupt fr s = Some (r, u)" and "fr_cs fr = USER_CS \<or> fr_cs fr = KERNEL_CS" and "get_cur_task s \<noteq> 0"
  shows "\<exists>a n. get_next_task s = Some a \<and> a \<noteq> 0 \<and>
    task_store u = (task_store s)(get_cur_task s := saved_frame fr (task_store s (get_cur_task s))) \<and>
    n = task_pid (task_store u a) \<and> cur_task u = n \<and> tss u = task_tss (task_store u (get_task n)) \<and> get_task n \<noteq> 0 \<and>
    r = (if task_state (task_store u (get_task n)) = TASK_RUNNING then setup_task_stack (task_store u (get_task n)) fr
      else setup_syscall_stack (task_store u (get_task n)) fr)"
proof -
  let ?s = "s\<lparr>task_store := (task_store s)(get_cur_task s := saved_frame fr (task_store s (get_cur_task s)))\<rparr>"
  obtain a n cur t where a: "get_next_task s = Some a" "task_at a ?s = Some n"
    "switch_task (task_pid (task_store ?s (get_cur_task s))) (task_pid n) ?s = Some (cur, u)"
    "task_at cur u = Some t" "r = (if task_state t = TASK_RUNNING then setup_task_stack t fr else setup_syscall_stack t fr)"
    using assms(1) unfolding pit_process_eq [OF assms(2,3)] by (auto simp: bind_eq_Some_conv)
  note sw = switch_task_store [OF a(3)]
  have "a \<noteq> 0" "n = task_store u a" "cur \<noteq> 0" "t = task_store u cur"
    using a(2,4) sw(2) by (auto simp: task_at_def split: if_splits)
  then show ?thesis using a(1,5) sw by auto
qed

text \<open>The entry: the interrupted task's structure holds its registers, the others are as they were, and the
  registers are those of the task chosen by \<^verbatim>\<open>get_next_task\<close>.\<close>

lemma tick_result:
  assumes "idt_pit c s = Some (c', u)" and "mode_ok c s"
  shows "\<exists>t a. suspended c t \<and> get_cur_task s \<noteq> 0 \<and> task_store u = (task_store s)(get_cur_task s := t) \<and>
    task_pid t = task_pid (task_store s (get_cur_task s)) \<and> task_ptid t = task_ptid (task_store s (get_cur_task s)) \<and>
    parent_task t = parent_task (task_store s (get_cur_task s)) \<and>
    get_next_task s = Some a \<and> cur_task u = task_pid (task_store u a) \<and> 0 \<le> cur_task u \<and>
    tss u = task_tss (task_store u (get_task (cur_task u))) \<and>
    c' = resumed (task_store u (get_task (cur_task u))) (iret_block c) (entry_ss c s) c"
proof -
  obtain s1 fr ds s2 t' where s1: "save_state (get_cur_task s) (local_esp c s) (r_ebp c) (r_eax c) (r_ebx c) (r_ecx c) (r_edx c)
            (r_esi c) (r_edi c) s = Some s1"
    and s2: "pit_process_interrupt (iret_block c) s1 = Some ((fr, ds), s2)" and u: "u = send_eoi 0 s2"
    and t': "task_at (get_cur_task u) u = Some t'" "c' = load_registers t' fr (entry_ss c s) ds c"
    using assms(1) by (auto simp: idt_pit_def do_idt_pit_def bind_eq_Some_conv)
  let ?a = "get_cur_task s" and ?t = "task_store s (get_cur_task s)"
  note sv = save_state_result [OF s1]
  have cur1: "get_cur_task s1 = ?a" using sv by (simp add: get_cur_task_def)
  have cs: "fr_cs (iret_block c) = USER_CS \<or> fr_cs (iret_block c) = KERNEL_CS"
    using assms(2) by (auto simp: mode_ok_def iret_block_def split: if_splits)
  obtain a where a: "get_next_task s1 = Some a"
    "task_store s2 = (task_store s1)(?a := saved_frame (iret_block c) (task_store s1 ?a))"
    "cur_task s2 = task_pid (task_store s2 a)" "tss s2 = task_tss (task_store s2 (get_task (cur_task s2)))"
    "(fr, ds) = (if task_state (task_store s2 (get_task (cur_task s2))) = TASK_RUNNING
      then setup_task_stack (task_store s2 (get_task (cur_task s2))) (iret_block c)
      else setup_syscall_stack (task_store s2 (get_task (cur_task s2))) (iret_block c))"
    using pit_process_result [OF s2 cs] sv cur1 by auto
  have e: "task_store u = task_store s2" "cur_task u = cur_task s2" "tss u = tss s2"
    unfolding u using send_eoi_state [of 0 s2] by auto
  have cu: "get_cur_task u = get_task (cur_task u)" "0 \<le> cur_task u"
    using t'(1) by (auto simp: task_at_def get_cur_task_def split: if_splits)
  then have t'_eq: "t' = task_store u (get_task (cur_task u))"
    using t'(1) by (auto simp: task_at_def split: if_splits)
  let ?n = "saved_frame (iret_block c) (task_store s1 ?a)"
  have "suspended c ?n"
    using sv assms(2)
    by (auto simp: suspended_def Let_def saved_frame_def save_task_state_def save_syscall_state_def iret_block_def
        local_esp_def mode_ok_def USER_CS_def KERNEL_CS_def split: if_splits)
  moreover have "task_pid ?n = task_pid ?t" "task_ptid ?n = task_ptid ?t" "parent_task ?n = parent_task ?t"
    using sv by (auto simp: saved_frame_def save_task_state_def save_syscall_state_def)
  moreover have "task_store u = (task_store s)(?a := ?n)" using a(2) e(1) sv by auto
  moreover have "get_next_task s = Some a" using a(1) sv by auto
  moreover have "c' = resumed (task_store u (get_task (cur_task u))) (iret_block c) (entry_ss c s) c"
    unfolding t'_eq [symmetric]
    unfolding t'(2) resumed_def t'_eq e a(5) [symmetric] by (simp add: Let_def)
  moreover have "cur_task u = task_pid (task_store u a)" "tss u = task_tss (task_store u (get_task (cur_task u)))"
    unfolding e by (rule a(3), rule a(4))
  ultimately show ?thesis using sv cu(2) by blast
qed

section \<open>Preemption\<close>




lemma cur_task_at: "task_pid_ok (cur_task s) \<Longrightarrow> get_cur_task s = get_task (cur_task s)"
  by (simp add: get_cur_task_def task_pid_ok_def)





section \<open>The round\<close>

lemma switch_task_some:
  assumes "task_pid_ok n" and "get_displaying_terminal s = Some tm" and t: "t = task_store s (get_task n)"
  shows "\<exists>m. switch_task old n s = Some (get_task n, s\<lparr>mem := m, cur_task := n, cur_ptree := task_ptid t, tss := task_tss t,
    cr3 := page_directory t, pd := page_directory t\<rparr>)"
proof -
  let ?m = "st32 (mem s) (dword_at (cr3 s) (pd_index VIRTUAL_VID_MEM)) (entry_4mb GARBAGE_VID_MEM 1)"
  let ?m2 = "if u32_of (task_ptid t) = t_ptid tm
    then st32 ?m (dword_at (page_directory t) (pd_index VIRTUAL_VID_MEM)) (entry_4mb VIDEO 1) else ?m"
  have "rdi (terminal_list s) (current_terminal_index s) = Some tm" using assms(2) by (simp add: get_displaying_terminal_def)
  then show ?thesis
    using task_layout(5) [OF assms(1)] 
    by (intro exI [of _ ?m2])
      (simp add: t switch_task_def Let_def map_4mb_memory set_cur_task_def task_at_def load_tss_def get_displaying_terminal_def)
qed

lemma trees_ok_store:
  assumes "trees_ok s" and "\<And>a. task_pid (f a) = task_pid (task_store s a)" and "\<And>a. task_ptid (f a) = task_ptid (task_store s a)"
    and "ptree_tasks u = ptree_tasks s" "ptree_vector u = ptree_vector s" "max_tasks u = max_tasks s" "max_ptrees u = max_ptrees s"
    "task_vector u = task_vector s" "task_store u = f" "cur_ptree u = int d" "d \<in> used_ptids s"
  shows "trees_ok u"
  using assms by (auto simp: trees_ok_def sched_ok_def used_ptids_def used_pids_def Let_def)

lemma tick_next_turn:
  assumes ok: "trees_ok s" and cur: "task_pid_ok (cur_task s)" and mode: "mode_ok c s"
    and shown: "get_displaying_terminal s = Some tm"
  shows "\<exists>c' u t. idt_pit c s = Some (c', u) \<and> next_turn s = Some t \<and>
    cur_task u = cur_task t \<and> cur_ptree u = cur_ptree t \<and> ptree_tasks u = ptree_tasks t \<and> used_ptids u = used_ptids t \<and>
    trees_ok u \<and> cr3 u = page_directory (task_store u (get_task (cur_task u))) \<and>
    tss u = task_tss (task_store u (get_task (cur_task u))) \<and>
    c' = resumed (task_store u (get_task (cur_task u))) (iret_block c) (entry_ss c s) c \<and> hd (io_trace u) = Out8 0x20 0x60 \<and>
    get_displaying_terminal u = Some tm"
proof -
  obtain i where i: "i \<in> used_ptids s" "cur_ptree s = int i" using ok by (auto simp: trees_ok_def)
  then have i3: "i < 3" using ok by (auto simp: trees_ok_def sched_ok_def)
  let ?d = "next_ptree s i" and ?a = "get_cur_task s" and ?fr = "iret_block c"
  let ?k = "ptree_tasks s ! ?d"
  have d: "?d \<in> used_ptids s" by (rule next_ptree_active [OF i(1)])
  then have k: "task_pid_ok ?k" "task_pid (task_store s (get_task ?k)) = ?k" "task_ptid (task_store s (get_task ?k)) = int ?d"
    using ok by (auto simp: trees_ok_def Let_def)
  have nxt: "get_next_task s = Some (get_task ?k)"
    by (rule get_next_task_eq [OF _ i(2) i3]) (use ok in \<open>simp add: trees_ok_def\<close>)
  have a: "?a \<noteq> 0" "?a = get_task (cur_task s)" using cur_task_at [OF cur] task_layout(5) [OF cur] by simp_all
  obtain t where t: "next_turn s = Some t" "cur_ptree t = int ?d" "cur_task t = ?k" "ptree_tasks t = ptree_tasks s"
    "used_ptids t = used_ptids s"
    using next_turn_moves [OF ok i(2,1)] by blast
  have cs: "fr_cs ?fr = USER_CS \<or> fr_cs ?fr = KERNEL_CS"
    using mode by (auto simp: mode_ok_def iret_block_def split: if_splits)
  obtain t1 where t1: "save_state ?a (local_esp c s) (r_ebp c) (r_eax c) (r_ebx c) (r_ecx c) (r_edx c) (r_esi c) (r_edi c) s =
      Some (s\<lparr>task_store := (task_store s)(?a := t1)\<rparr>)" "task_pid t1 = task_pid (task_store s ?a)" "task_ptid t1 = task_ptid (task_store s ?a)"
    using a(1) by (simp add: save_state_def task_at_def set_task_def)
  let ?s1 = "s\<lparr>task_store := (task_store s)(?a := t1)\<rparr>"
  define f where "f = (task_store s)(?a := saved_frame ?fr t1)"
  let ?s2 = "s\<lparr>task_store := f\<rparr>"
  define n where "n = f (get_task ?k)"
  have c1: "get_cur_task ?s1 = ?a" by (simp add: get_cur_task_def)
  have f: "task_pid (f x) = task_pid (task_store s x)" "task_ptid (f x) = task_ptid (task_store s x)" for x
    using t1 by (auto simp: f_def saved_frame_def save_task_state_def save_syscall_state_def)
  have n: "task_pid n = ?k" "task_ptid n = int ?d" using f k by (simp_all add: n_def)
  have shown2: "get_displaying_terminal ?s2 = Some tm" using shown by (simp add: get_displaying_terminal_def)
  obtain m where m: "switch_task (task_pid (f ?a)) ?k ?s2 = Some (get_task ?k, ?s2\<lparr>mem := m, cur_task := ?k,
      cur_ptree := task_ptid n, tss := task_tss n, cr3 := page_directory n, pd := page_directory n\<rparr>)"
    using switch_task_some [OF k(1) shown2, of n "task_pid (f ?a)"] by (auto simp: n_def)
  let ?s3 = "?s2\<lparr>mem := m, cur_task := ?k, cur_ptree := task_ptid n, tss := task_tss n, cr3 := page_directory n, pd := page_directory n\<rparr>"
  have n0: "get_task ?k \<noteq> 0" by (rule task_layout(5) [OF k(1)])
  obtain fr ds where r: "(if task_state n = TASK_RUNNING then setup_task_stack n ?fr else setup_syscall_stack n ?fr) = (fr, ds)"
    by fastforce
  have pit: "pit_process_interrupt ?fr ?s1 = Some ((fr, ds), ?s3)"
  proof -
    have e: "?s1\<lparr>task_store := (task_store ?s1)(?a := saved_frame ?fr (task_store ?s1 ?a))\<rparr> = ?s2" by (simp add: f_def)
    have "task_at (get_task ?k) ?s2 = Some n" "task_at (get_task ?k) ?s3 = Some n"
      using n0 by (simp_all add: task_at_def n_def)
    then show ?thesis using a(1) c1 nxt m n(1) r unfolding pit_process_eq [OF cs, of ?s1, unfolded c1, OF a(1)] e by simp
  qed
  obtain tr where tr: "send_eoi 0 ?s3 = ?s3\<lparr>io_trace := tr\<rparr>" using send_eoi_state [of 0 ?s3] by blast
  moreover have "hd (io_trace (send_eoi 0 ?s3)) = Out8 0x20 0x60"
    by (simp add: send_eoi_def Let_def cli_and_save_def cli_def outb_def restore_flags_def EOI_def MASTER_COMMAND_def)
  ultimately have hd_tr: "hd tr = Out8 0x20 0x60" by simp
  let ?u = "?s3\<lparr>io_trace := tr\<rparr>"
  have cu: "get_cur_task ?u = get_task ?k" using k(1) by (simp add: get_cur_task_def task_pid_ok_def)
  have nu: "task_store ?u (get_task ?k) = n" by (simp add: n_def)
  have "idt_pit c s = Some (load_registers n fr (entry_ss c s) ds c, ?u)"
    using t1(1) pit tr cu n0 nu by (simp add: idt_pit_def do_idt_pit_def task_at_def)
  then have run: "idt_pit c s = Some (resumed n ?fr (entry_ss c s) c, ?u)" using r by (simp add: resumed_def)
  have "trees_ok ?u"
    by (rule trees_ok_store [OF ok f]) (use d n(2) in simp_all)
  then show ?thesis
    using run t hd_tr nu n by (intro exI [of _ "resumed n ?fr (entry_ss c s) c"] exI [of _ ?u] exI [of _ t]) (use shown in \<open>simp add: used_ptids_def get_displaying_terminal_def\<close>)
qed

text \<open>The abstract round: the queue of the active trees, with the current one at its head.\<close>

definition round_queue :: "'a kernel_scheme \<Rightarrow> nat list" where
  "round_queue s = filter (\<lambda>i. i \<in> used_ptids s) ([nat (cur_ptree s)..<3] @ [0..<nat (cur_ptree s)])"

lemma round_queue_next:
  assumes "used_ptids s \<subseteq> {..<3}" and "i \<in> used_ptids s" "cur_ptree s = int i" and "used_ptids u = used_ptids s" "cur_ptree u = int (next_ptree s i)"
  shows "round_queue u = rotate1 (round_queue s)"
proof -
  have l: "[0..<3] = [0, 1, 2]" "[1..<3] = [1, 2]" "[2..<3] = [2 :: nat]" "[0..<2] = [0, 1 :: nat]" "[Suc 0..<3] = [1, 2]"
    by (simp_all add: upt_conv_Cons)
  consider "i = 0" | "i = 1" | "i = 2" using assms(1,2) by fastforce
  then show ?thesis
    using assms(2-5) by cases (auto simp: round_queue_def next_ptree_values l)
qed

text \<open>The task at the head of the queue and its structure; and one that was interrupted, in its program or in a
  system call.\<close>

definition head_task :: "'a kernel_scheme \<Rightarrow> int" where
  "head_task s = ptree_tasks s ! hd (round_queue s)"

definition interrupted :: "task_t \<Rightarrow> bool" where
  "interrupted t = (task_state t = TASK_RUNNING \<and> tss_cs (task_tss t) = USER_CS \<or>
     task_state t = TASK_SYS_CALL \<and> tss_cs (task_tss t) = KERNEL_CS)"

text \<open>C6. A tick of the timer refines the abstract round: in a well-formed state it succeeds and rotates the queue of the
  active trees by one; the task of the tree then at the head is current, with its address space and task state
  segment loaded; and when it was interrupted earlier, the processor has every register that its structure
  holds of it. The interrupt is acknowledged.\<close>

theorem tick_rotates_round:
  assumes ok: "trees_ok s" and cur: "task_pid_ok (cur_task s)" and mode: "mode_ok c s"
    and shown: "get_displaying_terminal s = Some tm"
  shows "\<exists>c' u. idt_pit c s = Some (c', u) \<and> round_queue u = rotate1 (round_queue s) \<and>
    cur_ptree u = int (hd (round_queue u)) \<and> cur_task u = head_task u \<and> ptree_tasks u = ptree_tasks s \<and> trees_ok u \<and>
    (let t = task_store u (get_task (cur_task u)) in
       cr3 u = page_directory t \<and> tss u = task_tss t \<and> (interrupted t \<longrightarrow> suspended c' t)) \<and>
    hd (io_trace u) = Out8 0x20 0x60"
proof -
  obtain i where i: "i \<in> used_ptids s" "cur_ptree s = int i" using ok by (auto simp: trees_ok_def)
  have sub: "used_ptids s \<subseteq> {..<3}" using ok by (simp add: trees_ok_def sched_ok_def)
  obtain c' u t where u: "idt_pit c s = Some (c', u)" "next_turn s = Some t"
    "cur_task u = cur_task t" "cur_ptree u = cur_ptree t" "ptree_tasks u = ptree_tasks t" "used_ptids u = used_ptids t"
    "trees_ok u" "cr3 u = page_directory (task_store u (get_task (cur_task u)))"
    "tss u = task_tss (task_store u (get_task (cur_task u)))"
    "c' = resumed (task_store u (get_task (cur_task u))) (iret_block c) (entry_ss c s) c" "hd (io_trace u) = Out8 0x20 0x60"
    using tick_next_turn [OF assms] by blast
  from next_turn_moves [OF ok i(2,1)] u(2)
  have t: "cur_ptree t = int (next_ptree s i)" "cur_task t = ptree_tasks s ! next_ptree s i" "ptree_tasks t = ptree_tasks s"
    "used_ptids t = used_ptids s" by auto
  have q: "round_queue u = rotate1 (round_queue s)"
    by (rule round_queue_next [OF sub i]) (use u t in simp_all)
  have "next_ptree s i \<in> used_ptids u" "next_ptree s i < 3"
    using next_ptree_active [OF i(1)] sub u(6) t(4) by auto
  then have hd: "hd (round_queue u) = next_ptree s i"
    using u(4) t(1) by (simp add: round_queue_def upt_conv_Cons)
  have "interrupted v \<longrightarrow> suspended (resumed v fr KERNEL_DS c) v" for v fr
    by (auto simp: interrupted_def suspended_def resumed_def setup_task_stack_def setup_syscall_stack_def load_registers_def load_state_def Let_def
        USER_CS_def KERNEL_CS_def)
  then show ?thesis
    using u t q hd mode_ok_entry [OF mode] by (intro exI [of _ c'] exI [of _ u]) (simp add: head_task_def Let_def)
qed

text \<open>Two trees, with the shell of the first in its program.\<close>

definition cpu_demo :: cpu where
  "cpu_demo = \<lparr>r_eax = 1, r_ebx = 2, r_ecx = 3, r_edx = 4, r_esi = 5, r_edi = 6, r_ebp = 7, r_esp = 0x8400000,
     r_eip = 0x8048123, r_eflags = 0x202, r_cs = 0x23, r_ss = 0x2B, r_ds = 0x2B, r_es = 0x2B, r_fs = 0x2B, r_gs = 0x2B\<rparr>"

definition user_tss :: tss_t where
  "user_tss = (task_tss task_demo_task)\<lparr>tss_ss0 := 0x18, tss_cs := 0x23, tss_ss := 0x2B, tss_eip := 0x8048000\<rparr>"

definition ticks_demo :: kernel where
  "ticks_demo = kernel_demo\<lparr>ptree_vector := 3, ptree_tasks := [1, 5] @ replicate 30 (- 1), cur_ptree := 0, cur_task := 1,
     terminal_list := [terminal_demo], current_terminal_index := 0, tss := user_tss,
     task_store := (\<lambda>a. if a = 0x7FC000 then task_demo_task\<lparr>task_pid := 1, task_ptid := 0, task_tss := user_tss\<rparr>
       else task_demo_task\<lparr>task_pid := 5, task_ptid := 1, task_tss := user_tss\<rparr>)\<rparr>"

lemma ticks_demo_ids: "task_pid_ok 1" "task_pid_ok 5" "get_task 1 = 0x7FC000" "get_task 5 = 0x7F4000"
    "used_ptids ticks_demo = {0, 1}"
proof -
  show "task_pid_ok 1" "task_pid_ok 5" by (simp_all add: task_pid_ok_def)
  then show "get_task 1 = 0x7FC000" "get_task 5 = 0x7F4000" by (simp_all add: task_layout(2))
  have "{i. bit (mask 2 :: int) i} = {0, 1}" by (auto simp: bit_simps)
  then show "used_ptids ticks_demo = {0, 1}" by (simp add: used_ptids_def mask_eq_exp_minus_1 ticks_demo_def)
qed

lemma ticks_demo_ok: "trees_ok ticks_demo" "mode_ok cpu_demo ticks_demo" "get_displaying_terminal ticks_demo = Some terminal_demo"
    "cur_task ticks_demo = 1" "task_pid_ok (cur_task ticks_demo)"
proof -
  have "sched_ok ticks_demo"
    unfolding sched_ok_def ticks_demo_ids(5) by (auto simp: ticks_demo_def kernel_demo_def sched_init_def used_pids_def)
  then show "trees_ok ticks_demo" unfolding trees_ok_def ticks_demo_ids(5) by (simp add: Let_def ticks_demo_ids ticks_demo_def)
  show "mode_ok cpu_demo ticks_demo"
    by (simp add: mode_ok_def cpu_demo_def ticks_demo_def user_tss_def USER_CS_def USER_DS_def KERNEL_DS_def)
  show "get_displaying_terminal ticks_demo = Some terminal_demo"
    by (simp add: get_displaying_terminal_def rdi_def rd_def ticks_demo_def)
  show "cur_task ticks_demo = 1" "task_pid_ok (cur_task ticks_demo)" by (simp_all add: ticks_demo_def task_pid_ok_def)
qed

lemma ticks_demo_sel: "ptree_tasks ticks_demo = [1, 5] @ replicate 30 (- 1)" "cur_ptree ticks_demo = 0"
    "task_store ticks_demo 0x7F4000 = task_demo_task\<lparr>task_pid := 5, task_ptid := 1, task_tss := user_tss\<rparr>"
  by (simp_all add: ticks_demo_def)


theorem tick_rotates_round_witness:
  "\<exists>c' u. idt_pit cpu_demo ticks_demo = Some (c', u) \<and> round_queue u = [1, 0] \<and> cur_task u = 5 \<and> trees_ok u"
proof -
  have q: "round_queue ticks_demo = [0, 1]"
    by (simp add: round_queue_def ticks_demo_ids ticks_demo_sel upt_rec)
  obtain c' u where u: "idt_pit cpu_demo ticks_demo = Some (c', u)" "round_queue u = rotate1 (round_queue ticks_demo)"
    "cur_task u = head_task u" "ptree_tasks u = ptree_tasks ticks_demo" "trees_ok u"
    using tick_rotates_round [OF ticks_demo_ok(1,5,2,3)] by auto
  then show ?thesis by (simp add: q head_task_def ticks_demo_sel)
qed



section \<open>Exceptions\<close>

text \<open>C33. The mark of an exception does not survive the timer: a task that is halted while it is marked returns
  256 to its parent, but when a tick comes between marking and halting the task is marked as
  interrupted instead, and its parent gets the plain status.\<close>

theorem tick_loses_exception:
  assumes child: "child_of pid ppid s" "cur_task s = pid" "length (ptree_tasks s) = 32"
    and marked: "task_state (task_store s (get_task pid)) = TASK_EXCEPTION"
    and tick: "mode_ok c s" "idt_pit c s = Some (c1, s1)"
    and later: "task_store w (get_task pid) = task_store s1 (get_task pid)" "child_of pid ppid w" "cur_task w = pid"
      "length (ptree_tasks w) = 32"
  shows "(\<exists>v. execute_task_return al s = Some (256, v)) \<and> (\<exists>v. execute_task_return al w = Some (uint al, v))"
proof
  show "\<exists>v. execute_task_return al s = Some (256, v)"
    using execute_return_result [OF child, of al] marked by auto
  have "get_cur_task s = get_task pid" using child(1,2) cur_task_at [of s] by (simp add: child_of_def)
  then have "suspended c (task_store w (get_task pid))"
    using tick_result [OF tick(2,1)] later(1) by auto
  then have "task_state (task_store w (get_task pid)) \<noteq> TASK_EXCEPTION" by (simp add: suspended_def Let_def)
  then show "\<exists>v. execute_task_return al w = Some (uint al, v)"
    using execute_return_result [OF later(2-4), of al] by auto
qed

definition marked_demo :: kernel where
  "marked_demo = kernel_demo\<lparr>ptree_vector := 1, ptree_tasks := 4 # replicate 31 (- 1), cur_ptree := 0, cur_task := 4,
     terminal_list := [terminal_demo], current_terminal_index := 0, tss := user_tss,
     task_store := (\<lambda>a. if a = 0x7FC000 then task_demo_task\<lparr>task_pid := 1, task_ptid := 0, task_tss := user_tss\<rparr>
       else task_demo_task\<lparr>task_pid := 4, task_ptid := 0, parent_task := 0x7FC000, task_tss := user_tss,
         task_state := TASK_EXCEPTION\<rparr>)\<rparr>"

theorem tick_loses_exception_witness:
  "\<exists>c1 s1. idt_pit cpu_demo marked_demo = Some (c1, s1) \<and> (\<exists>v. execute_task_return 0 marked_demo = Some (256, v)) \<and>
     (\<exists>v. execute_task_return 0 s1 = Some (0, v))"
proof -
  have u: "used_ptids marked_demo = {0}" by (simp add: used_ptids_def marked_demo_def bit_1_iff)
  have child: "child_of 4 1 marked_demo" "cur_task marked_demo = 4" "length (ptree_tasks marked_demo) = 32"
    "task_state (task_store marked_demo (get_task 4)) = TASK_EXCEPTION" "task_pid_ok (cur_task marked_demo)"
    by (simp_all add: child_of_def family_demo_tasks marked_demo_def)
  have "sched_ok marked_demo"
    unfolding sched_ok_def u by (auto simp: marked_demo_def kernel_demo_def sched_init_def used_pids_def)
  then have ok: "trees_ok marked_demo"
    unfolding trees_ok_def u by (simp add: Let_def family_demo_tasks marked_demo_def)
  have m: "mode_ok cpu_demo marked_demo" "get_displaying_terminal marked_demo = Some terminal_demo"
    by (simp_all add: mode_ok_def cpu_demo_def marked_demo_def user_tss_def USER_CS_def USER_DS_def KERNEL_DS_def
        get_displaying_terminal_def rdi_def rd_def)
  have n: "next_ptree marked_demo 0 = 0" using u by (simp add: next_ptree_values)
  obtain c1 s1 where s1: "idt_pit cpu_demo marked_demo = Some (c1, s1)" "cur_task s1 = 4" "ptree_tasks s1 = ptree_tasks marked_demo"
    using tick_next_turn [OF ok child(5) m] next_turn_moves [OF ok, of 0] n u by (auto simp: marked_demo_def)
  obtain t where t: "task_store s1 = (task_store marked_demo)(0x7F6000 := t)" "task_pid t = 4"
      "parent_task t = 0x7FC000"
  proof -
    have "get_cur_task marked_demo = 0x7F6000" using cur_task_at [OF child(5)] child(2) by (simp add: family_demo_tasks)
    then show ?thesis using tick_result [OF s1(1) m(1)] that by (auto simp: marked_demo_def)
  qed
  have "child_of 4 1 s1" using child(1) t by (simp add: child_of_def family_demo_tasks)
  then show ?thesis
    using tick_loses_exception [OF child(1-4) m(1) s1(1) refl _ s1(2), of 0] s1 child(3) by auto
qed

end
