(* ===== verification/Terminal.thy ===== *)
theory Terminal
  imports TaskSwitch
begin

text \<open>
  The terminal driver, \<^verbatim>\<open>terminal.c\<close>: three terminals, one of them displayed, each with its
  own page, cursor, input line and history. A pointer to a terminal is its index in
  \<^verbatim>\<open>terminal_list\<close>; the terminal of the running task is the one at \<^verbatim>\<open>scheduler.cur_ptree\<close>.
  \<^verbatim>\<open>terminal_read\<close>, which waits for the keyboard, is in theory Keyboard.
\<close>

unbundle bit_operations_syntax

section \<open>Terminals by index\<close>

definition term_at :: "int \<Rightarrow> 'a kernel_scheme \<Rightarrow> terminal option" where
  "term_at i s = rdi (terminal_list s) i"

definition set_term :: "int \<Rightarrow> terminal \<Rightarrow> 'a kernel_scheme \<Rightarrow> 'a kernel_scheme option" where
  "set_term i t s = do { ts \<leftarrow> wri (terminal_list s) i t; Some (s\<lparr>terminal_list := ts\<rparr>) }"

definition displaying :: "'a kernel_scheme \<Rightarrow> int" where
  "displaying s = current_terminal_index s"

definition get_executing_terminal :: "'a kernel_scheme \<Rightarrow> int" where
  "get_executing_terminal s = cur_ptree s"

definition get_last_terminal_line :: "'a kernel_scheme \<Rightarrow> terminal_line option" where
  "get_last_terminal_line s = do { t \<leftarrow> term_at (displaying s) s; Some (previous_input t) }"

section \<open>Opening and closing\<close>

definition open_history_line :: "terminal_line \<Rightarrow> terminal_line option" where
  "open_history_line h = do {
     l \<leftarrow> for_range 0 BUFFER_SIZE (\<lambda>k l. wr l k 0) (line h);
     Some (h\<lparr>input_pointer := 0, line := l\<rparr>) }"

definition open_terminal :: "nat \<Rightarrow> terminal \<Rightarrow> terminal option" where
  "open_terminal i t = (
     let t = t\<lparr>t_screen_x := 0, t_screen_y := 0, history_index := 0, chars_printed := 0,
               starting_offset := SHELL_OFFSET, input := (input t)\<lparr>input_pointer := 0\<rparr>,
               t_ptid := of_nat i, t_state := TERMINAL_IDLE\<rparr>
     in do {
       l \<leftarrow> for_range 0 BUFFER_SIZE (\<lambda>j l. wr l j 0) (line (input t));
       h \<leftarrow> for_range 0 MAX_SUPPORTED_HISTORY (\<lambda>j h. do {
              e \<leftarrow> rd h j;
              e \<leftarrow> open_history_line e;
              wr h j e }) (input_history t);
       vb \<leftarrow> for_range 0 (nat (NUM_ROWS * NUM_COLS)) (\<lambda>j vb. do {
              vb \<leftarrow> wri vb (int j * 2) (chr CHR '' '');
              wri vb (int j * 2 + 1) ATTRIB }) (video_buffer t);
       Some (t\<lparr>input := (input t)\<lparr>line := l\<rparr>, input_history := h, video_buffer := vb\<rparr>) })"

definition terminal_open :: "u8 list \<Rightarrow> 'a kernel_scheme \<Rightarrow> (int \<times> 'a kernel_scheme) option" where
  "terminal_open filename s = do {
     let s = s\<lparr>current_terminal_index := 0\<rparr>;
     ts \<leftarrow> for_range 0 MAX_SUPPORTED_TERMINALS (\<lambda>i ts. do {
             t \<leftarrow> rd ts i;
             t \<leftarrow> open_terminal i t;
             wr ts i t }) (terminal_list s);
     s \<leftarrow> clear (s\<lparr>terminal_list := ts\<rparr>);
     Some (0, set_cursor_pos 0 0 s) }"

definition terminal_close :: "int \<Rightarrow> int" where
  "terminal_close fd = 0"

section \<open>Output\<close>

text \<open>One character through \<^verbatim>\<open>printf\<close> with the terminal's cursor, or through \<^verbatim>\<open>vprintf\<close> to
  its page.\<close>

definition show_char :: "int \<Rightarrow> u8 \<Rightarrow> 'a kernel_scheme \<Rightarrow> 'a kernel_scheme option" where
  "show_char d c s = do {
     t \<leftarrow> term_at d s;
     let s = set_cursor_pos (t_screen_x t) (t_screen_y t) s;
     (_, s) \<leftarrow> printf (cstr ''%c'') [IntArg (scast c)] s;
     let (x, y) = get_cursor_pos s;
     set_term d (t\<lparr>t_screen_x := x, t_screen_y := y\<rparr>) s }"

definition emit_char :: "int \<Rightarrow> int \<Rightarrow> u8 \<Rightarrow> 'a kernel_scheme \<Rightarrow> 'a kernel_scheme option" where
  "emit_char e d c s =
     (if e = d then show_char d c s
      else do {
        t \<leftarrow> term_at e s;
        (_, t) \<leftarrow> vprintf (cstr ''%c'') [IntArg (scast c)] t;
        set_term e t s })"

definition set_chars_printed :: "int \<Rightarrow> int \<Rightarrow> 'a kernel_scheme \<Rightarrow> 'a kernel_scheme option" where
  "set_chars_printed e n s = do { t \<leftarrow> term_at e s; set_term e (t\<lparr>chars_printed := n\<rparr>) s }"

definition count_char :: "int \<Rightarrow> 'a kernel_scheme \<Rightarrow> 'a kernel_scheme option" where
  "count_char e s = do { t \<leftarrow> term_at e s; set_chars_printed e (chars_printed t + 1) s }"

text \<open>One round of the loops of \<^verbatim>\<open>terminal_write\<close> and \<^verbatim>\<open>terminal_write_keypress\<close>.\<close>

definition write_round :: "int \<Rightarrow> int \<Rightarrow> u8 list \<Rightarrow> nat \<Rightarrow> 'a kernel_scheme \<Rightarrow> 'a kernel_scheme option" where
  "write_round e d string i s = do {
     c \<leftarrow> rd string i;
     t \<leftarrow> term_at e s;
     (if chars_printed t > NUM_COLS then do {
        s \<leftarrow> emit_char e d 10 s;
        s \<leftarrow> set_chars_printed e 0 s;
        s \<leftarrow> emit_char e d c s;
        count_char e s }
      else if c = 10 then do {
        s \<leftarrow> set_chars_printed e 0 s;
        s \<leftarrow> emit_char e d c s;
        count_char e s }
      else if c = 0 then Some s
      else do {
        s \<leftarrow> emit_char e d c s;
        count_char e s }) }"

definition terminal_write ::
  "int \<Rightarrow> u8 list option \<Rightarrow> int \<Rightarrow> 'a kernel_scheme \<Rightarrow> (int \<times> 'a kernel_scheme) option" where
  "terminal_write fd buf nbytes s = (
     let s = cli s;
         e = get_executing_terminal s;
         d = displaying s
     in case buf of
          None \<Rightarrow> Some (- 1, sti s)
        | Some string \<Rightarrow>
            (if nbytes \<le> 0 then Some (0, sti s)
             else do {
               s \<leftarrow> for_range 0 (nat nbytes) (write_round e d string) s;
               t \<leftarrow> term_at d s;
               let s = set_blinking_cursor_pos (t_screen_x t) (t_screen_y t) s;
               Some (0, sti s) }))"

definition keypress_round :: "int \<Rightarrow> u8 list \<Rightarrow> nat \<Rightarrow> 'a kernel_scheme \<Rightarrow> 'a kernel_scheme option" where
  "keypress_round d string i s = do {
     c \<leftarrow> rd string i;
     t \<leftarrow> term_at d s;
     let print = (\<lambda>s. do {
           s \<leftarrow> show_char d c s;
           t \<leftarrow> term_at d s;
           count_char d (set_blinking_cursor_pos (t_screen_x t) (t_screen_y t) s) });
     (if chars_printed t > NUM_COLS then do {
        s \<leftarrow> show_char d 10 s;
        s \<leftarrow> set_chars_printed d 0 s;
        print s }
      else if c = 10 then do { s \<leftarrow> set_chars_printed d 0 s; print s }
      else if c = 0 then Some s
      else print s) }"

definition terminal_write_keypress ::
  "u8 list option \<Rightarrow> int \<Rightarrow> 'a kernel_scheme \<Rightarrow> (int \<times> 'a kernel_scheme) option" where
  "terminal_write_keypress buf nbytes s = (
     let d = displaying s
     in case buf of
          None \<Rightarrow> Some (- 1, s)
        | Some string \<Rightarrow>
            (if nbytes \<le> 0 then Some (0, s)
             else do { s \<leftarrow> for_range 0 (nat nbytes) (keypress_round d string) s; Some (0, s) }))"

section \<open>Editing\<close>

definition terminal_backspace :: "'a kernel_scheme \<Rightarrow> 'a kernel_scheme option" where
  "terminal_backspace s = do {
     let d = displaying s;
     t \<leftarrow> term_at d s;
     (if input_pointer (input t) \<le> 0 then Some s
      else do {
        let t = (if input_pointer (input t) \<noteq> NUM_COLS - starting_offset t
                 then t\<lparr>t_screen_x := t_screen_x t - 1\<rparr>
                 else (let t = (if t_screen_y t > 0 then t\<lparr>t_screen_y := t_screen_y t - 1\<rparr> else t)
                       in t\<lparr>t_screen_x := NUM_COLS - 1\<rparr>));
        let t = t\<lparr>chars_printed := chars_printed t - 1,
                  input := (input t)\<lparr>input_pointer := input_pointer (input t) - 1\<rparr>\<rparr>;
        s \<leftarrow> set_term d t s;
        let s = set_cursor_pos (t_screen_x t) (t_screen_y t) s;
        let s = (if t_screen_x t = 0 then set_blinking_cursor_pos (t_screen_x t) (t_screen_y t - 1) s
                 else set_blinking_cursor_pos (t_screen_x t) (t_screen_y t) s);
        (_, s) \<leftarrow> printf (cstr ''%c'') [IntArg 32] s;
        Some s }) }"

definition terminal_clear :: "'a kernel_scheme \<Rightarrow> 'a kernel_scheme option" where
  "terminal_clear s = do {
     s \<leftarrow> clear s;
     let d = displaying s;
     t \<leftarrow> term_at d s;
     s \<leftarrow> set_term d (t\<lparr>t_screen_x := 0, t_screen_y := 0\<rparr>) s;
     let s = set_cursor_pos 0 0 s;
     Some (set_blinking_cursor_pos 0 0 s) }"

text \<open>One round of the copy loop of \<^verbatim>\<open>terminal_copy_to_history\<close>.\<close>

definition history_round :: "bool \<Rightarrow> nat \<Rightarrow> terminal \<Rightarrow> terminal option" where
  "history_round is_shell i t = do {
     c \<leftarrow> rd (line (input t)) i;
     l \<leftarrow> wr (line (previous_input t)) i c;
     let t = t\<lparr>previous_input := (previous_input t)\<lparr>line := l\<rparr>\<rparr>;
     (if is_shell then do {
        e \<leftarrow> rdi (input_history t) (history_index t);
        l \<leftarrow> wr (line e) i c;
        h \<leftarrow> wri (input_history t) (history_index t) (e\<lparr>line := l\<rparr>);
        Some (t\<lparr>input_history := h\<rparr>) }
      else Some t) }"

definition terminal_copy_to_history :: "'a kernel_scheme \<Rightarrow> 'a kernel_scheme option" where
  "terminal_copy_to_history s = do {
     task \<leftarrow> task_at (get_cur_task s) s;
     not_copy \<leftarrow> strncmp (p_name task) (cstr ''shell'') 5;
     let is_shell = (not_copy = 0);
     let d = displaying s;
     t \<leftarrow> term_at d s;
     let n = input_pointer (input t);
     t \<leftarrow> (if is_shell then do {
             e \<leftarrow> rdi (input_history t) (history_index t);
             h \<leftarrow> wri (input_history t) (history_index t) (e\<lparr>input_pointer := n\<rparr>);
             Some (t\<lparr>input_history := h\<rparr>) }
           else Some t);
     let t = t\<lparr>previous_input := (previous_input t)\<lparr>input_pointer := n\<rparr>\<rparr>;
     t \<leftarrow> for_range 0 (nat n) (history_round is_shell) t;
     let t = (if is_shell
              then t\<lparr>history_index := cmod (history_index t + 1) (int MAX_SUPPORTED_HISTORY)\<rparr> else t);
     set_term d t s }"

text \<open>The two later parts of \<^verbatim>\<open>terminal_add_to_buffer\<close>: entering a finished line, and moving to
  the next row.\<close>

definition finish_line :: "int \<Rightarrow> terminal \<Rightarrow> u8 \<Rightarrow> 'a kernel_scheme \<Rightarrow> 'a kernel_scheme option" where
  "finish_line d t char_to_print s =
     (if char_to_print = 10 then do {
        s \<leftarrow> set_term d (t\<lparr>t_state := TERMINAL_DONE_READ\<rparr>) s;
        s \<leftarrow> terminal_copy_to_history s;
        t \<leftarrow> term_at d s;
        set_term d (t\<lparr>input := (input t)\<lparr>input_pointer := 0\<rparr>\<rparr>) s }
      else Some s)"

definition next_row :: "int \<Rightarrow> 'a kernel_scheme \<Rightarrow> 'a kernel_scheme option" where
  "next_row d s = do {
     t \<leftarrow> term_at d s;
     (if t_screen_x t = 0 \<and> input_pointer (input t) \<ge> NUM_COLS - starting_offset t then do {
        let t = t\<lparr>t_screen_y := t_screen_y t + 1\<rparr>;
        s \<leftarrow> (if t_screen_y t \<ge> NUM_ROWS - 1 then do {
                vm \<leftarrow> scroll_up (video_mem s);
                Some (s\<lparr>video_mem := vm\<rparr>) }
              else Some s);
        set_term d (t\<lparr>chars_printed := 0\<rparr>) s }
      else Some s) }"

definition terminal_add_to_buffer :: "u8 \<Rightarrow> 'a kernel_scheme \<Rightarrow> 'a kernel_scheme option" where
  "terminal_add_to_buffer char_to_print s = do {
     let d = displaying s;
     t \<leftarrow> term_at d s;
     (if input_pointer (input t) \<ge> int BUFFER_SIZE - 1 then Some s
      else do {
        l \<leftarrow> wri (line (input t)) (input_pointer (input t)) char_to_print;
        let t = t\<lparr>input := \<lparr>input_pointer = input_pointer (input t) + 1, line = l\<rparr>\<rparr>;
        s \<leftarrow> set_term d t s;
        s \<leftarrow> finish_line d t char_to_print s;
        (_, s) \<leftarrow> terminal_write_keypress (Some [char_to_print]) 1 s;
        next_row d s }) }"

section \<open>Choosing the displayed terminal\<close>

text \<open>\<^verbatim>\<open>memcpy\<close> between two arrays.\<close>

definition copy_bytes :: "u8 list \<Rightarrow> u8 list \<Rightarrow> nat \<Rightarrow> u8 list option" where
  "copy_bytes dest src n = for_range 0 n (\<lambda>i dest. do { c \<leftarrow> rd src i; wr dest i c }) dest"

definition set_current_terminal :: "int \<Rightarrow> 'a kernel_scheme \<Rightarrow> 'a kernel_scheme option" where
  "set_current_terminal terminal_index s =
     (if current_terminal_index s = terminal_index \<or> terminal_index < 0 \<or> terminal_index > 2 then Some s
      else do {
        old \<leftarrow> term_at (displaying s) s;
        vb \<leftarrow> copy_bytes (video_buffer old) (video_mem s) (nat (NUM_COLS * NUM_ROWS * 2));
        s \<leftarrow> set_term (displaying s) (old\<lparr>video_buffer := vb\<rparr>) s;
        let s = s\<lparr>current_terminal_index := terminal_index\<rparr>;
        new \<leftarrow> term_at (displaying s) s;
        vm \<leftarrow> copy_bytes (video_mem s) (video_buffer new) (nat (NUM_COLS * NUM_ROWS * 2));
        let s = s\<lparr>video_mem := vm\<rparr>;
        t \<leftarrow> term_at terminal_index s;
        Some (set_blinking_cursor_pos (t_screen_x t) (t_screen_y t) s) })"

section \<open>Reading and writing terminals\<close>

lemma term_at_set [simp]:
  assumes "set_term i t s = Some u"
  shows "term_at j u = (if i = j then Some t else term_at j s)"
  using assms by (auto simp: set_term_def term_at_def wri_def wr_def rdi_def rd_def bind_eq_Some_conv nth_list_update
      split: if_splits)

lemma set_term_in:
  assumes "term_at i s = Some t0"
  shows "set_term i t s = Some (s\<lparr>terminal_list := (terminal_list s)[nat i := t]\<rparr>)"
  using assms by (auto simp: set_term_def term_at_def wri_def wr_def rdi_def rd_def split: if_splits)

lemma term_at_update:
  assumes "term_at i s = Some t0"
  shows "term_at j (s\<lparr>terminal_list := (terminal_list s)[nat i := t]\<rparr>) = (if j = i then Some t else term_at j s)"
  using assms by (auto simp: term_at_def rdi_def rd_def nth_list_update split: if_splits)

lemma term_at_cong: "terminal_list u = terminal_list s \<Longrightarrow> term_at i u = term_at i s"
  by (simp add: term_at_def)

text \<open>Everything but the screen, the terminals, the flags and the ports is as before.\<close>

definition only_terminals :: "'a kernel_scheme \<Rightarrow> 'a kernel_scheme \<Rightarrow> bool" where
  "only_terminals s u = (u\<lparr>screen_x := screen_x s, screen_y := screen_y s, video_mem := video_mem s,
     terminal_list := terminal_list s, io_trace := io_trace s\<rparr> = s)"

lemma only_terminals_refl [simp, intro]: "only_terminals s s"
  by (simp add: only_terminals_def)

lemma only_terminals_trans:
  assumes "only_terminals s t" and "only_terminals t u"
  shows "only_terminals s u"
proof -
  have "u\<lparr>screen_x := screen_x s, screen_y := screen_y s, video_mem := video_mem s,
      terminal_list := terminal_list s, io_trace := io_trace s\<rparr> =
    (u\<lparr>screen_x := screen_x t, screen_y := screen_y t, video_mem := video_mem t, terminal_list := terminal_list t,
      io_trace := io_trace t\<rparr>)\<lparr>screen_x := screen_x s, screen_y := screen_y s, video_mem := video_mem s,
      terminal_list := terminal_list s, io_trace := io_trace s\<rparr>" by simp
  then show ?thesis using assms by (simp only: only_terminals_def)
qed

lemma only_terminals_fields:
  assumes "only_terminals s u"
  shows "cur_task u = cur_task s" "cur_ptree u = cur_ptree s" "current_terminal_index u = current_terminal_index s"
    "task_store u = task_store s" "mem u = mem s" "eflags u = eflags s"
proof -
  have e: "f s = f (u\<lparr>screen_x := screen_x s, screen_y := screen_y s, video_mem := video_mem s,
     terminal_list := terminal_list s, io_trace := io_trace s\<rparr>)" for f :: "'a kernel_scheme \<Rightarrow> 'b"
    using assms unfolding only_terminals_def by (rule arg_cong [OF sym])
  show "cur_task u = cur_task s" "cur_ptree u = cur_ptree s" "current_terminal_index u = current_terminal_index s"
    "task_store u = task_store s" "mem u = mem s" "eflags u = eflags s"
    using e [of cur_task] e [of cur_ptree] e [of current_terminal_index] e [of task_store] e [of mem] e [of eflags]
    by simp_all
qed

section \<open>One character\<close>

lemma scast_u8_u32 [simp]: "(ucast (scast (c :: u8) :: u32) :: u8) = c"
  by (rule bit_word_eqI) (auto simp: bit_simps)

lemma print_char:
  "printf (cstr ''%c'') [IntArg v] s = do { s \<leftarrow> putc (ucast v) s; Some (2, s) }"
  "vprintf (cstr ''%c'') [IntArg v] t = do { t \<leftarrow> vputc (ucast v) t; Some (2, t) }"
  by (simp_all add: printf_def vprintf_def cstr_def bytes_of_def convert_def) (simp_all add: numeral_2_eq_2)

text \<open>What the user of a terminal sees: the screen for the displayed one, its own page for another.\<close>

definition shown_at :: "int \<Rightarrow> int \<Rightarrow> terminal \<Rightarrow> 'a kernel_scheme \<Rightarrow> screen" where
  "shown_at e d t s = (t_screen_x t, t_screen_y t, cells_of (if e = d then video_mem s else video_buffer t))"

definition visible :: "int \<Rightarrow> int \<Rightarrow> terminal \<Rightarrow> 'a kernel_scheme \<Rightarrow> bool" where
  "visible e d t s = (on_screen (t_screen_x t) (t_screen_y t) \<and> page (video_mem s) \<and>
     on_screen (screen_x s) (screen_y s) \<and> page (video_buffer t))"

lemma set_cursor_inside:
  "on_screen x y \<Longrightarrow> set_cursor_pos x y s = s\<lparr>screen_x := x, screen_y := y\<rparr>"
  by (simp add: set_cursor_pos_def on_screen_def NUM_COLS_def NUM_ROWS_def Let_def)

text \<open>The parts of a terminal that output does not touch.\<close>

definition same_input :: "terminal \<Rightarrow> terminal \<Rightarrow> bool" where
  "same_input t t' = (t'\<lparr>t_screen_x := t_screen_x t, t_screen_y := t_screen_y t, video_buffer := video_buffer t,
     chars_printed := chars_printed t\<rparr> = t \<and> length (video_buffer t') = length (video_buffer t))"

lemma same_input_refl [simp, intro]: "same_input t t"
  by (simp add: same_input_def)

lemma same_input_trans:
  assumes "same_input t t'" and "same_input t' t''"
  shows "same_input t t''"
proof -
  have "t''\<lparr>t_screen_x := t_screen_x t, t_screen_y := t_screen_y t, video_buffer := video_buffer t,
      chars_printed := chars_printed t\<rparr> = (t''\<lparr>t_screen_x := t_screen_x t', t_screen_y := t_screen_y t',
      video_buffer := video_buffer t', chars_printed := chars_printed t'\<rparr>)\<lparr>t_screen_x := t_screen_x t,
      t_screen_y := t_screen_y t, video_buffer := video_buffer t, chars_printed := chars_printed t\<rparr>" by simp
  then show ?thesis using assms unfolding same_input_def by metis
qed

text \<open>The effect of writing to terminal \<^term>\<open>e\<close>: only it changes, and the screen only if it is displayed.\<close>

definition writes_only :: "int \<Rightarrow> int \<Rightarrow> 'a kernel_scheme \<Rightarrow> 'a kernel_scheme \<Rightarrow> bool" where
  "writes_only e d s u = (only_terminals s u \<and> (\<forall>j. j \<noteq> e \<longrightarrow> term_at j u = term_at j s) \<and>
     length (terminal_list u) = length (terminal_list s) \<and>
     (e \<noteq> d \<longrightarrow> screen_x u = screen_x s \<and> screen_y u = screen_y s \<and> video_mem u = video_mem s))"

lemma writes_only_refl [simp, intro]: "writes_only e d s s"
  by (simp add: writes_only_def)

lemma writes_only_trans: "writes_only e d s t \<Longrightarrow> writes_only e d t u \<Longrightarrow> writes_only e d s u"
  unfolding writes_only_def by (auto intro: only_terminals_trans)

lemma emit_char_shows:
  assumes t: "term_at e s = Some t" and vis: "visible e d t s"
  shows "\<exists>u t'. emit_char e d c s = Some u \<and> term_at e u = Some t' \<and> visible e d t' u \<and>
    shown_at e d t' u = type_char c (shown_at e d t s) \<and> chars_printed t' = chars_printed t \<and>
    same_input t t' \<and> writes_only e d s u"
proof (cases "e = d")
  case True
  let ?s = "s\<lparr>screen_x := t_screen_x t, screen_y := t_screen_y t\<rparr>"
  have "screen_ok ?s" using vis by (simp add: screen_ok_def visible_def)
  then obtain v where v: "putc c ?s = Some v" "screen_ok v" "screen_of v = type_char c (screen_of ?s)"
    using console_dev.put_char by blast
  have f: "v = ?s\<lparr>screen_x := screen_x v, screen_y := screen_y v, video_mem := video_mem v\<rparr>"
    by (rule putc_frame [OF v(1)])
  let ?t = "t\<lparr>t_screen_x := screen_x v, t_screen_y := screen_y v\<rparr>"
  let ?u = "s\<lparr>screen_x := screen_x v, screen_y := screen_y v, video_mem := video_mem v,
    terminal_list := (terminal_list s)[nat e := ?t]\<rparr>"
  have tl: "terminal_list v = terminal_list s" by (subst f) simp
  have ve: "v\<lparr>terminal_list := (terminal_list v)[nat e := ?t]\<rparr> = ?u" by (subst f, subst tl) simp
  have tv: "term_at e v = Some t" using t tl by (simp add: term_at_def)
  have "emit_char e d c s = Some ?u"
    using True t vis v(1) set_term_in [OF tv, of ?t] ve
    by (simp add: emit_char_def show_char_def set_cursor_inside visible_def print_char get_cursor_pos_def)
  moreover have "term_at j ?u = (if j = e then Some ?t else term_at j s)" for j
    using term_at_update [OF t, of j ?t] by (simp add: term_at_def)
  moreover have "visible e d ?t ?u" using v(2) vis True by (simp add: visible_def screen_ok_def)
  moreover have "shown_at e d ?t ?u = type_char c (shown_at e d t s)"
    using v(3) True by (simp add: shown_at_def screen_of_def)
  moreover have "same_input t ?t" by (simp add: same_input_def)
  moreover have "writes_only e d s ?u"
    using calculation(2) True by (simp add: writes_only_def only_terminals_def)
  ultimately show ?thesis by (intro exI [of _ ?u] exI [of _ ?t]) simp
next
  case False
  have "terminal_shown t" using vis by (simp add: visible_def terminal_shown_def)
  then obtain t' where t': "vputc c t = Some t'" "terminal_shown t'" "terminal_screen t' = type_char c (terminal_screen t)"
    using terminal_dev.put_char by blast
  have f: "t' = t\<lparr>t_screen_x := t_screen_x t', t_screen_y := t_screen_y t', video_buffer := video_buffer t'\<rparr>"
    by (rule vputc_frame [OF t'(1)])
  let ?u = "s\<lparr>terminal_list := (terminal_list s)[nat e := t']\<rparr>"
  have "emit_char e d c s = Some ?u"
    using False t t'(1) set_term_in [OF t, of t'] by (simp add: emit_char_def print_char)
  moreover note term_at_update [OF t, of _ t']
  moreover have "visible e d t' ?u" using t'(2) vis by (simp add: visible_def terminal_shown_def)
  moreover have "shown_at e d t' ?u = type_char c (shown_at e d t s)"
    using t'(3) False by (simp add: shown_at_def terminal_screen_def)
  moreover have "chars_printed t' = chars_printed t" by (subst f) simp
  moreover have "length (video_buffer t') = length (video_buffer t)"
    using t'(2) vis by (simp add: visible_def terminal_shown_def page_def)
  then have "same_input t t'" by (subst f) (simp add: same_input_def)
  moreover have "writes_only e d s ?u"
    using term_at_update [OF t, of _ t'] by (simp add: writes_only_def only_terminals_def)
  ultimately show ?thesis by (intro exI [of _ ?u] exI [of _ t']) simp
qed

section \<open>Writing a buffer\<close>

text \<open>The bytes that a byte of the buffer puts on the screen when \<^term>\<open>n\<close> characters have been counted
  on the line, and the count after it.\<close>

definition emitted :: "int \<Rightarrow> u8 \<Rightarrow> u8 list" where
  "emitted n c = (if n > 80 then [10, c] else if c = 0 then [] else [c])"

definition next_count :: "int \<Rightarrow> u8 \<Rightarrow> int" where
  "next_count n c = (if n > 80 \<or> c = 10 then 1 else if c = 0 then n else n + 1)"

fun wrap_text :: "int \<Rightarrow> u8 list \<Rightarrow> u8 list" where
  "wrap_text n [] = []"
| "wrap_text n (c # cs) = emitted n c @ wrap_text (next_count n c) cs"

lemma wrap_text_snoc: "wrap_text n (cs @ [c]) = wrap_text n cs @ emitted (foldl next_count n cs) c"
  by (induction cs arbitrary: n) auto

text \<open>A terminal that can be written to, and what a run of output characters does to it.\<close>

definition typed :: "int \<Rightarrow> int \<Rightarrow> u8 list \<Rightarrow> 'a kernel_scheme \<Rightarrow> 'a kernel_scheme \<Rightarrow> bool" where
  "typed e d cs s u = (\<exists>t t'. term_at e s = Some t \<and> term_at e u = Some t' \<and> visible e d t' u \<and>
     shown_at e d t' u = fold type_char cs (shown_at e d t s) \<and> same_input t t' \<and> writes_only e d s u)"

lemma typed_nil:
  assumes "term_at e s = Some t" and "visible e d t s"
  shows "typed e d [] s s"
  using assms by (simp add: typed_def)

lemma typed_trans:
  assumes "typed e d cs s u" and "typed e d ds u v"
  shows "typed e d (cs @ ds) s v"
proof -
  obtain t t' where 1: "term_at e s = Some t" "term_at e u = Some t'" "visible e d t' u"
    "shown_at e d t' u = fold type_char cs (shown_at e d t s)" "same_input t t'" "writes_only e d s u"
    using assms(1) unfolding typed_def by blast
  obtain t'' where 2: "term_at e v = Some t''" "visible e d t'' v"
    "shown_at e d t'' v = fold type_char ds (shown_at e d t' u)" "same_input t' t''" "writes_only e d u v"
    using assms(2) 1(2) unfolding typed_def by auto
  show ?thesis
    unfolding typed_def
    using 1 2 same_input_trans writes_only_trans
    by (intro exI [of _ t] exI [of _ t'']) (auto intro: same_input_trans writes_only_trans)
qed

lemma emit_char_typed:
  assumes t: "term_at e s = Some t" and vis: "visible e d t s"
  shows "\<exists>u t'. emit_char e d c s = Some u \<and> term_at e u = Some t' \<and> visible e d t' u \<and>
    chars_printed t' = chars_printed t \<and> typed e d [c] s u"
  using emit_char_shows [OF assms, of c] assms(1) unfolding typed_def by auto

lemma set_chars_printed_typed:
  assumes t: "term_at e s = Some t" and vis: "visible e d t s"
  shows "\<exists>u t'. set_chars_printed e n s = Some u \<and> term_at e u = Some t' \<and> visible e d t' u \<and>
    chars_printed t' = n \<and> typed e d [] s u"
proof -
  let ?t = "t\<lparr>chars_printed := n\<rparr>" and ?u = "s\<lparr>terminal_list := (terminal_list s)[nat e := t\<lparr>chars_printed := n\<rparr>]\<rparr>"
  have u: "set_chars_printed e n s = Some ?u" using t set_term_in [OF t] by (simp add: set_chars_printed_def)
  have w: "writes_only e d s ?u"
    using term_at_update [OF t, of _ ?t] by (simp add: writes_only_def only_terminals_def)
  have "visible e d ?t ?u" "shown_at e d ?t ?u = shown_at e d t s" "same_input t ?t"
    using vis by (simp_all add: visible_def shown_at_def same_input_def)
  then show ?thesis
    using u w term_at_update [OF t, of e ?t] t unfolding typed_def
    by (intro exI [of _ ?u] exI [of _ ?t]) auto
qed

lemma count_char_typed:
  assumes t: "term_at e s = Some t" and vis: "visible e d t s"
  shows "\<exists>u t'. count_char e s = Some u \<and> term_at e u = Some t' \<and> visible e d t' u \<and>
    chars_printed t' = chars_printed t + 1 \<and> typed e d [] s u"
  using set_chars_printed_typed [OF assms, of "chars_printed t + 1"] t by (simp add: count_char_def)

text \<open>A character and the count after it.\<close>

lemma emit_count_typed:
  assumes t: "term_at e s = Some t" and vis: "visible e d t s"
  shows "\<exists>u t'. do { s \<leftarrow> emit_char e d c s; count_char e s } = Some u \<and> term_at e u = Some t' \<and> visible e d t' u \<and>
    chars_printed t' = chars_printed t + 1 \<and> typed e d [c] s u"
proof -
  obtain v t1 where v: "emit_char e d c s = Some v" "term_at e v = Some t1" "visible e d t1 v"
    "chars_printed t1 = chars_printed t" "typed e d [c] s v"
    using emit_char_typed [OF assms] by blast
  obtain u t2 where u: "count_char e v = Some u" "term_at e u = Some t2" "visible e d t2 u"
    "chars_printed t2 = chars_printed t1 + 1" "typed e d [] v u"
    using count_char_typed [OF v(2,3)] by blast
  have "typed e d [c] s u" using typed_trans [OF v(5) u(5)] by simp
  then show ?thesis using v u by simp
qed

lemma write_round_typed:
  assumes t: "term_at e s = Some t" and vis: "visible e d t s" and i: "i < length string"
  shows "\<exists>u t'. write_round e d string i s = Some u \<and> term_at e u = Some t' \<and> visible e d t' u \<and>
    chars_printed t' = next_count (chars_printed t) (string ! i) \<and>
    typed e d (emitted (chars_printed t) (string ! i)) s u"
proof -
  let ?c = "string ! i"
  note start = t vis
  consider (wrap) "chars_printed t > 80" | (line) "chars_printed t \<le> 80" "?c = 10"
    | (skip) "chars_printed t \<le> 80" "?c = 0" | (plain) "chars_printed t \<le> 80" "?c \<noteq> 10" "?c \<noteq> 0"
    by linarith
  then show ?thesis
  proof cases
    case wrap
    obtain s1 t1 where 1: "emit_char e d 10 s = Some s1" "term_at e s1 = Some t1" "visible e d t1 s1" "typed e d [10] s s1"
      using emit_char_typed [OF start] by blast
    obtain s2 t2 where 2: "set_chars_printed e 0 s1 = Some s2" "term_at e s2 = Some t2" "visible e d t2 s2"
      "chars_printed t2 = 0" "typed e d [] s1 s2"
      using set_chars_printed_typed [OF 1(2,3)] by blast
    obtain u t' where 3: "do { s \<leftarrow> emit_char e d ?c s2; count_char e s } = Some u" "term_at e u = Some t'"
      "visible e d t' u" "chars_printed t' = chars_printed t2 + 1" "typed e d [?c] s2 u"
      using emit_count_typed [OF 2(2,3)] by blast
    have "typed e d [10, ?c] s u" using typed_trans [OF typed_trans [OF 1(4) 2(5)] 3(5)] by simp
    then show ?thesis using wrap i t 1 2 3
      by (auto simp: write_round_def rd_in NUM_COLS_def emitted_def next_count_def)
  next
    case line
    obtain s2 t2 where 2: "set_chars_printed e 0 s = Some s2" "term_at e s2 = Some t2" "visible e d t2 s2"
      "chars_printed t2 = 0" "typed e d [] s s2"
      using set_chars_printed_typed [OF start] by blast
    obtain u t' where 3: "do { s \<leftarrow> emit_char e d ?c s2; count_char e s } = Some u" "term_at e u = Some t'"
      "visible e d t' u" "chars_printed t' = chars_printed t2 + 1" "typed e d [?c] s2 u"
      using emit_count_typed [OF 2(2,3)] by blast
    have "typed e d [?c] s u" using typed_trans [OF 2(5) 3(5)] by simp
    then show ?thesis using line i t 2 3
      by (auto simp: write_round_def rd_in NUM_COLS_def emitted_def next_count_def)
  next
    case skip
    then show ?thesis using i start typed_nil [OF start]
      by (auto simp: write_round_def rd_in NUM_COLS_def emitted_def next_count_def)
  next
    case plain
    then show ?thesis using emit_count_typed [OF start, of ?c] i t
      by (auto simp: write_round_def rd_in NUM_COLS_def emitted_def next_count_def)
  qed
qed

lemma write_loop_typed:
  assumes t: "term_at e s = Some t" and vis: "visible e d t s" and n: "n \<le> length string"
  shows "\<exists>u t'. for_range 0 n (write_round e d string) s = Some u \<and> term_at e u = Some t' \<and> visible e d t' u \<and>
    chars_printed t' = foldl next_count (chars_printed t) (take n string) \<and>
    typed e d (wrap_text (chars_printed t) (take n string)) s u"
  using n
proof (induction n)
  case 0
  then show ?case using t vis typed_nil [OF t vis] by simp
next
  case (Suc n)
  then obtain v t1 where v: "for_range 0 n (write_round e d string) s = Some v" "term_at e v = Some t1"
    "visible e d t1 v" "chars_printed t1 = foldl next_count (chars_printed t) (take n string)"
    "typed e d (wrap_text (chars_printed t) (take n string)) s v" by auto
  have i: "n < length string" using Suc.prems by simp
  obtain u t' where u: "write_round e d string n v = Some u" "term_at e u = Some t'" "visible e d t' u"
    "chars_printed t' = next_count (chars_printed t1) (string ! n)"
    "typed e d (emitted (chars_printed t1) (string ! n)) v u"
    using write_round_typed [OF v(2,3) i] by blast
  show ?case
    using v u typed_trans [OF v(5) u(5)] i
    by (simp add: for_range_last take_Suc_conv_app_nth wrap_text_snoc)
qed

section \<open>Properties of output\<close>

definition terminals_demo :: kernel where
  "terminals_demo = kernel_demo\<lparr>terminal_list := [terminal_demo, terminal_demo\<lparr>chars_printed := 81\<rparr>, terminal_demo],
     current_terminal_index := 0, cur_ptree := 1\<rparr>"

lemma terminal_demo_visible: "visible 1 0 (terminal_demo\<lparr>chars_printed := 81\<rparr>) terminals_demo"
  by (simp add: visible_def terminals_demo_def terminal_demo_def kernel_demo_def sched_init_def tasks.defs
      tasks_demo_def filesys.defs fs_demo_def page_def on_screen_def)

text \<open>The whole call: the text is typed on the terminal of the running task, and only terminals and the
  interrupt flag change.\<close>

lemma terminal_write_typed:
  assumes e: "e = cur_ptree s" "d = current_terminal_index s" and t: "term_at e s = Some t" "visible e d t s"
    and d: "term_at d s = Some td" and n: "nat n \<le> length string"
  shows "\<exists>u t'. terminal_write fd (Some string) n s = Some (0, u) \<and> term_at e u = Some t' \<and> visible e d t' u \<and>
    shown_at e d t' u = fold type_char (wrap_text (chars_printed t) (take (nat n) string)) (shown_at e d t s) \<and>
    chars_printed t' = foldl next_count (chars_printed t) (take (nat n) string) \<and> same_input t t' \<and>
    interrupts_on u \<and> writes_only e d (s\<lparr>eflags := eflags u\<rparr>) u"
proof -
  have c: "term_at e (cli s) = Some t" "visible e d t (cli s)"
    using t by (simp_all add: cli_def term_at_def visible_def)
  obtain v t' where v: "for_range 0 (nat n) (write_round e d string) (cli s) = Some v" "term_at e v = Some t'"
    "visible e d t' v" "chars_printed t' = foldl next_count (chars_printed t) (take (nat n) string)"
    "typed e d (wrap_text (chars_printed t) (take (nat n) string)) (cli s) v"
    using write_loop_typed [OF c n] by blast
  have ty: "shown_at e d t' v = fold type_char (wrap_text (chars_printed t) (take (nat n) string)) (shown_at e d t s)"
    "same_input t t'" "writes_only e d (cli s) v"
    using v(2,5) c(1) by (auto simp: typed_def shown_at_def cli_def)
  have "term_at d (cli s) = Some td" using d by (simp add: cli_def term_at_def)
  then obtain tv where tv: "term_at d v = Some tv" using ty(3) v(2) by (cases "d = e") (auto simp: writes_only_def)
  define u where "u = (if n \<le> 0 then sti v else sti (set_blinking_cursor_pos (t_screen_x tv) (t_screen_y tv) v))"
  have f: "terminal_list u = terminal_list v" "video_mem u = video_mem v" "screen_x u = screen_x v" "screen_y u = screen_y v"
    by (simp_all add: u_def sti_def set_blinking_cursor_pos_def outw_def Let_def)
  have x: "only_terminals (s\<lparr>eflags := eflags u\<rparr>) u"
  proof -
    have "only_terminals (cli s) v" using ty(3) by (simp add: writes_only_def)
    then have w: "v\<lparr>eflags := eflags v OR IF_MASK, screen_x := screen_x s, screen_y := screen_y s, video_mem := video_mem s,
        terminal_list := terminal_list s, io_trace := io_trace s\<rparr> = s\<lparr>eflags := eflags v OR IF_MASK\<rparr>"
      unfolding only_terminals_def cli_def by (cases v; cases s) simp
    show ?thesis
      using w by (cases "n \<le> 0")
        (simp_all add: only_terminals_def u_def sti_def set_blinking_cursor_pos_def outw_def Let_def)
  qed
  have "terminal_write fd (Some string) n s = Some (0, u)"
    using v(1) tv e by (cases "n \<le> 0") (auto simp: terminal_write_def Let_def get_executing_terminal_def displaying_def cli_def u_def)
  moreover have "writes_only e d (s\<lparr>eflags := eflags u\<rparr>) u"
    using ty(3) f x by (simp add: writes_only_def term_at_def cli_def)
  moreover have "interrupts_on u" by (simp add: u_def interrupts_on_sti)
  moreover have "shown_at e d t' u = shown_at e d t' v" "visible e d t' u" "term_at e u = Some t'"
    using f v(2,3) by (simp_all add: shown_at_def visible_def term_at_def)
  ultimately show ?thesis
    using v(4) ty(1,2) by (intro exI [of _ u] exI [of _ t']) simp
qed

text \<open>C15. Writing to a terminal shows the bytes of the buffer on the terminal of the running task, with a
  newline inserted where more than 80 characters have been counted on a line and NUL bytes left out,
  whether it is the displayed one or not. A task whose terminal is in the background changes only
  that terminal: neither the screen nor any other terminal. Interrupts are on afterwards.\<close>

theorem terminal_write_shows_text:
  assumes e: "e = cur_ptree s" "d = current_terminal_index s" and t: "term_at e s = Some t" "visible e d t s"
    and d: "term_at d s = Some td" and n: "0 < n" "nat n \<le> length string"
  shows "\<exists>u t'. terminal_write fd (Some string) n s = Some (0, u) \<and> term_at e u = Some t' \<and>
    shown_at e d t' u = fold type_char (wrap_text (chars_printed t) (take (nat n) string)) (shown_at e d t s) \<and>
    same_input t t' \<and> interrupts_on u \<and> (\<forall>j. j \<noteq> e \<longrightarrow> term_at j u = term_at j s) \<and>
    (e \<noteq> d \<longrightarrow> video_mem u = video_mem s \<and> screen_x u = screen_x s \<and> screen_y u = screen_y s)"
  using terminal_write_typed [OF e t d n(2), of fd] by (force simp: writes_only_def term_at_def)

theorem terminal_write_shows_text_witness:
  "\<exists>u t'. terminal_write 1 (Some [104, 105]) 2 terminals_demo = Some (0, u) \<and> term_at 1 u = Some t' \<and>
     t_screen_x t' = 2 \<and> t_screen_y t' = 1 \<and> video_mem u = video_mem terminals_demo"
proof -
  have h: "1 = cur_ptree terminals_demo" "0 = current_terminal_index terminals_demo"
    "term_at 1 terminals_demo = Some (terminal_demo\<lparr>chars_printed := 81\<rparr>)" "term_at 0 terminals_demo = Some terminal_demo"
    by (simp_all add: terminals_demo_def term_at_def rdi_def rd_def)
  have w: "wrap_text (chars_printed (terminal_demo\<lparr>chars_printed := 81\<rparr>)) (take (nat 2) [104, 105]) = [10, 104, 105]"
    by (simp add: emitted_def next_count_def)
  have sc: "fold type_char [10, 104, 105] (shown_at 1 0 (terminal_demo\<lparr>chars_printed := 81\<rparr>) terminals_demo) =
      (2, 1, (cells_of (replicate 4000 0))[80 := (104, 7), 81 := (105, 7)])"
    by (simp add: shown_at_def terminal_demo_def type_char_def newline_byte_def)
  have n: "(0 :: int) < 2" "nat 2 \<le> length [104 :: u8, 105]" by simp_all
  from terminal_write_shows_text [OF h(1-3) terminal_demo_visible h(4) n, of 1]
  obtain u t' where u: "terminal_write 1 (Some [104, 105]) 2 terminals_demo = Some (0, u)" "term_at 1 u = Some t'"
    "shown_at 1 0 t' u = (2, 1, (cells_of (replicate 4000 0))[80 := (104, 7), 81 := (105, 7)])"
    "video_mem u = video_mem terminals_demo"
    unfolding w sc by auto
  then have "t_screen_x t' = 2 \<and> t_screen_y t' = 1" by (simp add: shown_at_def)
  with u show ?thesis by blast
qed

section \<open>Line editing\<close>

text \<open>What echoing a key keeps: the input line and history, and everything but the displayed terminal.\<close>

definition kept :: "int \<Rightarrow> 'a kernel_scheme \<Rightarrow> 'a kernel_scheme \<Rightarrow> bool" where
  "kept d s u = (screen_ok u \<and> (\<exists>t t'. term_at d s = Some t \<and> term_at d u = Some t' \<and> same_input t t') \<and>
     writes_only d d s u)"

lemma kept_refl: "screen_ok s \<Longrightarrow> term_at d s = Some t \<Longrightarrow> kept d s s"
  by (auto simp: kept_def)

lemma kept_trans: "kept d s t \<Longrightarrow> kept d t u \<Longrightarrow> kept d s u"
  unfolding kept_def by (auto intro: same_input_trans writes_only_trans)

lemma keptD: "kept d s u \<Longrightarrow> screen_ok u" "kept d s u \<Longrightarrow> \<exists>t. term_at d u = Some t"
  by (auto simp: kept_def)

lemma kept_update:
  assumes t: "term_at d s = Some t" and same: "same_input t t'" and scr: "screen_ok v"
    and v: "only_terminals s (v\<lparr>terminal_list := terminal_list s\<rparr>)"
    and u: "terminal_list v = (terminal_list s)[nat d := t']"
  shows "kept d s v"
proof -
  have at: "term_at j v = (if j = d then Some t' else term_at j s)" for j
    using term_at_update [OF t, of j t'] u by (simp add: term_at_def)
  have "only_terminals s v" using v by (simp add: only_terminals_def)
  then show ?thesis using at t same scr by (auto simp: kept_def writes_only_def u)
qed

lemma show_char_kept:
  assumes t: "term_at d s = Some t" and ok: "screen_ok s"
  shows "\<exists>u. show_char d c s = Some u \<and> kept d s u"
proof -
  let ?s = "set_cursor_pos (t_screen_x t) (t_screen_y t) s"
  obtain v where v: "putc c ?s = Some v" "screen_ok v"
    using console_dev.put_char [OF set_cursor_ok [OF ok]] by blast
  have f: "v = ?s\<lparr>screen_x := screen_x v, screen_y := screen_y v, video_mem := video_mem v\<rparr>"
    by (rule putc_frame [OF v(1)])
  then have f: "v = s\<lparr>screen_x := screen_x v, screen_y := screen_y v, video_mem := video_mem v\<rparr>"
    by (simp add: set_cursor_pos_def Let_def split: if_splits)
  have tl: "terminal_list v = terminal_list s" by (subst f) simp
  then have tv: "term_at d v = Some t" using t by (simp add: term_at_def)
  let ?t = "t\<lparr>t_screen_x := screen_x v, t_screen_y := screen_y v\<rparr>"
  let ?u = "v\<lparr>terminal_list := (terminal_list v)[nat d := ?t]\<rparr>"
  have "show_char d c s = Some ?u"
    using t v(1) set_term_in [OF tv, of ?t] by (simp add: show_char_def print_char get_cursor_pos_def)
  moreover have "only_terminals s (?u\<lparr>terminal_list := terminal_list s\<rparr>)"
    by (subst f) (simp add: only_terminals_def)
  then have "kept d s ?u"
    by (rule kept_update [OF t, of ?t, rotated 2]) (use v(2) tl in \<open>simp_all add: same_input_def screen_ok_def\<close>)
  ultimately show ?thesis by blast
qed

lemma set_chars_printed_kept:
  assumes t: "term_at d s = Some t" and ok: "screen_ok s"
  shows "\<exists>u. set_chars_printed d n s = Some u \<and> kept d s u"
proof -
  let ?u = "s\<lparr>terminal_list := (terminal_list s)[nat d := t\<lparr>chars_printed := n\<rparr>]\<rparr>"
  have "set_chars_printed d n s = Some ?u" using t set_term_in [OF t] by (simp add: set_chars_printed_def)
  moreover have "kept d s ?u"
    by (rule kept_update [OF t, of "t\<lparr>chars_printed := n\<rparr>"])
      (use ok in \<open>simp_all add: same_input_def screen_ok_def\<close>)
  ultimately show ?thesis by blast
qed

lemma cursor_moved:
  "terminal_list (set_blinking_cursor_pos x y s) = terminal_list s"
  "screen_ok (set_blinking_cursor_pos x y s) = screen_ok s"
  "only_terminals s (set_blinking_cursor_pos x y s)"
  "term_at d (set_blinking_cursor_pos x y s) = term_at d s"
  by (simp_all add: set_blinking_cursor_pos_def outw_def Let_def screen_ok_def only_terminals_def term_at_def)

lemma screen_writes:
  "writes_only d d s (set_cursor_pos x y s) \<and> term_at j (set_cursor_pos x y s) = term_at j s"
  "writes_only d d s (set_blinking_cursor_pos x y s)"
  by (simp_all add: set_cursor_pos_def Let_def writes_only_def only_terminals_def term_at_def
      set_blinking_cursor_pos_def outw_def)

lemma putc_writes:
  assumes "putc c s = Some u"
  shows "writes_only d d s u \<and> term_at j u = term_at j s"
proof -
  have f: "u = s\<lparr>screen_x := screen_x u, screen_y := screen_y u, video_mem := video_mem u\<rparr>"
    by (rule putc_frame [OF assms])
  show ?thesis by (subst (1 2) f) (simp add: writes_only_def only_terminals_def term_at_def)
qed

lemma cursor_kept:
  assumes "term_at d s = Some t" and "screen_ok s"
  shows "kept d s (set_blinking_cursor_pos x y s)"
  using assms by (auto simp: kept_def writes_only_def cursor_moved)

lemma echo_kept:
  assumes t: "term_at d s = Some t" and ok: "screen_ok s"
  shows "\<exists>u. do {
      s \<leftarrow> show_char d c s;
      t \<leftarrow> term_at d s;
      count_char d (set_blinking_cursor_pos (t_screen_x t) (t_screen_y t) s) } = Some u \<and> kept d s u"
proof -
  obtain v where v: "show_char d c s = Some v" "kept d s v" using show_char_kept [OF assms] by blast
  then obtain t1 where t1: "term_at d v = Some t1" "screen_ok v" using keptD by blast
  let ?w = "set_blinking_cursor_pos (t_screen_x t1) (t_screen_y t1) v"
  have w: "term_at d ?w = Some t1" "screen_ok ?w" using t1 by (simp_all add: cursor_moved)
  obtain u where u: "set_chars_printed d (chars_printed t1 + 1) ?w = Some u" "kept d ?w u"
    using set_chars_printed_kept [OF w] by blast
  have "kept d s u" using kept_trans [OF kept_trans [OF v(2) cursor_kept [OF t1]] u(2)] .
  then show ?thesis using v(1) t1(1) w(1) u(1) by (simp add: count_char_def)
qed

lemma keypress_kept:
  assumes d: "d = current_terminal_index s" and t: "term_at d s = Some t" and ok: "screen_ok s"
  shows "\<exists>u. terminal_write_keypress (Some [c]) 1 s = Some (0, u) \<and> kept d s u"
proof -
  have one: "for_range 0 (Suc 0) (keypress_round d [c]) s = keypress_round d [c] 0 s"
    by (simp add: for_range_def bind_eq_Some_conv split: Option.bind_split)
  have "\<exists>u. keypress_round d [c] 0 s = Some u \<and> kept d s u"
  proof -
    consider (wrap) "chars_printed t > 80" | (line) "chars_printed t \<le> 80" "c = 10"
      | (skip) "chars_printed t \<le> 80" "c = 0" | (plain) "chars_printed t \<le> 80" "c \<noteq> 10" "c \<noteq> 0"
      by linarith
    then show ?thesis
    proof cases
      case wrap
      obtain s1 where 1: "show_char d 10 s = Some s1" "kept d s s1" using show_char_kept [OF t ok] by blast
      then obtain t1 where t1: "term_at d s1 = Some t1" "screen_ok s1" using keptD by blast
      obtain s2 where 2: "set_chars_printed d 0 s1 = Some s2" "kept d s1 s2" using set_chars_printed_kept [OF t1] by blast
      then obtain t2 where t2: "term_at d s2 = Some t2" "screen_ok s2" using keptD by blast
      show ?thesis using wrap t 1 2 echo_kept [OF t2, of c] kept_trans [OF kept_trans [OF 1(2) 2(2)]]
        by (auto simp: keypress_round_def rd_def NUM_COLS_def)
    next
      case line
      obtain s2 where 2: "set_chars_printed d 0 s = Some s2" "kept d s s2" using set_chars_printed_kept [OF t ok] by blast
      then obtain t2 where t2: "term_at d s2 = Some t2" "screen_ok s2" using keptD by blast
      show ?thesis using line t 2 echo_kept [OF t2, of c] kept_trans [OF 2(2)]
        by (auto simp: keypress_round_def rd_def NUM_COLS_def)
    next
      case skip
      then show ?thesis using t kept_refl [OF ok t] by (simp add: keypress_round_def rd_def NUM_COLS_def)
    next
      case plain
      then show ?thesis using t echo_kept [OF t ok, of c] by (simp add: keypress_round_def rd_def NUM_COLS_def)
    qed
  qed
  then show ?thesis using one d by (auto simp: terminal_write_keypress_def displaying_def)
qed

text \<open>A terminal whose arrays have the lengths of their declarations, with at most 127 bytes typed and entered.\<close>

definition editable :: "terminal \<Rightarrow> bool" where
  "editable t = (0 \<le> input_pointer (input t) \<and> input_pointer (input t) \<le> 127 \<and>
     length (line (input t)) = 128 \<and> 0 \<le> input_pointer (previous_input t) \<and>
     input_pointer (previous_input t) \<le> 127 \<and> length (line (previous_input t)) = 128 \<and>
     0 \<le> history_index t \<and> history_index t < 16 \<and> length (input_history t) = 16 \<and>
     (\<forall>e \<in> set (input_history t). length (line e) = 128) \<and> page (video_buffer t))"

definition line_text :: "terminal_line \<Rightarrow> u8 list" where
  "line_text l = take (nat (input_pointer l)) (line l)"

lemma same_input_parts:
  assumes "same_input t t'"
  shows "input t' = input t" "previous_input t' = previous_input t" "input_history t' = input_history t"
    "history_index t' = history_index t" "t_state t' = t_state t" "t_ptid t' = t_ptid t"
    "starting_offset t' = starting_offset t" "editable t' = editable t"
proof -
  have e: "f t = f (t'\<lparr>t_screen_x := t_screen_x t, t_screen_y := t_screen_y t, video_buffer := video_buffer t,
     chars_printed := chars_printed t\<rparr>)" for f :: "terminal \<Rightarrow> 'b"
    using assms unfolding same_input_def by (metis (mono_tags))
  show f: "input t' = input t" "previous_input t' = previous_input t" "input_history t' = input_history t"
    "history_index t' = history_index t" "t_state t' = t_state t" "t_ptid t' = t_ptid t"
    "starting_offset t' = starting_offset t"
    using e [of input] e [of previous_input] e [of input_history] e [of history_index] e [of t_state]
      e [of t_ptid] e [of starting_offset] by simp_all
  then show "editable t' = editable t" using assms by (simp add: editable_def page_def same_input_def)
qed

text \<open>The copy of a finished line.\<close>

lemma overwrite_step:
  "j < length src \<Longrightarrow> j < length dest \<Longrightarrow>
   wr (take j src @ drop j dest) j (src ! j) = Some (take (Suc j) src @ drop (Suc j) dest)"
  by (simp add: wr_def list_update_append min_absorb2 take_Suc_conv_app_nth Cons_nth_drop_Suc [symmetric])

lemma editable_update:
  "editable t \<Longrightarrow> length (line e) = 128 \<Longrightarrow> editable (t\<lparr>input_history := (input_history t)[i := e]\<rparr>)"
  "editable t \<Longrightarrow> length (line e) = 128 \<Longrightarrow> 0 \<le> input_pointer e \<Longrightarrow> input_pointer e \<le> 127 \<Longrightarrow>
     editable (t\<lparr>previous_input := e\<rparr>)"
  using set_update_subset_insert [of "input_history t" i e] by (auto simp: editable_def)

lemma history_loop:
  assumes ed: "editable t" and n: "n \<le> 128"
  shows "\<exists>t'. for_range 0 n (history_round is_shell) t = Some t' \<and> editable t' \<and>
    take n (line (previous_input t')) = take n (line (input t)) \<and>
    (is_shell \<longrightarrow> take n (line (input_history t' ! nat (history_index t))) = take n (line (input t)) \<and>
       input_pointer (input_history t' ! nat (history_index t)) = input_pointer (input_history t ! nat (history_index t))) \<and>
    input t' = input t \<and> input_pointer (previous_input t') = input_pointer (previous_input t) \<and>
    history_index t' = history_index t \<and> t_state t' = t_state t"
proof -
  let ?h = "nat (history_index t)" and ?src = "line (input t)"
  let ?e = "input_history t ! ?h"
  have len: "length ?src = 128" "length (line (previous_input t)) = 128" "0 \<le> history_index t" "?h < length (input_history t)"
    using ed by (auto simp: editable_def)
  have e: "length (line ?e) = 128" using ed len(4) by (simp add: editable_def)
  let ?g = "\<lambda>j. t\<lparr>previous_input := (previous_input t)\<lparr>line := take j ?src @ drop j (line (previous_input t))\<rparr>,
      input_history := (if is_shell then (input_history t)[?h := ?e\<lparr>line := take j ?src @ drop j (line ?e)\<rparr>]
        else input_history t)\<rparr>"
  have run: "for_range 0 n (history_round is_shell) t = Some (?g n)"
  proof (rule for_range_closed)
    show "?g 0 = t" using len(4) by simp
    fix j assume "j < n"
    then have j: "j < length ?src" "j < length (line (previous_input t))" "j < length (line ?e)" using n len e by simp_all
    show "history_round is_shell j (?g j) = Some (?g (Suc j))"
      using overwrite_step [OF j(1,2)] overwrite_step [OF j(1,3)] rd_in [OF j(1)] len(3,4)
      by (cases is_shell) (simp_all add: history_round_def rdi_def rd_def wri_def wr_in)
  qed simp
  have ed': "editable (?g n)"
  proof -
    let ?p = "(previous_input t)\<lparr>line := take n ?src @ drop n (line (previous_input t))\<rparr>"
      and ?e' = "?e\<lparr>line := take n ?src @ drop n (line ?e)\<rparr>"
    have p: "editable (t\<lparr>previous_input := ?p\<rparr>)" by (rule editable_update(2) [OF ed]) (use len n ed in \<open>simp_all add: editable_def\<close>)
    have "editable ((t\<lparr>previous_input := ?p\<rparr>)\<lparr>input_history := (input_history (t\<lparr>previous_input := ?p\<rparr>))[?h := ?e']\<rparr>)"
      by (rule editable_update(1) [OF p]) (use e len n in simp)
    with p show ?thesis by (cases is_shell) simp_all
  qed
  show ?thesis using run ed' len e n by (intro exI [of _ "?g n"]) (simp add: min_absorb2)
qed

lemma strncmp_loop_total:
  "n \<le> length a \<Longrightarrow> n \<le> length b \<Longrightarrow> \<exists>k. strncmp_loop a b i n = Some k"
proof (induction "n - i" arbitrary: i)
  case 0
  then show ?case by (simp add: strncmp_loop.simps)
next
  case (Suc d)
  then have "\<exists>k. strncmp_loop a b (Suc i) n = Some k" by simp
  then show ?case using Suc.prems by (subst strncmp_loop.simps) (auto simp: rd_def)
qed

text \<open>The running task exists and its name has the length of its declaration.\<close>

definition named_task :: "'a kernel_scheme \<Rightarrow> bool" where
  "named_task s = (get_cur_task s \<noteq> 0 \<and> length (p_name (task_store s (get_cur_task s))) = 32)"

definition shell_running :: "'a kernel_scheme \<Rightarrow> bool" where
  "shell_running s = (strncmp (p_name (task_store s (get_cur_task s))) (cstr ''shell'') 5 = Some 0)"

lemma copy_to_history_result:
  assumes t: "term_at (displaying s) s = Some t" and ed: "editable t" and task: "named_task s"
    and n: "n = nat (input_pointer (input t))"
  shows "\<exists>t'. terminal_copy_to_history s = Some (s\<lparr>terminal_list := (terminal_list s)[nat (displaying s) := t']\<rparr>) \<and>
    editable t' \<and> input t' = input t \<and> t_state t' = t_state t \<and>
    line_text (previous_input t') = line_text (input t) \<and>
    (shell_running s \<longrightarrow> line_text (input_history t' ! nat (history_index t)) = line_text (input t) \<and>
       history_index t' = (history_index t + 1) mod 16) \<and>
    (\<not> shell_running s \<longrightarrow> history_index t' = history_index t)"
proof -
  let ?p = "p_name (task_store s (get_cur_task s))" and ?sh = "shell_running s"
  have "length (cstr ''shell'') = 6" by (simp add: cstr_def)
  then obtain k where k: "strncmp ?p (cstr ''shell'') 5 = Some k"
    using strncmp_loop_total [of 5 ?p "cstr ''shell''" 0] task by (auto simp: strncmp_def named_task_def)
  then have sh: "(k = 0) = ?sh" by (simp add: shell_running_def)
  let ?i = "input_pointer (input t)" and ?h = "nat (history_index t)"
  have len: "0 \<le> history_index t" "?h < length (input_history t)" "length (input_history t) = 16" "n \<le> 128"
    "length (line (previous_input t)) = 128" "history_index t < 16" "0 \<le> ?i"
    using ed n by (auto simp: editable_def)
  define t1 where "t1 = (if ?sh then t\<lparr>input_history := (input_history t)[?h := (input_history t ! ?h)\<lparr>input_pointer := ?i\<rparr>]\<rparr> else t)"
  have he: "length (line (input_history t ! ?h)) = 128" using ed len by (simp add: editable_def)
  have t1: "editable t1" using editable_update(1) [OF ed] he ed by (simp add: t1_def)
  have lp: "length (line (previous_input t1)) = 128" using len by (simp add: t1_def)
  define t2 where "t2 = t1\<lparr>previous_input := (previous_input t1)\<lparr>input_pointer := ?i\<rparr>\<rparr>"
  have ed2: "editable t2" "input t2 = input t" "history_index t2 = history_index t" "t_state t2 = t_state t"
    "input_pointer (previous_input t2) = ?i"
    "?sh \<longrightarrow> input_pointer (input_history t2 ! ?h) = ?i"
    subgoal unfolding t2_def
      by (rule editable_update(2) [OF t1]) (use lp ed in \<open>simp_all add: editable_def\<close>)
    using ed len by (simp_all add: t2_def t1_def)
  obtain t3 where t3: "for_range 0 n (history_round ?sh) t2 = Some t3" "editable t3"
    "take n (line (previous_input t3)) = take n (line (input t))"
    "?sh \<longrightarrow> take n (line (input_history t3 ! ?h)) = take n (line (input t)) \<and>
       input_pointer (input_history t3 ! ?h) = input_pointer (input_history t2 ! ?h)"
    "input t3 = input t" "input_pointer (previous_input t3) = ?i" "history_index t3 = history_index t"
    "t_state t3 = t_state t"
    using history_loop [OF ed2(1) len(4), of ?sh] ed2 by auto
  define t4 where "t4 = (if ?sh then t3\<lparr>history_index := (history_index t + 1) mod 16\<rparr> else t3)"
  have cm: "cmod (history_index t + 1) (int MAX_SUPPORTED_HISTORY) = (history_index t + 1) mod 16"
    using len by (simp add: cmod_pos MAX_SUPPORTED_HISTORY_def)
  have "terminal_copy_to_history s = Some (s\<lparr>terminal_list := (terminal_list s)[nat (displaying s) := t4]\<rparr>)"
    using task k sh t len t3(1,7) set_term_in [OF t, of t4] cm n
    by (simp add: terminal_copy_to_history_def named_task_def task_at_def rdi_def rd_def wri_def wr_def
        t1_def t2_def t4_def split: if_splits)
  moreover have "editable t4" using t3(2) len by (auto simp: t4_def editable_def)
  ultimately show ?thesis
    using t3 ed2 n by (intro exI [of _ t4]) (simp add: t4_def line_text_def)
qed

text \<open>The displayed terminal has become \<^term>\<open>t\<close>, and nothing else but the screen has changed.\<close>

definition now_shows :: "int \<Rightarrow> terminal \<Rightarrow> 'a kernel_scheme \<Rightarrow> 'a kernel_scheme \<Rightarrow> bool" where
  "now_shows d t s u = (term_at d u = Some t \<and> screen_ok u \<and> writes_only d d s u)"

lemma now_shows_set:
  assumes n: "now_shows d t s u"
  shows "set_term d t' u = Some (u\<lparr>terminal_list := (terminal_list u)[nat d := t']\<rparr>)"
    "now_shows d t' s (u\<lparr>terminal_list := (terminal_list u)[nat d := t']\<rparr>)"
proof -
  have t: "term_at d u = Some t" and w: "screen_ok u" "writes_only d d s u" using n by (simp_all add: now_shows_def)
  show "set_term d t' u = Some (u\<lparr>terminal_list := (terminal_list u)[nat d := t']\<rparr>)" by (rule set_term_in [OF t])
  have "writes_only d d u (u\<lparr>terminal_list := (terminal_list u)[nat d := t']\<rparr>)"
    using term_at_update [OF t, of _ t'] by (simp add: writes_only_def only_terminals_def)
  then show "now_shows d t' s (u\<lparr>terminal_list := (terminal_list u)[nat d := t']\<rparr>)"
    using term_at_update [OF t, of d t'] w writes_only_trans [OF w(2)] by (simp add: now_shows_def screen_ok_def)
qed

lemma now_shows_kept:
  assumes n: "now_shows d t s u" and k: "kept d u v"
  shows "\<exists>t'. now_shows d t' s v \<and> same_input t t'"
  using n k writes_only_trans [of d d s u v] by (auto simp: now_shows_def kept_def)

lemma now_shows_fields:
  assumes "now_shows d t s u"
  shows "displaying u = displaying s" "get_cur_task u = get_cur_task s" "task_store u = task_store s"
    "named_task u = named_task s" "shell_running u = shell_running s"
proof -
  have o: "only_terminals s u" using assms by (simp add: now_shows_def writes_only_def)
  note f = only_terminals_fields [OF o]
  show "displaying u = displaying s" "get_cur_task u = get_cur_task s" "task_store u = task_store s"
    "named_task u = named_task s" "shell_running u = shell_running s"
    by (simp_all add: displaying_def get_cur_task_def named_task_def shell_running_def f)
qed

text \<open>The abstract editor: the line being typed, the last line entered, and whether a line has been
  entered since the flag was last cleared.\<close>

type_synonym editor = "u8 list \<times> u8 list \<times> bool"

datatype edit = Key u8 | Rubout

fun edit_step :: "edit \<Rightarrow> editor \<Rightarrow> editor" where
  "edit_step (Key c) (typing, entered, complete) =
     (if length typing \<ge> 127 then (typing, entered, complete)
      else if c = 10 then ([], typing @ [10], True)
      else (typing @ [c], entered, complete))"
| "edit_step Rubout (typing, entered, complete) = (butlast typing, entered, complete)"

definition edit_view :: "terminal \<Rightarrow> editor" where
  "edit_view t = (line_text (input t), line_text (previous_input t), t_state t = TERMINAL_DONE_READ)"

definition edit_ok :: "'a kernel_scheme \<Rightarrow> bool" where
  "edit_ok s = (screen_ok s \<and> named_task s \<and> (\<exists>t. term_at (displaying s) s = Some t \<and> editable t))"

fun run_edit :: "edit \<Rightarrow> 'a kernel_scheme \<Rightarrow> 'a kernel_scheme option" where
  "run_edit (Key c) s = terminal_add_to_buffer c s"
| "run_edit Rubout s = terminal_backspace s"

lemma line_text_snoc:
  assumes "0 \<le> n" "nat n < length l"
  shows "line_text \<lparr>input_pointer = n + 1, line = l[nat n := c]\<rparr> = take (nat n) l @ [c]"
  using assms by (simp add: line_text_def nat_add_distrib take_Suc_conv_app_nth)

lemma add_to_buffer_steps:
  assumes "d = displaying s" and "term_at d s = Some t" and "input_pointer (input t) < 127"
    and "wri (line (input t)) (input_pointer (input t)) c = Some l"
    and "t1 = t\<lparr>input := \<lparr>input_pointer = input_pointer (input t) + 1, line = l\<rparr>\<rparr>"
    and "set_term d t1 s = Some s1" and "finish_line d t1 c s1 = Some s2"
    and "terminal_write_keypress (Some [c]) 1 s2 = Some (r, s3)"
  shows "terminal_add_to_buffer c s = next_row d s3"
  using assms by (simp add: terminal_add_to_buffer_def BUFFER_SIZE_def)

lemma add_to_buffer_result:
  assumes ok: "edit_ok s" and d: "d = displaying s" and t: "term_at d s = Some t"
  shows "\<exists>u t'. terminal_add_to_buffer c s = Some u \<and> now_shows d t' s u \<and> editable t' \<and>
    edit_view t' = edit_step (Key c) (edit_view t)"
proof (cases "input_pointer (input t) \<ge> 127")
  case True
  have "editable t" using ok d t by (auto simp: edit_ok_def)
  then have "length (line_text (input t)) = 127" using True by (simp add: editable_def line_text_def)
  moreover have "now_shows d t s s" using ok t by (simp add: now_shows_def edit_ok_def)
  ultimately show ?thesis using True d t \<open>editable t\<close>
    by (intro exI [of _ s] exI [of _ t]) (simp add: terminal_add_to_buffer_def BUFFER_SIZE_def edit_view_def)
next
  case False
  have ed: "editable t" and scr: "screen_ok s" and task: "named_task s" using ok d t by (auto simp: edit_ok_def)
  let ?n = "input_pointer (input t)" and ?l = "line (input t)"
  have n: "0 \<le> ?n" "?n < 127" "nat ?n < length ?l" "length ?l = 128" using ed False by (auto simp: editable_def)
  have w: "wri ?l ?n c = Some (?l[nat ?n := c])" using n by (simp add: wri_def wr_def)
  define t1 where "t1 = t\<lparr>input := \<lparr>input_pointer = ?n + 1, line = ?l[nat ?n := c]\<rparr>\<rparr>"
  have t1: "editable t1" "line_text (input t1) = line_text (input t) @ [c]" "previous_input t1 = previous_input t"
    "t_state t1 = t_state t"
    using ed n line_text_snoc [of ?n ?l c] by (simp_all add: t1_def editable_def line_text_def)
  have short: "length (line_text (input t)) < 127" using n by (simp add: line_text_def)
  have "now_shows d t s s" using scr t by (simp add: now_shows_def)
  note s1 = now_shows_set [OF this, of t1]
  let ?s1 = "s\<lparr>terminal_list := (terminal_list s)[nat d := t1]\<rparr>"
  have "\<exists>s2 t2. finish_line d t1 c ?s1 = Some s2 \<and> now_shows d t2 s s2 \<and> editable t2 \<and>
        edit_view t2 = edit_step (Key c) (edit_view t)"
  proof (cases "c = 10")
    case True
    let ?t = "t1\<lparr>t_state := TERMINAL_DONE_READ\<rparr>"
    note a = now_shows_set [OF s1(2), of ?t]
    let ?a = "?s1\<lparr>terminal_list := (terminal_list ?s1)[nat d := ?t]\<rparr>"
    have ta: "term_at (displaying ?a) ?a = Some ?t" "editable ?t" "named_task ?a"
      using a(2) t1(1) task now_shows_fields [OF a(2)] d by (simp_all add: now_shows_def editable_def)
    obtain t3 where t3: "terminal_copy_to_history ?a = Some (?a\<lparr>terminal_list := (terminal_list ?a)[nat d := t3]\<rparr>)"
      "editable t3" "input t3 = input ?t" "t_state t3 = t_state ?t" "line_text (previous_input t3) = line_text (input ?t)"
      using copy_to_history_result [OF ta refl] now_shows_fields(1) [OF a(2)] d by auto
    note b = now_shows_set [OF a(2), of t3]
    let ?b = "?a\<lparr>terminal_list := (terminal_list ?a)[nat d := t3]\<rparr>"
    let ?t4 = "t3\<lparr>input := (input t3)\<lparr>input_pointer := 0\<rparr>\<rparr>"
    note e = now_shows_set [OF b(2), of ?t4]
    have "editable ?t4" using t3(2) by (simp add: editable_def)
    moreover have "edit_view ?t4 = edit_step (Key c) (edit_view t)"
      using True t3(4,5) t1(2) short by (simp add: edit_view_def) (simp add: line_text_def)
    moreover have "term_at d ?b = Some t3" using b(2) by (simp add: now_shows_def)
    ultimately show ?thesis using True a(1) t3(1) e unfolding finish_line_def
      by (intro exI [of _ "?b\<lparr>terminal_list := (terminal_list ?b)[nat d := ?t4]\<rparr>"] exI [of _ ?t4]) simp
  next
    case False
    then show ?thesis using s1(2) t1 short
      by (intro exI [of _ ?s1] exI [of _ t1]) (simp add: edit_view_def finish_line_def)
  qed
  then obtain s2 t2 where s2: "finish_line d t1 c ?s1 = Some s2" "now_shows d t2 s s2" "editable t2"
    "edit_view t2 = edit_step (Key c) (edit_view t)" by blast
  have "d = current_terminal_index s2" "term_at d s2 = Some t2" "screen_ok s2"
    using s2(2) now_shows_fields(1) [OF s2(2)] d by (simp_all add: now_shows_def displaying_def)
  from keypress_kept [OF this] obtain s3 where s3: "terminal_write_keypress (Some [c]) 1 s2 = Some (0, s3)" "kept d s2 s3"
    by blast
  obtain t3 where t3: "now_shows d t3 s s3" "same_input t2 t3" using now_shows_kept [OF s2(2) s3(2)] by blast
  have ed3: "editable t3" "edit_view t3 = edit_step (Key c) (edit_view t)"
    using same_input_parts [OF t3(2)] s2(3,4) by (simp_all add: edit_view_def)
  have at3: "term_at d s3 = Some t3" "screen_ok s3" using t3(1) by (simp_all add: now_shows_def)
  have run: "terminal_add_to_buffer c s = next_row d s3"
    by (rule add_to_buffer_steps [OF d t _ w t1_def s1(1) s2(1) s3(1)]) (use False in simp)
  show ?thesis
  proof (cases "t_screen_x t3 = 0 \<and> input_pointer (input t3) \<ge> NUM_COLS - starting_offset t3")
    case False
    then have "next_row d s3 = Some s3" using at3(1) by (auto simp: next_row_def)
    then show ?thesis using run t3(1) ed3 by auto
  next
    case True
    let ?t4 = "t3\<lparr>t_screen_y := t_screen_y t3 + 1, chars_printed := 0\<rparr>"
    obtain vm where vm: "scroll_up (video_mem s3) = Some vm" "page vm"
      using scroll_up_cells at3(2) by (auto simp: screen_ok_def)
    obtain s4 where s4: "(if t_screen_y t3 + 1 \<ge> NUM_ROWS - 1 then do {
                 vm \<leftarrow> scroll_up (video_mem s3);
                 Some (s3\<lparr>video_mem := vm\<rparr>) } else Some s3) = Some s4" "now_shows d t3 s s4"
    proof (cases "t_screen_y t3 + 1 \<ge> NUM_ROWS - 1")
      case True
      have "writes_only d d s3 (s3\<lparr>video_mem := vm\<rparr>)"
        by (simp add: writes_only_def only_terminals_def term_at_def)
      then have "now_shows d t3 s (s3\<lparr>video_mem := vm\<rparr>)"
        using t3(1) vm(2) writes_only_trans [of d d s s3] by (auto simp: now_shows_def screen_ok_def term_at_def)
      then show ?thesis using that True vm(1) by simp
    next
      case False
      then show ?thesis using that t3(1) by simp
    qed
    note f = now_shows_set [OF s4(2), of ?t4]
    have "editable ?t4" "edit_view ?t4 = edit_step (Key c) (edit_view t)"
      using ed3 by (simp_all add: editable_def edit_view_def)
    moreover have "next_row d s3 = set_term d ?t4 s4" using True at3(1) s4(1) by (simp add: next_row_def)
    ultimately show ?thesis using run f by auto
  qed
qed

lemma line_text_rubout:
  assumes "0 < n" "nat n \<le> length l"
  shows "line_text \<lparr>input_pointer = n - 1, line = l\<rparr> = butlast (take (nat n) l)"
  using assms by (simp add: line_text_def butlast_take nat_diff_distrib)

lemma backspace_result:
  assumes ok: "edit_ok s" and d: "d = displaying s" and t: "term_at d s = Some t"
  shows "\<exists>u t'. terminal_backspace s = Some u \<and> now_shows d t' s u \<and> editable t' \<and>
    edit_view t' = edit_step Rubout (edit_view t)"
proof (cases "input_pointer (input t) \<le> 0")
  case True
  have ed: "editable t" and "screen_ok s" using ok d t by (auto simp: edit_ok_def)
  then have "line_text (input t) = []" "now_shows d t s s" using True t by (auto simp: line_text_def now_shows_def)
  then show ?thesis using True d t ed
    by (intro exI [of _ s] exI [of _ t]) (simp add: terminal_backspace_def edit_view_def)
next
  case False
  have ed: "editable t" and scr: "screen_ok s" using ok d t by (auto simp: edit_ok_def)
  let ?n = "input_pointer (input t)"
  define t1 where "t1 = (if ?n \<noteq> NUM_COLS - starting_offset t
                 then t\<lparr>t_screen_x := t_screen_x t - 1\<rparr>
                 else (let t = (if t_screen_y t > 0 then t\<lparr>t_screen_y := t_screen_y t - 1\<rparr> else t)
                       in t\<lparr>t_screen_x := NUM_COLS - 1\<rparr>))"
  define t2 where "t2 = t1\<lparr>chars_printed := chars_printed t1 - 1,
                  input := (input t1)\<lparr>input_pointer := input_pointer (input t1) - 1\<rparr>\<rparr>"
  have i1: "input t1 = input t" "previous_input t1 = previous_input t" "input_history t1 = input_history t"
    "history_index t1 = history_index t" "video_buffer t1 = video_buffer t"
    "t_state t1 = t_state t" by (simp_all add: t1_def Let_def)
  have "input t2 = \<lparr>input_pointer = ?n - 1, line = line (input t)\<rparr>"
    by (simp add: t2_def i1)
  moreover have "line_text \<lparr>input_pointer = ?n - 1, line = line (input t)\<rparr> = butlast (line_text (input t))"
  proof -
    have "0 < ?n" "nat ?n \<le> length (line (input t))" using ed False by (auto simp: editable_def)
    then show ?thesis using line_text_rubout [of ?n "line (input t)"] by (simp add: line_text_def)
  qed
  ultimately have v: "edit_view t2 = edit_step Rubout (edit_view t)"
    by (simp add: edit_view_def) (simp add: t2_def i1)
  have ed2: "editable t2" using ed False by (simp add: t2_def editable_def i1)
  have "now_shows d t s s" using scr t by (simp add: now_shows_def)
  note s1 = now_shows_set [OF this, of t2]
  let ?s1 = "s\<lparr>terminal_list := (terminal_list s)[nat d := t2]\<rparr>"
  let ?s2 = "set_cursor_pos (t_screen_x t2) (t_screen_y t2) ?s1"
  let ?s3 = "set_blinking_cursor_pos (t_screen_x t2) (t_screen_y t2 - (if t_screen_x t2 = 0 then 1 else 0)) ?s2"
  have "screen_ok ?s2" using s1(2) by (intro set_cursor_ok) (simp add: now_shows_def)
  then have "screen_ok ?s3" by (simp add: cursor_moved)
  then obtain u where u: "putc 32 ?s3 = Some u" "screen_ok u" using console_dev.put_char by blast
  have tx: "t_screen_x t2 = t_screen_x t1" by (simp add: t2_def)
  have "terminal_backspace s = Some u"
    using False d t s1(1) u(1) tx
    by (cases "t_screen_x t1 = 0")
      (simp_all add: terminal_backspace_def t1_def [symmetric] t2_def [symmetric] print_char Let_def)
  moreover have "now_shows d t2 s u"
  proof -
    have "writes_only d d ?s1 ?s2" using screen_writes(1) by blast
    moreover have "writes_only d d ?s2 ?s3" by (rule screen_writes(2))
    moreover have "writes_only d d ?s3 u" using putc_writes [OF u(1)] by blast
    ultimately have "writes_only d d ?s1 u" by (blast intro: writes_only_trans)
    moreover have "term_at d u = term_at d ?s1"
      using putc_writes [OF u(1), of d d] screen_writes(1) [of d ?s1 _ _ d] by (simp add: cursor_moved)
    ultimately have "writes_only d d ?s1 u" "term_at d u = term_at d ?s1" by simp_all
    then show ?thesis using s1(2) u(2) writes_only_trans [of d d s ?s1 u] by (simp add: now_shows_def)
  qed
  ultimately show ?thesis using ed2 v by blast
qed

lemma run_edit_result:
  assumes ok: "edit_ok s" and d: "d = displaying s" and t: "term_at d s = Some t"
  shows "\<exists>u t'. run_edit e s = Some u \<and> edit_ok u \<and> displaying u = d \<and> term_at d u = Some t' \<and>
    edit_view t' = edit_step e (edit_view t) \<and> (\<forall>j. j \<noteq> d \<longrightarrow> term_at j u = term_at j s)"
proof -
  obtain u t' where u: "run_edit e s = Some u" "now_shows d t' s u" "editable t'" "edit_view t' = edit_step e (edit_view t)"
    using add_to_buffer_result [OF assms] backspace_result [OF assms] by (cases e) fastforce+
  have "displaying u = d" "named_task u" using now_shows_fields [OF u(2)] ok d by (simp_all add: edit_ok_def)
  then show ?thesis using u by (intro exI [of _ u] exI [of _ t']) (auto simp: edit_ok_def now_shows_def writes_only_def)
qed

lemma edits_result:
  assumes "edit_ok s" and "d = displaying s" and "term_at d s = Some t"
  shows "\<exists>u t'. fold_opt run_edit es s = Some u \<and> edit_ok u \<and> displaying u = d \<and> term_at d u = Some t' \<and>
    edit_view t' = fold edit_step es (edit_view t) \<and> (\<forall>j. j \<noteq> d \<longrightarrow> term_at j u = term_at j s)"
  using assms
proof (induction es arbitrary: s t)
  case (Cons e es)
  obtain v t1 where v: "run_edit e s = Some v" "edit_ok v" "displaying v = d" "term_at d v = Some t1"
    "edit_view t1 = edit_step e (edit_view t)" "\<forall>j. j \<noteq> d \<longrightarrow> term_at j v = term_at j s"
    using run_edit_result [OF Cons.prems] by blast
  from Cons.IH [OF v(2) v(3) [symmetric] v(4)] show ?case using v by auto
qed auto

text \<open>Typing edits the line of the displayed terminal as the abstract editor does, whatever keys
  and rubouts come: at most 127 bytes, a rubout takes the last one back, a newline enters the line,
  which becomes the last entered line, and starts an empty one. No key faults, and no other
  terminal changes.\<close>

theorem terminal_edits_line:
  assumes "edit_ok s" and "d = displaying s" and "term_at d s = Some t"
  shows "\<exists>u t'. fold_opt run_edit es s = Some u \<and> edit_ok u \<and> displaying u = d \<and> term_at d u = Some t' \<and>
    edit_view t' = fold edit_step es (edit_view t) \<and> (\<forall>j. j \<noteq> d \<longrightarrow> term_at j u = term_at j s)"
  by (rule edits_result [OF assms])

definition typing_demo :: kernel where
  "typing_demo = terminals_demo\<lparr>cur_task := 0\<rparr>"

lemma get_task_0: "get_task 0 \<noteq> 0"
  by (rule task_layout(5)) (simp add: task_pid_ok_def)

lemma typing_demo_ok: "edit_ok typing_demo" "displaying typing_demo = 0" "term_at 0 typing_demo = Some terminal_demo"
  by (simp_all add: edit_ok_def displaying_def term_at_def rdi_def rd_def typing_demo_def terminals_demo_def
      terminal_demo_def kernel_demo_def sched_init_def tasks.defs tasks_demo_def filesys.defs fs_demo_def screen_ok_def
      page_def on_screen_def named_task_def get_cur_task_def get_task_0 task_demo_task_def editable_def)

theorem terminal_edits_line_witness:
  "\<exists>u t'. fold_opt run_edit [Key 108, Key 97, Rubout, Key 115, Key 10, Key 98] typing_demo = Some u \<and>
     term_at 0 u = Some t' \<and> line_text (input t') = [98] \<and> line_text (previous_input t') = [108, 115, 10]"
proof -
  have v: "edit_view terminal_demo = ([], [], False)" by (simp add: edit_view_def line_text_def terminal_demo_def)
  have f: "fold edit_step [Key 108, Key 97, Rubout, Key 115, Key 10, Key 98] ([], [], False) = ([98], [108, 115, 10], True)"
    by simp
  show ?thesis
    using terminal_edits_line [OF typing_demo_ok(1) typing_demo_ok(2) [symmetric] typing_demo_ok(3),
      of "[Key 108, Key 97, Rubout, Key 115, Key 10, Key 98]"]
    unfolding v f by (auto simp: edit_view_def)
qed

text \<open>Typing at the end of the last row.\<close>

lemma full_row_key:
  assumes d: "d = displaying s" and t: "term_at d s = Some t" and ed: "editable t" and pg: "page (video_mem s)"
    and at: "t_screen_x t = 79" "t_screen_y t = 24" "input_pointer (input t) = 72" "starting_offset t = 7"
      "chars_printed t \<le> 80"
    and c: "\<not> newline_byte c" "c \<noteq> 0"
  shows "\<exists>u t'. terminal_add_to_buffer c s = Some u \<and> term_at d u = Some t' \<and> t_screen_x t' = 0 \<and>
    t_screen_y t' = 25 \<and> video_buffer t' = video_buffer t"
proof -
  have c10: "c \<noteq> 10" using c by (auto simp: newline_byte_def)
  define t1 where "t1 = t\<lparr>input := \<lparr>input_pointer = 73, line = (line (input t))[72 := c]\<rparr>\<rparr>"
  let ?s1 = "s\<lparr>terminal_list := (terminal_list s)[nat d := t1]\<rparr>"
  have w: "wri (line (input t)) 72 c = Some ((line (input t))[72 := c])"
    using ed by (simp add: wri_def wr_def editable_def)
  have s1: "set_term d t1 s = Some ?s1" "term_at d ?s1 = Some t1" "current_terminal_index ?s1 = d"
    using set_term_in [OF t] term_at_update [OF t, of d t1] d by (simp_all add: displaying_def)
  let ?s2 = "?s1\<lparr>screen_x := 79, screen_y := 24\<rparr>"
  have sc: "set_cursor_pos 79 24 ?s1 = ?s2" by (rule set_cursor_inside) (simp add: on_screen_def)
  obtain v where v: "putc c ?s2 = Some v" "screen_ok v" "screen_of v = type_char c (screen_of ?s2)"
    using console_dev.put_char [of ?s2 c] pg by (auto simp: screen_ok_def on_screen_def)
  have xy: "screen_x v = 0" "screen_y v = 24" using v(3) c by (simp_all add: screen_of_def type_char_def)
  have f: "v = ?s2\<lparr>screen_x := screen_x v, screen_y := screen_y v, video_mem := video_mem v\<rparr>"
    by (rule putc_frame [OF v(1)])
  have v1: "term_at d v = Some t1" by (subst f) (use s1(2) in \<open>simp add: term_at_def\<close>)
  define t2 where "t2 = t1\<lparr>t_screen_x := 0, t_screen_y := 24\<rparr>"
  let ?w = "v\<lparr>terminal_list := (terminal_list v)[nat d := t2]\<rparr>"
  have shown: "show_char d c ?s1 = Some ?w"
    using s1(2) v(1) set_term_in [OF v1, of t2] at sc xy
    by (simp add: show_char_def print_char get_cursor_pos_def t1_def t2_def)
  have w1: "term_at d ?w = Some t2" using term_at_update [OF v1, of d t2] by simp
  let ?b = "set_blinking_cursor_pos 0 24 ?w"
  have b1: "term_at d ?b = Some t2" using w1 by (simp add: cursor_moved)
  define t3 where "t3 = t2\<lparr>chars_printed := chars_printed t2 + 1\<rparr>"
  let ?e = "?b\<lparr>terminal_list := (terminal_list ?b)[nat d := t3]\<rparr>"
  have "keypress_round d [c] 0 ?s1 = Some ?e"
    using s1(2) at c c10 shown w1 b1 set_term_in [OF b1, of t3]
    by (simp add: keypress_round_def rd_def NUM_COLS_def t1_def count_char_def set_chars_printed_def t3_def t2_def)
  then have kp: "terminal_write_keypress (Some [c]) 1 ?s1 = Some (0, ?e)"
    using s1(3) by (simp add: terminal_write_keypress_def displaying_def for_range_step)
  have e1: "term_at d ?e = Some t3" using term_at_update [OF b1, of d t3] by simp
  have "page (video_mem ?e)"
    using v(2) by (simp add: screen_ok_def set_blinking_cursor_pos_def outw_def Let_def)
  then obtain vm where vm: "scroll_up (video_mem ?e) = Some vm" using scroll_up_cells by blast
  let ?f = "?e\<lparr>video_mem := vm\<rparr>"
  have f1: "term_at d ?f = Some t3" using e1 by (simp add: term_at_def)
  let ?t4 = "t3\<lparr>t_screen_y := 25, chars_printed := 0\<rparr>"
  have "next_row d ?e = Some (?f\<lparr>terminal_list := (terminal_list ?f)[nat d := ?t4]\<rparr>)"
    using e1 vm set_term_in [OF f1, of ?t4] at
    by (simp add: next_row_def NUM_COLS_def NUM_ROWS_def t3_def t2_def t1_def)
  moreover have "terminal_add_to_buffer c s = next_row d ?e"
    by (rule add_to_buffer_steps [OF d t _ w [folded at(3)] _ s1(1) _ kp])
      (use at c10 in \<open>simp_all add: t1_def finish_line_def\<close>)
  ultimately have "terminal_add_to_buffer c s = Some (?f\<lparr>terminal_list := (terminal_list ?f)[nat d := ?t4]\<rparr>)"
    by simp
  moreover have "term_at d (?f\<lparr>terminal_list := (terminal_list ?f)[nat d := ?t4]\<rparr>) = Some ?t4"
    using term_at_update [OF f1, of d ?t4] by simp
  ultimately show ?thesis by (simp add: t3_def t2_def t1_def)
qed

text \<open>A key typed in the last column of the last row leaves the terminal with its cursor on row 25,
  one below the last: the code counts the row up, scrolls the screen and does not go back. When a
  task then writes to that terminal in the background, the character goes past the end of its page.\<close>

theorem typing_past_last_row_overflows:
  assumes "d = displaying s" and "term_at d s = Some t" and "editable t" and "page (video_mem s)"
    and "t_screen_x t = 79" and "t_screen_y t = 24"
    and "input_pointer (input t) = 72" and "starting_offset t = 7" and "chars_printed t \<le> 80"
    and "\<not> newline_byte c" and "c \<noteq> 0" and "\<not> newline_byte c'"
  shows "\<exists>u t'. terminal_add_to_buffer c s = Some u \<and> term_at d u = Some t' \<and> t_screen_y t' = 25 \<and>
    vputc c' t' = None"
proof -
  obtain u t' where u: "terminal_add_to_buffer c s = Some u" "term_at d u = Some t'" "t_screen_x t' = 0"
    "t_screen_y t' = 25" "video_buffer t' = video_buffer t"
    using full_row_key [OF assms(1-11)] by blast
  have "vputc c' t' = None"
    using assms(3,12) u(3-5) by (simp add: vputc_def NUM_COLS_def wri_def wr_def page_def editable_def)
  with u show ?thesis by blast
qed

theorem typing_past_last_row_overflows_witness:
  "\<exists>u t'. terminal_add_to_buffer 97 (typing_demo\<lparr>terminal_list := [terminal_demo\<lparr>t_screen_x := 79, t_screen_y := 24,
       input := \<lparr>input_pointer = 72, line = replicate 128 98\<rparr>\<rparr>]\<rparr>) = Some u \<and>
     term_at 0 u = Some t' \<and> t_screen_y t' = 25 \<and> vputc 99 t' = None"
proof -
  let ?t = "terminal_demo\<lparr>t_screen_x := 79, t_screen_y := 24, input := \<lparr>input_pointer = 72, line = replicate 128 98\<rparr>\<rparr>"
  let ?s = "typing_demo\<lparr>terminal_list := [?t]\<rparr>"
  have h: "0 = displaying ?s" "term_at 0 ?s = Some ?t"
    by (simp_all add: displaying_def typing_demo_def terminals_demo_def term_at_def rdi_def rd_def)
  have "page (video_mem typing_demo)" using typing_demo_ok(1) by (simp add: edit_ok_def screen_ok_def)
  then have p: "editable ?t" "page (video_mem ?s)"
    by (simp_all add: editable_def terminal_demo_def page_def)
  show ?thesis
    by (rule typing_past_last_row_overflows [OF h p])
      (simp_all add: terminal_demo_def SHELL_OFFSET_def newline_byte_def)
qed

lemma clear_result:
  assumes scr: "screen_ok s" and d: "d = displaying s" and t: "term_at d s = Some t"
  shows "\<exists>u. terminal_clear s = Some u \<and> now_shows d (t\<lparr>t_screen_x := 0, t_screen_y := 0\<rparr>) s u \<and>
    cells_of (video_mem u) = replicate 2000 blank \<and> screen_x u = 0 \<and> screen_y u = 0"
proof -
  have "page (video_mem s)" using scr by (simp add: screen_ok_def)
  then obtain v where v: "clear s = Some v" "page (video_mem v)" "cells_of (video_mem v) = replicate 2000 blank"
    "v = s\<lparr>video_mem := video_mem v\<rparr>" using clear_shows by blast
  let ?t = "t\<lparr>t_screen_x := 0, t_screen_y := 0\<rparr>"
  have e: "terminal_list v = terminal_list s" "displaying v = d" by (subst v(4), simp add: displaying_def d)+
  have "only_terminals s v" by (subst v(4)) (simp add: only_terminals_def)
  moreover have "screen_x v = screen_x s" "screen_y v = screen_y s" by (subst v(4), simp)+
  ultimately have n: "now_shows d t s v" using v(2) t e scr
    by (simp add: now_shows_def writes_only_def term_at_def screen_ok_def)
  note w = now_shows_set [OF n, of ?t]
  let ?w = "v\<lparr>terminal_list := (terminal_list v)[nat d := ?t]\<rparr>"
  let ?u = "set_blinking_cursor_pos 0 0 (set_cursor_pos 0 0 ?w)"
  have "terminal_clear s = Some ?u"
    using v(1) e(2) n w(1) by (simp add: terminal_clear_def now_shows_def)
  moreover have "writes_only d d ?w ?u"
    using screen_writes(1) [of d ?w 0 0] screen_writes(2) [of d "set_cursor_pos 0 0 ?w" 0 0] by (blast intro: writes_only_trans)
  then have "now_shows d ?t s ?u"
    using w(2) screen_writes(1) [of d ?w 0 0 d] writes_only_trans [of d d s ?w]
    by (simp add: now_shows_def cursor_moved)
  moreover have "video_mem ?u = video_mem v" "screen_x ?u = 0" "screen_y ?u = 0"
    by (simp_all add: set_cursor_pos_def set_blinking_cursor_pos_def outw_def Let_def NUM_COLS_def NUM_ROWS_def)
  ultimately show ?thesis using v(3) by auto
qed

section \<open>Switching the displayed terminal\<close>

lemma copy_page:
  assumes "page dest" and "page src"
  shows "copy_bytes dest src (nat (NUM_COLS * NUM_ROWS * 2)) = Some src"
proof -
  have "for_range 0 4000 (\<lambda>i dest. do { c \<leftarrow> rd src i; wr dest i c }) dest = Some (take 4000 src @ drop 4000 dest)"
    by (rule copy_loop) (use assms in \<open>simp_all add: page_def\<close>)
  then show ?thesis using assms by (simp add: copy_bytes_def NUM_COLS_def NUM_ROWS_def page_def)
qed

lemma set_current_terminal_shows:
  assumes i: "current_terminal_index s = d" "d \<noteq> e" "0 \<le> e" "e \<le> 2"
    and t: "term_at d s = Some t" "term_at e s = Some t'"
    and p: "page (video_mem s)" "page (video_buffer t)" "page (video_buffer t')"
  shows "\<exists>u. set_current_terminal e s = Some u \<and> current_terminal_index u = e \<and> video_mem u = video_buffer t' \<and>
    (\<forall>j. term_at j u = (if j = d then Some (t\<lparr>video_buffer := video_mem s\<rparr>) else term_at j s)) \<and>
    length (terminal_list u) = length (terminal_list s) \<and> screen_x u = screen_x s \<and> screen_y u = screen_y s \<and>
    only_terminals (s\<lparr>current_terminal_index := e\<rparr>) u"
proof -
  let ?t = "t\<lparr>video_buffer := video_mem s\<rparr>"
  let ?s = "s\<lparr>terminal_list := (terminal_list s)[nat d := ?t]\<rparr>"
  have at: "term_at j ?s = (if j = d then Some ?t else term_at j s)" for j by (rule term_at_update [OF t(1)])
  have f: "terminal_list (?s\<lparr>current_terminal_index := e\<rparr>) = terminal_list ?s" by simp
  let ?v = "?s\<lparr>current_terminal_index := e, video_mem := video_buffer t'\<rparr>"
  let ?u = "set_blinking_cursor_pos (t_screen_x t') (t_screen_y t') ?v"
  have av: "term_at j ?v = term_at j ?s" "term_at j (?s\<lparr>current_terminal_index := e\<rparr>) = term_at j ?s" for j
    by (simp_all add: term_at_def)
  have "set_current_terminal e s = Some ?u"
    using i t(1) set_term_in [OF t(1), of ?t] copy_page [OF p(2,1)] copy_page [OF p(1,3)] av at t(2)
    by (simp add: set_current_terminal_def displaying_def)
  moreover have "video_mem ?u = video_buffer t'" "current_terminal_index ?u = e"
    "length (terminal_list ?u) = length (terminal_list s)" "screen_x ?u = screen_x s" "screen_y ?u = screen_y s"
    "only_terminals (s\<lparr>current_terminal_index := e\<rparr>) ?u"
    by (simp_all add: set_blinking_cursor_pos_def outw_def Let_def only_terminals_def)
  ultimately show ?thesis using av at by (intro exI [of _ ?u]) (auto simp: cursor_moved)
qed

text \<open>Displaying another terminal saves the screen in the page of the one that was displayed and
  shows the other one's page; every other field of every terminal is as before. Coming back
  restores the screen, and the page of the other terminal is what it was.\<close>

theorem set_current_terminal_roundtrip:
  assumes i: "current_terminal_index s = d" "d \<noteq> e" "0 \<le> d" "d \<le> 2" "0 \<le> e" "e \<le> 2"
    and t: "term_at d s = Some t" "term_at e s = Some t'"
    and p: "page (video_mem s)" "page (video_buffer t)" "page (video_buffer t')"
  shows "\<exists>u v. set_current_terminal e s = Some u \<and> current_terminal_index u = e \<and> video_mem u = video_buffer t' \<and>
    term_at d u = Some (t\<lparr>video_buffer := video_mem s\<rparr>) \<and> term_at e u = Some t' \<and>
    set_current_terminal d u = Some v \<and> current_terminal_index v = d \<and> video_mem v = video_mem s \<and>
    term_at e v = Some t'"
proof -
  obtain u where u: "set_current_terminal e s = Some u" "current_terminal_index u = e" "video_mem u = video_buffer t'"
    "\<forall>j. term_at j u = (if j = d then Some (t\<lparr>video_buffer := video_mem s\<rparr>) else term_at j s)"
    using set_current_terminal_shows [OF i(1,2,5,6) t p] by blast
  have tu: "term_at e u = Some t'" "term_at d u = Some (t\<lparr>video_buffer := video_mem s\<rparr>)"
    using u(4) t i(2) by simp_all
  have pu: "page (video_mem u)" "page (video_buffer (t\<lparr>video_buffer := video_mem s\<rparr>))" using u(3) p by simp_all
  obtain v where v: "set_current_terminal d u = Some v" "current_terminal_index v = d"
    "video_mem v = video_buffer (t\<lparr>video_buffer := video_mem s\<rparr>)"
    "\<forall>j. term_at j v = (if j = e then Some (t'\<lparr>video_buffer := video_mem u\<rparr>) else term_at j u)"
    using set_current_terminal_shows [OF u(2) i(2) [symmetric] i(3,4) tu pu(1) p(3) pu(2)] by blast
  show ?thesis using u v tu by (intro exI [of _ u] exI [of _ v]) simp
qed

theorem set_current_terminal_roundtrip_witness:
  "\<exists>u v. set_current_terminal 1 typing_demo = Some u \<and> video_mem u = replicate 4000 0 \<and>
     set_current_terminal 0 u = Some v \<and> video_mem v = video_mem typing_demo"
proof -
  have i: "current_terminal_index typing_demo = 0" "(0 :: int) \<noteq> 1" "(0 :: int) \<le> 0" "(0 :: int) \<le> 2" "(0 :: int) \<le> 1"
    "(1 :: int) \<le> 2"
    by (simp_all add: typing_demo_def terminals_demo_def)
  have t: "term_at 1 typing_demo = Some (terminal_demo\<lparr>chars_printed := 81\<rparr>)"
    by (simp add: term_at_def rdi_def rd_def typing_demo_def terminals_demo_def)
  have p: "page (video_mem typing_demo)" "page (video_buffer terminal_demo)"
    "page (video_buffer (terminal_demo\<lparr>chars_printed := 81\<rparr>))"
    using typing_demo_ok(1) by (simp_all add: edit_ok_def screen_ok_def terminal_demo_def page_def)
  have b: "video_buffer (terminal_demo\<lparr>chars_printed := 81\<rparr>) = replicate 4000 0" by (simp add: terminal_demo_def)
  show ?thesis using set_current_terminal_roundtrip [OF i typing_demo_ok(3) t p] unfolding b by blast
qed

end
