(* ===== verification/Keyboard.thy ===== *)
theory Keyboard
  imports Terminal
begin

text \<open>
  The keyboard driver, \<^verbatim>\<open>keyboard.c\<close>, its interrupt entry \<^verbatim>\<open>do_idt_keyboard\<close>, and
  \<^verbatim>\<open>terminal_read\<close> of \<^verbatim>\<open>terminal.c\<close>, which waits for it. A pointer to a \<^verbatim>\<open>key\<close> is the name
  of the variable; the only field of a key that changes, \<^verbatim>\<open>pressed\<close>, is a map of the state. The
  scan code comes from the device, a parameter; the interrupts taken while \<^verbatim>\<open>terminal_read\<close>
  waits are a list of state transformers, and the result is \<^term>\<open>None\<close> when they end first.
\<close>

unbundle bit_operations_syntax

section \<open>Keys\<close>

definition DATA_PORT :: u16 where "DATA_PORT = 0x60"

record key =
  lowercase_char :: u8
  uppercase_char :: u8
  shift_char :: u8
  to_display :: u8

record key_orientation =
  keyboard_key :: string
  orientation :: u8

record kbd = kernel +
  key_pressed :: "string \<Rightarrow> u8"
  keymap :: "key_orientation option list"
  shortcut_received :: int

definition key_of :: "u8 \<Rightarrow> u8 \<Rightarrow> u8 \<Rightarrow> u8 \<Rightarrow> key" where
  "key_of l u sh d = \<lparr>lowercase_char = l, uppercase_char = u, shift_char = sh, to_display = d\<rparr>"

text \<open>Every key of the source with its three characters and whether it is displayed; the
  \<^verbatim>\<open>pressed\<close> field, 0 for each of them, is in the state.\<close>

definition key_table :: "(string \<times> key) list" where
  "key_table = [
     (''dummy'', key_of 0 0 0 0),
     (''escape'', key_of 0 0 0 0),
     (''number_1'', key_of 49 49 33 1),
     (''number_2'', key_of 50 50 64 1),
     (''number_3'', key_of 51 51 35 1),
     (''number_4'', key_of 52 52 36 1),
     (''number_5'', key_of 53 53 37 1),
     (''number_6'', key_of 54 54 94 1),
     (''number_7'', key_of 55 55 38 1),
     (''number_8'', key_of 56 56 42 1),
     (''number_9'', key_of 57 57 40 1),
     (''number_0'', key_of 48 48 41 1),
     (''dash'', key_of 45 45 95 1),
     (''equals'', key_of 61 61 43 1),
     (''backspace'', key_of 0 0 0 0),
     (''tab'', key_of 9 9 9 0),
     (''q'', key_of 113 81 81 1),
     (''w'', key_of 119 87 87 1),
     (''e'', key_of 101 69 69 1),
     (''r'', key_of 114 82 82 1),
     (''t'', key_of 116 84 84 1),
     (''y'', key_of 121 89 89 1),
     (''u'', key_of 117 85 85 1),
     (''i'', key_of 105 73 73 1),
     (''o'', key_of 111 79 79 1),
     (''p'', key_of 112 80 80 1),
     (''left_bracket'', key_of 91 91 123 1),
     (''right_bracket'', key_of 93 93 125 1),
     (''enter'', key_of 10 10 10 1),
     (''left_control'', key_of 0 0 0 0),
     (''a'', key_of 97 65 65 1),
     (''s'', key_of 115 83 83 1),
     (''d'', key_of 100 68 68 1),
     (''f'', key_of 102 70 70 1),
     (''g'', key_of 103 71 71 1),
     (''h'', key_of 104 72 72 1),
     (''j'', key_of 106 74 74 1),
     (''k'', key_of 107 75 75 1),
     (''l'', key_of 108 76 76 1),
     (''semicolon'', key_of 59 59 58 1),
     (''single_quote'', key_of 39 39 34 1),
     (''back_tick'', key_of 96 96 126 1),
     (''left_shift'', key_of 0 0 0 0),
     (''backslash'', key_of 92 92 124 1),
     (''z'', key_of 122 88 90 1),
     (''x'', key_of 120 88 88 1),
     (''c'', key_of 99 67 67 1),
     (''v'', key_of 118 86 86 1),
     (''b'', key_of 98 66 66 1),
     (''n'', key_of 110 78 78 1),
     (''m'', key_of 109 77 77 1),
     (''comma'', key_of 44 44 60 1),
     (''period'', key_of 46 46 62 1),
     (''slash'', key_of 47 47 63 1),
     (''right_shift'', key_of 0 0 0 0),
     (''left_alt'', key_of 0 0 0 0),
     (''space'', key_of 32 32 32 1),
     (''caps_lock'', key_of 0 0 0 0),
     (''f1'', key_of 0 0 0 0),
     (''f2'', key_of 0 0 0 0),
     (''f3'', key_of 0 0 0 0),
     (''f4'', key_of 0 0 0 0),
     (''f5'', key_of 0 0 0 0),
     (''f6'', key_of 0 0 0 0),
     (''f7'', key_of 0 0 0 0),
     (''f8'', key_of 0 0 0 0),
     (''f9'', key_of 0 0 0 0),
     (''f10'', key_of 0 0 0 0),
     (''f11'', key_of 0 0 0 0),
     (''f12'', key_of 0 0 0 0),
     (''number_lock'', key_of 0 0 0 0),
     (''scroll_lock'', key_of 0 0 0 0),
     (''keypad_1'', key_of 49 49 49 1),
     (''keypad_2'', key_of 50 50 50 1),
     (''keypad_3'', key_of 51 51 51 1),
     (''keypad_4'', key_of 52 52 52 1),
     (''keypad_5'', key_of 53 53 53 1),
     (''keypad_6'', key_of 54 54 54 1),
     (''keypad_7'', key_of 55 55 55 1),
     (''keypad_8'', key_of 56 56 56 1),
     (''keypad_9'', key_of 57 57 57 1),
     (''keypad_0'', key_of 48 48 48 1),
     (''keypad_dash'', key_of 45 45 45 1),
     (''keypad_plus'', key_of 43 43 43 1),
     (''keypad_period'', key_of 46 46 46 1),
     (''keypad_star'', key_of 42 42 42 1),
     (''keypad_enter'', key_of 10 10 10 1),
     (''right_control'', key_of 0 0 0 0),
     (''keypad_slash'', key_of 47 47 47 1),
     (''right_alt'', key_of 0 0 0 0),
     (''home'', key_of 0 0 0 0),
     (''cursor_up'', key_of 0 0 0 0),
     (''page_up'', key_of 0 0 0 0),
     (''cursor_left'', key_of 0 0 0 0),
     (''cursor_right'', key_of 0 0 0 0),
     (''end'', key_of 0 0 0 0),
     (''cursor_down'', key_of 0 0 0 0),
     (''page_down'', key_of 0 0 0 0),
     (''insert'', key_of 0 0 0 0),
     (''delete'', key_of 0 0 0 0),
     (''left_gui'', key_of 0 0 0 0),
     (''right_gui'', key_of 0 0 0 0),
     (''apps'', key_of 0 0 0 0),
     (''pause'', key_of 0 0 0 0)]"

text \<open>The two orientations of each key \<^verbatim>\<open>k\<close>: the variables \<^verbatim>\<open>k_pressed\<close> and \<^verbatim>\<open>k_released\<close>.\<close>

definition pressed_key :: "string \<Rightarrow> key_orientation" where
  "pressed_key k = \<lparr>keyboard_key = k, orientation = 1\<rparr>"

definition released_key :: "string \<Rightarrow> key_orientation" where
  "released_key k = \<lparr>keyboard_key = k, orientation = 0\<rparr>"

text \<open>The assignments of \<^verbatim>\<open>init_keys\<close>: the codes of keys going down, and of keys going up.\<close>

definition make_codes :: "(nat \<times> key_orientation) list" where
  "make_codes = [
     (0x01, pressed_key ''escape''),
     (0x02, pressed_key ''number_1''),
     (0x03, pressed_key ''number_2''),
     (0x04, pressed_key ''number_3''),
     (0x05, pressed_key ''number_4''),
     (0x06, pressed_key ''number_5''),
     (0x07, pressed_key ''number_6''),
     (0x08, pressed_key ''number_7''),
     (0x09, pressed_key ''number_8''),
     (0x0A, pressed_key ''number_9''),
     (0x0B, pressed_key ''number_0''),
     (0x0C, pressed_key ''dash''),
     (0x0D, pressed_key ''equals''),
     (0x0E, pressed_key ''backspace''),
     (0x0F, pressed_key ''tab''),
     (0x10, pressed_key ''q''),
     (0x11, pressed_key ''w''),
     (0x12, pressed_key ''e''),
     (0x13, pressed_key ''r''),
     (0x14, pressed_key ''t''),
     (0x15, pressed_key ''y''),
     (0x16, pressed_key ''u''),
     (0x17, pressed_key ''i''),
     (0x18, pressed_key ''o''),
     (0x19, pressed_key ''p''),
     (0x1A, pressed_key ''left_bracket''),
     (0x1B, pressed_key ''right_bracket''),
     (0x1C, pressed_key ''enter''),
     (0x1D, pressed_key ''left_control''),
     (0x1E, pressed_key ''a''),
     (0x1F, pressed_key ''s''),
     (0x20, pressed_key ''d''),
     (0x21, pressed_key ''f''),
     (0x22, pressed_key ''g''),
     (0x23, pressed_key ''h''),
     (0x24, pressed_key ''j''),
     (0x25, pressed_key ''k''),
     (0x26, pressed_key ''l''),
     (0x27, pressed_key ''semicolon''),
     (0x28, pressed_key ''single_quote''),
     (0x29, pressed_key ''back_tick''),
     (0x2A, pressed_key ''left_shift''),
     (0x2B, pressed_key ''backslash''),
     (0x2C, pressed_key ''z''),
     (0x2D, pressed_key ''x''),
     (0x2E, pressed_key ''c''),
     (0x2F, pressed_key ''v''),
     (0x30, pressed_key ''b''),
     (0x31, pressed_key ''n''),
     (0x32, pressed_key ''m''),
     (0x33, pressed_key ''comma''),
     (0x34, pressed_key ''period''),
     (0x35, pressed_key ''slash''),
     (0x36, pressed_key ''right_shift''),
     (0x37, pressed_key ''keypad_star''),
     (0x38, pressed_key ''left_alt''),
     (0x39, pressed_key ''space''),
     (0x3A, pressed_key ''caps_lock''),
     (0x3B, pressed_key ''f1''),
     (0x3C, pressed_key ''f2''),
     (0x3D, pressed_key ''f3''),
     (0x3E, pressed_key ''f4''),
     (0x3F, pressed_key ''f5''),
     (0x40, pressed_key ''f6''),
     (0x41, pressed_key ''f7''),
     (0x42, pressed_key ''f8''),
     (0x43, pressed_key ''f9''),
     (0x44, pressed_key ''f10''),
     (0x45, pressed_key ''number_lock''),
     (0x46, pressed_key ''scroll_lock''),
     (0x47, pressed_key ''home''),
     (0x48, pressed_key ''cursor_up''),
     (0x49, pressed_key ''page_up''),
     (0x4A, pressed_key ''keypad_dash''),
     (0x4B, pressed_key ''cursor_left''),
     (0x4C, pressed_key ''keypad_5''),
     (0x4D, pressed_key ''cursor_right''),
     (0x4E, pressed_key ''keypad_plus''),
     (0x4F, pressed_key ''end''),
     (0x50, pressed_key ''cursor_down''),
     (0x51, pressed_key ''page_down''),
     (0x52, pressed_key ''insert''),
     (0x53, pressed_key ''delete''),
     (0x57, pressed_key ''f11''),
     (0x58, pressed_key ''f12'')]"

definition break_codes :: "(nat \<times> key_orientation) list" where
  "break_codes = [
     (0x81, released_key ''escape''),
     (0x82, released_key ''number_1''),
     (0x83, released_key ''number_2''),
     (0x84, released_key ''number_3''),
     (0x85, released_key ''number_4''),
     (0x86, released_key ''number_5''),
     (0x87, released_key ''number_6''),
     (0x88, released_key ''number_7''),
     (0x89, released_key ''number_8''),
     (0x8A, released_key ''number_9''),
     (0x8B, released_key ''number_0''),
     (0x8C, released_key ''dash''),
     (0x8D, released_key ''equals''),
     (0x8E, released_key ''backspace''),
     (0x8F, released_key ''tab''),
     (0x90, released_key ''q''),
     (0x91, released_key ''w''),
     (0x92, released_key ''e''),
     (0x93, released_key ''r''),
     (0x94, released_key ''t''),
     (0x95, released_key ''y''),
     (0x96, released_key ''u''),
     (0x97, released_key ''home''),
     (0x98, released_key ''o''),
     (0x99, released_key ''p''),
     (0x9A, released_key ''left_bracket''),
     (0x9B, released_key ''right_bracket''),
     (0x9C, released_key ''enter''),
     (0x9D, released_key ''left_control''),
     (0x9E, released_key ''a''),
     (0x9F, released_key ''s''),
     (0xA0, released_key ''d''),
     (0xA1, released_key ''f''),
     (0xA2, released_key ''g''),
     (0xA3, released_key ''h''),
     (0xA4, released_key ''j''),
     (0xA5, released_key ''k''),
     (0xA6, released_key ''l''),
     (0xA7, released_key ''semicolon''),
     (0xA8, released_key ''single_quote''),
     (0xA9, released_key ''back_tick''),
     (0xAA, released_key ''left_shift''),
     (0xAB, released_key ''backslash''),
     (0xAC, released_key ''z''),
     (0xAD, released_key ''x''),
     (0xAE, released_key ''c''),
     (0xAF, released_key ''v''),
     (0xB0, released_key ''b''),
     (0xB1, released_key ''n''),
     (0xB2, released_key ''m''),
     (0xB3, released_key ''comma''),
     (0xB4, released_key ''period''),
     (0xB5, released_key ''slash''),
     (0xB6, released_key ''right_shift''),
     (0xB7, released_key ''keypad_star''),
     (0xB8, released_key ''left_alt''),
     (0xB9, released_key ''space''),
     (0xBA, pressed_key ''caps_lock''),
     (0xBB, released_key ''f1''),
     (0xBC, released_key ''f2''),
     (0xBD, released_key ''f3''),
     (0xBE, released_key ''f4''),
     (0xBF, released_key ''f5''),
     (0xC0, released_key ''f6''),
     (0xC1, released_key ''f7''),
     (0xC2, released_key ''f8''),
     (0xC3, released_key ''f9''),
     (0xC4, released_key ''f10''),
     (0xC5, released_key ''number_lock''),
     (0xC6, released_key ''scroll_lock''),
     (0xC7, released_key ''keypad_7''),
     (0xC8, released_key ''cursor_up''),
     (0xC9, released_key ''page_up''),
     (0xCA, released_key ''keypad_dash''),
     (0xCB, released_key ''cursor_left''),
     (0xCC, released_key ''keypad_5''),
     (0xCD, released_key ''cursor_right''),
     (0xCE, released_key ''keypad_plus''),
     (0xCF, released_key ''end''),
     (0xD0, released_key ''cursor_down''),
     (0xD1, released_key ''page_down''),
     (0xD2, released_key ''insert''),
     (0xD3, released_key ''page_down''),
     (0xD7, released_key ''f11''),
     (0xD8, released_key ''f12'')]"

definition init_keys :: "'a kbd_scheme \<Rightarrow> 'a kbd_scheme option" where
  "init_keys s = do {
     km \<leftarrow> for_range 0 0xFF (\<lambda>i km. wr km i (Some (pressed_key ''dummy''))) (keymap s);
     km \<leftarrow> fold_opt (\<lambda>(i, k) km. wr km i (Some k)) make_codes km;
     km \<leftarrow> fold_opt (\<lambda>(i, k) km. wr km i (Some k)) break_codes km;
     Some (s\<lparr>keymap := km\<rparr>) }"

section \<open>Modifiers and characters\<close>

definition is_pressed :: "string \<Rightarrow> 'a kbd_scheme \<Rightarrow> u8" where
  "is_pressed k s = key_pressed s k"

definition is_shift_pressed :: "'a kbd_scheme \<Rightarrow> bool" where
  "is_shift_pressed s = (is_pressed ''right_shift'' s \<noteq> 0 \<or> is_pressed ''left_shift'' s \<noteq> 0)"

definition is_enter_pressed :: "'a kbd_scheme \<Rightarrow> bool" where
  "is_enter_pressed s = (is_pressed ''enter'' s \<noteq> 0 \<or> is_pressed ''keypad_enter'' s \<noteq> 0)"

definition is_caps_lock_pressed :: "'a kbd_scheme \<Rightarrow> u8" where
  "is_caps_lock_pressed s = is_pressed ''caps_lock'' s"

definition is_control_pressed :: "'a kbd_scheme \<Rightarrow> bool" where
  "is_control_pressed s = (is_pressed ''right_control'' s \<noteq> 0 \<or> is_pressed ''left_control'' s \<noteq> 0)"

definition is_alt_pressed :: "'a kbd_scheme \<Rightarrow> bool" where
  "is_alt_pressed s = (is_pressed ''right_alt'' s \<noteq> 0 \<or> is_pressed ''left_alt'' s \<noteq> 0)"

definition print_key :: "string option \<Rightarrow> 'a kbd_scheme \<Rightarrow> (u8 \<times> 'a kbd_scheme) option" where
  "print_key k s =
     (case k of
        None \<Rightarrow> Some (- 1, s)
      | Some name \<Rightarrow> do {
          key \<leftarrow> map_of key_table name;
          (if is_pressed name s = 0 \<or> to_display key = 0 \<or> shortcut_received s \<noteq> 0 then Some (- 1, s)
           else do {
             let char_to_print = (if is_shift_pressed s then shift_char key
                                  else if is_caps_lock_pressed s \<noteq> 0 then uppercase_char key
                                  else lowercase_char key);
             s \<leftarrow> terminal_add_to_buffer char_to_print s;
             Some (0, s) }) })"

section \<open>The driver\<close>

definition keyboard_init :: "'a kbd_scheme \<Rightarrow> 'a kbd_scheme option" where
  "keyboard_init s = do {
     s \<leftarrow> init_keys (enable_irq 1 s);
     Some (s\<lparr>shortcut_received := 0\<rparr>) }"

text \<open>A key is marked as released.\<close>

definition let_go :: "string \<Rightarrow> 'a kbd_scheme \<Rightarrow> 'a kbd_scheme" where
  "let_go k s = s\<lparr>key_pressed := (key_pressed s)(k := 0)\<rparr>"

definition process_shortcuts :: "'a kbd_scheme \<Rightarrow> 'a kbd_scheme option" where
  "process_shortcuts s =
     (if is_control_pressed s \<and> is_pressed ''l'' s \<noteq> 0 then do {
        s \<leftarrow> terminal_clear s;
        Some ((set_cursor_pos 0 0 s)\<lparr>shortcut_received := 1\<rparr>) }
      else if is_control_pressed s \<and> is_pressed ''c'' s \<noteq> 0 then
        Some (send_eoi 1 (s\<lparr>shortcut_received := 0\<rparr>))
      else if is_pressed ''backspace'' s \<noteq> 0 then do {
        s \<leftarrow> terminal_backspace s;
        Some ((let_go ''backspace'' s)\<lparr>shortcut_received := 1\<rparr>) }
      else if is_alt_pressed s \<and> is_pressed ''f1'' s \<noteq> 0 then do {
        s \<leftarrow> set_current_terminal 0 s;
        Some ((let_go ''f1'' s)\<lparr>shortcut_received := 1\<rparr>) }
      else if is_alt_pressed s \<and> is_pressed ''f2'' s \<noteq> 0 then do {
        s \<leftarrow> set_current_terminal 1 s;
        Some ((let_go ''f2'' s)\<lparr>shortcut_received := 1\<rparr>) }
      else if is_alt_pressed s \<and> is_pressed ''f3'' s \<noteq> 0 then do {
        s \<leftarrow> set_current_terminal 2 s;
        Some ((let_go ''f3'' s)\<lparr>shortcut_received := 1\<rparr>) }
      else Some s)"

definition process_keypress :: "device \<Rightarrow> 'a kbd_scheme \<Rightarrow> 'a kbd_scheme option" where
  "process_keypress dev s = do {
     let (v, s) = inb dev DATA_PORT s;
     let scan_code = (ucast v :: u8);
     entry \<leftarrow> rd (keymap s) (unat scan_code);
     k \<leftarrow> entry;
     let s = s\<lparr>key_pressed := (key_pressed s)(keyboard_key k := orientation k)\<rparr>;
     s \<leftarrow> process_shortcuts s;
     entry \<leftarrow> rd (keymap s) (unat scan_code);
     k \<leftarrow> entry;
     (_, s) \<leftarrow> print_key (Some (keyboard_key k)) s;
     Some (s\<lparr>shortcut_received := 0\<rparr>) }"

definition do_idt_keyboard :: "device \<Rightarrow> 'a kbd_scheme \<Rightarrow> 'a kbd_scheme option" where
  "do_idt_keyboard dev s = do {
     s \<leftarrow> process_keypress dev s;
     Some (send_eoi 1 s) }"

section \<open>Waiting for a line\<close>

text \<open>The loop of \<^verbatim>\<open>keyboard_wait_for_new_line\<close>; \<^verbatim>\<open>cur\<close> is \<^verbatim>\<open>current_terminal\<close>.\<close>

fun wait_loop :: "int \<Rightarrow> int \<Rightarrow> ('a kbd_scheme \<Rightarrow> 'a kbd_scheme option) list \<Rightarrow> int \<Rightarrow> 'a kbd_scheme \<Rightarrow>
    (u8 \<times> 'a kbd_scheme) option" where
  "wait_loop old max_chars intrs cur s = do {
     t \<leftarrow> term_at cur s;
     (if old > input_pointer (input t) - max_chars then
        (if t_state t = TERMINAL_DONE_READ \<and> input_pointer (input t) < int BUFFER_SIZE - 1 then do {
           let s = let_go ''keypad_enter'' (let_go ''enter'' s);
           l \<leftarrow> get_last_terminal_line s;
           Some (word_of_int (input_pointer l), s) }
         else (case intrs of
             [] \<Rightarrow> None
           | intr # rest \<Rightarrow> do { s \<leftarrow> intr s; wait_loop old max_chars rest (get_executing_terminal s) s }))
      else Some (word_of_int max_chars, s)) }"

definition keyboard_wait_for_new_line ::
  "('a kbd_scheme \<Rightarrow> 'a kbd_scheme option) list \<Rightarrow> int \<Rightarrow> 'a kbd_scheme \<Rightarrow> (u8 \<times> 'a kbd_scheme) option" where
  "keyboard_wait_for_new_line intrs max_chars s = do {
     let cur = get_executing_terminal s;
     t \<leftarrow> term_at cur s;
     wait_loop (input_pointer (input t)) max_chars intrs cur s }"

text \<open>The end of \<^verbatim>\<open>terminal_read\<close>: the line is copied out.\<close>

definition finish_read :: "int \<Rightarrow> u8 list \<Rightarrow> 'a kbd_scheme \<Rightarrow> (int \<times> u8 list option \<times> 'a kbd_scheme) option" where
  "finish_read i output s = do {
     output \<leftarrow> for_range 0 (nat (i - 1)) (\<lambda>j output. do {
         l \<leftarrow> get_last_terminal_line s;
         c \<leftarrow> rd (line l) j;
         wr output j c }) output;
     t \<leftarrow> term_at (get_executing_terminal s) s;
     s \<leftarrow> set_term (get_executing_terminal s) (t\<lparr>t_state := TERMINAL_IDLE\<rparr>) s;
     Some (i - 1, Some output, s) }"

definition terminal_read ::
  "('a kbd_scheme \<Rightarrow> 'a kbd_scheme option) list \<Rightarrow> int \<Rightarrow> u8 list option \<Rightarrow> int \<Rightarrow> 'a kbd_scheme \<Rightarrow>
   (int \<times> u8 list option \<times> 'a kbd_scheme) option" where
  "terminal_read intrs fd buf nbytes s =
     (case buf of
        None \<Rightarrow> Some (- 1, None, s)
      | Some output \<Rightarrow> do {
          d \<leftarrow> term_at (displaying s) s;
          s \<leftarrow> set_term (displaying s) (d\<lparr>starting_offset := fst (get_cursor_pos s)\<rparr>) s;
          t \<leftarrow> term_at (get_executing_terminal s) s;
          s \<leftarrow> (if input_pointer (input t) > 0 then do {
                  (_, s) \<leftarrow> terminal_write 1 (Some (line (input t))) (input_pointer (input t)) s;
                  Some s }
                else Some s);
          (if nbytes \<le> 0 then Some (0, Some output, s)
           else do {
             let nbytes = (if nbytes > int BUFFER_SIZE then int BUFFER_SIZE else nbytes);
             t \<leftarrow> term_at (get_executing_terminal s) s;
             s \<leftarrow> set_term (get_executing_terminal s) (t\<lparr>t_state := TERMINAL_READ\<rparr>) s;
             (i, s) \<leftarrow> keyboard_wait_for_new_line intrs nbytes s;
             finish_read (uint i) output s }) })"

section \<open>The map of scan codes\<close>

text \<open>The map that \<^verbatim>\<open>init_keys\<close> builds.\<close>

definition code_key :: "nat \<Rightarrow> key_orientation" where
  "code_key i = (case map_of break_codes i of Some k \<Rightarrow> k
     | None \<Rightarrow> (case map_of make_codes i of Some k \<Rightarrow> k | None \<Rightarrow> pressed_key ''dummy''))"

lemma assign_loop:
  assumes "distinct (map fst cs)" and "\<forall>i \<in> set (map fst cs). i < length km"
  shows "fold_opt (\<lambda>(i, k) km. wr km i (Some k)) cs km =
    Some (map (\<lambda>i. case map_of cs i of Some k \<Rightarrow> Some k | None \<Rightarrow> km ! i) [0..<length km])"
  using assms
proof (induction cs arbitrary: km)
  case Nil
  then show ?case by (simp add: map_nth)
next
  case (Cons c cs)
  obtain i k where c: "c = (i, k)" by (cases c)
  have i: "i < length km" "i \<notin> set (map fst cs)" using Cons.prems c by auto
  then have n: "map_of cs i = None" by (simp add: map_of_eq_None_iff)
  have "fold_opt (\<lambda>(i, k) km. wr km i (Some k)) (c # cs) km =
      Some (map (\<lambda>j. case map_of cs j of Some k \<Rightarrow> Some k | None \<Rightarrow> km[i := Some k] ! j) [0..<length (km[i := Some k])])"
    using Cons i(1) c by (simp add: wr_in)
  also have "\<dots> = Some (map (\<lambda>j. case map_of (c # cs) j of Some k \<Rightarrow> Some k | None \<Rightarrow> km ! j) [0..<length km])"
    using n c by (auto simp: nth_list_update split: option.splits)
  finally show ?case .
qed

lemma codes_distinct: "distinct (map fst make_codes)" "distinct (map fst break_codes)"
    "\<forall>i \<in> set (map fst make_codes). i < 255" "\<forall>i \<in> set (map fst break_codes). i < 255"
  by (simp_all add: make_codes_def break_codes_def)

lemma init_keys_map:
  assumes "length (keymap s) = 255"
  shows "init_keys s = Some (s\<lparr>keymap := map (\<lambda>i. Some (code_key i)) [0..<255]\<rparr>)"
proof -
  let ?d = "replicate 255 (Some (pressed_key ''dummy''))"
  have 0: "for_range 0 255 (\<lambda>i km. wr km i (Some (pressed_key ''dummy''))) (keymap s) = Some ?d"
    using fill_loop [of 0 255 "keymap s"] assms by simp
  let ?m = "map (\<lambda>i. case map_of make_codes i of Some k \<Rightarrow> Some k | None \<Rightarrow> ?d ! i) [0..<length ?d]"
  have 1: "fold_opt (\<lambda>(i, k) km. wr km i (Some k)) make_codes ?d = Some ?m"
    by (rule assign_loop) (use codes_distinct in simp_all)
  have 2: "fold_opt (\<lambda>(i, k) km. wr km i (Some k)) break_codes ?m =
      Some (map (\<lambda>i. case map_of break_codes i of Some k \<Rightarrow> Some k | None \<Rightarrow> ?m ! i) [0..<length ?m])"
    by (rule assign_loop) (use codes_distinct in simp_all)
  have "map (\<lambda>i. case map_of break_codes i of Some k \<Rightarrow> Some k | None \<Rightarrow> ?m ! i) [0..<length ?m] =
      map (\<lambda>i. Some (code_key i)) [0..<255]"
    by (rule map_cong) (auto simp: code_key_def simp del: replicate.simps split: option.splits)
  then show ?thesis using 0 1 2 by (simp add: init_keys_def)
qed

text \<open>The keys of the codes, by their position in the table.\<close>

lemma codes_have_keys:
  "map (\<lambda>c. keyboard_key (snd c)) (make_codes @ break_codes) = map (\<lambda>i. fst (key_table ! i)) [
     1, 2, 3, 4, 5, 6, 7, 8, 9, 10, 11, 12, 13, 14, 15, 16, 17, 18, 19, 20, 21, 22, 23, 24, 25, 26, 27,
     28, 29, 30, 31, 32, 33, 34, 35, 36, 37, 38, 39, 40, 41, 42, 43, 44, 45, 46, 47, 48, 49, 50, 51, 52,
     53, 54, 85, 55, 56, 57, 58, 59, 60, 61, 62, 63, 64, 65, 66, 67, 70, 71, 90, 91, 92, 82, 93, 76, 94,
     83, 95, 96, 97, 98, 99, 68, 69, 1, 2, 3, 4, 5, 6, 7, 8, 9, 10, 11, 12, 13, 14, 15, 16, 17, 18, 19,
     20, 21, 22, 90, 24, 25, 26, 27, 28, 29, 30, 31, 32, 33, 34, 35, 36, 37, 38, 39, 40, 41, 42, 43, 44,
     45, 46, 47, 48, 49, 50, 51, 52, 53, 54, 85, 55, 56, 57, 58, 59, 60, 61, 62, 63, 64, 65, 66, 67, 70,
     71, 78, 91, 92, 82, 93, 76, 94, 83, 95, 96, 97, 98, 97, 68, 69]"
  by (simp add: make_codes_def break_codes_def key_table_def pressed_key_def released_key_def)

lemma code_key_exists: "\<exists>k. map_of key_table (keyboard_key (code_key i)) = Some k"
proof -
  have len: "length key_table = 104" and hd: "hd key_table = (''dummy'', key_of 0 0 0 0)"
    by (simp_all add: key_table_def)
  then have ne: "key_table \<noteq> []" by auto
  have nth: "n < 104 \<Longrightarrow> fst (key_table ! n) \<in> fst ` set key_table" for n using len by simp
  have "(\<lambda>c. keyboard_key (snd c)) ` set (make_codes @ break_codes) \<subseteq> fst ` set key_table"
    unfolding set_map [symmetric] codes_have_keys by (simp add: nth)
  moreover have "''dummy'' \<in> fst ` set key_table" using hd_in_set [OF ne] hd by force
  moreover have "code_key i = pressed_key ''dummy'' \<or> (i, code_key i) \<in> set (make_codes @ break_codes)"
    by (auto simp: code_key_def split: option.splits dest: map_of_SomeD)
  ultimately have "keyboard_key (code_key i) \<in> fst ` set key_table"
    by (metis image_subset_iff key_orientation.select_convs(1) pressed_key_def snd_conv)
  then show ?thesis by (metis map_of_eq_None_iff not_None_eq)
qed

text \<open>Only the codes 0x1D and 0x38 press a control or an alt key.\<close>

lemma modifier_codes:
  assumes "n \<noteq> 0x1D" and "n \<noteq> 0x38" and "orientation (code_key n) \<noteq> 0"
  shows "keyboard_key (code_key n) \<notin> {''left_control'', ''right_control'', ''left_alt'', ''right_alt''}"
proof -
  have m: "list_all (\<lambda>(i, k). i = 0x1D \<or> i = 0x38 \<or>
      keyboard_key k \<notin> {''left_control'', ''right_control'', ''left_alt'', ''right_alt''}) make_codes"
    by (simp add: make_codes_def pressed_key_def)
  have b: "list_all (\<lambda>(i, k). orientation k = 0 \<or>
      keyboard_key k \<notin> {''left_control'', ''right_control'', ''left_alt'', ''right_alt''}) break_codes"
    by (simp add: break_codes_def released_key_def pressed_key_def)
  show ?thesis
  proof (cases "map_of break_codes n")
    case (Some k)
    then show ?thesis using b assms(3) map_of_SomeD [OF Some] by (auto simp: code_key_def list_all_iff)
  next
    case None
    note n = this
    show ?thesis
    proof (cases "map_of make_codes n")
      case (Some k)
      then show ?thesis using n m assms(1,2) map_of_SomeD [OF Some] by (auto simp: code_key_def list_all_iff)
    qed (simp add: n code_key_def pressed_key_def)
  qed
qed

text \<open>Both codes of the caps lock key press it.\<close>

lemma caps_lock_codes:
  assumes "keyboard_key (code_key n) = ''caps_lock''"
  shows "orientation (code_key n) = 1"
proof -
  have "list_all (\<lambda>(i, k). keyboard_key k = ''caps_lock'' \<longrightarrow> orientation k = 1) break_codes"
    by (simp add: break_codes_def released_key_def pressed_key_def)
  moreover have "list_all (\<lambda>(i, k). orientation k = 1) make_codes"
    by (simp add: make_codes_def pressed_key_def)
  moreover have "orientation (pressed_key ''dummy'') = 1" by (simp add: pressed_key_def)
  ultimately show ?thesis
    using assms by (auto simp: code_key_def list_all_iff split: option.splits dest!: map_of_SomeD)
qed

section \<open>A state the driver works in\<close>

definition terminals_ok :: "'a kernel_scheme \<Rightarrow> bool" where
  "terminals_ok s = (length (terminal_list s) = 3 \<and> (\<forall>t \<in> set (terminal_list s). editable t) \<and>
     0 \<le> current_terminal_index s \<and> current_terminal_index s < 3)"

definition kbd_ok :: "'a kbd_scheme \<Rightarrow> bool" where
  "kbd_ok s = (keymap s = map (\<lambda>i. Some (code_key i)) [0..<255] \<and> screen_ok s \<and> named_task s \<and> terminals_ok s)"

lemma terminals_ok_at:
  assumes "terminals_ok s" and "0 \<le> i" and "i < 3"
  shows "\<exists>t. term_at i s = Some t \<and> editable t"
  using assms by (auto simp: terminals_ok_def term_at_def rdi_def rd_def)

lemma terminals_okI:
  assumes "length (terminal_list s) = 3" and "0 \<le> displaying s" and "displaying s < 3"
    and "\<And>i. 0 \<le> i \<Longrightarrow> i < 3 \<Longrightarrow> \<exists>t. term_at i s = Some t \<and> editable t"
  shows "terminals_ok s"
proof -
  have "editable (terminal_list s ! i)" if "i < 3" for i
    using assms(4) [of "int i"] that assms(1) by (auto simp: term_at_def rdi_def rd_def)
  then show ?thesis using assms(1-3) by (auto simp: terminals_ok_def displaying_def in_set_conv_nth)
qed

lemma kbd_okD:
  assumes "kbd_ok s"
  shows "edit_ok s" "\<exists>t. term_at (displaying s) s = Some t \<and> editable t"
  using assms terminals_ok_at [of s "displaying s"]
  by (auto simp: kbd_ok_def edit_ok_def terminals_ok_def displaying_def)

text \<open>Terminal operations do not touch the keyboard's own state.\<close>

lemma only_terminals_kbd:
  assumes "only_terminals s (u :: 'a kbd_scheme)"
  shows "key_pressed u = key_pressed s" "keymap u = keymap s" "shortcut_received u = shortcut_received s"
proof -
  have e: "f s = f (u\<lparr>screen_x := screen_x s, screen_y := screen_y s, video_mem := video_mem s,
     terminal_list := terminal_list s, io_trace := io_trace s\<rparr>)" for f :: "'a kbd_scheme \<Rightarrow> 'b"
    using assms unfolding only_terminals_def by (rule arg_cong [OF sym])
  show "key_pressed u = key_pressed s" "keymap u = keymap s" "shortcut_received u = shortcut_received s"
    using e [of key_pressed] e [of keymap] e [of shortcut_received] by simp_all
qed

lemma now_shows_kbd:
  assumes "now_shows d t s (u :: 'a kbd_scheme)"
  shows "key_pressed u = key_pressed s" "keymap u = keymap s" "shortcut_received u = shortcut_received s"
  using assms by (auto simp: now_shows_def writes_only_def intro: only_terminals_kbd)

lemma now_shows_ok:
  assumes ok: "kbd_ok s" and d: "d = displaying s" and n: "now_shows d t s (u :: 'a kbd_scheme)" and ed: "editable t"
  shows "kbd_ok u"
proof -
  have l: "length (terminal_list u) = length (terminal_list s)" "\<And>j. j \<noteq> d \<Longrightarrow> term_at j u = term_at j s"
    "screen_ok u" "term_at d u = Some t"
    using n by (auto simp: now_shows_def writes_only_def)
  have s: "terminals_ok s" using ok by (simp add: kbd_ok_def)
  have "terminals_ok u"
  proof (rule terminals_okI)
    show "length (terminal_list u) = 3" "0 \<le> displaying u" "displaying u < 3"
      using s l(1) now_shows_fields(1) [OF n] by (simp_all add: terminals_ok_def displaying_def)
    fix i :: int assume "0 \<le> i" "i < 3"
    then show "\<exists>t. term_at i u = Some t \<and> editable t"
      using terminals_ok_at [OF s] l ed by (cases "i = d") auto
  qed
  then show ?thesis using ok now_shows_fields(4) [OF n] now_shows_kbd [OF n] l(3) by (simp add: kbd_ok_def)
qed

text \<open>Changing the keyboard's flags, the ports or the interrupt flag leaves the rest as it was.\<close>

lemma kbd_ok_flags [simp]:
  "kbd_ok (s\<lparr>key_pressed := p\<rparr>) = kbd_ok s" "kbd_ok (s\<lparr>shortcut_received := n\<rparr>) = kbd_ok s"
  "kbd_ok (s\<lparr>io_trace := tr\<rparr>) = kbd_ok s" "kbd_ok (s\<lparr>eflags := fl\<rparr>) = kbd_ok s"
  "kbd_ok (s\<lparr>cur_ptree := i\<rparr>) = kbd_ok s"
  "term_at d (s\<lparr>key_pressed := p\<rparr>) = term_at d s" "term_at d (s\<lparr>shortcut_received := n\<rparr>) = term_at d s"
  "term_at d (s\<lparr>io_trace := tr\<rparr>) = term_at d s" "term_at d (s\<lparr>eflags := fl\<rparr>) = term_at d s"
  "displaying (s\<lparr>key_pressed := p\<rparr>) = displaying s" "displaying (s\<lparr>shortcut_received := n\<rparr>) = displaying s"
  "displaying (s\<lparr>io_trace := tr\<rparr>) = displaying s" "displaying (s\<lparr>eflags := fl\<rparr>) = displaying s"
  by (simp_all add: kbd_ok_def screen_ok_def named_task_def terminals_ok_def get_cur_task_def term_at_def displaying_def)

lemma send_eoi_kbd:
  "\<exists>tr. send_eoi irq s = s\<lparr>io_trace := tr\<rparr>"
  by (auto simp: send_eoi_def kernel_simps)

section \<open>One interrupt of the keyboard\<close>

lemma switch_result:
  assumes ok: "kbd_ok (s :: 'a kbd_scheme)" and e: "0 \<le> e" "e \<le> 2"
  shows "\<exists>u. set_current_terminal e s = Some u \<and> kbd_ok u \<and> key_pressed u = key_pressed s \<and> displaying u = e"
proof (cases "displaying s = e")
  case True
  then show ?thesis using ok by (simp add: set_current_terminal_def displaying_def)
next
  case False
  let ?d = "displaying s"
  have to: "terminals_ok s" and scr: "screen_ok s" using ok by (simp_all add: kbd_ok_def)
  obtain t t' where t: "term_at ?d s = Some t" "editable t" "term_at e s = Some t'" "editable t'"
    using kbd_okD(2) [OF ok] terminals_ok_at [OF to, of e] e by auto
  have p: "page (video_mem s)" "page (video_buffer t)" "page (video_buffer t')"
    using scr t by (simp_all add: screen_ok_def editable_def)
  obtain u where u: "set_current_terminal e s = Some u" "current_terminal_index u = e" "video_mem u = video_buffer t'"
    "\<forall>j. term_at j u = (if j = ?d then Some (t\<lparr>video_buffer := video_mem s\<rparr>) else term_at j s)"
    "length (terminal_list u) = length (terminal_list s)" "screen_x u = screen_x s" "screen_y u = screen_y s"
    "only_terminals (s\<lparr>current_terminal_index := e\<rparr>) u"
    using set_current_terminal_shows [OF displaying_def [symmetric] False e t(1,3) p] by blast
  have ed: "editable (t\<lparr>video_buffer := video_mem s\<rparr>)" using t(2) p(1) by (simp add: editable_def)
  have "terminals_ok u"
  proof (rule terminals_okI)
    show "length (terminal_list u) = 3" "0 \<le> displaying u" "displaying u < 3"
      using to u(2,5) e by (simp_all add: terminals_ok_def displaying_def)
    fix i :: int assume "0 \<le> i" "i < 3"
    then show "\<exists>t. term_at i u = Some t \<and> editable t" using u(4) ed terminals_ok_at [OF to] by auto
  qed
  moreover have "screen_ok u" using scr u(3,6,7) p(3) by (simp add: screen_ok_def)
  moreover have "get_cur_task u = get_cur_task s" "task_store u = task_store s"
    using only_terminals_fields [OF u(8)] by (simp_all add: get_cur_task_def)
  then have "named_task u" using ok by (simp add: kbd_ok_def named_task_def)
  moreover have "keymap u = keymap s" "key_pressed u = key_pressed s" using only_terminals_kbd [OF u(8)] by simp_all
  ultimately show ?thesis using u(1,2) ok by (simp add: kbd_ok_def displaying_def)
qed

lemma let_go_ok [simp]:
  "kbd_ok (let_go k s) = kbd_ok s" "key_pressed (let_go k s) = (key_pressed s)(k := 0)"
  "term_at d (let_go k s) = term_at d s" "displaying (let_go k s) = displaying s"
  by (simp_all add: let_go_def)

text \<open>The keys the shortcuts mark as released themselves.\<close>

definition same_held :: "(string \<Rightarrow> u8) \<Rightarrow> (string \<Rightarrow> u8) \<Rightarrow> bool" where
  "same_held p q = (\<forall>k. k \<notin> {''backspace'', ''f1'', ''f2'', ''f3''} \<longrightarrow> q k = p k)"

lemma same_held_update [simp]: "same_held p p" "k \<in> {''backspace'', ''f1'', ''f2'', ''f3''} \<Longrightarrow> same_held p (p(k := v))"
  by (auto simp: same_held_def)

lemma backspace_ok:
  assumes "kbd_ok (s :: 'a kbd_scheme)"
  shows "\<exists>u. terminal_backspace s = Some u \<and> kbd_ok u \<and> key_pressed u = key_pressed s"
proof -
  obtain t where t: "term_at (displaying s) s = Some t" using kbd_okD(2) [OF assms] by blast
  obtain u t' where "terminal_backspace s = Some u" "now_shows (displaying s) t' s u" "editable t'"
    using backspace_result [OF kbd_okD(1) [OF assms] refl t] by blast
  then show ?thesis using now_shows_ok [OF assms refl] now_shows_kbd(1) by blast
qed

lemma clear_ok:
  assumes "kbd_ok (s :: 'a kbd_scheme)"
  shows "\<exists>u. terminal_clear s = Some u \<and> kbd_ok (set_cursor_pos 0 0 u) \<and>
    key_pressed (set_cursor_pos 0 0 u) = key_pressed s"
proof -
  obtain t where t: "term_at (displaying s) s = Some t" "editable t" using kbd_okD(2) [OF assms] by blast
  have "screen_ok s" using assms by (simp add: kbd_ok_def)
  then obtain u where u: "terminal_clear s = Some u" "now_shows (displaying s) (t\<lparr>t_screen_x := 0, t_screen_y := 0\<rparr>) s u"
      "screen_x u = 0" "screen_y u = 0"
    using clear_result [OF _ refl t(1)] by blast
  have "set_cursor_pos 0 0 u = u\<lparr>screen_x := 0, screen_y := 0\<rparr>" by (rule set_cursor_inside) (simp add: on_screen_def)
  also have "\<dots> = u\<lparr>screen_x := screen_x u, screen_y := screen_y u\<rparr>" by (simp only: u(3,4))
  also have "\<dots> = u" by simp
  finally have c: "set_cursor_pos 0 0 u = u" .
  have "editable (t\<lparr>t_screen_x := 0, t_screen_y := 0\<rparr>)" using t(2) by (simp add: editable_def)
  then have "kbd_ok u" "key_pressed u = key_pressed s"
    using now_shows_ok [OF assms refl u(2)] now_shows_kbd(1) [OF u(2)] by simp_all
  then show ?thesis using u(1) c by (intro exI [of _ u]) simp
qed

lemma shortcuts_result:
  assumes ok: "kbd_ok (s :: 'a kbd_scheme)"
  shows "\<exists>u. process_shortcuts s = Some u \<and> kbd_ok u \<and> same_held (key_pressed s) (key_pressed u)"
proof -
  obtain tr where tr: "send_eoi 1 (s\<lparr>shortcut_received := 0\<rparr>) = s\<lparr>shortcut_received := 0, io_trace := tr\<rparr>"
    using send_eoi_kbd by blast
  obtain a where a: "terminal_clear s = Some a" "kbd_ok (set_cursor_pos 0 0 a)"
      "key_pressed (set_cursor_pos 0 0 a) = key_pressed s" using clear_ok [OF ok] by blast
  obtain b where b: "terminal_backspace s = Some b" "kbd_ok b" "key_pressed b = key_pressed s"
    using backspace_ok [OF ok] by blast
  obtain c0 c1 c2 where c: "set_current_terminal 0 s = Some c0" "kbd_ok c0" "key_pressed c0 = key_pressed s"
      "set_current_terminal 1 s = Some c1" "kbd_ok c1" "key_pressed c1 = key_pressed s"
      "set_current_terminal 2 s = Some c2" "kbd_ok c2" "key_pressed c2 = key_pressed s"
    using switch_result [OF ok, of 0] switch_result [OF ok, of 1] switch_result [OF ok, of 2] by auto
  show ?thesis
    unfolding process_shortcuts_def using a b c tr ok by (auto split: if_splits)
qed

lemma print_result:
  assumes ok: "kbd_ok (s :: 'a kbd_scheme)" and k: "map_of key_table k = Some key"
  shows "\<exists>r u. print_key (Some k) s = Some (r, u) \<and> kbd_ok u \<and> key_pressed u = key_pressed s"
proof -
  obtain t where t: "term_at (displaying s) s = Some t" using kbd_okD(2) [OF ok] by blast
  have "\<exists>u. terminal_add_to_buffer c s = Some u \<and> kbd_ok u \<and> key_pressed u = key_pressed s" for c
  proof -
    obtain u t' where "terminal_add_to_buffer c s = Some u" "now_shows (displaying s) t' s u" "editable t'"
      using add_to_buffer_result [OF kbd_okD(1) [OF ok] refl t] by blast
    then show ?thesis using now_shows_ok [OF ok refl] now_shows_kbd(1) by blast
  qed
  then obtain f where "terminal_add_to_buffer c s = Some (f c) \<and> kbd_ok (f c) \<and> key_pressed (f c) = key_pressed s" for c
    by metis
  then show ?thesis using ok k by (auto simp: print_key_def)
qed

text \<open>The state in which the shortcuts are looked for: the code is read and its key is marked.\<close>

definition key_event :: "key_orientation \<Rightarrow> io_event list \<Rightarrow> 'a kbd_scheme \<Rightarrow> 'a kbd_scheme" where
  "key_event k tr s = s\<lparr>io_trace := tr, key_pressed := (key_pressed s)(keyboard_key k := orientation k)\<rparr>"

lemma key_event_simps [simp]:
  "kbd_ok (key_event k tr s) = kbd_ok s" "term_at d (key_event k tr s) = term_at d s"
  "displaying (key_event k tr s) = displaying s" "shortcut_received (key_event k tr s) = shortcut_received s"
  "key_pressed (key_event k tr s) = (key_pressed s)(keyboard_key k := orientation k)"
  by (simp_all add: key_event_def)

lemma process_keypress_steps:
  assumes ok: "kbd_ok s" and c: "dev (io_trace s) DATA_PORT = c" "c \<noteq> 0xFF" and k: "k = code_key (unat c)"
    and u: "process_shortcuts (key_event k (In8 DATA_PORT c # io_trace s) s) = Some u" "kbd_ok u"
    and v: "print_key (Some (keyboard_key k)) u = Some (r, v)"
  shows "process_keypress dev s = Some (v\<lparr>shortcut_received := 0\<rparr>)"
proof -
  have "unat c \<noteq> 255" using c(2) by (auto simp: word_unat_eq_iff)
  moreover have "unat c < 2 ^ LENGTH(8)" by (rule unsigned_less)
  ultimately have n: "unat c < 255" by simp
  have km: "keymap w = map (\<lambda>i. Some (code_key i)) [0..<255]" if "kbd_ok (w :: 'a kbd_scheme)" for w
    using that by (simp add: kbd_ok_def)
  have r: "rd (map (\<lambda>i. Some (code_key i)) [0..<255]) (unat c) = Some (Some k)"
    unfolding rd_def using n k by simp
  show ?thesis
    using c(1) r u(1) v km [OF ok] km [OF u(2)] by (simp add: process_keypress_def inb_def key_event_def)
qed

lemma keypress_result:
  assumes ok: "kbd_ok (s :: 'a kbd_scheme)" and c: "dev (io_trace s) DATA_PORT = c" "c \<noteq> 0xFF"
  shows "\<exists>u. process_keypress dev s = Some u \<and> kbd_ok u \<and> shortcut_received u = 0 \<and>
    same_held ((key_pressed s)(keyboard_key (code_key (unat c)) := orientation (code_key (unat c)))) (key_pressed u)"
proof -
  let ?k = "code_key (unat c)" and ?e = "key_event (code_key (unat c)) (In8 DATA_PORT c # io_trace s) s"
  have e: "kbd_ok ?e" using ok by simp
  obtain u where u: "process_shortcuts ?e = Some u" "kbd_ok u" "same_held (key_pressed ?e) (key_pressed u)"
    using shortcuts_result [OF e] by blast
  obtain key where "map_of key_table (keyboard_key ?k) = Some key" using code_key_exists by blast
  then obtain r v where v: "print_key (Some (keyboard_key ?k)) u = Some (r, v)" "kbd_ok v" "key_pressed v = key_pressed u"
    using print_result [OF u(2)] by blast
  show ?thesis
    using process_keypress_steps [where dev = dev, OF ok c refl u(1,2) v(1)] u(3) v(2,3) by simp
qed

lemma keyboard_interrupt:
  assumes "kbd_ok (s :: 'a kbd_scheme)" and "dev (io_trace s) DATA_PORT = c" and "c \<noteq> 0xFF"
  shows "\<exists>u. do_idt_keyboard dev s = Some u \<and> kbd_ok u \<and> shortcut_received u = 0 \<and>
    same_held ((key_pressed s)(keyboard_key (code_key (unat c)) := orientation (code_key (unat c)))) (key_pressed u)"
proof -
  obtain u where u: "process_keypress dev s = Some u" "kbd_ok u" "shortcut_received u = 0"
    "same_held ((key_pressed s)(keyboard_key (code_key (unat c)) := orientation (code_key (unat c)))) (key_pressed u)"
    using keypress_result [where dev = dev, OF assms] by blast
  obtain tr where "send_eoi 1 u = u\<lparr>io_trace := tr\<rparr>" using send_eoi_kbd by blast
  then show ?thesis using u by (simp add: do_idt_keyboard_def)
qed

lemma code_FF_faults:
  assumes "kbd_ok s" and "dev (io_trace s) DATA_PORT = 0xFF"
  shows "process_keypress dev s = None"
proof -
  have "length (keymap s) = 255" using assms(1) by (simp add: kbd_ok_def)
  then show ?thesis using assms(2) by (simp add: process_keypress_def inb_def rd_def)
qed

text \<open>A keyboard that delivers the codes one after the other, one interrupt each.\<close>

definition keyboard_codes :: "u8 list \<Rightarrow> 'a kbd_scheme \<Rightarrow> 'a kbd_scheme option" where
  "keyboard_codes codes s = fold_opt (\<lambda>c. do_idt_keyboard (\<lambda>_ _. c)) codes s"

lemma keyboard_codes_ok:
  assumes "kbd_ok s" and "0xFF \<notin> set codes"
  shows "\<exists>u. keyboard_codes codes s = Some u \<and> kbd_ok u \<and>
    (key_pressed s ''caps_lock'' = 1 \<longrightarrow> key_pressed u ''caps_lock'' = 1)"
  using assms
proof (induction codes arbitrary: s)
  case Nil
  then show ?case by (simp add: keyboard_codes_def)
next
  case (Cons c codes)
  have caps: "keyboard_key (code_key n) = ''caps_lock'' \<Longrightarrow> orientation (code_key n) = 1" for n
    using caps_lock_codes [of n] by blast
  obtain v where v: "do_idt_keyboard (\<lambda>_ _. c) s = Some v" "kbd_ok v"
    "same_held ((key_pressed s)(keyboard_key (code_key (unat c)) := orientation (code_key (unat c)))) (key_pressed v)"
    using keyboard_interrupt [OF Cons.prems(1), of "\<lambda>_ _. c" c] Cons.prems(2) by auto
  have "key_pressed v ''caps_lock'' = 1" if "key_pressed s ''caps_lock'' = 1"
    using v(3) that caps [of "unat c"] by (auto simp: same_held_def)
  with Cons.IH [OF v(2)] v(1) Cons.prems(2) show ?case by (auto simp: keyboard_codes_def)
qed

section \<open>The abstract typist\<close>

text \<open>Which keys are held, and the editor of the displayed terminal.\<close>

type_synonym typist = "(string \<Rightarrow> u8) \<times> editor"

definition key_char :: "(string \<Rightarrow> u8) \<Rightarrow> key \<Rightarrow> u8" where
  "key_char held key =
     (if held ''right_shift'' \<noteq> 0 \<or> held ''left_shift'' \<noteq> 0 then shift_char key
      else if held ''caps_lock'' \<noteq> 0 then uppercase_char key
      else lowercase_char key)"

definition displayable :: "string \<Rightarrow> bool" where
  "displayable k = (case map_of key_table k of None \<Rightarrow> False | Some key \<Rightarrow> to_display key \<noteq> 0)"

definition typist_step :: "u8 \<Rightarrow> typist \<Rightarrow> typist" where
  "typist_step c v = (
     let k = code_key (unat c);
         held = (fst v)(keyboard_key k := orientation k)
     in if held ''backspace'' \<noteq> 0 then (held(''backspace'' := 0), edit_step Rubout (snd v))
        else if held (keyboard_key k) \<noteq> 0 \<and> displayable (keyboard_key k)
        then (held, edit_step (Key (key_char held (the (map_of key_table (keyboard_key k))))) (snd v))
        else (held, snd v))"

definition no_modifier :: "(string \<Rightarrow> u8) \<Rightarrow> bool" where
  "no_modifier held = list_all (\<lambda>k. held k = 0) [''left_control'', ''right_control'', ''left_alt'', ''right_alt'']"

definition typing_code :: "u8 \<Rightarrow> bool" where
  "typing_code c = (c \<noteq> 0x1D \<and> c \<noteq> 0x38 \<and> c \<noteq> 0xFF)"

lemma no_modifier_key:
  assumes "no_modifier held" and "typing_code c"
  shows "no_modifier (held(keyboard_key (code_key (unat c)) := orientation (code_key (unat c))))"
proof -
  have "unat c \<noteq> 0x1D" "unat c \<noteq> 0x38" using assms(2) by (auto simp: typing_code_def word_unat_eq_iff)
  then show ?thesis using modifier_codes [of "unat c"] assms(1)
    by (cases "orientation (code_key (unat c)) = 0") (auto simp: no_modifier_def)
qed

lemma typist_step_modifier:
  assumes "no_modifier (fst v)" and "typing_code c"
  shows "no_modifier (fst (typist_step c v))"
  using no_modifier_key [OF assms] by (auto simp: typist_step_def Let_def no_modifier_def)

lemma no_shortcut:
  assumes "no_modifier (key_pressed s)"
  shows "process_shortcuts s = (if key_pressed s ''backspace'' \<noteq> 0 then do {
      s \<leftarrow> terminal_backspace s;
      Some ((let_go ''backspace'' s)\<lparr>shortcut_received := 1\<rparr>) } else Some s)"
  using assms by (simp add: process_shortcuts_def is_control_pressed_def is_alt_pressed_def is_pressed_def no_modifier_def)

text \<open>What an interrupt does to the displayed terminal, as the typist sees it.\<close>

definition typed_view :: "'a kbd_scheme \<Rightarrow> typist option" where
  "typed_view s = do { t \<leftarrow> term_at (displaying s) s; Some (key_pressed s, edit_view t) }"

text \<open>Only the displayed terminal may have changed.\<close>

definition same_places :: "'a kernel_scheme \<Rightarrow> 'a kernel_scheme \<Rightarrow> bool" where
  "same_places s u = (displaying u = displaying s \<and> cur_ptree u = cur_ptree s \<and>
     (\<forall>j. j \<noteq> displaying s \<longrightarrow> term_at j u = term_at j s))"

lemma same_places_refl [simp]: "same_places s s"
  by (simp add: same_places_def)

lemma same_places_trans: "same_places s t \<Longrightarrow> same_places t u \<Longrightarrow> same_places s u"
  by (auto simp: same_places_def)

lemma now_shows_places:
  assumes "now_shows (displaying s) t s u"
  shows "same_places s u"
  using now_shows_fields(1) [OF assms] only_terminals_fields(2) [of s u] assms
  by (auto simp: same_places_def now_shows_def writes_only_def)

lemma same_places_flags [simp]:
  "same_places s (u\<lparr>key_pressed := p\<rparr>) = same_places s u" "same_places s (u\<lparr>shortcut_received := n\<rparr>) = same_places s u"
  "same_places s (u\<lparr>io_trace := tr\<rparr>) = same_places s u" "same_places s (let_go k u) = same_places s u"
  "same_places (key_event ko tr s) u = same_places s u"
  by (simp_all add: same_places_def let_go_def key_event_def)

lemma typed_view_flags [simp]:
  "typed_view (s\<lparr>shortcut_received := n\<rparr>) = typed_view s" "typed_view (s\<lparr>io_trace := tr\<rparr>) = typed_view s"
  by (simp_all add: typed_view_def)

lemma print_key_view:
  assumes ok: "kbd_ok (s :: 'a kbd_scheme)" and sc: "shortcut_received s = 0" and v: "typed_view s = Some (held, ed)"
    and k: "map_of key_table k = Some key"
  shows "\<exists>r u. print_key (Some k) s = Some (r, u) \<and> kbd_ok u \<and> same_places s u \<and>
    typed_view u = Some (if held k \<noteq> 0 \<and> displayable k then (held, edit_step (Key (key_char held key)) ed) else (held, ed))"
proof -
  obtain t where t: "term_at (displaying s) s = Some t" "held = key_pressed s" "ed = edit_view t"
    using v by (auto simp: typed_view_def bind_eq_Some_conv)
  let ?c = "key_char held key"
  obtain u t' where u: "terminal_add_to_buffer ?c s = Some u" "now_shows (displaying s) t' s u" "editable t'"
      "edit_view t' = edit_step (Key ?c) (edit_view t)"
    using add_to_buffer_result [OF kbd_okD(1) [OF ok] refl t(1)] by blast
  have o: "kbd_ok u" "key_pressed u = key_pressed s" "displaying u = displaying s"
    using now_shows_ok [OF ok refl u(2,3)] now_shows_kbd(1) [OF u(2)] now_shows_fields(1) [OF u(2)] by simp_all
  have at: "term_at (displaying s) u = Some t'" "same_places s u"
    using u(2) now_shows_places by (auto simp: now_shows_def)
  have "typed_view u = Some (held, edit_step (Key ?c) ed)" using o at t u(4) by (simp add: typed_view_def)
  then show ?thesis using ok sc v k u(1) o at t
    by (auto simp: print_key_def displayable_def is_shift_pressed_def is_caps_lock_pressed_def is_pressed_def key_char_def)
qed

lemma backspace_view:
  assumes ok: "kbd_ok (s :: 'a kbd_scheme)" and v: "typed_view s = Some (held, ed)"
  shows "\<exists>u. terminal_backspace s = Some u \<and> kbd_ok u \<and> same_places s u \<and>
    typed_view u = Some (held, edit_step Rubout ed)"
proof -
  obtain t where t: "term_at (displaying s) s = Some t" "held = key_pressed s" "ed = edit_view t"
    using v by (auto simp: typed_view_def bind_eq_Some_conv)
  obtain u t' where u: "terminal_backspace s = Some u" "now_shows (displaying s) t' s u" "editable t'"
      "edit_view t' = edit_step Rubout (edit_view t)"
    using backspace_result [OF kbd_okD(1) [OF ok] refl t(1)] by blast
  have o: "kbd_ok u" "key_pressed u = key_pressed s" "displaying u = displaying s"
    using now_shows_ok [OF ok refl u(2,3)] now_shows_kbd(1) [OF u(2)] now_shows_fields(1) [OF u(2)] by simp_all
  have at: "term_at (displaying s) u = Some t'" "same_places s u"
    using u(2) now_shows_places by (auto simp: now_shows_def)
  then show ?thesis using u o t by (auto simp: typed_view_def)
qed

lemma interrupt_view:
  assumes ok: "kbd_ok (s :: 'a kbd_scheme)" and sc: "shortcut_received s = 0" and nm: "no_modifier (key_pressed s)"
    and c: "typing_code c" and v: "typed_view s = Some v"
  shows "\<exists>u. do_idt_keyboard (\<lambda>_ _. c) s = Some u \<and> kbd_ok u \<and> shortcut_received u = 0 \<and>
    same_places s u \<and> typed_view u = Some (typist_step c v)"
proof -
  let ?k = "code_key (unat c)" let ?e = "key_event ?k (In8 DATA_PORT c # io_trace s) s"
  define ed where "ed = snd v"
  have vv: "v = (key_pressed s, ed)" using v by (auto simp: typed_view_def bind_eq_Some_conv ed_def)
  let ?held = "(key_pressed s)(keyboard_key ?k := orientation ?k)"
  have e: "kbd_ok ?e" "typed_view ?e = Some (?held, ed)" "displaying ?e = displaying s" "shortcut_received ?e = 0"
    using ok v vv sc by (auto simp: typed_view_def bind_eq_Some_conv)
  have nm': "no_modifier (key_pressed ?e)" using no_modifier_key [OF nm c] by simp
  obtain key where key: "map_of key_table (keyboard_key ?k) = Some key" using code_key_exists by blast
  have cF: "c \<noteq> 0xFF" using c by (simp add: typing_code_def)
  have "\<exists>u r w. process_shortcuts ?e = Some u \<and> kbd_ok u \<and> print_key (Some (keyboard_key ?k)) u = Some (r, w) \<and>
      kbd_ok w \<and> same_places s w \<and> typed_view w = Some (typist_step c v)"
  proof (cases "?held ''backspace'' = 0")
    case True
    then have "process_shortcuts ?e = Some ?e" using no_shortcut [OF nm'] by simp
    moreover obtain r w where w: "print_key (Some (keyboard_key ?k)) ?e = Some (r, w)" "kbd_ok w"
      "same_places s w"
      "typed_view w = Some (if ?held (keyboard_key ?k) \<noteq> 0 \<and> displayable (keyboard_key ?k)
         then (?held, edit_step (Key (key_char ?held key)) ed) else (?held, ed))"
      using print_key_view [OF e(1,4,2) key] by auto
    moreover have "typed_view w = Some (typist_step c v)" using w(4) True key vv by (simp add: typist_step_def Let_def)
    ultimately show ?thesis using e(1) by blast
  next
    case False
    obtain b where b: "terminal_backspace ?e = Some b" "kbd_ok b" "same_places s b"
      "typed_view b = Some (?held, edit_step Rubout ed)"
      using backspace_view [OF e(1,2)] by auto
    let ?u = "(let_go ''backspace'' b)\<lparr>shortcut_received := 1\<rparr>"
    have "process_shortcuts ?e = Some ?u" using no_shortcut [OF nm'] False b(1) by simp
    moreover have "print_key (Some (keyboard_key ?k)) ?u = Some (- 1, ?u)" using key by (simp add: print_key_def)
    moreover have "typed_view ?u = Some (typist_step c v)"
      using b(4) False vv by (auto simp: typed_view_def typist_step_def Let_def bind_eq_Some_conv)
    ultimately show ?thesis using b by auto
  qed
  then obtain u r w where w: "process_shortcuts ?e = Some u" "kbd_ok u" "print_key (Some (keyboard_key ?k)) u = Some (r, w)"
      "kbd_ok w" "same_places s w"
      "typed_view w = Some (typist_step c v)" by blast
  obtain tr where tr: "send_eoi 1 (w\<lparr>shortcut_received := 0\<rparr>) = w\<lparr>shortcut_received := 0, io_trace := tr\<rparr>"
    using send_eoi_kbd by blast
  have "process_keypress (\<lambda>_ _. c) s = Some (w\<lparr>shortcut_received := 0\<rparr>)"
    by (rule process_keypress_steps [where k = ?k and u = u and r = r]) (use ok cF w in simp_all)
  then show ?thesis using tr w by (simp add: do_idt_keyboard_def)
qed

lemma codes_view:
  assumes "kbd_ok (s :: 'a kbd_scheme)" and "shortcut_received s = 0" and "typed_view s = Some v"
    and "no_modifier (fst v)" and "list_all typing_code codes"
  shows "\<exists>u. keyboard_codes codes s = Some u \<and> kbd_ok u \<and> shortcut_received u = 0 \<and> same_places s u \<and> typed_view u = Some (fold typist_step codes v)"
  using assms
proof (induction codes arbitrary: s v)
  case Nil
  then show ?case by (simp add: keyboard_codes_def)
next
  case (Cons c codes)
  have h: "fst v = key_pressed s" using Cons.prems(3) by (auto simp: typed_view_def bind_eq_Some_conv)
  have c: "no_modifier (key_pressed s)" "typing_code c" "list_all typing_code codes" using Cons.prems(4,5) h by simp_all
  obtain w where w: "do_idt_keyboard (\<lambda>_ _. c) s = Some w" "kbd_ok w" "shortcut_received w = 0"
    "same_places s w" "typed_view w = Some (typist_step c v)"
    using interrupt_view [OF Cons.prems(1,2) c(1,2) Cons.prems(3)] by blast
  from Cons.IH [OF w(2,3,5) typist_step_modifier [OF Cons.prems(4) c(2)] c(3)] w same_places_trans [OF w(4)] show ?case
    by (auto simp: keyboard_codes_def)
qed

section \<open>Properties of the driver\<close>

definition kbd_demo :: kbd where
  "kbd_demo = kernel.extend typing_demo (kbd.fields (\<lambda>_. 0) (map (\<lambda>i. Some (code_key i)) [0..<255]) 0)"

lemma kbd_demo_sel:
  "terminal_list kbd_demo = terminal_list typing_demo" "current_terminal_index kbd_demo = 0" "cur_ptree kbd_demo = 1"
  "key_pressed kbd_demo = (\<lambda>_. 0)" "shortcut_received kbd_demo = 0" "io_trace kbd_demo = io_trace typing_demo"
  "term_at i kbd_demo = term_at i typing_demo"
  by (simp_all add: kbd_demo_def kernel.defs kbd.defs typing_demo_def terminals_demo_def term_at_def)

lemma kbd_demo_ok: "kbd_ok kbd_demo"
proof -
  have e: "get_cur_task kbd_demo = get_cur_task typing_demo" "task_store kbd_demo = task_store typing_demo"
    "screen_x kbd_demo = screen_x typing_demo" "screen_y kbd_demo = screen_y typing_demo" "video_mem kbd_demo = video_mem typing_demo"
    by (simp_all add: get_cur_task_def kbd_demo_def kernel.defs kbd.defs)
  have "screen_ok kbd_demo" "named_task kbd_demo"
    using typing_demo_ok(1) unfolding edit_ok_def screen_ok_def named_task_def e by blast+
  moreover have "terminals_ok kbd_demo"
    by (simp add: terminals_ok_def kbd_demo_sel typing_demo_def terminals_demo_def terminal_demo_def editable_def page_def)
  ultimately show ?thesis by (simp add: kbd_ok_def kbd_demo_def kernel.defs kbd.defs)
qed

lemma kbd_demo_view: "typed_view kbd_demo = Some (\<lambda>_. 0, ([], [], False))"
  using typing_demo_ok(3)
  by (simp add: typed_view_def displaying_def kbd_demo_sel edit_view_def line_text_def terminal_demo_def)

text \<open>C13. While no control or alt key is held, the keyboard is the abstract typist: for every sequence of
  scan codes other than those that press control or alt, and 0xFF, the interrupts leave the displayed
  terminal with the line, the last line entered and the keys held that the typist computes, which
  chooses each character by shift and caps lock and takes one back for the backspace key. The other
  terminals are as before.\<close>

theorem keyboard_refines_typist:
  assumes "kbd_ok (s :: 'a kbd_scheme)" and "shortcut_received s = 0" and "typed_view s = Some v"
    and "no_modifier (fst v)" and "list_all typing_code codes"
  shows "\<exists>u. keyboard_codes codes s = Some u \<and> kbd_ok u \<and> shortcut_received u = 0 \<and> displaying u = displaying s \<and>
    (\<forall>j. j \<noteq> displaying s \<longrightarrow> term_at j u = term_at j s) \<and> typed_view u = Some (fold typist_step codes v)"
  using codes_view [OF assms] by (auto simp: same_places_def)


lemma demo_codes:
  "snd (fold typist_step [0x2A, 0x26, 0xAA, 0x1F, 0x0E, 0x1C] (\<lambda>_. 0, ([], [], False))) = ([], [76, 10], True)"
  by code_simp

theorem keyboard_refines_typist_witness:
  "\<exists>u held. keyboard_codes [0x2A, 0x26, 0xAA, 0x1F, 0x0E, 0x1C] kbd_demo = Some u \<and>
     typed_view u = Some (held, ([], [76, 10], True))"
proof -
  have "no_modifier (fst (\<lambda>_. 0, ([], [], False)))" "list_all typing_code [0x2A, 0x26, 0xAA, 0x1F, 0x0E, 0x1C]"
    by (simp_all add: no_modifier_def typing_code_def)
  from keyboard_refines_typist [OF kbd_demo_ok kbd_demo_sel(5) kbd_demo_view this] demo_codes
  show ?thesis by (metis prod.collapse)
qed

text \<open>C31. In a state where the map of codes is set up, every scan code but 0xFF is handled, whatever keys
  are held and whichever shortcut is taken, and leaves such a state; 0xFF is past the end of the
  map, which has only 255 entries.\<close>

theorem keypress_faults_iff:
  assumes "kbd_ok s"
  shows "(process_keypress dev s = None) = (dev (io_trace s) DATA_PORT = 0xFF) \<and>
    (\<forall>u. process_keypress dev s = Some u \<longrightarrow> kbd_ok u)"
proof (cases "dev (io_trace s) DATA_PORT = 0xFF")
  case True
  then show ?thesis using code_FF_faults [where dev = dev, OF assms True] by simp
next
  case False
  then show ?thesis using keypress_result [where dev = dev, OF assms refl False] by auto
qed

theorem keypress_faults_iff_witness:
  "process_keypress (\<lambda>_ _. 0xFF) kbd_demo = None \<and> process_keypress (\<lambda>_ _. 0x38) kbd_demo \<noteq> None"
  using keypress_faults_iff [OF kbd_demo_ok, of "\<lambda>_ _. 0xFF"] keypress_faults_iff [OF kbd_demo_ok, of "\<lambda>_ _. 0x38"]
  by simp

text \<open>Caps lock cannot be switched off: once its key has gone down it counts as held after every
  further sequence of scan codes, the key's own release included.\<close>

theorem caps_lock_never_released:
  assumes "kbd_ok s" and "0xFF \<notin> set codes" and "key_pressed s ''caps_lock'' = 1"
  shows "\<exists>u. keyboard_codes codes s = Some u \<and> is_caps_lock_pressed u = 1"
  using keyboard_codes_ok [OF assms(1,2)] assms(3) by (auto simp: is_caps_lock_pressed_def is_pressed_def)

theorem caps_lock_never_released_witness:
  "\<exists>u. keyboard_codes [0xBA, 0x3A, 0xBA] (kbd_demo\<lparr>key_pressed := (\<lambda>_. 1)\<rparr>) = Some u \<and> is_caps_lock_pressed u = 1"
  by (rule caps_lock_never_released) (use kbd_demo_ok in simp_all)

lemma make_code_entry:
  assumes "n < 128" and "code_key n = pressed_key k" and "k \<noteq> ''dummy''"
  shows "(n, pressed_key k) \<in> set make_codes"
proof -
  have "list_all (\<lambda>(i, k). 128 \<le> i) break_codes" by (simp add: break_codes_def)
  then have "map_of break_codes n = None"
    using assms(1) by (cases "map_of break_codes n") (auto simp: list_all_iff dest!: map_of_SomeD)
  then show ?thesis using assms(2,3)
    by (auto simp: code_key_def pressed_key_def split: option.splits dest: map_of_SomeD)
qed

definition unmatched :: "nat list" where "unmatched = [0x17, 0x3A, 0x47, 0x53]"

lemma matched_codes:
  "map (\<lambda>(i, k). (i + 128, released_key (keyboard_key k))) (filter (\<lambda>(i, k). \<not> List.member unmatched i) make_codes) =
   filter (\<lambda>(i, k). \<not> List.member (map ((+) 128) unmatched) i) break_codes"
  by (simp add: make_codes_def break_codes_def pressed_key_def released_key_def unmatched_def)

lemma unmatched_codes:
  "filter (\<lambda>(i, k). List.member unmatched i) make_codes =
     [(0x17, pressed_key ''i''), (0x3A, pressed_key ''caps_lock''), (0x47, pressed_key ''home''), (0x53, pressed_key ''delete'')]"
  by (simp add: make_codes_def unmatched_def)

lemma unmatched_breaks:
  "map_of break_codes 151 = Some (released_key ''home'')" "map_of break_codes 186 = Some (pressed_key ''caps_lock'')"
  "map_of break_codes 199 = Some (released_key ''keypad_7'')" "map_of break_codes 211 = Some (released_key ''page_down'')"
  by (simp_all add: break_codes_def)

lemma make_codes_released:
  assumes "(n, pressed_key k) \<in> set make_codes"
  shows "(map_of break_codes (n + 128) = Some (released_key k)) = (n \<notin> {0x17, 0x3A, 0x47, 0x53})"
proof (cases "List.member unmatched n")
  case True
  then have "(n, pressed_key k) \<in> set (filter (\<lambda>(i, k). List.member unmatched i) make_codes)" using assms by simp
  then consider "n = 0x17" "k = ''i''" | "n = 0x3A" "k = ''caps_lock''" | "n = 0x47" "k = ''home''" | "n = 0x53" "k = ''delete''"
    unfolding unmatched_codes by (auto simp: pressed_key_def)
  then show ?thesis
    by cases (simp_all add: unmatched_breaks pressed_key_def released_key_def)
next
  case False
  then have "(n, pressed_key k) \<in> set (filter (\<lambda>(i, k). \<not> List.member unmatched i) make_codes)" using assms by simp
  then have "(n + 128, released_key (keyboard_key (pressed_key k))) \<in>
      set (map (\<lambda>(i, k). (i + 128, released_key (keyboard_key k))) (filter (\<lambda>(i, k). \<not> List.member unmatched i) make_codes))"
    by force
  then have "(n + 128, released_key k) \<in> set break_codes" unfolding matched_codes by (simp add: pressed_key_def)
  then show ?thesis using False codes_distinct(2) by (auto simp: unmatched_def)
qed

lemma high_codes_only_break: "128 \<le> n \<Longrightarrow> map_of make_codes n = None"
proof -
  assume n: "128 \<le> n"
  have "list_all (\<lambda>(i, k). i < 128) make_codes" by (simp add: make_codes_def)
  then show ?thesis using n by (cases "map_of make_codes n") (auto simp: list_all_iff dest!: map_of_SomeD)
qed

text \<open>After \<^verbatim>\<open>init_keys\<close> the code of a key going up, 128 more than the code of it going down,
  releases the same key, for every key but four: i, caps lock, home and delete, whose release codes
  are given to other keys or presses.\<close>

theorem release_codes_match:
  assumes "length (keymap s) = 255" and "init_keys s = Some u" and "n < 127"
    and "keymap u ! n = Some (pressed_key k)" and "k \<noteq> ''dummy''"
  shows "(keymap u ! (n + 128) = Some (released_key k)) = (n \<notin> {0x17, 0x3A, 0x47, 0x53})"
proof -
  have km: "keymap u = map (\<lambda>i. Some (code_key i)) [0..<255]" using init_keys_map [OF assms(1)] assms(2) by auto
  then have "code_key n = pressed_key k" using assms(3,4) by simp
  then have "(n, pressed_key k) \<in> set make_codes" using make_code_entry assms(3,5) by simp
  then have m: "(map_of break_codes (n + 128) = Some (released_key k)) = (n \<notin> {0x17, 0x3A, 0x47, 0x53})"
    by (rule make_codes_released)
  have "(code_key (n + 128) = released_key k) = (map_of break_codes (n + 128) = Some (released_key k))"
    using codes_distinct(3) high_codes_only_break [of "n + 128"]
    by (auto simp: code_key_def released_key_def pressed_key_def split: option.splits)
  then show ?thesis using m km assms(3) by simp
qed

theorem release_codes_match_witness:
  "\<exists>u. init_keys kbd_demo = Some u \<and> keymap u ! 0x9E = Some (released_key ''a'') \<and>
     keymap u ! 0x97 \<noteq> Some (released_key ''i'')"
proof -
  have l: "length (keymap kbd_demo) = 255" using kbd_demo_ok by (simp add: kbd_ok_def)
  let ?u = "kbd_demo\<lparr>keymap := map (\<lambda>i. Some (code_key i)) [0..<255]\<rparr>"
  have u: "init_keys kbd_demo = Some ?u" by (rule init_keys_map [OF l])
  have "code_key 0x1E = pressed_key ''a''" "code_key 0x17 = pressed_key ''i''"
    by (simp_all add: code_key_def break_codes_def make_codes_def)
  then have k: "keymap ?u ! 0x1E = Some (pressed_key ''a'')" "keymap ?u ! 0x17 = Some (pressed_key ''i'')" by simp_all
  show ?thesis
    using release_codes_match [OF l u _ k(1)] release_codes_match [OF l u _ k(2)] u by simp
qed

section \<open>Reading a line\<close>

text \<open>The codes finish a line with the last of them, and before it fewer than \<^term>\<open>n\<close> bytes are
  on the line.\<close>

fun line_until :: "nat \<Rightarrow> u8 list \<Rightarrow> typist \<Rightarrow> bool" where
  "line_until n [] v = False"
| "line_until n (c # cs) v = (
     let w = typist_step c v
     in if snd (snd (snd w)) then cs = [] else length (fst (snd w)) < n \<and> line_until n cs w)"

lemma step_completes:
  assumes "\<not> snd (snd (snd v))" and "snd (snd (snd (typist_step c v)))"
  shows "fst (snd (typist_step c v)) = []"
  using assms by (cases v; cases "snd v") (auto simp: typist_step_def Let_def split: if_splits)

lemma typed_view_at:
  assumes "typed_view s = Some v"
  shows "\<exists>t. term_at (displaying s) s = Some t \<and> fst v = key_pressed s \<and> snd v = edit_view t"
  using assms by (auto simp: typed_view_def bind_eq_Some_conv)

lemma typed_length:
  assumes "editable t"
  shows "input_pointer (input t) = int (length (line_text (input t)))"
    "input_pointer (previous_input t) = int (length (line_text (previous_input t)))"
  using assms by (auto simp: editable_def line_text_def min_def)

declare wait_loop.simps [simp del]

lemma wait_done:
  assumes ok: "kbd_ok (s :: 'a kbd_scheme)" and v: "typed_view s = Some v" and d: "cur = displaying s"
    and c: "snd (snd (snd v))" "fst (snd v) = []" and n: "0 < n"
  shows "\<exists>u t. wait_loop 0 (int n) intrs cur s = Some (word_of_int (int (length (fst (snd (snd v))))), u) \<and>
    kbd_ok u \<and> same_places s u \<and> term_at cur u = Some t \<and> line_text (previous_input t) = fst (snd (snd v))"
proof -
  obtain t where t: "term_at cur s = Some t" "snd v = edit_view t" using typed_view_at [OF v] d by blast
  have e: "editable t" using kbd_okD(2) [OF ok] t(1) d by simp
  have f: "line_text (input t) = []" "t_state t = TERMINAL_DONE_READ" "fst (snd (snd v)) = line_text (previous_input t)"
    using c t(2) by (simp_all add: edit_view_def)
  have ip: "input_pointer (input t) = 0" "input_pointer (previous_input t) = int (length (line_text (previous_input t)))"
    using typed_length [OF e] f(1) by simp_all
  let ?u = "let_go ''keypad_enter'' (let_go ''enter'' s)"
  have "wait_loop 0 (int n) intrs cur s = Some (word_of_int (int (length (fst (snd (snd v))))), ?u)"
    by (subst wait_loop.simps) (use t(1) f ip n d in \<open>simp add: get_last_terminal_line_def BUFFER_SIZE_def\<close>)
  then show ?thesis using ok t(1) f(3) by (intro exI [of _ ?u] exI [of _ t]) simp
qed

lemma wait_line:
  assumes "kbd_ok (s :: 'a kbd_scheme)" and "shortcut_received s = 0" and "typed_view s = Some v" and "no_modifier (fst v)"
    and "list_all typing_code codes" and "line_until n codes v" and "\<not> snd (snd (snd v))" and "length (fst (snd v)) < n"
    and "cur = displaying s" and "cur_ptree s = cur"
  shows "\<exists>u t. wait_loop 0 (int n) (map (\<lambda>c. do_idt_keyboard (\<lambda>_ _. c)) codes) cur s =
      Some (word_of_int (int (length (fst (snd (snd (fold typist_step codes v)))))), u) \<and>
    kbd_ok u \<and> same_places s u \<and> term_at cur u = Some t \<and>
    line_text (previous_input t) = fst (snd (snd (fold typist_step codes v)))"
  using assms
proof (induction codes arbitrary: s v)
  case Nil
  then show ?case by simp
next
  case (Cons c cs)
  note ok = Cons.prems(1) and v = Cons.prems(3)
  obtain t where t: "term_at cur s = Some t" "fst v = key_pressed s" "snd v = edit_view t"
    using typed_view_at [OF v] Cons.prems(9) by blast
  have e: "editable t" using kbd_okD(2) [OF ok] t(1) Cons.prems(9) by simp
  have nd: "t_state t \<noteq> TERMINAL_DONE_READ" "input_pointer (input t) < int n"
    using Cons.prems(7,8) t(3) typed_length(1) [OF e] by (simp_all add: edit_view_def)
  have c: "no_modifier (key_pressed s)" "typing_code c" "list_all typing_code cs" using Cons.prems(4,5) t(2) by simp_all
  obtain w where w: "do_idt_keyboard (\<lambda>_ _. c) s = Some w" "kbd_ok w" "shortcut_received w = 0" "same_places s w"
    "typed_view w = Some (typist_step c v)"
    using interrupt_view [OF ok Cons.prems(2) c(1,2) v] by blast
  have cur: "cur = displaying w" "cur_ptree w = cur" using w(4) Cons.prems(9,10) by (simp_all add: same_places_def)
  have step: "wait_loop 0 (int n) (map (\<lambda>c. do_idt_keyboard (\<lambda>_ _. c)) (c # cs)) cur s =
      wait_loop 0 (int n) (map (\<lambda>c. do_idt_keyboard (\<lambda>_ _. c)) cs) cur w"
    by (subst wait_loop.simps) (use t(1) nd w(1) cur(2) in \<open>simp add: get_executing_terminal_def\<close>)
  show ?case
  proof (cases "snd (snd (snd (typist_step c v)))")
    case True
    then have "cs = []" using Cons.prems(6) by (simp add: Let_def)
    moreover have emp: "fst (snd (typist_step c v)) = []" by (rule step_completes [OF Cons.prems(7) True])
    have n: "0 < n" using Cons.prems(8) by simp
    obtain u t' where u: "wait_loop 0 (int n) (map (\<lambda>c. do_idt_keyboard (\<lambda>_ _. c)) cs) cur w =
          Some (word_of_int (int (length (fst (snd (snd (typist_step c v)))))), u)"
        "kbd_ok u" "same_places w u" "term_at cur u = Some t'"
        "line_text (previous_input t') = fst (snd (snd (typist_step c v)))"
      using wait_done [OF w(2,5) cur(1) True emp n] by blast
    ultimately show ?thesis
      using step same_places_trans [OF w(4) u(3)] by (intro exI [of _ u] exI [of _ t']) simp
  next
    case False
    then have n: "length (fst (snd (typist_step c v))) < n" "line_until n cs (typist_step c v)"
      using Cons.prems(6) by (simp_all add: Let_def)
    obtain u t' where u: "wait_loop 0 (int n) (map (\<lambda>c. do_idt_keyboard (\<lambda>_ _. c)) cs) cur w =
          Some (word_of_int (int (length (fst (snd (snd (fold typist_step cs (typist_step c v))))))), u)"
        "kbd_ok u" "same_places w u" "term_at cur u = Some t'"
        "line_text (previous_input t') = fst (snd (snd (fold typist_step cs (typist_step c v))))"
      using Cons.IH [OF w(2,3,5) typist_step_modifier [OF Cons.prems(4) c(2)] c(3) n(2) False n(1) cur] by blast
    show ?thesis
      using step same_places_trans [OF w(4) u(3)] u by (intro exI [of _ u] exI [of _ t']) simp
  qed
qed

lemma now_shows_self: "kbd_ok s \<Longrightarrow> term_at d s = Some t \<Longrightarrow> now_shows d t s s"
  by (simp add: now_shows_def kbd_ok_def)

lemma read_loop:
  assumes "term_at (displaying s) s = Some t" and "n \<le> length (line (previous_input t))" and "n \<le> length buf"
  shows "for_range 0 n (\<lambda>j output. do {
      l \<leftarrow> get_last_terminal_line s;
      c \<leftarrow> rd (line l) j;
      wr output j c }) buf = Some (take n (line (previous_input t)) @ drop n buf)"
  using copy_loop [OF assms(2,3)] assms(1) by (simp add: get_last_terminal_line_def)

text \<open>C7. Reading from the terminal waits for the keyboard and returns the line: when the codes that
  come type a line and enter it before the buffer's size is reached, and the task that reads is
  the one displayed, with nothing typed yet, then \<^verbatim>\<open>terminal_read\<close> returns the number of bytes of
  the line without its newline, and they are at the start of the buffer, the rest of which is as it
  was. No other terminal changes. The description of the call in the handout (\<^verbatim>\<open>docs/mp3.pdf\<close>, Appendix B) has the line feed in the
  line that is returned; the code leaves it out.\<close>

theorem terminal_read_returns_line:
  assumes ok: "kbd_ok (s :: 'a kbd_scheme)" "shortcut_received s = 0" and d: "d = displaying s" "cur_ptree s = d"
    and t: "term_at d s = Some t" "input_pointer (input t) = 0" and nm: "no_modifier (key_pressed s)"
    and codes: "list_all typing_code codes" and nbytes: "0 < nbytes"
    and typed: "line_until (nat (min nbytes 128)) codes (key_pressed s, ([], line_text (previous_input t), False))"
    and entered: "entered = fst (snd (snd (fold typist_step codes (key_pressed s, ([], line_text (previous_input t), False)))))"
    and room: "length entered \<le> Suc (length buf)"
  shows "\<exists>u. terminal_read (map (\<lambda>c. do_idt_keyboard (\<lambda>_ _. c)) codes) fd (Some buf) nbytes s =
      Some (int (length entered) - 1, Some (butlast entered @ drop (length entered - 1) buf), u) \<and>
    kbd_ok u \<and> (\<forall>j. j \<noteq> d \<longrightarrow> term_at j u = term_at j s)"
proof -
  let ?ks = "map (\<lambda>c. do_idt_keyboard (\<lambda>_ _. c) :: 'a kbd_scheme \<Rightarrow> _) codes"
  let ?v = "(key_pressed s, ([], line_text (previous_input t), False))"
  have ed: "editable t" using kbd_okD(2) [OF ok(1)] t(1) d(1) by simp
  define t1 where "t1 = t\<lparr>starting_offset := screen_x s\<rparr>"
  define t2 where "t2 = t1\<lparr>t_state := TERMINAL_READ\<rparr>"
  define s1 where "s1 = s\<lparr>terminal_list := (terminal_list s)[nat d := t1]\<rparr>"
  define s2 where "s2 = s1\<lparr>terminal_list := (terminal_list s1)[nat d := t2]\<rparr>"
  have i: "input t1 = input t" "input t2 = input t" "previous_input t2 = previous_input t" "editable t2"
    using ed by (simp_all add: t1_def t2_def editable_def)
  note n1 = now_shows_set [OF now_shows_self [OF ok(1) t(1)], of t1, folded s1_def]
  note n2 = now_shows_set [OF n1(2), of t2, folded s2_def]
  have at: "term_at d s1 = Some t1" "term_at d s2 = Some t2" using n1(2) n2(2) by (simp_all add: now_shows_def)
  have e: "displaying s1 = d" "displaying s2 = d" "cur_ptree s1 = d" "cur_ptree s2 = d" "shortcut_received s2 = 0"
      "key_pressed s2 = key_pressed s"
    using d ok(2) by (simp_all add: s1_def s2_def displaying_def)
  have ok2: "kbd_ok s2" by (rule now_shows_ok [OF ok(1) d(1) n2(2) i(4)])
  have "line_text (input t) = []" using t(2) by (simp add: line_text_def)
  then have v2: "typed_view s2 = Some ?v"
    using at(2) e i by (simp add: typed_view_def edit_view_def t2_def)
  define n where "n = nat (min nbytes 128)"
  have n: "0 < n" "int n = (if nbytes > 128 then 128 else nbytes)" using nbytes by (auto simp: n_def)
  obtain u tu where u: "wait_loop 0 (int n) ?ks d s2 = Some (word_of_int (int (length entered)), u)"
      "kbd_ok u" "same_places s2 u" "term_at d u = Some tu" "line_text (previous_input tu) = entered"
    using wait_line [OF ok2 e(5) v2 _ codes typed [folded n_def]] n(1) nm e entered by auto
  have eu: "displaying u = d" "cur_ptree u = d" using u(3) e by (simp_all add: same_places_def)
  have edu: "editable tu" using kbd_okD(2) [OF u(2)] u(4) eu by simp
  let ?l = "length entered - 1"
  have len: "length (line (previous_input tu)) = 128" "length entered \<le> 127"
    using edu u(5) by (auto simp: editable_def line_text_def)
  have ent: "take ?l (line (previous_input tu)) = butlast entered"
    using u(5) len by (auto simp: line_text_def butlast_take)
  have w: "uint (word_of_int (int (length entered)) :: u8) = int (length entered)"
    using len(2) by (simp add: unsigned_of_nat take_bit_nat_eq_self)
  have lp: "for_range 0 ?l (\<lambda>j output. do { l \<leftarrow> get_last_terminal_line u; c \<leftarrow> rd (line l) j; wr output j c }) buf =
      Some (butlast entered @ drop ?l buf)"
    using read_loop [of u tu ?l buf] u(4) eu len room ent by simp
  note f = now_shows_set [OF now_shows_self [OF u(2,4)], of "tu\<lparr>t_state := TERMINAL_IDLE\<rparr>"]
  let ?f = "u\<lparr>terminal_list := (terminal_list u)[nat d := tu\<lparr>t_state := TERMINAL_IDLE\<rparr>]\<rparr>"
  have fin: "finish_read (int (length entered)) buf u =
      Some (int (length entered) - 1, Some (butlast entered @ drop ?l buf), ?f)"
    using lp f(1) u(4) eu by (simp add: finish_read_def get_executing_terminal_def nat_diff_distrib')
  have k: "keyboard_wait_for_new_line ?ks (if nbytes > 128 then 128 else nbytes) s2 =
      Some (word_of_int (int (length entered)), u)"
    using u(1) at(2) e(4) i(2) t(2) n(2) by (simp add: keyboard_wait_for_new_line_def get_executing_terminal_def)
  have "terminal_read ?ks fd (Some buf) nbytes s =
      do { (i, s) \<leftarrow> keyboard_wait_for_new_line ?ks (if nbytes > 128 then 128 else nbytes) s2; finish_read (uint i) buf s }"
    using n1(1) n2(1) t at d e i(1) nbytes
    by (simp add: terminal_read_def get_executing_terminal_def get_cursor_pos_def t1_def [symmetric] t2_def [symmetric]
        BUFFER_SIZE_def)
  then have "terminal_read ?ks fd (Some buf) nbytes s =
      Some (int (length entered) - 1, Some (butlast entered @ drop ?l buf), ?f)"
    unfolding k by (simp only: Option.bind.simps prod.case w fin)
  moreover have "editable (tu\<lparr>t_state := TERMINAL_IDLE\<rparr>)" using edu by (simp add: editable_def)
  then have "kbd_ok ?f" using now_shows_ok [OF u(2) eu(1) [symmetric] f(2)] by simp
  moreover have "term_at j ?f = term_at j s" if "j \<noteq> d" for j
    using that f(2) n2(2) u(3) e(2) by (simp add: now_shows_def writes_only_def same_places_def)
  ultimately show ?thesis by blast
qed

lemma demo_line:
  "line_until 100 [0x26, 0x1F, 0x1C] (\<lambda>_. 0, ([], [], False))"
  "fst (snd (snd (fold typist_step [0x26, 0x1F, 0x1C] (\<lambda>_. 0, ([], [], False))))) = [108, 115, 10]"
  by code_simp+

theorem terminal_read_returns_line_witness:
  "\<exists>u. terminal_read (map (\<lambda>c. do_idt_keyboard (\<lambda>_ _. c)) [0x26, 0x1F, 0x1C]) 0 (Some [1, 2, 3, 4]) 100
      (kbd_demo\<lparr>cur_ptree := 0\<rparr>) = Some (2, Some [108, 115, 3, 4], u)"
proof -
  let ?s = "kbd_demo\<lparr>cur_ptree := 0\<rparr>"
  have h: "kbd_ok ?s" "shortcut_received ?s = 0" "0 = displaying ?s" "cur_ptree ?s = 0" "term_at 0 ?s = Some terminal_demo"
    "input_pointer (input terminal_demo) = 0" "no_modifier (key_pressed ?s)" "list_all typing_code [0x26, 0x1F, 0x1C]"
    "(0 :: int) < 100" "length [108 :: u8, 115, 10] \<le> Suc (length [1 :: u8, 2, 3, 4])"
    using kbd_demo_ok typing_demo_ok(3) kbd_demo_sel
    by (simp_all add: displaying_def no_modifier_def typing_code_def terminal_demo_def term_at_def)
  have p: "line_text (previous_input terminal_demo) = []" "key_pressed ?s = (\<lambda>_. 0)" "nat (min 100 128) = 100"
    by (simp_all add: line_text_def terminal_demo_def kbd_demo_sel)
  have v: "(key_pressed ?s, ([], line_text (previous_input terminal_demo), False)) = (\<lambda>_. 0, ([], [], False))"
    by (simp add: p)
  have l: "line_until (nat (min 100 128)) [0x26, 0x1F, 0x1C] (key_pressed ?s, ([], line_text (previous_input terminal_demo), False))"
    unfolding v p(3) by (rule demo_line(1))
  have e: "[108, 115, 10] = fst (snd (snd (fold typist_step [0x26, 0x1F, 0x1C]
      (key_pressed ?s, ([], line_text (previous_input terminal_demo), False)))))"
    unfolding v by (rule demo_line(2) [symmetric])
  show ?thesis using terminal_read_returns_line [OF h(1-9) l e h(10), of 0] by auto
qed

end
