(* ===== verification/Lines.thy ===== *)
theory Lines
  imports Printf
begin

text \<open>
  Lines printed on the screen: what a call of \<^verbatim>\<open>printf\<close> changes, and where text that was printed after the
  cursor has been set can be read.
\<close>

text \<open>A format with a newline at its end.\<close>

definition cline :: "string \<Rightarrow> u8 list" where
  "cline s = bytes_of s @ [10, 0]"

definition print_line :: "u8 list \<Rightarrow> print_arg list \<Rightarrow> 'a console_scheme \<Rightarrow> 'a console_scheme option" where
  "print_line fmt args s = do { (_, s) \<leftarrow> printf fmt args s; Some s }"

section \<open>Printed lines\<close>

lemma fold_putc_frame:
  "fold_opt putc t s = Some u \<Longrightarrow> u = s\<lparr>screen_x := screen_x u, screen_y := screen_y u, video_mem := video_mem u\<rparr>"
proof (induction t arbitrary: s)
  case Nil
  then show ?case by simp
next
  case (Cons c t)
  then obtain v where v: "putc c s = Some v" "fold_opt putc t v = Some u" by (auto simp: bind_eq_Some_conv)
  obtain x y p where "v = s\<lparr>screen_x := x, screen_y := y, video_mem := p\<rparr>" using putc_frame [OF v(1)] by blast
  then show ?case using Cons.IH [OF v(2)] by simp
qed

text \<open>What printing a line does: the text of the format is typed and nothing else changes.\<close>

definition types_text :: "u8 list \<Rightarrow> 'a console_scheme \<Rightarrow> 'a console_scheme \<Rightarrow> bool" where
  "types_text t s u = (screen_ok u \<and> screen_of u = fold type_char t (screen_of s) \<and>
     u = s\<lparr>screen_x := screen_x u, screen_y := screen_y u, video_mem := video_mem u\<rparr>)"

lemma types_text_refl: "screen_ok s \<Longrightarrow> types_text [] s s"
  by (simp add: types_text_def)

lemma types_text_only: "types_text t s u \<Longrightarrow> \<exists>x y p. u = s\<lparr>screen_x := x, screen_y := y, video_mem := p\<rparr>"
  unfolding types_text_def by blast

lemma types_text_trans:
  assumes "types_text t s u" and "types_text t' u v"
  shows "types_text (t @ t') s v"
proof -
  obtain x y p where "u = s\<lparr>screen_x := x, screen_y := y, video_mem := p\<rparr>" using types_text_only [OF assms(1)] by blast
  moreover obtain x y p where "v = u\<lparr>screen_x := x, screen_y := y, video_mem := p\<rparr>" using types_text_only [OF assms(2)] by blast
  ultimately have "v = s\<lparr>screen_x := screen_x v, screen_y := screen_y v, video_mem := video_mem v\<rparr>" by simp
  then show ?thesis using assms by (simp add: types_text_def)
qed

lemma print_line_types:
  assumes "screen_ok s" and "parse_format fmt = Some (ds, n)" and "render ds args = Some t"
  shows "\<exists>u. print_line fmt args s = Some u \<and> types_text t s u"
proof -
  obtain u where u: "fold_opt putc t s = Some u" "screen_ok u" "screen_of u = fold type_char t (screen_of s)"
    using console_dev.put_string [OF assms(1)] by blast
  then show ?thesis
    using assms fold_putc_frame [OF u(1)] by (simp add: print_line_def printf_def format_loop_text types_text_def)
qed

lemma types_text_mem: "types_text t s u \<Longrightarrow> mem u = mem s \<and> screen_ok u"
  using types_text_only [of t s u] by (auto simp: types_text_def)

lemma types_text_loop:
  assumes "screen_ok s" and "\<And>i v. mem v = mem s \<Longrightarrow> screen_ok v \<Longrightarrow> \<exists>u. f i v = Some u \<and> types_text (txt i) v u"
  shows "\<exists>u. for_range 0 n f s = Some u \<and> types_text (concat (map txt [0..<n])) s u"
proof (induction n)
  case 0
  then show ?case by (simp add: types_text_refl assms(1))
next
  case (Suc n)
  then obtain u where u: "for_range 0 n f s = Some u" "types_text (concat (map txt [0..<n])) s u" by auto
  obtain v where "f n u = Some v" "types_text (txt n) u v" using assms(2) types_text_mem [OF u(2)] by blast
  then show ?case using u types_text_trans by (fastforce simp: for_range_last)
qed

section \<open>Text at a position\<close>

definition print_at :: "int \<Rightarrow> int \<Rightarrow> u8 list \<Rightarrow> print_arg list \<Rightarrow> 'a console_scheme \<Rightarrow> 'a console_scheme option" where
  "print_at x y fmt args s = print_line fmt args (set_cursor_pos x y s)"

text \<open>A text with the column and the row where it starts, and what typing it there makes of the cells.\<close>

type_synonym placed = "nat \<times> nat \<times> u8 list"

definition place :: "placed \<Rightarrow> (u8 \<times> u8) list \<Rightarrow> (u8 \<times> u8) list" where
  "place p cells = (case p of (x, y, t) \<Rightarrow> snd (snd (fold type_char t (int x, int y, cells))))"

text \<open>Nothing but the screen changes, and the screen shows the texts, each over the ones before.\<close>

definition shown :: "placed list \<Rightarrow> 'a console_scheme \<Rightarrow> 'a console_scheme \<Rightarrow> bool" where
  "shown ps s u = (screen_ok u \<and> cells_of (video_mem u) = fold place ps (cells_of (video_mem s)) \<and>
     u = s\<lparr>screen_x := screen_x u, screen_y := screen_y u, video_mem := video_mem u\<rparr>)"

lemma shown_only: "shown ps s u \<Longrightarrow> \<exists>x y p. u = s\<lparr>screen_x := x, screen_y := y, video_mem := p\<rparr>"
  unfolding shown_def by blast

lemma shown_mem: "shown ps s u \<Longrightarrow> mem u = mem s \<and> screen_ok u"
  using shown_only [of ps s u] by (auto simp: shown_def)

lemma shown_refl: "screen_ok s \<Longrightarrow> shown [] s s"
  by (simp add: shown_def)

lemma shown_trans:
  assumes "shown ps s u" and "shown qs u v"
  shows "shown (ps @ qs) s v"
proof -
  obtain x y p where "u = s\<lparr>screen_x := x, screen_y := y, video_mem := p\<rparr>" using shown_only [OF assms(1)] by blast
  moreover obtain x y p where "v = u\<lparr>screen_x := x, screen_y := y, video_mem := p\<rparr>" using shown_only [OF assms(2)] by blast
  ultimately have "v = s\<lparr>screen_x := screen_x v, screen_y := screen_y v, video_mem := video_mem v\<rparr>" by simp
  then show ?thesis using assms by (simp add: shown_def)
qed

lemma print_at_shows:
  assumes "screen_ok s" and "x < 80" and "y < 25"
    and "\<exists>ds n. parse_format fmt = Some (ds, n) \<and> render ds args = Some t"
  shows "\<exists>u. print_at (int x) (int y) fmt args s = Some u \<and> shown [(x, y, t)] s u"
proof -
  let ?s = "set_cursor_pos (int x) (int y) s"
  have c: "?s = s\<lparr>screen_x := int x, screen_y := int y\<rparr>"
    using assms(2,3) by (simp add: set_cursor_pos_def NUM_COLS_def NUM_ROWS_def)
  have "screen_ok ?s" using assms(1) by simp
  then obtain u where u: "print_line fmt args ?s = Some u" "types_text t ?s u"
    using print_line_types assms(4) by blast
  obtain x' y' p where "u = ?s\<lparr>screen_x := x', screen_y := y', video_mem := p\<rparr>" using types_text_only [OF u(2)] by blast
  then have "u = s\<lparr>screen_x := screen_x u, screen_y := screen_y u, video_mem := video_mem u\<rparr>" by (simp add: c)
  moreover have "fold type_char t (int x, int y, cells_of (video_mem s)) = screen_of u"
    using u(2) by (simp add: types_text_def c screen_of_def)
  then have "cells_of (video_mem u) = fold place [(x, y, t)] (cells_of (video_mem s))"
    by (simp add: place_def screen_of_def)
  ultimately have "shown [(x, y, t)] s u"
    using u(2) unfolding shown_def types_text_def by blast
  then show ?thesis using u(1) by (auto simp: print_at_def)
qed

text \<open>A text that fits in its row, without newlines, is in the cells from its position on and nowhere else.\<close>

definition fits :: "placed \<Rightarrow> bool" where
  "fits p = (case p of (x, y, t) \<Rightarrow> x + length t \<le> 80 \<and> y < 25 \<and> (\<forall>c \<in> set t. \<not> newline_byte c))"

definition legible :: "(u8 \<times> u8) list \<Rightarrow> placed \<Rightarrow> bool" where
  "legible cells p = (case p of (x, y, t) \<Rightarrow> take (length t) (drop (80 * y + x) cells) = map (\<lambda>c. (c, ATTRIB)) t)"

definition apart :: "placed \<Rightarrow> placed \<Rightarrow> bool" where
  "apart p q = (case (p, q) of ((x, y, t), (x', y', t')) \<Rightarrow>
     80 * y + x + length t \<le> 80 * y' + x' \<or> 80 * y' + x' + length t' \<le> 80 * y + x)"

lemma place_cells:
  assumes "x + length t \<le> 80" and "\<forall>c \<in> set t. \<not> newline_byte c" and "80 * y + x + length t \<le> length cells"
  shows "place (x, y, t) cells = take (80 * y + x) cells @ map (\<lambda>c. (c, 7)) t @ drop (80 * y + x + length t) cells"
  using assms
proof (induction t arbitrary: x cells)
  case Nil
  then show ?case by (simp add: place_def)
next
  case (Cons c t)
  let ?k = "80 * y + x"
  have e: "nat (80 * int y + int x) = ?k" by simp
  have t1: "type_char c (int x, int y, cells) = ((int x + 1) mod 80, int y, cells[?k := (c, 7)])"
    using Cons.prems(2) by (simp add: type_char_def e)
  show ?case
  proof (cases t)
    case Nil
    then show ?thesis using Cons.prems t1 by (simp add: place_def upd_conv_take_nth_drop)
  next
    case (Cons d t')
    then have "(int x + 1) mod 80 = int (Suc x)" using Cons.prems(1) by simp
    then have "place (x, y, c # t) cells = place (Suc x, y, t) (cells[?k := (c, 7)])"
      using t1 by (simp add: place_def)
    also have "\<dots> = take (80 * y + Suc x) (cells[?k := (c, 7)]) @ map (\<lambda>c. (c, 7)) t @
        drop (80 * y + Suc x + length t) (cells[?k := (c, 7)])"
      by (rule Cons.IH) (use Cons.prems in auto)
    finally show ?thesis using Cons.prems by (simp add: take_Suc_conv_app_nth take_update_swap list_update_append)
  qed
qed

lemma splice_keeps:
  assumes "a + length m \<le> length xs" and "b + k \<le> a \<or> a + length m \<le> b"
  shows "take k (drop b (take a xs @ m @ drop (a + length m) xs)) = take k (drop b xs)"
  using assms(2)
proof
  assume "b + k \<le> a"
  then show ?thesis using assms(1) by (simp add: take_drop min_absorb1 add.commute)
next
  assume "a + length m \<le> b"
  then show ?thesis using assms(1) by simp
qed

lemma place_legible:
  assumes "fits p" and "length cells = 2000"
  shows "legible (place p cells) p" and "length (place p cells) = 2000"
    and "legible cells q \<Longrightarrow> apart q p \<Longrightarrow> legible (place p cells) q"
proof -
  obtain x y t where p: "p = (x, y, t)" by (cases p)
  have b: "80 * y + x + length t \<le> 2000" using assms(1) by (auto simp: fits_def p)
  have c: "place p cells = take (80 * y + x) cells @ map (\<lambda>c. (c, 7)) t @ drop (80 * y + x + length t) cells"
    unfolding p by (rule place_cells) (use assms b in \<open>auto simp: fits_def p\<close>)
  show l: "length (place p cells) = 2000" using b assms(2) by (simp add: c)
  show "legible (place p cells) p" using b assms(2) by (simp add: legible_def p c [unfolded p] ATTRIB_def)
  assume q: "legible cells q" "apart q p"
  obtain x' y' t' where q': "q = (x', y', t')" by (cases q)
  have "take (length t') (drop (80 * y' + x') (place p cells)) = take (length t') (drop (80 * y' + x') cells)"
    unfolding c
    by (rule splice_keeps [of "80 * y + x" "map (\<lambda>c. (c, 7)) t" cells "80 * y' + x'" "length t'", unfolded length_map])
      (use b assms(2) q(2) in \<open>auto simp: apart_def p q'\<close>)
  then show "legible (place p cells) q" using q(1) by (simp add: legible_def q')
qed

lemma legible_all:
  assumes "\<forall>p \<in> set ps. fits p" and "sorted_wrt apart ps" and "length cells = 2000"
  shows "length (fold place ps cells) = 2000 \<and> (\<forall>p \<in> set ps. legible (fold place ps cells) p)"
  using assms
proof (induction ps rule: rev_induct)
  case Nil
  then show ?case by simp
next
  case (snoc p ps)
  then have ih: "length (fold place ps cells) = 2000" "\<forall>q \<in> set ps. legible (fold place ps cells) q"
    by (simp_all add: sorted_wrt_append)
  have "fits p" "\<forall>q \<in> set ps. apart q p \<and> fits q" using snoc.prems by (auto simp: sorted_wrt_append)
  then show ?case using place_legible [OF \<open>fits p\<close> ih(1)] ih(2) by simp
qed

end
