(* ===== verification/Descriptors.thy ===== *)
theory Descriptors
  imports Machine
begin

text \<open>
  The descriptor tables, \<^verbatim>\<open>x86_desc.h\<close> and \<^verbatim>\<open>x86_desc.S\<close>: interrupt gates and segment descriptors as the
  structures with their bit fields, the macros that set them, the 64 bits that a structure occupies,
  and, as the specification, what the processor reads from 64 bits.
\<close>

unbundle bit_operations_syntax

type_synonym u64 = "64 word"

section \<open>Structures\<close>

record idt_desc =
  offset_15_00 :: u16
  seg_selector :: u16
  reserved4 :: u8
  reserved3 :: "1 word"
  reserved2 :: "1 word"
  reserved1 :: "1 word"
  gate_size :: "1 word"
  reserved0 :: "1 word"
  gate_dpl :: "2 word"
  gate_present :: "1 word"
  offset_31_16 :: u16

record seg_desc =
  seg_lim_15_00 :: u16
  base_15_00 :: u16
  base_23_16 :: u8
  seg_type :: "4 word"
  seg_sys :: "1 word"
  seg_dpl :: "2 word"
  seg_present :: "1 word"
  seg_lim_19_16 :: "4 word"
  seg_avail :: "1 word"
  seg_reserved :: "1 word"
  seg_opsize :: "1 word"
  seg_granularity :: "1 word"
  base_31_24 :: u8

text \<open>A table starts with zero bytes.\<close>

definition idt_desc_0 :: idt_desc where
  "idt_desc_0 = \<lparr>offset_15_00 = 0, seg_selector = 0, reserved4 = 0, reserved3 = 0, reserved2 = 0, reserved1 = 0,
     gate_size = 0, reserved0 = 0, gate_dpl = 0, gate_present = 0, offset_31_16 = 0\<rparr>"

definition seg_desc_0 :: seg_desc where
  "seg_desc_0 = \<lparr>seg_lim_15_00 = 0, base_15_00 = 0, base_23_16 = 0, seg_type = 0, seg_sys = 0, seg_dpl = 0,
     seg_present = 0, seg_lim_19_16 = 0, seg_avail = 0, seg_reserved = 0, seg_opsize = 0, seg_granularity = 0, base_31_24 = 0\<rparr>"

section \<open>Macros\<close>

definition SET_IDT_ENTRY :: "idt_desc \<Rightarrow> u32 \<Rightarrow> idt_desc" where
  "SET_IDT_ENTRY d handler = d\<lparr>offset_31_16 := ucast (drop_bit 16 (handler AND 0xFFFF0000)),
     offset_15_00 := ucast (handler AND 0xFFFF)\<rparr>"

definition SET_INTR_GATE :: "idt_desc \<Rightarrow> u32 \<Rightarrow> idt_desc" where
  "SET_INTR_GATE d handler = d\<lparr>offset_31_16 := ucast (drop_bit 16 (handler AND 0xFFFF0000)),
     offset_15_00 := ucast (handler AND 0xFFFF), gate_size := 1, reserved0 := 0, reserved1 := 1, reserved2 := 1,
     reserved3 := 0, gate_present := 1, gate_dpl := 0, seg_selector := 0x0010\<rparr>"

definition SET_TRAP_GATE :: "idt_desc \<Rightarrow> u32 \<Rightarrow> idt_desc" where
  "SET_TRAP_GATE d handler = d\<lparr>offset_31_16 := ucast (drop_bit 16 (handler AND 0xFFFF0000)),
     offset_15_00 := ucast (handler AND 0xFFFF), gate_size := 1, reserved0 := 0, reserved1 := 1, reserved2 := 1,
     reserved3 := 1, gate_present := 1, gate_dpl := 0, seg_selector := 0x0010\<rparr>"

definition SET_SYSTEM_GATE :: "idt_desc \<Rightarrow> u32 \<Rightarrow> idt_desc" where
  "SET_SYSTEM_GATE d handler = d\<lparr>offset_31_16 := ucast (drop_bit 16 (handler AND 0xFFFF0000)),
     offset_15_00 := ucast (handler AND 0xFFFF), gate_size := 1, reserved0 := 0, reserved1 := 1, reserved2 := 1,
     reserved3 := 1, gate_present := 1, gate_dpl := 3, seg_selector := 0x0010\<rparr>"

definition SET_LDT_PARAMS :: "seg_desc \<Rightarrow> u32 \<Rightarrow> u32 \<Rightarrow> seg_desc" where
  "SET_LDT_PARAMS d addr lim = d\<lparr>base_31_24 := ucast (drop_bit 24 (addr AND 0xFF000000)),
     base_23_16 := ucast (drop_bit 16 (addr AND 0x00FF0000)), base_15_00 := ucast (addr AND 0x0000FFFF),
     seg_lim_19_16 := ucast (drop_bit 16 (lim AND 0x000F0000)), seg_lim_15_00 := ucast (lim AND 0x0000FFFF)\<rparr>"

definition SET_TSS_PARAMS :: "seg_desc \<Rightarrow> u32 \<Rightarrow> u32 \<Rightarrow> seg_desc" where
  "SET_TSS_PARAMS d addr lim = d\<lparr>base_31_24 := ucast (drop_bit 24 (addr AND 0xFF000000)),
     base_23_16 := ucast (drop_bit 16 (addr AND 0x00FF0000)), base_15_00 := ucast (addr AND 0x0000FFFF),
     seg_lim_19_16 := ucast (drop_bit 16 (lim AND 0x000F0000)), seg_lim_15_00 := ucast (lim AND 0x0000FFFF)\<rparr>"

section \<open>Layout\<close>

text \<open>The structures are packed, their fields from the lowest bit on.\<close>

definition idt_desc_bits :: "idt_desc \<Rightarrow> u64" where
  "idt_desc_bits d = ucast (offset_15_00 d) OR push_bit 16 (ucast (seg_selector d)) OR push_bit 32 (ucast (reserved4 d))
     OR push_bit 40 (ucast (reserved3 d)) OR push_bit 41 (ucast (reserved2 d)) OR push_bit 42 (ucast (reserved1 d))
     OR push_bit 43 (ucast (gate_size d)) OR push_bit 44 (ucast (reserved0 d)) OR push_bit 45 (ucast (gate_dpl d))
     OR push_bit 47 (ucast (gate_present d)) OR push_bit 48 (ucast (offset_31_16 d))"

definition seg_desc_bits :: "seg_desc \<Rightarrow> u64" where
  "seg_desc_bits d = ucast (seg_lim_15_00 d) OR push_bit 16 (ucast (base_15_00 d)) OR push_bit 32 (ucast (base_23_16 d))
     OR push_bit 40 (ucast (seg_type d)) OR push_bit 44 (ucast (seg_sys d)) OR push_bit 45 (ucast (seg_dpl d))
     OR push_bit 47 (ucast (seg_present d)) OR push_bit 48 (ucast (seg_lim_19_16 d)) OR push_bit 52 (ucast (seg_avail d))
     OR push_bit 53 (ucast (seg_reserved d)) OR push_bit 54 (ucast (seg_opsize d)) OR push_bit 55 (ucast (seg_granularity d))
     OR push_bit 56 (ucast (base_31_24 d))"

section \<open>The processor's view\<close>

text \<open>A 32-bit interrupt or trap gate: its kind, target and privilege level. Going through an interrupt gate
  switches interrupts off.\<close>

datatype gate = Interrupt u16 u32 "2 word" | Trap u16 u32 "2 word"

definition decode_gate :: "u64 \<Rightarrow> gate option" where
  "decode_gate w = (let sel = ucast (drop_bit 16 w); target = ucast w AND 0xFFFF OR push_bit 16 (ucast (drop_bit 48 w));
       dpl = ucast (drop_bit 45 w); ty = (ucast (drop_bit 40 w) :: 5 word) in
     if \<not> bit w 47 then None
     else if ty = 0xE then Some (Interrupt sel target dpl)
     else if ty = 0xF then Some (Trap sel target dpl) else None)"

text \<open>A segment: base, limit in bytes, privilege level, system or code and data, type.\<close>

record segment =
  s_base :: u32
  s_limit :: u32
  s_dpl :: "2 word"
  s_code_data :: bool
  s_type :: "4 word"

definition decode_segment :: "u64 \<Rightarrow> segment option" where
  "decode_segment w = (let lim = (ucast w AND 0xFFFF) OR (push_bit 16 (ucast (drop_bit 48 w)) AND 0xF0000 :: u32) in
     if \<not> bit w 47 then None
     else Some \<lparr>s_base = (ucast (drop_bit 16 w) AND 0xFFFFFF) OR push_bit 24 (ucast (drop_bit 56 w)),
       s_limit = (if bit w 55 then push_bit 12 lim OR 0xFFF else lim), s_dpl = ucast (drop_bit 45 w),
       s_code_data = bit w 44, s_type = ucast (drop_bit 40 w)\<rparr>)"

text \<open>The global descriptor table; the last two entries are written at run time.\<close>

definition gdt :: "u64 list" where
  "gdt = [0, 0, 0x00CF9A000000FFFF, 0x00CF92000000FFFF, 0x00CFFA000000FFFF, 0x00CFF2000000FFFF, 0, 0]"

section \<open>The layout read bit by bit\<close>

lemma high_bit [simp]: "8 \<le> n \<Longrightarrow> \<not> bit (w :: u8) n" "16 \<le> n \<Longrightarrow> \<not> bit (v :: u16) n" "4 \<le> n \<Longrightarrow> \<not> bit (x :: 4 word) n"
    "2 \<le> n \<Longrightarrow> \<not> bit (y :: 2 word) n" "1 \<le> n \<Longrightarrow> \<not> bit (z :: 1 word) n"
  using bit_imp_le_length [of w n] bit_imp_le_length [of v n] bit_imp_le_length [of x n] bit_imp_le_length [of y n]
    bit_imp_le_length [of z n]
  by auto

text \<open>A field of \<^term>\<open>k\<close> bits at position \<^term>\<open>j\<close>.\<close>

lemma field_bit:
  fixes w :: "'a :: len word"
  assumes "j + LENGTH('a) \<le> 64"
  shows "bit (push_bit j (ucast w) :: u64) n \<longleftrightarrow> j \<le> n \<and> n < j + LENGTH('a) \<and> bit w (n - j)"
  using assms bit_imp_le_length [of w "n - j"] by (auto simp: bit_simps)

lemma gate_layout:
  "bit (idt_desc_bits d) n =
    (if n < 16 then bit (offset_15_00 d) n else if n < 32 then bit (seg_selector d) (n - 16)
     else if n < 40 then bit (reserved4 d) (n - 32) else if n < 41 then bit (reserved3 d) (n - 40)
     else if n < 42 then bit (reserved2 d) (n - 41) else if n < 43 then bit (reserved1 d) (n - 42)
     else if n < 44 then bit (gate_size d) (n - 43) else if n < 45 then bit (reserved0 d) (n - 44)
     else if n < 47 then bit (gate_dpl d) (n - 45) else if n < 48 then bit (gate_present d) (n - 47)
     else bit (offset_31_16 d) (n - 48))"
  unfolding idt_desc_bits_def
  by (simp add: bit_or_iff field_bit bit_unsigned_iff) (auto simp: not_less dest: bit_imp_le_length)

lemma segment_layout:
  "bit (seg_desc_bits d) n =
    (if n < 16 then bit (seg_lim_15_00 d) n else if n < 32 then bit (base_15_00 d) (n - 16)
     else if n < 40 then bit (base_23_16 d) (n - 32) else if n < 44 then bit (seg_type d) (n - 40)
     else if n < 45 then bit (seg_sys d) (n - 44) else if n < 47 then bit (seg_dpl d) (n - 45)
     else if n < 48 then bit (seg_present d) (n - 47) else if n < 52 then bit (seg_lim_19_16 d) (n - 48)
     else if n < 53 then bit (seg_avail d) (n - 52) else if n < 54 then bit (seg_reserved d) (n - 53)
     else if n < 55 then bit (seg_opsize d) (n - 54) else if n < 56 then bit (seg_granularity d) (n - 55)
     else bit (base_31_24 d) (n - 56))"
  unfolding seg_desc_bits_def
  by (simp add: bit_or_iff field_bit bit_unsigned_iff) (auto simp: not_less dest: bit_imp_le_length)

section \<open>Gates\<close>

lemma halves: "(0xFFFF0000 :: u32) = push_bit 16 (mask 16)" "(0xFFFF :: u32) = mask 16" "(0xF0000 :: u32) = push_bit 16 (mask 4)"
    "(0xFFFFFF :: u32) = mask 24" "(0xFF000000 :: u32) = push_bit 24 (mask 8)" "(0x00FF0000 :: u32) = push_bit 16 (mask 8)"
  by (simp_all add: mask_eq_exp_minus_1)

lemma five: "n < 5 \<Longrightarrow> n \<in> {0, 1, 2, 3, 4 :: nat}"
  by auto

lemma gate_type:
  assumes "gate_size d = 1" "reserved1 d = 1" "reserved2 d = 1" "reserved0 d = 0"
  shows "(ucast (drop_bit 40 (idt_desc_bits d)) :: 5 word) = (if bit (reserved3 d) 0 then 0xF else 0xE)"
proof (rule bit_word_eqI)
  fix n assume "n < LENGTH(5)"
  then have "n \<in> {0, 1, 2, 3, 4}" using five by simp
  then show "bit (ucast (drop_bit 40 (idt_desc_bits d)) :: 5 word) n = bit (if bit (reserved3 d) 0 then 0xF else 0xE :: 5 word) n"
    using assms by (elim insertE emptyE) (simp_all add: bit_simps gate_layout)
qed

lemma gate_decodes:
  assumes "gate_size d = 1" "reserved1 d = 1" "reserved2 d = 1" "reserved0 d = 0" "gate_present d = 1"
    and "offset_31_16 d = ucast (drop_bit 16 (h AND 0xFFFF0000))" "offset_15_00 d = ucast (h AND 0xFFFF)"
  shows "decode_gate (idt_desc_bits d) =
    Some ((if bit (reserved3 d) 0 then Trap else Interrupt) (seg_selector d) h (gate_dpl d))"
proof -
  let ?w = "idt_desc_bits d"
  have "bit ?w 47" using assms(5) by (simp add: gate_layout)
  moreover have "(ucast (drop_bit 16 ?w) :: u16) = seg_selector d"
    by (rule bit_word_eqI) (simp add: bit_simps gate_layout)
  moreover have "(ucast (drop_bit 45 ?w) :: 2 word) = gate_dpl d"
    by (rule bit_word_eqI) (auto simp: bit_simps gate_layout)
  moreover have "(ucast ?w AND 0xFFFF OR push_bit 16 (ucast (drop_bit 48 ?w)) :: u32) = h"
    unfolding halves by (rule bit_word_eqI) (auto simp: bit_simps gate_layout assms(6,7) halves not_less)
  ultimately show ?thesis
    using gate_type [OF assms(1-4)] by (simp add: decode_gate_def Let_def)
qed

text \<open>The macros build the gates that they name: whatever the entry held, the processor reads an
  interrupt gate, a trap gate, or a trap gate that user code may call, to the given address in the
  kernel's code segment.\<close>

theorem gates_decode:
  "decode_gate (idt_desc_bits (SET_INTR_GATE d h)) = Some (Interrupt 0x10 h 0) \<and>
   decode_gate (idt_desc_bits (SET_TRAP_GATE d h)) = Some (Trap 0x10 h 0) \<and>
   decode_gate (idt_desc_bits (SET_SYSTEM_GATE d h)) = Some (Trap 0x10 h 3)"
  by (simp_all add: gate_decodes [of _ h] SET_INTR_GATE_def SET_TRAP_GATE_def SET_SYSTEM_GATE_def)

section \<open>Segments\<close>

lemma segment_decodes:
  assumes "seg_present d = 1" and "lim < 2 ^ 20" and "base_31_24 d = ucast (drop_bit 24 (addr AND 0xFF000000))"
    "base_23_16 d = ucast (drop_bit 16 (addr AND 0x00FF0000))" "base_15_00 d = ucast (addr AND 0x0000FFFF)"
    "seg_lim_19_16 d = ucast (drop_bit 16 (lim AND 0x000F0000))" "seg_lim_15_00 d = ucast (lim AND 0x0000FFFF)"
  shows "decode_segment (seg_desc_bits d) = Some \<lparr>s_base = addr,
    s_limit = (if bit (seg_granularity d) 0 then push_bit 12 lim OR 0xFFF else lim), s_dpl = seg_dpl d,
    s_code_data = bit (seg_sys d) 0, s_type = seg_type d\<rparr>"
proof -
  let ?w = "seg_desc_bits d"
  have l: "\<not> bit lim n" if "20 \<le> n" for n
  proof -
    have "lim = take_bit 20 lim"
      using assms(2) by (simp add: word_unat_eq_iff take_bit_eq_mod unat_mod word_less_nat_alt)
    then show ?thesis using that by (metis bit_take_bit_iff not_less)
  qed
  have "bit ?w 47" using assms(1) by (simp add: segment_layout)
  moreover have "bit ?w 44 = bit (seg_sys d) 0" "bit ?w 55 = bit (seg_granularity d) 0" by (simp_all add: segment_layout)
  moreover have "(ucast (drop_bit 45 ?w) :: 2 word) = seg_dpl d" "(ucast (drop_bit 40 ?w) :: 4 word) = seg_type d"
    by (rule bit_word_eqI; auto simp: bit_simps segment_layout)+
  moreover have "((ucast ?w AND 0xFFFF) OR (push_bit 16 (ucast (drop_bit 48 ?w)) AND 0xF0000) :: u32) = lim"
    unfolding halves by (rule bit_word_eqI) (use l in \<open>auto simp: bit_simps segment_layout assms(6,7) halves not_less\<close>)
  moreover have "((ucast (drop_bit 16 ?w) AND 0xFFFFFF) OR push_bit 24 (ucast (drop_bit 56 ?w)) :: u32) = addr"
    unfolding halves by (rule bit_word_eqI) (auto simp: bit_simps segment_layout assms(3-5) halves not_less)
  ultimately show ?thesis by (simp add: decode_segment_def Let_def)
qed

text \<open>The two macros for segments store an address and a limit so that the processor reads them back,
  for every address and every limit of 20 bits; the other fields keep their values.\<close>

theorem segment_params_roundtrip:
  assumes "seg_present d = 1" and "seg_granularity d = 0" and "lim < 2 ^ 20"
  shows "decode_segment (seg_desc_bits (SET_TSS_PARAMS d addr lim)) = Some \<lparr>s_base = addr, s_limit = lim, s_dpl = seg_dpl d,
      s_code_data = bit (seg_sys d) 0, s_type = seg_type d\<rparr> \<and>
    SET_LDT_PARAMS d addr lim = SET_TSS_PARAMS d addr lim"
  using segment_decodes [of "SET_TSS_PARAMS d addr lim" lim addr] assms by (simp add: SET_TSS_PARAMS_def SET_LDT_PARAMS_def)

theorem segment_params_roundtrip_witness:
  "decode_segment (seg_desc_bits (SET_TSS_PARAMS (seg_desc_0\<lparr>seg_present := 1, seg_type := 9\<rparr>) 0x12345678 103)) =
     Some \<lparr>s_base = 0x12345678, s_limit = 103, s_dpl = 0, s_code_data = False, s_type = 9\<rparr>"
  using segment_params_roundtrip [of "seg_desc_0\<lparr>seg_present := 1, seg_type := 9\<rparr>" 103 "0x12345678"]
  by (simp add: seg_desc_0_def)

end
