(* ===== verification/Boot.thy ===== *)
theory Boot
  imports Keyboard Lines Descriptors
begin

text \<open>
  Starting the kernel, \<^verbatim>\<open>kernel.c\<close>: what is printed of the boot loader's information, the descriptor
  tables, and the calls that initialise the devices. The addresses that the linker gives to the entry
  points and tables are the parameter \<^verbatim>\<open>symbol\<close>.
\<close>

unbundle bit_operations_syntax

section \<open>State\<close>

record boot = kbd +
  idt :: "idt_desc list"
  ldt_desc_ptr :: seg_desc
  tss_desc_ptr :: seg_desc
  ldtr :: u16
  task_register :: u16

definition MULTIBOOT_BOOTLOADER_MAGIC :: u32 where "MULTIBOOT_BOOTLOADER_MAGIC = 0x2BADB002"
definition TSS_SIZE :: u32 where "TSS_SIZE = 104"
definition NUM_VEC :: nat where "NUM_VEC = 256"
definition KERNEL_TSS :: u16 where "KERNEL_TSS = 0x0030"
definition tss_size :: u32 where "tss_size = 103"
definition ldt_size :: u32 where "ldt_size = 31"

definition CHECK_FLAG :: "u32 \<Rightarrow> nat \<Rightarrow> bool" where
  "CHECK_FLAG flags i = (flags AND push_bit i 1 \<noteq> 0)"

section \<open>The boot loader's information\<close>

text \<open>The fields of \<^verbatim>\<open>multiboot_info_t\<close> at \<^verbatim>\<open>mbi\<close>, of a \<^verbatim>\<open>module_t\<close> and of a \<^verbatim>\<open>memory_map_t\<close>.\<close>

definition mbi_flags :: "memory \<Rightarrow> u32 \<Rightarrow> u32" where "mbi_flags m mbi = ld32 m mbi"
definition mbi_mem_lower :: "memory \<Rightarrow> u32 \<Rightarrow> u32" where "mbi_mem_lower m mbi = ld32 m (mbi + 4)"
definition mbi_mem_upper :: "memory \<Rightarrow> u32 \<Rightarrow> u32" where "mbi_mem_upper m mbi = ld32 m (mbi + 8)"
definition mbi_boot_device :: "memory \<Rightarrow> u32 \<Rightarrow> u32" where "mbi_boot_device m mbi = ld32 m (mbi + 12)"
definition mbi_cmdline :: "memory \<Rightarrow> u32 \<Rightarrow> u32" where "mbi_cmdline m mbi = ld32 m (mbi + 16)"
definition mbi_mods_count :: "memory \<Rightarrow> u32 \<Rightarrow> u32" where "mbi_mods_count m mbi = ld32 m (mbi + 20)"
definition mbi_mods_addr :: "memory \<Rightarrow> u32 \<Rightarrow> u32" where "mbi_mods_addr m mbi = ld32 m (mbi + 24)"
definition mbi_elf_sec :: "memory \<Rightarrow> u32 \<Rightarrow> nat \<Rightarrow> u32" where "mbi_elf_sec m mbi k = ld32 m (mbi + 28 + 4 * of_nat k)"
definition mbi_mmap_length :: "memory \<Rightarrow> u32 \<Rightarrow> u32" where "mbi_mmap_length m mbi = ld32 m (mbi + 44)"
definition mbi_mmap_addr :: "memory \<Rightarrow> u32 \<Rightarrow> u32" where "mbi_mmap_addr m mbi = ld32 m (mbi + 48)"

definition mod_start :: "memory \<Rightarrow> u32 \<Rightarrow> u32" where "mod_start m a = ld32 m a"
definition mod_end :: "memory \<Rightarrow> u32 \<Rightarrow> u32" where "mod_end m a = ld32 m (a + 4)"

definition mmap_size :: "memory \<Rightarrow> u32 \<Rightarrow> u32" where "mmap_size m a = ld32 m a"
definition mmap_base_addr_low :: "memory \<Rightarrow> u32 \<Rightarrow> u32" where "mmap_base_addr_low m a = ld32 m (a + 4)"
definition mmap_base_addr_high :: "memory \<Rightarrow> u32 \<Rightarrow> u32" where "mmap_base_addr_high m a = ld32 m (a + 8)"
definition mmap_length_low :: "memory \<Rightarrow> u32 \<Rightarrow> u32" where "mmap_length_low m a = ld32 m (a + 12)"
definition mmap_length_high :: "memory \<Rightarrow> u32 \<Rightarrow> u32" where "mmap_length_high m a = ld32 m (a + 16)"
definition mmap_type :: "memory \<Rightarrow> u32 \<Rightarrow> u32" where "mmap_type m a = ld32 m (a + 20)"

text \<open>The bytes of a string in memory up to its NUL; the number bounds its length by that of the address space.\<close>

function string_in :: "memory \<Rightarrow> u32 \<Rightarrow> nat \<Rightarrow> u8 list" where
  "string_in m a n = (if n = 0 then [] else if m a = 0 then [0] else m a # string_in m (a + 1) (n - 1))"
  by pat_completeness auto
termination by (relation "measure (\<lambda>(m, a, n). n)") auto

declare string_in.simps [simp del]

text \<open>One round of the loop over the modules; \<^verbatim>\<open>mod\<close> is not advanced by it.\<close>

definition print_module :: "u32 \<Rightarrow> nat \<Rightarrow> 'a console_scheme \<Rightarrow> 'a console_scheme option" where
  "print_module a mod_count s = do {
     s \<leftarrow> print_line (cline ''Module %d loaded at address: 0x%#x'') [IntArg (of_nat mod_count), IntArg (mod_start (mem s) a)] s;
     s \<leftarrow> print_line (cline ''Module %d ends at address: 0x%#x'') [IntArg (of_nat mod_count), IntArg (mod_end (mem s) a)] s;
     s \<leftarrow> print_line (cline ''First few bytes of module:'') [] s;
     s \<leftarrow> for_range 0 16 (\<lambda>i s. print_line (cstr ''0x%x '') [IntArg (scast (mem s (mod_start (mem s) a + of_nat i)))] s) s;
     print_line (cline '''') [] s }"

text \<open>The loop over the memory map; it does not end when the sizes lead in a circle.\<close>

partial_function (option) print_mmap :: "u32 \<Rightarrow> u32 \<Rightarrow> 'a console_scheme \<Rightarrow> 'a console_scheme option" where
  "print_mmap mmap mbi s =
     (if mmap < mbi_mmap_addr (mem s) mbi + mbi_mmap_length (mem s) mbi then do {
        s \<leftarrow> print_line (bytes_of '' size = 0x%x,     base_addr = 0x%#x%#x'' @ [10] @
               cline ''     type = 0x%x,  length    = 0x%#x%#x'')
             [IntArg (mmap_size (mem s) mmap), IntArg (mmap_base_addr_high (mem s) mmap), IntArg (mmap_base_addr_low (mem s) mmap),
              IntArg (mmap_type (mem s) mmap), IntArg (mmap_length_high (mem s) mmap), IntArg (mmap_length_low (mem s) mmap)] s;
        print_mmap (mmap + mmap_size (mem s) mmap + 4) mbi s }
      else Some s)"

text \<open>The first half of \<^verbatim>\<open>entry\<close>; the result says whether it goes on.\<close>

definition print_boot_info :: "u32 \<Rightarrow> u32 \<Rightarrow> 'a console_scheme \<Rightarrow> (bool \<times> 'a console_scheme) option" where
  "print_boot_info magic mbi s = do {
     s \<leftarrow> clear s;
     (if magic \<noteq> MULTIBOOT_BOOTLOADER_MAGIC then do {
        s \<leftarrow> print_line (cline ''Invalid magic number: 0x%#x'') [IntArg magic] s;
        Some (False, s) }
      else do {
        s \<leftarrow> print_line (cline ''flags = 0x%#x'') [IntArg (mbi_flags (mem s) mbi)] s;
        s \<leftarrow> (if CHECK_FLAG (mbi_flags (mem s) mbi) 0
             then print_line (cline ''mem_lower = %uKB, mem_upper = %uKB'') [IntArg (mbi_mem_lower (mem s) mbi), IntArg (mbi_mem_upper (mem s) mbi)] s
             else Some s);
        s \<leftarrow> (if CHECK_FLAG (mbi_flags (mem s) mbi) 1
             then print_line (cline ''boot_device = 0x%#x'') [IntArg (mbi_boot_device (mem s) mbi)] s else Some s);
        s \<leftarrow> (if CHECK_FLAG (mbi_flags (mem s) mbi) 2
             then print_line (cline ''cmdline = %s'') [StrArg (string_in (mem s) (mbi_cmdline (mem s) mbi) (2 ^ 32))] s else Some s);
        s \<leftarrow> (if CHECK_FLAG (mbi_flags (mem s) mbi) 3
             then for_range 0 (unat (mbi_mods_count (mem s) mbi)) (print_module (mbi_mods_addr (mem s) mbi)) s else Some s);
        (if CHECK_FLAG (mbi_flags (mem s) mbi) 4 \<and> CHECK_FLAG (mbi_flags (mem s) mbi) 5 then do {
           s \<leftarrow> print_line (cline ''Both bits 4 and 5 are set.'') [] s;
           Some (False, s) }
         else do {
           s \<leftarrow> (if CHECK_FLAG (mbi_flags (mem s) mbi) 5
                then print_line (cline ''elf_sec: num = %u, size = 0x%#x, addr = 0x%#x, shndx = 0x%#x'')
                       (map (\<lambda>k. IntArg (mbi_elf_sec (mem s) mbi k)) [0, 1, 2, 3]) s
                else Some s);
           s \<leftarrow> (if CHECK_FLAG (mbi_flags (mem s) mbi) 6 then do {
                  s \<leftarrow> print_line (cline ''mmap_addr = 0x%#x, mmap_length = 0x%x'')
                         [IntArg (mbi_mmap_addr (mem s) mbi), IntArg (mbi_mmap_length (mem s) mbi)] s;
                  print_mmap (mbi_mmap_addr (mem s) mbi) mbi s }
                else Some s);
           Some (True, s) }) }) }"

section \<open>The tables\<close>

text \<open>\<^verbatim>\<open>lldt\<close> and \<^verbatim>\<open>ltr\<close>; the latter marks the descriptor that it loads, the one of the task state segment, as busy.\<close>

definition lldt :: "u16 \<Rightarrow> 'a boot_scheme \<Rightarrow> 'a boot_scheme" where
  "lldt sel s = s\<lparr>ldtr := sel\<rparr>"

definition ltr :: "u16 \<Rightarrow> 'a boot_scheme \<Rightarrow> 'a boot_scheme" where
  "ltr sel s = s\<lparr>tss_desc_ptr := (tss_desc_ptr s)\<lparr>seg_type := seg_type (tss_desc_ptr s) OR 2\<rparr>, task_register := sel\<rparr>"

definition setup_ldt :: "(string \<Rightarrow> u32) \<Rightarrow> 'a boot_scheme \<Rightarrow> 'a boot_scheme" where
  "setup_ldt symbol s = (
     let d = seg_desc_0\<lparr>seg_granularity := 0, seg_opsize := 1, seg_reserved := 0, seg_avail := 0, seg_present := 1,
               seg_dpl := 0, seg_sys := 0, seg_type := 2\<rparr>;
         d = SET_LDT_PARAMS d (symbol ''ldt'') ldt_size
     in lldt KERNEL_LDT (s\<lparr>ldt_desc_ptr := d\<rparr>))"

definition setup_tss :: "(string \<Rightarrow> u32) \<Rightarrow> 'a boot_scheme \<Rightarrow> 'a boot_scheme" where
  "setup_tss symbol s = (
     let d = seg_desc_0\<lparr>seg_granularity := 0, seg_opsize := 0, seg_reserved := 0, seg_avail := 0,
               seg_lim_19_16 := ucast (TSS_SIZE AND 0x000F0000), seg_present := 1, seg_dpl := 0, seg_sys := 0,
               seg_type := 9, seg_lim_15_00 := ucast (TSS_SIZE AND 0x0000FFFF)\<rparr>;
         d = SET_TSS_PARAMS d (symbol ''tss'') tss_size;
         s = s\<lparr>tss_desc_ptr := d\<rparr>
     in ltr KERNEL_TSS (s\<lparr>tss := (tss s)\<lparr>tss_ldt_segment_selector := KERNEL_LDT, tss_ss0 := KERNEL_DS, tss_esp0 := 0x800000\<rparr>\<rparr>))"

text \<open>The vectors with their entry points, in the order in which they are set.\<close>

definition intel_gates :: "(nat \<times> string) list" where
  "intel_gates = [(0, ''idt_intel_de''), (1, ''idt_intel_db''), (2, ''idt_intel_nmi''), (3, ''idt_intel_bp''),
     (4, ''idt_intel_of''), (5, ''idt_intel_br''), (6, ''idt_intel_ud''), (7, ''idt_intel_nm''), (8, ''idt_intel_df''),
     (9, ''idt_intel_cso''), (10, ''idt_intel_ts''), (11, ''idt_intel_np''), (12, ''idt_intel_ss''), (13, ''idt_intel_gp''),
     (14, ''idt_intel_pf''), (16, ''idt_intel_mf''), (17, ''idt_intel_ac''), (18, ''idt_intel_mc''), (19, ''idt_intel_xf'')]"

definition hardware_gates :: "(nat \<times> string) list" where
  "hardware_gates = [(32, ''idt_pit''), (33, ''idt_keyboard''), (40, ''idt_rtc'')]"

definition set_gate :: "(idt_desc \<Rightarrow> u32 \<Rightarrow> idt_desc) \<Rightarrow> u32 \<Rightarrow> nat \<Rightarrow> idt_desc list \<Rightarrow> idt_desc list option" where
  "set_gate f handler i t = do { d \<leftarrow> rd t i; wr t i (f d handler) }"

definition setup_idt :: "(string \<Rightarrow> u32) \<Rightarrow> 'a boot_scheme \<Rightarrow> 'a boot_scheme option" where
  "setup_idt symbol s = do {
     t \<leftarrow> for_range 0 NUM_VEC (set_gate SET_INTR_GATE (symbol ''idt_unknown_intr'')) (idt s);
     t \<leftarrow> fold_opt (\<lambda>(i, h). set_gate SET_INTR_GATE (symbol h) i) intel_gates t;
     t \<leftarrow> set_gate SET_SYSTEM_GATE (symbol ''system_call'') 0x80 t;
     t \<leftarrow> fold_opt (\<lambda>(i, h). set_gate SET_INTR_GATE (symbol h) i) hardware_gates t;
     Some (s\<lparr>idt := t\<rparr>) }"

section \<open>Entry\<close>

definition init_devices :: "device \<Rightarrow> u32 \<Rightarrow> u32 \<Rightarrow> 'a boot_scheme \<Rightarrow> 'a boot_scheme option" where
  "init_devices dev header mbi s = do {
     s \<leftarrow> print_line (cline ''Enabling PIC'') [] s;
     let s = i8259_init s;
     s \<leftarrow> print_line (cline ''Enabling Paging'') [] s;
     let s = paging_init s;
     s \<leftarrow> print_line (cline ''Initializing File System'') [] s;
     let s = snd (init_file_system (mod_start (mem s) (mbi_mods_addr (mem s) mbi)) s);
     s \<leftarrow> print_line (cline ''Enabling RTC'') [] s;
     (_, s) \<leftarrow> rtc_open dev s;
     s \<leftarrow> print_line (cline ''Enabling keyboard'') [] s;
     s \<leftarrow> keyboard_init s;
     s \<leftarrow> print_line (cline ''Enabling Terminal'') [] s;
     (_, s) \<leftarrow> terminal_open [] s;
     (_, s) \<leftarrow> tasks_init header s;
     let s = snd (pit_init s);
     Some (sti s) }"

text \<open>\<^verbatim>\<open>entry\<close> up to the instruction that waits for the first interrupt; when it returns early the result is
  \<^term>\<open>False\<close>.\<close>

definition boot_entry ::
  "(string \<Rightarrow> u32) \<Rightarrow> device \<Rightarrow> u32 \<Rightarrow> u32 \<Rightarrow> u32 \<Rightarrow> 'a boot_scheme \<Rightarrow> (bool \<times> 'a boot_scheme) option" where
  "boot_entry symbol dev header magic mbi s = do {
     (go_on, s) \<leftarrow> print_boot_info magic mbi s;
     (if \<not> go_on then Some (False, s)
      else do {
        let s = setup_ldt symbol s;
        let s = setup_tss symbol s;
        s \<leftarrow> print_line (cline ''Constructing IDT'') [] s;
        s \<leftarrow> setup_idt symbol s;
        s \<leftarrow> init_devices dev header mbi s;
        Some (True, s) }) }"

section \<open>The interrupt table\<close>

lemma set_gate_in: "i < length t \<Longrightarrow> set_gate f h i t = Some (t[i := f (t ! i) h])"
  by (simp add: set_gate_def rd_def wr_def)

text \<open>A series of gates at different vectors within the table.\<close>

lemma gates_set:
  assumes "distinct (map fst gs)" and "\<forall>g \<in> set gs. fst g < length t"
  shows "\<exists>u. fold_opt (\<lambda>(i, h). set_gate f (symbol h) i) gs t = Some u \<and> length u = length t \<and>
    (\<forall>i < length t. u ! i = (case map_of gs i of Some h \<Rightarrow> f (t ! i) (symbol h) | None \<Rightarrow> t ! i))"
  using assms
proof (induction gs arbitrary: t)
  case Nil
  then show ?case by simp
next
  case (Cons g gs)
  obtain v h where g: "g = (v, h)" by (cases g)
  let ?t = "t[v := f (t ! v) (symbol h)]"
  have v: "v < length t" "v \<notin> fst ` set gs" using Cons.prems g by auto
  have "\<exists>u. fold_opt (\<lambda>(i, h). set_gate f (symbol h) i) gs ?t = Some u \<and> length u = length ?t \<and>
    (\<forall>i < length ?t. u ! i = (case map_of gs i of Some h \<Rightarrow> f (?t ! i) (symbol h) | None \<Rightarrow> ?t ! i))"
    by (rule Cons.IH) (use Cons.prems in auto)
  then obtain u where u: "fold_opt (\<lambda>(i, h). set_gate f (symbol h) i) gs ?t = Some u" "length u = length t"
    "\<forall>i < length t. u ! i = (case map_of gs i of Some h \<Rightarrow> f (?t ! i) (symbol h) | None \<Rightarrow> ?t ! i)" by auto
  have "map_of gs v = None" using v(2) by (simp add: map_of_eq_None_iff)
  then show ?case using u v g by (auto simp: set_gate_in nth_list_update split: option.splits)
qed

text \<open>The exceptions of the processor in the order of their vectors from 0 on, by their mnemonics, with whether it pushes an
  error code; nothing for a reserved vector. (The manual has no mnemonic for vector 9, the coprocessor segment overrun.)\<close>

definition ia32_exceptions :: "(string \<times> bool) option list" where
  "ia32_exceptions = [Some (''de'', False), Some (''db'', False), Some (''nmi'', False), Some (''bp'', False), Some (''of'', False),
     Some (''br'', False), Some (''ud'', False), Some (''nm'', False), Some (''df'', True), Some (''cso'', False), Some (''ts'', True),
     Some (''np'', True), Some (''ss'', True), Some (''gp'', True), Some (''pf'', True), None, Some (''mf'', False),
     Some (''ac'', True), Some (''mc'', False), Some (''xf'', False)]"

text \<open>The entry point that a vector should have, by name: that of the exception; from 32 on, those of the lines of the
  interrupt controllers that are in use (timer 0, keyboard 1, clock 8); that of system calls at 0x80; and elsewhere that for the unknown.\<close>

definition vector_entry :: "nat \<Rightarrow> string" where
  "vector_entry v = (
     if v < 20 then (case ia32_exceptions ! v of Some (name, _) \<Rightarrow> ''idt_intel_'' @ name | None \<Rightarrow> ''idt_unknown_intr'')
     else if v = 32 + 0 then ''idt_pit'' else if v = 32 + 1 then ''idt_keyboard''
     else if v = 32 + 8 then ''idt_rtc'' else if v = 0x80 then ''system_call'' else ''idt_unknown_intr'')"

lemma gates_by_vector:
  "v < 256 \<Longrightarrow> v \<noteq> 0x80 \<Longrightarrow> vector_entry v = (case map_of (intel_gates @ hardware_gates) v of Some h \<Rightarrow> h | None \<Rightarrow> ''idt_unknown_intr'')"
proof -
  have "list_all (\<lambda>v. v = 0x80 \<or> vector_entry v = (case map_of (intel_gates @ hardware_gates) v of Some h \<Rightarrow> h | None \<Rightarrow> ''idt_unknown_intr'')) [0..<256]"
    by code_simp
  then show "v < 256 \<Longrightarrow> v \<noteq> 0x80 \<Longrightarrow> vector_entry v = (case map_of (intel_gates @ hardware_gates) v of Some h \<Rightarrow> h | None \<Rightarrow> ''idt_unknown_intr'')"
    by (auto simp: list_all_iff)
qed

lemma system_call_vector: "vector_entry 0x80 = ''system_call''"
  by code_simp

lemma gate_of_macro:
  "decode_gate (idt_desc_bits (SET_INTR_GATE d h)) = Some (Interrupt 0x10 h 0)"
  "decode_gate (idt_desc_bits (SET_SYSTEM_GATE d h)) = Some (Trap 0x10 h 3)"
  by (simp_all add: gate_decodes [of _ h] SET_INTR_GATE_def SET_SYSTEM_GATE_def)

lemma setup_idt_table:
  assumes "length (idt s) = 256"
  shows "\<exists>t. setup_idt symbol s = Some (s\<lparr>idt := t\<rparr>) \<and> length t = 256 \<and>
    (\<forall>v < 256. \<exists>d. t ! v = (if v = 0x80 then SET_SYSTEM_GATE d (symbol (vector_entry v))
       else SET_INTR_GATE d (symbol (vector_entry v))))"
proof -
  let ?h = "symbol ''idt_unknown_intr''"
  let ?t0 = "map (\<lambda>i. SET_INTR_GATE (idt s ! i) ?h) [0..<256]"
  have 0: "for_range 0 NUM_VEC (set_gate SET_INTR_GATE ?h) (idt s) = Some ?t0"
    using map_loop [OF assms, of "\<lambda>_ d. SET_INTR_GATE d ?h"] by (simp add: NUM_VEC_def set_gate_def [abs_def])
  have gs: "distinct (map fst intel_gates)" "distinct (map fst hardware_gates)"
    "\<forall>g \<in> set intel_gates. fst g < 256" "\<forall>g \<in> set hardware_gates. fst g < 256"
    by (simp_all add: intel_gates_def hardware_gates_def)
  obtain t1 where t1: "fold_opt (\<lambda>(i, h). set_gate SET_INTR_GATE (symbol h) i) intel_gates ?t0 = Some t1"
    "length t1 = 256" "\<And>i. i < 256 \<Longrightarrow> t1 ! i =
      (case map_of intel_gates i of Some h \<Rightarrow> SET_INTR_GATE (?t0 ! i) (symbol h) | None \<Rightarrow> ?t0 ! i)"
    using gates_set [of intel_gates ?t0 SET_INTR_GATE symbol] gs by auto
  let ?t2 = "t1[0x80 := SET_SYSTEM_GATE (t1 ! 0x80) (symbol ''system_call'')]"
  obtain t3 where t3: "fold_opt (\<lambda>(i, h). set_gate SET_INTR_GATE (symbol h) i) hardware_gates ?t2 = Some t3"
    "length t3 = 256" "\<And>i. i < 256 \<Longrightarrow> t3 ! i =
      (case map_of hardware_gates i of Some h \<Rightarrow> SET_INTR_GATE (?t2 ! i) (symbol h) | None \<Rightarrow> ?t2 ! i)"
    using gates_set [of hardware_gates ?t2 SET_INTR_GATE symbol] gs t1(2) by auto
  have m: "map_of intel_gates i = None \<or> map_of hardware_gates i = None" "map_of hardware_gates 0x80 = None" for i
    by (simp_all add: intel_gates_def hardware_gates_def)
  have "\<exists>d. t3 ! v = (if v = 0x80 then SET_SYSTEM_GATE d (symbol (vector_entry v))
       else SET_INTR_GATE d (symbol (vector_entry v)))" if v: "v < 256" for v
  proof (cases "v = 0x80")
    case True
    then show ?thesis using t3(3) [OF v] m(2) t1(2) system_call_vector by auto
  next
    case False
    then show ?thesis using t3(3) [OF v] t1(3) [OF v] v m(1) [of v]
      by (auto simp: gates_by_vector map_add_def split: option.splits)
  qed
  moreover have "setup_idt symbol s = Some (s\<lparr>idt := t3\<rparr>)"
    using 0 t1(1,2) t3(1) by (simp add: setup_idt_def set_gate_in)
  ultimately show ?thesis using t3(2) by blast
qed

text \<open>C18. Whatever the table held, after \<^verbatim>\<open>entry\<close> has filled it the processor finds a gate in each of the
  256 vectors: the system call at 0x80, the one trap gate and the only gate that user code may call; elsewhere an
  interrupt gate to the entry of the exception that the manual has at that vector, of the timer, the keyboard or the clock,
  or of unknown interrupts.\<close>

theorem idt_vectors:
  assumes "length (idt s) = 256"
  shows "\<exists>t. setup_idt symbol s = Some (s\<lparr>idt := t\<rparr>) \<and> map (decode_gate \<circ> idt_desc_bits) t =
    map (\<lambda>v. Some (if v = 0x80 then Trap 0x10 (symbol (vector_entry v)) 3 else Interrupt 0x10 (symbol (vector_entry v)) 0))
      [0..<256]"
proof -
  obtain t where t: "setup_idt symbol s = Some (s\<lparr>idt := t\<rparr>)" "length t = 256"
    "\<And>v. v < 256 \<Longrightarrow> \<exists>d. t ! v = (if v = 0x80 then SET_SYSTEM_GATE d (symbol (vector_entry v))
       else SET_INTR_GATE d (symbol (vector_entry v)))"
    using setup_idt_table [OF assms, of symbol] by blast
  have "decode_gate (idt_desc_bits (t ! v)) =
      Some (if v = 0x80 then Trap 0x10 (symbol (vector_entry v)) 3 else Interrupt 0x10 (symbol (vector_entry v)) 0)"
    if "v < 256" for v
    using t(3) [OF that] by (auto simp: gate_of_macro)
  then show ?thesis using t(1,2) by (auto simp: list_eq_iff_nth_eq)
qed

definition boot_demo :: boot where
  "boot_demo = kbd.extend kbd_demo (boot.fields (replicate 256 idt_desc_0) seg_desc_0 seg_desc_0 0 0)"

theorem idt_vectors_witness:
  "\<exists>t. setup_idt (\<lambda>n. of_nat (length n)) boot_demo = Some (boot_demo\<lparr>idt := t\<rparr>) \<and>
     map (decode_gate \<circ> idt_desc_bits) t ! 33 = Some (Interrupt 0x10 12 0) \<and>
     map (decode_gate \<circ> idt_desc_bits) t ! 0x80 = Some (Trap 0x10 11 3) \<and>
     map (decode_gate \<circ> idt_desc_bits) t ! 15 = Some (Interrupt 0x10 16 0)"
proof -
  have "length (idt boot_demo) = 256" by (simp add: boot_demo_def kbd.defs boot.defs)
  from idt_vectors [OF this, of "\<lambda>n. of_nat (length n)"]
  obtain t where t: "setup_idt (\<lambda>n. of_nat (length n)) boot_demo = Some (boot_demo\<lparr>idt := t\<rparr>)"
    "map (decode_gate \<circ> idt_desc_bits) t = map (\<lambda>v. Some (if v = 0x80 then Trap 0x10 (of_nat (length (vector_entry v))) 3
       else Interrupt 0x10 (of_nat (length (vector_entry v))) 0)) [0..<256]" by blast
  have "vector_entry 33 = ''idt_keyboard''" "vector_entry 0x80 = ''system_call''" "vector_entry 15 = ''idt_unknown_intr''"
    by code_simp+
  then show ?thesis by (intro exI [of _ t] conjI t(1)) (simp_all add: t(2))
qed

section \<open>The modules\<close>

definition module_text :: "memory \<Rightarrow> u32 \<Rightarrow> nat \<Rightarrow> u8 list" where
  "module_text m a k = bytes_of ''Module '' @ signed_text (of_nat k) @ bytes_of '' loaded at address: 0x'' @ hex8 (mod_start m a) @ [10]
     @ bytes_of ''Module '' @ signed_text (of_nat k) @ bytes_of '' ends at address: 0x'' @ hex8 (mod_end m a) @ [10]
     @ bytes_of ''First few bytes of module:'' @ [10]
     @ concat (map (\<lambda>i. bytes_of ''0x'' @ numeral_text 16 (unat (scast (m (mod_start m a + of_nat i)) :: u32)) @ bytes_of '' '') [0..<16])
     @ [10]"

lemma print_module_types:
  assumes "screen_ok s"
  shows "\<exists>u. print_module a k s = Some u \<and> types_text (module_text (mem s) a k) s u"
proof -
  have p: "\<exists>ds n. parse_format (cline ''Module %d loaded at address: 0x%#x'') = Some (ds, n) \<and>
      render ds [IntArg v, IntArg w] = Some (bytes_of ''Module '' @ signed_text v @ bytes_of '' loaded at address: 0x'' @ hex8 w @ [10])"
    "\<exists>ds n. parse_format (cline ''Module %d ends at address: 0x%#x'') = Some (ds, n) \<and>
      render ds [IntArg v, IntArg w] = Some (bytes_of ''Module '' @ signed_text v @ bytes_of '' ends at address: 0x'' @ hex8 w @ [10])"
    "\<exists>ds n. parse_format (cline ''First few bytes of module:'') = Some (ds, n) \<and>
      render ds [] = Some (bytes_of ''First few bytes of module:'' @ [10])"
    "\<exists>ds n. parse_format (cstr ''0x%x '') = Some (ds, n) \<and>
      render ds [IntArg v] = Some (bytes_of ''0x'' @ numeral_text 16 (unat v) @ bytes_of '' '')"
    "\<exists>ds n. parse_format (cline '''') = Some (ds, n) \<and> render ds [] = Some [10]" for v w
    by (simp_all add: cline_def cstr_def bytes_of_def conv_text_def)
  note pl = print_line_types
  obtain s1 where s1: "print_line (cline ''Module %d loaded at address: 0x%#x'') [IntArg (of_nat k), IntArg (mod_start (mem s) a)] s = Some s1"
    "types_text (bytes_of ''Module '' @ signed_text (of_nat k) @ bytes_of '' loaded at address: 0x'' @ hex8 (mod_start (mem s) a) @ [10]) s s1"
    using pl [OF assms] p(1) by blast
  have m1: "mem s1 = mem s" "screen_ok s1" using types_text_mem [OF s1(2)] by auto
  obtain s2 where s2: "print_line (cline ''Module %d ends at address: 0x%#x'') [IntArg (of_nat k), IntArg (mod_end (mem s) a)] s1 = Some s2"
    "types_text (bytes_of ''Module '' @ signed_text (of_nat k) @ bytes_of '' ends at address: 0x'' @ hex8 (mod_end (mem s) a) @ [10]) s1 s2"
    using pl [OF m1(2)] p(2) by blast
  have m2: "mem s2 = mem s" "screen_ok s2" using types_text_mem [OF s2(2)] m1 by auto
  obtain s3 where s3: "print_line (cline ''First few bytes of module:'') [] s2 = Some s3"
    "types_text (bytes_of ''First few bytes of module:'' @ [10]) s2 s3"
    using pl [OF m2(2)] p(3) by blast
  have m3: "mem s3 = mem s" "screen_ok s3" using types_text_mem [OF s3(2)] m2 by auto
  let ?f = "\<lambda>i s. print_line (cstr ''0x%x '') [IntArg (scast (mem s (mod_start (mem s) a + of_nat i)))] s"
  let ?t = "\<lambda>i. bytes_of ''0x'' @ numeral_text 16 (unat (scast (mem s (mod_start (mem s) a + of_nat i)) :: u32)) @ bytes_of '' ''"
  have "\<exists>u. ?f i v = Some u \<and> types_text (?t i) v u" if "mem v = mem s3" "screen_ok v" for i v
    using pl [OF that(2)] p(4) that(1) m3(1) by metis
  then have "\<exists>u. for_range 0 16 ?f s3 = Some u \<and> types_text (concat (map ?t [0..<16])) s3 u"
    by (intro types_text_loop [OF m3(2)])
  then obtain s4 where s4: "for_range 0 16 ?f s3 = Some s4" "types_text (concat (map ?t [0..<16])) s3 s4" by blast
  obtain s5 where s5: "print_line (cline '''') [] s4 = Some s5" "types_text [10] s4 s5"
    using pl types_text_mem [OF s4(2)] p(5) by metis
  have "print_module a k s = Some s5"
    using s1(1) s2(1) s3(1) s4(1) s5(1) m1(1) by (simp add: print_module_def)
  moreover have "types_text (module_text (mem s) a k) s s5"
    using types_text_trans [OF s1(2) types_text_trans [OF s2(2) types_text_trans [OF s3(2) types_text_trans [OF s4(2) s5(2)]]]]
    by (simp add: module_text_def)
  ultimately show ?thesis by blast
qed

text \<open>The report on the modules does not fault, and for each of the modules that the boot loader counts it
  shows the addresses and first bytes of the first one: only the number in the text advances.\<close>

theorem modules_report_first:
  assumes "screen_ok s"
  shows "\<exists>u. for_range 0 n (print_module a) s = Some u \<and> types_text (concat (map (module_text (mem s) a) [0..<n])) s u"
  by (rule types_text_loop [OF assms]) (metis print_module_types)

section \<open>The memory map\<close>

text \<open>The entries of the map from an address up to the end, each found from the size of the one before.\<close>

inductive mmap_chain :: "memory \<Rightarrow> u32 \<Rightarrow> u32 \<Rightarrow> u32 list \<Rightarrow> bool" for m stop where
  at_stop: "\<not> a < stop \<Longrightarrow> mmap_chain m stop a []"
| entry: "a < stop \<Longrightarrow> mmap_chain m stop (a + mmap_size m a + 4) es \<Longrightarrow> mmap_chain m stop a (a # es)"

definition mmap_text :: "memory \<Rightarrow> u32 \<Rightarrow> u8 list" where
  "mmap_text m a = bytes_of '' size = 0x'' @ numeral_text 16 (unat (mmap_size m a)) @ bytes_of '',     base_addr = 0x''
     @ hex8 (mmap_base_addr_high m a) @ hex8 (mmap_base_addr_low m a) @ [10] @ bytes_of ''     type = 0x''
     @ numeral_text 16 (unat (mmap_type m a)) @ bytes_of '',  length    = 0x'' @ hex8 (mmap_length_high m a)
     @ hex8 (mmap_length_low m a) @ [10]"

definition print_mmap_entry :: "u32 \<Rightarrow> 'a console_scheme \<Rightarrow> 'a console_scheme option" where
  "print_mmap_entry a s = print_line (bytes_of '' size = 0x%x,     base_addr = 0x%#x%#x'' @ [10] @
       cline ''     type = 0x%x,  length    = 0x%#x%#x'')
     [IntArg (mmap_size (mem s) a), IntArg (mmap_base_addr_high (mem s) a), IntArg (mmap_base_addr_low (mem s) a),
      IntArg (mmap_type (mem s) a), IntArg (mmap_length_high (mem s) a), IntArg (mmap_length_low (mem s) a)] s"

lemma print_mmap_unfold:
  "print_mmap a mbi s = (if a < mbi_mmap_addr (mem s) mbi + mbi_mmap_length (mem s) mbi
     then do { s \<leftarrow> print_mmap_entry a s; print_mmap (a + mmap_size (mem s) a + 4) mbi s } else Some s)"
  unfolding print_mmap_entry_def by (rule print_mmap.simps)

lemma print_mmap_entry_types:
  assumes "screen_ok s"
  shows "\<exists>u. print_mmap_entry a s = Some u \<and> types_text (mmap_text (mem s) a) s u"
proof -
  have "\<exists>ds n. parse_format (bytes_of '' size = 0x%x,     base_addr = 0x%#x%#x'' @ [10] @
        cline ''     type = 0x%x,  length    = 0x%#x%#x'') = Some (ds, n) \<and>
      render ds [IntArg (mmap_size m a), IntArg (mmap_base_addr_high m a), IntArg (mmap_base_addr_low m a),
        IntArg (mmap_type m a), IntArg (mmap_length_high m a), IntArg (mmap_length_low m a)] = Some (mmap_text m a)" for m
    by (simp add: cline_def bytes_of_def conv_text_def mmap_text_def)
  then show ?thesis unfolding print_mmap_entry_def using print_line_types [OF assms] by blast
qed

lemma print_mmap_chain:
  assumes "mmap_chain m stop a es" and "stop = mbi_mmap_addr m mbi + mbi_mmap_length m mbi" and "screen_ok s" and "mem s = m"
  shows "\<exists>u. print_mmap a mbi s = Some u \<and> types_text (concat (map (mmap_text m) es)) s u"
  using assms
proof (induction arbitrary: s)
  case (at_stop a)
  then show ?case by (simp add: print_mmap_unfold types_text_refl)
next
  case (entry a es)
  obtain v where v: "print_mmap_entry a s = Some v" "types_text (mmap_text (mem s) a) s v"
    using print_mmap_entry_types entry.prems(2) by blast
  have "mem v = m" "screen_ok v" using types_text_mem [OF v(2)] entry.prems(3) by auto
  then obtain u where u: "print_mmap (a + mmap_size m a + 4) mbi v = Some u" "types_text (concat (map (mmap_text m) es)) v u"
    using entry.IH entry.prems(1) by blast
  have "print_mmap a mbi s = Some u"
    using v(1) u(1) entry.hyps entry.prems \<open>mem v = m\<close> by (subst print_mmap_unfold) simp
  then show ?case using types_text_trans [OF v(2) u(2)] entry.prems(3) by auto
qed

lemma print_mmap_returns:
  fixes s :: "'a console_scheme"
  assumes "print_mmap a mbi s = Some u" and "screen_ok s"
  shows "\<exists>es. mmap_chain (mem s) (mbi_mmap_addr (mem s) mbi + mbi_mmap_length (mem s) mbi) a es"
proof -
  have "screen_ok s \<longrightarrow> (\<exists>es. mmap_chain (mem s) (mbi_mmap_addr (mem s) mbi + mbi_mmap_length (mem s) mbi) a es)"
  proof (rule print_mmap.raw_induct [OF _ assms(1)], goal_cases)
    case (1 f a mbi s y)
    note ih = 1(1) and step = 1(2) [folded print_mmap_entry_def]
    show ?case
    proof
      assume ok: "screen_ok s"
      show "\<exists>es. mmap_chain (mem s) (mbi_mmap_addr (mem s) mbi + mbi_mmap_length (mem s) mbi) a es"
      proof (cases "a < mbi_mmap_addr (mem s) mbi + mbi_mmap_length (mem s) mbi")
        case True
        obtain v where v: "print_mmap_entry a s = Some v" "types_text (mmap_text (mem s) a) s v"
          using print_mmap_entry_types [OF ok] by blast
        have m: "mem v = mem s" "screen_ok v" using types_text_mem [OF v(2)] by auto
        have "f (a + mmap_size (mem v) a + 4) mbi v = Some y" using step True v(1) by simp
        from ih [OF this] m show ?thesis using mmap_chain.entry [OF True] by auto
      qed (use mmap_chain.at_stop in blast)
    qed
  qed
  then show ?thesis using assms(2) by blast
qed

lemma mmap_circle: "mmap_chain m stop b es \<Longrightarrow> b = a \<Longrightarrow> a < stop \<Longrightarrow> a + mmap_size m a + 4 = a \<Longrightarrow> False"
  by (induction rule: mmap_chain.induct) auto

text \<open>C35. The loop over the memory map returns exactly when the sizes in the map lead to its end, and then it has shown
  each entry once, in order; for a size that leads back, such as -4, it does not return.\<close>

theorem mmap_listing_returns:
  fixes s :: "'a console_scheme"
  assumes "screen_ok s" and "stop = mbi_mmap_addr (mem s) mbi + mbi_mmap_length (mem s) mbi"
  shows "(print_mmap a mbi s \<noteq> None \<longleftrightarrow> (\<exists>es. mmap_chain (mem s) stop a es)) \<and>
    (\<forall>es. mmap_chain (mem s) stop a es \<longrightarrow>
      (\<exists>u. print_mmap a mbi s = Some u \<and> types_text (concat (map (mmap_text (mem s)) es)) s u)) \<and>
    (a < stop \<and> a + mmap_size (mem s) a + 4 = a \<longrightarrow> print_mmap a mbi s = None)"
proof -
  have r: "print_mmap a mbi s \<noteq> None \<longleftrightarrow> (\<exists>es. mmap_chain (mem s) stop a es)"
    using print_mmap_returns [OF _ assms(1), of a mbi] print_mmap_chain [OF _ refl assms(1) refl, of mbi a]
    unfolding assms(2) by blast
  moreover have "\<forall>es. mmap_chain (mem s) stop a es \<longrightarrow>
      (\<exists>u. print_mmap a mbi s = Some u \<and> types_text (concat (map (mmap_text (mem s)) es)) s u)"
    using print_mmap_chain [OF _ refl assms(1) refl, of mbi a] unfolding assms(2) by blast
  moreover have "a < stop \<and> a + mmap_size (mem s) a + 4 = a \<longrightarrow> print_mmap a mbi s = None"
    using r mmap_circle by blast
  ultimately show ?thesis by blast
qed

definition mmap_demo :: console where
  "mmap_demo = console_demo\<lparr>mem := (\<lambda>_. 0)(44 := 48, 49 := 0x10, 0x1000 := 20, 0x1018 := 20)\<rparr>"

theorem mmap_listing_returns_witness:
  "(\<exists>u. print_mmap 0x1000 0 mmap_demo = Some u \<and>
     types_text (mmap_text (mem mmap_demo) 0x1000 @ mmap_text (mem mmap_demo) 0x1018) mmap_demo u) \<and>
   print_mmap 0x1000 0 (mmap_demo\<lparr>mem := (mem mmap_demo)(0x1000 := 0xFC, 0x1001 := 0xFF, 0x1002 := 0xFF, 0x1003 := 0xFF)\<rparr>) = None"
proof -
  let ?m = "mem mmap_demo"
  let ?c = "mmap_demo\<lparr>mem := (mem mmap_demo)(0x1000 := 0xFC, 0x1001 := 0xFF, 0x1002 := 0xFF, 0x1003 := 0xFF)\<rparr>"
  have ok: "screen_ok mmap_demo" "screen_ok ?c" using console_demo_ok by (simp_all add: mmap_demo_def screen_ok_def)
  have v: "mbi_mmap_addr ?m 0 = 0x1000" "mbi_mmap_length ?m 0 = 48" "mmap_size ?m 0x1000 = 20" "mmap_size ?m 0x1018 = 20"
    "mbi_mmap_addr (mem ?c) 0 = 0x1000" "mbi_mmap_length (mem ?c) 0 = 48" "mmap_size (mem ?c) 0x1000 = 0xFFFFFFFC"
    by (simp_all add: mmap_demo_def mbi_mmap_addr_def mbi_mmap_length_def mmap_size_def ld32_def)
  have "mmap_chain ?m 0x1030 0x1030 []" by (rule mmap_chain.at_stop) simp
  then have "mmap_chain ?m 0x1030 0x1018 [0x1018]" using v by (intro mmap_chain.entry) simp_all
  then have "mmap_chain ?m 0x1030 0x1000 [0x1000, 0x1018]" using v by (intro mmap_chain.entry) simp_all
  moreover have stop: "0x1030 = mbi_mmap_addr ?m 0 + mbi_mmap_length ?m 0" using v by simp
  ultimately have "\<exists>u. print_mmap 0x1000 0 mmap_demo = Some u \<and>
      types_text (concat (map (mmap_text ?m) [0x1000, 0x1018])) mmap_demo u"
    using mmap_listing_returns [OF ok(1) stop, of "0x1000"] by blast
  moreover have "print_mmap 0x1000 0 ?c = None"
    using mmap_listing_returns [OF ok(2), of "0x1030" 0 "0x1000"] v by simp
  ultimately show ?thesis by simp
qed

theorem modules_report_first_witness:
  "\<exists>u. for_range 0 3 (print_module 0x1000) console_demo = Some u \<and>
     types_text (module_text (\<lambda>_. 0) 0x1000 0 @ module_text (\<lambda>_. 0) 0x1000 1 @ module_text (\<lambda>_. 0) 0x1000 2) console_demo u"
proof -
  have "mem console_demo = (\<lambda>_. 0)" by (simp add: console_demo_def)
  with modules_report_first [OF console_demo_ok, of 3 "0x1000"] show ?thesis by (simp add: upt_rec numeral_2_eq_2)
qed

section \<open>The start\<close>

text \<open>Started by anything but a boot loader of the expected kind, the kernel clears the screen, prints the number
  that it got, and \<^verbatim>\<open>entry\<close> returns: neither the tables nor any device have been touched.\<close>

theorem boot_rejects_magic:
  assumes "magic \<noteq> MULTIBOOT_BOOTLOADER_MAGIC" and "screen_ok s"
  shows "\<exists>u. boot_entry symbol dev header magic mbi s = Some (False, u) \<and>
    screen_of u = fold type_char (bytes_of ''Invalid magic number: 0x'' @ hex8 magic @ [10])
      (screen_x s, screen_y s, replicate 2000 blank) \<and>
    u = s\<lparr>screen_x := screen_x u, screen_y := screen_y u, video_mem := video_mem u\<rparr>"
proof -
  obtain t where t: "clear s = Some t" "page (video_mem t)" "cells_of (video_mem t) = replicate 2000 blank"
    "t = s\<lparr>video_mem := video_mem t\<rparr>"
    using clear_shows [of s] assms(2) by (auto simp: screen_ok_def)
  have xy: "screen_x t = screen_x s" "screen_y t = screen_y s" by (subst t(4), simp)+
  have ok: "screen_ok t" using assms(2) t(2) xy by (simp add: screen_ok_def)
  have p: "\<exists>ds n. parse_format (cline ''Invalid magic number: 0x%#x'') = Some (ds, n) \<and>
      render ds [IntArg magic] = Some (bytes_of ''Invalid magic number: 0x'' @ hex8 magic @ [10])"
    by (simp add: cline_def bytes_of_def conv_text_def)
  then obtain u where u: "print_line (cline ''Invalid magic number: 0x%#x'') [IntArg magic] t = Some u"
    "types_text (bytes_of ''Invalid magic number: 0x'' @ hex8 magic @ [10]) t u"
    using print_line_types [OF ok] by blast
  obtain vm where vm: "t = s\<lparr>video_mem := vm\<rparr>" using t(4) by blast
  then obtain x y p where "u = s\<lparr>screen_x := x, screen_y := y, video_mem := p\<rparr>"
    using types_text_only [OF u(2)] by auto
  then have "u = s\<lparr>screen_x := screen_x u, screen_y := screen_y u, video_mem := video_mem u\<rparr>" by simp
  then show ?thesis
    using t(1,3) u xy assms(1) by (simp add: boot_entry_def print_boot_info_def types_text_def screen_of_def)
qed

theorem boot_rejects_magic_witness:
  "\<exists>u. boot_entry (\<lambda>_. 0) (\<lambda>_ _. 0) 0 0 0 boot_demo = Some (False, u) \<and> idt u = idt boot_demo \<and> mem u = mem boot_demo \<and>
    io_trace u = io_trace boot_demo"
proof -
  have "screen_ok kbd_demo" using kbd_demo_ok by (simp add: kbd_ok_def)
  then have ok: "screen_ok boot_demo" by (simp add: screen_ok_def boot_demo_def kbd.defs)
  have "(0 :: u32) \<noteq> MULTIBOOT_BOOTLOADER_MAGIC" by (simp add: MULTIBOOT_BOOTLOADER_MAGIC_def)
  from boot_rejects_magic [OF this ok, of "\<lambda>_. 0" "\<lambda>_ _. 0" 0 0]
  obtain u where u: "boot_entry (\<lambda>_. 0) (\<lambda>_ _. 0) 0 0 0 boot_demo = Some (False, u)"
    "u = boot_demo\<lparr>screen_x := screen_x u, screen_y := screen_y u, video_mem := video_mem u\<rparr>"
    by (elim exE conjE)
  have "idt u = idt boot_demo" "mem u = mem boot_demo" "io_trace u = io_trace boot_demo" by (subst u(2), simp)+
  with u(1) show ?thesis by blast
qed

section \<open>Segments\<close>

text \<open>The table as it is once the two entries are written.\<close>

definition gdt_of :: "'a boot_scheme \<Rightarrow> u64 list" where
  "gdt_of s = gdt[6 := seg_desc_bits (tss_desc_ptr s), 7 := seg_desc_bits (ldt_desc_ptr s)]"

text \<open>What the processor finds for a selector.\<close>

definition selects :: "'a boot_scheme \<Rightarrow> u16 \<Rightarrow> segment option" where
  "selects s sel = decode_segment (gdt_of s ! unat (drop_bit 3 sel))"

text \<open>C21. The selectors that the kernel uses denote what their names say. Once \<^verbatim>\<open>entry\<close> has written the two descriptors and
  loaded the registers, the task register selects the task state segment at its address with its size, now
  busy (type 11), so that it cannot be loaded again, and the local table register the local table; the others are four flat
  segments of 4 GB, code and data for the kernel and for privilege level 3 (but for the bit of their type that the
  processor sets on the first access).\<close>

theorem segments_as_selected:
  "let u = setup_tss symbol (setup_ldt symbol s); flat = (\<lambda>sel dpl kind. \<exists>g. selects u sel = Some g \<and>
         s_base g = 0 \<and> s_limit g = 0xFFFFFFFF \<and> s_dpl g = dpl \<and> s_code_data g \<and> s_type g AND 14 = kind) in
   selects u (task_register u) = Some \<lparr>s_base = symbol ''tss'', s_limit = 103, s_dpl = 0, s_code_data = False, s_type = 11\<rparr> \<and>
   selects u (ldtr u) = Some \<lparr>s_base = symbol ''ldt'', s_limit = 31, s_dpl = 0, s_code_data = False, s_type = 2\<rparr> \<and>
   tss_ss0 (tss u) = KERNEL_DS \<and> tss_ldt_segment_selector (tss u) = ldtr u \<and>
   flat KERNEL_CS 0 10 \<and> flat KERNEL_DS 0 2 \<and> flat USER_CS 3 10 \<and> flat USER_DS 3 2"
proof -
  let ?u = "setup_tss symbol (setup_ldt symbol s)"
  have t: "decode_segment (seg_desc_bits (tss_desc_ptr ?u)) =
      Some \<lparr>s_base = symbol ''tss'', s_limit = 103, s_dpl = 0, s_code_data = False, s_type = 11\<rparr>"
    using segment_decodes [of "tss_desc_ptr ?u" 103 "symbol ''tss''"]
    by (simp add: setup_tss_def setup_ldt_def lldt_def ltr_def seg_desc_0_def SET_TSS_PARAMS_def SET_LDT_PARAMS_def tss_size_def TSS_SIZE_def Let_def)
  have l: "decode_segment (seg_desc_bits (ldt_desc_ptr ?u)) =
      Some \<lparr>s_base = symbol ''ldt'', s_limit = 31, s_dpl = 0, s_code_data = False, s_type = 2\<rparr>"
    using segment_decodes [of "ldt_desc_ptr ?u" 31 "symbol ''ldt''"]
    by (simp add: setup_tss_def setup_ldt_def lldt_def ltr_def seg_desc_0_def SET_TSS_PARAMS_def SET_LDT_PARAMS_def ldt_size_def Let_def)
  have r: "task_register ?u = 0x30" "ldtr ?u = 0x38" "tss_ss0 (tss ?u) = KERNEL_DS" "tss_ldt_segment_selector (tss ?u) = 0x38"
    by (simp_all add: setup_tss_def setup_ldt_def lldt_def ltr_def KERNEL_TSS_def KERNEL_LDT_def Let_def)
  have flat: "decode_segment 0x00CF9A000000FFFF = Some \<lparr>s_base = 0, s_limit = 0xFFFFFFFF, s_dpl = 0, s_code_data = True, s_type = 0xA\<rparr>"
    "decode_segment 0x00CF92000000FFFF = Some \<lparr>s_base = 0, s_limit = 0xFFFFFFFF, s_dpl = 0, s_code_data = True, s_type = 2\<rparr>"
    "decode_segment 0x00CFFA000000FFFF = Some \<lparr>s_base = 0, s_limit = 0xFFFFFFFF, s_dpl = 3, s_code_data = True, s_type = 0xA\<rparr>"
    "decode_segment 0x00CFF2000000FFFF = Some \<lparr>s_base = 0, s_limit = 0xFFFFFFFF, s_dpl = 3, s_code_data = True, s_type = 2\<rparr>"
    by (code_simp)+
  show ?thesis
    using t l r flat by (simp add: Let_def selects_def gdt_of_def gdt_def KERNEL_CS_def KERNEL_DS_def USER_CS_def USER_DS_def)
qed

end
