(* ===== verification/Syscalls.thy ===== *)
theory Syscalls
  imports Keyboard
begin

text \<open>
  The system calls, \<^verbatim>\<open>sys_calls_handlers.c\<close>, and the file operations of \<^verbatim>\<open>filesys.c\<close> that they call
  through a descriptor. A string argument is the list of the bytes from its address on; a buffer
  that is filled is given by its address, and the kernel's access goes through the page directory
  that \<^verbatim>\<open>cr3\<close> names. The reads of the clock and the terminal take the interrupts that arrive while
  they wait.
\<close>

unbundle bit_operations_syntax

section \<open>User memory\<close>

definition FILE_OPEN_BIT :: u32 where "FILE_OPEN_BIT = 0x1"

text \<open>The kernel's accesses to a linear address; \<^term>\<open>None\<close> is a page fault.\<close>

definition user_load :: "u32 \<Rightarrow> 'a paging_scheme \<Rightarrow> u8 option" where
  "user_load a s = do { p \<leftarrow> translate (mem s) (cr3 s) False a; Some (mem s p) }"

definition user_store :: "u32 \<Rightarrow> u8 \<Rightarrow> 'a paging_scheme \<Rightarrow> 'a paging_scheme option" where
  "user_store a v s = do { p \<leftarrow> translate (mem s) (cr3 s) False a; Some (s\<lparr>mem := (mem s)(p := v)\<rparr>) }"

fun user_loads :: "u32 \<Rightarrow> nat \<Rightarrow> 'a paging_scheme \<Rightarrow> u8 list option" where
  "user_loads a 0 s = Some []"
| "user_loads a (Suc n) s = do { c \<leftarrow> user_load a s; cs \<leftarrow> user_loads (a + 1) n s; Some (c # cs) }"

fun user_stores :: "u32 \<Rightarrow> u8 list \<Rightarrow> 'a paging_scheme \<Rightarrow> 'a paging_scheme option" where
  "user_stores a [] s = Some s"
| "user_stores a (c # cs) s = do { s \<leftarrow> user_store a c s; user_stores (a + 1) cs s }"

text \<open>The physical address of an area whose pages are contiguous there; \<^term>\<open>None\<close> also for an area
  whose pages are not, which \<^verbatim>\<open>read_data\<close> is not modelled for.\<close>

definition user_area :: "u32 \<Rightarrow> nat \<Rightarrow> 'a paging_scheme \<Rightarrow> u32 option" where
  "user_area a n s = (if n = 0 then Some 0 else do {
     p \<leftarrow> translate (mem s) (cr3 s) False a;
     (if list_all (\<lambda>i. translate (mem s) (cr3 s) False (a + of_nat i) = Some (p + of_nat i)) [0..<n]
      then Some p else None) })"

definition is_user_ptr :: "u32 \<Rightarrow> 'a kernel_scheme \<Rightarrow> int option" where
  "is_user_ptr addr s = do {
     t \<leftarrow> task_at (get_cur_task s) s;
     let task_addr = get_task_addr (u32_of (task_pid t));
     Some (if addr < task_addr \<or> addr \<ge> task_addr + SIZE_4MB_PAGE then - 1 else 0) }"

section \<open>Files and directories\<close>

text \<open>The descriptor \<^verbatim>\<open>fd\<close> of the running task.\<close>

definition cur_file :: "int \<Rightarrow> 'a kernel_scheme \<Rightarrow> file_t option" where
  "cur_file fd s = do { t \<leftarrow> task_at (get_cur_task s) s; rdi (task_files t) fd }"

definition set_cur_file :: "int \<Rightarrow> file_t \<Rightarrow> 'a kernel_scheme \<Rightarrow> 'a kernel_scheme option" where
  "set_cur_file fd f s = do {
     t \<leftarrow> task_at (get_cur_task s) s;
     files \<leftarrow> wri (task_files t) fd f;
     set_task (get_cur_task s) (t\<lparr>task_files := files\<rparr>) s }"

definition directory_open :: int where "directory_open = 0"
definition directory_close :: int where "directory_close = 0"
definition directory_write :: int where "directory_write = - 1"
definition file_open :: int where "file_open = 0"
definition file_close :: int where "file_close = 0"
definition file_write :: int where "file_write = - 1"

text \<open>The copy of a name up to its first NUL; the result is the number of bytes copied.\<close>

function dentry_copy :: "u32 \<Rightarrow> u32 \<Rightarrow> nat \<Rightarrow> 'a paging_scheme \<Rightarrow> (nat \<times> 'a paging_scheme) option" where
  "dentry_copy tempbuf targetbuf i s =
     (if mem s (tempbuf + of_nat i) \<noteq> 0 \<and> i < 32 then do {
        s \<leftarrow> user_store (targetbuf + of_nat i) (mem s (tempbuf + of_nat i)) s;
        dentry_copy tempbuf targetbuf (Suc i) s }
      else Some (i, s))"
  by pat_completeness auto
termination by (relation "measure (\<lambda>(tempbuf, targetbuf, i, s). 32 - i)") auto

declare dentry_copy.simps [simp del]

definition directory_read :: "int \<Rightarrow> u32 \<Rightarrow> int \<Rightarrow> 'a kernel_scheme \<Rightarrow> (int \<times> 'a kernel_scheme) option" where
  "directory_read fd buf nbytes s =
     (if fd < 0 \<or> fd > 7 then Some (- 1, s)
      else if get_cur_task s = 0 then Some (- 1, s)
      else do {
        f \<leftarrow> cur_file fd s;
        (if f_offset f > fs_num_inodes (mem s) (file_sys s) then Some (0, s)
         else do {
           (i, s) \<leftarrow> dentry_copy (fs_dentry (file_sys s) (f_offset f)) buf 0 s;
           f \<leftarrow> cur_file fd s;
           s \<leftarrow> set_cur_file fd (f\<lparr>f_offset := f_offset f + 1\<rparr>) s;
           Some (int i, s) }) })"

definition file_read :: "int \<Rightarrow> u32 \<Rightarrow> int \<Rightarrow> 'a kernel_scheme \<Rightarrow> (int \<times> 'a kernel_scheme) option" where
  "file_read fd buf nbytes s =
     (if fd < 0 \<or> fd > 7 then Some (- 1, s)
      else if get_cur_task s = 0 then Some (- 1, s)
      else do {
        f \<leftarrow> cur_file fd s;
        (if f_inode f = 0 then None
         else
           let flen = inode_len (mem s) (f_inode f)
           in if f_offset f \<ge> flen then Some (0, s)
              else do {
                let n = (if u32_of nbytes > flen then flen else u32_of nbytes);
                p \<leftarrow> user_area buf (unat n) s;
                let (r, s) = read_data (inode_num (f_dentry f)) (f_offset f) p n s;
                s \<leftarrow> (if r \<noteq> - 1 then set_cur_file fd (f\<lparr>f_offset := f_offset f + u32_of nbytes\<rparr>) s else Some s);
                Some (r, s) }) })"

section \<open>Open and close\<close>

text \<open>The search for a free descriptor: \<^term>\<open>Some None\<close> when all are in use.\<close>

function free_fd :: "file_t list \<Rightarrow> nat \<Rightarrow> nat option option" where
  "free_fd files i = (case rd files i of
       None \<Rightarrow> None
     | Some f \<Rightarrow> (if f_flags f AND FILE_OPEN_BIT \<noteq> 0 \<and> i < 8
         then (if i = 7 then Some None else free_fd files (Suc i))
         else Some (Some i)))"
  by pat_completeness auto
termination by (relation "measure (\<lambda>(files, i). length files - i)") (auto simp: rd_def split: if_splits)

declare free_fd.simps [simp del]

text \<open>The copy of a file name into the local array \<^verbatim>\<open>fname\<close>.\<close>

fun copy_name :: "u8 list \<Rightarrow> nat \<Rightarrow> u8 list \<Rightarrow> u8 list option" where
  "copy_name [] i fname = None"
| "copy_name (c # filename) i fname =
     (if c = 0 then Some fname
      else do { fname \<leftarrow> wr fname i c; copy_name filename (Suc i) fname })"

definition fops_open :: "device \<Rightarrow> fops \<Rightarrow> 'a kernel_scheme \<Rightarrow> (int \<times> 'a kernel_scheme) option" where
  "fops_open dev ops s = (case ops of
       RtcFops \<Rightarrow> rtc_open dev s
     | DirFops \<Rightarrow> Some (directory_open, s)
     | FileFops \<Rightarrow> Some (file_open, s)
     | TermFops \<Rightarrow> terminal_open [] s)"

definition fops_close :: "device \<Rightarrow> fops \<Rightarrow> int \<Rightarrow> 'a kernel_scheme \<Rightarrow> (int \<times> 'a kernel_scheme) option" where
  "fops_close dev ops fd s = (case ops of
       RtcFops \<Rightarrow> rtc_close dev s
     | DirFops \<Rightarrow> Some (directory_close, s)
     | FileFops \<Rightarrow> Some (file_close, s)
     | TermFops \<Rightarrow> Some (terminal_close fd, s))"

definition type_fops :: "u32 \<Rightarrow> fops option" where
  "type_fops ty = (if ty = 0 then Some RtcFops else if ty = 1 then Some DirFops
     else if ty = 2 then Some FileFops else None)"

definition do_open :: "device \<Rightarrow> u8 list \<Rightarrow> 'a kernel_scheme \<Rightarrow> (int \<times> 'a kernel_scheme) option" where
  "do_open dev filename s = do {
     fname \<leftarrow> copy_name filename 0 (replicate 32 0);
     (r, dentry) \<leftarrow> read_dentry_by_name fname blank_dentry s;
     (if r < 0 then Some (- 1, s)
      else if get_cur_task s = 0 then Some (- 1, s)
      else do {
        t \<leftarrow> task_at (get_cur_task s) s;
        slot \<leftarrow> free_fd (task_files t) 2;
        (case slot of
           None \<Rightarrow> Some (- 1, s)
         | Some i \<Rightarrow>
             (case type_fops (file_type dentry) of
                None \<Rightarrow> Some (- 1, s)
              | Some ops \<Rightarrow> do {
                  f \<leftarrow> cur_file (int i) s;
                  let f = f\<lparr>f_flags := push_bit (unat (file_type dentry)) 1 OR FILE_OPEN_BIT, f_fops := Some ops,
                            f_dentry := dentry, f_inode := get_inode (inode_num dentry) s, f_offset := 0\<rparr>;
                  s \<leftarrow> set_cur_file (int i) f s;
                  (r, s) \<leftarrow> fops_open dev ops s;
                  Some (if r < 0 then - 1 else int i, s) })) }) }"

definition do_close :: "device \<Rightarrow> int \<Rightarrow> 'a kernel_scheme \<Rightarrow> (int \<times> 'a kernel_scheme) option" where
  "do_close dev fd s =
     (if get_cur_task s = 0 \<or> fd < 2 \<or> fd > 7 then Some (- 1, s)
      else do {
        f \<leftarrow> cur_file fd s;
        (if f_flags f AND FILE_OPEN_BIT \<noteq> 1 then Some (- 1, s)
         else do {
           ops \<leftarrow> f_fops f;
           (_, s) \<leftarrow> fops_close dev ops fd s;
           f \<leftarrow> cur_file fd s;
           s \<leftarrow> set_cur_file fd (f\<lparr>f_flags := 0, f_inode := 0, f_offset := 0, f_fops := None\<rparr>) s;
           Some (0, s) }) })"

section \<open>Arguments and the screen\<close>

text \<open>The length of the arguments, as far as \<^verbatim>\<open>nbytes\<close> counts it.\<close>

function args_size :: "u8 list \<Rightarrow> int \<Rightarrow> nat \<Rightarrow> nat option" where
  "args_size args nbytes i = (case rd args i of
       None \<Rightarrow> None
     | Some c \<Rightarrow> (if c \<noteq> 0 \<and> int i < nbytes then args_size args nbytes (Suc i) else Some i))"
  by pat_completeness auto
termination by (relation "measure (\<lambda>(args, nbytes, i). length args - i)") (auto simp: rd_def split: if_splits)

declare args_size.simps [simp del]

definition do_getargs :: "u32 \<Rightarrow> int \<Rightarrow> 'a kernel_scheme \<Rightarrow> (int \<times> 'a kernel_scheme) option" where
  "do_getargs buf nbytes s = do {
     user \<leftarrow> is_user_ptr buf s;
     (if user = 0 then Some (- 1, s)
      else if get_cur_task s = 0 \<or> buf = 0 then Some (- 1, s)
      else do {
        t \<leftarrow> task_at (get_cur_task s) s;
        size \<leftarrow> args_size (task_args t) nbytes 0;
        (if int size = nbytes - 1 then Some (- 1, s)
         else do {
           s \<leftarrow> user_stores buf (take (Suc size) (task_args t)) s;
           Some (0, s) }) }) }"

definition do_vidmap :: "u32 \<Rightarrow> 'a kernel_scheme \<Rightarrow> (int \<times> 'a kernel_scheme) option" where
  "do_vidmap screen_start s = do {
     user \<leftarrow> is_user_ptr screen_start s;
     (if user = 0 then Some (- 1, s)
      else do {
        let a = VIRTUAL_VID_MEM + VIDEO;
        s \<leftarrow> user_stores screen_start [ucast a, ucast (drop_bit 8 a), ucast (drop_bit 16 a), ucast (drop_bit 24 a)] s;
        Some (0, s) }) }"

definition do_set_handler :: "int \<Rightarrow> u32 \<Rightarrow> int" where
  "do_set_handler signum handler_address = - 1"

definition do_sigreturn :: int where
  "do_sigreturn = - 1"

section \<open>Reading and writing\<close>

text \<open>A terminal is read into a list first, long enough for every value of the byte that
  \<^verbatim>\<open>keyboard_wait_for_new_line\<close> returns; the bytes that were stored are put at the user's address.\<close>

definition terminal_read_to ::
  "('a kbd_scheme \<Rightarrow> 'a kbd_scheme option) list \<Rightarrow> int \<Rightarrow> u32 \<Rightarrow> int \<Rightarrow> 'a kbd_scheme \<Rightarrow> (int \<times> 'a kbd_scheme) option" where
  "terminal_read_to intrs fd buf nbytes s =
     (if buf = 0 then Some (- 1, s)
      else do {
        (r, output, s) \<leftarrow> terminal_read intrs fd (Some (replicate 255 0)) nbytes s;
        output \<leftarrow> output;
        s \<leftarrow> user_stores buf (take (nat r) output) s;
        Some (r, s) })"

definition fops_read ::
  "('a kbd_scheme \<Rightarrow> 'a kbd_scheme) list \<Rightarrow> ('a kbd_scheme \<Rightarrow> 'a kbd_scheme option) list \<Rightarrow>
   fops \<Rightarrow> int \<Rightarrow> u32 \<Rightarrow> int \<Rightarrow> 'a kbd_scheme \<Rightarrow> (int \<times> 'a kbd_scheme) option" where
  "fops_read ticks intrs ops fd buf nbytes s = (case ops of
       RtcFops \<Rightarrow> rtc_read ticks s
     | DirFops \<Rightarrow> directory_read fd buf nbytes s
     | FileFops \<Rightarrow> file_read fd buf nbytes s
     | TermFops \<Rightarrow> terminal_read_to intrs fd buf nbytes s)"

definition fops_write :: "device \<Rightarrow> fops \<Rightarrow> int \<Rightarrow> u32 \<Rightarrow> int \<Rightarrow> 'a kernel_scheme \<Rightarrow> (int \<times> 'a kernel_scheme) option" where
  "fops_write dev ops fd buf nbytes s = (case ops of
       RtcFops \<Rightarrow> do { p \<leftarrow> user_area buf 4 s; rtc_write dev p nbytes s }
     | DirFops \<Rightarrow> Some (directory_write, s)
     | FileFops \<Rightarrow> Some (file_write, s)
     | TermFops \<Rightarrow> (if buf = 0 then terminal_write fd None nbytes s
         else do { string \<leftarrow> user_loads buf (nat nbytes) s; terminal_write fd (Some string) nbytes s }))"

definition do_read ::
  "('a kbd_scheme \<Rightarrow> 'a kbd_scheme) list \<Rightarrow> ('a kbd_scheme \<Rightarrow> 'a kbd_scheme option) list \<Rightarrow>
   int \<Rightarrow> u32 \<Rightarrow> int \<Rightarrow> 'a kbd_scheme \<Rightarrow> (int \<times> 'a kbd_scheme) option" where
  "do_read ticks intrs fd buf nbytes s = do {
     user \<leftarrow> is_user_ptr buf s;
     (if user = 0 \<or> fd < 0 \<or> fd > 7 then Some (- 1, s)
      else do {
        f \<leftarrow> cur_file fd s;
        (if f_flags f AND FILE_OPEN_BIT = 0 then Some (- 1, s)
         else do { ops \<leftarrow> f_fops f; fops_read ticks intrs ops fd buf nbytes s }) }) }"

definition do_write :: "device \<Rightarrow> int \<Rightarrow> u32 \<Rightarrow> int \<Rightarrow> 'a kernel_scheme \<Rightarrow> (int \<times> 'a kernel_scheme) option" where
  "do_write dev fd buf nbytes s = do {
     user \<leftarrow> is_user_ptr buf s;
     (if user = 0 \<or> fd < 0 \<or> fd > 7 then Some (- 1, s)
      else do {
        f \<leftarrow> cur_file fd s;
        (if f_flags f AND FILE_OPEN_BIT = 0 then Some (- 1, s)
         else do { ops \<leftarrow> f_fops f; fops_write dev ops fd buf nbytes s }) }) }"

section \<open>Execute and halt\<close>

text \<open>The loop of \<^verbatim>\<open>do_execute\<close> that takes the command apart. The indices are bytes; the two into the
  local arrays do not wrap, since an index that was stored at is below 128.\<close>

record parser =
  cmd_index :: nat
  arg_index :: nat
  name_index :: nat
  got_name :: bool
  args_buffer :: "u8 list"
  name_buffer :: "u8 list"

function skip_spaces :: "u8 list \<Rightarrow> nat \<Rightarrow> nat option" where
  "skip_spaces command i = (case rd command i of
       None \<Rightarrow> None
     | Some c \<Rightarrow> (if c = chr CHR '' '' then skip_spaces command (Suc i) else Some i))"
  by pat_completeness auto
termination by (relation "measure (\<lambda>(command, i). length command - i)") (auto simp: rd_def split: if_splits)

declare skip_spaces.simps [simp del]

definition put_arg :: "u8 \<Rightarrow> parser \<Rightarrow> parser option" where
  "put_arg c p = do {
     a \<leftarrow> wr (args_buffer p) (arg_index p) c;
     Some (p\<lparr>args_buffer := a, arg_index := Suc (arg_index p)\<rparr>) }"

definition put_name :: "u8 \<Rightarrow> parser \<Rightarrow> parser option" where
  "put_name c p = do {
     a \<leftarrow> wr (name_buffer p) (name_index p) c;
     Some (p\<lparr>name_buffer := a, name_index := Suc (name_index p)\<rparr>) }"

definition parse_step :: "u8 list \<Rightarrow> parser \<Rightarrow> parser option" where
  "parse_step command p = do {
     i \<leftarrow> skip_spaces command (cmd_index p);
     p \<leftarrow> (if i \<noteq> cmd_index p then do {
              p \<leftarrow> (if got_name p then put_arg (chr CHR '' '') p
                   else put_name 0 (p\<lparr>got_name := True\<rparr>));
              Some (p\<lparr>cmd_index := i mod 256\<rparr>) }
            else Some p);
     c \<leftarrow> rd command (cmd_index p);
     p \<leftarrow> (if got_name p then put_arg c p else put_name c p);
     Some (p\<lparr>cmd_index := (cmd_index p + 1) mod 256\<rparr>) }"

definition parser_room :: "parser \<Rightarrow> nat" where
  "parser_room p = (length (args_buffer p) - arg_index p) + (length (name_buffer p) - name_index p)"

lemma put_room: "put_arg c p = Some q \<Longrightarrow> parser_room q < parser_room p"
    "put_name c p = Some q \<Longrightarrow> parser_room q < parser_room p"
  by (auto simp: put_arg_def put_name_def parser_room_def wr_def bind_eq_Some_conv split: if_splits)

lemma parser_room_flags [simp]: "parser_room (p\<lparr>cmd_index := i\<rparr>) = parser_room p"
    "parser_room (p\<lparr>got_name := b\<rparr>) = parser_room p"
  by (simp_all add: parser_room_def)

lemma parse_step_room: "parse_step command p = Some q \<Longrightarrow> parser_room q < parser_room p"
  by (auto simp: parse_step_def bind_eq_Some_conv split: if_splits dest!: put_room)

function parse_loop :: "u8 list \<Rightarrow> parser \<Rightarrow> parser option" where
  "parse_loop command p = (case rd command (cmd_index p) of
       None \<Rightarrow> None
     | Some c \<Rightarrow> (if c \<noteq> 0 \<and> c \<noteq> 10
         then (case parse_step command p of None \<Rightarrow> None | Some q \<Rightarrow> parse_loop command q)
         else Some p))"
  by pat_completeness auto
termination by (relation "measure (\<lambda>(command, p). parser_room p)") (auto dest: parse_step_room)

declare parse_loop.simps [simp del]

text \<open>The name of the program and its arguments; \<^term>\<open>buf1\<close> and \<^term>\<open>buf2\<close> are what the local arrays
  hold before.\<close>

definition parse_command :: "u8 list \<Rightarrow> u8 list \<Rightarrow> u8 list \<Rightarrow> (u8 list \<times> u8 list) option" where
  "parse_command buf1 buf2 command = do {
     p \<leftarrow> parse_loop command \<lparr>cmd_index = 0, arg_index = 0, name_index = 0, got_name = False,
            args_buffer = buf1, name_buffer = buf2\<rparr>;
     a \<leftarrow> wr (args_buffer p) (arg_index p) 0;
     n \<leftarrow> for_range (name_index p) 32 (\<lambda>i n. wr n i 0) (name_buffer p);
     Some (n, a) }"

text \<open>What a call leaves behind: a value for the caller, or the frame of a task that starts to run.\<close>

datatype outcome = Returns int | Enters iret_frame

definition do_execute ::
  "u8 list \<Rightarrow> u8 list \<Rightarrow> u32 \<Rightarrow> u32 \<Rightarrow> u32 \<Rightarrow> u32 \<Rightarrow> u8 list option \<Rightarrow> 'a kernel_scheme \<Rightarrow>
   (outcome \<times> 'a kernel_scheme) option" where
  "do_execute buf1 buf2 header halt_addr esp ebp command s = (case command of
       None \<Rightarrow> Some (Returns (- 1), s)
     | Some command \<Rightarrow> do {
         (name, args) \<leftarrow> parse_command buf1 buf2 command;
         (pid, s) \<leftarrow> create_task header name args s;
         (if pid < 0 then Some (Returns (- 1), s)
          else do {
            (frame, s) \<leftarrow> execute_task_enter halt_addr esp ebp pid s;
            Some (Enters frame, s) }) })"

text \<open>A halting shell of a terminal is restarted; any other task returns to the \<^verbatim>\<open>execute_task\<close> that
  started it, with the status in the register.\<close>

definition do_halt :: "u8 \<Rightarrow> 'a kernel_scheme \<Rightarrow> (outcome \<times> 'a kernel_scheme) option" where
  "do_halt status s = do {
     let (x, y) = get_cursor_pos s;
     s \<leftarrow> (if x > 0 then do { (_, s) \<leftarrow> terminal_write 1 (Some [10]) 1 s; Some s } else Some s);
     let cur = get_cur_task s;
     t \<leftarrow> task_at cur s;
     (if task_pid t = 1 \<or> task_pid t = 2 \<or> task_pid t = 3 then do {
        let t = t\<lparr>task_tss := (task_tss t)\<lparr>tss_eip := ret_eip t, tss_eflags := ret_eflags t, tss_esp := ret_esp t\<rparr>\<rparr>;
        s \<leftarrow> set_task cur t s;
        (_, s) \<leftarrow> load_tss cur s;
        Some (Enters \<lparr>fr_ss = USER_DS, fr_esp = ret_esp t, fr_eflags = ret_eflags t, fr_cs = USER_CS,
                      fr_eip = ret_eip t\<rparr>, s) }
      else do {
        (ret, s) \<leftarrow> execute_task_return status s;
        Some (Returns ret, s) }) }"

section \<open>The command line\<close>

text \<open>The reference: the name is what comes before the first space, and the arguments are the rest with
  its leading spaces left out and every run of spaces made one.\<close>

function squeeze :: "u8 list \<Rightarrow> u8 list" where
  "squeeze [] = []"
| "squeeze (c # cs) = (if c = 32 then 32 # squeeze (dropWhile (\<lambda>c. c = 32) cs) else c # squeeze cs)"
  by pat_completeness auto
termination by (relation "measure length") (auto simp: le_imp_less_Suc length_dropWhile_le)

definition command_name :: "u8 list \<Rightarrow> u8 list" where
  "command_name cs = takeWhile (\<lambda>c. c \<noteq> 32) cs"

definition command_args :: "u8 list \<Rightarrow> u8 list" where
  "command_args cs = squeeze (dropWhile (\<lambda>c. c = 32) (dropWhile (\<lambda>c. c \<noteq> 32) cs))"

lemma drop_at:
  assumes "drop i xs = y # ys"
  shows "i < length xs" "rd xs i = Some y" "drop (Suc i) xs = ys"
proof -
  show i: "i < length xs" using assms by (cases "i < length xs") simp_all
  then have "drop i xs = xs ! i # drop (Suc i) xs" by (simp add: Cons_nth_drop_Suc)
  then show "rd xs i = Some y" "drop (Suc i) xs = ys" using assms i by (simp_all add: rd_def)
qed

lemma skip_spaces_run:
  assumes "drop i cmd = replicate k 32 @ c # rest" and "c \<noteq> 32"
  shows "skip_spaces cmd i = Some (i + k)"
  using assms
proof (induction k arbitrary: i)
  case 0
  then have "rd cmd i = Some c" by (intro drop_at(2)) simp
  then show ?case using 0 by (subst skip_spaces.simps) simp
next
  case (Suc k)
  have d: "drop i cmd = 32 # replicate k 32 @ c # rest" using Suc.prems(1) by simp
  from Suc.IH [OF drop_at(3) [OF d] Suc.prems(2)] show ?case
    using drop_at(2) [OF d] by (subst skip_spaces.simps) simp
qed

text \<open>A step that reads a byte, after the spaces before it.\<close>

lemma put_in:
  "arg_index p < length (args_buffer p) \<Longrightarrow>
   put_arg c p = Some (p\<lparr>args_buffer := (args_buffer p)[arg_index p := c], arg_index := Suc (arg_index p)\<rparr>)"
  "name_index p < length (name_buffer p) \<Longrightarrow>
   put_name c p = Some (p\<lparr>name_buffer := (name_buffer p)[name_index p := c], name_index := Suc (name_index p)\<rparr>)"
  by (simp_all add: put_arg_def put_name_def wr_def)

lemma step_plain:
  assumes d: "drop (cmd_index p) cmd = c # cs" and c: "c \<noteq> 32" and i: "Suc (cmd_index p) < 256"
  shows "got_name p \<Longrightarrow> arg_index p < length (args_buffer p) \<Longrightarrow> parse_step cmd p =
      Some (p\<lparr>args_buffer := (args_buffer p)[arg_index p := c], arg_index := Suc (arg_index p), cmd_index := Suc (cmd_index p)\<rparr>)"
    and "\<not> got_name p \<Longrightarrow> name_index p < length (name_buffer p) \<Longrightarrow> parse_step cmd p =
      Some (p\<lparr>name_buffer := (name_buffer p)[name_index p := c], name_index := Suc (name_index p), cmd_index := Suc (cmd_index p)\<rparr>)"
proof -
  have "skip_spaces cmd (cmd_index p) = Some (cmd_index p)" using skip_spaces_run [of "cmd_index p" cmd 0 c cs] d c by simp
  note e = this drop_at(2) [OF d] i
  show "got_name p \<Longrightarrow> arg_index p < length (args_buffer p) \<Longrightarrow> parse_step cmd p =
      Some (p\<lparr>args_buffer := (args_buffer p)[arg_index p := c], arg_index := Suc (arg_index p), cmd_index := Suc (cmd_index p)\<rparr>)"
    using e by (simp add: parse_step_def put_in)
  show "\<not> got_name p \<Longrightarrow> name_index p < length (name_buffer p) \<Longrightarrow> parse_step cmd p =
      Some (p\<lparr>name_buffer := (name_buffer p)[name_index p := c], name_index := Suc (name_index p), cmd_index := Suc (cmd_index p)\<rparr>)"
    using e by (simp add: parse_step_def put_in)
qed

lemma step_spaces:
  assumes d: "drop (cmd_index p) cmd = replicate (Suc k) 32 @ c # cs" and c: "c \<noteq> 32"
    and i: "cmd_index p + Suc (Suc k) < 256"
  shows "got_name p \<Longrightarrow> Suc (arg_index p) < length (args_buffer p) \<Longrightarrow> parse_step cmd p =
      Some (p\<lparr>args_buffer := (args_buffer p)[arg_index p := 32, Suc (arg_index p) := c],
        arg_index := Suc (Suc (arg_index p)), cmd_index := cmd_index p + Suc (Suc k)\<rparr>)"
    and "\<not> got_name p \<Longrightarrow> name_index p < length (name_buffer p) \<Longrightarrow> arg_index p < length (args_buffer p) \<Longrightarrow>
      parse_step cmd p = Some (p\<lparr>got_name := True, name_buffer := (name_buffer p)[name_index p := 0],
        name_index := Suc (name_index p), args_buffer := (args_buffer p)[arg_index p := c],
        arg_index := Suc (arg_index p), cmd_index := cmd_index p + Suc (Suc k)\<rparr>)"
proof -
  let ?j = "cmd_index p + Suc k"
  have sk: "skip_spaces cmd (cmd_index p) = Some ?j" by (rule skip_spaces_run [OF d c])
  have "drop (Suc k) (drop (cmd_index p) cmd) = c # cs" unfolding d by (simp del: replicate.simps)
  then have "drop ?j cmd = c # cs" by (simp add: add.commute)
  then have r: "rd cmd ?j = Some c" by (rule drop_at)
  note e = sk r i
  show "got_name p \<Longrightarrow> Suc (arg_index p) < length (args_buffer p) \<Longrightarrow> parse_step cmd p =
      Some (p\<lparr>args_buffer := (args_buffer p)[arg_index p := 32, Suc (arg_index p) := c],
        arg_index := Suc (Suc (arg_index p)), cmd_index := cmd_index p + Suc (Suc k)\<rparr>)"
    using e by (simp add: parse_step_def put_in)
  show "\<not> got_name p \<Longrightarrow> name_index p < length (name_buffer p) \<Longrightarrow> arg_index p < length (args_buffer p) \<Longrightarrow>
      parse_step cmd p = Some (p\<lparr>got_name := True, name_buffer := (name_buffer p)[name_index p := 0],
        name_index := Suc (name_index p), args_buffer := (args_buffer p)[arg_index p := c],
        arg_index := Suc (arg_index p), cmd_index := cmd_index p + Suc (Suc k)\<rparr>)"
    using e by (simp add: parse_step_def put_in)
qed

text \<open>A line: no byte ends it early, and it does not end in a space.\<close>

definition command_line :: "u8 list \<Rightarrow> bool" where
  "command_line cs = (0 \<notin> set cs \<and> 10 \<notin> set cs \<and> (cs = [] \<or> last cs \<noteq> 32))"

lemma command_line_tail: "command_line (xs @ ys) \<Longrightarrow> command_line ys"
  by (auto simp: command_line_def split: if_splits)

lemma command_line_spaces:
  assumes "command_line (32 # cs)"
  shows "\<exists>k d ds. 32 # cs = replicate (Suc k) 32 @ d # ds \<and> d \<noteq> 32 \<and> command_line ds \<and> d \<noteq> 0 \<and> d \<noteq> 10 \<and>
    dropWhile (\<lambda>c. c = 32) cs = d # ds"
proof -
  let ?w = "takeWhile (\<lambda>c. c = 32) cs" and ?r = "dropWhile (\<lambda>c. c = 32) cs"
  have w: "?w = replicate (length ?w) 32" by (metis (full_types) replicate_length_same set_takeWhileD)
  have "?r \<noteq> []"
  proof
    assume "?r = []"
    then have "\<forall>x \<in> set cs. x = 32" by (simp add: dropWhile_eq_Nil_conv)
    then have "last (32 # cs) = 32" by (cases "cs = []") auto
    then show False using assms by (simp add: command_line_def)
  qed
  then obtain d ds where r: "?r = d # ds" by (cases ?r) auto
  have d: "d \<noteq> 32" using hd_dropWhile [of "\<lambda>c. c = 32" cs] r by simp
  have "cs = ?w @ d # ds" using takeWhile_dropWhile_id [of "\<lambda>c. c = 32" cs] r by simp
  then have e: "32 # cs = replicate (Suc (length ?w)) 32 @ d # ds" using w by simp
  then have "command_line ((replicate (Suc (length ?w)) 32 @ [d]) @ ds)" using assms by simp
  then have "command_line ds" by (rule command_line_tail)
  moreover have "d \<in> set (32 # cs)" unfolding e by simp
  then have "d \<noteq> 0" "d \<noteq> 10" using assms by (auto simp: command_line_def)
  ultimately show ?thesis using e d r by blast
qed

lemma update_at: "n < length xs \<Longrightarrow> take (Suc n) (xs[n := v]) = take n xs @ [v]"
  by (simp add: take_Suc_conv_app_nth)

lemma args_loop:
  assumes "drop (cmd_index p) cmd = cs @ t # junk" and "t = 0 \<or> t = 10" and "command_line cs"
    and "cmd_index p + length cs < 256" and "got_name p"
    and "arg_index p + length (squeeze cs) \<le> length (args_buffer p)"
  shows "\<exists>q. parse_loop cmd p = Some q \<and> arg_index q = arg_index p + length (squeeze cs) \<and>
    args_buffer q = take (arg_index p) (args_buffer p) @ squeeze cs @ drop (arg_index p + length (squeeze cs)) (args_buffer p) \<and>
    name_index q = name_index p \<and> name_buffer q = name_buffer p"
  using assms
proof (induction cs arbitrary: p rule: length_induct)
  case (1 cs)
  note ed = 1(2) and t = 1(3) and line = 1(4) and ci = 1(5) and got = 1(6) and room = 1(7)
  show ?case
  proof (cases cs)
    case Nil
    then have "rd cmd (cmd_index p) = Some t" using ed by (intro drop_at(2)) simp
    then show ?thesis using t Nil by (subst parse_loop.simps) auto
  next
    case (Cons c cs')
    have r: "rd cmd (cmd_index p) = Some c" using ed Cons by (intro drop_at(2)) simp
    have c: "c \<noteq> 0" "c \<noteq> 10" using line Cons by (auto simp: command_line_def)
    have loop: "parse_loop cmd p = (case parse_step cmd p of None \<Rightarrow> None | Some q \<Rightarrow> parse_loop cmd q)"
      by (subst parse_loop.simps) (use r c in simp)
    show ?thesis
    proof (cases "c = 32")
      case False
      let ?p = "p\<lparr>args_buffer := (args_buffer p)[arg_index p := c], arg_index := Suc (arg_index p), cmd_index := Suc (cmd_index p)\<rparr>"
      have ed': "drop (cmd_index p) cmd = c # (cs' @ t # junk)" using ed Cons by simp
      have room': "arg_index p < length (args_buffer p)" using room Cons False by simp
      have st: "parse_step cmd p = Some ?p"
        by (rule step_plain(1) [OF ed' False]) (use ci Cons got room' in simp_all)
      have l: "command_line cs'" using command_line_tail [of "[c]" cs'] line Cons by simp
      have "\<exists>q. parse_loop cmd ?p = Some q \<and> arg_index q = arg_index ?p + length (squeeze cs') \<and>
        args_buffer q = take (arg_index ?p) (args_buffer ?p) @ squeeze cs' @ drop (arg_index ?p + length (squeeze cs')) (args_buffer ?p) \<and>
        name_index q = name_index ?p \<and> name_buffer q = name_buffer ?p"
        using 1(1) [rule_format, of cs' ?p] Cons drop_at(3) [OF ed'] t l ci got room False by simp
      then show ?thesis using loop st Cons False room' by (auto simp: update_at)
    next
      case True
      obtain k d ds where sp: "cs = replicate (Suc k) 32 @ d # ds" "d \<noteq> 32" "command_line ds" "dropWhile (\<lambda>c. c = 32) cs' = d # ds"
        using command_line_spaces [of cs'] line Cons True by auto
      have sq: "squeeze cs = 32 # d # squeeze ds" using Cons True sp(2,4) by simp
      let ?p = "p\<lparr>args_buffer := (args_buffer p)[arg_index p := 32, Suc (arg_index p) := d],
        arg_index := Suc (Suc (arg_index p)), cmd_index := cmd_index p + Suc (Suc k)\<rparr>"
      have ed': "drop (cmd_index p) cmd = replicate (Suc k) 32 @ d # (ds @ t # junk)" using ed sp(1) by simp
      have len: "length cs = Suc (Suc k) + length ds" using sp(1) by simp
      have room': "Suc (arg_index p) < length (args_buffer p)" using room sq by simp
      have st: "parse_step cmd p = Some ?p"
        by (rule step_spaces(1) [OF ed' sp(2)]) (use ci len got room' in simp_all)
      have "drop (cmd_index ?p) cmd = drop (Suc (Suc k)) (drop (cmd_index p) cmd)" by (simp add: add.commute)
      also have "\<dots> = ds @ t # junk" unfolding ed' by (simp del: replicate.simps)
      finally have ed2: "drop (cmd_index ?p) cmd = ds @ t # junk" .
      have "\<exists>q. parse_loop cmd ?p = Some q \<and> arg_index q = arg_index ?p + length (squeeze ds) \<and>
        args_buffer q = take (arg_index ?p) (args_buffer ?p) @ squeeze ds @ drop (arg_index ?p + length (squeeze ds)) (args_buffer ?p) \<and>
        name_index q = name_index ?p \<and> name_buffer q = name_buffer ?p"
        using 1(1) [rule_format, of ds ?p] ed2 t sp(3) ci len got room sq by simp
      moreover have "take (Suc (Suc (arg_index p))) ((args_buffer p)[arg_index p := 32, Suc (arg_index p) := d]) =
          take (arg_index p) (args_buffer p) @ [32, d]"
        using room' update_at [of "Suc (arg_index p)" "(args_buffer p)[arg_index p := 32]" d]
          update_at [of "arg_index p" "args_buffer p" 32] by simp
      ultimately show ?thesis using loop st sq by auto
    qed
  qed
qed

lemma name_loop:
  assumes "drop (cmd_index p) cmd = cs @ t # junk" and "t = 0 \<or> t = 10" and "command_line cs"
    and "cmd_index p + length cs < 256" and "\<not> got_name p" and "arg_index p = 0"
    and "length (command_args cs) \<le> length (args_buffer p)"
    and "name_index p + length (command_name cs) < length (name_buffer p)"
  shows "\<exists>q z. parse_loop cmd p = Some q \<and> arg_index q = length (command_args cs) \<and>
    args_buffer q = command_args cs @ drop (length (command_args cs)) (args_buffer p) \<and>
    name_index q = name_index p + length (command_name cs) + z \<and> z \<le> 1 \<and>
    length (name_buffer q) = length (name_buffer p) \<and>
    take (name_index q) (name_buffer q) = take (name_index p) (name_buffer p) @ command_name cs @ replicate z 0"
  using assms
proof (induction cs arbitrary: p)
  case Nil
  then have "rd cmd (cmd_index p) = Some t" by (intro drop_at(2)) simp
  then show ?case using Nil by (subst parse_loop.simps) (auto simp: command_args_def command_name_def)
next
  case (Cons c cs)
  note ed = Cons.prems(1) and t = Cons.prems(2) and line = Cons.prems(3) and ci = Cons.prems(4) and got = Cons.prems(5,6)
    and room = Cons.prems(7,8)
  have r: "rd cmd (cmd_index p) = Some c" using ed by (intro drop_at(2)) simp
  have c: "c \<noteq> 0" "c \<noteq> 10" using line by (auto simp: command_line_def)
  have loop: "parse_loop cmd p = (case parse_step cmd p of None \<Rightarrow> None | Some q \<Rightarrow> parse_loop cmd q)"
    by (subst parse_loop.simps) (use r c in simp)
  show ?case
  proof (cases "c = 32")
    case False
    let ?p = "p\<lparr>name_buffer := (name_buffer p)[name_index p := c], name_index := Suc (name_index p), cmd_index := Suc (cmd_index p)\<rparr>"
    have ed': "drop (cmd_index p) cmd = c # (cs @ t # junk)" using ed by simp
    have e: "command_name (c # cs) = c # command_name cs" "command_args (c # cs) = command_args cs"
      using False by (simp_all add: command_name_def command_args_def)
    have room': "name_index p < length (name_buffer p)" using room(2) by simp
    have st: "parse_step cmd p = Some ?p"
      by (rule step_plain(2) [OF ed' False]) (use ci got room' in simp_all)
    have l: "command_line cs" using command_line_tail [of "[c]" cs] line by simp
    have "\<exists>q z. parse_loop cmd ?p = Some q \<and> arg_index q = length (command_args cs) \<and>
      args_buffer q = command_args cs @ drop (length (command_args cs)) (args_buffer ?p) \<and>
      name_index q = name_index ?p + length (command_name cs) + z \<and> z \<le> 1 \<and>
      length (name_buffer q) = length (name_buffer ?p) \<and>
      take (name_index q) (name_buffer q) = take (name_index ?p) (name_buffer ?p) @ command_name cs @ replicate z 0"
      by (rule Cons.IH) (use drop_at(3) [OF ed'] t l ci got room e in simp_all)
    then obtain q z where q: "parse_loop cmd ?p = Some q" "arg_index q = length (command_args cs)"
      "args_buffer q = command_args cs @ drop (length (command_args cs)) (args_buffer p)"
      "name_index q = Suc (name_index p) + length (command_name cs) + z" "z \<le> 1"
      "length (name_buffer q) = length (name_buffer p)"
      "take (name_index q) (name_buffer q) = (take (name_index p) (name_buffer p) @ [c]) @ command_name cs @ replicate z 0"
      using update_at [OF room', of c] by auto
    then show ?thesis using loop st e by (intro exI [of _ q] exI [of _ z]) simp
  next
    case True
    obtain k d ds where sp: "c # cs = replicate (Suc k) 32 @ d # ds" "d \<noteq> 32" "command_line ds" "dropWhile (\<lambda>c. c = 32) cs = d # ds"
      using command_line_spaces [of cs] line True by auto
    have e: "command_name (c # cs) = []" "command_args (c # cs) = d # squeeze ds"
      using True sp(2,4) by (simp_all add: command_name_def command_args_def)
    let ?p = "p\<lparr>got_name := True, name_buffer := (name_buffer p)[name_index p := 0],
        name_index := Suc (name_index p), args_buffer := (args_buffer p)[arg_index p := d],
        arg_index := Suc (arg_index p), cmd_index := cmd_index p + Suc (Suc k)\<rparr>"
    have ed': "drop (cmd_index p) cmd = replicate (Suc k) 32 @ d # (ds @ t # junk)" using ed sp(1) by simp
    have len: "length (c # cs) = Suc (Suc k) + length ds" unfolding sp(1) by simp
    have room': "name_index p < length (name_buffer p)" using room(2) e by simp
    have "0 < length (args_buffer p)" using room(1) e(2) by (cases "args_buffer p") simp_all
    with room' have room': "name_index p < length (name_buffer p)" "arg_index p < length (args_buffer p)" using got(2) by simp_all
    have st: "parse_step cmd p = Some ?p"
      by (rule step_spaces(2) [OF ed' sp(2)]) (use ci len got room' in simp_all)
    have "drop (cmd_index ?p) cmd = drop (Suc (Suc k)) (drop (cmd_index p) cmd)" by (simp add: add.commute)
    also have "\<dots> = ds @ t # junk" unfolding ed' by (simp del: replicate.simps)
    finally have ed2: "drop (cmd_index ?p) cmd = ds @ t # junk" .
    obtain q where q: "parse_loop cmd ?p = Some q" "arg_index q = Suc (length (squeeze ds))"
      "args_buffer q = take 1 ((args_buffer p)[0 := d]) @ squeeze ds @ drop (Suc (length (squeeze ds))) ((args_buffer p)[0 := d])"
      "name_index q = Suc (name_index p)" "name_buffer q = (name_buffer p)[name_index p := 0]"
      using args_loop [OF ed2 t sp(3)] ci len got room e by auto
    have "take 1 ((args_buffer p)[0 := d]) = [d]" using update_at [of 0 "args_buffer p" d] room'(2) got by simp
    then show ?thesis
      using loop st q e update_at [OF room'(1), of 0] by (intro exI [of _ q] exI [of _ 1]) simp
  qed
qed

lemma parse_splits:
  assumes "command = cs @ t # junk" and "t = 0 \<or> t = 10" and "command_line cs" and "length cs < 256"
    and "length (command_args cs) < 128" and "length (command_name cs) < 32" and "length buf1 = 128" and "length buf2 = 32"
  shows "parse_command buf1 buf2 command =
    Some (command_name cs @ replicate (32 - length (command_name cs)) 0,
      command_args cs @ 0 # drop (Suc (length (command_args cs))) buf1)"
proof -
  let ?p = "\<lparr>cmd_index = 0, arg_index = 0, name_index = 0, got_name = False, args_buffer = buf1, name_buffer = buf2\<rparr>"
  let ?n = "length (command_name cs)" and ?a = "length (command_args cs)"
  obtain q z where q: "parse_loop command ?p = Some q" "arg_index q = ?a" "args_buffer q = command_args cs @ drop ?a buf1"
    "name_index q = ?n + z" "z \<le> 1" "length (name_buffer q) = 32"
    "take (?n + z) (name_buffer q) = command_name cs @ replicate z 0"
    using name_loop [of ?p command cs t junk] assms by auto
  have le: "?n + z \<le> 32" using assms(6) q(5) by simp
  have "wr (args_buffer q) ?a 0 = Some (command_args cs @ 0 # drop (Suc ?a) buf1)"
    using q(3) assms(5,7) by (simp add: wr_def list_update_append Cons_nth_drop_Suc [symmetric])
  moreover have "for_range (?n + z) 32 (\<lambda>i n. wr n i 0) (name_buffer q) =
      Some (take (?n + z) (name_buffer q) @ replicate (32 - (?n + z)) 0 @ drop 32 (name_buffer q))"
    by (rule fill_loop) (use le q(6) in simp_all)
  moreover have "(command_name cs @ replicate z 0) @ replicate (32 - (?n + z)) 0 = command_name cs @ replicate (32 - ?n) (0 :: u8)"
    using le by (simp add: replicate_add [symmetric])
  ultimately show ?thesis using q(1,2,4,6,7) by (simp add: parse_command_def)
qed

text \<open>C22. A command line with no NUL or newline in it, not ending in a space and within the sizes of the
  local arrays is taken apart as the reference says, whichever of the two bytes ends it and whatever
  follows: the name padded with NULs to 32 bytes, and the arguments with single spaces, ended by a NUL.\<close>

theorem parse_command_splits:
  assumes "command = cs @ t # junk" and "t = 0 \<or> t = 10" and "command_line cs" and "length cs < 256"
    and "length (command_args cs) < 128" and "length (command_name cs) < 32" and "length buf1 = 128" and "length buf2 = 32"
  shows "parse_command buf1 buf2 command =
    Some (command_name cs @ replicate (32 - length (command_name cs)) 0,
      command_args cs @ 0 # drop (Suc (length (command_args cs))) buf1)"
  by (rule parse_splits [OF assms])

theorem parse_command_splits_witness:
  "parse_command (replicate 128 7) (replicate 32 7) [99, 97, 116, 32, 32, 97, 32, 32, 98, 10, 5] =
     Some ([99, 97, 116] @ replicate 29 0, [97, 32, 98, 0] @ replicate 124 7)"
proof -
  have e: "command_args [99, 97, 116, 32, 32, 97, 32, 32, 98] = [97, 32, 98]"
    "command_name [99, 97, 116, 32, 32, 97, 32, 32, 98] = [99, 97, 116]"
    by (simp_all add: command_args_def command_name_def)
  show ?thesis
    using parse_command_splits [of "[99, 97, 116, 32, 32, 97, 32, 32, 98, 10, 5]" "[99, 97, 116, 32, 32, 97, 32, 32, 98]" 10 "[5]"
        "replicate 128 7" "replicate 32 7"]
    unfolding e by (simp add: command_line_def)
qed

lemma overrun_loop:
  assumes "drop (cmd_index p) cmd = cs @ replicate (Suc k) 32 @ [0]" and "0 \<notin> set cs" and "10 \<notin> set cs" and "32 \<notin> set cs"
    and "length cmd < 256" and "\<not> got_name p" and "arg_index p < length (args_buffer p)"
    and "name_index p + length cs < length (name_buffer p)"
  shows "parse_loop cmd p = None"
  using assms
proof (induction cs arbitrary: p)
  case Nil
  have ed: "drop (cmd_index p) cmd = replicate (Suc k) 32 @ 0 # []" using Nil.prems(1) by simp
  then have "length cmd - cmd_index p = Suc (Suc k)" by (metis length_Cons length_append length_drop length_replicate list.size(3) add_Suc_right add.right_neutral)
  then have len: "length cmd = cmd_index p + Suc (Suc k)" by simp
  let ?p = "p\<lparr>got_name := True, name_buffer := (name_buffer p)[name_index p := 0],
        name_index := Suc (name_index p), args_buffer := (args_buffer p)[arg_index p := 0],
        arg_index := Suc (arg_index p), cmd_index := cmd_index p + Suc (Suc k)\<rparr>"
  have st: "parse_step cmd p = Some ?p"
    by (rule step_spaces(2) [OF ed]) (use Nil.prems len in simp_all)
  have r: "rd cmd (cmd_index p) = Some 32" using ed by (intro drop_at(2)) simp
  have "parse_loop cmd p = parse_loop cmd ?p" by (subst parse_loop.simps) (use r st in simp)
  also have "\<dots> = None" by (subst parse_loop.simps) (use len in \<open>simp add: rd_def\<close>)
  finally show ?case .
next
  case (Cons c cs)
  have ed: "drop (cmd_index p) cmd = c # (cs @ replicate (Suc k) 32 @ [0])" using Cons.prems(1) by simp
  let ?p = "p\<lparr>name_buffer := (name_buffer p)[name_index p := c], name_index := Suc (name_index p), cmd_index := Suc (cmd_index p)\<rparr>"
  have st: "parse_step cmd p = Some ?p"
    by (rule step_plain(2) [OF ed]) (use Cons.prems drop_at(1) [OF ed] in simp_all)
  have "parse_loop cmd p = parse_loop cmd ?p"
    by (subst parse_loop.simps) (use drop_at(2) [OF ed] st Cons.prems(2,3) in simp)
  also have "\<dots> = None" by (rule Cons.IH) (use drop_at(3) [OF ed] Cons.prems in simp_all)
  finally show ?case .
qed

text \<open>C39. A command of one word and trailing spaces is read past its end: the step that skips the spaces
  takes the NUL after them as the first byte of the arguments, and goes on behind it.\<close>

theorem trailing_space_overruns:
  assumes "command = cs @ replicate (Suc k) 32 @ [0]" and "0 \<notin> set cs" and "10 \<notin> set cs" and "32 \<notin> set cs"
    and "length command < 256" and "length cs < 32" and "length buf1 = 128" and "length buf2 = 32"
  shows "parse_command buf1 buf2 command = None"
proof -
  have "parse_loop command \<lparr>cmd_index = 0, arg_index = 0, name_index = 0, got_name = False, args_buffer = buf1,
      name_buffer = buf2\<rparr> = None"
    by (rule overrun_loop [of _ _ cs k]) (use assms in simp_all)
  then show ?thesis by (simp add: parse_command_def)
qed

theorem trailing_space_overruns_witness:
  "parse_command (replicate 128 7) (replicate 32 7) [108, 115, 32, 0] = None"
  by (rule trailing_space_overruns [of _ "[108, 115]" 0]) simp_all

section \<open>Descriptors\<close>

definition in_use :: "file_t \<Rightarrow> bool" where
  "in_use f = (f_flags f AND FILE_OPEN_BIT \<noteq> 0)"

text \<open>The lowest descriptor that is not in use.\<close>

definition lowest_free :: "file_t list \<Rightarrow> nat \<Rightarrow> bool" where
  "lowest_free files k = (2 \<le> k \<and> k < 8 \<and> \<not> in_use (files ! k) \<and> list_all (\<lambda>j. in_use (files ! j)) [2..<k])"

lemma free_fd_lowest:
  assumes "length files = 8" and "i \<le> k" and "k < 8" and "\<not> in_use (files ! k)" and "\<forall>j. i \<le> j \<and> j < k \<longrightarrow> in_use (files ! j)"
  shows "free_fd files i = Some (Some k)"
  using assms
proof (induction "k - i" arbitrary: i)
  case 0
  then show ?case by (subst free_fd.simps) (simp add: rd_def in_use_def)
next
  case (Suc d)
  then have "free_fd files (Suc i) = Some (Some k)" "in_use (files ! i)" "i < 7" by simp_all
  then show ?case using Suc.prems(1) by (subst free_fd.simps) (simp add: rd_def in_use_def)
qed

lemma lowest_free_fd: "length files = 8 \<Longrightarrow> lowest_free files k \<Longrightarrow> free_fd files 2 = Some (Some k)"
  by (rule free_fd_lowest) (auto simp: lowest_free_def list_all_iff)

lemma full_fd:
  assumes "length files = 8" and "\<forall>j. 2 \<le> j \<and> j < 8 \<longrightarrow> in_use (files ! j)"
  shows "free_fd files 2 = Some None"
proof -
  have "2 \<le> i \<Longrightarrow> i \<le> 7 \<Longrightarrow> free_fd files i = Some None" for i
  proof (induction "7 - i" arbitrary: i)
    case 0
    then have "i = 7" "in_use (files ! 7)" using assms(2) by simp_all
    then show ?case using assms(1) by (subst free_fd.simps) (simp add: rd_def in_use_def)
  next
    case (Suc d)
    then have "free_fd files (Suc i) = Some None" "in_use (files ! i)" "i < 7" using assms(2) by simp_all
    then show ?case using assms(1) by (subst free_fd.simps) (simp add: rd_def in_use_def)
  qed
  then show ?thesis by simp
qed

text \<open>The running task with its descriptors replaced.\<close>

definition with_files :: "file_t list \<Rightarrow> 'a kernel_scheme \<Rightarrow> 'a kernel_scheme" where
  "with_files files s = s\<lparr>task_store := (task_store s)(get_cur_task s :=
     (task_store s (get_cur_task s))\<lparr>task_files := files\<rparr>)\<rparr>"

definition cur_files :: "'a kernel_scheme \<Rightarrow> file_t list" where
  "cur_files s = task_files (task_store s (get_cur_task s))"

lemma with_files_simps [simp]:
  "get_cur_task (with_files files s) = get_cur_task s" "cur_files (with_files files s) = files"
  "mem (with_files files s) = mem s" "file_sys (with_files files s) = file_sys s"
  "with_files files' (with_files files s) = with_files files' s"
  by (simp_all add: with_files_def get_cur_task_def cur_files_def)

lemma cur_file_in:
  assumes "get_cur_task s \<noteq> 0" and "k < length (cur_files s)"
  shows "cur_file (int k) s = Some (cur_files s ! k)"
    and "set_cur_file (int k) f s = Some (with_files ((cur_files s)[k := f]) s)"
  using assms by (simp_all add: cur_file_def set_cur_file_def task_at_def set_task_def cur_files_def with_files_def
      rdi_def rd_def wri_def wr_def)

lemma same_search:
  assumes "mem u = mem s" and "file_sys u = file_sys s"
  shows "read_dentry_by_name fname d u = read_dentry_by_name fname d s" "get_inode n u = get_inode n s"
  by (simp_all only: read_dentry_by_name_def get_inode_def assms)

text \<open>What a call leaves in a descriptor.\<close>

definition open_file :: "dentry \<Rightarrow> u32 \<Rightarrow> file_t \<Rightarrow> file_t" where
  "open_file de ino f = f\<lparr>f_flags := push_bit (unat (file_type de)) 1 OR FILE_OPEN_BIT, f_fops := type_fops (file_type de),
     f_dentry := de, f_inode := ino, f_offset := 0\<rparr>"

definition closed_file :: "file_t \<Rightarrow> file_t" where
  "closed_file f = f\<lparr>f_flags := 0, f_inode := 0, f_offset := 0, f_fops := None\<rparr>"

lemma open_result:
  assumes cur: "get_cur_task s \<noteq> 0" "length (cur_files s) = 8" and k: "lowest_free (cur_files s) k"
    and name: "copy_name filename 0 (replicate 32 0) = Some fname" "read_dentry_by_name fname blank_dentry s = Some (0, de)"
    and ty: "file_type de = 1 \<or> file_type de = 2"
  shows "do_open dev filename s =
    Some (int k, with_files ((cur_files s)[k := open_file de (get_inode (inode_num de) s) (cur_files s ! k)]) s)"
proof -
  have k8: "k < length (cur_files s)" using k cur(2) by (simp add: lowest_free_def)
  obtain ops where ops: "type_fops (file_type de) = Some ops" "ops = DirFops \<or> ops = FileFops"
    using ty by (auto simp: type_fops_def)
  have "fops_open dev ops u = Some (0, u)" for u :: "'a kernel_scheme"
    using ops(2) by (auto simp: fops_open_def directory_open_def file_open_def)
  then show ?thesis
    using cur name lowest_free_fd [OF cur(2) k] ops(1) cur_file_in [OF cur(1) k8]
    by (simp add: do_open_def task_at_def cur_files_def [symmetric] open_file_def)
qed

lemma close_result:
  assumes cur: "get_cur_task s \<noteq> 0" "length (cur_files s) = 8" and k: "2 \<le> k" "k < 8"
    and f: "cur_files s ! k = open_file de ino f" "file_type de = 1 \<or> file_type de = 2"
  shows "do_close dev (int k) s = Some (0, with_files ((cur_files s)[k := closed_file (open_file de ino f)]) s)"
proof -
  have k8: "k < length (cur_files s)" using k cur(2) by simp
  obtain ops where ops: "type_fops (file_type de) = Some ops" "ops = DirFops \<or> ops = FileFops"
    using f(2) by (auto simp: type_fops_def)
  have c: "fops_close dev ops fd u = Some (0, u)" for u :: "'a kernel_scheme" and fd
    using ops(2) by (auto simp: fops_close_def directory_close_def file_close_def)
  have "(push_bit (unat (file_type de)) 1 OR 1) AND (1 :: u32) = 1"
    using f(2) by (auto simp: bit_eq_iff bit_simps)
  then have "f_flags (open_file de ino f) AND FILE_OPEN_BIT = 1" by (simp add: open_file_def FILE_OPEN_BIT_def)
  moreover have "f_fops (open_file de ino f) = Some ops" using ops(1) by (simp add: open_file_def)
  ultimately show ?thesis
    using cur(1) k c cur_file_in [OF cur(1) k8] f(1) by (simp add: do_close_def closed_file_def)
qed

lemma open_file_in_use: "in_use (open_file de ino f)" "\<not> in_use (closed_file f)"
proof -
  have "bit ((push_bit (unat (file_type de)) 1 OR FILE_OPEN_BIT) AND FILE_OPEN_BIT) 0"
    by (simp add: FILE_OPEN_BIT_def bit_simps)
  then show "in_use (open_file de ino f)" by (auto simp: in_use_def open_file_def)
qed (simp add: in_use_def closed_file_def)

text \<open>C23. Opening a file or the directory takes the lowest free descriptor and sets it up at offset 0,
  leaving the others and the rest of the state as they were; closing it succeeds and frees it, so
  that opening again gives the same descriptor.\<close>

theorem open_close_reopen:
  assumes cur: "get_cur_task s \<noteq> 0" "length (cur_files s) = 8" and k: "lowest_free (cur_files s) k"
    and name: "copy_name filename 0 (replicate 32 0) = Some fname" "read_dentry_by_name fname blank_dentry s = Some (0, de)"
    and ty: "file_type de = 1 \<or> file_type de = 2"
  shows "\<exists>u v. do_open dev filename s = Some (int k, u) \<and>
    u = with_files ((cur_files s)[k := open_file de (get_inode (inode_num de) s) (cur_files s ! k)]) s \<and>
    in_use (cur_files u ! k) \<and> do_close dev (int k) u = Some (0, v) \<and> \<not> in_use (cur_files v ! k) \<and>
    (\<forall>j. j \<noteq> k \<longrightarrow> cur_files v ! j = cur_files s ! j) \<and>
    do_open dev filename v = Some (int k, u)"
proof -
  let ?o = "open_file de (get_inode (inode_num de) s) (cur_files s ! k)"
  let ?u = "with_files ((cur_files s)[k := ?o]) s" and ?v = "with_files ((cur_files s)[k := closed_file ?o]) s"
  have k8: "2 \<le> k" "k < 8" "k < length (cur_files s)" using k cur(2) by (simp_all add: lowest_free_def)
  have "do_close dev (int k) ?u = Some (0, ?v)"
    using close_result [of ?u k de "get_inode (inode_num de) s" "cur_files s ! k" dev] cur k8 ty by simp
  moreover have "lowest_free (cur_files ?v) k"
    using k k8 open_file_in_use(2) by (simp add: lowest_free_def list_all_iff nth_list_update)
  then have "do_open dev filename ?v = Some (int k, with_files ((cur_files ?v)[k := open_file de (get_inode (inode_num de) ?v)
      (cur_files ?v ! k)]) ?v)"
    by (rule open_result [rotated 2]) (use cur name ty same_search [of ?v s] in simp_all)
  moreover have "open_file de (get_inode (inode_num de) ?v) (closed_file ?o) = ?o"
    using same_search(2) [of ?v s] by (simp add: open_file_def closed_file_def)
  ultimately show ?thesis
    using open_result [OF assms] open_file_in_use k8(3) by (intro exI [of _ ?u] exI [of _ ?v]) simp
qed

lemma demo_open:
  "get_cur_task typing_demo \<noteq> 0" "length (cur_files typing_demo) = 8" "lowest_free (cur_files typing_demo) 2"
  "copy_name [108, 115, 0] 0 (replicate 32 0) = Some ls_name"
  "read_dentry_by_name ls_name blank_dentry typing_demo = Some (0, \<lparr>file_name = ls_name, file_type = 2, inode_num = 0\<rparr>)"
proof -
  show "get_cur_task typing_demo \<noteq> 0" by (simp add: typing_demo_def get_cur_task_def get_task_0)
  have e: "cur_files typing_demo = task_files task_demo_task" "mem typing_demo = mem fs_demo" "file_sys typing_demo = file_sys fs_demo"
    by (simp_all add: cur_files_def typing_demo_def terminals_demo_def kernel_demo_def sched_init_def tasks.defs tasks_demo_def
        filesys.defs fs_demo_def)
  show "length (cur_files typing_demo) = 8" "lowest_free (cur_files typing_demo) 2"
    unfolding e by (simp_all add: task_demo_task_def lowest_free_def in_use_def)
  show "copy_name [108, 115, 0] 0 (replicate 32 0) = Some ls_name"
    by code_simp
  show "read_dentry_by_name ls_name blank_dentry typing_demo = Some (0, \<lparr>file_name = ls_name, file_type = 2, inode_num = 0\<rparr>)"
    using ls_found same_search(1) [OF e(2,3)] by simp
qed

theorem open_close_reopen_witness:
  "\<exists>u v. do_open (\<lambda>_ _. 0) [108, 115, 0] typing_demo = Some (2, u) \<and> in_use (cur_files u ! 2) \<and>
     do_close (\<lambda>_ _. 0) 2 u = Some (0, v) \<and> do_open (\<lambda>_ _. 0) [108, 115, 0] v = Some (2, u)"
  using open_close_reopen [OF demo_open, of "\<lambda>_ _. 0"] by auto

section \<open>Reading a file\<close>

lemma inode_at:
  assumes "ino < fs_num_inodes (mem s) (file_sys s)"
  shows "get_inode ino s = inode_addr (file_sys s) ino"
  using leD [of "fs_num_inodes (mem s) (file_sys s)" ino] assms
  by (auto simp: get_inode_def inode_addr_def FILESYS_SIZE_def)

text \<open>A read through an open descriptor that asks for no more than what is left of the file, and that
  starts at a block boundary or stays inside a block, puts the bytes from the descriptor's offset
  on into the user's buffer, returns their number and moves the offset past them; nothing else of
  memory changes. At the end of the file it returns 0 and changes nothing.\<close>

theorem file_read_copies:
  assumes cur: "get_cur_task s \<noteq> 0" "k < 8" "length (cur_files s) = 8" and f: "f = cur_files s ! k"
    and ino: "ino = inode_num (f_dentry f)" "ino < fs_num_inodes (mem s) (file_sys s)" "f_inode f = get_inode ino s" "f_inode f \<noteq> 0"
    and img: "image_ok (mem s) (file_sys s)" and n: "0 < n" "n < 2 ^ 31"
    and left: "unat (f_offset f) + n \<le> file_len (mem s) (file_sys s) ino \<or> unat (f_offset f) \<ge> file_len (mem s) (file_sys s) ino"
    and area: "user_area buf n s = Some p" "clear_of_image (mem s) (file_sys s) p n"
    and inside: "unat (f_offset f) mod 4096 = 0 \<or> unat (f_offset f) mod 4096 + n \<le> 4096"
  shows "file_read (int k) buf (int n) s =
    (if unat (f_offset f) \<ge> file_len (mem s) (file_sys s) ino then Some (0, s)
     else Some (int n, with_files ((cur_files s)[k := f\<lparr>f_offset := f_offset f + of_nat n\<rparr>])
       (s\<lparr>mem := copied p (\<lambda>j. file_byte (mem s) (file_sys s) ino (unat (f_offset f) + j)) n (mem s)\<rparr>)))"
proof -
  let ?len = "inode_len (mem s) (f_inode f)"
  have len: "unat ?len = file_len (mem s) (file_sys s) ino"
    using inode_at [OF ino(2)] ino(3) by (simp add: file_len_def)
  have cf: "cur_file (int k) s = Some f" using cur_file_in(1) [OF cur(1)] cur(2,3) f by simp
  show ?thesis
  proof (cases "unat (f_offset f) \<ge> file_len (mem s) (file_sys s) ino")
    case True
    then have "f_offset f \<ge> ?len" using len by (simp add: word_le_nat_alt)
    then show ?thesis using True cur(1,2) cf ino(4) by (simp add: file_read_def)
  next
    case False
    let ?n = "of_nat n :: u32"
    have un: "unat ?n = n" using n(2) by (simp add: unat_of_nat_u32)
    have sn: "sint ?n = int n" using n(2) by (intro sint_of_nat_u32) simp
    have off: "f_offset f < ?len" using False len by (simp add: word_less_nat_alt)
    have nl: "\<not> u32_of (int n) > ?len" "u32_of (int n) = ?n" using left False len un
      by (simp_all add: u32_of_def word_less_nat_alt)
    have room: "unat (f_offset f) + unat ?n < file_room (mem s) (file_sys s) ino"
      using left False un by (simp add: file_room_def)
    have rd: "read_data ino (f_offset f) p ?n s = (int n, s\<lparr>mem := copied p
        (\<lambda>j. file_byte (mem s) (file_sys s) ino (unat (f_offset f) + j)) n (mem s)\<rparr>)"
      using read_data_inside_block [OF img ino(2), of p ?n "f_offset f"] area(2) inside room un sn by simp
    let ?s = "s\<lparr>mem := copied p (\<lambda>j. file_byte (mem s) (file_sys s) ino (unat (f_offset f) + j)) n (mem s)\<rparr>"
    have c: "get_cur_task ?s = get_cur_task s" "cur_files ?s = cur_files s" by (simp_all add: get_cur_task_def cur_files_def)
    have "set_cur_file (int k) (f\<lparr>f_offset := f_offset f + ?n\<rparr>) ?s =
        Some (with_files ((cur_files s)[k := f\<lparr>f_offset := f_offset f + ?n\<rparr>]) ?s)"
      using cur_file_in(2) [of ?s k] c cur by simp
    then show ?thesis using False cur(1,2) cf ino(1,4) off nl un area(1) rd
      by (simp add: file_read_def linorder_not_le [symmetric] split del: if_split)
  qed
qed

text \<open>A task that has the file \<^verbatim>\<open>ls\<close> open at its second block, was started with the argument \<^verbatim>\<open>hi\<close>, and
  runs with the first 4 MB mapped by one page.\<close>

definition reading_mem :: memory where
  "reading_mem = st32 fs_demo_mem 0x1000 0x83"

definition reading_task :: task_t where
  "reading_task = task_demo_task\<lparr>task_args := [104, 105, 0] @ replicate 125 0,
     task_files := (task_files task_demo_task)[2 := \<lparr>f_fops = Some FileFops,
       f_dentry = \<lparr>file_name = ls_name, file_type = 2, inode_num = 0\<rparr>, f_inode = 0x11000, f_offset = 4096, f_flags = 5\<rparr>]\<rparr>"

definition reading_demo :: kernel where
  "reading_demo = terminals_demo\<lparr>cr3 := 0x1000, mem := reading_mem, cur_task := 0, task_store := \<lambda>_. reading_task\<rparr>"

lemma reading_header:
  "fs_num_dentries reading_mem 0x10000 = 1" "fs_num_inodes reading_mem 0x10000 = 1"
  "fs_num_blocks reading_mem 0x10000 = 2" "file_len reading_mem 0x10000 0 = 5000"
  "inode_dblock reading_mem (inode_addr 0x10000 0) 0 = 0" "inode_dblock reading_mem (inode_addr 0x10000 0) 1 = 1"
  by (simp_all add: fs_num_dentries_def fs_num_inodes_def fs_num_blocks_def file_len_def inode_len_def
      inode_addr_def inode_dblock_def ld32_def fs_demo_mem_def reading_mem_def st32_def Let_def)

lemma reading_image: "image_ok reading_mem 0x10000" "file_byte reading_mem 0x10000 0 4098 = 2"
proof -
  have "image_size reading_mem 0x10000 = 16384" by (simp add: image_size_def reading_header)
  then show "image_ok reading_mem 0x10000"
    by (auto simp: image_ok_def reading_header le_Suc_eq numeral_eq_Suc [of Num.One] dest!: le_neq_implies_less)
  show "file_byte reading_mem 0x10000 0 4098 = 2"
  proof -
    have "reading_mem 0x13002 = 2" by (simp add: fs_demo_mem_def reading_mem_def st32_def Let_def)
    then show ?thesis by (simp add: file_byte_def reading_header block_addr_def)
  qed
qed

lemma reading_translate:
  assumes "i < 4096"
  shows "drop_bit 22 (0x200000 + of_nat i :: u32) = 0" "((0x200000 + of_nat i) AND 0x3FFFFF :: u32) = 0x200000 + of_nat i"
proof -
  have "unat (of_nat i :: u32) = i" by (rule unat_of_nat_u32) (use assms in simp)
  then have u: "unat (0x200000 + of_nat i :: u32) = 0x200000 + i" using assms by (simp add: unat_word_ariths)
  show "drop_bit 22 (0x200000 + of_nat i :: u32) = 0"
    using u assms by (simp add: word_unat_eq_iff drop_bit_eq_div unat_div_distrib)
  show "((0x200000 + of_nat i) AND 0x3FFFFF :: u32) = 0x200000 + of_nat i"
    unfolding mask_bits take_bit_eq_mask [symmetric] using u assms
    by (simp add: word_unat_eq_iff take_bit_eq_mod unat_mod_distrib)
qed

lemma reading_sel:
  "get_cur_task reading_demo \<noteq> 0" "task_store reading_demo (get_cur_task reading_demo) = reading_task"
  "mem reading_demo = reading_mem" "file_sys reading_demo = 0x10000" "cr3 reading_demo = 0x1000"
  "cur_files reading_demo = task_files reading_task"
  by (simp_all add: reading_demo_def get_cur_task_def get_task_0 cur_files_def terminals_demo_def kernel_demo_def sched_init_def
      tasks.defs tasks_demo_def filesys.defs fs_demo_def)

lemma reading_walk: "i < 4096 \<Longrightarrow> translate reading_mem 0x1000 False (0x200000 + of_nat i) = Some (0x200000 + of_nat i)"
  using translate_4mb [of reading_mem "0x1000" "0x200000 + of_nat i" 0 0 False] reading_translate [of i]
  by (simp add: reading_mem_def FIRST_20_BITS_def FIRST_10_BITS_def PAGE_SIZE_BIT_def RW_PRESENT_def)

theorem file_read_copies_witness:
  "\<exists>u. file_read 2 0x200000 3 reading_demo = Some (3, u) \<and> mem u 0x200002 = 2 \<and> f_offset (cur_files u ! 2) = 4099"
proof -
  have area: "user_area 0x200000 3 reading_demo = Some 0x200000"
    using reading_walk [of 0] reading_walk by (simp add: user_area_def reading_sel list_all_iff)
  have clear: "clear_of_image reading_mem 0x10000 0x200000 3"
  proof -
    have "unat (0x200000 + of_nat i - 0x10000 :: u32) = 0x1F0000 + i" if "i < 3" for i
      using that by (simp add: unat_word_ariths unat_of_nat_u32 numeral_eq_Suc [of Num.One])
    then show ?thesis by (simp add: clear_of_image_def image_size_def reading_header)
  qed
  show ?thesis
    using file_read_copies [of reading_demo 2 _ 0 3 "0x200000" "0x200000", OF _ _ _ refl] area clear reading_sel reading_header reading_image
    by (simp add: reading_task_def task_demo_task_def get_inode_def FILESYS_SIZE_def copied_def)
qed

section \<open>User buffers\<close>

text \<open>An area that the kernel reaches at \<^term>\<open>p\<close>, and still reaches there when only the bytes of the
  area have changed: its page tables lie elsewhere.\<close>

definition stable_area :: "u32 \<Rightarrow> u32 \<Rightarrow> nat \<Rightarrow> 'a paging_scheme \<Rightarrow> bool" where
  "stable_area a p n s = (n \<le> 2 ^ 32 \<and> (\<forall>m i. i < n \<and> (\<forall>q. n \<le> unat (q - p) \<longrightarrow> m q = mem s q) \<longrightarrow>
     translate m (cr3 s) False (a + of_nat i) = Some (p + of_nat i)))"

lemma user_stores_from:
  assumes st: "stable_area a p (length cs) s" and "i \<le> length cs"
  shows "user_stores (a + of_nat i) (drop i cs) (s\<lparr>mem := copied p (\<lambda>j. cs ! j) i (mem s)\<rparr>) =
    Some (s\<lparr>mem := copied p (\<lambda>j. cs ! j) (length cs) (mem s)\<rparr>)"
  using assms(2)
proof (induction "length cs - i" arbitrary: i)
  case 0
  then show ?case by simp
next
  case (Suc d)
  then have i: "i < length cs" by simp
  have "translate (copied p (\<lambda>j. cs ! j) i (mem s)) (cr3 s) False (a + of_nat i) = Some (p + of_nat i)"
    using st i unfolding stable_area_def by (auto simp: copied_def)
  moreover have "i < 2 ^ 32" using st i by (simp add: stable_area_def)
  moreover have "drop i cs = cs ! i # drop (Suc i) cs" using i by (simp add: Cons_nth_drop_Suc)
  moreover have "a + of_nat i + 1 = a + of_nat (Suc i)" by simp
  moreover have "user_stores (a + of_nat (Suc i)) (drop (Suc i) cs) (s\<lparr>mem := copied p (\<lambda>j. cs ! j) (Suc i) (mem s)\<rparr>) =
      Some (s\<lparr>mem := copied p (\<lambda>j. cs ! j) (length cs) (mem s)\<rparr>)"
    by (rule Suc.hyps(1)) (use Suc.hyps(2) i in simp_all)
  ultimately show ?case by (simp add: user_store_def copied_Suc add.assoc del: of_nat_Suc)
qed

lemma user_stores_area:
  "stable_area a p (length cs) s \<Longrightarrow> user_stores a cs s = Some (s\<lparr>mem := copied p (\<lambda>j. cs ! j) (length cs) (mem s)\<rparr>)"
  using user_stores_from [of a p cs s 0] by simp

text \<open>An area inside a 4 MB page whose directory entry it does not contain.\<close>

lemma stable_4mb:
  assumes e: "ld32 (mem s) (dword_at (cr3 s AND FIRST_20_BITS) (drop_bit 22 a)) =
      (phys AND FIRST_10_BITS) OR PAGE_SIZE_BIT OR push_bit 2 (ucast (w :: u8)) OR RW_PRESENT" "w = 0 \<or> w = 1"
    and in_page: "\<And>i. i < n \<Longrightarrow> drop_bit 22 (a + of_nat i) = drop_bit 22 a \<and>
      (phys AND FIRST_10_BITS) OR ((a + of_nat i) AND 0x3FFFFF) = p + of_nat i"
    and apart: "\<And>j. j < 4 \<Longrightarrow> n \<le> unat (dword_at (cr3 s AND FIRST_20_BITS) (drop_bit 22 a) + of_nat j - p)" and "n \<le> 2 ^ 32"
  shows "stable_area a p n s"
  unfolding stable_area_def
proof (intro conjI allI impI)
  fix m i assume m: "i < n \<and> (\<forall>q. n \<le> unat (q - p) \<longrightarrow> m q = mem s q)"
  let ?d = "dword_at (cr3 s AND FIRST_20_BITS) (drop_bit 22 a)"
  have "m (?d + of_nat j) = mem s (?d + of_nat j)" if "j < 4" for j using m apart [OF that] by blast
  from this [of 0] this [of 1] this [of 2] this [of 3] have "ld32 m ?d = ld32 (mem s) ?d" by (simp add: ld32_def)
  then show "translate m (cr3 s) False (a + of_nat i) = Some (p + of_nat i)"
    using translate_4mb [of m "cr3 s" "a + of_nat i" phys w False] e in_page m by simp
qed (rule assms(5))

lemma args_size_counts:
  assumes "args = as @ 0 # rest" and "0 \<notin> set as" and "i \<le> length as" and "int i \<le> max 0 nbytes"
  shows "args_size args nbytes i = Some (min (length as) (nat nbytes))"
  using assms(3,4)
proof (induction "length as - i" arbitrary: i)
  case 0
  then have "i = length as" by simp
  then show ?case using 0 assms(1) by (subst args_size.simps) (auto simp: rd_def min_def)
next
  case (Suc d)
  then have i: "i < length as" by simp
  have c: "args ! i \<noteq> 0" using i assms(1,2) by (metis in_set_conv_nth nth_append)
  show ?case
  proof (cases "int i < nbytes")
    case True
    then have "args_size args nbytes (Suc i) = Some (min (length as) (nat nbytes))" using Suc i by simp
    then show ?thesis using True i c assms(1) by (subst args_size.simps) (simp add: rd_def)
  next
    case False
    then have "i = nat nbytes" using Suc.prems(2) by auto
    then show ?thesis using False i c assms(1) by (subst args_size.simps) (auto simp: rd_def min_def)
  qed
qed

lemma getargs_result:
  assumes cur: "get_cur_task s \<noteq> 0" and t: "t = task_store s (get_cur_task s)" and args: "task_args t = as @ 0 # rest" "0 \<notin> set as"
    and user: "is_user_ptr buf s = Some (- 1)" "buf \<noteq> 0" and nbytes: "0 < nbytes"
    and n: "n = Suc (min (length as) (nat nbytes))" and area: "stable_area buf p n s"
  shows "do_getargs buf nbytes s =
    (if int (length as) = nbytes - 1 then Some (- 1, s)
     else Some (0, s\<lparr>mem := copied p (\<lambda>j. (as @ [0]) ! j) n (mem s)\<rparr>))"
proof -
  have sz: "args_size (task_args t) nbytes 0 = Some (min (length as) (nat nbytes))"
    by (rule args_size_counts [OF args]) simp_all
  have eq: "(int (min (length as) (nat nbytes)) = nbytes - 1) = (int (length as) = nbytes - 1)"
    using nbytes by (auto simp: min_def)
  have len: "length (take n (task_args t)) = n" "n \<le> Suc (length as)" using args(1) n by (auto simp: min_def)
  have nth: "take n (task_args t) ! j = (as @ [0]) ! j" if "j < n" for j
    using that len args(1) by (auto simp: nth_append)
  have "user_stores buf (take n (task_args t)) s = Some (s\<lparr>mem := copied p (\<lambda>j. take n (task_args t) ! j) n (mem s)\<rparr>)"
    using user_stores_area [of buf p "take n (task_args t)" s] len area by simp
  also have "copied p (\<lambda>j. take n (task_args t) ! j) n (mem s) = copied p (\<lambda>j. (as @ [0]) ! j) n (mem s)"
    by (rule copied_cong) (rule nth)
  finally show ?thesis using cur t user sz eq n by (simp add: do_getargs_def task_at_def)
qed

text \<open>C37. The arguments of the running task go to a buffer outside the 4 MB of the task's identity
  mapping, with the NUL that ends them when they and it are shorter than the buffer. When they
  fill the buffer exactly the call fails, and when they are longer it stores one byte more than the
  buffer's size, with no NUL, and succeeds.\<close>

theorem getargs_copies:
  assumes cur: "get_cur_task s \<noteq> 0" and t: "t = task_store s (get_cur_task s)" and args: "task_args t = as @ 0 # rest" "0 \<notin> set as"
    and user: "is_user_ptr buf s = Some (- 1)" "buf \<noteq> 0" and nbytes: "0 < nbytes"
    and n: "n = Suc (min (length as) (nat nbytes))" and area: "stable_area buf p n s"
  shows "do_getargs buf nbytes s =
    (if int (length as) = nbytes - 1 then Some (- 1, s)
     else Some (0, s\<lparr>mem := copied p (\<lambda>j. (as @ [0]) ! j) n (mem s)\<rparr>))"
  by (rule getargs_result [OF assms])

lemma identity_area:
  "cr3 s = 0x1000 \<Longrightarrow> ld32 (mem s) 0x1000 = 0x83 \<Longrightarrow> n \<le> 4096 \<Longrightarrow> stable_area 0x200000 0x200000 n s"
proof (rule stable_4mb [where phys = 0 and w = 0])
  fix i assume "n \<le> 4096" and "i < n"
  then show "drop_bit 22 (0x200000 + of_nat i :: u32) = drop_bit 22 0x200000 \<and>
      (0 AND FIRST_10_BITS) OR ((0x200000 + of_nat i) AND 0x3FFFFF) = (0x200000 + of_nat i :: u32)"
    using reading_translate [of i] by simp
next
  fix j :: nat assume "cr3 s = 0x1000" and "n \<le> 4096" and j: "j < 4"
  have "(0x1000 + of_nat j - 0x200000 :: u32) = of_nat (0xFFE01000 + j)" by simp
  moreover have "unat (of_nat (0xFFE01000 + j) :: u32) = 0xFFE01000 + j"
    by (rule unat_of_nat_u32) (use j in simp)
  ultimately have "unat (0x1000 + of_nat j - 0x200000 :: u32) = 0xFFE01000 + j" by argo
  then show "n \<le> unat (dword_at (cr3 s AND FIRST_20_BITS) (drop_bit 22 0x200000) + of_nat j - 0x200000)"
    using \<open>n \<le> 4096\<close> \<open>cr3 s = 0x1000\<close> by (simp add: FIRST_20_BITS_def)
qed (simp_all add: FIRST_20_BITS_def PAGE_SIZE_BIT_def RW_PRESENT_def)

lemma reading_area: "n \<le> 4096 \<Longrightarrow> stable_area 0x200000 0x200000 n reading_demo"
  by (rule identity_area) (simp_all add: reading_sel reading_mem_def)

lemma reading_user: "is_user_ptr 0x200000 reading_demo = Some (- 1)"
  by (simp add: is_user_ptr_def task_at_def reading_sel get_task_addr_def reading_task_def task_demo_task_def
      INIT_TASK_ADDR_def SIZE_4MB_PAGE_def u32_of_def)

theorem getargs_copies_witness:
  "\<exists>u. do_getargs 0x200000 10 reading_demo = Some (0, u) \<and> mem u 0x200001 = 105 \<and> mem u 0x200002 = 0"
proof -
  have "task_args reading_task = [104, 105] @ 0 # replicate 125 0" by (simp add: reading_task_def)
  from getargs_copies [OF reading_sel(1) _ this _ reading_user _ _ refl reading_area, of 10] show ?thesis
    using reading_sel(2) by (simp add: copied_def)
qed

text \<open>The kernel's own 4 MB in the address space of a task: the kernel finds them where they are, also after some of their
  bytes have changed.\<close>

lemma kernel_area_stable:
  assumes k: "task_pid_ok k" and t: "task_tables (mem s) (get_task_addr (u32_of k))" "cr3 s = get_task_addr (u32_of k)"
    and a: "0x400000 \<le> a" "a \<le> 0x7FFFFC"
  shows "stable_area a a 4 s"
  unfolding stable_area_def
proof (intro conjI allI impI, goal_cases)
  case (2 m i)
  let ?d = "get_task_addr (u32_of k)"
  note r = task_addr_range [OF k]
  have a': "4194304 \<le> unat a" "unat a \<le> 8388604" using a by (simp_all add: word_le_nat_alt)
  have "m (?d + of_nat j) = mem s (?d + of_nat j)" if "j < 8192" for j
  proof -
    have "unat (?d + of_nat j - a) = unat ?d + j - unat a" by (rule offset_above) (use r a' that in simp_all)
    then show ?thesis using 2 r a' by simp
  qed
  then have m: "task_tables m ?d" by (rule task_tables_same [OF t(1)])
  have "unat (a + of_nat i) = unat a + i" using a' 2 by (simp add: unat_word_ariths unat_of_nat)
  then have "0x400000 \<le> a + of_nat i" "a + of_nat i < 0x800000" using a' 2 by (simp_all add: word_le_nat_alt word_less_nat_alt)
  then have "drop_bit 22 (a + of_nat i) = 1" using region_index(2) by blast
  from task_walks(3) [OF m k refl this] show ?case by (simp add: t(2))
qed simp

text \<open>C38. In the address space of a task \<^verbatim>\<open>vidmap\<close> stores through every pointer into the kernel's own 4 MB, where user code
  itself cannot write: the word there becomes the address of the video page and the call succeeds. What the
  pointer check refuses is the one region where a task finds its own page under the addresses of the kernel.\<close>

theorem vidmap_stores_anywhere:
  assumes k: "task_pid_ok k" and cur: "get_cur_task s \<noteq> 0" "task_pid (task_store s (get_cur_task s)) = k"
    and t: "task_tables (mem s) (get_task_addr (u32_of k))" "cr3 s = get_task_addr (u32_of k)"
  shows "(\<forall>a. 0x400000 \<le> a \<and> a \<le> 0x7FFFFC \<longrightarrow> translate (mem s) (cr3 s) True a = None \<and>
      (\<exists>u. do_vidmap a s = Some (0, u) \<and> ld32 (mem u) a = 0x100B8000 \<and> (\<forall>q. 4 \<le> unat (q - a) \<longrightarrow> mem u q = mem s q))) \<and>
    (\<forall>x < 0x400000. do_vidmap (get_task_addr (u32_of k) + x) s = Some (- 1, s))"
proof (intro conjI allI impI)
  let ?d = "get_task_addr (u32_of k)"
  note r = task_addr_range [OF k]
  have chk: "is_user_ptr a s = Some (if a < ?d \<or> ?d + SIZE_4MB_PAGE \<le> a then - 1 else 0)" for a
    using cur by (simp add: is_user_ptr_def task_at_def Let_def)
  have top: "unat (?d + SIZE_4MB_PAGE) = unat ?d + 4194304"
    using r by (simp add: SIZE_4MB_PAGE_def unat_word_ariths)
  show "do_vidmap (?d + x) s = Some (- 1, s)" if "x < 0x400000" for x
  proof -
    have "unat (?d + x) = unat ?d + unat x" "unat x < 4194304" using r that by (simp_all add: unat_word_ariths word_less_nat_alt)
    then have "\<not> ?d + x < ?d" "\<not> ?d + SIZE_4MB_PAGE \<le> ?d + x" using top by (simp_all add: word_less_nat_alt word_le_nat_alt)
    then show ?thesis by (simp add: do_vidmap_def chk)
  qed
  fix a :: u32
  assume a: "0x400000 \<le> a \<and> a \<le> 0x7FFFFC"
  then have "a < ?d" using r by (simp add: word_less_nat_alt word_le_nat_alt)
  then have user: "is_user_ptr a s = Some (- 1)" by (simp add: chk)
  have area: "stable_area a a 4 s" using kernel_area_stable [OF k t] a by blast
  have "a < 0x800000" using a by (simp add: word_less_nat_alt word_le_nat_alt)
  then have "drop_bit 22 a = 1" using region_index(2) a by blast
  from task_walks(3) [OF t(1) k refl this, of True] show "translate (mem s) (cr3 s) True a = None" by (simp add: t(2))
  let ?b = "[0x00, 0x80, 0x0B, 0x10] :: u8 list"
  have b: "[ucast (VIRTUAL_VID_MEM + VIDEO), ucast (drop_bit 8 (VIRTUAL_VID_MEM + VIDEO)),
      ucast (drop_bit 16 (VIRTUAL_VID_MEM + VIDEO)), ucast (drop_bit 24 (VIRTUAL_VID_MEM + VIDEO))] = ?b"
    by (simp add: VIRTUAL_VID_MEM_def VIDEO_def)
  let ?m = "copied a (\<lambda>j. ?b ! j) 4 (mem s)"
  have "user_stores a ?b s = Some (s\<lparr>mem := ?m\<rparr>)" using user_stores_area [of a a ?b s] area by (simp add: numeral_eq_Suc)
  then have v: "do_vidmap a s = Some (0, s\<lparr>mem := ?m\<rparr>)" using user by (simp add: do_vidmap_def b del: user_stores.simps)
  have "?m (a + of_nat j) = ?b ! j" if "j < 4" for j using copied_at [of 4 j a "\<lambda>j. ?b ! j"] that by simp
  from this [of 0] this [of 1] this [of 2] this [of 3] have "ld32 ?m a = 0x100B8000"
    by (simp add: ld32_def)
  then show "\<exists>u. do_vidmap a s = Some (0, u) \<and> ld32 (mem u) a = 0x100B8000 \<and> (\<forall>q. 4 \<le> unat (q - a) \<longrightarrow> mem u q = mem s q)"
    using v by (intro exI [of _ "s\<lparr>mem := ?m\<rparr>"]) (simp add: copied_def)
qed

theorem vidmap_stores_anywhere_witness:
  "\<exists>s u. init_task 1 kernel_demo = Some (0x7FC000, s) \<and>
     do_vidmap 0x400000 (s\<lparr>cur_task := 1, cr3 := 0xC00000\<rparr>) = Some (0, u) \<and> ld32 (mem u) 0x400000 = 0x100B8000 \<and>
     do_vidmap 0xC00000 (s\<lparr>cur_task := 1, cr3 := 0xC00000\<rparr>) = Some (- 1, s\<lparr>cur_task := 1, cr3 := 0xC00000\<rparr>)"
proof -
  have h: "task_pid_ok 1" "task_arrays_ok (task_store kernel_demo (get_task 1))"
    using stores_ok_demo by (simp_all add: task_pid_ok_def stores_ok_def)
  have a: "get_task 1 = 0x7FC000" "get_task_addr (u32_of 1) = 0xC00000"
    using task_layout(1,2) [OF h(1)] by simp_all
  obtain s where s: "init_task 1 kernel_demo = Some (0x7FC000, s)" "task_tables (mem s) 0xC00000" "task_pid (task_store s 0x7FC000) = 1"
    using init_task_result [OF h] unfolding a by auto
  let ?s = "s\<lparr>cur_task := 1, cr3 := 0xC00000\<rparr>"
  have c: "get_cur_task ?s = 0x7FC000" by (simp add: get_cur_task_def a(1))
  have "(\<forall>a. 0x400000 \<le> a \<and> a \<le> 0x7FFFFC \<longrightarrow> translate (mem ?s) (cr3 ?s) True a = None \<and>
      (\<exists>u. do_vidmap a ?s = Some (0, u) \<and> ld32 (mem u) a = 0x100B8000 \<and> (\<forall>q. 4 \<le> unat (q - a) \<longrightarrow> mem u q = mem ?s q))) \<and>
    (\<forall>x < 0x400000. do_vidmap (get_task_addr (u32_of 1) + x) ?s = Some (- 1, ?s))"
    by (rule vidmap_stores_anywhere [OF h(1)]) (use s c a in simp_all)
  from conjunct1 [OF this, rule_format, of "0x400000"] conjunct2 [OF this, rule_format, of 0] show ?thesis
    using s(1) a(2) by auto
qed

end
