(* ===== verification/Exceptions.thy ===== *)
theory Exceptions
  imports Lines Syscalls
begin

text \<open>
  What the kernel does on a processor exception: \<^verbatim>\<open>print_error\<close> of \<^verbatim>\<open>lib.c\<close> and the handlers of
  \<^verbatim>\<open>intel_intr_handlers.c\<close>. A handler shows a report on the screen, waits for a key and halts the task. The
  fault address in \<^verbatim>\<open>cr2\<close> is a parameter.
\<close>

section \<open>The report\<close>

text \<open>The two loops over the first entries of the page directory, in columns of 16 characters; \<^verbatim>\<open>break\<close> leaves the
  inner one.\<close>

function dump_rows :: "int \<Rightarrow> int \<Rightarrow> nat \<Rightarrow> 'a paging_scheme \<Rightarrow> (nat \<times> 'a paging_scheme) option" where
  "dump_rows x y index s =
     (if y < NUM_ROWS then
        (if index \<ge> 90 then Some (index, s)
         else do {
           s \<leftarrow> print_at x y (cstr ''%d:0x%#x'') [IntArg (of_nat index), IntArg (ld32 (mem s) (dword_at (pd s) (of_nat index)))] s;
           dump_rows x (y + 1) (index + 1) s })
      else Some (index, s))"
  by pat_completeness auto
termination by (relation "measure (\<lambda>(x, y, index, s). nat (NUM_ROWS - y))") auto

function dump_columns :: "int \<Rightarrow> int \<Rightarrow> nat \<Rightarrow> 'a paging_scheme \<Rightarrow> 'a paging_scheme option" where
  "dump_columns x starty index s =
     (if x < NUM_COLS then do {
        (index, s) \<leftarrow> dump_rows x starty index s;
        dump_columns (x + 16) starty index s }
      else Some s)"
  by pat_completeness auto
termination by (relation "measure (\<lambda>(x, y, index, s). nat (NUM_COLS - x))") auto

declare dump_rows.simps [simp del] dump_columns.simps [simp del]

text \<open>The parameter \<^verbatim>\<open>pid\<close> is overwritten, and the directory that the paging functions work on becomes that of the task.\<close>

definition print_error ::
  "u32 \<Rightarrow> u8 list \<Rightarrow> u32 \<Rightarrow> u32 \<Rightarrow> u32 \<Rightarrow> 'a kernel_scheme \<Rightarrow> 'a kernel_scheme option" where
  "print_error cr2 description error_code instr_ptr pid s = do {
     t \<leftarrow> task_at (get_cur_task s) s;
     let pid = u32_of (task_pid t);
     let s = s\<lparr>pd := page_directory t\<rparr>;
     str_len \<leftarrow> strlen description 0;
     s \<leftarrow> clear s;
     s \<leftarrow> print_at 0 0 (cstr ''Error       : %s'') [StrArg description] s;
     s \<leftarrow> print_at 0 1 (cstr ''Error Code  : 0x%#x'') [IntArg error_code] s;
     s \<leftarrow> print_at 0 2 (cstr ''Instruction : 0x%#x'') [IntArg instr_ptr] s;
     s \<leftarrow> print_at 0 3 (cstr ''Process ID  : 0x%#x'') [IntArg pid] s;
     t \<leftarrow> task_at (get_cur_task s) s;
     s \<leftarrow> print_at 0 4 (cstr ''Process Name: %s'') [StrArg (p_name t)] s;
     s \<leftarrow> print_at 0 5 (cstr ''Violated Mem: 0x%#x 0x%#x'') [IntArg (pd s), IntArg cr2] s;
     s \<leftarrow> print_at 0 6 (cstr ''Violated PDE: 0x%#x'') [IntArg (ld32 (mem s) (dword_at (pd s) (drop_bit 22 cr2)))] s;
     dump_columns 1 7 0 s }"

section \<open>The handlers\<close>

text \<open>A handler comes back to the interrupted code, or the task is halted.\<close>

datatype exception_end = Comes_back | Halted outcome

definition do_common_intr ::
  "('a kbd_scheme \<Rightarrow> 'a kbd_scheme option) list \<Rightarrow> 'a kbd_scheme \<Rightarrow> (exception_end \<times> 'a kbd_scheme) option" where
  "do_common_intr intrs s = do {
     let s = sti s;
     (_, _, s) \<leftarrow> terminal_read intrs 0 (Some [0]) 1 s;
     (_, s) \<leftarrow> set_cur_task_state TASK_EXCEPTION s;
     (r, s) \<leftarrow> do_halt 0 s;
     Some (Halted r, s) }"

text \<open>The handlers that report an exception, and their texts.\<close>

definition exception_texts :: "(string \<times> string) list" where
  "exception_texts = [
     (''do_idt_intel_de'', ''Divide by Zero''),
     (''do_idt_intel_db'', ''Debug''),
     (''do_idt_intel_bp'', ''Breakpoint''),
     (''do_idt_intel_of'', ''Overflow''),
     (''do_idt_intel_br'', ''Bounds Check Fault''),
     (''do_idt_intel_ud'', ''Invalid Opcode''),
     (''do_idt_intel_nm'', ''Device Not Available''),
     (''do_idt_intel_df'', ''Double Fault''),
     (''do_idt_intel_cso'', ''Coprocessor Segment Overrun''),
     (''do_idt_intel_ts'', ''Invalid TSS''),
     (''do_idt_intel_np'', ''Segment Not Present''),
     (''do_idt_intel_ss'', ''Stack Segment Fault''),
     (''do_idt_intel_gp'', ''General Protection Fault''),
     (''do_idt_intel_pf'', ''Page Fault''),
     (''do_idt_intel_mf'', ''Floating Point Fault''),
     (''do_idt_intel_ac'', ''Alignment Check Fault''),
     (''do_idt_intel_mc'', ''Machine-Check Exception''),
     (''do_idt_intel_xf'', ''Floating-Point Exception'')]"

text \<open>The handler with a name; \<^verbatim>\<open>eax\<close>, \<^verbatim>\<open>ebx\<close> and \<^verbatim>\<open>ecx\<close> are the registers that \<^verbatim>\<open>GET_ARGS\<close> reads.\<close>

definition intel_handler ::
  "('a kbd_scheme \<Rightarrow> 'a kbd_scheme option) list \<Rightarrow> u32 \<Rightarrow> string \<Rightarrow> u32 \<Rightarrow> u32 \<Rightarrow> u32 \<Rightarrow> 'a kbd_scheme \<Rightarrow>
   (exception_end \<times> 'a kbd_scheme) option" where
  "intel_handler intrs cr2 name eax ebx ecx s =
     (if name = ''do_idt_unknown_intr'' then do {
        s \<leftarrow> print_error cr2 (cstr ''Unknown Interrupt'') 0 0 0 s;
        do_common_intr intrs s }
      else if name = ''do_idt_intel_nmi'' then Some (Comes_back, s)
      else do {
        description \<leftarrow> map_of exception_texts name;
        s \<leftarrow> print_error cr2 (cstr description) eax ebx ecx s;
        do_common_intr intrs s })"

section \<open>The report is legible\<close>

definition dump_text :: "'a paging_scheme \<Rightarrow> nat \<Rightarrow> u8 list" where
  "dump_text s i = numeral_text 10 i @ bytes_of '':0x'' @ hex8 (ld32 (mem s) (dword_at (pd s) (of_nat i)))"

text \<open>Everything that a report says, with its place.\<close>

definition report :: "u32 \<Rightarrow> u8 list \<Rightarrow> u32 \<Rightarrow> u32 \<Rightarrow> task_t \<Rightarrow> u8 list \<Rightarrow> 'a paging_scheme \<Rightarrow> placed list" where
  "report cr2 description error_code instr_ptr t name s = [
     (0, 0, bytes_of ''Error       : '' @ description),
     (0, 1, bytes_of ''Error Code  : 0x'' @ hex8 error_code),
     (0, 2, bytes_of ''Instruction : 0x'' @ hex8 instr_ptr),
     (0, 3, bytes_of ''Process ID  : 0x'' @ hex8 (u32_of (task_pid t))),
     (0, 4, bytes_of ''Process Name: '' @ name),
     (0, 5, bytes_of ''Violated Mem: 0x'' @ hex8 (page_directory t) @ bytes_of '' 0x'' @ hex8 cr2),
     (0, 6, bytes_of ''Violated PDE: 0x'' @ hex8 (ld32 (mem s) (page_directory t + 4 * drop_bit 22 cr2)))]
     @ map (\<lambda>i. (1 + 16 * (i div 18), 7 + i mod 18, dump_text (s\<lparr>pd := page_directory t\<rparr>) i)) [0..<90]"

lemma signed_text_small: "i < 2147483648 \<Longrightarrow> signed_text (of_nat i) = numeral_text 10 i"
  using wrap32_id [of "int i"] by (simp add: signed_text_def wrap32_def)

lemma dump_rows_shown:
  fixes s :: "'a paging_scheme"
  assumes "screen_ok s" and "x < 80" and "k \<le> 25" and "i + k \<le> 90" 
  shows "\<exists>u. dump_rows (int x) (int (25 - k)) i s = Some (i + k, u) \<and>
    shown (map (\<lambda>j. (x, 25 - k + j, dump_text s (i + j))) [0..<k]) s u"
  using assms
proof (induction k arbitrary: i s)
  case 0
  then show ?case by (simp add: dump_rows.simps NUM_ROWS_def shown_refl)
next
  case (Suc k)
  have "\<exists>ds n. parse_format (cstr ''%d:0x%#x'') = Some (ds, n) \<and>
      render ds [IntArg (of_nat i), IntArg (ld32 (mem s) (dword_at (pd s) (of_nat i)))] = Some (dump_text s i)"
    using signed_text_small [of i] Suc.prems(4) by (simp add: cstr_def bytes_of_def conv_text_def dump_text_def)
  then obtain v where v: "print_at (int x) (int (25 - Suc k)) (cstr ''%d:0x%#x'')
      [IntArg (of_nat i), IntArg (ld32 (mem s) (dword_at (pd s) (of_nat i)))] s = Some v"
      "shown [(x, 25 - Suc k, dump_text s i)] s v"
    using print_at_shows [OF Suc.prems(1,2), of "25 - Suc k"] by fastforce
  obtain a b c where vs: "v = s\<lparr>screen_x := a, screen_y := b, video_mem := c\<rparr>" using shown_only [OF v(2)] by blast
  have "\<exists>u. dump_rows (int x) (int (25 - k)) (Suc i) v = Some (Suc i + k, u) \<and>
    shown (map (\<lambda>j. (x, 25 - k + j, dump_text v (Suc i + j))) [0..<k]) v u"
    by (rule Suc.IH) (use Suc.prems shown_mem [OF v(2)] in auto)
  then obtain u where u: "dump_rows (int x) (int (25 - k)) (Suc i) v = Some (Suc i + k, u)"
    "shown (map (\<lambda>j. (x, 25 - k + j, dump_text v (Suc i + j))) [0..<k]) v u" by blast
  have y: "int (25 - Suc k) + 1 = int (25 - k)" using Suc.prems(3) by simp
  have "dump_rows (int x) (int (25 - Suc k)) i s = Some (Suc i + k, u)"
    using v(1) u(1) Suc.prems(4) y by (subst dump_rows.simps) (simp add: NUM_ROWS_def)
  moreover have "dump_text v = dump_text s" using vs by (simp add: dump_text_def fun_eq_iff)
  then have "map (\<lambda>j. (x, 25 - Suc k + j, dump_text s (i + j))) [0..<Suc k] =
      [(x, 25 - Suc k, dump_text s i)] @ map (\<lambda>j. (x, 25 - k + j, dump_text v (Suc i + j))) [0..<k]"
    using Suc.prems(3) by (simp add: upt_conv_Cons map_Suc_upt [symmetric] comp_def del: upt_Suc)
  ultimately show ?case using shown_trans [OF v(2) u(2)] by simp
qed

lemma shown_text: "shown ps s u \<Longrightarrow> dump_text u = dump_text s"
  using shown_only [of ps s u] by (auto simp: dump_text_def fun_eq_iff)

lemma dump_columns_shown:
  assumes "screen_ok s" and "k \<le> 5"
  shows "\<exists>u. dump_columns (int (1 + 16 * (5 - k))) 7 (18 * (5 - k)) s = Some u \<and>
    shown (map (\<lambda>i. (1 + 16 * (i div 18), 7 + i mod 18, dump_text s i)) [18 * (5 - k)..<90]) s u"
  using assms
proof (induction k arbitrary: s)
  case 0
  then show ?case by (simp add: dump_columns.simps NUM_COLS_def shown_refl)
next
  case (Suc k)
  let ?x = "1 + 16 * (5 - Suc k)" and ?i = "18 * (5 - Suc k)"
  let ?m = "\<lambda>s i. (1 + 16 * (i div 18), 7 + i mod 18, dump_text s i)"
  have x: "?x < 80" "?i + 18 \<le> 90" "18 * (5 - k) = ?i + 18" "1 + 16 * (5 - k) = ?x + 16" using Suc.prems(2) by auto
  obtain v where v: "dump_rows (int ?x) 7 ?i s = Some (?i + 18, v)"
    "shown (map (\<lambda>j. (?x, 7 + j, dump_text s (?i + j))) [0..<18]) s v"
    using dump_rows_shown [OF Suc.prems(1) x(1), of 18 ?i] x(2) by auto
  have e: "map (\<lambda>j. (?x, 7 + j, dump_text s (?i + j))) [0..<18] = map (?m s) [?i..<?i + 18]"
    by (rule nth_equalityI) simp_all
  have "\<exists>u. dump_columns (int (1 + 16 * (5 - k))) 7 (18 * (5 - k)) v = Some u \<and> shown (map (?m v) [18 * (5 - k)..<90]) v u"
    by (rule Suc.IH) (use Suc.prems(2) shown_mem [OF v(2)] in auto)
  then obtain u where u: "dump_columns (int (?x + 16)) 7 (?i + 18) v = Some u" "shown (map (?m v) [?i + 18..<90]) v u"
    unfolding x(3,4) by blast
  have "dump_columns (int ?x) 7 ?i s = Some u"
    using v(1) u(1) x(1) by (subst dump_columns.simps) (simp add: NUM_COLS_def)
  moreover have "map (?m s) [?i..<90] = map (?m s) [?i..<?i + 18] @ map (?m v) [?i + 18..<90]"
    using upt_add_eq_append [of ?i "?i + 18" "90 - (?i + 18)"] x(2) shown_text [OF v(2)] by simp
  ultimately show ?case using shown_trans [OF v(2) u(2)] e by auto
qed

text \<open>A state in which the report of a task is being printed, and the step by one of its lines.\<close>

definition reporting :: "task_t \<Rightarrow> memory \<Rightarrow> 'a kernel_scheme \<Rightarrow> bool" where
  "reporting t m s = (screen_ok s \<and> mem s = m \<and> pd s = page_directory t \<and> task_at (get_cur_task s) s = Some t)"

lemma shown_reporting:
  assumes "shown ps s u" and "reporting t m s"
  shows "reporting t m u"
proof -
  obtain x y p where "u = s\<lparr>screen_x := x, screen_y := y, video_mem := p\<rparr>" using shown_only [OF assms(1)] by blast
  then show ?thesis using assms shown_mem [OF assms(1)] by (simp add: reporting_def task_at_def get_cur_task_def split: if_splits)
qed

lemma report_line:
  assumes "reporting t m s" and "x' = 0" and "y' = int y" and "y < 25"
    and "\<exists>ds n. parse_format fmt = Some (ds, n) \<and> render ds args = Some txt"
    and "\<And>u. reporting t m u \<Longrightarrow> \<exists>w. k u = Some w \<and> shown ps u w"
  shows "\<exists>w. print_at x' y' fmt args s \<bind> k = Some w \<and> shown ((0, y, txt) # ps) s w"
proof -
  have "screen_ok s" using assms(1) by (simp add: reporting_def)
  then obtain u where u: "print_at x' y' fmt args s = Some u" "shown [(0, y, txt)] s u"
    using print_at_shows [of s 0 y] assms(2-5) by fastforce
  then obtain w where "k u = Some w" "shown ps u w" using assms(6) shown_reporting assms(1) by blast
  then show ?thesis using u shown_trans [OF u(2)] by fastforce
qed

lemma report_task:
  "reporting t m s \<Longrightarrow> \<exists>w. k t = Some w \<and> Q w \<Longrightarrow> \<exists>w. task_at (get_cur_task s) s \<bind> k = Some w \<and> Q w"
  by (simp add: reporting_def)

lemma print_error_shown:
  assumes ok: "screen_ok s" and t: "task_at (get_cur_task s) s = Some t"
    and d: "0 \<notin> set description" and n: "p_name t = name @ 0 # junk" "0 \<notin> set name"
  shows "\<exists>u vm. print_error cr2 (description @ [0]) error_code instr_ptr pid s = Some u \<and> cells_of vm = replicate 2000 blank \<and>
    shown (report cr2 description error_code instr_ptr t name s) (s\<lparr>pd := page_directory t, video_mem := vm\<rparr>) u"
proof -
  let ?s = "s\<lparr>pd := page_directory t\<rparr>"
  have c: "c_string (description @ [0]) = Some description" "c_string (p_name t) = Some name"
    using c_string_append d n by auto
  have sl: "strlen (description @ [0]) 0 = Some (length description)"
    by (rule strlen_string) (use d in \<open>auto simp: string_at_def nth_append in_set_conv_nth\<close>)
  obtain s0 where s0: "clear ?s = Some s0" "page (video_mem s0)" "cells_of (video_mem s0) = replicate 2000 blank"
    "s0 = ?s\<lparr>video_mem := video_mem s0\<rparr>"
    using clear_shows [of ?s] ok by (auto simp: screen_ok_def)
  then obtain vm where vm: "s0 = s\<lparr>pd := page_directory t, video_mem := vm\<rparr>" by simp
  have r0: "reporting t (mem s) s0"
    using ok t s0(2) by (simp add: vm reporting_def screen_ok_def task_at_def get_cur_task_def split: if_splits)
  let ?p = "\<lambda>fmt args txt. \<exists>ds n. parse_format (cstr fmt) = Some (ds, n) \<and> render ds args = Some txt"
  have p: "?p ''Error       : %s'' [StrArg (description @ [0])] (bytes_of ''Error       : '' @ description)"
    "?p ''Error Code  : 0x%#x'' [IntArg a] (bytes_of ''Error Code  : 0x'' @ hex8 a)"
    "?p ''Instruction : 0x%#x'' [IntArg a] (bytes_of ''Instruction : 0x'' @ hex8 a)"
    "?p ''Process ID  : 0x%#x'' [IntArg a] (bytes_of ''Process ID  : 0x'' @ hex8 a)"
    "?p ''Process Name: %s'' [StrArg (p_name t)] (bytes_of ''Process Name: '' @ name)"
    "?p ''Violated Mem: 0x%#x 0x%#x'' [IntArg a, IntArg b] (bytes_of ''Violated Mem: 0x'' @ hex8 a @ bytes_of '' 0x'' @ hex8 b)"
    "?p ''Violated PDE: 0x%#x'' [IntArg a] (bytes_of ''Violated PDE: 0x'' @ hex8 a)" for a b
    using c by (simp_all add: cstr_def bytes_of_def conv_text_def)
  have dump: "\<exists>w. dump_columns 1 7 0 u = Some w \<and> shown (map (\<lambda>i. (1 + 16 * (i div 18), 7 + i mod 18, dump_text ?s i)) [0..<90]) u w"
    if "reporting t (mem s) u" for u :: "'a kernel_scheme"
  proof -
    have "dump_text u = dump_text ?s" by (rule ext) (use that in \<open>simp add: reporting_def dump_text_def\<close>)
    then show ?thesis using dump_columns_shown [of u 5] that by (simp add: reporting_def)
  qed
  let ?rest = "\<lambda>s. do {
     s \<leftarrow> print_at 0 0 (cstr ''Error       : %s'') [StrArg (description @ [0])] s;
     s \<leftarrow> print_at 0 1 (cstr ''Error Code  : 0x%#x'') [IntArg error_code] s;
     s \<leftarrow> print_at 0 2 (cstr ''Instruction : 0x%#x'') [IntArg instr_ptr] s;
     s \<leftarrow> print_at 0 3 (cstr ''Process ID  : 0x%#x'') [IntArg (u32_of (task_pid t))] s;
     t \<leftarrow> task_at (get_cur_task s) s;
     s \<leftarrow> print_at 0 4 (cstr ''Process Name: %s'') [StrArg (p_name t)] s;
     s \<leftarrow> print_at 0 5 (cstr ''Violated Mem: 0x%#x 0x%#x'') [IntArg (pd s), IntArg cr2] s;
     s \<leftarrow> print_at 0 6 (cstr ''Violated PDE: 0x%#x'') [IntArg (ld32 (mem s) (dword_at (pd s) (drop_bit 22 cr2)))] s;
     dump_columns 1 7 0 s }"
  have "\<exists>w. ?rest s0 = Some w \<and> shown (report cr2 description error_code instr_ptr t name s) s0 w"
    unfolding report_def append.simps
    by (rule report_line [OF r0 _ _ _ p(1)], simp, simp, simp, rule report_line [OF _ _ _ _ p(2)], assumption, simp, simp, simp,
        rule report_line [OF _ _ _ _ p(3)], assumption, simp, simp, simp, rule report_line [OF _ _ _ _ p(4)], assumption,
        simp, simp, simp, rule report_task, assumption, rule report_line [OF _ _ _ _ p(5)], assumption, simp, simp, simp,
        rule report_line, assumption, simp, simp, simp, use p(6) in \<open>simp add: reporting_def\<close>,
        rule report_line, assumption, simp, simp, simp, use p(7) in \<open>simp add: reporting_def\<close>, rule dump)
  moreover have "print_error cr2 (description @ [0]) error_code instr_ptr pid s = ?rest s0"
    using t sl s0(1) by (simp add: print_error_def)
  ultimately show ?thesis using s0(3) vm by auto
qed

lemma digits_in_table: "r \<le> 36 \<Longrightarrow> set (digits_lsd r v) \<subseteq> set (take 36 itoa_lookup)"
proof (induction r v rule: digits_lsd.induct)
  case (1 r v)
  show ?case
  proof (cases "v = 0 \<or> r < 2")
    case True
    then show ?thesis by (simp add: digits_lsd.simps [of r v])
  next
    case False
    then have "v mod r < 36" using 1(2) mod_less_divisor [of r v] by linarith
    then have "itoa_lookup ! (v mod r) \<in> set (take 36 itoa_lookup)"
      by (force simp: in_set_conv_nth length_itoa_lookup)
    then show ?thesis using 1 False by (simp add: digits_lsd.simps [of r v])
  qed
qed

lemma table_no_newline: "\<forall>c \<in> set (take 36 itoa_lookup). \<not> newline_byte c"
  by (simp add: itoa_lookup_def cstr_def bytes_of_def newline_byte_def)

lemma numeral_text_chars: "r \<le> 36 \<Longrightarrow> c \<in> set (numeral_text r v) \<Longrightarrow> \<not> newline_byte c"
  using digits_in_table [of r v] table_no_newline
  by (auto simp: numeral_text_def newline_byte_def split: if_splits)

lemma hex8_chars: "length (hex8 v) = 8" "c \<in> set (hex8 v) \<Longrightarrow> \<not> newline_byte c"
  using length_u32_text(1) [of v] numeral_text_chars [of 16 c "unat v"] by (auto simp: hex8_def Let_def newline_byte_def)

lemma hex8_clean: "10 \<notin> set (hex8 v)" "13 \<notin> set (hex8 v)"
  using hex8_chars(2) [of 10 v] hex8_chars(2) [of 13 v] by (auto simp: newline_byte_def)

lemma dump_text_fits:
  assumes "i < 90"
  shows "length (dump_text s i) \<le> 13" and "\<forall>c \<in> set (dump_text s i). \<not> newline_byte c"
  using length_numeral_text [of 10 2 i] numeral_text_chars [of 10 _ i] hex8_chars assms
  by (auto simp: dump_text_def bytes_of_def newline_byte_def)

lemma report_fits:
  assumes "length description \<le> 60" "\<forall>c \<in> set description. \<not> newline_byte c"
    and "length name \<le> 60" "\<forall>c \<in> set name. \<not> newline_byte c"
  shows "\<forall>p \<in> set (report cr2 description error_code instr_ptr t name s). fits p"
    and "sorted_wrt apart (report cr2 description error_code instr_ptr t name s)"
proof -
  let ?m = "\<lambda>i. (1 + 16 * (i div 18), 7 + i mod 18, dump_text (s\<lparr>pd := page_directory t\<rparr>) i)"
  have e: "fits (?m i)" if "i < 90" for i
    using dump_text_fits [OF that, of "s\<lparr>pd := page_directory t\<rparr>"] that div_le_mono [of i 89 18] by (auto simp: fits_def)
  show "\<forall>p \<in> set (report cr2 description error_code instr_ptr t name s). fits p"
    using assms e hex8_chars(1) hex8_clean by (auto simp: report_def fits_def bytes_of_def newline_byte_def)
  have a: "apart (?m i) (?m j)" if "i < j" "j < 90" for i j
  proof (cases "i mod 18" "j mod 18" rule: linorder_cases)
    case equal
    then have "i div 18 < j div 18" using that by (metis div_le_mono div_mod_decomp le_neq_implies_less less_imp_le nat_neq_iff)
    then show ?thesis using equal dump_text_fits(1) [of i "s\<lparr>pd := page_directory t\<rparr>"] that by (simp add: apart_def)
  qed (use e [of i] e [of j] that in \<open>auto simp: apart_def fits_def\<close>)
  have "sorted_wrt apart (map ?m [0..<90])"
    unfolding sorted_wrt_map by (rule sorted_wrt_mono_rel [OF _ sorted_wrt_upt]) (rule a, simp_all)
  moreover have "apart (0, y, u) (?m i)" if "y < 7" "length u \<le> 80" for y u i
    using that by (simp add: apart_def)
  ultimately show "sorted_wrt apart (report cr2 description error_code instr_ptr t name s)"
    using assms hex8_chars(1) by (auto simp: report_def sorted_wrt_append apart_def bytes_of_def)
qed

text \<open>C19. Whatever the screen showed and wherever the cursor was, the report of an exception does not fault, and everything
  in it can be read on the screen: what happened, the error code, the address of the instruction, the task's number and name,
  the fault address with its entry of the page directory, and the first 90 entries of the directory; only the
  screen and the pointer to the current page directory change.\<close>

theorem exception_report_legible:
  assumes "screen_ok s" and "task_at (get_cur_task s) s = Some t"
    and "0 \<notin> set description" and "length description \<le> 60" and "\<forall>c \<in> set description. \<not> newline_byte c"
    and "p_name t = name @ 0 # junk" and "0 \<notin> set name" and "length name \<le> 60" and "\<forall>c \<in> set name. \<not> newline_byte c"
  shows "\<exists>u. print_error cr2 (description @ [0]) error_code instr_ptr pid s = Some u \<and> screen_ok u \<and>
    (\<forall>p \<in> set (report cr2 description error_code instr_ptr t name s). legible (cells_of (video_mem u)) p) \<and>
    u = s\<lparr>pd := page_directory t, screen_x := screen_x u, screen_y := screen_y u, video_mem := video_mem u\<rparr>"
proof -
  obtain u vm where u: "print_error cr2 (description @ [0]) error_code instr_ptr pid s = Some u" "cells_of vm = replicate 2000 blank"
    "shown (report cr2 description error_code instr_ptr t name s) (s\<lparr>pd := page_directory t, video_mem := vm\<rparr>) u"
    using print_error_shown [OF assms(1,2,3,6,7)] by blast
  have fit: "\<forall>p \<in> set (report cr2 description error_code instr_ptr t name s). fits p"
    "sorted_wrt apart (report cr2 description error_code instr_ptr t name s)"
    by (rule report_fits [OF assms(4,5,8,9)])+
  have "\<forall>p \<in> set (report cr2 description error_code instr_ptr t name s). legible (cells_of (video_mem u)) p"
    using legible_all [OF fit, of "replicate 2000 blank"] u(2,3) by (simp add: shown_def)
  moreover obtain x y p where "u = s\<lparr>pd := page_directory t, screen_x := x, screen_y := y, video_mem := p\<rparr>"
    using shown_only [OF u(3)] by auto
  ultimately show ?thesis using u(1,3) by (simp add: shown_def)
qed

theorem exception_report_legible_witness:
  "\<exists>u. print_error 0x8001234 (cstr ''Page Fault'') 6 0x8048100 0 typing_demo = Some u \<and>
     legible (cells_of (video_mem u)) (0, 0, bytes_of ''Error       : Page Fault'') \<and>
     legible (cells_of (video_mem u)) (0, 2, bytes_of ''Instruction : 0x08048100'') \<and>
     legible (cells_of (video_mem u)) (65, 24, dump_text (typing_demo\<lparr>pd := 0\<rparr>) 89)"
proof -
  let ?d = "bytes_of ''Page Fault''"
  have ok: "screen_ok typing_demo" using typing_demo_ok(1) by (simp add: edit_ok_def)
  have t: "task_at (get_cur_task typing_demo) typing_demo = Some task_demo_task"
    by (simp add: task_at_def get_cur_task_def get_task_0 typing_demo_def terminals_demo_def kernel_demo_def sched_init_def
        tasks.defs)
  have n: "p_name task_demo_task = [] @ 0 # replicate 31 0" by (simp add: task_demo_task_def replicate_num)
  have d: "0 \<notin> set ?d" "length ?d \<le> 60" "\<forall>c \<in> set ?d. \<not> newline_byte c"
    by (simp_all add: bytes_of_def newline_byte_def)
  have e: "0 \<notin> set ([] :: u8 list)" "length ([] :: u8 list) \<le> 60" "\<forall>c \<in> set ([] :: u8 list). \<not> newline_byte c" by simp_all
  let ?r = "report 0x8001234 ?d 6 0x8048100 task_demo_task [] typing_demo"
  obtain u where u: "print_error 0x8001234 (?d @ [0]) 6 0x8048100 0 typing_demo = Some u"
    "\<forall>p \<in> set ?r. legible (cells_of (video_mem u)) p"
    using exception_report_legible [OF ok t d n e, of "0x8001234" 6 "0x8048100" 0] by blast
  have pd: "page_directory task_demo_task = 0" by (simp add: task_demo_task_def)
  have "hex8 0x8048100 = bytes_of ''08048100''"
    by (simp add: hex8_def numeral_text_def digits_lsd.simps itoa_lookup_def cstr_def bytes_of_def replicate_num)
  then have "(0, 0, bytes_of ''Error       : Page Fault'') \<in> set ?r" "(0, 2, bytes_of ''Instruction : 0x08048100'') \<in> set ?r"
    by (simp_all add: report_def bytes_of_def)
  moreover have "(65, 24, dump_text (typing_demo\<lparr>pd := 0\<rparr>) 89) \<in> set ?r"
    unfolding report_def set_append set_map pd by (rule UnI2, rule image_eqI [of _ _ 89]) simp_all
  ultimately show ?thesis using u by (simp add: cstr_def)
qed

end
