(* ===== verification/Entries.thy ===== *)
theory Entries
  imports Timer Boot Exceptions
begin

text \<open>
  The assembly entry points besides that of the timer: \<^verbatim>\<open>hardware_intr.S\<close> (keyboard and clock),
  \<^verbatim>\<open>intel_intr.S\<close> (exceptions) and \<^verbatim>\<open>sys_calls.S\<close> (the system call interrupt), instruction by instruction on
  the registers and the bytes of the kernel stack. What the processor does on an interrupt and on
  \<^verbatim>\<open>iret\<close> is part of the model. C functions are called under the calling convention, which is a locale.
\<close>

unbundle bit_operations_syntax

section \<open>The processor and its stack\<close>

text \<open>The bytes of the kernel stack from the stack pointer upwards; in user mode, from where the stack pointer of
  the task state segment points.\<close>

record proc = cpu +
  stack :: "u8 list"

definition bytes32 :: "u32 \<Rightarrow> u8 list" where
  "bytes32 v = [ucast v, ucast (drop_bit 8 v), ucast (drop_bit 16 v), ucast (drop_bit 24 v)]"

definition bytes16 :: "u16 \<Rightarrow> u8 list" where
  "bytes16 v = [ucast v, ucast (drop_bit 8 v)]"

definition pushl :: "u32 \<Rightarrow> proc \<Rightarrow> proc" where
  "pushl v c = c\<lparr>stack := bytes32 v @ stack c, r_esp := r_esp c - 4\<rparr>"

definition pushw :: "u16 \<Rightarrow> proc \<Rightarrow> proc" where
  "pushw v c = c\<lparr>stack := bytes16 v @ stack c, r_esp := r_esp c - 2\<rparr>"

text \<open>The dword at an offset from the stack pointer.\<close>

definition loadl :: "nat \<Rightarrow> proc \<Rightarrow> u32 option" where
  "loadl k c = (case drop k (stack c) of
     a # b # d # e # r \<Rightarrow> Some (ucast a OR push_bit 8 (ucast b) OR push_bit 16 (ucast d) OR push_bit 24 (ucast e))
   | _ \<Rightarrow> None)"

definition storel :: "nat \<Rightarrow> u32 \<Rightarrow> proc \<Rightarrow> proc option" where
  "storel k v c = (if k + 4 \<le> length (stack c) then Some (c\<lparr>stack := take k (stack c) @ bytes32 v @ drop (k + 4) (stack c)\<rparr>) else None)"

definition addl_esp :: "nat \<Rightarrow> proc \<Rightarrow> proc" where
  "addl_esp k c = c\<lparr>stack := drop k (stack c), r_esp := r_esp c + of_nat k\<rparr>"

definition popl :: "proc \<Rightarrow> (u32 \<times> proc) option" where
  "popl c = do { v \<leftarrow> loadl 0 c; Some (v, addl_esp 4 c) }"

definition popw :: "proc \<Rightarrow> (u16 \<times> proc) option" where
  "popw c = (case stack c of a # b # r \<Rightarrow> Some (ucast a OR push_bit 8 (ucast b), addl_esp 2 c) | _ \<Rightarrow> None)"

definition pusha :: "proc \<Rightarrow> proc" where
  "pusha c = pushl (r_edi c) (pushl (r_esi c) (pushl (r_ebp c) (pushl (r_esp c) (pushl (r_ebx c) (pushl (r_edx c)
     (pushl (r_ecx c) (pushl (r_eax c) c)))))))"

definition popa :: "proc \<Rightarrow> proc option" where
  "popa c = do {
     (edi, c) \<leftarrow> popl c; (esi, c) \<leftarrow> popl c; (ebp, c) \<leftarrow> popl c; (_, c) \<leftarrow> popl c;
     (ebx, c) \<leftarrow> popl c; (edx, c) \<leftarrow> popl c; (ecx, c) \<leftarrow> popl c; (eax, c) \<leftarrow> popl c;
     Some (c\<lparr>r_edi := edi, r_esi := esi, r_ebp := ebp, r_ebx := ebx, r_edx := edx, r_ecx := ecx, r_eax := eax\<rparr>) }"

text \<open>Going through a gate: from user code the stack of the task state segment is taken first. An interrupt gate
  switches interrupts off; each gate clears the flags TF, NT, RF and VM.\<close>

definition gate_flags :: "bool \<Rightarrow> u32 \<Rightarrow> u32" where
  "gate_flags intr flags = flags AND NOT (if intr then 0x34300 else 0x34100)"

definition take_gate :: "bool \<Rightarrow> u32 option \<Rightarrow> u32 \<Rightarrow> u16 \<Rightarrow> proc \<Rightarrow> proc" where
  "take_gate intr error_code esp0 ss0 c = (
     let d = (if user_mode (r_cs c) then pushl (r_esp c) (pushl (ucast (r_ss c)) (c\<lparr>r_esp := esp0, r_ss := ss0\<rparr>)) else c);
         d = pushl (r_eip c) (pushl (ucast (r_cs c)) (pushl (r_eflags c) d));
         d = (case error_code of None \<Rightarrow> d | Some e \<Rightarrow> pushl e d)
     in d\<lparr>r_cs := KERNEL_CS, r_eflags := gate_flags intr (r_eflags c)\<rparr>)"

text \<open>\<^verbatim>\<open>iret\<close>; back in user mode a data segment of the kernel is replaced by the null selector.\<close>

definition iret :: "proc \<Rightarrow> proc option" where
  "iret c = do {
     (eip, c) \<leftarrow> popl c; (cs, c) \<leftarrow> popl c; (eflags, c) \<leftarrow> popl c;
     (if user_mode (ucast cs) \<and> \<not> user_mode (r_cs c) then do {
        (esp, c) \<leftarrow> popl c; (ss, c) \<leftarrow> popl c;
        Some (c\<lparr>r_eip := eip, r_cs := ucast cs, r_eflags := eflags, r_esp := esp, r_ss := ucast ss,
                r_ds := seg_after (r_ds c), r_es := seg_after (r_es c), r_fs := seg_after (r_fs c),
                r_gs := seg_after (r_gs c)\<rparr>) }
      else Some (c\<lparr>r_eip := eip, r_cs := ucast cs, r_eflags := eflags\<rparr>)) }"

section \<open>Hardware interrupts\<close>

type_synonym 's c_fun = "proc \<Rightarrow> 's \<Rightarrow> (proc \<times> 's) option"

text \<open>\<^verbatim>\<open>code\<close> is the C function at an address.\<close>

definition handle_idt :: "(u32 \<Rightarrow> 's c_fun) \<Rightarrow> 's c_fun" where
  "handle_idt code c s = do {
     let c = pusha c;
     let c = pushl (r_eflags c) c;
     a \<leftarrow> loadl 36 c;
     let c = c\<lparr>r_edi := a\<rparr>;
     (c, s) \<leftarrow> code (r_edi c) c s;
     (flags, c) \<leftarrow> popl c;
     c \<leftarrow> popa (c\<lparr>r_eflags := flags\<rparr>);
     c \<leftarrow> iret (addl_esp 4 c);
     Some (c, s) }"

definition hardware_entry :: "(string \<Rightarrow> u32) \<Rightarrow> (u32 \<Rightarrow> 's c_fun) \<Rightarrow> string \<Rightarrow> 's c_fun" where
  "hardware_entry symbol code handler c s = handle_idt code (pushl (symbol handler) c) s"

section \<open>Exceptions\<close>

text \<open>The stubs: whether they push a zero for the error code, and the handler.\<close>

definition intel_stubs :: "(string \<times> bool \<times> string) list" where
  "intel_stubs = [
     (''idt_intel_de'', True, ''do_idt_intel_de''), (''idt_intel_db'', True, ''do_idt_intel_db''),
     (''idt_intel_nmi'', True, ''do_idt_intel_nmi''), (''idt_intel_bp'', True, ''do_idt_intel_bp''),
     (''idt_intel_of'', True, ''do_idt_intel_of''), (''idt_intel_br'', True, ''do_idt_intel_br''),
     (''idt_intel_ud'', True, ''do_idt_intel_ud''), (''idt_intel_nm'', True, ''do_idt_intel_nm''),
     (''idt_intel_df'', False, ''do_idt_intel_df''), (''idt_intel_cso'', True, ''do_idt_intel_cso''),
     (''idt_intel_ts'', False, ''do_idt_intel_ts''), (''idt_intel_np'', False, ''do_idt_intel_np''),
     (''idt_intel_ss'', False, ''do_idt_intel_ss''), (''idt_intel_gp'', False, ''do_idt_intel_gp''),
     (''idt_intel_pf'', False, ''do_idt_intel_pf''), (''idt_intel_mf'', False, ''do_idt_intel_mf''),
     (''idt_intel_ac'', False, ''do_idt_intel_ac''), (''idt_intel_mc'', True, ''do_idt_intel_mc''),
     (''idt_intel_xf'', True, ''do_idt_intel_xf'')]"

text \<open>\<^verbatim>\<open>error_code\<close>, with the handler by name; it gets the registers that \<^verbatim>\<open>GET_ARGS\<close> reads. Where it halts the
  task there is no way back.\<close>

definition error_code ::
  "(string \<Rightarrow> u32 \<Rightarrow> u32 \<Rightarrow> u32 \<Rightarrow> 's \<Rightarrow> (exception_end \<times> 's) option) \<Rightarrow> string \<Rightarrow> proc \<Rightarrow> 's \<Rightarrow> ((proc + outcome) \<times> 's) option" where
  "error_code handlers handler c s = do {
     let c = pusha c;
     let c = c\<lparr>r_ecx := 97\<rparr>;
     v \<leftarrow> loadl 40 c;
     let c = c\<lparr>r_ebx := v\<rparr>;
     v \<leftarrow> loadl 36 c;
     let c = c\<lparr>r_eax := v\<rparr>;
     c \<leftarrow> storel 36 (- 1) c;
     v \<leftarrow> loadl 32 c;
     let c = c\<lparr>r_edi := v\<rparr>;
     (r, s) \<leftarrow> handlers handler (r_eax c) (r_ebx c) (r_ecx c) s;
     (case r of
        Halted oc \<Rightarrow> Some (Inr oc, s)
      | Comes_back \<Rightarrow> do {
          c \<leftarrow> popa c;
          c \<leftarrow> iret (addl_esp 8 c);
          Some (Inl c, s) }) }"

definition intel_entry ::
  "(string \<Rightarrow> u32) \<Rightarrow> (string \<Rightarrow> u32 \<Rightarrow> u32 \<Rightarrow> u32 \<Rightarrow> 's \<Rightarrow> (exception_end \<times> 's) option) \<Rightarrow> string \<Rightarrow> proc \<Rightarrow> 's \<Rightarrow>
   ((proc + outcome) \<times> 's) option" where
  "intel_entry symbol handlers name c s =
     (if name = ''idt_unknown_intr'' then do { c \<leftarrow> iret c; Some (Inl c, s) }
      else do {
        (zero, handler) \<leftarrow> map_of intel_stubs name;
        let c = (if zero then pushl 0 c else c);
        error_code handlers handler (pushl (symbol handler) c) s })"

section \<open>System calls\<close>

text \<open>The entry of interrupt 0x80 and its end at the label \<^verbatim>\<open>done\<close>; \<^verbatim>\<open>calls\<close> is the jump table.\<close>

definition system_call_done :: "proc \<Rightarrow> proc option" where
  "system_call_done c = do {
     (fs, c) \<leftarrow> popw c; (es, c) \<leftarrow> popw c; (ds, c) \<leftarrow> popw c;
     (edi, c) \<leftarrow> popl c; (esi, c) \<leftarrow> popl c; (ebx, c) \<leftarrow> popl c; (ebp, c) \<leftarrow> popl c;
     iret (c\<lparr>r_fs := fs, r_es := es, r_ds := ds, r_edi := edi, r_esi := esi, r_ebx := ebx, r_ebp := ebp\<rparr>) }"

definition system_call :: "(nat \<Rightarrow> 's c_fun) \<Rightarrow> 's c_fun" where
  "system_call calls c s = do {
     let c = pushl (r_edi c) (pushl (r_esi c) (pushl (r_ebx c) (pushl (r_ebp c) c)));
     let c = pushw (r_fs c) (pushw (r_es c) (pushw (r_ds c) c));
     (if sint (r_eax c) < 1 \<or> sint (r_eax c) > 10 then do { c \<leftarrow> system_call_done c; Some (c, s) }
      else do {
        let c = c\<lparr>r_esi := (r_esi c AND 0xFFFF0000) OR ucast KERNEL_DS\<rparr>;
        let c = c\<lparr>r_ds := ucast (r_esi c)\<rparr>;
        let c = pushl (r_ebx c) (pushl (r_ecx c) (pushl (r_edx c) c));
        (c, s) \<leftarrow> calls (unat (r_eax c) - 1) c s;
        c \<leftarrow> system_call_done (addl_esp 12 c);
        Some (c, s) }) }"

section \<open>Stack lemmas\<close>

lemma load_bytes32:
  fixes v :: u32
  shows "ucast (ucast v :: u8) OR push_bit 8 (ucast (ucast (drop_bit 8 v) :: u8)) OR push_bit 16 (ucast (ucast (drop_bit 16 v) :: u8))
     OR push_bit 24 (ucast (ucast (drop_bit 24 v) :: u8)) = v"
  by (rule bytes_of_word)

lemma load_bytes16:
  fixes v :: u16
  shows "ucast (ucast v :: u8) OR push_bit 8 (ucast (ucast (drop_bit 8 v) :: u8)) = v"
proof (rule bit_word_eqI)
  fix n assume "n < LENGTH(16)"
  then show "bit (ucast (ucast v :: u8) OR push_bit 8 (ucast (ucast (drop_bit 8 v) :: u8)) :: u16) n = bit v n"
    by (cases "n < 8") (auto simp: bit_simps not_less)
qed

lemma ucast_u16_u32 [simp]: "(ucast (ucast (v :: u16) :: u32) :: u16) = v"
  by (rule bit_word_eqI) (auto simp: bit_simps)

lemma popl_pushed [simp]: "stack c = bytes32 v @ r \<Longrightarrow> popl c = Some (v, c\<lparr>stack := r, r_esp := r_esp c + 4\<rparr>)"
  by (simp add: popl_def loadl_def addl_esp_def bytes32_def load_bytes32)

lemma popw_pushed [simp]: "stack c = bytes16 v @ r \<Longrightarrow> popw c = Some (v, c\<lparr>stack := r, r_esp := r_esp c + 2\<rparr>)"
  by (simp add: popw_def addl_esp_def bytes16_def load_bytes16)

lemma length_bytes [simp]: "length (bytes32 v) = 4" "length (bytes16 w) = 2"
  by (simp_all add: bytes32_def bytes16_def)

lemma loadl_top: "stack c = bytes32 v @ r \<Longrightarrow> loadl 0 c = Some v"
  by (simp add: loadl_def bytes32_def load_bytes32)

lemma loadl_skip: "stack c = b @ r \<Longrightarrow> length b \<le> k \<Longrightarrow> loadl k c = loadl (k - length b) (c\<lparr>stack := r\<rparr>)"
  by (simp add: loadl_def)

lemma kernel_ds_low: "(ucast ((x AND 0xFFFF0000) OR ucast KERNEL_DS :: u32) :: u16) = KERNEL_DS" for x :: u32
  unfolding halves by (rule bit_word_eqI) (auto simp: bit_simps KERNEL_DS_def)

lemma kernel_cs [simp]: "\<not> user_mode KERNEL_CS"
  by (simp add: user_mode_def KERNEL_CS_def)

text \<open>A processor that an interrupt can return to: in user mode it has no data segment of the kernel.\<close>

definition returnable :: "proc \<Rightarrow> bool" where
  "returnable c = (user_mode (r_cs c) \<longrightarrow> seg_after (r_ds c) = r_ds c \<and> seg_after (r_es c) = r_es c \<and> seg_after (r_fs c) = r_fs c \<and>
     seg_after (r_gs c) = r_gs c)"

text \<open>The frame that the processor pushes, and the way back through it.\<close>

definition gate_frame :: "proc \<Rightarrow> u8 list" where
  "gate_frame c = bytes32 (r_eip c) @ bytes32 (ucast (r_cs c)) @ bytes32 (r_eflags c) @
     (if user_mode (r_cs c) then bytes32 (r_esp c) @ bytes32 (ucast (r_ss c)) else []) @ stack c"

lemma take_gate_stack:
  "stack (take_gate intr None esp0 ss0 c) = gate_frame c"
  "stack (take_gate intr (Some e) esp0 ss0 c) = bytes32 e @ gate_frame c"
  by (simp_all add: take_gate_def gate_frame_def pushl_def Let_def)

lemma take_gate_regs:
  "r_eax (take_gate intr er esp0 ss0 c) = r_eax c" "r_ebx (take_gate intr er esp0 ss0 c) = r_ebx c"
  "r_ecx (take_gate intr er esp0 ss0 c) = r_ecx c" "r_edx (take_gate intr er esp0 ss0 c) = r_edx c"
  "r_esi (take_gate intr er esp0 ss0 c) = r_esi c" "r_edi (take_gate intr er esp0 ss0 c) = r_edi c"
  "r_ebp (take_gate intr er esp0 ss0 c) = r_ebp c" "r_ds (take_gate intr er esp0 ss0 c) = r_ds c"
  "r_es (take_gate intr er esp0 ss0 c) = r_es c" "r_fs (take_gate intr er esp0 ss0 c) = r_fs c"
  "r_gs (take_gate intr er esp0 ss0 c) = r_gs c" "r_cs (take_gate intr er esp0 ss0 c) = KERNEL_CS"
  by (simp_all add: take_gate_def pushl_def Let_def split: option.splits)

text \<open>In the kernel, the stack pointer and segment where the frame starts.\<close>

definition frame_base :: "u32 \<Rightarrow> u16 \<Rightarrow> proc \<Rightarrow> u32 \<times> u16" where
  "frame_base esp0 ss0 c = (if user_mode (r_cs c) then (esp0 - 20, ss0) else (r_esp c - 12, r_ss c))"

lemma take_gate_esp:
  "(r_esp (take_gate intr None esp0 ss0 c), r_ss (take_gate intr None esp0 ss0 c)) = frame_base esp0 ss0 c"
  "(r_esp (take_gate intr (Some e) esp0 ss0 c) + 4, r_ss (take_gate intr (Some e) esp0 ss0 c)) = frame_base esp0 ss0 c"
  by (simp_all add: take_gate_def frame_base_def pushl_def Let_def)

lemma iret_frame_es:
  assumes "stack d = gate_frame c" and "(r_esp d, r_ss d) = frame_base esp0 ss0 c" and "\<not> user_mode (r_cs d)"
    and "returnable (d\<lparr>r_cs := r_cs c, r_es := 3\<rparr>)"
  shows "iret d = Some (d\<lparr>r_eip := r_eip c, r_cs := r_cs c, r_eflags := r_eflags c, r_esp := r_esp c, r_ss := r_ss c, stack := stack c,
    r_es := seg_for (r_cs c) (r_es d)\<rparr>)"
  using assms by (auto simp: iret_def gate_frame_def frame_base_def returnable_def seg_for_def)

lemma iret_frame:
  assumes "stack d = gate_frame c" and "(r_esp d, r_ss d) = frame_base esp0 ss0 c" and "\<not> user_mode (r_cs d)"
    and "returnable (d\<lparr>r_cs := r_cs c\<rparr>)"
  shows "iret d = Some (d\<lparr>r_eip := r_eip c, r_cs := r_cs c, r_eflags := r_eflags c, r_esp := r_esp c, r_ss := r_ss c, stack := stack c\<rparr>)"
  using assms by (auto simp: iret_def gate_frame_def frame_base_def returnable_def)

definition saved :: "proc \<Rightarrow> u8 list" where
  "saved c = bytes32 (r_edi c) @ bytes32 (r_esi c) @ bytes32 (r_ebp c) @ bytes32 (r_esp c) @ bytes32 (r_ebx c) @
     bytes32 (r_edx c) @ bytes32 (r_ecx c) @ bytes32 (r_eax c)"

lemma length_saved [simp]: "length (saved c) = 32"
  by (simp add: saved_def)

lemma pusha_result: "pusha c = c\<lparr>stack := saved c @ stack c, r_esp := r_esp c - 32\<rparr>"
  by (simp add: pusha_def pushl_def saved_def)

lemma popa_result:
  "stack d = saved c @ r \<Longrightarrow> popa d = Some (d\<lparr>r_edi := r_edi c, r_esi := r_esi c, r_ebp := r_ebp c, r_ebx := r_ebx c,
     r_edx := r_edx c, r_ecx := r_ecx c, r_eax := r_eax c, stack := r, r_esp := r_esp d + 32\<rparr>)"
  by (simp add: popa_def saved_def)

lemma system_call_done_result:
  assumes "stack d = (bytes16 (r_fs c) @ bytes16 (r_es c) @ bytes16 (r_ds c)) @
    (bytes32 (r_edi c) @ bytes32 (r_esi c) @ bytes32 (r_ebx c) @ bytes32 (r_ebp c)) @ r"
  shows "system_call_done d = iret (d\<lparr>stack := r, r_esp := 22 + r_esp d, r_fs := r_fs c, r_es := r_es c, r_ds := r_ds c,
    r_edi := r_edi c, r_esi := r_esi c, r_ebx := r_ebx c, r_ebp := r_ebp c\<rparr>)"
  using assms by (simp add: system_call_done_def)

section \<open>The calling convention\<close>

text \<open>A C function gives back the registers that it may not change and the stack as it was, except for its
  arguments. The segment register \<^verbatim>\<open>es\<close> is not among them: the memory functions of \<^verbatim>\<open>lib.c\<close> load it.\<close>

definition kept_by_c :: "nat \<Rightarrow> proc \<Rightarrow> proc \<Rightarrow> bool" where
  "kept_by_c nargs c d = (r_ebx d = r_ebx c \<and> r_esi d = r_esi c \<and> r_edi d = r_edi c \<and> r_ebp d = r_ebp c \<and> r_esp d = r_esp c \<and>
     r_cs d = r_cs c \<and> r_ss d = r_ss c \<and> r_ds d = r_ds c \<and> r_fs d = r_fs c \<and> r_gs d = r_gs c \<and>
     length (stack d) = length (stack c) \<and> drop nargs (stack d) = drop nargs (stack c))"

locale c_function =
  fixes f :: "'s c_fun" and nargs :: nat
  assumes convention: "f c s = Some (d, t) \<Longrightarrow> kept_by_c nargs c d"
begin

lemma handler_transparent:
  assumes n: "nargs = 0" and code: "code (symbol handler) = f" and c: "returnable c"
  shows "\<exists>c1. r_es c1 = r_es c \<and> r_ds c1 = r_ds c \<and> hardware_entry symbol code handler (take_gate True None esp0 ss0 c) s =
    do { (d, t) \<leftarrow> f c1 s; Some (c\<lparr>r_es := seg_for (r_cs c) (r_es d)\<rparr>, t) }"
proof -
  let ?g = "take_gate True None esp0 ss0 c"
  define p where "p = pushl (symbol handler) ?g"
  define c1 where "c1 = (pushl (r_eflags (pusha p)) (pusha p))\<lparr>r_edi := symbol handler\<rparr>"
  have st: "stack c1 = bytes32 (r_eflags p) @ saved p @ bytes32 (symbol handler) @ gate_frame c"
    by (simp add: c1_def p_def pusha_result pushl_def take_gate_stack)
  have ld: "loadl 36 (pushl (r_eflags (pusha p)) (pusha p)) = Some (symbol handler)"
    by (simp add: p_def pusha_result pushl_def loadl_skip [of _ "bytes32 _"] loadl_skip [of _ "saved _"] loadl_top)
  have call: "hardware_entry symbol code handler ?g s = do { (d, t) \<leftarrow> f c1 s; (fl, d) \<leftarrow> popl d; d \<leftarrow> popa (d\<lparr>r_eflags := fl\<rparr>);
      d \<leftarrow> iret (addl_esp 4 d); Some (d, t) }"
    using ld code by (simp add: hardware_entry_def handle_idt_def Let_def p_def c1_def)
  have "hardware_entry symbol code handler ?g s = do { (d, t) \<leftarrow> f c1 s; Some (c\<lparr>r_es := seg_for (r_cs c) (r_es d)\<rparr>, t) }"
  proof (cases "f c1 s")
    case None
    then show ?thesis by (simp add: call)
  next
    case (Some r)
    then obtain d t where d: "f c1 s = Some (d, t)" by (cases r) auto
    then have k: "kept_by_c 0 c1 d" using convention n by blast
    let ?d2 = "d\<lparr>r_eflags := r_eflags p, r_edi := r_edi p, r_esi := r_esi p, r_ebp := r_ebp p, r_ebx := r_ebx p,
      r_edx := r_edx p, r_ecx := r_ecx p, r_eax := r_eax p, stack := gate_frame c, r_esp := 40 + r_esp c1\<rparr>"
    have r: "40 + r_esp c1 = r_esp ?g" "r_ss c1 = r_ss ?g" "r_cs c1 = KERNEL_CS" "r_ds c1 = r_ds c" "r_fs c1 = r_fs c" "r_gs c1 = r_gs c"
      by (simp_all add: c1_def p_def pusha_result pushl_def take_gate_regs)
    have "popl d = Some (r_eflags p, d\<lparr>stack := saved p @ bytes32 (symbol handler) @ gate_frame c, r_esp := r_esp d + 4\<rparr>)"
      using k st by (simp add: kept_by_c_def)
    then have "hardware_entry symbol code handler ?g s = do { d \<leftarrow> iret ?d2; Some (d, t) }"
      using d k by (simp add: call popa_result [of _ p] addl_esp_def kept_by_c_def)
    also have "iret ?d2 = Some (?d2\<lparr>r_eip := r_eip c, r_cs := r_cs c, r_eflags := r_eflags c, r_esp := r_esp c, r_ss := r_ss c, stack := stack c,
        r_es := seg_for (r_cs c) (r_es ?d2)\<rparr>)"
    proof (rule iret_frame_es)
      show "(r_esp ?d2, r_ss ?d2) = frame_base esp0 ss0 c" using r(1,2) take_gate_esp(1) [of True esp0 ss0 c] k by (simp add: kept_by_c_def)
      show "returnable (?d2\<lparr>r_cs := r_cs c, r_es := 3\<rparr>)" using c k r by (simp add: returnable_def kept_by_c_def seg_after_def user_mode_def)
    qed (use k r in \<open>simp_all add: kept_by_c_def\<close>)
    also have "?d2\<lparr>r_eip := r_eip c, r_cs := r_cs c, r_eflags := r_eflags c, r_esp := r_esp c, r_ss := r_ss c, stack := stack c,
        r_es := seg_for (r_cs c) (r_es ?d2)\<rparr> = c\<lparr>r_es := seg_for (r_cs c) (r_es d)\<rparr>"
      using k r by (cases c) (simp add: kept_by_c_def p_def pushl_def take_gate_regs)
    finally show ?thesis using d by simp
  qed
  moreover have "r_es c1 = r_es c" "r_ds c1 = r_ds c" by (simp_all add: c1_def p_def pusha_result pushl_def take_gate_regs)
  ultimately show ?thesis by blast
qed

text \<open>A system call whose number is in the table: the function finds the three arguments on the stack and gets
  the data segment of the kernel; what it leaves in \<^verbatim>\<open>eax\<close>, \<^verbatim>\<open>ecx\<close> and \<^verbatim>\<open>edx\<close> reaches the caller.\<close>

lemma system_call_calls:
  assumes n: "nargs = 12" and code: "calls (unat (r_eax c) - 1) = f" and num: "1 \<le> sint (r_eax c)" "sint (r_eax c) \<le> 10"
    and c: "returnable c"
  shows "\<exists>c1. stack c1 = bytes32 (r_ebx c) @ bytes32 (r_ecx c) @ bytes32 (r_edx c) @ drop 12 (stack c1) \<and> r_ds c1 = KERNEL_DS \<and>
    r_cs c1 = KERNEL_CS \<and>
    system_call calls (take_gate False None esp0 ss0 c) s = do {
      (d, t) \<leftarrow> f c1 s;
      Some (c\<lparr>r_eax := r_eax d, r_ecx := r_ecx d, r_edx := r_edx d\<rparr>, t) }"
proof -
  let ?g = "take_gate False None esp0 ss0 c"
  let ?segs = "bytes16 (r_fs c) @ bytes16 (r_es c) @ bytes16 (r_ds c)"
  let ?regs = "bytes32 (r_edi c) @ bytes32 (r_esi c) @ bytes32 (r_ebx c) @ bytes32 (r_ebp c)"
  let ?args = "bytes32 (r_ebx c) @ bytes32 (r_ecx c) @ bytes32 (r_edx c)"
  define c1 where "c1 = ?g\<lparr>r_esi := (r_esi c AND 0xFFFF0000) OR ucast KERNEL_DS,
    r_ds := ucast ((r_esi c AND 0xFFFF0000) OR (ucast KERNEL_DS :: u32)), stack := ?args @ ?segs @ ?regs @ gate_frame c,
    r_esp := r_esp ?g - 34\<rparr>"
  note ds = kernel_ds_low [of "r_esi c"]
  have call: "system_call calls ?g s = do { (d, t) \<leftarrow> f c1 s; d \<leftarrow> system_call_done (addl_esp 12 d); Some (d, t) }"
    using num code by (simp add: system_call_def pushl_def pushw_def take_gate_regs take_gate_stack c1_def Let_def)
  have "system_call calls ?g s = do { (d, t) \<leftarrow> f c1 s; Some (c\<lparr>r_eax := r_eax d, r_ecx := r_ecx d, r_edx := r_edx d\<rparr>, t) }"
  proof (cases "f c1 s")
    case None
    then show ?thesis by (simp add: call)
  next
    case (Some r)
    then obtain d t where d: "f c1 s = Some (d, t)" by (cases r) auto
    then have k: "kept_by_c 12 c1 d" using convention n by blast
    let ?d = "d\<lparr>stack := gate_frame c, r_esp := 34 + r_esp c1, r_fs := r_fs c, r_es := r_es c, r_ds := r_ds c, r_edi := r_edi c,
      r_esi := r_esi c, r_ebx := r_ebx c, r_ebp := r_ebp c\<rparr>"
    have st: "drop 12 (stack d) = ?segs @ ?regs @ gate_frame c" using k by (simp add: kept_by_c_def c1_def)
    have r: "34 + r_esp c1 = r_esp ?g" "r_ss d = r_ss ?g" "r_cs d = KERNEL_CS" "r_gs d = r_gs c"
      using k by (simp_all add: c1_def kept_by_c_def take_gate_regs)
    have "system_call calls ?g s = do { d \<leftarrow> iret ?d; Some (d, t) }"
      using d k system_call_done_result [of "addl_esp 12 d" c "gate_frame c"] st
      by (simp add: call addl_esp_def kept_by_c_def)
    also have "iret ?d = Some (?d\<lparr>r_eip := r_eip c, r_cs := r_cs c, r_eflags := r_eflags c, r_esp := r_esp c, r_ss := r_ss c, stack := stack c\<rparr>)"
    proof (rule iret_frame)
      show "(r_esp ?d, r_ss ?d) = frame_base esp0 ss0 c" using r(1,2) take_gate_esp(1) [of False esp0 ss0 c] by simp
      show "returnable (?d\<lparr>r_cs := r_cs c\<rparr>)" using c r by (simp add: returnable_def)
    qed (use r in simp_all)
    also have "?d\<lparr>r_eip := r_eip c, r_cs := r_cs c, r_eflags := r_eflags c, r_esp := r_esp c, r_ss := r_ss c, stack := stack c\<rparr> =
        c\<lparr>r_eax := r_eax d, r_ecx := r_ecx d, r_edx := r_edx d\<rparr>"
      using r by (cases c; cases d) simp
    finally show ?thesis using d by simp
  qed
  then show ?thesis by (intro exI [of _ c1]) (simp add: c1_def ds take_gate_regs)
qed

end

section \<open>Exceptions\<close>

lemma push_zero: "pushl 0 (take_gate intr None esp0 ss0 c) = take_gate intr (Some 0) esp0 ss0 c"
  by (simp add: take_gate_def pushl_def Let_def)

lemma error_code_result:
  assumes "returnable c"
  shows "error_code handlers h (pushl a (take_gate True (Some e) esp0 ss0 c)) s = do {
    (r, t) \<leftarrow> handlers h e (r_eip c) 97 s;
    Some (case r of Comes_back \<Rightarrow> Inl c | Halted oc \<Rightarrow> Inr oc, t) }"
proof -
  let ?g = "take_gate True (Some e) esp0 ss0 c"
  define p where "p = pushl a ?g"
  define q where "q = (pusha p)\<lparr>r_ecx := 97, r_ebx := r_eip c, r_eax := e, r_edi := a, stack := saved p @ bytes32 a @ bytes32 (- 1) @ gate_frame c\<rparr>"
  have st: "stack p = bytes32 a @ bytes32 e @ gate_frame c" by (simp add: p_def pushl_def take_gate_stack)
  note skip = loadl_skip [of _ "bytes32 _"] loadl_skip [of _ "saved _"]
  have l: "loadl 40 ((pusha p)\<lparr>r_ecx := 97\<rparr>) = Some (r_eip c)"
    "loadl 36 ((pusha p)\<lparr>r_ecx := 97, r_ebx := r_eip c\<rparr>) = Some e"
    "storel 36 (- 1) ((pusha p)\<lparr>r_ecx := 97, r_ebx := r_eip c, r_eax := e\<rparr>) = Some (q\<lparr>r_edi := r_edi p\<rparr>)"
    "loadl 32 (q\<lparr>r_edi := r_edi p\<rparr>) = Some a"
    by (simp_all add: pusha_result skip loadl_top st storel_def q_def gate_frame_def)
  have qs: "stack q = saved p @ bytes32 a @ bytes32 (- 1) @ gate_frame c" by (simp add: q_def)
  have qr: "r_eax q = e" "r_ebx q = r_eip c" "r_ecx q = 97" "q\<lparr>r_edi := a\<rparr> = q"
    by (simp_all add: q_def pusha_result)
  have call: "error_code handlers h p s = do { (r, t) \<leftarrow> handlers h e (r_eip c) 97 s;
      (case r of Halted oc \<Rightarrow> Some (Inr oc, t)
       | Comes_back \<Rightarrow> do { d \<leftarrow> popa q; d \<leftarrow> iret (addl_esp 8 d); Some (Inl d, t) }) }"
    using l qr by (simp add: error_code_def cong: exception_end.case_cong)
  let ?d = "q\<lparr>r_edi := r_edi p, r_esi := r_esi p, r_ebp := r_ebp p, r_ebx := r_ebx p, r_edx := r_edx p, r_ecx := r_ecx p,
    r_eax := r_eax p, stack := gate_frame c, r_esp := 40 + r_esp q\<rparr>"
  have e: "popa q \<bind> (\<lambda>d. iret (addl_esp 8 d) \<bind> k) = iret ?d \<bind> k" for k
    by (simp add: popa_result [of q p, OF qs] addl_esp_def)
  have r: "40 + r_esp q = r_esp ?g + 4" "r_ss q = r_ss ?g" "r_cs q = KERNEL_CS" "r_ds q = r_ds c" "r_es q = r_es c" "r_fs q = r_fs c"
    "r_gs q = r_gs c"
    by (simp_all add: q_def p_def pusha_result pushl_def take_gate_regs)
  have "iret ?d = Some (?d\<lparr>r_eip := r_eip c, r_cs := r_cs c, r_eflags := r_eflags c, r_esp := r_esp c, r_ss := r_ss c, stack := stack c\<rparr>)"
  proof (rule iret_frame)
    show "(r_esp ?d, r_ss ?d) = frame_base esp0 ss0 c" using r(1) [symmetric] r(2) take_gate_esp(2) [of True e esp0 ss0 c] by simp
    show "returnable (?d\<lparr>r_cs := r_cs c\<rparr>)" using assms r by (simp add: returnable_def)
  qed (use r in simp_all)
  also have "?d\<lparr>r_eip := r_eip c, r_cs := r_cs c, r_eflags := r_eflags c, r_esp := r_esp c, r_ss := r_ss c, stack := stack c\<rparr> = c"
    using r by (cases c) (simp add: p_def pushl_def take_gate_regs)
  finally show ?thesis
    by (simp add: p_def [symmetric] call e split: exception_end.split Option.bind_split)
qed

section \<open>The functions of the kernel\<close>

text \<open>A C function without arguments, and one with three; \<^verbatim>\<open>scratch\<close> is what it leaves in the registers that it may
  change, and \<^verbatim>\<open>es\<close> what it leaves in that register, which depends on the states before and after.
  The arguments are on the stack above the return address, which the call pushes and the return pops.\<close>

type_synonym 's scratch = "proc \<Rightarrow> 's \<Rightarrow> u32 \<times> u32 \<times> u32 \<times> u32"
type_synonym 's selector = "proc \<Rightarrow> 's \<Rightarrow> 's \<Rightarrow> u16"

definition c_void :: "'s scratch \<Rightarrow> 's selector \<Rightarrow> ('s \<Rightarrow> 's option) \<Rightarrow> 's c_fun" where
  "c_void scratch es g c s = do {
     t \<leftarrow> g s;
     let (a, x, d, fl) = scratch c s;
     Some (c\<lparr>r_eax := a, r_ecx := x, r_edx := d, r_eflags := fl, r_es := es c s t\<rparr>, t) }"

definition c_call3 :: "'s scratch \<Rightarrow> 's selector \<Rightarrow> (u32 \<Rightarrow> u32 \<Rightarrow> u32 \<Rightarrow> 's \<Rightarrow> (int \<times> 's) option) \<Rightarrow> 's c_fun" where
  "c_call3 scratch es g c s = do {
     a1 \<leftarrow> loadl 0 c; a2 \<leftarrow> loadl 4 c; a3 \<leftarrow> loadl 8 c;
     (r, t) \<leftarrow> g a1 a2 a3 s;
     let (_, x, d, fl) = scratch c s;
     Some (c\<lparr>r_eax := u32_of r, r_ecx := x, r_edx := d, r_eflags := fl, r_es := es c s t\<rparr>, t) }"

text \<open>The only code of the kernel that loads \<^verbatim>\<open>es\<close> is that of the memory functions of \<^verbatim>\<open>lib.c\<close>, with the selector in
  \<^verbatim>\<open>ds\<close>. The handler of the keyboard runs them when another terminal is displayed, for the two copies of the screen, and when
  a page scrolls; the parameter \<^term>\<open>scrolled\<close> says of the latter whether it happened between two states. The handler of the clock
  runs none.\<close>

definition es_after :: "('a kbd_scheme \<Rightarrow> 'a kbd_scheme \<Rightarrow> bool) \<Rightarrow> 'a kbd_scheme selector" where
  "es_after scrolled c s t = (if current_terminal_index t \<noteq> current_terminal_index s \<or> scrolled s t then r_ds c else r_es c)"

definition irq_code :: "(string \<Rightarrow> u32) \<Rightarrow> 'a kbd_scheme scratch \<Rightarrow> ('a kbd_scheme \<Rightarrow> 'a kbd_scheme \<Rightarrow> bool) \<Rightarrow> device \<Rightarrow> u32 \<Rightarrow> 'a kbd_scheme c_fun" where
  "irq_code symbol scratch scrolled dev a =
     (if a = symbol ''do_idt_keyboard'' then c_void scratch (es_after scrolled) (do_idt_keyboard dev)
      else if a = symbol ''do_idt_rtc'' then c_void scratch (\<lambda>c s t. r_es c) (\<lambda>s. Some (do_idt_rtc dev s))
      else (\<lambda>c s. None))"

text \<open>The system calls that return to the caller, by number; \<^verbatim>\<open>str\<close> reads the bytes of a string argument.\<close>

definition returning_call ::
  "('a kbd_scheme \<Rightarrow> 'a kbd_scheme) list \<Rightarrow> ('a kbd_scheme \<Rightarrow> 'a kbd_scheme option) list \<Rightarrow> device \<Rightarrow>
   (u32 \<Rightarrow> 'a kbd_scheme \<Rightarrow> u8 list) \<Rightarrow> nat \<Rightarrow> u32 \<Rightarrow> u32 \<Rightarrow> u32 \<Rightarrow> 'a kbd_scheme \<Rightarrow> (int \<times> 'a kbd_scheme) option" where
  "returning_call ticks intrs dev str n a b d s =
     (if n = 3 then do_read ticks intrs (sint a) b (sint d) s
      else if n = 4 then do_write dev (sint a) b (sint d) s
      else if n = 5 then do_open dev (str a s) s
      else if n = 6 then do_close dev (sint a) s
      else if n = 7 then do_getargs a (sint b) s
      else if n = 8 then do_vidmap a s
      else if n = 9 then Some (do_set_handler (sint a) b, s)
      else if n = 10 then Some (do_sigreturn, s)
      else None)"

text \<open>The jump table; the entries of halt and execute, which need not return, are a parameter.\<close>

definition system_call_table ::
  "'a kbd_scheme scratch \<Rightarrow> 'a kbd_scheme selector \<Rightarrow> ('a kbd_scheme \<Rightarrow> 'a kbd_scheme) list \<Rightarrow> ('a kbd_scheme \<Rightarrow> 'a kbd_scheme option) list \<Rightarrow> device \<Rightarrow>
   (u32 \<Rightarrow> 'a kbd_scheme \<Rightarrow> u8 list) \<Rightarrow> (nat \<Rightarrow> 'a kbd_scheme c_fun) \<Rightarrow> nat \<Rightarrow> 'a kbd_scheme c_fun" where
  "system_call_table scratch es ticks intrs dev str leave k =
     (if k < 2 then leave k else c_call3 scratch es (returning_call ticks intrs dev str (k + 1)))"

lemma c_void_keeps: "c_void scratch es g c s = Some (d, t) \<Longrightarrow> kept_by_c 0 c d"
  by (cases "scratch c s") (auto simp: c_void_def kept_by_c_def bind_eq_Some_conv)

lemma c_call3_keeps: "c_call3 scratch es g c s = Some (d, t) \<Longrightarrow> kept_by_c 12 c d"
  by (cases "scratch c s") (auto simp: c_call3_def kept_by_c_def bind_eq_Some_conv)

interpretation void_fun: c_function "c_void scratch es g" 0 for scratch es g
  by unfold_locales (rule c_void_keeps)

interpretation call_fun: c_function "c_call3 scratch es g" 12 for scratch es g
  by unfold_locales (rule c_call3_keeps)

section \<open>Properties of the entries\<close>

text \<open>C5. What the code that an interrupt of the keyboard or the clock interrupts finds afterwards: whatever the handler leaves
  in the registers that a C function may change, the entry returns with every register, every flag, the kernel stack and
  the segments exactly as before, in user mode and in the kernel, but for one: \<^verbatim>\<open>es\<close>, which the entry does not save, has the
  selector of \<^verbatim>\<open>ds\<close> when the key made another terminal the displayed one or scrolled a page.\<close>

theorem hardware_interrupt_transparent:
  assumes "returnable c" and "symbol ''do_idt_keyboard'' \<noteq> symbol ''do_idt_rtc''" and "do_idt_keyboard dev s = Some t"
  shows "hardware_entry symbol (irq_code symbol scratch scrolled dev) ''do_idt_keyboard'' (take_gate True None esp0 ss0 c) s =
      Some (if current_terminal_index t \<noteq> current_terminal_index s \<or> scrolled s t then c\<lparr>r_es := r_ds c\<rparr> else c, t) \<and>
    hardware_entry symbol (irq_code symbol scratch scrolled dev) ''do_idt_rtc'' (take_gate True None esp0 ss0 c) s = Some (c, do_idt_rtc dev s)"
proof
  have seg: "seg_for (r_cs c) (r_ds c) = r_ds c" "seg_for (r_cs c) (r_es c) = r_es c" using assms(1) by (simp_all add: returnable_def seg_for_def)
  obtain c1 where "r_es c1 = r_es c" "r_ds c1 = r_ds c"
    "hardware_entry symbol (irq_code symbol scratch scrolled dev) ''do_idt_keyboard'' (take_gate True None esp0 ss0 c) s =
      do { (d, t) \<leftarrow> c_void scratch (es_after scrolled) (do_idt_keyboard dev) c1 s; Some (c\<lparr>r_es := seg_for (r_cs c) (r_es d)\<rparr>, t) }"
    using void_fun.handler_transparent [OF refl _ assms(1), of "irq_code symbol scratch scrolled dev" symbol "''do_idt_keyboard''"]
    by (force simp: irq_code_def)
  then show "hardware_entry symbol (irq_code symbol scratch scrolled dev) ''do_idt_keyboard'' (take_gate True None esp0 ss0 c) s =
      Some (if current_terminal_index t \<noteq> current_terminal_index s \<or> scrolled s t then c\<lparr>r_es := r_ds c\<rparr> else c, t)"
    using assms(3) seg by (simp add: c_void_def es_after_def split: prod.split)
  obtain c2 where "r_es c2 = r_es c" "r_ds c2 = r_ds c"
    "hardware_entry symbol (irq_code symbol scratch scrolled dev) ''do_idt_rtc'' (take_gate True None esp0 ss0 c) s =
      do { (d, t) \<leftarrow> c_void scratch (\<lambda>c s t. r_es c) (\<lambda>s. Some (do_idt_rtc dev s)) c2 s; Some (c\<lparr>r_es := seg_for (r_cs c) (r_es d)\<rparr>, t) }"
    using void_fun.handler_transparent [OF refl _ assms(1), of "irq_code symbol scratch scrolled dev" symbol "''do_idt_rtc''"] assms(2)
    by (force simp: irq_code_def)
  then show "hardware_entry symbol (irq_code symbol scratch scrolled dev) ''do_idt_rtc'' (take_gate True None esp0 ss0 c) s = Some (c, do_idt_rtc dev s)"
    using seg by (simp add: c_void_def split: prod.split)
qed

text \<open>A processor in user mode.\<close>

definition proc_demo :: proc where
  "proc_demo = cpu.extend \<lparr>r_eax = 6, r_ebx = 9, r_ecx = 2, r_edx = 3, r_esi = 4, r_edi = 5, r_ebp = 0x83FFFF0, r_esp = 0x83FFFE0,
     r_eip = 0x8048100, r_eflags = 0x202, r_cs = USER_CS, r_ss = USER_DS, r_ds = USER_DS,
     r_es = USER_DS, r_fs = USER_DS, r_gs = USER_DS\<rparr>
     (proc.fields [])"

lemma proc_demo_ok: "returnable proc_demo" "r_eax proc_demo = 6" "r_ebx proc_demo = 9" "r_eip proc_demo = 0x8048100"
    "proc_demo\<lparr>r_es := r_ds proc_demo\<rparr> = proc_demo"
  by (simp_all add: returnable_def proc_demo_def proc.defs cpu.defs seg_after_def user_mode_def USER_DS_def)

theorem hardware_interrupt_transparent_witness:
  "\<exists>t. hardware_entry (\<lambda>n. of_nat (length n)) (irq_code (\<lambda>n. of_nat (length n)) (\<lambda>_ _. (1, 2, 3, 4)) (\<lambda>_ _. False) (\<lambda>_ _. 0x1E)) ''do_idt_keyboard''
     (take_gate True None 0x7FFFFC KERNEL_DS proc_demo) kbd_demo = Some (proc_demo, t)"
proof -
  have "no_modifier (key_pressed kbd_demo)" "typing_code 0x1E" "shortcut_received kbd_demo = 0"
    by (simp_all add: kbd_demo_sel no_modifier_def typing_code_def)
  then obtain t where t: "do_idt_keyboard (\<lambda>_ _. 0x1E) kbd_demo = Some t"
    using interrupt_view [OF kbd_demo_ok _ _ _ kbd_demo_view, of "0x1E"] by blast
  have d: "(of_nat (length ''do_idt_keyboard'') :: u32) \<noteq> of_nat (length ''do_idt_rtc'')" by simp
  show ?thesis
    using hardware_interrupt_transparent [OF proc_demo_ok(1), where symbol = "\<lambda>n. of_nat (length n)", OF d t,
      of "\<lambda>_ _. (1, 2, 3, 4)" "\<lambda>_ _. False" "0x7FFFFC" KERNEL_DS] proc_demo_ok(5) by (auto split: if_splits)
qed

lemma call_dispatched:
  assumes "3 \<le> n" and "n \<le> 10" and "r_eax c = of_nat n" and "returnable c"
    and "returning_call ticks intrs dev str n (r_ebx c) (r_ecx c) (r_edx c) s = Some (r, t)"
  shows "\<exists>x d. system_call (system_call_table scratch es ticks intrs dev str leave) (take_gate False None esp0 ss0 c) s =
    Some (c\<lparr>r_eax := u32_of r, r_ecx := x, r_edx := d\<rparr>, t)"
proof -
  let ?f = "c_call3 scratch es (returning_call ticks intrs dev str n)"
  have n: "unat (r_eax c) = n" "sint (r_eax c) = int n"
    using assms(1-3) wrap32_id [of "int n"] by (simp_all add: unat_of_nat wrap32_def)
  have not_two: "\<not> n - 1 < 2" "n - 1 + 1 = n" using assms(1) by auto
  have "system_call_table scratch es ticks intrs dev str leave (unat (r_eax c) - 1) = ?f"
    using n(1) not_two by (simp add: system_call_table_def)
  then obtain c1 where c1: "stack c1 = bytes32 (r_ebx c) @ bytes32 (r_ecx c) @ bytes32 (r_edx c) @ drop 12 (stack c1)"
    "system_call (system_call_table scratch es ticks intrs dev str leave) (take_gate False None esp0 ss0 c) s = do {
      (d, t) \<leftarrow> ?f c1 s; Some (c\<lparr>r_eax := r_eax d, r_ecx := r_ecx d, r_edx := r_edx d\<rparr>, t) }"
    using call_fun.system_call_calls [OF refl _ _ _ assms(4), of "system_call_table scratch es ticks intrs dev str leave"] n(2) assms(1,2)
    by force
  have "loadl 0 c1 = Some (r_ebx c)" "loadl 4 c1 = Some (r_ecx c)" "loadl 8 c1 = Some (r_edx c)"
    using loadl_top [OF c1(1)] loadl_skip [OF c1(1)] by (simp_all add: loadl_skip [of _ "bytes32 _"] loadl_top)
  then show ?thesis using assms(5) c1(2) by (auto simp: c_call3_def split: prod.splits)
qed

text \<open>A system call runs the function of its number on the three arguments in \<^verbatim>\<open>ebx\<close>, \<^verbatim>\<open>ecx\<close> and \<^verbatim>\<open>edx\<close> and brings its result
  back in \<^verbatim>\<open>eax\<close>; but for \<^verbatim>\<open>ecx\<close> and \<^verbatim>\<open>edx\<close> the caller finds everything as it was.\<close>

theorem system_call_dispatches:
  assumes "3 \<le> n" and "n \<le> 10" and "r_eax c = of_nat n" and "returnable c"
    and "returning_call ticks intrs dev str n (r_ebx c) (r_ecx c) (r_edx c) s = Some (r, t)"
  shows "\<exists>x d. system_call (system_call_table scratch es ticks intrs dev str leave) (take_gate False None esp0 ss0 c) s =
    Some (c\<lparr>r_eax := u32_of r, r_ecx := x, r_edx := d\<rparr>, t)"
  by (rule call_dispatched [OF assms])

theorem system_call_dispatches_witness:
  "\<exists>x d. system_call (system_call_table (\<lambda>_ _. (1, 2, 3, 4)) (\<lambda>c _ _. r_ds c) [] [] (\<lambda>_ _. 0) (\<lambda>_ _. []) (\<lambda>_ _ _. None))
     (take_gate False None 0x7FFFFC KERNEL_DS proc_demo) kbd_demo =
     Some (proc_demo\<lparr>r_eax := - 1, r_ecx := x, r_edx := d\<rparr>, kbd_demo)"
proof -
  have "returning_call [] [] (\<lambda>_ _. 0) (\<lambda>_ _. []) 6 (r_ebx proc_demo) (r_ecx proc_demo) (r_edx proc_demo) kbd_demo = Some (- 1, kbd_demo)"
    by (simp add: returning_call_def do_close_def proc_demo_ok)
  then show ?thesis
    using system_call_dispatches [of 6 proc_demo "[]" "[]" "\<lambda>_ _. 0" "\<lambda>_ _. []" kbd_demo "- 1" kbd_demo "\<lambda>_ _. (1, 2, 3, 4)" "\<lambda>c _ _. r_ds c"
      "\<lambda>_ _ _. None" "0x7FFFFC" KERNEL_DS] proc_demo_ok
    by (simp add: u32_of_def)
qed

text \<open>A system call with any other number is not refused: nothing is called and the caller gets its own number
  back as the result.\<close>

theorem unknown_call_returns_its_number:
  assumes "sint (r_eax c) < 1 \<or> 10 < sint (r_eax c)" and "returnable c"
  shows "system_call calls (take_gate False None esp0 ss0 c) s = Some (c, s)"
proof -
  let ?g = "take_gate False None esp0 ss0 c"
  let ?d = "?g\<lparr>stack := (bytes16 (r_fs c) @ bytes16 (r_es c) @ bytes16 (r_ds c)) @
      (bytes32 (r_edi c) @ bytes32 (r_esi c) @ bytes32 (r_ebx c) @ bytes32 (r_ebp c)) @ gate_frame c, r_esp := r_esp ?g - 22\<rparr>"
  let ?e = "?g\<lparr>stack := gate_frame c, r_fs := r_fs c, r_es := r_es c, r_ds := r_ds c, r_edi := r_edi c, r_esi := r_esi c,
      r_ebx := r_ebx c, r_ebp := r_ebp c\<rparr>"
  have "system_call calls ?g s = do { d \<leftarrow> system_call_done ?d; Some (d, s) }"
    using assms(1) by (auto simp: system_call_def pushl_def pushw_def take_gate_regs take_gate_stack Let_def)
  also have "system_call_done ?d = iret ?e"
    using system_call_done_result [of ?d c "gate_frame c"] by simp
  also have "?e = ?g" using take_gate_stack(1) [of False esp0 ss0 c] by (cases ?g) (simp add: take_gate_regs [of False None esp0 ss0 c, symmetric])
  also have "iret ?g = Some (?g\<lparr>r_eip := r_eip c, r_cs := r_cs c, r_eflags := r_eflags c, r_esp := r_esp c, r_ss := r_ss c, stack := stack c\<rparr>)"
    by (rule iret_frame) (use take_gate_stack(1) take_gate_esp(1) assms(2) in \<open>simp_all add: take_gate_regs returnable_def\<close>)
  also have "?g\<lparr>r_eip := r_eip c, r_cs := r_cs c, r_eflags := r_eflags c, r_esp := r_esp c, r_ss := r_ss c, stack := stack c\<rparr> = c"
    using take_gate_regs [of False None esp0 ss0 c] by (cases c; cases ?g) simp
  finally show ?thesis by simp
qed

theorem unknown_call_returns_its_number_witness:
  "system_call (\<lambda>_ _ _. None) (take_gate False None 0x7FFFFC KERNEL_DS (proc_demo\<lparr>r_eax := 11\<rparr>)) kbd_demo =
     Some (proc_demo\<lparr>r_eax := 11\<rparr>, kbd_demo)"
  using unknown_call_returns_its_number [of "proc_demo\<lparr>r_eax := 11\<rparr>"] proc_demo_ok(1) by (simp add: returnable_def)

text \<open>The stub at the vector of each exception of the processor pushes a zero where the processor pushes no error code, but
  for that of vector 16.\<close>

lemma stubs_match:
  "list_all (\<lambda>(v, x). case x of None \<Rightarrow> True | Some (name, code) \<Rightarrow> map_of intel_gates v = Some (''idt_intel_'' @ name) \<and>
     map_of intel_stubs (''idt_intel_'' @ name) = Some (v \<noteq> 16 \<and> \<not> code, ''do_idt_intel_'' @ name) \<and> (v = 16 \<longrightarrow> name = ''mf'' \<and> \<not> code))
     (zip [0..<20] ia32_exceptions)"
  by code_simp

lemma handler_halts: "intel_handler intrs cr2 name a b x s = Some (r, t) \<Longrightarrow> name \<noteq> ''do_idt_intel_nmi'' \<Longrightarrow> \<exists>oc. r = Halted oc"
  by (auto simp: intel_handler_def do_common_intr_def bind_eq_Some_conv split: if_splits)

lemma error_code_shifted:
  assumes "\<And>a b t r. handlers h a b 97 s = Some (r, t) \<Longrightarrow> \<exists>oc. r = Halted oc"
  shows "error_code handlers h (pushl a (take_gate True None esp0 ss0 c)) s = do {
    (r, t) \<leftarrow> handlers h (r_eip c) (ucast (r_cs c)) 97 s;
    Some (case r of Comes_back \<Rightarrow> Inl c | Halted oc \<Rightarrow> Inr oc, t) }"
proof -
  let ?g = "take_gate True None esp0 ss0 c"
  have "stack (pusha (pushl a ?g)) = saved (pushl a ?g) @ bytes32 a @ gate_frame c"
    by (simp add: pusha_result pushl_def take_gate_stack)
  then show ?thesis
    using assms [of "r_eip c" "ucast (r_cs c)"]
    by (auto simp: error_code_def storel_def gate_frame_def loadl_skip [of _ "bytes32 _"] loadl_skip [of _ "saved _"] loadl_top
        split: Option.bind_split)
qed

text \<open>C20. For each exception of the processor, at its vector there is the entry of its name, which calls the handler of that
  exception with the processor's error code, or 0 where the processor has none, and with the address of the interrupted
  instruction. Vector 16 is the exception: its handler gets that address for the error code and the code
  segment for the address. A handler ends the task; only that of the non-maskable interrupt comes back, and the
  interrupted code goes on with every register as it was.\<close>

theorem exception_reaches_handler:
  assumes "v < 20" and "ia32_exceptions ! v = Some (name, code)" and "returnable c"
  shows "map_of intel_gates v = Some (''idt_intel_'' @ name) \<and>
    intel_entry symbol (intel_handler intrs cr2) (''idt_intel_'' @ name) (take_gate True (if code then Some e else None) esp0 ss0 c) s = do {
      (r, t) \<leftarrow> intel_handler intrs cr2 (''do_idt_intel_'' @ name)
        (if v = 16 then r_eip c else if code then e else 0) (if v = 16 then ucast (r_cs c) else r_eip c) 97 s;
      Some (case r of Comes_back \<Rightarrow> Inl c | Halted oc \<Rightarrow> Inr oc, t) }"
proof -
  have "length ia32_exceptions = 20" by (simp add: ia32_exceptions_def)
  then have "(v, Some (name, code)) \<in> set (zip [0..<20] ia32_exceptions)"
    unfolding set_zip using assms(1,2) by (intro CollectI exI [of _ v]) simp
  then have n: "map_of intel_gates v = Some (''idt_intel_'' @ name)"
    "map_of intel_stubs (''idt_intel_'' @ name) = Some (v \<noteq> 16 \<and> \<not> code, ''do_idt_intel_'' @ name)" "v = 16 \<longrightarrow> name = ''mf'' \<and> \<not> code"
    using stubs_match by (auto simp: list_all_iff)
  have u: "''idt_intel_'' @ name \<noteq> ''idt_unknown_intr''" by simp
  show ?thesis
  proof (cases "v = 16")
    case True
    then have mf: "name = ''mf''" "\<not> code" using n(3) by simp_all
    have halts: "\<exists>oc. r = Halted oc" if "intel_handler intrs cr2 ''do_idt_intel_mf'' a b 97 s = Some (r, t)" for a b r t
      using handler_halts [OF that] by simp
    show ?thesis using True n(1,2) mf error_code_shifted [of "intel_handler intrs cr2" "''do_idt_intel_mf''" s, OF halts]
      by (simp add: intel_entry_def)
  next
    case False
    then show ?thesis
      using n(1,2) u by (cases code) (simp_all add: intel_entry_def push_zero error_code_result [OF assms(3)])
  qed
qed

theorem exception_reaches_handler_witness:
  "intel_entry (\<lambda>_. 0x401000) (intel_handler [] 0xDEAD) ''idt_intel_nmi'' (take_gate True None 0x7FFFFC KERNEL_DS proc_demo) kbd_demo =
     Some (Inl proc_demo, kbd_demo) \<and>
   intel_entry (\<lambda>_. 0x401000) (intel_handler [] 0xDEAD) ''idt_intel_pf'' (take_gate True (Some 6) 0x7FFFFC KERNEL_DS proc_demo) kbd_demo = do {
     (r, t) \<leftarrow> intel_handler [] 0xDEAD ''do_idt_intel_pf'' 6 0x8048100 97 kbd_demo;
     Some (case r of Comes_back \<Rightarrow> Inl proc_demo | Halted oc \<Rightarrow> Inr oc, t) }"
  using exception_reaches_handler [of 2 "''nmi''" False proc_demo "\<lambda>_. 0x401000" "[]" "0xDEAD" 0 "0x7FFFFC" KERNEL_DS kbd_demo]
    exception_reaches_handler [of 14 "''pf''" True proc_demo "\<lambda>_. 0x401000" "[]" "0xDEAD" 6 "0x7FFFFC" KERNEL_DS kbd_demo] proc_demo_ok(1,4)
  by (simp add: ia32_exceptions_def intel_handler_def [of _ _ "''do_idt_intel_nmi''"])

text \<open>For vector 16 the entry expects an error code that the processor does not push: the handler takes the
  address of the instruction for the error code and the code segment for the address.\<close>

theorem coprocessor_error_shifted:
  "intel_entry symbol (\<lambda>h a b x s. Some (Halted oc, (h, a, b))) ''idt_intel_mf'' (take_gate True None esp0 ss0 c) s =
     Some (Inr oc, (''do_idt_intel_mf'', r_eip c, ucast (r_cs c)))"
proof -
  let ?g = "take_gate True None esp0 ss0 c" and ?a = "symbol ''do_idt_intel_mf''"
  have "map_of intel_stubs ''idt_intel_mf'' = Some (False, ''do_idt_intel_mf'')" by (simp add: intel_stubs_def)
  then have "intel_entry symbol (\<lambda>h a b x s. Some (Halted oc, (h, a, b))) ''idt_intel_mf'' ?g s =
      error_code (\<lambda>h a b x s. Some (Halted oc, (h, a, b))) ''do_idt_intel_mf'' (pushl ?a ?g) s"
    by (simp add: intel_entry_def)
  moreover have "stack (pusha (pushl ?a ?g)) = saved (pushl ?a ?g) @ bytes32 ?a @ gate_frame c"
    by (simp add: pusha_result pushl_def take_gate_stack)
  ultimately show ?thesis
    by (simp add: error_code_def storel_def gate_frame_def loadl_skip [of _ "bytes32 _"] loadl_skip [of _ "saved _"] loadl_top)
qed

end
