(* ===== verification/Wrappers.thy ===== *)
theory Wrappers
  imports Entries
begin

text \<open>
  The rest of the assembly: the wrappers through which the kernel makes system calls itself
  (\<^verbatim>\<open>sys_calls.S\<close>), the two routines that end \<^verbatim>\<open>do_halt\<close> (\<^verbatim>\<open>sys_calls_handlers_asm.S\<close>) and the start of the kernel
  (\<^verbatim>\<open>boot.S\<close>). The stack is that of \<^verbatim>\<open>Entries\<close>; a place relative to \<^verbatim>\<open>ebp\<close> is found by its distance from \<^verbatim>\<open>esp\<close>.
\<close>

unbundle bit_operations_syntax

section \<open>System calls from the kernel\<close>

text \<open>The wrappers and the numbers that they load.\<close>

definition call_stubs :: "(string \<times> u32) list" where
  "call_stubs = [(''halt'', 1), (''execute'', 2), (''read'', 3), (''write'', 4), (''open'', 5), (''close'', 6), (''getargs'', 7),
     (''vidmap'', 8), (''set_handler'', 9), (''sigreturn'', 10)]"

definition ebp_at :: "nat \<Rightarrow> proc \<Rightarrow> nat" where
  "ebp_at k c = unat (r_ebp c - r_esp c) + k"

text \<open>\<^verbatim>\<open>leave\<close> and \<^verbatim>\<open>ret\<close>.\<close>

definition leave_frame :: "proc \<Rightarrow> proc option" where
  "leave_frame c = do { (ebp, c) \<leftarrow> popl (addl_esp (ebp_at 0 c) c); Some (c\<lparr>r_ebp := ebp\<rparr>) }"

definition ret :: "proc \<Rightarrow> proc option" where
  "ret c = do { (eip, c) \<leftarrow> popl c; Some (c\<lparr>r_eip := eip\<rparr>) }"

text \<open>\<^verbatim>\<open>_system_call\<close>; \<^term>\<open>after\<close> is the address behind its \<^verbatim>\<open>int\<close>, whose gate leaves interrupts on.\<close>

definition kernel_system_call :: "u32 \<Rightarrow> u32 \<Rightarrow> u16 \<Rightarrow> (nat \<Rightarrow> 's c_fun) \<Rightarrow> 's c_fun" where
  "kernel_system_call after esp0 ss0 calls c s = do {
     let c = pushl (r_ebp c) c;
     let c = c\<lparr>r_ebp := r_esp c\<rparr>;
     v \<leftarrow> loadl (ebp_at 8 c) c;
     let c = c\<lparr>r_ebx := v\<rparr>;
     v \<leftarrow> loadl (ebp_at 12 c) c;
     let c = c\<lparr>r_ecx := v\<rparr>;
     v \<leftarrow> loadl (ebp_at 16 c) c;
     let c = c\<lparr>r_edx := v\<rparr>;
     (c, s) \<leftarrow> system_call calls (take_gate False None esp0 ss0 (c\<lparr>r_eip := after\<rparr>)) s;
     c \<leftarrow> storel (ebp_at 20 c) (r_eax c) c;
     c \<leftarrow> leave_frame c;
     c \<leftarrow> ret c;
     Some (c, s) }"

definition call_wrapper :: "u32 \<Rightarrow> u32 \<Rightarrow> u16 \<Rightarrow> (nat \<Rightarrow> 's c_fun) \<Rightarrow> string \<Rightarrow> 's c_fun" where
  "call_wrapper after esp0 ss0 calls name c s = do {
     n \<leftarrow> map_of call_stubs name;
     kernel_system_call after esp0 ss0 calls (c\<lparr>r_eax := n\<rparr>) s }"

text \<open>The wrapper as it is: it brings the arguments to the function and the result back, but it loses \<^verbatim>\<open>ebx\<close> and
  overwrites the dword of the caller above the third argument.\<close>

lemma kernel_call_result:
  assumes st: "stack c = bytes32 rt @ bytes32 a1 @ bytes32 a2 @ bytes32 a3 @ bytes32 w @ rest" and cs: "\<not> user_mode (r_cs c)"
    and n: "3 \<le> n" "n \<le> 10" "r_eax c = of_nat n"
    and call: "returning_call ticks intrs dev str n a1 a2 a3 s = Some (r, t)"
  shows "\<exists>x d. kernel_system_call after esp0 ss0 (system_call_table scratch es ticks intrs dev str lv) c s =
    Some (c\<lparr>r_eax := u32_of r, r_ebx := a1, r_ecx := x, r_edx := d, r_esp := r_esp c + 4, r_eip := rt,
      stack := bytes32 a1 @ bytes32 a2 @ bytes32 a3 @ bytes32 (u32_of r) @ rest\<rparr>, t)"
proof -
  let ?st = "bytes32 (r_ebp c) @ bytes32 rt @ bytes32 a1 @ bytes32 a2 @ bytes32 a3 @ bytes32 w @ rest"
  let ?c = "c\<lparr>r_ebp := r_esp c - 4, r_esp := r_esp c - 4, r_ebx := a1, r_ecx := a2, r_edx := a3, r_eip := after, stack := ?st\<rparr>"
  let ?p = "c\<lparr>stack := ?st, r_esp := r_esp c - 4, r_ebp := r_esp c - 4\<rparr>"
  have ld: "loadl 8 ?p = Some a1" "loadl 12 (?p\<lparr>r_ebx := a1\<rparr>) = Some a2" "loadl 16 (?p\<lparr>r_ebx := a1, r_ecx := a2\<rparr>) = Some a3"
    by (simp_all add: loadl_skip [of _ "bytes32 _"] loadl_top)
  have "r_eax ?c = of_nat n" "returnable ?c" using n cs by (simp_all add: returnable_def)
  from call_dispatched [OF n(1,2) this, of ticks intrs dev str s r t scratch es lv esp0 ss0] call
  obtain x d where sc: "system_call (system_call_table scratch es ticks intrs dev str lv) (take_gate False None esp0 ss0 ?c) s =
      Some (?c\<lparr>r_eax := u32_of r, r_ecx := x, r_edx := d\<rparr>, t)" by auto
  have so: "storel 20 (u32_of r) (?c\<lparr>r_eax := u32_of r, r_ecx := x, r_edx := d\<rparr>) =
      Some (?c\<lparr>r_eax := u32_of r, r_ecx := x, r_edx := d,
        stack := bytes32 (r_ebp c) @ bytes32 rt @ bytes32 a1 @ bytes32 a2 @ bytes32 a3 @ bytes32 (u32_of r) @ rest\<rparr>)"
    by (simp add: storel_def)
  show ?thesis
    using st ld sc so
    by (intro exI [of _ x] exI [of _ d], cases c)
      (simp add: kernel_system_call_def pushl_def ebp_at_def leave_frame_def ret_def addl_esp_def Let_def)
qed

text \<open>C36. A system call that the kernel makes itself, through the wrapper of one of the calls that return: the function of
  that number gets the three arguments from the stack, the wrapper returns its result in \<^verbatim>\<open>eax\<close> and takes no
  more than its return address off the stack; but \<^verbatim>\<open>ebx\<close>, which a C function has to keep, is the first
  argument afterwards, and the dword of the caller above its third argument is overwritten with the result.\<close>

theorem kernel_call_clobbers:
  assumes "stack c = bytes32 rt @ bytes32 a1 @ bytes32 a2 @ bytes32 a3 @ bytes32 w @ rest" and "\<not> user_mode (r_cs c)"
    and "3 \<le> n" "n \<le> 10" and "map_of call_stubs name = Some (of_nat n)"
    and "returning_call ticks intrs dev str n a1 a2 a3 s = Some (r, t)"
  shows "\<exists>x d. call_wrapper after esp0 ss0 (system_call_table scratch es ticks intrs dev str lv) name c s =
    Some (c\<lparr>r_eax := u32_of r, r_ebx := a1, r_ecx := x, r_edx := d, r_esp := r_esp c + 4, r_eip := rt,
      stack := bytes32 a1 @ bytes32 a2 @ bytes32 a3 @ bytes32 (u32_of r) @ rest\<rparr>, t)"
  using kernel_call_result [of "c\<lparr>r_eax := of_nat n\<rparr>" rt a1 a2 a3 w rest n] assms by (simp add: call_wrapper_def)

theorem kernel_call_clobbers_witness:
  "\<exists>x d. call_wrapper 0x400100 0x7FFFFC KERNEL_DS (system_call_table (\<lambda>_ _. (1, 2, 3, 4)) (\<lambda>c _ _. r_ds c) [] [] (\<lambda>_ _. 0) (\<lambda>_ _. []) (\<lambda>_ _ _. None)) ''close''
     (proc_demo\<lparr>r_cs := KERNEL_CS, stack := bytes32 0x400200 @ bytes32 9 @ bytes32 2 @ bytes32 3 @ bytes32 77 @ []\<rparr>) kbd_demo =
     Some (proc_demo\<lparr>r_cs := KERNEL_CS, r_eax := - 1, r_ebx := 9, r_ecx := x, r_edx := d, r_esp := r_esp proc_demo + 4, r_eip := 0x400200,
       stack := bytes32 9 @ bytes32 2 @ bytes32 3 @ bytes32 (- 1) @ []\<rparr>, kbd_demo)"
proof -
  let ?c = "proc_demo\<lparr>r_cs := KERNEL_CS, stack := bytes32 0x400200 @ bytes32 9 @ bytes32 2 @ bytes32 3 @ bytes32 77 @ []\<rparr>"
  have "returning_call [] [] (\<lambda>_ _. 0) (\<lambda>_ _. []) 6 9 2 3 kbd_demo = Some (- 1, kbd_demo)"
    by (simp add: returning_call_def do_close_def)
  then show ?thesis
    using kernel_call_clobbers [of ?c "0x400200" 9 2 3 77 "[]" 6 "''close''" "[]" "[]" "\<lambda>_ _. 0" "\<lambda>_ _. []" kbd_demo "- 1" kbd_demo
        "0x400100" "0x7FFFFC" KERNEL_DS "\<lambda>_ _. (1, 2, 3, 4)" "\<lambda>c _ _. r_ds c" "\<lambda>_ _ _. None"]
    by (simp add: call_stubs_def u32_of_def proc_demo_def proc.defs cpu.defs)
qed

section \<open>The end of a task\<close>

text \<open>\<^verbatim>\<open>return_from_halt\<close> goes back to where the parent called \<^verbatim>\<open>execute\<close>, on its stack: \<^term>\<open>stack_at\<close> is what is there.
  \<^verbatim>\<open>restart_shell\<close> drops its return address and takes its arguments for the frame of an \<^verbatim>\<open>iret\<close>.\<close>

definition return_from_halt :: "(u32 \<Rightarrow> u8 list) \<Rightarrow> proc \<Rightarrow> proc option" where
  "return_from_halt stack_at c = do {
     let c = pushl (r_ebp c) c;
     let c = c\<lparr>r_ebp := r_esp c\<rparr>;
     v \<leftarrow> loadl (ebp_at 8 c) c;
     let c = c\<lparr>r_eax := (r_eax c AND 0xFFFFFF00) OR (v AND 0xFF)\<rparr>;
     v \<leftarrow> loadl (ebp_at 12 c) c;
     let c = c\<lparr>r_ebx := v\<rparr>;
     v \<leftarrow> loadl (ebp_at 16 c) c;
     let c = c\<lparr>r_ecx := v\<rparr>;
     v \<leftarrow> loadl (ebp_at 20 c) c;
     let c = c\<lparr>r_edx := v\<rparr>;
     let c = c\<lparr>r_ebp := r_ebx c\<rparr>;
     let c = c\<lparr>r_esp := r_ecx c, stack := stack_at (r_ecx c)\<rparr>;
     Some (c\<lparr>r_eip := r_edx c\<rparr>) }"

definition restart_shell :: "proc \<Rightarrow> proc option" where
  "restart_shell c = iret (addl_esp 4 c)"

lemma return_from_halt_result:
  assumes "stack c = bytes32 rt @ bytes32 status @ bytes32 bp @ bytes32 sp @ bytes32 ip @ rest"
  shows "return_from_halt stack_at c = Some (c\<lparr>r_eax := (r_eax c AND 0xFFFFFF00) OR (status AND 0xFF), r_ebx := bp, r_ecx := sp, r_edx := ip,
    r_ebp := bp, r_esp := sp, r_eip := ip, stack := stack_at sp\<rparr>)"
proof -
  let ?p = "c\<lparr>stack := bytes32 (r_ebp c) @ stack c, r_esp := r_esp c - 4, r_ebp := r_esp c - 4\<rparr>"
  let ?a = "(r_eax c AND 0xFFFFFF00) OR (status AND 0xFF)"
  have "loadl 8 ?p = Some status" "loadl 12 (?p\<lparr>r_eax := ?a\<rparr>) = Some bp" "loadl 16 (?p\<lparr>r_eax := ?a, r_ebx := bp\<rparr>) = Some sp"
    "loadl 20 (?p\<lparr>r_eax := ?a, r_ebx := bp, r_ecx := sp\<rparr>) = Some ip"
    unfolding assms by (simp_all add: loadl_skip [of _ "bytes32 _"] loadl_top)
  then show ?thesis
    by (cases c) (simp add: return_from_halt_def pushl_def ebp_at_def Let_def)
qed

text \<open>The frame that \<^verbatim>\<open>do_halt\<close> passes for a shell becomes the registers of user code, with the null selector in
  the place of the kernel's data segment.\<close>

lemma restart_shell_result:
  assumes "stack c = bytes32 rt @ bytes32 (fr_eip f) @ bytes32 (ucast (fr_cs f)) @ bytes32 (fr_eflags f) @ bytes32 (fr_esp f) @
      bytes32 (ucast (fr_ss f)) @ rest" and "user_mode (fr_cs f)" and "\<not> user_mode (r_cs c)"
  shows "restart_shell c = Some (c\<lparr>r_eip := fr_eip f, r_cs := fr_cs f, r_eflags := fr_eflags f, r_esp := fr_esp f, r_ss := fr_ss f,
    r_ds := seg_after (r_ds c), r_es := seg_after (r_es c), r_fs := seg_after (r_fs c),
    r_gs := seg_after (r_gs c), stack := rest\<rparr>)"
  using assms by (cases c) (simp add: restart_shell_def iret_def addl_esp_def)

section \<open>The start of the kernel\<close>

text \<open>The Multiboot header that the boot loader looks for.\<close>

definition MULTIBOOT_HEADER_MAGIC :: u32 where "MULTIBOOT_HEADER_MAGIC = 0x1BADB002"
definition MULTIBOOT_HEADER_FLAGS :: u32 where "MULTIBOOT_HEADER_FLAGS = 3"

definition multiboot_header :: "u32 list" where
  "multiboot_header = [MULTIBOOT_HEADER_MAGIC, MULTIBOOT_HEADER_FLAGS, - (MULTIBOOT_HEADER_MAGIC + MULTIBOOT_HEADER_FLAGS)]"

lemma multiboot_header_checks: "sum_list multiboot_header = 0"
  by (simp add: multiboot_header_def)

text \<open>The registers that only the start sets: the places of the two tables.\<close>

record boot_regs =
  r_gdtr :: u32
  r_idtr :: u32

text \<open>\<^verbatim>\<open>start\<close>, up to where \<^verbatim>\<open>entry\<close> returns or waits for the first interrupt; what the stack held below 8 MB is not looked at.\<close>

definition boot_start ::
  "(string \<Rightarrow> u32) \<Rightarrow> device \<Rightarrow> u32 \<Rightarrow> proc \<Rightarrow> boot_regs \<Rightarrow> 'a boot_scheme \<Rightarrow>
   (proc \<times> boot_regs \<times> bool \<times> 'a boot_scheme) option" where
  "boot_start symbol dev header c b s = do {
     let s = cli s;
     let b = b\<lparr>r_gdtr := symbol ''gdt_desc'', r_idtr := symbol ''idt_desc_ptr''\<rparr>;
     let c = c\<lparr>r_cs := KERNEL_CS, r_eip := symbol ''keep_going''\<rparr>;
     let c = c\<lparr>r_esp := 0x800000, stack := []\<rparr>;
     let c = c\<lparr>r_ecx := (r_ecx c AND 0xFFFF0000) OR ucast KERNEL_DS\<rparr>;
     let cx = ucast (r_ecx c);
     let c = c\<lparr>r_ss := cx, r_ds := cx, r_es := cx, r_fs := cx, r_gs := cx\<rparr>;
     let c = pushl (r_eax c) (pushl (r_ebx c) c);
     let c = pushl (symbol ''boot_halt'') c;
     magic \<leftarrow> loadl 4 c;
     addr \<leftarrow> loadl 8 c;
     (r, s) \<leftarrow> boot_entry symbol dev header magic addr s;
     Some (c, b, r, s) }"

text \<open>The kernel is entered with interrupts off, on its own stack and segments, and its entry function gets the magic number
  and the address that the boot loader left in \<^verbatim>\<open>eax\<close> and \<^verbatim>\<open>ebx\<close>.\<close>

lemma boot_start_enters:
  "\<exists>d b'. boot_start symbol dev header c b s = do { (r, t) \<leftarrow> boot_entry symbol dev header (r_eax c) (r_ebx c) (cli s); Some (d, b', r, t) } \<and>
    \<not> interrupts_on (cli s) \<and> r_cs d = KERNEL_CS \<and> r_ss d = KERNEL_DS \<and> r_ds d = KERNEL_DS \<and> r_es d = KERNEL_DS \<and> r_fs d = KERNEL_DS \<and>
    r_gs d = KERNEL_DS \<and> r_esp d = 0x800000 - 12 \<and> r_gdtr b' = symbol ''gdt_desc'' \<and> r_idtr b' = symbol ''idt_desc_ptr''"
proof -
  let ?d = "c\<lparr>r_ecx := (r_ecx c AND 0xFFFF0000) OR ucast KERNEL_DS, r_esp := 0x800000 - 12, r_eip := symbol ''keep_going'', r_cs := KERNEL_CS,
    r_ss := KERNEL_DS, r_ds := KERNEL_DS, r_es := KERNEL_DS, r_fs := KERNEL_DS, r_gs := KERNEL_DS,
    stack := bytes32 (symbol ''boot_halt'') @ bytes32 (r_eax c) @ bytes32 (r_ebx c)\<rparr>"
  let ?b = "b\<lparr>r_gdtr := symbol ''gdt_desc'', r_idtr := symbol ''idt_desc_ptr''\<rparr>"
  have "boot_start symbol dev header c b s = do { (r, t) \<leftarrow> boot_entry symbol dev header (r_eax c) (r_ebx c) (cli s); Some (?d, ?b, r, t) }"
    by (cases c) (simp add: boot_start_def pushl_def Let_def kernel_ds_low loadl_skip [of _ "bytes32 _"] loadl_top [of _ _ "[]"] loadl_top)
  then show ?thesis
    by (intro exI [of _ ?d] exI [of _ ?b]) (simp add: interrupts_off_cli)
qed

end
