(* ===== verification/UserCall.thy ===== *)
theory UserCall
  imports Wrappers
begin

text \<open>
  The assembly of the programs (\<^verbatim>\<open>ece391syscall.S\<close>, \<^verbatim>\<open>ece391sysnum.h\<close>): a C function for each system call, and the start
  that calls \<^verbatim>\<open>main\<close> and halts with its result. In user code \<^verbatim>\<open>stack\<close> is the stack of the program; the gate changes
  to the stack of the kernel and back. The arrays of a program are in the memory of the state.
\<close>

section \<open>The wrappers\<close>

text \<open>\<^verbatim>\<open>int $0x80\<close> in a program; \<^term>\<open>kstack\<close> is what the kernel stack holds, \<^term>\<open>after\<close> the address behind the instruction.\<close>

definition int80 :: "u32 \<Rightarrow> u32 \<Rightarrow> u16 \<Rightarrow> u8 list \<Rightarrow> (nat \<Rightarrow> 's c_fun) \<Rightarrow> 's c_fun" where
  "int80 after esp0 ss0 kstack calls c s = do {
     (d, s) \<leftarrow> system_call calls (take_gate False None esp0 ss0 (c\<lparr>r_eip := after, stack := kstack\<rparr>)) s;
     Some (d\<lparr>stack := stack c\<rparr>, s) }"

definition SYS_HALT :: u32 where "SYS_HALT = 1"
definition SYS_EXECUTE :: u32 where "SYS_EXECUTE = 2"
definition SYS_READ :: u32 where "SYS_READ = 3"
definition SYS_WRITE :: u32 where "SYS_WRITE = 4"
definition SYS_OPEN :: u32 where "SYS_OPEN = 5"
definition SYS_CLOSE :: u32 where "SYS_CLOSE = 6"
definition SYS_GETARGS :: u32 where "SYS_GETARGS = 7"
definition SYS_VIDMAP :: u32 where "SYS_VIDMAP = 8"
definition SYS_SET_HANDLER :: u32 where "SYS_SET_HANDLER = 9"
definition SYS_SIGRETURN :: u32 where "SYS_SIGRETURN = 10"

definition DO_CALL :: "u32 \<Rightarrow> u32 \<Rightarrow> u32 \<Rightarrow> u16 \<Rightarrow> u8 list \<Rightarrow> (nat \<Rightarrow> 's c_fun) \<Rightarrow> 's c_fun" where
  "DO_CALL number after esp0 ss0 kstack calls c s = do {
     let c = pushl (r_ebx c) c;
     let c = c\<lparr>r_eax := number\<rparr>;
     v \<leftarrow> loadl 8 c;
     let c = c\<lparr>r_ebx := v\<rparr>;
     v \<leftarrow> loadl 12 c;
     let c = c\<lparr>r_ecx := v\<rparr>;
     v \<leftarrow> loadl 16 c;
     let c = c\<lparr>r_edx := v\<rparr>;
     (c, s) \<leftarrow> int80 after esp0 ss0 kstack calls c s;
     (ebx, c) \<leftarrow> popl c;
     c \<leftarrow> ret (c\<lparr>r_ebx := ebx\<rparr>);
     Some (c, s) }"

definition program_calls :: "(string \<times> u32) list" where
  "program_calls = [(''ece391_halt'', SYS_HALT), (''ece391_execute'', SYS_EXECUTE), (''ece391_read'', SYS_READ), (''ece391_write'', SYS_WRITE),
     (''ece391_open'', SYS_OPEN), (''ece391_close'', SYS_CLOSE), (''ece391_getargs'', SYS_GETARGS), (''ece391_vidmap'', SYS_VIDMAP),
     (''ece391_set_handler'', SYS_SET_HANDLER), (''ece391_sigreturn'', SYS_SIGRETURN)]"

definition program_call :: "u32 \<Rightarrow> u32 \<Rightarrow> u16 \<Rightarrow> u8 list \<Rightarrow> (nat \<Rightarrow> 's c_fun) \<Rightarrow> string \<Rightarrow> 's c_fun" where
  "program_call after esp0 ss0 kstack calls name c s = do {
     n \<leftarrow> map_of program_calls name;
     DO_CALL n after esp0 ss0 kstack calls c s }"

text \<open>\<^verbatim>\<open>_start\<close>; \<^term>\<open>main\<close> is the function of the program, and \<^term>\<open>ret_at\<close> the address behind the second call, where no code is.\<close>

definition program_start :: "u32 \<Rightarrow> u32 \<Rightarrow> u32 \<Rightarrow> u16 \<Rightarrow> u8 list \<Rightarrow> (nat \<Rightarrow> 's c_fun) \<Rightarrow> 's c_fun \<Rightarrow> 's c_fun" where
  "program_start ret_at after esp0 ss0 kstack calls main c s = do {
     (c, s) \<leftarrow> main c s;
     let c = pushl (r_eax c) (pushl 0 (pushl 0 c));
     program_call after esp0 ss0 kstack calls ''ece391_halt'' (pushl ret_at c) s }"

section \<open>What they do\<close>

lemma ret_pushed: "stack c = bytes32 v @ r \<Longrightarrow> ret c = Some (c\<lparr>stack := r, r_esp := r_esp c + 4, r_eip := v\<rparr>)"
  by (simp add: ret_def)

text \<open>The arguments reach the registers of the call, and what comes back in the registers reaches the caller.\<close>

lemma DO_CALL_enters:
  assumes "stack c = bytes32 rt @ bytes32 a1 @ bytes32 a2 @ bytes32 a3 @ rest"
  shows "DO_CALL number after esp0 ss0 kstack calls c s = do {
    (d, t) \<leftarrow> system_call calls (take_gate False None esp0 ss0
      (c\<lparr>r_eax := number, r_ebx := a1, r_ecx := a2, r_edx := a3, r_esp := r_esp c - 4, r_eip := after, stack := kstack\<rparr>)) s;
    Some (d\<lparr>r_ebx := r_ebx c, stack := bytes32 a1 @ bytes32 a2 @ bytes32 a3 @ rest, r_esp := 8 + r_esp d, r_eip := rt\<rparr>, t) }"
proof -
  let ?st = "bytes32 (r_ebx c) @ bytes32 rt @ bytes32 a1 @ bytes32 a2 @ bytes32 a3 @ rest"
  let ?p = "c\<lparr>r_eax := number, stack := ?st, r_esp := r_esp c - 4\<rparr>"
  have ld: "loadl 8 ?p = Some a1" "loadl 12 (?p\<lparr>r_ebx := a1\<rparr>) = Some a2" "loadl 16 (?p\<lparr>r_ebx := a1, r_ecx := a2\<rparr>) = Some a3"
    by (simp_all add: loadl_skip [of _ "bytes32 _"] loadl_top)
  show ?thesis
    using assms ld by (cases c) (simp add: DO_CALL_def int80_def pushl_def Let_def ret_pushed case_prod_unfold)
qed

text \<open>C4. A system call of a program, as its C code makes it: the function of that number in the kernel gets the three
  arguments from the stack of the program and its result is the result of the call. The program finds its
  registers as a C function has to leave them, and on its stack only the return address is gone.\<close>

theorem program_call_returns:
  assumes "stack c = bytes32 rt @ bytes32 a1 @ bytes32 a2 @ bytes32 a3 @ rest" and "returnable c"
    and "3 \<le> n" "n \<le> 10" and "map_of program_calls name = Some (of_nat n)"
    and "returning_call ticks intrs dev str n a1 a2 a3 s = Some (r, t)"
  shows "\<exists>x d. program_call after esp0 ss0 kstack (system_call_table scratch es ticks intrs dev str lv) name c s =
    Some (c\<lparr>r_eax := u32_of r, r_ecx := x, r_edx := d, r_esp := r_esp c + 4, r_eip := rt,
      stack := bytes32 a1 @ bytes32 a2 @ bytes32 a3 @ rest\<rparr>, t)"
proof -
  let ?c = "c\<lparr>r_eax := of_nat n, r_ebx := a1, r_ecx := a2, r_edx := a3, r_esp := r_esp c - 4, r_eip := after, stack := kstack\<rparr>"
  have "r_eax ?c = of_nat n" "returnable ?c" using assms(2) by (simp_all add: returnable_def)
  from call_dispatched [OF assms(3,4) this, of ticks intrs dev str s r t scratch es lv esp0 ss0] assms(6)
  obtain x d where "system_call (system_call_table scratch es ticks intrs dev str lv) (take_gate False None esp0 ss0 ?c) s =
      Some (?c\<lparr>r_eax := u32_of r, r_ecx := x, r_edx := d\<rparr>, t)" by auto
  then have "program_call after esp0 ss0 kstack (system_call_table scratch es ticks intrs dev str lv) name c s =
    Some (c\<lparr>r_eax := u32_of r, r_ecx := x, r_edx := d, r_esp := r_esp c + 4, r_eip := rt,
      stack := bytes32 a1 @ bytes32 a2 @ bytes32 a3 @ rest\<rparr>, t)"
    using assms(5) by (simp add: program_call_def DO_CALL_enters [OF assms(1)])
  then show ?thesis by blast
qed

theorem program_call_returns_witness:
  "\<exists>x d. program_call 0x8048300 0x7FFFFC KERNEL_DS [] (system_call_table (\<lambda>_ _. (1, 2, 3, 4)) (\<lambda>c _ _. r_ds c) [] [] (\<lambda>_ _. 0) (\<lambda>_ _. []) (\<lambda>_ _ _. None))
     ''ece391_close'' (proc_demo\<lparr>stack := bytes32 0x8048200 @ bytes32 9 @ bytes32 2 @ bytes32 3 @ []\<rparr>) kbd_demo =
     Some (proc_demo\<lparr>r_eax := - 1, r_ecx := x, r_edx := d, r_esp := r_esp proc_demo + 4, r_eip := 0x8048200,
       stack := bytes32 9 @ bytes32 2 @ bytes32 3 @ []\<rparr>, kbd_demo)"
proof -
  let ?c = "proc_demo\<lparr>stack := bytes32 0x8048200 @ bytes32 9 @ bytes32 2 @ bytes32 3 @ []\<rparr>"
  have "returning_call [] [] (\<lambda>_ _. 0) (\<lambda>_ _. []) 6 9 2 3 kbd_demo = Some (- 1, kbd_demo)"
    by (simp add: returning_call_def do_close_def)
  moreover have "returnable ?c" using proc_demo_ok(1) by (simp add: returnable_def)
  ultimately show ?thesis
    using program_call_returns [of ?c "0x8048200" 9 2 3 "[]" 6 "''ece391_close''" "[]" "[]" "\<lambda>_ _. 0" "\<lambda>_ _. []" kbd_demo "- 1" kbd_demo
        "0x8048300" "0x7FFFFC" KERNEL_DS "[]" "\<lambda>_ _. (1, 2, 3, 4)" "\<lambda>c _ _. r_ds c" "\<lambda>_ _ _. None"]
    by (simp add: program_calls_def SYS_CLOSE_def SYS_HALT_def SYS_EXECUTE_def SYS_READ_def SYS_WRITE_def SYS_OPEN_def u32_of_def proc_demo_def
        proc.defs cpu.defs)
qed

text \<open>The start runs \<^verbatim>\<open>main\<close> and then halts: whatever the table of calls is, its first entry runs in the kernel with the
  result of \<^verbatim>\<open>main\<close> as its argument.\<close>

lemma system_call_halts:
  assumes "r_eax c = SYS_HALT"
  shows "\<exists>c1 k. stack c1 = bytes32 (r_ebx c) @ bytes32 (r_ecx c) @ bytes32 (r_edx c) @ drop 12 (stack c1) \<and> r_cs c1 = KERNEL_CS \<and>
    r_ds c1 = KERNEL_DS \<and> (\<forall>calls. system_call calls (take_gate False None esp0 ss0 c) s = calls 0 c1 s \<bind> k)"
proof -
  let ?g = "take_gate False None esp0 ss0 c"
  let ?segs = "bytes16 (r_fs c) @ bytes16 (r_es c) @ bytes16 (r_ds c)"
  let ?regs = "bytes32 (r_edi c) @ bytes32 (r_esi c) @ bytes32 (r_ebx c) @ bytes32 (r_ebp c)"
  let ?args = "bytes32 (r_ebx c) @ bytes32 (r_ecx c) @ bytes32 (r_edx c)"
  define c1 where "c1 = ?g\<lparr>r_esi := (r_esi c AND 0xFFFF0000) OR ucast KERNEL_DS, r_ds := KERNEL_DS,
    stack := ?args @ ?segs @ ?regs @ gate_frame c, r_esp := r_esp ?g - 34\<rparr>"
  have "system_call calls ?g s = calls 0 c1 s \<bind> (\<lambda>(d, t). do { d \<leftarrow> system_call_done (addl_esp 12 d); Some (d, t) })" for calls
    using assms by (simp add: system_call_def SYS_HALT_def pushl_def pushw_def take_gate_regs take_gate_stack c1_def Let_def kernel_ds_low)
  moreover have "stack c1 = ?args @ drop 12 (stack c1)" "r_cs c1 = KERNEL_CS" "r_ds c1 = KERNEL_DS"
    by (simp_all add: c1_def take_gate_regs)
  ultimately show ?thesis by (metis append.assoc)
qed

lemma program_start_halts:
  assumes main: "main c s = Some (d, t)"
  shows "\<exists>c1 k. stack c1 = bytes32 (r_eax d) @ bytes32 0 @ bytes32 0 @ drop 12 (stack c1) \<and> r_cs c1 = KERNEL_CS \<and> r_ds c1 = KERNEL_DS \<and>
    (\<forall>calls. program_start ret_at after esp0 ss0 kstack calls main c s = calls 0 c1 t \<bind> k)"
proof -
  let ?d = "pushl ret_at (pushl (r_eax d) (pushl 0 (pushl 0 d)))"
  have st: "stack ?d = bytes32 ret_at @ bytes32 (r_eax d) @ bytes32 0 @ bytes32 0 @ stack d" by (simp add: pushl_def)
  let ?e = "?d\<lparr>r_eax := SYS_HALT, r_ebx := r_eax d, r_ecx := 0, r_edx := 0, r_esp := r_esp ?d - 4, r_eip := after, stack := kstack\<rparr>"
  obtain c1 k where c1: "stack c1 = bytes32 (r_eax d) @ bytes32 0 @ bytes32 0 @ drop 12 (stack c1)" "r_cs c1 = KERNEL_CS" "r_ds c1 = KERNEL_DS"
    and k: "\<And>calls. system_call calls (take_gate False None esp0 ss0 ?e) t = calls 0 c1 t \<bind> k"
    using system_call_halts [of ?e esp0 ss0 t] by auto
  have "program_start ret_at after esp0 ss0 kstack calls main c s = system_call calls (take_gate False None esp0 ss0 ?e) t \<bind>
      (\<lambda>(e, u). Some (e\<lparr>r_ebx := r_ebx ?d, stack := bytes32 (r_eax d) @ bytes32 0 @ bytes32 0 @ stack d, r_esp := 8 + r_esp e, r_eip := ret_at\<rparr>, u))"
    for calls using main by (simp add: program_start_def program_call_def program_calls_def DO_CALL_enters [OF st])
  then have "program_start ret_at after esp0 ss0 kstack calls main c s = calls 0 c1 t \<bind> (\<lambda>x. k x \<bind>
      (\<lambda>(e, u). Some (e\<lparr>r_ebx := r_ebx ?d, stack := bytes32 (r_eax d) @ bytes32 0 @ bytes32 0 @ stack d, r_esp := 8 + r_esp e, r_eip := ret_at\<rparr>, u)))"
    for calls by (simp add: k)
  with c1 show ?thesis by blast
qed

end
