(* ===== verification/MemOps.thy ===== *)
theory MemOps
  imports FileSys
begin

text \<open>
  The memory functions of \<^verbatim>\<open>lib.c\<close> that are written in assembly: \<^verbatim>\<open>memset\<close>, \<^verbatim>\<open>memset_word\<close>,
  \<^verbatim>\<open>memset_dword\<close> and \<^verbatim>\<open>memcpy\<close>. The loops are those of the assembly, on registers and bytes: single
  bytes up to a 4 byte boundary, a \<^verbatim>\<open>rep\<close> instruction for whole words, single bytes for the rest. The
  reference is the byte-wise copy of theory FileSys.
\<close>

unbundle bit_operations_syntax

section \<open>The functions\<close>

function memset_top :: "u32 \<Rightarrow> u32 \<Rightarrow> u32 \<Rightarrow> memory \<Rightarrow> u32 \<times> u32 \<times> memory" where
  "memset_top eax edi ecx m =
     (if ecx = 0 \<or> edi AND 3 = 0 then (edi, ecx, m)
      else memset_top eax (edi + 1) (ecx - 1) (m(edi := ucast eax)))"
  by pat_completeness auto
termination by (relation "measure (\<lambda>(eax, edi, ecx, m). unat ecx)") (auto simp: unat_minus_one unat_gt_0)

declare memset_top.simps [simp del]

text \<open>\<^verbatim>\<open>rep stosl\<close>, \<^verbatim>\<open>rep stosw\<close> and \<^verbatim>\<open>rep movsl\<close> with the direction flag clear; the first argument is \<^verbatim>\<open>ecx\<close>.\<close>

fun rep_stosl :: "nat \<Rightarrow> u32 \<Rightarrow> u32 \<Rightarrow> memory \<Rightarrow> u32 \<times> memory" where
  "rep_stosl 0 eax edi m = (edi, m)"
| "rep_stosl (Suc n) eax edi m = rep_stosl n eax (edi + 4) (st32 m edi eax)"

fun rep_stosw :: "nat \<Rightarrow> u32 \<Rightarrow> u32 \<Rightarrow> memory \<Rightarrow> u32 \<times> memory" where
  "rep_stosw 0 eax edi m = (edi, m)"
| "rep_stosw (Suc n) eax edi m = rep_stosw n eax (edi + 2) (m(edi := ucast eax, edi + 1 := ucast (drop_bit 8 eax)))"

fun rep_movsl :: "nat \<Rightarrow> u32 \<Rightarrow> u32 \<Rightarrow> memory \<Rightarrow> u32 \<times> u32 \<times> memory" where
  "rep_movsl 0 esi edi m = (esi, edi, m)"
| "rep_movsl (Suc n) esi edi m = rep_movsl n (esi + 4) (edi + 4) (st32 m edi (ld32 m esi))"

fun memset_bottom :: "nat \<Rightarrow> u32 \<Rightarrow> u32 \<Rightarrow> memory \<Rightarrow> memory" where
  "memset_bottom 0 eax edi m = m"
| "memset_bottom (Suc edx) eax edi m = memset_bottom edx eax (edi + 1) (m(edi := ucast eax))"

definition memset :: "u32 \<Rightarrow> u32 \<Rightarrow> u32 \<Rightarrow> 'a machine_scheme \<Rightarrow> u32 \<times> 'a machine_scheme" where
  "memset p c n s = (
     let c = c AND 0xFF;
         eax = push_bit 24 c OR push_bit 16 c OR push_bit 8 c OR c;
         (edi, ecx, m) = memset_top eax p n (mem s)
     in if ecx = 0 then (p, s\<lparr>mem := m\<rparr>)
        else
          let edx = ecx AND 3;
              (edi, m) = rep_stosl (unat (drop_bit 2 ecx)) eax edi m
          in (p, s\<lparr>mem := memset_bottom (unat edx) eax edi m\<rparr>))"

definition memset_word :: "u32 \<Rightarrow> u32 \<Rightarrow> u32 \<Rightarrow> 'a machine_scheme \<Rightarrow> u32 \<times> 'a machine_scheme" where
  "memset_word p c n s = (let (edi, m) = rep_stosw (unat n) c p (mem s) in (p, s\<lparr>mem := m\<rparr>))"

definition memset_dword :: "u32 \<Rightarrow> u32 \<Rightarrow> u32 \<Rightarrow> 'a machine_scheme \<Rightarrow> u32 \<times> 'a machine_scheme" where
  "memset_dword p c n s = (let (edi, m) = rep_stosl (unat n) c p (mem s) in (p, s\<lparr>mem := m\<rparr>))"

function memcpy_top :: "u32 \<Rightarrow> u32 \<Rightarrow> u32 \<Rightarrow> memory \<Rightarrow> u32 \<times> u32 \<times> u32 \<times> memory" where
  "memcpy_top esi edi ecx m =
     (if ecx = 0 \<or> edi AND 3 = 0 then (esi, edi, ecx, m)
      else memcpy_top (esi + 1) (edi + 1) (ecx - 1) (m(edi := m esi)))"
  by pat_completeness auto
termination by (relation "measure (\<lambda>(esi, edi, ecx, m). unat ecx)") (auto simp: unat_minus_one unat_gt_0)

declare memcpy_top.simps [simp del]

fun memcpy_bottom :: "nat \<Rightarrow> u32 \<Rightarrow> u32 \<Rightarrow> memory \<Rightarrow> memory" where
  "memcpy_bottom 0 esi edi m = m"
| "memcpy_bottom (Suc edx) esi edi m = memcpy_bottom edx (esi + 1) (edi + 1) (m(edi := m esi))"

definition memcpy :: "u32 \<Rightarrow> u32 \<Rightarrow> u32 \<Rightarrow> 'a machine_scheme \<Rightarrow> u32 \<times> 'a machine_scheme" where
  "memcpy dest src n s = (
     let (esi, edi, ecx, m) = memcpy_top src dest n (mem s)
     in if ecx = 0 then (dest, s\<lparr>mem := m\<rparr>)
        else
          let edx = ecx AND 3;
              (esi, edi, m) = rep_movsl (unat (drop_bit 2 ecx)) esi edi m
          in (dest, s\<lparr>mem := memcpy_bottom (unat edx) esi edi m\<rparr>))"

section \<open>Bytes in order\<close>

text \<open>The memory after the first \<^term>\<open>i\<close> bytes of a fill or copy; a store of the next byte, or of the next
  four bytes at once, continues it.\<close>

lemma next_byte:
  assumes "i < n" and "n \<le> 2 ^ 32" and "v = f i"
  shows "(copied p f i m)(p + of_nat i := v) = copied p f (Suc i) m"
  using copied_Suc [of i p f m] assms by simp

lemma next_word:
  assumes "i + 4 \<le> n" and "n \<le> 2 ^ 32"
    and "ucast v = f i" "ucast (drop_bit 8 v) = f (i + 1)" "ucast (drop_bit 16 v) = f (i + 2)" "ucast (drop_bit 24 v) = f (i + 3)"
  shows "st32 (copied p f i m) (p + of_nat i) v = copied p f (i + 4) m"
proof -
  have e: "p + of_nat i + 1 = p + of_nat (i + 1)" "p + of_nat i + 2 = p + of_nat (i + 2)" "p + of_nat i + 3 = p + of_nat (i + 3)"
    by simp_all
  have s: "Suc i = i + 1" "Suc (i + 1) = i + 2" "Suc (i + 2) = i + 3" "Suc (i + 3) = i + 4" by simp_all
  note n = next_byte [where n = n and f = f and m = m, OF _ assms(2) assms(3), of p]
    next_byte [where n = n and f = f and m = m, OF _ assms(2) assms(4), of p]
    next_byte [where n = n and f = f and m = m, OF _ assms(2) assms(5), of p]
    next_byte [where n = n and f = f and m = m, OF _ assms(2) assms(6), of p]
  show ?thesis
    unfolding st32_def e using assms(1) n unfolding s by (simp del: of_nat_add)
qed

lemma rest_split: "unat (n :: u32) = 4 * unat (drop_bit 2 n) + unat (n AND 3)"
proof -
  have "unat (n AND 3) = unat n mod 4"
    unfolding mask_bits take_bit_eq_mask [symmetric] by (simp add: take_bit_eq_mod unat_mod_distrib)
  moreover have "unat (drop_bit 2 n) = unat n div 4" by (simp add: drop_bit_eq_div unat_div_distrib)
  ultimately show ?thesis by simp
qed

lemma next_at: "p + of_nat i + 1 = p + of_nat (Suc i)" "p + of_nat i + 4 = p + of_nat (i + 4)" for p :: u32
  by simp_all

lemma one_less: "Suc d = unat (ecx :: u32) \<Longrightarrow> ecx \<noteq> 0 \<and> unat (ecx - 1) = d"
  by (metis diff_Suc_1 nat.distinct(1) unat_eq_zero unat_minus_one)

section \<open>Filling\<close>

lemma top_fills:
  assumes "i + unat ecx = n" and "n \<le> 2 ^ 32" and "ucast eax = v"
  shows "\<exists>j c. memset_top eax (p + of_nat i) ecx (copied p (\<lambda>_. v) i m) = (p + of_nat j, c, copied p (\<lambda>_. v) j m) \<and>
    j + unat c = n"
  using assms(1)
proof (induction "unat ecx" arbitrary: i ecx)
  case 0
  then have "ecx = 0" by (simp add: unat_eq_0)
  then show ?case using 0 by (subst memset_top.simps) auto
next
  case (Suc d)
  then have e: "ecx \<noteq> 0" "unat (ecx - 1) = d" "i < n" using one_less [of d ecx] by auto
  show ?case
  proof (cases "(p + of_nat i) AND 3 = 0")
    case True
    then show ?thesis using Suc.prems by (subst memset_top.simps) auto
  next
    case False
    have "(copied p (\<lambda>_. v) i m)(p + of_nat i := ucast eax) = copied p (\<lambda>_. v) (Suc i) m"
      by (rule next_byte [OF e(3) assms(2)]) (rule assms(3))
    then have step: "memset_top eax (p + of_nat i) ecx (copied p (\<lambda>_. v) i m) =
        memset_top eax (p + of_nat (Suc i)) (ecx - 1) (copied p (\<lambda>_. v) (Suc i) m)"
      using False e(1) by (subst memset_top.simps) (simp only: next_at if_False simp_thms)
    show ?thesis unfolding step by (rule Suc.hyps(1)) (use e Suc.hyps(2) Suc.prems in simp_all)
  qed
qed

lemma stosl_stores:
  assumes "i + 4 * k \<le> n" and "n \<le> 2 ^ 32"
    and "\<And>j. i \<le> j \<Longrightarrow> j < i + 4 * k \<Longrightarrow> f j = ucast (drop_bit (8 * ((j - i) mod 4)) eax)"
  shows "rep_stosl k eax (p + of_nat i) (copied p f i m) = (p + of_nat (i + 4 * k), copied p f (i + 4 * k) m)"
  using assms(1,3)
proof (induction k arbitrary: i)
  case 0
  then show ?case by simp
next
  case (Suc k)
  have st: "st32 (copied p f i m) (p + of_nat i) eax = copied p f (i + 4) m"
    by (rule next_word [OF _ assms(2)])
      (use Suc.prems(1) Suc.prems(2) [of i] Suc.prems(2) [of "i + 1"] Suc.prems(2) [of "i + 2"] Suc.prems(2) [of "i + 3"] in simp_all)
  have rest: "rep_stosl k eax (p + of_nat (i + 4)) (copied p f (i + 4) m) =
      (p + of_nat (i + 4 + 4 * k), copied p f (i + 4 + 4 * k) m)"
  proof (rule Suc.IH)
    fix j assume j: "i + 4 \<le> j" "j < i + 4 + 4 * k"
    then have "(j - i) mod 4 = (j - (i + 4)) mod 4" using mod_add_self1 [of 4 "j - (i + 4)"] by simp
    then show "f j = ucast (drop_bit (8 * ((j - (i + 4)) mod 4)) eax)" using Suc.prems(2) [of j] j by simp
  qed (use Suc.prems(1) in simp)
  have "i + 4 * Suc k = i + 4 + 4 * k" by simp
  then show ?case by (simp only: rep_stosl.simps next_at st rest)
qed

lemma bottom_fills:
  assumes "i + k \<le> n" and "n \<le> 2 ^ 32" and "ucast eax = v"
  shows "memset_bottom k eax (p + of_nat i) (copied p (\<lambda>_. v) i m) = copied p (\<lambda>_. v) (i + k) m"
  using assms(1)
proof (induction k arbitrary: i)
  case 0
  then show ?case by simp
next
  case (Suc k)
  have st: "(copied p (\<lambda>_. v) i m)(p + of_nat i := ucast eax) = copied p (\<lambda>_. v) (Suc i) m"
    by (rule next_byte [OF _ assms(2)]) (use Suc.prems assms(3) in simp_all)
  have rest: "memset_bottom k eax (p + of_nat (Suc i)) (copied p (\<lambda>_. v) (Suc i) m) = copied p (\<lambda>_. v) (Suc i + k) m"
    by (rule Suc.IH) (use Suc.prems in simp)
  show ?case by (simp only: memset_bottom.simps next_at st rest add_Suc_right add_Suc)
qed

lemma four_bytes:
  fixes c :: u32
  defines "e \<equiv> push_bit 24 (c AND 0xFF) OR push_bit 16 (c AND 0xFF) OR push_bit 8 (c AND 0xFF) OR (c AND 0xFF)"
  assumes "k < 4"
  shows "(ucast (drop_bit (8 * k) e) :: u8) = ucast c"
proof (rule bit_word_eqI)
  fix n assume "n < LENGTH(8)"
  then have "n \<in> {0, 1, 2, 3, 4, 5, 6, 7}" by auto
  moreover have "(0xFF :: u32) = mask 8" by (simp add: mask_eq_exp_minus_1)
  moreover have "k \<in> {0, 1, 2, 3}" using assms(2) by auto
  ultimately show "bit (ucast (drop_bit (8 * k) e) :: u8) n = bit (ucast c :: u8) n"
    unfolding e_def by (elim insertE emptyE) (simp_all add: bit_simps)
qed

text \<open>C32. \<^verbatim>\<open>memset\<close> fills: for every address, byte and length, aligned or not and also across the end of
  the address space, it returns its first argument and exactly the \<^term>\<open>n\<close> bytes from there on
  hold the low byte of \<^term>\<open>c\<close>.\<close>

theorem memset_fills:
  "memset p c n s = (p, s\<lparr>mem := (\<lambda>a. if unat (a - p) < unat n then ucast c else mem s a)\<rparr>)"
proof -
  let ?e = "push_bit 24 (c AND 0xFF) OR push_bit 16 (c AND 0xFF) OR push_bit 8 (c AND 0xFF) OR (c AND 0xFF)"
  let ?f = "\<lambda>_ :: nat. ucast c :: u8"
  have b: "(ucast (drop_bit (8 * k) ?e) :: u8) = ucast c" if "k < 4" for k by (rule four_bytes [OF that])
  have "unat n < 2 ^ LENGTH(32)" by (rule unsigned_less)
  then have n: "unat n \<le> 2 ^ 32" by simp
  have e0: "ucast ?e = (ucast c :: u8)" using b [of 0] by simp
  obtain j ecx where j: "memset_top ?e p n (mem s) = (p + of_nat j, ecx, copied p ?f j (mem s))" "j + unat ecx = unat n"
    using top_fills [of 0 n "unat n" ?e "ucast c" p "mem s"] n e0 by auto
  let ?w = "unat (drop_bit 2 ecx)" and ?r = "unat (ecx AND 3)"
  note split = rest_split [of ecx]
  have "rep_stosl ?w ?e (p + of_nat j) (copied p ?f j (mem s)) = (p + of_nat (j + 4 * ?w), copied p ?f (j + 4 * ?w) (mem s))"
    by (rule stosl_stores [OF _ n]) (use j(2) split b in simp_all)
  moreover have "memset_bottom ?r ?e (p + of_nat (j + 4 * ?w)) (copied p ?f (j + 4 * ?w) (mem s)) =
      copied p ?f (j + 4 * ?w + ?r) (mem s)"
    by (rule bottom_fills [OF _ n e0]) (use j(2) split in simp)
  moreover have "j + 4 * ?w + ?r = unat n" using j(2) split by simp
  ultimately have "memset p c n s = (p, s\<lparr>mem := copied p ?f (unat n) (mem s)\<rparr>)"
    using j by (auto simp: memset_def Let_def simp del: of_nat_add)
  then show ?thesis by (simp add: copied_def)
qed

section \<open>Copying\<close>

lemma source_intact:
  assumes "unat (src - dest) + n \<le> 2 ^ 32" and "i \<le> k" and "k < n"
  shows "copied dest f i m (src + of_nat k) = m (src + of_nat k)"
proof -
  define d where "d = src - dest"
  have e: "src + of_nat k - dest = d + of_nat k" by (simp add: d_def)
  have "unat (of_nat k :: u32) = k" by (rule unat_of_nat_u32) (use assms in simp)
  moreover have "unat d + k < 2 ^ 32" using assms by (simp add: d_def)
  ultimately have "unat (d + of_nat k) = unat d + k" by (simp add: unat_word_ariths)
  then have "unat (src + of_nat k - dest) = unat (src - dest) + k" by (simp only: e d_def [symmetric])
  then show ?thesis using assms by (simp add: copied_def)
qed

lemma u8_no_bit: "8 \<le> k \<Longrightarrow> \<not> bit (w :: u8) (k + n)"
  using bit_imp_le_length [of w "k + n"] by auto

lemma ld32_bytes:
  "ucast (ld32 m a) = m a" "ucast (drop_bit 8 (ld32 m a)) = m (a + 1)"
  "ucast (drop_bit 16 (ld32 m a)) = m (a + 2)" "ucast (drop_bit 24 (ld32 m a)) = m (a + 3)"
  by (auto simp: ld32_def bit_simps u8_no_bit intro!: bit_word_eqI)

lemma top_copies:
  assumes "i + unat ecx = n" and "unat (src - dest) + n \<le> 2 ^ 32" and f: "f = (\<lambda>j. m (src + of_nat j))"
  shows "\<exists>j c. memcpy_top (src + of_nat i) (dest + of_nat i) ecx (copied dest f i m) =
    (src + of_nat j, dest + of_nat j, c, copied dest f j m) \<and> j + unat c = n"
  using assms(1)
proof (induction "unat ecx" arbitrary: i ecx)
  case 0
  then have "ecx = 0" by (simp add: unat_eq_0)
  then show ?case using 0 by (subst memcpy_top.simps) auto
next
  case (Suc d)
  then have e: "ecx \<noteq> 0" "unat (ecx - 1) = d" "i < n" using one_less [of d ecx] by auto
  show ?case
  proof (cases "(dest + of_nat i) AND 3 = 0")
    case True
    then show ?thesis using Suc.prems by (subst memcpy_top.simps) auto
  next
    case False
    have "copied dest f i m (src + of_nat i) = f i" using source_intact [OF assms(2) order_refl e(3)] f by simp
    then have "(copied dest f i m)(dest + of_nat i := copied dest f i m (src + of_nat i)) = copied dest f (Suc i) m"
      by (intro next_byte [OF e(3)]) (use assms(2) in simp_all)
    then have step: "memcpy_top (src + of_nat i) (dest + of_nat i) ecx (copied dest f i m) =
        memcpy_top (src + of_nat (Suc i)) (dest + of_nat (Suc i)) (ecx - 1) (copied dest f (Suc i) m)"
      using False e(1) by (subst memcpy_top.simps) (simp only: next_at if_False simp_thms)
    show ?thesis unfolding step by (rule Suc.hyps(1)) (use e Suc.hyps(2) Suc.prems in simp_all)
  qed
qed

lemma movsl_copies:
  assumes "i + 4 * k \<le> n" and le: "unat (src - dest) + n \<le> 2 ^ 32" and f: "f = (\<lambda>j. m (src + of_nat j))"
  shows "rep_movsl k (src + of_nat i) (dest + of_nat i) (copied dest f i m) =
    (src + of_nat (i + 4 * k), dest + of_nat (i + 4 * k), copied dest f (i + 4 * k) m)"
  using assms(1)
proof (induction k arbitrary: i)
  case 0
  then show ?case by simp
next
  case (Suc k)
  have b: "copied dest f i m (src + of_nat i + of_nat j) = f (i + j)" if "j < 4" for j
    using source_intact [OF le, of i "i + j" f m] that Suc.prems f by (simp add: add.assoc)
  have st: "st32 (copied dest f i m) (dest + of_nat i) (ld32 (copied dest f i m) (src + of_nat i)) = copied dest f (i + 4) m"
    by (rule next_word [where n = n])
      (use Suc.prems le b [of 0] b [of 1] b [of 2] b [of 3] in \<open>simp_all add: ld32_bytes\<close>)
  have rest: "rep_movsl k (src + of_nat (i + 4)) (dest + of_nat (i + 4)) (copied dest f (i + 4) m) =
      (src + of_nat (i + 4 + 4 * k), dest + of_nat (i + 4 + 4 * k), copied dest f (i + 4 + 4 * k) m)"
    by (rule Suc.IH) (use Suc.prems in simp)
  have "i + 4 * Suc k = i + 4 + 4 * k" by simp
  then show ?case by (simp only: rep_movsl.simps next_at st rest)
qed

lemma bottom_copies:
  assumes "i + k \<le> n" and le: "unat (src - dest) + n \<le> 2 ^ 32" and f: "f = (\<lambda>j. m (src + of_nat j))"
  shows "memcpy_bottom k (src + of_nat i) (dest + of_nat i) (copied dest f i m) = copied dest f (i + k) m"
  using assms(1)
proof (induction k arbitrary: i)
  case 0
  then show ?case by simp
next
  case (Suc k)
  have "copied dest f i m (src + of_nat i) = f i" using source_intact [OF le order_refl, of i f m] Suc.prems f by simp
  then have st: "(copied dest f i m)(dest + of_nat i := copied dest f i m (src + of_nat i)) = copied dest f (Suc i) m"
    by (intro next_byte [where n = n]) (use Suc.prems le in simp_all)
  have rest: "memcpy_bottom k (src + of_nat (Suc i)) (dest + of_nat (Suc i)) (copied dest f (Suc i) m) = copied dest f (Suc i + k) m"
    by (rule Suc.IH) (use Suc.prems in simp)
  show ?case by (simp only: memcpy_bottom.simps next_at st rest add_Suc_right add_Suc)
qed

text \<open>\<^verbatim>\<open>memcpy\<close> copies: it returns the destination, which then holds what the source area held before, and
  changes nothing else, for every alignment, when the areas do not overlap or the destination is the
  lower one.\<close>

theorem memcpy_copies:
  assumes "unat (src - dest) + unat n \<le> 2 ^ 32"
  shows "memcpy dest src n s = (dest, s\<lparr>mem := (\<lambda>a. if unat (a - dest) < unat n then mem s (src + (a - dest)) else mem s a)\<rparr>)"
proof -
  define f where "f = (\<lambda>j. mem s (src + of_nat j))"
  obtain j ecx where j: "memcpy_top src dest n (mem s) = (src + of_nat j, dest + of_nat j, ecx, copied dest f j (mem s))"
      "j + unat ecx = unat n"
    using top_copies [of 0 n "unat n" src dest f "mem s"] assms f_def by auto
  let ?w = "unat (drop_bit 2 ecx)" and ?r = "unat (ecx AND 3)"
  note split = rest_split [of ecx]
  have "rep_movsl ?w (src + of_nat j) (dest + of_nat j) (copied dest f j (mem s)) =
      (src + of_nat (j + 4 * ?w), dest + of_nat (j + 4 * ?w), copied dest f (j + 4 * ?w) (mem s))"
    by (rule movsl_copies [OF _ assms f_def]) (use j(2) split in simp)
  moreover have "memcpy_bottom ?r (src + of_nat (j + 4 * ?w)) (dest + of_nat (j + 4 * ?w)) (copied dest f (j + 4 * ?w) (mem s)) =
      copied dest f (j + 4 * ?w + ?r) (mem s)"
    by (rule bottom_copies [OF _ assms f_def]) (use j(2) split in simp)
  moreover have "j + 4 * ?w + ?r = unat n" using j(2) split by simp
  ultimately have "memcpy dest src n s = (dest, s\<lparr>mem := copied dest f (unat n) (mem s)\<rparr>)"
    using j by (auto simp: memcpy_def Let_def simp del: of_nat_add)
  then show ?thesis by (simp add: copied_def f_def cong: if_cong)
qed

theorem memcpy_copies_witness:
  "mem (snd (memcpy 0x101 0x103 9 fs_demo)) 0x102 = mem fs_demo 0x104"
  using memcpy_copies [of "0x103" "0x101" 9 fs_demo] by simp

section \<open>Words\<close>

lemma stosw_stores:
  assumes "i + 2 * k \<le> n" and "n \<le> 2 ^ 32"
    and "\<And>j. i \<le> j \<Longrightarrow> j < i + 2 * k \<Longrightarrow> f j = ucast (drop_bit (8 * ((j - i) mod 2)) eax)"
  shows "rep_stosw k eax (p + of_nat i) (copied p f i m) = (p + of_nat (i + 2 * k), copied p f (i + 2 * k) m)"
  using assms(1,3)
proof (induction k arbitrary: i)
  case 0
  then show ?case by simp
next
  case (Suc k)
  have f: "ucast eax = f i" "ucast (drop_bit 8 eax) = f (Suc i)" using Suc.prems(2) [of i] Suc.prems(2) [of "Suc i"] by simp_all
  have "(copied p f i m)(p + of_nat i := ucast eax) = copied p f (Suc i) m"
    by (rule next_byte [where f = f, OF _ assms(2) f(1)]) (use Suc.prems(1) in simp)
  moreover have "(copied p f (Suc i) m)(p + of_nat (Suc i) := ucast (drop_bit 8 eax)) = copied p f (Suc (Suc i)) m"
    by (rule next_byte [where f = f, OF _ assms(2) f(2)]) (use Suc.prems(1) in simp)
  ultimately have st: "(copied p f i m)(p + of_nat i := ucast eax, p + of_nat (Suc i) := ucast (drop_bit 8 eax)) = copied p f (i + 2) m"
    by (simp del: of_nat_Suc)
  have at: "p + of_nat i + 1 = p + of_nat (Suc i)" "p + of_nat i + 2 = p + of_nat (i + 2)" by simp_all
  have rest: "rep_stosw k eax (p + of_nat (i + 2)) (copied p f (i + 2) m) =
      (p + of_nat (i + 2 + 2 * k), copied p f (i + 2 + 2 * k) m)"
  proof (rule Suc.IH)
    fix j assume j: "i + 2 \<le> j" "j < i + 2 + 2 * k"
    then obtain d where "j = i + 2 + d" using le_Suc_ex by blast
    then have "(j - i) mod 2 = (j - (i + 2)) mod 2" using mod_add_self1 [of 2 d] by simp
    then show "f j = ucast (drop_bit (8 * ((j - (i + 2)) mod 2)) eax)" using Suc.prems(2) [of j] j by simp
  qed (use Suc.prems(1) in simp)
  have "i + 2 * Suc k = i + 2 + 2 * k" by simp
  then show ?case by (simp only: rep_stosw.simps at st rest)
qed

text \<open>The two other fills, for lengths that do not wrap around the address space.\<close>

lemma memset_words:
  shows "2 * unat n \<le> 2 ^ 32 \<Longrightarrow> memset_word p c n s =
      (p, s\<lparr>mem := copied p (\<lambda>j. ucast (drop_bit (8 * (j mod 2)) c)) (2 * unat n) (mem s)\<rparr>)"
    and "4 * unat n \<le> 2 ^ 32 \<Longrightarrow> memset_dword p c n s =
      (p, s\<lparr>mem := copied p (\<lambda>j. ucast (drop_bit (8 * (j mod 4)) c)) (4 * unat n) (mem s)\<rparr>)"
  using stosw_stores [of 0 "unat n" "2 * unat n" "\<lambda>j. ucast (drop_bit (8 * (j mod 2)) c)" c p "mem s"]
    stosl_stores [of 0 "unat n" "4 * unat n" "\<lambda>j. ucast (drop_bit (8 * (j mod 4)) c)" c p "mem s"]
  by (simp_all add: memset_word_def memset_dword_def)

end
