(* ===== verification/UserLib.thy ===== *)
theory UserLib
  imports CString
begin

text \<open>
  The string functions that the user programs are linked with, \<^verbatim>\<open>ece391support.c\<close> (the copy under
  \<^verbatim>\<open>fish\<close> has the first ones only). They are written apart from those of the kernel and differ: they
  walk pointers, compare bytes without sign, and \<^verbatim>\<open>ece391_strcpy\<close> is called on overlapping parts of
  one array. A pointer is an array and an offset, and an access outside the array is a fault.
\<close>

section \<open>The functions\<close>

function ece391_strlen_from :: "u8 list \<Rightarrow> nat \<Rightarrow> nat \<Rightarrow> nat option" where
  "ece391_strlen_from a s len = (case rd a s of
       None \<Rightarrow> None
     | Some c \<Rightarrow> (if c \<noteq> 0 then ece391_strlen_from a (Suc s) (Suc len) else Some len))"
  by pat_completeness auto
termination by (relation "measure (\<lambda>(a, s, len). length a - s)") (auto simp: rd_def split: if_splits)

declare ece391_strlen_from.simps [simp del]

definition ece391_strlen :: "u8 list \<Rightarrow> nat \<Rightarrow> nat option" where
  "ece391_strlen a s = ece391_strlen_from a s 0"

text \<open>Source and destination are offsets into the same array, so that they may overlap.\<close>

function ece391_strcpy :: "u8 list \<Rightarrow> nat \<Rightarrow> nat \<Rightarrow> u8 list option" where
  "ece391_strcpy a dst src = (case rd a src of
       None \<Rightarrow> None
     | Some c \<Rightarrow> (case wr a dst c of
         None \<Rightarrow> None
       | Some b \<Rightarrow> (if c \<noteq> 0 then ece391_strcpy b (Suc dst) (Suc src) else Some b)))"
  by pat_completeness auto
termination by (relation "measure (\<lambda>(a, dst, src). length a - src)") (auto simp: rd_def wr_def split: if_splits)

declare ece391_strcpy.simps [simp del]

function ece391_strcmp :: "u8 list \<Rightarrow> nat \<Rightarrow> u8 list \<Rightarrow> nat \<Rightarrow> int option" where
  "ece391_strcmp a s1 b s2 = (case rd a s1 of
       None \<Rightarrow> None
     | Some c \<Rightarrow> (case rd b s2 of
         None \<Rightarrow> None
       | Some d \<Rightarrow>
           (if c = d then (if c = 0 then Some 0 else ece391_strcmp a (Suc s1) b (Suc s2))
            else Some (uint c - uint d))))"
  by pat_completeness auto
termination by (relation "measure (\<lambda>(a, s1, b, s2). length a - s1)") (auto simp: rd_def split: if_splits)

declare ece391_strcmp.simps [simp del]

text \<open>The loop of \<^verbatim>\<open>ece391_strncmp\<close>, entered with a positive count.\<close>

function ece391_strncmp_loop :: "u8 list \<Rightarrow> nat \<Rightarrow> u8 list \<Rightarrow> nat \<Rightarrow> nat \<Rightarrow> int option" where
  "ece391_strncmp_loop a s1 b s2 n = (case rd a s1 of
       None \<Rightarrow> None
     | Some c \<Rightarrow> (case rd b s2 of
         None \<Rightarrow> None
       | Some d \<Rightarrow>
           (if c = d then (if c = 0 \<or> n - 1 = 0 then Some 0 else ece391_strncmp_loop a (Suc s1) b (Suc s2) (n - 1))
            else Some (uint c - uint d))))"
  by pat_completeness auto
termination by (relation "measure (\<lambda>(a, s1, b, s2, n). length a - s1)") (auto simp: rd_def split: if_splits)

declare ece391_strncmp_loop.simps [simp del]

definition ece391_strncmp :: "u8 list \<Rightarrow> nat \<Rightarrow> u8 list \<Rightarrow> nat \<Rightarrow> nat \<Rightarrow> int option" where
  "ece391_strncmp a s1 b s2 n = (if n = 0 then Some 0 else ece391_strncmp_loop a s1 b s2 n)"

text \<open>The reversal of \<^verbatim>\<open>s\<close> between \<^verbatim>\<open>beg\<close> and \<^verbatim>\<open>end\<close>.\<close>

function ece391_strrev_loop :: "u8 list \<Rightarrow> nat \<Rightarrow> int \<Rightarrow> int \<Rightarrow> u8 list option" where
  "ece391_strrev_loop a s beg end =
     (if beg < end then do {
        tmp \<leftarrow> rdi a (int s + end);
        c \<leftarrow> rdi a (int s + beg);
        a \<leftarrow> wri a (int s + end) c;
        a \<leftarrow> wri a (int s + beg) tmp;
        ece391_strrev_loop a s (beg + 1) (end - 1) }
      else Some a)"
  by pat_completeness auto
termination by (relation "measure (\<lambda>(a, s, beg, end). nat (end - beg))") auto

declare ece391_strrev_loop.simps [simp del]

definition ece391_strrev :: "u8 list \<Rightarrow> nat \<Rightarrow> u8 list option" where
  "ece391_strrev a s = do {
     n \<leftarrow> ece391_strlen a s;
     let end = int n - 1;
     (if end \<le> 0 then Some a else ece391_strrev_loop a s 0 end) }"

text \<open>The loop of \<^verbatim>\<open>ece391_itoa\<close>; the result is the array and the final \<^verbatim>\<open>newbuf\<close>.\<close>

definition ece391_lookup :: "u8 list" where
  "ece391_lookup = cstr ''0123456789ABCDEFGHIJKLMNOPQRSTUVWXYZ''"

function ece391_itoa_loop :: "u32 \<Rightarrow> u8 list \<Rightarrow> nat \<Rightarrow> u32 \<Rightarrow> (u8 list \<times> nat) option" where
  "ece391_itoa_loop newval a newbuf radix =
     (if newval > 0 then
        (if radix = 0 then None
         else (case rd ece391_lookup (unat (newval mod radix)) of
             None \<Rightarrow> None
           | Some d \<Rightarrow> (case wr a newbuf d of
               None \<Rightarrow> None
             | Some b \<Rightarrow> ece391_itoa_loop (newval div radix) b (Suc newbuf) radix)))
      else Some (a, newbuf))"
  by pat_completeness auto
termination by (relation "measure (\<lambda>(newval, a, newbuf, radix). length a - newbuf)") (auto simp: wr_def split: if_splits)

declare ece391_itoa_loop.simps [simp del]

definition ece391_itoa :: "u32 \<Rightarrow> u8 list \<Rightarrow> nat \<Rightarrow> u32 \<Rightarrow> u8 list option" where
  "ece391_itoa value a buf radix =
     (if value = 0 then do {
        a \<leftarrow> wr a buf (chr CHR ''0'');
        wr a (buf + 1) 0 }
      else do {
        (a, newbuf) \<leftarrow> ece391_itoa_loop value a buf radix;
        a \<leftarrow> wr a newbuf 0;
        ece391_strrev a buf })"

section \<open>The same functions as the kernel's\<close>

lemma ece391_strlen_from_eq: "ece391_strlen_from a (off + len) len = strlen_from a off len"
proof (induction a off len rule: strlen_from.induct)
  case (1 a off len)
  then show ?case
    by (subst ece391_strlen_from.simps, subst strlen_from.simps) (simp add: rd_def)
qed

lemma ece391_strlen_eq: "ece391_strlen = strlen"
  using ece391_strlen_from_eq [of _ _ 0] by (simp add: fun_eq_iff ece391_strlen_def strlen_def)

lemma ece391_strrev_loop_eq: "ece391_strrev_loop a s beg end = strrev_loop a s beg end"
proof (induction a s beg "end" rule: strrev_loop.induct)
  case (1 a s beg "end")
  then show ?case
    by (subst ece391_strrev_loop.simps, subst strrev_loop.simps) (auto intro!: Option.bind_cong)
qed

lemma ece391_strrev_eq: "ece391_strrev = strrev"
proof (intro ext)
  fix a s
  have "strrev_loop a s 0 (int n - 1) = Some a" if "int n - 1 \<le> 0" for n
    using that by (simp add: strrev_loop.simps)
  then show "ece391_strrev a s = strrev a s"
    by (auto simp: ece391_strrev_def strrev_def ece391_strlen_eq ece391_strrev_loop_eq Let_def split: Option.bind_split)
qed

lemma ece391_itoa_loop_eq: "ece391_itoa_loop v a pos radix = itoa_loop v a pos radix"
proof (induction v a pos radix rule: ece391_itoa_loop.induct)
  case (1 v a pos radix)
  have l: "ece391_lookup = itoa_lookup" by (simp add: ece391_lookup_def itoa_lookup_def)
  show ?case
  proof (cases "v > 0 \<and> radix \<noteq> 0 \<and> unat (v mod radix) < length itoa_lookup \<and> pos < length a")
    case True
    then show ?thesis using 1 l
      by (subst ece391_itoa_loop.simps, subst itoa_loop.simps) (simp add: arr_simps)
  next
    case False
    then show ?thesis using l
      by (subst ece391_itoa_loop.simps, subst itoa_loop.simps) (auto simp: rd_def wr_def)
  qed
qed

lemma ece391_itoa_eq: "ece391_itoa = itoa"
  by (intro ext) (simp add: ece391_itoa_def itoa_def ece391_itoa_loop_eq ece391_strrev_eq)

section \<open>Copies inside an array\<close>

lemma rd_drop:
  assumes "drop i a = x # r"
  shows "rd a i = Some x" and "drop (Suc i) a = r" and "i < length a"
proof -
  show i: "i < length a" using assms by (cases "i < length a") simp_all
  then have "drop i a = a ! i # drop (Suc i) a" by (simp add: Cons_nth_drop_Suc)
  then show "rd a i = Some x" and "drop (Suc i) a = r" using assms i by (simp_all add: rd_def)
qed

lemma string_at_drop:
  assumes "string_at a i n"
  shows "drop i a = take n (drop i a) @ 0 # drop (Suc (i + n)) a" and "0 \<notin> set (take n (drop i a))"
    and "length (take n (drop i a)) = n"
proof -
  have n: "i + n < length a" "a ! (i + n) = 0" using assms by (simp_all add: string_at_def)
  have "drop n (drop i a) = 0 # drop (Suc (i + n)) a"
    using n Cons_nth_drop_Suc [of "i + n" a] by (simp add: add.commute)
  then show "drop i a = take n (drop i a) @ 0 # drop (Suc (i + n)) a" by (metis append_take_drop_id)
  show "0 \<notin> set (take n (drop i a))" using assms n by (auto simp: string_at_def in_set_conv_nth)
  show "length (take n (drop i a)) = n" using n by simp
qed

text \<open>A copy towards the start of the array moves the string, whether or not the two places overlap.\<close>

lemma ece391_strcpy_down:
  assumes "string_at a src n" and "dst \<le> src"
  shows "ece391_strcpy a dst src = Some (take dst a @ take (Suc n) (drop src a) @ drop (dst + Suc n) a)"
  using assms
proof (induction n arbitrary: a dst src)
  case 0
  then show ?case
    by (subst ece391_strcpy.simps)
      (auto simp: string_at_def arr_simps upd_conv_take_nth_drop take_Suc_conv_app_nth simp flip: Cons_nth_drop_Suc)
next
  case (Suc n)
  let ?c = "a ! src" and ?b = "a[dst := a ! src]"
  have len: "src + Suc n < length a" "?c \<noteq> 0" using Suc.prems(1) by (auto simp: string_at_def)
  have st: "string_at ?b (Suc src) n" using Suc.prems by (auto simp: string_at_def)
  have "ece391_strcpy a dst src = ece391_strcpy ?b (Suc dst) (Suc src)"
    using len Suc.prems(2) by (subst ece391_strcpy.simps) (simp add: arr_simps)
  also have "\<dots> = Some (take (Suc dst) ?b @ take (Suc n) (drop (Suc src) ?b) @ drop (Suc dst + Suc n) ?b)"
    by (rule Suc.IH [OF st]) (use Suc.prems(2) in simp)
  also have "take (Suc dst) ?b = take dst a @ [?c]"
    using len Suc.prems(2) by (simp add: take_Suc_conv_app_nth)
  also have "drop (Suc src) ?b = drop (Suc src) a" using Suc.prems(2) by simp
  also have "drop (Suc dst + Suc n) ?b = drop (dst + Suc (Suc n)) a" by simp
  finally show ?case using len by (simp add: Cons_nth_drop_Suc [symmetric])
qed

text \<open>A copy towards the end, into the string itself, overwrites the terminator before it is read: it
  runs on to the end of the array.\<close>

lemma strcpy_chases:
  assumes "src < dst" and "\<forall>k. src \<le> k \<and> k < dst \<and> k < length a \<longrightarrow> a ! k \<noteq> 0"
  shows "ece391_strcpy a dst src = None"
  using assms
proof (induction a dst src rule: ece391_strcpy.induct)
  case (1 a dst src)
  show ?case
  proof (cases "dst < length a")
    case True
    then have c: "a ! src \<noteq> 0" "src < length a" using 1(2,3) by auto
    have "ece391_strcpy (a[dst := a ! src]) (Suc dst) (Suc src) = None"
      by (rule 1(1)) (use 1(2,3) True c in \<open>auto simp: arr_simps nth_list_update\<close>)
    then show ?thesis using True c by (subst ece391_strcpy.simps) (simp add: arr_simps)
  next
    case False
    then show ?thesis by (subst ece391_strcpy.simps) (auto simp: wr_def split: option.splits)
  qed
qed

section \<open>Comparisons\<close>

lemma byte_diff: "(uint c = uint d) = (c = (d :: u8))"
  by (simp add: word_uint_eq_iff)

lemma byte_pos: "c \<noteq> 0 \<Longrightarrow> 0 < uint (c :: u8)"
  by (metis uint_ge_0 order_le_less unsigned_eq_0_iff)

text \<open>The comparison of two strings is by the first byte where they differ, without sign.\<close>

lemma strcmp_orders:
  assumes "drop i a = xs @ 0 # u" and "drop j b = ys @ 0 # v" and "0 \<notin> set xs" and "0 \<notin> set ys"
  shows "\<exists>r. ece391_strcmp a i b j = Some r \<and> (r = 0 \<longleftrightarrow> xs = ys) \<and> (r < 0 \<longleftrightarrow> ord_class.lexordp xs ys)"
  using assms
proof (induction xs arbitrary: i j ys)
  case Nil
  note a = rd_drop(1) [of i a 0 u]
  show ?case
  proof (cases ys)
    case Nil
    then show ?thesis using Nil.prems a rd_drop(1) [of j b 0 v] by (subst ece391_strcmp.simps) simp
  next
    case (Cons y ys')
    then have "uint y > 0" using Nil.prems(4) by (auto intro: byte_pos)
    then show ?thesis using Cons Nil.prems a rd_drop(1) [of j b y "ys' @ 0 # v"]
      by (subst ece391_strcmp.simps) auto
  qed
next
  case (Cons x xs)
  note a = rd_drop [of i a x "xs @ 0 # u"]
  show ?case
  proof (cases ys)
    case Nil
    have "uint x > 0" using Cons.prems(3) by (auto intro: byte_pos)
    then show ?thesis using Nil Cons.prems a rd_drop(1) [of j b 0 v]
      by (subst ece391_strcmp.simps) auto
  next
    case (Cons y ys')
    note b = rd_drop [of j b y "ys' @ 0 # v"]
    show ?thesis
    proof (cases "x = y")
      case True
      have "\<exists>r. ece391_strcmp a (Suc i) b (Suc j) = Some r \<and> (r = 0 \<longleftrightarrow> xs = ys') \<and> (r < 0 \<longleftrightarrow> ord_class.lexordp xs ys')"
        by (rule Cons.IH) (use Cons.prems Cons a b in simp_all)
      then show ?thesis using True Cons Cons.prems a b by (subst ece391_strcmp.simps) auto
    next
      case False
      then have "uint x \<noteq> uint y" by (simp only: byte_diff not_False_eq_True)
      then have "uint x - uint y \<noteq> 0" "uint x - uint y < 0 \<longleftrightarrow> ord_class.lexordp (x # xs) ys"
        using Cons False by (auto simp: word_less_def)
      then show ?thesis using False Cons Cons.prems a b by (subst ece391_strcmp.simps) auto
    qed
  qed
qed

lemma strncmp_finds:
  assumes "drop i a = xs @ 0 # u" and "drop j b = ys @ v" and "0 \<notin> set xs" and "0 \<notin> set ys" and "ys \<noteq> []"
  shows "\<exists>r. ece391_strncmp_loop a i b j (length ys) = Some r \<and> (r = 0 \<longleftrightarrow> take (length ys) xs = ys)"
  using assms
proof (induction xs arbitrary: i j ys)
  case Nil
  then obtain y ys' where y: "ys = y # ys'" "uint y > 0" by (cases ys) (auto intro: byte_pos)
  then show ?case using Nil.prems rd_drop(1) [of i a 0 u] rd_drop(1) [of j b y "ys' @ v"]
    by (subst ece391_strncmp_loop.simps) auto
next
  case (Cons x xs)
  then obtain y ys' where y: "ys = y # ys'" "y \<noteq> 0" by (cases ys) auto
  note a = rd_drop [of i a x "xs @ 0 # u"] and b = rd_drop [of j b y "ys' @ v"]
  show ?case
  proof (cases "x = y \<and> ys' \<noteq> []")
    case True
    have "\<exists>r. ece391_strncmp_loop a (Suc i) b (Suc j) (length ys') = Some r \<and> (r = 0 \<longleftrightarrow> take (length ys') xs = ys')"
      by (rule Cons.IH) (use Cons.prems y a b True in simp_all)
    then show ?thesis using True y Cons.prems a b by (subst ece391_strncmp_loop.simps) auto
  next
    case False
    have "x \<noteq> y \<longrightarrow> uint x - uint y \<noteq> 0" by (simp add: byte_diff)
    then show ?thesis using False y Cons.prems a b by (subst ece391_strncmp_loop.simps) auto
  qed
qed

end
