(* ===== verification/Programs.thy ===== *)
theory Programs
  imports UserLib Lines
begin

text \<open>
  The user programs of \<^verbatim>\<open>src/syscalls\<close>. A program is a function of the system calls it makes, of the
  initial contents of its local arrays and of the state \<^typ>\<open>'w\<close> that the calls change; its result is
  the value \<^verbatim>\<open>main\<close> returns and the final state. A program that does not return, or that leaves one
  of its arrays, is \<^term>\<open>None\<close>. The two locales say what the programs rely on: an output that takes
  text, and a file that is delivered in chunks.
\<close>

section \<open>The system calls as a program sees them\<close>

text \<open>
  The wrappers of \<^verbatim>\<open>ece391syscall.S\<close>. A string or buffer argument is the array from the pointer on; a
  call that fills a buffer gives the array back. Each returns the value in \<^verbatim>\<open>eax\<close>; \<^verbatim>\<open>None\<close> is a call that
  never returns.
\<close>

record 'w sys =
  sys_execute :: "u8 list \<Rightarrow> 'w \<Rightarrow> (int \<times> 'w) option"
  sys_read :: "int \<Rightarrow> u8 list \<Rightarrow> int \<Rightarrow> 'w \<Rightarrow> (int \<times> u8 list \<times> 'w) option"
  sys_write :: "int \<Rightarrow> u8 list \<Rightarrow> int \<Rightarrow> 'w \<Rightarrow> (int \<times> 'w) option"
  sys_open :: "u8 list \<Rightarrow> 'w \<Rightarrow> (int \<times> 'w) option"
  sys_close :: "int \<Rightarrow> 'w \<Rightarrow> (int \<times> 'w) option"
  sys_getargs :: "u8 list \<Rightarrow> int \<Rightarrow> 'w \<Rightarrow> (int \<times> u8 list \<times> 'w) option"

text \<open>\<^verbatim>\<open>ece391_fdputs\<close> with a pointer into an array, and with a literal.\<close>

definition ece391_fdputs :: "'w sys \<Rightarrow> int \<Rightarrow> u8 list \<Rightarrow> nat \<Rightarrow> 'w \<Rightarrow> 'w option" where
  "ece391_fdputs sys fd a s w = do {
     n \<leftarrow> ece391_strlen a s;
     (_, w) \<leftarrow> sys_write sys fd (drop s a) (wrap32 (int n)) w;
     Some w }"

abbreviation fdputs :: "'w sys \<Rightarrow> u8 list \<Rightarrow> 'w \<Rightarrow> 'w option" where
  "fdputs sys s w \<equiv> ece391_fdputs sys 1 s 0 w"

text \<open>A message and the value the program ends with.\<close>

definition leave :: "'w sys \<Rightarrow> u8 list \<Rightarrow> int \<Rightarrow> 'w \<Rightarrow> (int \<times> 'w) option" where
  "leave sys msg r w = do { w \<leftarrow> fdputs sys msg w; Some (r, w) }"

section \<open>testprint, hello and test\<close>

definition testprint_main :: "'w sys \<Rightarrow> 'w \<Rightarrow> (int \<times> 'w) option" where
  "testprint_main sys w = leave sys (cline ''Hello, if this ran, the program was correct. Yay!'') 0 w"

definition hello_main :: "'w sys \<Rightarrow> u8 list \<Rightarrow> 'w \<Rightarrow> (int \<times> 'w) option" where
  "hello_main sys buf w = do {
     w \<leftarrow> fdputs sys (cstr ''Hi, what's your name? '') w;
     (cnt, buf, w) \<leftarrow> sys_read sys 0 buf 1023 w;
     (if cnt = - 1 then leave sys (cline ''Can't read name from keyboard.'') 3 w
      else do {
        buf \<leftarrow> wri buf cnt 0;
        w \<leftarrow> fdputs sys (cstr ''Hello, '') w;
        leave sys buf 0 w }) }"

definition test_main :: "'w sys \<Rightarrow> 'w \<Rightarrow> (int \<times> 'w) option" where
  "test_main sys w = do {
     let pname = cstr ''test'' @ replicate 27 0;
     (_, w) \<leftarrow> sys_write sys 1 (cline ''testing max tasks'') 18 w;
     sys_execute sys pname w }"

section \<open>counter\<close>

text \<open>\<^verbatim>\<open>cnt\<close> is unsigned here, and the loop's \<^verbatim>\<open>i\<close> as well.\<close>

definition counter_max :: "u8 \<Rightarrow> u32" where
  "counter_max c = (if c = chr CHR ''0'' then 100 else if c = chr CHR ''1'' then 10000
     else if c = chr CHR ''2'' then 100000 else 0)"

function counter_loop :: "'w sys \<Rightarrow> u32 \<Rightarrow> u32 \<Rightarrow> u8 list \<Rightarrow> 'w \<Rightarrow> 'w option" where
  "counter_loop sys i mx buf w =
     (if i < mx then
        (case (do {
           buf \<leftarrow> ece391_itoa (i + 1) buf 0 10;
           w \<leftarrow> fdputs sys buf w;
           w \<leftarrow> fdputs sys (cline '''') w;
           Some (buf, w) }) of None \<Rightarrow> None | Some (buf, w) \<Rightarrow> counter_loop sys (i + 1) mx buf w)
      else Some w)"
  by pat_completeness auto
termination
proof (relation "measure (\<lambda>(sys, i, mx, r). unat mx - unat i)", goal_cases)
  case (2 sys i mx buf w x a b)
  then have "unat i < unat mx" by (simp add: word_less_nat_alt)
  moreover from this have "unat (i + 1) = Suc (unat i)"
    using unsigned_less [of mx, where 'a = nat] by (simp add: unat_word_ariths)
  ultimately show ?case by simp
qed simp

declare counter_loop.simps [simp del]

definition counter_main :: "'w sys \<Rightarrow> u8 list \<Rightarrow> 'w \<Rightarrow> (int \<times> 'w) option" where
  "counter_main sys buf w = do {
     w \<leftarrow> fdputs sys (cline ''Enter the Test Number: (0): 100, (1): 10000, (2): 100000'') w;
     (r, buf, w) \<leftarrow> sys_read sys 0 buf 1023 w;
     let cnt = u32_of r;
     (if cnt = - 1 then leave sys (cline ''Can't read the number from keyboard.'') 3 w
      else do {
        buf \<leftarrow> wr buf (unat cnt) 0;
        n \<leftarrow> ece391_strlen buf 0;
        c \<leftarrow> rd buf 0;
        (if n > 2 \<or> n = 1 \<and> (c < chr CHR ''0'' \<or> c > chr CHR ''2'')
         then leave sys (cline ''Wrong Choice!'') 0 w
         else do {
           w \<leftarrow> counter_loop sys 0 (counter_max c) buf w;
           Some (0, w) }) }) }"

section \<open>cat and ls\<close>

partial_function (option) cat_loop :: "'w sys \<Rightarrow> int \<Rightarrow> u8 list \<Rightarrow> 'w \<Rightarrow> (int \<times> 'w) option" where
  "cat_loop sys fd buf w = do {
     (cnt, buf, w) \<leftarrow> sys_read sys fd buf 1024 w;
     (if cnt = 0 then Some (0, w)
      else if cnt = - 1 then leave sys (cline ''file read failed'') 3 w
      else do {
        (r, w) \<leftarrow> sys_write sys 1 buf cnt w;
        (if r = - 1 then Some (3, w) else cat_loop sys fd buf w) }) }"

definition cat_main :: "'w sys \<Rightarrow> u8 list \<Rightarrow> 'w \<Rightarrow> (int \<times> 'w) option" where
  "cat_main sys buf w = do {
     (r, buf, w) \<leftarrow> sys_getargs sys buf 1024 w;
     (if r \<noteq> 0 then leave sys (cline ''could not read arguments'') 3 w
      else do {
        (fd, w) \<leftarrow> sys_open sys buf w;
        (if fd = - 1 then leave sys (cline ''file not found'') 2 w
         else cat_loop sys fd buf w) }) }"

partial_function (option) ls_loop :: "'w sys \<Rightarrow> int \<Rightarrow> u8 list \<Rightarrow> 'w \<Rightarrow> (int \<times> 'w) option" where
  "ls_loop sys fd buf w = do {
     (cnt, buf, w) \<leftarrow> sys_read sys fd buf 32 w;
     (if cnt = 0 then Some (0, w)
      else if cnt = - 1 then leave sys (cline ''directory entry read failed'') 3 w
      else do {
        buf \<leftarrow> wri buf cnt 10;
        (r, w) \<leftarrow> sys_write sys 1 buf (cnt + 1) w;
        (if r = - 1 then Some (3, w) else ls_loop sys fd buf w) }) }"

definition ls_main :: "'w sys \<Rightarrow> u8 list \<Rightarrow> 'w \<Rightarrow> (int \<times> 'w) option" where
  "ls_main sys buf w = do {
     (fd, w) \<leftarrow> sys_open sys (cstr ''.'') w;
     (if fd = - 1 then leave sys (cline ''directory open failed'') 2 w
      else ls_loop sys fd buf w) }"

section \<open>shell\<close>

text \<open>The report on the value that \<^verbatim>\<open>execute\<close> returned.\<close>

definition report_result :: "'w sys \<Rightarrow> int \<Rightarrow> 'w \<Rightarrow> 'w option" where
  "report_result sys rval w =
     (if rval = - 1 then fdputs sys (cline ''no such command'') w
      else if rval = 256 then fdputs sys (cline ''program terminated by exception'') w
      else if rval \<noteq> 0 then fdputs sys (cline ''program terminated abnormally'') w
      else Some w)"

definition strip_newline :: "u8 list \<Rightarrow> int \<Rightarrow> int option" where
  "strip_newline buf cnt = (if cnt > 0 then do { c \<leftarrow> rdi buf (cnt - 1); Some (if c = 10 then cnt - 1 else cnt) }
     else Some cnt)"

partial_function (option) shell_main :: "'w sys \<Rightarrow> u8 list \<Rightarrow> 'w \<Rightarrow> (int \<times> 'w) option" where
  "shell_main sys buf w = do {
     w \<leftarrow> fdputs sys (cstr ''391OS> '') w;
     (cnt, buf, w) \<leftarrow> sys_read sys 0 buf 1023 w;
     (if cnt = - 1 then leave sys (cline ''read from keyboard failed'') 3 w
      else do {
        cnt \<leftarrow> strip_newline buf cnt;
        buf \<leftarrow> wri buf cnt 0;
        same \<leftarrow> ece391_strcmp buf 0 (cstr ''exit'') 0;
        (if same = 0 then Some (0, w)
         else do {
           c \<leftarrow> rd buf 0;
           (if c = 0 then shell_main sys buf w
            else do {
              (rval, w) \<leftarrow> sys_execute sys buf w;
              w \<leftarrow> report_result sys rval w;
              shell_main sys buf w }) }) }) }"

section \<open>What the programs rely on\<close>

text \<open>
  An output: descriptor 1 takes any text of a buffer of at most 2048 bytes. \<^term>\<open>ready w\<close> are the
  states in which it works, and \<^term>\<open>writes xs w v\<close> says that \<^term>\<open>v\<close> is \<^term>\<open>w\<close> after the
  text \<^term>\<open>xs\<close>.
\<close>

locale text_output =
  fixes sys :: "'w sys" and ready :: "'w \<Rightarrow> bool" and writes :: "u8 list \<Rightarrow> 'w \<Rightarrow> 'w \<Rightarrow> bool"
  assumes no_text: "ready w \<Longrightarrow> writes [] w w"
    and also_writes: "writes xs w v \<Longrightarrow> writes ys v u \<Longrightarrow> writes (xs @ ys) w u"
    and puts: "ready w \<Longrightarrow> n \<le> length buf \<Longrightarrow> length buf \<le> 2048 \<Longrightarrow>
      \<exists>r v. sys_write sys 1 buf (int n) w = Some (r, v) \<and> r \<noteq> - 1 \<and> ready v \<and> writes (take n buf) w v"
begin

lemma fdputs_writes:
  assumes "ready w" and "string_at a s n" and "length a \<le> 2048"
  shows "\<exists>v. ece391_fdputs sys 1 a s w = Some v \<and> ready v \<and> writes (take n (drop s a)) w v"
proof -
  have n: "s + n < length a" using assms(2) by (simp add: string_at_def)
  then have "n \<le> length (drop s a)" "length (drop s a) \<le> 2048" using assms(3) by simp_all
  then obtain r v where "sys_write sys 1 (drop s a) (int n) w = Some (r, v)" "ready v" "writes (take n (drop s a)) w v"
    using puts [OF assms(1)] by blast
  moreover have "wrap32 (int n) = int n"
    using n assms(3) by (intro wrap32_id) simp_all
  ultimately show ?thesis
    using strlen_string [OF assms(2)] by (simp add: ece391_fdputs_def ece391_strlen_eq)
qed

lemma message_writes:
  assumes "ready w" and "0 \<notin> set xs" and "length xs + length u < 2048"
  shows "\<exists>v. fdputs sys (xs @ 0 # u) w = Some v \<and> ready v \<and> writes xs w v"
proof -
  have "string_at (xs @ 0 # u) 0 (length xs)" using assms(2) by (auto simp: string_at_def nth_append in_set_conv_nth)
  then show ?thesis using fdputs_writes [OF assms(1), of "xs @ 0 # u" 0 "length xs"] assms(3) by simp
qed

text \<open>The numerals from \<^term>\<open>i + 1\<close> to \<^term>\<open>mx\<close>, one on each line.\<close>

lemma counter_writes:
  assumes "ready w" and "32 < length buf" and "length buf \<le> 2048"
  shows "\<exists>v. counter_loop sys i mx buf w = Some v \<and> ready v \<and>
    writes (concat (map (\<lambda>k. numeral_text 10 (Suc k) @ [10]) [unat i..<unat mx])) w v"
  using assms
proof (induction "unat mx - unat i" arbitrary: i buf w)
  case 0
  then have "\<not> i < mx" by (simp add: word_less_nat_alt)
  then show ?case using 0 no_text [of w] by (subst counter_loop.simps) simp
next
  case (Suc d)
  then have lt: "i < mx" "unat i < unat mx" by (simp_all add: word_less_nat_alt)
  then have next_i: "unat (i + 1) = Suc (unat i)"
    using unsigned_less [of mx, where 'a = nat] by (simp add: unat_word_ariths)
  let ?t = "numeral_text 10 (Suc (unat i))"
  let ?b = "?t @ 0 # drop (length ?t + 1) buf"
  have "Suc (unat i) < 2 ^ 32" using lt(2) unsigned_less [of mx, where 'a = nat] by simp
  also have "(2 :: nat) ^ 32 \<le> 10 ^ 32" by (rule power_mono) simp_all
  finally have len: "length ?t \<le> 32" by (intro length_numeral_text) simp_all
  have nz: "0 \<notin> set ?t" using digits_lsd_nonzero [of 10 "Suc (unat i)"] by (simp add: numeral_text_def)
  have itoa: "ece391_itoa (i + 1) buf 0 10 = Some ?b"
    using itoa_writes_numeral [of 10 0 "i + 1" buf] len Suc.prems(2) next_i by (simp add: ece391_itoa_eq)
  have "length ?t + length (drop (length ?t + 1) buf) < 2048" using len Suc.prems by simp
  from message_writes [OF Suc.prems(1) nz this]
  obtain v where v: "fdputs sys ?b w = Some v" "ready v" "writes ?t w v" by blast
  obtain u where u: "fdputs sys (cline '''') v = Some u" "ready u" "writes [10] v u"
    using message_writes [OF v(2), of "[10]" "[]"] by (auto simp: cline_def bytes_of_def)
  have d: "d = unat mx - unat (i + 1)" using Suc.hyps(2) next_i by simp
  have b: "32 < length ?b" "length ?b \<le> 2048" using len Suc.prems(2,3) by simp_all
  obtain x where x: "counter_loop sys (i + 1) mx ?b u = Some x" "ready x"
    "writes (concat (map (\<lambda>k. numeral_text 10 (Suc k) @ [10]) [unat (i + 1)..<unat mx])) u x"
    using Suc.hyps(1) [of "i + 1" u ?b, OF d u(2) b] by blast
  have "counter_loop sys i mx buf w = Some x"
    using lt(1) itoa v(1) u(1) x(1) by (subst counter_loop.simps) simp
  moreover have "writes ((?t @ [10]) @ concat (map (\<lambda>k. numeral_text 10 (Suc k) @ [10]) [Suc (unat i)..<unat mx])) w x"
    using also_writes [OF also_writes [OF v(3) u(3)] x(3)] next_i by simp
  ultimately show ?case using x(2) lt(2) by (simp add: upt_conv_Cons)
qed

end

text \<open>
  A descriptor that delivers chunks to reads of \<^term>\<open>size\<close> bytes, and then nothing: \<^term>\<open>holds fd cs w\<close> says
  that the chunks \<^term>\<open>cs\<close> are still to come. Output does not move it.
\<close>

locale chunk_source = text_output +
  fixes holds :: "int \<Rightarrow> u8 list list \<Rightarrow> 'a \<Rightarrow> bool" and size :: nat
  assumes holds_ready: "holds fd cs w \<Longrightarrow> ready w"
    and read_next: "holds fd (c # cs) w \<Longrightarrow> size \<le> length buf \<Longrightarrow> length buf \<le> 2048 \<Longrightarrow>
      \<exists>b v. sys_read sys fd buf (int size) w = Some (int (length c), c @ b, v) \<and> length (c @ b) = length buf \<and>
        0 < length c \<and> length c \<le> size \<and> holds fd cs v \<and> writes [] w v"
    and read_end: "holds fd [] w \<Longrightarrow> n \<le> size \<Longrightarrow> n \<le> length buf \<Longrightarrow> length buf \<le> 2048 \<Longrightarrow>
      \<exists>v. sys_read sys fd buf (int n) w = Some (0, buf, v) \<and> holds fd [] v \<and> writes [] w v"
    and write_keeps: "holds fd cs w \<Longrightarrow> n \<le> length buf \<Longrightarrow> length buf \<le> 2048 \<Longrightarrow>
      sys_write sys 1 buf (int n) w = Some (r, v) \<Longrightarrow> holds fd cs v"
begin

text \<open>\<^verbatim>\<open>cat\<close> writes the chunks and returns 0.\<close>

lemma cat_writes:
  assumes "holds fd cs w" and "size = 1024" and "length buf = 1024"
  shows "\<exists>v. cat_loop sys fd buf w = Some (0, v) \<and> holds fd [] v \<and> writes (concat cs) w v"
  using assms(1,3)
proof (induction cs arbitrary: w buf)
  case Nil
  then obtain v where "sys_read sys fd buf (int 1024) w = Some (0, buf, v)" "holds fd [] v" "writes [] w v"
    using read_end [of fd w 1024 buf] assms(2) by auto
  then show ?case by (subst cat_loop.simps) simp
next
  case (Cons c cs)
  obtain b v where v: "sys_read sys fd buf (int 1024) w = Some (int (length c), c @ b, v)" "length (c @ b) = 1024"
    "0 < length c" "length c \<le> 1024" "holds fd cs v" "writes [] w v"
    using read_next [OF Cons.prems(1), of buf] Cons.prems(2) assms(2) by auto
  obtain r u where u: "sys_write sys 1 (c @ b) (int (length c)) v = Some (r, u)" "r \<noteq> - 1" "writes c v u"
    using puts [OF holds_ready [OF v(5)], of "length c" "c @ b"] v(2) by auto
  obtain x where x: "cat_loop sys fd (c @ b) u = Some (0, x)" "holds fd [] x" "writes (concat cs) u x"
    using Cons.IH [OF write_keeps [OF v(5) _ _ u(1)], of "c @ b"] v(2) by auto
  have "cat_loop sys fd buf w = Some (0, x)"
    using v(1,3) u(1,2) x(1) by (subst cat_loop.simps) (auto simp del: length_greater_0_conv)
  then show ?case using x(2) also_writes [OF also_writes [OF v(6) u(3)] x(3)] by auto
qed

text \<open>\<^verbatim>\<open>ls\<close> writes each chunk on a line of its own.\<close>

lemma ls_writes:
  assumes "holds fd cs w" and "size = 32" and "length buf = 33"
  shows "\<exists>v. ls_loop sys fd buf w = Some (0, v) \<and> holds fd [] v \<and> writes (concat (map (\<lambda>c. c @ [10]) cs)) w v"
  using assms(1,3)
proof (induction cs arbitrary: w buf)
  case Nil
  then obtain v where "sys_read sys fd buf (int 32) w = Some (0, buf, v)" "holds fd [] v" "writes [] w v"
    using read_end [of fd w 32 buf] assms(2) by auto
  then show ?case by (subst ls_loop.simps) simp
next
  case (Cons c cs)
  obtain b v where v: "sys_read sys fd buf (int 32) w = Some (int (length c), c @ b, v)" "length (c @ b) = 33"
    "0 < length c" "length c \<le> 32" "holds fd cs v" "writes [] w v"
    using read_next [OF Cons.prems(1), of buf] Cons.prems(2) assms(2) by auto
  let ?b = "c @ 10 # tl b"
  have b: "wri (c @ b) (int (length c)) 10 = Some ?b" "length ?b = 33" "take (Suc (length c)) ?b = c @ [10]"
    using v(2,4) by (cases b; simp add: wri_def wr_def)+
  obtain r u where u: "sys_write sys 1 ?b (int (Suc (length c))) v = Some (r, u)" "r \<noteq> - 1" "writes (c @ [10]) v u"
    using puts [OF holds_ready [OF v(5)], of "Suc (length c)" ?b] b by auto
  obtain x where x: "ls_loop sys fd ?b u = Some (0, x)" "holds fd [] x" "writes (concat (map (\<lambda>c. c @ [10]) cs)) u x"
    using Cons.IH [OF write_keeps [OF v(5) _ _ u(1)], of ?b] b(2) by auto
  have "ls_loop sys fd buf w = Some (0, x)"
    using v(1,3) b(1) u(1,2) x(1) by (subst ls_loop.simps) (auto simp: add.commute simp del: length_greater_0_conv)
  then show ?case using x(2) also_writes [OF also_writes [OF v(6) u(3)] x(3)] by auto
qed

end

end
