(* ===== verification/Grep.thy ===== *)
theory Grep
  imports Programs
begin

text \<open>
  The program \<^verbatim>\<open>grep\<close>. It reads a file into an array of 1025 bytes, searches the lines that are complete,
  and moves the rest of an incomplete line to the front before it reads on.
\<close>

section \<open>The program\<close>

text \<open>The end of the line that starts at \<^verbatim>\<open>line_end\<close>.\<close>

function find_eol :: "u8 list \<Rightarrow> nat \<Rightarrow> int \<Rightarrow> nat option" where
  "find_eol data line_end last_i =
     (if int line_end < last_i then (case rd data line_end of
          None \<Rightarrow> None
        | Some c \<Rightarrow> (if c \<noteq> 10 then find_eol data (Suc line_end) last_i else Some line_end))
      else Some line_end)"
  by pat_completeness auto
termination by (relation "measure (\<lambda>(data, line_end, last_i). nat (last_i - int line_end))") auto

declare find_eol.simps [simp del]

lemma find_eol_le: "find_eol data i last_i = Some e \<Longrightarrow> i \<le> e"
proof (induction data i last_i rule: find_eol.induct)
  case (1 data i last_i)
  then show ?case by (subst (asm) (2) find_eol.simps) (auto split: if_splits option.splits)
qed

definition print_match :: "'w sys \<Rightarrow> u8 list \<Rightarrow> u8 list \<Rightarrow> nat \<Rightarrow> 'w \<Rightarrow> 'w option" where
  "print_match sys fname data line_start w = do {
     w \<leftarrow> fdputs sys fname w;
     w \<leftarrow> fdputs sys (cstr '':'') w;
     w \<leftarrow> ece391_fdputs sys 1 data line_start w;
     fdputs sys (cline '''') w }"

function search_line :: "'w sys \<Rightarrow> u8 list \<Rightarrow> u8 list \<Rightarrow> nat \<Rightarrow> u8 list \<Rightarrow> nat \<Rightarrow> nat \<Rightarrow> nat \<Rightarrow> 'w \<Rightarrow> 'w option" where
  "search_line sys s fname s_len data line_start line_end check w =
     (if check < line_end then
        (case (do {
           c \<leftarrow> rd s 0;
           d \<leftarrow> rd data check;
           (if c = d then do { r \<leftarrow> ece391_strncmp data check s 0 s_len; Some (r = 0) } else Some False) }) of
           None \<Rightarrow> None
         | Some True \<Rightarrow> print_match sys fname data line_start w
         | Some False \<Rightarrow> search_line sys s fname s_len data line_start line_end (Suc check) w)
      else Some w)"
  by pat_completeness auto
termination by (relation "measure (\<lambda>(sys, s, fname, s_len, data, line_start, line_end, check, w). line_end - check)") auto

declare search_line.simps [simp del]

text \<open>The loop over the lines in the array; the result is the array, \<^verbatim>\<open>last\<close> and the state.\<close>

function scan_lines ::
  "'w sys \<Rightarrow> u8 list \<Rightarrow> u8 list \<Rightarrow> nat \<Rightarrow> int \<Rightarrow> u8 list \<Rightarrow> nat \<Rightarrow> int \<Rightarrow> 'w \<Rightarrow> (u8 list \<times> int \<times> 'w) option" where
  "scan_lines sys s fname s_len cnt data line_start last_i w =
     (case find_eol data line_start last_i of
        None \<Rightarrow> None
      | Some line_end \<Rightarrow> (case rd data line_end of
          None \<Rightarrow> None
        | Some c \<Rightarrow>
            (if c \<noteq> 10 \<and> cnt \<noteq> 0 \<and> line_start \<noteq> 0 then do {
               data \<leftarrow> wr data line_end 0;
               data \<leftarrow> ece391_strcpy data 0 line_start;
               Some (data, last_i - int line_start, w) }
             else (case wr data line_end 0 of
                 None \<Rightarrow> None
               | Some data \<Rightarrow> (case search_line sys s fname s_len data line_start line_end line_start w of
                   None \<Rightarrow> None
                 | Some w \<Rightarrow>
                     (if int (line_end + 1) \<ge> last_i then Some (data, 0, w)
                      else scan_lines sys s fname s_len cnt data (line_end + 1) last_i w))))))"
  by pat_completeness auto
termination
  by (relation "measure (\<lambda>(sys, s, fname, s_len, cnt, data, line_start, last_i, w). nat (last_i - int line_start))")
    (auto dest: find_eol_le)

declare scan_lines.simps [simp del]

partial_function (option) grep_loop ::
  "'w sys \<Rightarrow> u8 list \<Rightarrow> u8 list \<Rightarrow> nat \<Rightarrow> int \<Rightarrow> u8 list \<Rightarrow> int \<Rightarrow> 'w \<Rightarrow> (int \<times> 'w) option" where
  "grep_loop sys s fname s_len fd data last_i w =
     (if last_i < 0 then None
      else do {
        (cnt, b, w) \<leftarrow> sys_read sys fd (drop (nat last_i) data) (1024 - last_i) w;
        (if cnt = - 1 then leave sys (cline ''file read failed'') (- 1) w
         else do {
           (data, last_i, w) \<leftarrow> scan_lines sys s fname s_len cnt (take (nat last_i) data @ b) 0 (last_i + cnt) w;
           (if cnt = 0 then do {
              (r, w) \<leftarrow> sys_close sys fd w;
              (if r = - 1 then leave sys (cline ''file close failed'') (- 1) w else Some (0, w)) }
            else grep_loop sys s fname s_len fd data last_i w) }) })"

definition do_one_file :: "'w sys \<Rightarrow> u8 list \<Rightarrow> u8 list \<Rightarrow> u8 list \<Rightarrow> 'w \<Rightarrow> (int \<times> 'w) option" where
  "do_one_file sys data s fname w = do {
     s_len \<leftarrow> ece391_strlen s 0;
     (fd, w) \<leftarrow> sys_open sys fname w;
     (if fd = - 1 then leave sys (cline ''file open failed'') (- 1) w
      else grep_loop sys s fname s_len fd data 0 w) }"

text \<open>\<^term>\<open>junk w\<close> is what the array of \<^verbatim>\<open>do_one_file\<close> holds when it is entered.\<close>

partial_function (option) grep_files ::
  "'w sys \<Rightarrow> ('w \<Rightarrow> u8 list) \<Rightarrow> u8 list \<Rightarrow> int \<Rightarrow> u8 list \<Rightarrow> 'w \<Rightarrow> (int \<times> 'w) option" where
  "grep_files sys junk search fd buf w = do {
     (cnt, buf, w) \<leftarrow> sys_read sys fd buf 32 w;
     (if cnt = 0 then Some (0, w)
      else if cnt = - 1 then leave sys (cline ''directory entry read failed'') 3 w
      else do {
        c \<leftarrow> rd buf 0;
        (if c = chr CHR ''.'' then grep_files sys junk search fd buf w
         else do {
           buf \<leftarrow> wri buf cnt 0;
           (r, w) \<leftarrow> do_one_file sys (junk w) search buf w;
           (if r \<noteq> 0 then Some (3, w) else grep_files sys junk search fd buf w) }) }) }"

definition grep_main :: "'w sys \<Rightarrow> ('w \<Rightarrow> u8 list) \<Rightarrow> u8 list \<Rightarrow> u8 list \<Rightarrow> 'w \<Rightarrow> (int \<times> 'w) option" where
  "grep_main sys junk search buf w = do {
     (r, search, w) \<leftarrow> sys_getargs sys search 1024 w;
     (if r \<noteq> 0 then leave sys (cline ''could not read argument'') 3 w
      else do {
        (fd, w) \<leftarrow> sys_open sys (cstr ''.'') w;
        (if fd = - 1 then leave sys (cline ''directory open failed'') 2 w
         else grep_files sys junk search fd buf w) }) }"

section \<open>The specification\<close>

function lines_of :: "u8 list \<Rightarrow> u8 list list" where
  "lines_of [] = []"
| "lines_of (x # xs) = takeWhile (\<lambda>c. c \<noteq> 10) (x # xs) # lines_of (drop (Suc (length (takeWhile (\<lambda>c. c \<noteq> 10) (x # xs)))) (x # xs))"
  by pat_completeness auto
termination by (relation "measure length") auto

declare lines_of.simps [simp del]

lemma lines_of_Nil [simp]: "lines_of [] = []" by (simp add: lines_of.simps)

lemma lines_of_last: "10 \<notin> set xs \<Longrightarrow> xs \<noteq> [] \<Longrightarrow> lines_of xs = [xs]"
proof -
  assume h: "10 \<notin> set xs" "xs \<noteq> []"
  have "takeWhile (\<lambda>c. c \<noteq> 10) xs = xs" using h(1) by (auto simp: takeWhile_eq_all_conv)
  then show ?thesis using h(2) by (cases xs) (simp_all add: lines_of.simps(2))
qed

lemma lines_of_line: "10 \<notin> set l \<Longrightarrow> lines_of (l @ 10 # xs) = l # lines_of xs"
proof -
  assume "10 \<notin> set l"
  then have t: "takeWhile (\<lambda>c. c \<noteq> 10) (l @ 10 # xs) = l" by (subst takeWhile_append2) auto
  obtain y ys where y: "l @ 10 # xs = y # ys" by (cases l) auto
  show ?thesis using t unfolding y lines_of.simps(2) by (simp flip: y)
qed

definition contains :: "u8 list \<Rightarrow> u8 list \<Rightarrow> bool" where
  "contains pat l = list_ex (\<lambda>i. take (length pat) (drop i l) = pat) [0..<length l]"

definition match_text :: "u8 list \<Rightarrow> u8 list \<Rightarrow> u8 list \<Rightarrow> u8 list" where
  "match_text fname pat l = (if contains pat l then fname @ [chr CHR '':''] @ l @ [10] else [])"

definition matches_text :: "u8 list \<Rightarrow> u8 list \<Rightarrow> u8 list \<Rightarrow> u8 list" where
  "matches_text fname pat xs = concat (map (match_text fname pat) (lines_of xs))"

lemma contains_iff: "pat \<noteq> [] \<Longrightarrow> contains pat l \<longleftrightarrow> (\<exists>us vs. l = us @ pat @ vs)"
proof
  assume "contains pat l"
  then obtain i where "take (length pat) (drop i l) = pat" by (auto simp: contains_def list_ex_iff)
  then have "l = take i l @ pat @ drop (length pat) (drop i l)" by (metis append_take_drop_id)
  then show "\<exists>us vs. l = us @ pat @ vs" by blast
next
  assume p: "pat \<noteq> []" "\<exists>us vs. l = us @ pat @ vs"
  then obtain us vs where "l = us @ pat @ vs" by blast
  then show "contains pat l" using p(1) by (auto simp: contains_def list_ex_iff intro!: bexI [of _ "length us"])
qed


section \<open>The program meets it\<close>

lemma find_eol_spec:
  assumes "drop i data = l @ x # r" and "10 \<notin> set l" and "int (i + length l) \<le> n" and "int (i + length l) = n \<or> x = 10"
  shows "find_eol data i n = Some (i + length l)"
  using assms
proof (induction l arbitrary: i)
  case Nil
  then show ?case using rd_drop(1) [of i data x r] by (subst find_eol.simps) auto
next
  case (Cons y l)
  note d = rd_drop [of i data y "l @ x # r"]
  have "find_eol data (Suc i) n = Some (Suc i + length l)"
    by (rule Cons.IH) (use Cons.prems d(2) in auto)
  then show ?case using Cons.prems d(1) by (subst find_eol.simps) auto
qed

lemma drop_write:
  assumes "drop i data = l @ x # r"
  shows "wr data (i + length l) c = Some (data[i + length l := c])" and "drop i (data[i + length l := c]) = l @ c # r"
    and "rd data (i + length l) = Some x" and "i + length l < length data"
proof -
  have d: "drop (length l) (drop i data) = x # r" using assms by simp
  then have x: "drop (i + length l) data = x # r" by (simp add: add.commute)
  show "i + length l < length data" "rd data (i + length l) = Some x" using rd_drop [OF x] by simp_all
  then show "wr data (i + length l) c = Some (data[i + length l := c])" by (simp add: wr_def)
  have "drop i (data[i + length l := c]) = (drop i data)[length l := c]" by (simp add: drop_update_swap)
  then show "drop i (data[i + length l := c]) = l @ c # r" using assms by simp
qed

lemma string_at_here:
  assumes "drop i a = l @ 0 # r" and "0 \<notin> set l"
  shows "string_at a i (length l)"
proof -
  have len: "i + length l < length a" by (rule drop_write(4) [OF assms(1)])
  have "a ! (i + k) = (l @ 0 # r) ! k" if "k \<le> length l" for k
    using nth_drop [of i a k] that len by (simp add: assms(1))
  then show ?thesis using len assms(2) by (auto simp: string_at_def nth_append in_set_conv_nth)
qed

text \<open>A line matches from its position \<^term>\<open>k\<close> on.\<close>

definition matches_from :: "u8 list \<Rightarrow> u8 list \<Rightarrow> nat \<Rightarrow> bool" where
  "matches_from pat l k = list_ex (\<lambda>i. take (length pat) (drop i l) = pat) [k..<length l]"

lemma matches_from_step: "k < length l \<Longrightarrow> matches_from pat l k \<longleftrightarrow> take (length pat) (drop k l) = pat \<or> matches_from pat l (Suc k)"
  by (simp add: matches_from_def upt_conv_Cons del: upt_Suc)

lemma matches_from_0: "matches_from pat l 0 = contains pat l"
  by (simp add: matches_from_def contains_def)

lemma test_match:
  assumes "drop i data = l @ 0 # r" and "0 \<notin> set l" and "pat \<noteq> []" and "0 \<notin> set pat" and "k < length l"
  shows "(do {
       c \<leftarrow> rd (pat @ u) 0;
       d \<leftarrow> rd data (i + k);
       (if c = d then do { m \<leftarrow> ece391_strncmp data (i + k) (pat @ u) 0 (length pat); Some (m = 0) } else Some False) }) =
     Some (take (length pat) (drop k l) = pat)"
proof -
  have "drop k (drop i data) = drop k l @ 0 # r" using assms(1,5) by simp
  then have d: "drop (i + k) data = drop k l @ 0 # r" by (simp add: add.commute)
  obtain x xs where x: "drop k l = x # xs" using assms(5) by (cases "drop k l") auto
  obtain p ps where p: "pat = p # ps" using assms(3) by (cases pat) auto
  have "0 \<notin> set (drop k l)" using assms(2) by (meson in_set_dropD)
  then obtain m where "ece391_strncmp_loop data (i + k) (pat @ u) 0 (length pat) = Some m"
    "m = 0 \<longleftrightarrow> take (length pat) (drop k l) = pat"
    using strncmp_finds [OF d _ _ assms(4,3), of 0 "pat @ u" u] by auto
  moreover have "rd data (i + k) = Some x" using rd_drop(1) d x by simp
  ultimately show ?thesis using x p by (auto simp: ece391_strncmp_def rd_def)
qed

context text_output
begin

lemma print_match_writes:
  assumes "ready w" and "0 \<notin> set nm" and "length nm + length u < 2048"
    and "drop i data = l @ 0 # r" and "0 \<notin> set l" and "length data \<le> 2048"
  shows "\<exists>v. print_match sys (nm @ 0 # u) data i w = Some v \<and> ready v \<and> writes (nm @ [chr CHR '':''] @ l @ [10]) w v"
proof -
  obtain v1 where v1: "fdputs sys (nm @ 0 # u) w = Some v1" "ready v1" "writes nm w v1"
    using message_writes [OF assms(1-3)] by blast
  obtain v2 where v2: "fdputs sys (cstr '':'') v1 = Some v2" "ready v2" "writes [chr CHR '':''] v1 v2"
    using message_writes [OF v1(2), of "[chr CHR '':'']" "[]"] by (auto simp: cstr_def bytes_of_def)
  obtain v3 where v3: "ece391_fdputs sys 1 data i v2 = Some v3" "ready v3" "writes l v2 v3"
    using fdputs_writes [OF v2(2) string_at_here [OF assms(4,5)] assms(6)] assms(4) by auto
  obtain v4 where v4: "fdputs sys (cline '''') v3 = Some v4" "ready v4" "writes [10] v3 v4"
    using message_writes [OF v3(2), of "[10]" "[]"] by (auto simp: cline_def bytes_of_def)
  have "writes (nm @ [chr CHR '':''] @ l @ [10]) w v4"
    using also_writes [OF v1(3) also_writes [OF v2(3) also_writes [OF v3(3) v4(3)]]] .
  then show ?thesis using v1(1) v2(1) v3(1) v4(1,2) by (auto simp: print_match_def)
qed

lemma search_line_writes:
  assumes "ready w" and "0 \<notin> set nm" and "length nm + length u < 2048"
    and "drop i data = l @ 0 # r" and "0 \<notin> set l" and "length data \<le> 2048" and "pat \<noteq> []" and "0 \<notin> set pat" and "k \<le> length l"
  shows "\<exists>v. search_line sys (pat @ t) (nm @ 0 # u) (length pat) data i (i + length l) (i + k) w = Some v \<and> ready v \<and>
    writes (if matches_from pat l k then nm @ [chr CHR '':''] @ l @ [10] else []) w v"
  using assms(9)
proof (induction "length l - k" arbitrary: k)
  case 0
  then show ?case using assms(1) no_text by (subst search_line.simps) (simp add: matches_from_def)
next
  case (Suc d)
  then have k: "k < length l" by simp
  show ?case
  proof (cases "take (length pat) (drop k l) = pat")
    case True
    then show ?thesis
      using print_match_writes [OF assms(1-6)] k test_match [OF assms(4,5,7,8) k, of t]
      by (subst search_line.simps) (simp add: matches_from_step)
  next
    case False
    have "search_line sys (pat @ t) (nm @ 0 # u) (length pat) data i (i + length l) (i + k) w =
      search_line sys (pat @ t) (nm @ 0 # u) (length pat) data i (i + length l) (i + Suc k) w"
      using False k test_match [OF assms(4,5,7,8) k, of t] by (subst search_line.simps) simp
    then show ?thesis using Suc.hyps(1) [of "Suc k"] Suc.hyps(2) k False by (simp add: matches_from_step)
  qed
qed

end

lemma matches_none: "matches_text nm pat [] = []"
  by (simp add: matches_text_def)

lemma matches_last: "10 \<notin> set xs \<Longrightarrow> matches_text nm pat xs = match_text nm pat xs"
  by (cases "xs = []") (simp_all add: matches_text_def lines_of_last match_text_def contains_def)

lemma matches_line: "10 \<notin> set l \<Longrightarrow> matches_text nm pat (l @ 10 # xs) = match_text nm pat l @ matches_text nm pat xs"
  by (simp add: matches_text_def lines_of_line)

text \<open>What is left in the array when the loop over the lines ends: an incomplete line, at the front.\<close>

definition left_over :: "u8 list \<Rightarrow> int \<Rightarrow> u8 list \<Rightarrow> bool" where
  "left_over data n rest = (n = int (length rest) \<and> take (length rest) data = rest \<and> 10 \<notin> set rest \<and> 0 \<notin> set rest)"

lemma keep_rest:
  assumes "drop i data = xs @ x # r" and "0 \<notin> set xs" and "10 \<notin> set xs"
  shows "\<exists>b. ece391_strcpy (data[i + length xs := 0]) 0 i = Some b \<and> length b = length data \<and> left_over b (int (length xs)) xs"
proof -
  note w = drop_write(1,2) [OF assms(1), of 0] drop_write(3,4) [OF assms(1)]
  have "ece391_strcpy (data[i + length xs := 0]) 0 i =
      Some (take (Suc (length xs)) (xs @ 0 # r) @ drop (Suc (length xs)) (data[i + length xs := 0]))"
    using ece391_strcpy_down [OF string_at_here [OF w(2) assms(2)], of 0] w(2) by simp
  then show ?thesis using assms(2,3) w(4) by (auto simp: left_over_def)
qed

context text_output
begin

lemma scan_lines_writes:
  assumes "ready w" and "0 \<notin> set nm" and "length nm + length u < 2048" and "pat \<noteq> []" and "0 \<notin> set pat"
    and "drop i data = xs @ x # r" and "0 \<notin> set xs" and "length data \<le> 2048"
  shows "\<exists>b n rest out v. scan_lines sys (pat @ t) (nm @ 0 # u) (length pat) cnt data i (int (i + length xs)) w = Some (b, n, v) \<and>
    length b = length data \<and> left_over b n rest \<and> (cnt = 0 \<longrightarrow> rest = []) \<and> length rest \<le> length xs \<and>
    matches_text nm pat xs = out @ matches_text nm pat rest \<and> ready v \<and> writes out w v"
  using assms(1,6-8)
proof (induction "length xs" arbitrary: xs i data w rule: less_induct)
  case less
  let ?search = "search_line sys (pat @ t) (nm @ 0 # u) (length pat)"
  let ?scan = "scan_lines sys (pat @ t) (nm @ 0 # u) (length pat) cnt"
  have search: "\<exists>v. ?search (data[i + length l := 0]) i (i + length l) i w = Some v \<and> ready v \<and> writes (match_text nm pat l) w v"
    if "drop i data = l @ y # q" "0 \<notin> set l" for l y q
    using search_line_writes [OF less.prems(1) assms(2,3) drop_write(2) [OF that(1), of 0] that(2) _ assms(4,5), of 0 t]
      less.prems(4) by (simp add: matches_from_0 match_text_def)
  have none: "left_over b 0 []" for b by (simp add: left_over_def)
  have result: ?case
    if "?scan data i (int (i + length xs)) w = Some (b, n, v)" "length b = length data" "left_over b n rest"
      "cnt = 0 \<longrightarrow> rest = []" "length rest \<le> length xs" "matches_text nm pat xs = out @ matches_text nm pat rest" "ready v" "writes out w v"
    for b n rest out v using that by blast
  show ?case
  proof (cases "10 \<in> set xs")
    case True
    then obtain l ys where xs: "xs = l @ 10 # ys" "10 \<notin> set l" by (meson split_list_first)
    have d: "drop i data = l @ 10 # ys @ x # r" and z: "0 \<notin> set l" "0 \<notin> set ys"
      using less.prems(2,3) by (auto simp: xs(1))
    note w = drop_write(1,2) [OF d, of 0] drop_write(3,4) [OF d]
    obtain v where v: "?search (data[i + length l := 0]) i (i + length l) i w = Some v" "ready v" "writes (match_text nm pat l) w v"
      using search [OF d z(1)] by blast
    have e: "find_eol data i (int (i + length xs)) = Some (i + length l)"
      by (rule find_eol_spec [OF d xs(2)]) (simp_all add: xs(1))
    let ?b = "data[i + length l := 0]" and ?j = "Suc (i + length l)"
    show ?thesis
    proof (cases "ys = []")
      case True
      have "?scan data i (int (i + length xs)) w = Some (?b, 0, v)"
        using e w(1,3) v(1) True by (subst scan_lines.simps) (simp add: xs(1))
      then show ?thesis
        by (rule result [OF _ _ none _ _ _ v(2,3)]) (use True in \<open>simp_all add: xs matches_line matches_none\<close>)
    next
      case False
      have j: "int (i + length xs) = int (?j + length ys)" by (simp add: xs(1))
      have step: "?scan data i (int (i + length xs)) w = ?scan ?b ?j (int (?j + length ys)) v"
        using e w(1,3) v(1) False unfolding j by (subst scan_lines.simps) simp
      have "drop ?j ?b = ys @ x # r"
      proof -
        have "drop ?j ?b = drop (Suc (length l)) (drop i ?b)" by (simp add: add.commute)
        then show ?thesis by (simp only: w(2)) simp
      qed
      then have "\<exists>b n rest out v'. ?scan ?b ?j (int (?j + length ys)) v = Some (b, n, v') \<and> length b = length ?b \<and>
        left_over b n rest \<and> (cnt = 0 \<longrightarrow> rest = []) \<and> length rest \<le> length ys \<and> matches_text nm pat ys = out @ matches_text nm pat rest \<and>
        ready v' \<and> writes out v v'"
        using v(2) z(2) less.prems(4) by (intro less.hyps) (simp_all add: xs(1))
      then obtain b n rest out v' where s: "?scan ?b ?j (int (?j + length ys)) v = Some (b, n, v')" "length b = length ?b"
        "left_over b n rest" "cnt = 0 \<longrightarrow> rest = []" "length rest \<le> length ys" "matches_text nm pat ys = out @ matches_text nm pat rest"
        "ready v'" "writes out v v'"
        by blast
      show ?thesis
        by (rule result [OF trans [OF step s(1)] _ s(3,4) _ _ s(7) also_writes [OF v(3) s(8)]]) (use s(2,5,6) in \<open>simp_all add: matches_line xs\<close>)
    qed
  next
    case False
    note w = drop_write(1,2) [OF less.prems(2), of 0] drop_write(3,4) [OF less.prems(2)]
    have e: "find_eol data i (int (i + length xs)) = Some (i + length xs)"
      by (rule find_eol_spec [OF less.prems(2) False]) simp_all
    show ?thesis
    proof (cases "x \<noteq> 10 \<and> cnt \<noteq> 0 \<and> i \<noteq> 0")
      case True
      obtain b where b: "ece391_strcpy (data[i + length xs := 0]) 0 i = Some b" "length b = length data" "left_over b (int (length xs)) xs"
        using keep_rest [OF less.prems(2,3) False] by blast
      have "?scan data i (int (i + length xs)) w = Some (b, int (length xs), w)"
        using e w(1,3) b(1) True by (subst scan_lines.simps) simp
      then show ?thesis
        by (rule result [OF _ b(2,3) _ _ _ less.prems(1) no_text [OF less.prems(1)]]) (use True in simp_all)
    next
      case stop: False
      obtain v where v: "?search (data[i + length xs := 0]) i (i + length xs) i w = Some v" "ready v" "writes (match_text nm pat xs) w v"
        using search [OF less.prems(2,3)] by blast
      have "?scan data i (int (i + length xs)) w = Some (data[i + length xs := 0], 0, v)"
        using e w(1,3) v(1) stop by (subst scan_lines.simps) auto
      then show ?thesis
        by (rule result [OF _ _ none _ _ _ v(2,3)]) (use False in \<open>simp_all add: matches_last matches_none\<close>)
    qed
  qed
qed

end

text \<open>Output on the way keeps the chunks that are still to come.\<close>

sublocale chunk_source \<subseteq> holding: text_output sys "holds fd cs" writes for fd cs
proof
  fix w xs ys v u n and buf :: "u8 list"
  show "holds fd cs w \<Longrightarrow> writes [] w w" using holds_ready no_text by blast
  show "writes xs w v \<Longrightarrow> writes ys v u \<Longrightarrow> writes (xs @ ys) w u" by (rule also_writes)
  show "holds fd cs w \<Longrightarrow> n \<le> length buf \<Longrightarrow> length buf \<le> 2048 \<Longrightarrow>
      \<exists>r v. sys_write sys 1 buf (int n) w = Some (r, v) \<and> r \<noteq> - 1 \<and> holds fd cs v \<and> writes (take n buf) w v"
    using puts [OF holds_ready] write_keeps by blast
qed

context chunk_source
begin

text \<open>A read that finds nothing searches what was left over and closes the file.\<close>

lemma grep_loop_ends:
  assumes "holds fd [] w" and "size = 1024" and "length data = 1025" and "left_over data n rest" and "length rest \<le> 1024"
    and "0 \<notin> set nm" and "length nm + length u < 2048" and "pat \<noteq> []" and "0 \<notin> set pat"
  shows "\<exists>v. holds fd [] v \<and> writes (matches_text nm pat rest) w v \<and>
    grep_loop sys (pat @ t) (nm @ 0 # u) (length pat) fd data n w = do {
      (r, v) \<leftarrow> sys_close sys fd v;
      (if r = - 1 then leave sys (cline ''file close failed'') (- 1) v else Some (0, v)) }"
proof -
  have n: "n = int (length rest)" "take (length rest) data = rest" "0 \<notin> set rest" using assms(4) by (simp_all add: left_over_def)
  have len: "length rest < length data" using assms(3,5) by simp
  then obtain x r where x: "drop (length rest) data = x # r" by (cases "drop (length rest) data") auto
  have data: "drop 0 data = rest @ x # r" using append_take_drop_id [of "length rest" data] by (simp add: n(2) x)
  obtain v where v: "sys_read sys fd (x # r) (int (1024 - length rest)) w = Some (0, x # r, v)" "holds fd [] v" "writes [] w v"
    using read_end [OF assms(1), of "1024 - length rest" "x # r"] assms(2,3,5) unfolding x [symmetric] by (auto simp: le_diff_conv)
  obtain b out v' where b: "scan_lines sys (pat @ t) (nm @ 0 # u) (length pat) 0 data 0 (int (length rest)) v = Some (b, v')"
    "matches_text nm pat rest = out" "holds fd [] (snd v')" "writes out v (snd v')"
    using holding.scan_lines_writes [OF v(2) assms(6-9) data n(3), of t 0] assms(3) by (auto simp: matches_none)
  have "int (1024 - length rest) = 1024 - int (length rest)" using assms(5) by simp
  then have "grep_loop sys (pat @ t) (nm @ 0 # u) (length pat) fd data n w = do {
      (r, v) \<leftarrow> sys_close sys fd (snd v');
      (if r = - 1 then leave sys (cline ''file close failed'') (- 1) v else Some (0, v)) }"
    using v(1) b(1) data by (subst grep_loop.simps) (auto simp: n(1,2) x split: prod.splits)
  then show ?thesis using b(2,3) also_writes [OF v(3) b(4)] by auto
qed

text \<open>A file of at most one chunk, without zero bytes.\<close>

lemma grep_loop_writes:
  assumes "holds fd (if c = [] then [] else [c]) w" and "size = 1024" and "length data = 1025" and "0 \<notin> set c"
    and "0 \<notin> set nm" and "length nm + length u < 2048" and "pat \<noteq> []" and "0 \<notin> set pat"
  shows "\<exists>v. holds fd [] v \<and> writes (matches_text nm pat c) w v \<and>
    grep_loop sys (pat @ t) (nm @ 0 # u) (length pat) fd data 0 w = do {
      (r, v) \<leftarrow> sys_close sys fd v;
      (if r = - 1 then leave sys (cline ''file close failed'') (- 1) v else Some (0, v)) }"
proof (cases "c = []")
  case True
  have "left_over data 0 []" by (simp add: left_over_def)
  then show ?thesis using grep_loop_ends [OF _ assms(2,3) _ _ assms(5-8)] assms(1) True by simp
next
  case False
  then have "holds fd [c] w" using assms(1) by simp
  then obtain b v where v: "sys_read sys fd data 1024 w = Some (int (length c), c @ b, v)" "length (c @ b) = 1025"
    "length c \<le> 1024" "holds fd [] v" "writes [] w v"
    using read_next [of fd c "[]" w data] assms(2,3) by auto
  then obtain x r where x: "b = x # r" by (cases b) auto
  obtain d n rest out v' where d: "scan_lines sys (pat @ t) (nm @ 0 # u) (length pat) (int (length c)) (c @ b) 0 (int (length c)) v = Some (d, n, v')"
    "length d = 1025" "left_over d n rest" "length rest \<le> length c" "matches_text nm pat c = out @ matches_text nm pat rest" "holds fd [] v'" "writes out v v'"
    using holding.scan_lines_writes [OF v(4) assms(5-8) _ assms(4), of 0 "c @ b" x r t "int (length c)"] v(2) x by auto
  obtain u' where u': "holds fd [] u'" "writes (matches_text nm pat rest) v' u'"
    "grep_loop sys (pat @ t) (nm @ 0 # u) (length pat) fd d n v' = do {
      (r, v) \<leftarrow> sys_close sys fd u';
      (if r = - 1 then leave sys (cline ''file close failed'') (- 1) v else Some (0, v)) }"
    using grep_loop_ends [OF d(6) assms(2) d(2,3) _ assms(5-8), of t] d(4) v(3) by auto
  have "grep_loop sys (pat @ t) (nm @ 0 # u) (length pat) fd data 0 w = grep_loop sys (pat @ t) (nm @ 0 # u) (length pat) fd d n v'"
    using v(1) d(1) False by (subst grep_loop.simps) simp
  then show ?thesis using u' also_writes [OF v(5) also_writes [OF d(7) u'(2)]] d(5) by auto
qed

end

end
