(* ===== verification/Syserr.thy ===== *)
theory Syserr
  imports Programs
begin

text \<open>The program \<^verbatim>\<open>syserr\<close>: five tests of the errors that the system calls report.\<close>

definition NEG_FD :: int where "NEG_FD = - 1073741823"
definition BIG_FD :: int where "BIG_FD = 1073741823"

definition err_read_neg_fd :: "'w sys \<Rightarrow> u8 list \<Rightarrow> 'w \<Rightarrow> (int \<times> 'w) option" where
  "err_read_neg_fd sys buf w = do {
     (r, buf, w) \<leftarrow> sys_read sys NEG_FD buf 31 w;
     (if r = - 1 then leave sys (cline ''err_read_neg_fd: PASS'') 0 w
      else leave sys (cline ''err_read_neg_fd: FAIL'') 2 w) }"

definition err_write_big_fd :: "'w sys \<Rightarrow> u8 list \<Rightarrow> 'w \<Rightarrow> (int \<times> 'w) option" where
  "err_write_big_fd sys buf w = do {
     (r, w) \<leftarrow> sys_write sys BIG_FD buf 31 w;
     (if r = - 1 then leave sys (cline ''err_write_big_fd: PASS'') 0 w
      else leave sys (cline ''err_write_big_fd: FAIL'') 2 w) }"

text \<open>The loop counts the calls that fail.\<close>

definition open_again :: "'w sys \<Rightarrow> nat \<times> 'w \<Rightarrow> (nat \<times> 'w) option" where
  "open_again sys s = (case s of (cnt, w) \<Rightarrow> do {
     (r, w) \<leftarrow> sys_open sys (cstr ''.'') w;
     Some (if r = - 1 then cnt + 1 else cnt, w) })"

definition err_open_lots :: "'w sys \<Rightarrow> 'w \<Rightarrow> (int \<times> 'w) option" where
  "err_open_lots sys w = do {
     (cnt, w) \<leftarrow> for_range 0 7 (\<lambda>i. open_again sys) (0, w);
     (if cnt > 1 then leave sys (cline ''err_open_lots: FAIL'') 2 w
      else leave sys (cline ''err_open_lots: PASS'') 0 w) }"

text \<open>One attempt to open a file that does not exist, named in quotes in the message.\<close>

definition attempt_text :: "string \<Rightarrow> string \<Rightarrow> string" where
  "attempt_text name verdict = ''err_open: attempt '' @ [CHR 0x27] @ name @ [CHR 0x27] @ '' '' @ verdict"

definition attempt :: "'w sys \<Rightarrow> string \<Rightarrow> 'w \<Rightarrow> (bool \<times> 'w) option" where
  "attempt sys name w = do {
     (r, w) \<leftarrow> sys_open sys (cstr name) w;
     (if r = - 1 then do { w \<leftarrow> fdputs sys (cline (attempt_text name ''PASS'')) w; Some (True, w) }
      else do { w \<leftarrow> fdputs sys (cline (attempt_text name ''FAIL'')) w; Some (False, w) }) }"

definition err_open :: "'w sys \<Rightarrow> 'w \<Rightarrow> (int \<times> 'w) option" where
  "err_open sys w = do {
     (ok, w) \<leftarrow> attempt sys ''helloo'' w;
     (if \<not> ok then Some (2, w)
      else do {
        (ok, w) \<leftarrow> attempt sys ''shel'' w;
        (if \<not> ok then Some (2, w)
         else do {
           (ok, w) \<leftarrow> attempt sys [] w;
           Some (if \<not> ok then 2 else 0, w) }) }) }"

definition err_close :: "'w sys \<Rightarrow> 'w \<Rightarrow> (int \<times> 'w) option" where
  "err_close sys w = do {
     (r, w) \<leftarrow> sys_close sys 7 w;
     (if r = - 1 then leave sys (cline ''err_close: PASS'') 0 w
      else leave sys (cline ''err_close: FAIL'') 2 w) }"

text \<open>\<^verbatim>\<open>main\<close> leaves its choice in \<^verbatim>\<open>select\<close>; \<^term>\<open>junk\<close> is the array of 32 bytes of the first two tests.\<close>

definition syserr_main :: "'w sys \<Rightarrow> u8 list \<Rightarrow> u8 list \<Rightarrow> 'w \<Rightarrow> (int \<times> 'w) option" where
  "syserr_main sys junk buf w = do {
     w \<leftarrow> fdputs sys (cstr ''Choose from tests 1-5'') w;
     (cnt, buf, w) \<leftarrow> sys_read sys 0 buf 127 w;
     (if cnt = - 1 then leave sys (cline (''Can'' @ [CHR 0x27] @ ''t read test #'')) 2 w
      else do {
        c \<leftarrow> rd buf 0;
        let select = uint c - uint (chr CHR ''0'' :: u8);
        (if select = 1 then err_read_neg_fd sys junk w
         else if select = 2 then err_write_big_fd sys junk w
         else if select = 3 then err_open_lots sys w
         else if select = 4 then err_open sys w
         else if select = 5 then err_close sys w
         else leave sys (cstr ''Invalid test number. Choose from tests 1-5'') 0 w) }) }"

section \<open>The verdicts\<close>

text \<open>What a test prints and returns, for what the call it makes returns. The \<^term>\<open>ready\<close> state after the call
  is all that the message needs.\<close>

context text_output
begin

lemma leave_writes:
  assumes "ready w" and "0 \<notin> set xs" and "length xs < 2047"
  shows "\<exists>v. leave sys (xs @ [0]) r w = Some (r, v) \<and> ready v \<and> writes xs w v"
  using message_writes [OF assms(1,2), of "[]"] assms(3) by (auto simp: leave_def)

lemma attempt_passes:
  assumes "sys_open sys (cstr name) w = Some (- 1, v)" and "ready v" and "0 \<notin> set (bytes_of name)" and "length name < 100"
  shows "\<exists>u. attempt sys name w = Some (True, u) \<and> ready u \<and> writes (bytes_of (attempt_text name ''PASS'') @ [10]) v u"
proof -
  let ?xs = "bytes_of (attempt_text name ''PASS'') @ [10]"
  have nz: "0 \<notin> set ?xs" using assms(3) by (simp add: attempt_text_def bytes_of_def)
  have "length ?xs + length ([] :: u8 list) < 2048" using assms(4) by (simp add: attempt_text_def bytes_of_def)
  from message_writes [OF assms(2) nz this] show ?thesis using assms(1) by (auto simp: attempt_def cline_def)
qed

end

end
