(* ===== verification/UserRun.thy ===== *)
theory UserRun
  imports Grep Syserr Syscalls
begin

text \<open>
  The user programs on the kernel: the system calls of a program are those of \<^verbatim>\<open>sys_calls_handlers.c\<close>,
  its buffer lies at an address of its own, and the locales of \<^verbatim>\<open>Programs\<close> are interpreted on the
  terminal, the files and the directory of the kernel's model.
\<close>

unbundle bit_operations_syntax

section \<open>The kernel's calls\<close>

text \<open>
  The buffer of the program is at address \<^term>\<open>a\<close>: it is in memory when the call is made and is read
  back when the call returns. \<^term>\<open>env\<close> gives the interrupts that arrive while a call that is made in a
  state waits, and \<^term>\<open>exec\<close> what \<^verbatim>\<open>execute\<close> and the program it starts do.
\<close>

definition call_read ::
  "('a kbd_scheme \<Rightarrow> ('a kbd_scheme \<Rightarrow> 'a kbd_scheme) list \<times> ('a kbd_scheme \<Rightarrow> 'a kbd_scheme option) list) \<Rightarrow>
   u32 \<Rightarrow> int \<Rightarrow> u8 list \<Rightarrow> int \<Rightarrow> 'a kbd_scheme \<Rightarrow> (int \<times> u8 list \<times> 'a kbd_scheme) option" where
  "call_read env a fd buf n s = do {
     s \<leftarrow> user_stores a buf s;
     (r, s) \<leftarrow> do_read (fst (env s)) (snd (env s)) fd a n s;
     buf \<leftarrow> user_loads a (length buf) s;
     Some (r, buf, s) }"

definition call_write :: "device \<Rightarrow> u32 \<Rightarrow> int \<Rightarrow> u8 list \<Rightarrow> int \<Rightarrow> 'a kbd_scheme \<Rightarrow> (int \<times> 'a kbd_scheme) option" where
  "call_write dev a fd buf n s = do { s \<leftarrow> user_stores a buf s; do_write dev fd a n s }"

definition call_getargs :: "u32 \<Rightarrow> u8 list \<Rightarrow> int \<Rightarrow> 'a kbd_scheme \<Rightarrow> (int \<times> u8 list \<times> 'a kbd_scheme) option" where
  "call_getargs a buf n s = do {
     s \<leftarrow> user_stores a buf s;
     (r, s) \<leftarrow> do_getargs a n s;
     buf \<leftarrow> user_loads a (length buf) s;
     Some (r, buf, s) }"

definition kernel_sys where
  "kernel_sys dev env exec a = \<lparr>sys_execute = exec, sys_read = call_read env a, sys_write = call_write dev a,
     sys_open = do_open dev, sys_close = do_close dev, sys_getargs = call_getargs a\<rparr>"

lemma kernel_sys_simps [simp]:
  "sys_read (kernel_sys dev env exec a) = call_read env a" "sys_write (kernel_sys dev env exec a) = call_write dev a"
  "sys_open (kernel_sys dev env exec a) = do_open dev" "sys_close (kernel_sys dev env exec a) = do_close dev"
  "sys_getargs (kernel_sys dev env exec a) = call_getargs a"
  by (simp_all add: kernel_sys_def)

section \<open>The program's buffer\<close>

lemma stable_area_less: "stable_area a p n s \<Longrightarrow> m \<le> n \<Longrightarrow> stable_area a p m s"
  unfolding stable_area_def by (meson le_trans less_le_trans)

lemma stable_area_walk:
  "stable_area a p n s \<Longrightarrow> i < n \<Longrightarrow> translate (mem s) (cr3 s) False (a + of_nat i) = Some (p + of_nat i)"
  unfolding stable_area_def by blast

text \<open>The area is as stable after its bytes have changed.\<close>

lemma stable_area_same:
  assumes "stable_area a p n s" and "same_outside p n (mem s) (mem u)" and "cr3 u = cr3 s"
  shows "stable_area a p n u"
  using assms unfolding stable_area_def same_outside_def by metis

lemma stable_user_area:
  assumes "stable_area a p n s" and "0 < m" and "m \<le> n"
  shows "user_area a m s = Some p"
  using stable_area_walk [OF assms(1)] stable_area_walk [OF assms(1), of 0] assms(2,3)
  by (simp add: user_area_def list_all_iff)

lemma user_loads_from:
  assumes "stable_area a p n s" and "i + k \<le> n"
  shows "user_loads (a + of_nat i) k s = Some (map (\<lambda>j. mem s (p + of_nat j)) [i..<i + k])"
  using assms(2)
proof (induction k arbitrary: i)
  case 0
  then show ?case by simp
next
  case (Suc k)
  have "user_load (a + of_nat i) s = Some (mem s (p + of_nat i))"
    using stable_area_walk [OF assms(1), of i] Suc.prems by (simp add: user_load_def)
  moreover have "a + of_nat i + 1 = a + of_nat (Suc i)" by simp
  moreover have "[i..<i + Suc k] = i # [Suc i..<Suc i + k]" by (simp add: upt_conv_Cons del: upt_Suc)
  moreover have "user_loads (a + of_nat (Suc i)) k s = Some (map (\<lambda>j. mem s (p + of_nat j)) [Suc i..<Suc i + k])"
    by (rule Suc.IH) (use Suc.prems in simp)
  ultimately show ?case by (simp add: add.assoc del: upt_Suc of_nat_Suc)
qed

lemma user_loads_area:
  "stable_area a p n s \<Longrightarrow> k \<le> n \<Longrightarrow> user_loads a k s = Some (map (\<lambda>j. mem s (p + of_nat j)) [0..<k])"
  using user_loads_from [of a p n s 0 k] by simp

lemma copied_outside: "k \<le> n \<Longrightarrow> same_outside p n m (copied p f k m)"
  by (simp add: same_outside_def copied_def)

lemma copied_bytes: "n \<le> 2 ^ 32 \<Longrightarrow> k \<le> n \<Longrightarrow> map (\<lambda>j. copied p f n m (p + of_nat j)) [0..<k] = map f [0..<k]"
  using copied_at [of n _ p f m] by simp

lemma map_nth_take: "k \<le> length xs \<Longrightarrow> map (\<lambda>j. xs ! j) [0..<k] = take k xs"
  by (rule nth_equalityI) simp_all

section \<open>The terminal as an output\<close>

text \<open>A task with its buffer of 2048 bytes at \<^term>\<open>a\<close>, at physical address \<^term>\<open>p\<close>, and its own
  terminal open as descriptor 1.\<close>

definition user_ready :: "u32 \<Rightarrow> u32 \<Rightarrow> 'a kbd_scheme \<Rightarrow> bool" where
  "user_ready a p s = (get_cur_task s \<noteq> 0 \<and> is_user_ptr a s = Some (- 1) \<and> a \<noteq> 0 \<and> stable_area a p 2048 s \<and>
     length (cur_files s) = 8 \<and> in_use (cur_files s ! 1) \<and> f_fops (cur_files s ! 1) = Some TermFops \<and>
     (\<exists>t. term_at (cur_ptree s) s = Some t \<and> visible (cur_ptree s) (current_terminal_index s) t s) \<and>
     (\<exists>t. term_at (current_terminal_index s) s = Some t))"

text \<open>\<^term>\<open>xs\<close> has been written to the terminal of the task; but for that terminal and the buffer, the
  terminals and the memory are as they were.\<close>

definition console_writes :: "u32 \<Rightarrow> u8 list \<Rightarrow> 'a kbd_scheme \<Rightarrow> 'a kbd_scheme \<Rightarrow> bool" where
  "console_writes p xs s u = (same_outside p 2048 (mem s) (mem u) \<and> file_sys u = file_sys s \<and> cr3 u = cr3 s \<and>
     cur_ptree u = cur_ptree s \<and> current_terminal_index u = current_terminal_index s \<and>
     (\<forall>j. j \<noteq> cur_ptree s \<longrightarrow> term_at j u = term_at j s) \<and>
     (\<exists>t t'. term_at (cur_ptree s) s = Some t \<and> term_at (cur_ptree s) u = Some t' \<and> same_input t t' \<and>
        shown_at (cur_ptree s) (current_terminal_index s) t' u =
          fold type_char (wrap_text (chars_printed t) xs) (shown_at (cur_ptree s) (current_terminal_index s) t s) \<and>
        chars_printed t' = foldl next_count (chars_printed t) xs))"

lemma wrap_text_append: "wrap_text n (xs @ ys) = wrap_text n xs @ wrap_text (foldl next_count n xs) ys"
  by (induction xs arbitrary: n) simp_all

lemma console_writes_nil:
  assumes "user_ready a p s"
  shows "console_writes p [] s s"
  using assms by (auto simp: user_ready_def console_writes_def)

lemma console_writes_append:
  assumes "console_writes p xs s v" and "console_writes p ys v u"
  shows "console_writes p (xs @ ys) s u"
proof -
  let ?e = "cur_ptree s" and ?d = "current_terminal_index s"
  obtain t t' where 1: "term_at ?e s = Some t" "term_at ?e v = Some t'" "same_input t t'"
    "shown_at ?e ?d t' v = fold type_char (wrap_text (chars_printed t) xs) (shown_at ?e ?d t s)"
    "chars_printed t' = foldl next_count (chars_printed t) xs"
    and e: "cur_ptree v = ?e" "current_terminal_index v = ?d" "same_outside p 2048 (mem s) (mem v)"
    "\<forall>j. j \<noteq> ?e \<longrightarrow> term_at j v = term_at j s" "file_sys v = file_sys s" "cr3 v = cr3 s"
    using assms(1) unfolding console_writes_def by blast
  obtain t'' where 2: "term_at ?e u = Some t''" "same_input t' t''"
    "shown_at ?e ?d t'' u = fold type_char (wrap_text (chars_printed t') ys) (shown_at ?e ?d t' v)"
    "chars_printed t'' = foldl next_count (chars_printed t') ys"
    and f: "cur_ptree u = ?e" "current_terminal_index u = ?d" "same_outside p 2048 (mem v) (mem u)"
    "\<forall>j. j \<noteq> ?e \<longrightarrow> term_at j u = term_at j v" "file_sys u = file_sys v" "cr3 u = cr3 v"
    using assms(2) 1(2) unfolding console_writes_def e(1,2) by auto
  have "shown_at ?e ?d t'' u = fold type_char (wrap_text (chars_printed t) (xs @ ys)) (shown_at ?e ?d t s)"
    using 1(4,5) 2(3) by (simp add: wrap_text_append)
  moreover have "chars_printed t'' = foldl next_count (chars_printed t) (xs @ ys)" using 1(5) 2(4) by simp
  ultimately show ?thesis
    unfolding console_writes_def
    using 1(1) 2(1) e f same_outside_trans [OF e(3) f(3)] same_input_trans [OF 1(3) 2(2)] by auto
qed

text \<open>The parts of the state that a program's output does not change.\<close>

definition same_task :: "'a kbd_scheme \<Rightarrow> 'a kbd_scheme \<Rightarrow> bool" where
  "same_task s u = (cur_task u = cur_task s \<and> task_store u = task_store s \<and> cr3 u = cr3 s \<and> file_sys u = file_sys s)"

lemma same_task_simps:
  assumes "same_task s u"
  shows "get_cur_task u = get_cur_task s" "cur_files u = cur_files s" "is_user_ptr a u = is_user_ptr a s" "file_sys u = file_sys s"
    "cr3 u = cr3 s" "task_at (get_cur_task u) u = task_at (get_cur_task s) s"
  using assms by (simp_all add: same_task_def get_cur_task_def cur_files_def is_user_ptr_def task_at_def)

lemma user_ready_same:
  assumes "user_ready a p s" and "same_task s u" and "same_outside p 2048 (mem s) (mem u)"
    and "term_at (cur_ptree u) u = Some t" and "visible (cur_ptree u) (current_terminal_index u) t u"
    and "term_at (current_terminal_index u) u = Some td"
  shows "user_ready a p u"
  using assms stable_area_same [of a p 2048 s u] same_task_simps [OF assms(2)] unfolding user_ready_def by auto

lemma user_ready_mem:
  assumes "user_ready a p s" and "same_outside p 2048 (mem s) m"
  shows "user_ready a p (s\<lparr>mem := m\<rparr>)"
proof -
  obtain t td where t: "term_at (cur_ptree s) s = Some t" "visible (cur_ptree s) (current_terminal_index s) t s"
    "term_at (current_terminal_index s) s = Some td" using assms(1) unfolding user_ready_def by blast
  show ?thesis
    by (rule user_ready_same [OF assms(1), of _ t td]) (use t assms(2) in \<open>simp_all add: same_task_def term_at_def visible_def\<close>)
qed

lemma console_writes_mem:
  assumes "user_ready a p s" and "same_outside p 2048 (mem s) m"
  shows "console_writes p [] s (s\<lparr>mem := m\<rparr>)"
  using assms by (auto simp: user_ready_def console_writes_def term_at_def shown_at_def)

lemma store_buffer:
  assumes "user_ready a p s" and "length buf \<le> 2048"
  shows "user_stores a buf s = Some (s\<lparr>mem := copied p (\<lambda>j. buf ! j) (length buf) (mem s)\<rparr>)"
    and "user_ready a p (s\<lparr>mem := copied p (\<lambda>j. buf ! j) (length buf) (mem s)\<rparr>)"
proof -
  have "stable_area a p 2048 s" using assms(1) by (simp add: user_ready_def)
  then show "user_stores a buf s = Some (s\<lparr>mem := copied p (\<lambda>j. buf ! j) (length buf) (mem s)\<rparr>)"
    by (intro user_stores_area stable_area_less [OF _ assms(2)])
  show "user_ready a p (s\<lparr>mem := copied p (\<lambda>j. buf ! j) (length buf) (mem s)\<rparr>)"
    by (rule user_ready_mem [OF assms(1)]) (rule copied_outside [OF assms(2)])
qed

lemma load_buffer:
  assumes "user_ready a p s" and "mem s = copied p f (length buf) m" and "n \<le> length buf" and "length buf \<le> 2048"
  shows "user_loads a n s = Some (map f [0..<n])"
proof -
  have "user_loads a n s = Some (map (\<lambda>j. mem s (p + of_nat j)) [0..<n])"
    by (rule user_loads_area [of a p 2048]) (use assms in \<open>simp_all add: user_ready_def\<close>)
  then show ?thesis using copied_bytes [of "length buf" n p f m] assms(2,3,4) by simp
qed

text \<open>Writing the first \<^term>\<open>n\<close> bytes of the buffer.\<close>

lemma call_write_result:
  assumes r: "user_ready a p s" and n: "n \<le> length buf" and len: "length buf \<le> 2048"
  shows "\<exists>u. call_write dev a 1 buf (int n) s = Some (0, u) \<and> user_ready a p u \<and> console_writes p (take n buf) s u \<and>
    same_task s u"
proof -
  define s1 where "s1 = s\<lparr>mem := copied p (\<lambda>j. buf ! j) (length buf) (mem s)\<rparr>"
  note st = store_buffer [OF r len, folded s1_def]
  let ?e = "cur_ptree s" and ?d = "current_terminal_index s"
  have f: "cur_ptree s1 = ?e" "current_terminal_index s1 = ?d" "same_task s s1" "same_outside p 2048 (mem s) (mem s1)"
    using copied_outside [OF len] by (simp_all add: s1_def same_task_def)
  have ld: "user_loads a n s1 = Some (take n buf)"
    using load_buffer [OF st(2) _ n len] map_nth_take [OF n] by (simp add: s1_def)
  obtain t td where t: "term_at ?e s1 = Some t" "visible ?e ?d t s1" "term_at ?d s1 = Some td"
    using st(2) f(1,2) unfolding user_ready_def by auto
  obtain u t' where u: "terminal_write 1 (Some (take n buf)) (int n) s1 = Some (0, u)" "term_at ?e u = Some t'"
    "visible ?e ?d t' u"
    "shown_at ?e ?d t' u = fold type_char (wrap_text (chars_printed t) (take n buf)) (shown_at ?e ?d t s1)"
    "chars_printed t' = foldl next_count (chars_printed t) (take n buf)" "same_input t t'"
    "writes_only ?e ?d (s1\<lparr>eflags := eflags u\<rparr>) u"
    using terminal_write_typed [of ?e s1 ?d t td "int n" "take n buf" 1] f(1,2) t n by auto
  have w: "only_terminals (s1\<lparr>eflags := eflags u\<rparr>) u" "\<forall>j. j \<noteq> ?e \<longrightarrow> term_at j u = term_at j s"
    using u(7) by (auto simp: writes_only_def s1_def term_at_def)
  have m: "mem u = mem s1" "same_task s u" "cur_ptree u = ?e" "current_terminal_index u = ?d"
    using only_terminals_fields [OF w(1)] arg_cong [OF w(1) [unfolded only_terminals_def], of cr3]
      arg_cong [OF w(1) [unfolded only_terminals_def], of file_sys] f(1,2,3)
    by (simp_all add: same_task_def)
  have fd1: "cur_file 1 s1 = Some (cur_files s1 ! 1)"
    using cur_file_in(1) [of s1 1] st(2) by (simp add: user_ready_def)
  have "do_write dev 1 a (int n) s1 = Some (0, u)"
    using fd1 st(2) ld u(1) by (simp add: do_write_def user_ready_def in_use_def fops_write_def)
  then have "call_write dev a 1 buf (int n) s = Some (0, u)" using st(1) by (simp add: call_write_def)
  moreover obtain td' where "term_at ?d u = Some td'"
    using w(2) u(2) t(3) by (cases "?d = ?e") (auto simp: s1_def term_at_def)
  then have "user_ready a p u"
    by (intro user_ready_same [OF r, of u t' td']) (use m u(2,3) f(4) in simp_all)
  moreover have "console_writes p (take n buf) s u"
  proof -
    have "term_at ?e s = Some t" "shown_at ?e ?d t s1 = shown_at ?e ?d t s" using t(1) by (simp_all add: s1_def term_at_def shown_at_def)
    then show ?thesis using w(2) m f(4) u(2,4,5,6) same_task_simps(4,5) [OF m(2)] by (auto simp: console_writes_def)
  qed
  ultimately show ?thesis using m(2) by blast
qed

interpretation console: text_output "kernel_sys dev env exec a" "user_ready a p" "console_writes p" for dev env exec a p
proof unfold_locales
  show "console_writes p [] w w" if "user_ready a p w" for w :: "'a kbd_scheme"
    by (rule console_writes_nil [OF that])
  show "console_writes p (xs @ ys) w u" if "console_writes p xs w v" "console_writes p ys v u" for xs ys and w v u :: "'a kbd_scheme"
    by (rule console_writes_append [OF that])
  show "\<exists>r v. sys_write (kernel_sys dev env exec a) 1 buf (int n) w = Some (r, v) \<and> r \<noteq> - 1 \<and> user_ready a p v \<and>
      console_writes p (take n buf) w v"
    if "user_ready a p w" "n \<le> length buf" "length buf \<le> 2048" for w :: "'a kbd_scheme" and n buf
    using call_write_result [OF that, of dev] by (metis kernel_sys_simps(2) zero_neq_neg_one)
qed

section \<open>A file as a source of chunks\<close>

text \<open>A read that meets the end of the blocks of the file copies the last byte and does not count it.\<close>

lemma read_data_meets_end:
  assumes ok: "image_ok (mem s) (file_sys s)" "inode < fs_num_inodes (mem s) (file_sys s)"
    and clear: "clear_of_image (mem s) (file_sys s) buf (Suc n)"
    and block: "unat offset mod 4096 = 0 \<or> unat offset mod 4096 + Suc n \<le> 4096"
    and fin: "unat offset + Suc n = file_room (mem s) (file_sys s) inode" and len: "unat len = Suc n"
  shows "read_data inode offset buf len s = (int n, s\<lparr>mem := copied buf
    (\<lambda>j. file_byte (mem s) (file_sys s) inode (unat offset + j)) (Suc n) (mem s)\<rparr>)"
proof -
  let ?m = "mem s" and ?fs = "file_sys s" and ?off = "unat offset"
  have pos: "source_pos ?off j = ?off + j" if "j < Suc n" for j
    using block that by (auto simp: source_pos_def)
  have "file_len ?m ?fs inode div 4096 < 1023" using ok by (auto simp: image_ok_def)
  then have n: "n < 4096 * 1023" using fin by (simp add: file_room_def)
  have inside: "reads_inside ?m ?fs inode ?off n" using fin by (auto simp: reads_inside_def pos)
  have "loop_at ?m ?fs inode buf len ?off 0 = loop_at ?m ?fs inode buf len ?off n"
    by (rule loop_at_run [OF ok clear _ _ inside]) (use len in simp_all)
  also have "\<dots> = (int n, copied buf (\<lambda>j. file_byte ?m ?fs inode (source_pos ?off j)) (Suc n) ?m)"
    using loop_at_step [OF ok clear, of n len ?off] fin len pos [of n] n sint_of_nat_u32 [of n] by simp
  also have "copied buf (\<lambda>j. file_byte ?m ?fs inode (source_pos ?off j)) (Suc n) ?m =
      copied buf (\<lambda>j. file_byte ?m ?fs inode (?off + j)) (Suc n) ?m"
    by (rule copied_cong) (simp add: pos)
  finally show ?thesis using read_data_loop [OF ok, of offset buf len] fin by simp
qed

text \<open>
  The bytes that a read of 1024 bytes counts when it starts \<^term>\<open>off\<close> bytes into a file of \<^term>\<open>len\<close> bytes:
  all of a short file, and otherwise 1024 whether or not they are bytes of the file, but for the
  read that meets the end of the last block.
\<close>

definition chunk_size :: "nat \<Rightarrow> nat \<Rightarrow> nat" where
  "chunk_size len off = (if len < 1024 then len else if off + 1024 = 4096 * (len div 4096 + 1) then 1023 else 1024)"

function file_chunks :: "memory \<Rightarrow> u32 \<Rightarrow> u32 \<Rightarrow> nat \<Rightarrow> u8 list list" where
  "file_chunks m fs ino off = (if off < file_len m fs ino
     then map (\<lambda>j. file_byte m fs ino (off + j)) [0..<chunk_size (file_len m fs ino) off] # file_chunks m fs ino (off + 1024)
     else [])"
  by pat_completeness auto
termination by (relation "measure (\<lambda>(m, fs, ino, off). file_len m fs ino - off)") auto

declare file_chunks.simps [simp del]

text \<open>Descriptor \<^term>\<open>k\<close> of the running task is a file, open at \<^term>\<open>off\<close>.\<close>

definition file_open_at :: "u32 \<Rightarrow> nat \<Rightarrow> u32 \<Rightarrow> nat \<Rightarrow> 'a kbd_scheme \<Rightarrow> bool" where
  "file_open_at p k ino off s = (k < 8 \<and> in_use (cur_files s ! k) \<and> f_fops (cur_files s ! k) = Some FileFops \<and>
     inode_num (f_dentry (cur_files s ! k)) = ino \<and> f_inode (cur_files s ! k) = inode_addr (file_sys s) ino \<and>
     inode_addr (file_sys s) ino \<noteq> 0 \<and> f_offset (cur_files s ! k) = of_nat off \<and> off < 2 ^ 31 \<and> 1024 dvd off \<and>
     ino < fs_num_inodes (mem s) (file_sys s) \<and> image_ok (mem s) (file_sys s) \<and>
     clear_of_image (mem s) (file_sys s) p 2048)"

definition kernel_file :: "u32 \<Rightarrow> u32 \<Rightarrow> int \<Rightarrow> u8 list list \<Rightarrow> 'a kbd_scheme \<Rightarrow> bool" where
  "kernel_file a p fd cs s = (user_ready a p s \<and>
     (\<exists>k ino off. fd = int k \<and> file_open_at p k ino off s \<and> cs = file_chunks (mem s) (file_sys s) ino off))"

lemma kernel_fileI:
  assumes "user_ready a p s" and "file_open_at p k ino off s" and "cs = file_chunks (mem s) (file_sys s) ino off"
  shows "kernel_file a p (int k) cs s"
  using assms unfolding kernel_file_def by blast

text \<open>Where the chunk at an offset that is a multiple of 1024 lies: inside a block of the file.\<close>

lemma chunk_inside:
  assumes "off < len" and "1024 dvd off"
  shows "off mod 4096 + min 1024 len \<le> 4096" and "off + min 1024 len \<le> 4096 * (len div 4096 + 1)"
    and "0 < chunk_size len off" and "chunk_size len off \<le> min 1024 len"
    and "chunk_size len off = (if off + min 1024 len = 4096 * (len div 4096 + 1) then min 1024 len - 1 else min 1024 len)"
proof -
  obtain c where c: "off = 1024 * c" using assms(2) by blast
  obtain q r where qr: "len = 4096 * q + r" "r < 4096" "len div 4096 = q"
    by (metis mod_less_divisor mult_div_mod_eq zero_less_numeral)
  have m: "off mod 4096 = 1024 * (c mod 4)" using c by (simp add: mult_mod_right)
  have "c mod 4 \<le> 3" by simp
  then show "off mod 4096 + min 1024 len \<le> 4096" unfolding m by linarith
  have "1024 * c < 1024 * (4 * (q + 1))" using assms(1) c qr(1,2) by simp
  then have "c < 4 * (q + 1)" by simp
  then have "c + 1 \<le> 4 * (q + 1)" by simp
  then show le: "off + min 1024 len \<le> 4096 * (len div 4096 + 1)" unfolding qr(3) using c by linarith
  show "0 < chunk_size len off" "chunk_size len off \<le> min 1024 len" using assms(1) by (auto simp: chunk_size_def)
  show "chunk_size len off = (if off + min 1024 len = 4096 * (len div 4096 + 1) then min 1024 len - 1 else min 1024 len)"
  proof (cases "len < 1024")
    case True
    then have "off = 0" using assms(1) c by simp
    then show ?thesis using True by (auto simp: chunk_size_def)
  next
    case False
    then show ?thesis by (auto simp: chunk_size_def)
  qed
qed

lemma room_bound: "off < len \<Longrightarrow> off < 4096 * (len div 4096) + 4096" for off len :: nat
proof -
  have "len = 4096 * (len div 4096) + len mod 4096" "len mod 4096 < 4096" by simp_all
  then show "off < len \<Longrightarrow> off < 4096 * (len div 4096) + 4096" by linarith
qed

lemma file_chunks_same:
  assumes "same_image m m' fs" and "image_ok m fs" and "ino < fs_num_inodes m fs" and "1024 dvd off"
  shows "file_chunks m' fs ino off = file_chunks m fs ino off"
  using assms
proof (induction m fs ino off rule: file_chunks.induct)
  case (1 m fs ino off)
  note fl = same_image_file [OF 1(2,3,4)]
  show ?case
  proof (cases "off < file_len m fs ino")
    case True
    note c = chunk_inside [OF True 1(5)]
    have "file_byte m' fs ino (off + j) = file_byte m fs ino (off + j)" if "j < chunk_size (file_len m fs ino) off" for j
      using fl(4) [of "off + j"] that c(2,4) unfolding file_room_def by linarith
    moreover have "file_chunks m' fs ino (off + 1024) = file_chunks m fs ino (off + 1024)"
      by (rule 1(1) [OF True 1(2,3,4)]) (use 1(5) in simp)
    ultimately show ?thesis
      using True fl(1) by (simp add: file_chunks.simps [of _ _ _ off])
  next
    case False
    then show ?thesis using fl(1) by (simp add: file_chunks.simps [of _ _ _ off])
  qed
qed

lemma cur_files_with_mem [simp]: "cur_files (s\<lparr>mem := m\<rparr>) = cur_files s" "get_cur_task (s\<lparr>mem := m\<rparr>) = get_cur_task s"
  by (simp_all add: cur_files_def get_cur_task_def)

lemma file_open_same:
  assumes "file_open_at p k ino off s" and "same_task s u" and "same_outside p 2048 (mem s) (mem u)"
  shows "file_open_at p k ino off u" and "file_chunks (mem u) (file_sys u) ino off = file_chunks (mem s) (file_sys s) ino off"
proof -
  have fs: "file_sys u = file_sys s" "cur_files u = cur_files s" using same_task_simps [OF assms(2)] by simp_all
  have im: "same_image (mem s) (mem u) (file_sys s)"
    by (rule same_outside_image [OF _ assms(3)]) (use assms(1) in \<open>simp add: file_open_at_def\<close>)
  have "clear_of_image (mem u) (file_sys s) p 2048"
    using assms(1) same_image_header(4) [OF im] by (simp add: file_open_at_def clear_of_image_def)
  then show "file_open_at p k ino off u"
    using assms(1) same_image_ok [OF im] same_image_header [OF im] by (simp add: file_open_at_def fs)
  show "file_chunks (mem u) (file_sys u) ino off = file_chunks (mem s) (file_sys s) ino off"
    unfolding fs by (rule file_chunks_same [OF im]) (use assms(1) in \<open>simp_all add: file_open_at_def\<close>)
qed

text \<open>The read of a chunk, and the read at the end.\<close>

lemma file_read_chunk:
  assumes fl: "file_open_at p k ino off s" and cur: "get_cur_task s \<noteq> 0" "length (cur_files s) = 8" and area: "stable_area a p 2048 s"
    and off: "off < file_len (mem s) (file_sys s) ino"
  defines "n \<equiv> min 1024 (file_len (mem s) (file_sys s) ino)"
  shows "file_read (int k) a 1024 s = Some (int (chunk_size (file_len (mem s) (file_sys s) ino) off),
    with_files ((cur_files s)[k := (cur_files s ! k)\<lparr>f_offset := of_nat (off + 1024)\<rparr>])
      (s\<lparr>mem := copied p (\<lambda>j. file_byte (mem s) (file_sys s) ino (off + j)) n (mem s)\<rparr>))"
proof -
  let ?m = "mem s" and ?fs = "file_sys s" and ?f = "cur_files s ! k"
  let ?len = "file_len ?m ?fs ino"
  have k: "k < 8" "f_inode ?f = inode_addr ?fs ino" "inode_addr ?fs ino \<noteq> 0" "f_offset ?f = of_nat off" "1024 dvd off"
    "off < 2 ^ 31" "inode_num (f_dentry ?f) = ino"
    and img: "ino < fs_num_inodes ?m ?fs" "image_ok ?m ?fs" "clear_of_image ?m ?fs p 2048"
    using fl by (simp_all add: file_open_at_def)
  note c = chunk_inside [OF off k(5), folded n_def]
  have n: "0 < n" "n \<le> 1024" using c(3,4) off by (simp_all add: n_def)
  have un: "unat (of_nat n :: u32) = n" "unat (of_nat off :: u32) = off" using n k(6) by (simp_all add: unat_of_nat_u32)
  have il: "unat (inode_len ?m (inode_addr ?fs ino)) = ?len" by (simp add: file_len_def)
  have lt: "\<not> f_offset ?f \<ge> inode_len ?m (f_inode ?f)"
    using off il un(2) unfolding k(2,4) by (simp add: word_le_nat_alt)
  have w: "(if u32_of 1024 > inode_len ?m (f_inode ?f) then inode_len ?m (f_inode ?f) else u32_of 1024) = of_nat n"
    using il unfolding k(2) n_def by (auto simp: u32_of_def word_less_nat_alt word_unat_eq_iff min_def unat_of_nat_u32)
  have clear: "clear_of_image ?m ?fs p n" using img(3) n(2) by (simp add: clear_of_image_def)
  have rd: "read_data ino (of_nat off) p (of_nat n) s = (int (chunk_size ?len off),
      s\<lparr>mem := copied p (\<lambda>j. file_byte ?m ?fs ino (off + j)) n ?m\<rparr>)"
  proof (cases "off + n = 4096 * (?len div 4096 + 1)")
    case True
    then show ?thesis
      using read_data_meets_end [OF img(2,1), of p "n - 1" "of_nat off" "of_nat n"] clear c(1,5) n un
      by (simp add: file_room_def of_nat_diff)
  next
    case False
    then have "off + n < file_room ?m ?fs ino" using c(2) by (simp add: file_room_def)
    moreover have "sint (of_nat n :: u32) = int n" using n by (intro sint_of_nat_u32) simp
    ultimately show ?thesis
      using read_data_inside_block [OF img(2,1), of p "of_nat n" "of_nat off"] clear c(1,5) un False by simp
  qed
  let ?s = "s\<lparr>mem := copied p (\<lambda>j. file_byte ?m ?fs ino (off + j)) n ?m\<rparr>"
  have "cur_file (int k) s = Some ?f" using cur_file_in(1) [OF cur(1), of k] cur(2) k(1) by simp
  moreover have "set_cur_file (int k) (?f\<lparr>f_offset := of_nat (off + 1024)\<rparr>) ?s =
      Some (with_files ((cur_files s)[k := ?f\<lparr>f_offset := of_nat (off + 1024)\<rparr>]) ?s)"
    using cur_file_in(2) [of ?s k] cur k(1) by simp
  moreover have "user_area a (unat (of_nat n :: u32)) s = Some p"
    using stable_user_area [OF area] n un(1) by simp
  moreover have "f_offset ?f + u32_of 1024 = of_nat (off + 1024)" by (simp add: k(4) u32_of_def)
  moreover have "f_inode ?f \<noteq> 0" using k(2,3) by simp
  ultimately show ?thesis
    using cur(1) k(1) lt by (simp add: file_read_def Let_def w rd k(4,7) split del: if_split del: of_nat_add)
qed

lemma file_read_end:
  assumes fl: "file_open_at p k ino off s" and cur: "get_cur_task s \<noteq> 0" "length (cur_files s) = 8"
    and off: "file_len (mem s) (file_sys s) ino \<le> off"
  shows "file_read (int k) a n s = Some (0, s)"
proof -
  have "unat (of_nat off :: u32) = off" using fl by (simp add: file_open_at_def unat_of_nat_u32)
  then have "f_offset (cur_files s ! k) \<ge> inode_len (mem s) (f_inode (cur_files s ! k))"
    using fl off by (simp add: file_open_at_def word_le_nat_alt file_len_def)
  then show ?thesis
    using fl cur cur_file_in(1) [OF cur(1), of k] by (simp add: file_read_def file_open_at_def)
qed

text \<open>A call of \<^verbatim>\<open>read\<close> on an open descriptor is the operation of its type.\<close>

lemma do_read_open:
  assumes "user_ready a p s" and "k < 8" and "in_use (cur_files s ! k)" and "f_fops (cur_files s ! k) = Some ops"
  shows "do_read ticks intrs (int k) a n s = fops_read ticks intrs ops (int k) a n s"
  using assms cur_file_in(1) [of s k] by (simp add: do_read_def user_ready_def in_use_def)

text \<open>Changes of the descriptors other than 1.\<close>

lemma with_files_sel [simp]:
  "cur_ptree (with_files fs s) = cur_ptree s" "current_terminal_index (with_files fs s) = current_terminal_index s"
  "term_at i (with_files fs s) = term_at i s" "visible e d t (with_files fs s) = visible e d t s"
  "shown_at e d t (with_files fs s) = shown_at e d t s" "stable_area a p n (with_files fs s) = stable_area a p n s"
  "is_user_ptr a (with_files fs s) = is_user_ptr a s" "cr3 (with_files fs s) = cr3 s"
  by (simp_all add: with_files_def term_at_def visible_def shown_at_def stable_area_def is_user_ptr_def task_at_def get_cur_task_def)

lemma user_ready_files:
  assumes "user_ready a p s" and "length files = 8" and "files ! 1 = cur_files s ! 1"
  shows "user_ready a p (with_files files s)"
  using assms by (simp add: user_ready_def)

lemma console_writes_files: "console_writes p xs s u \<Longrightarrow> console_writes p xs s (with_files files u)"
  by (simp add: console_writes_def)

text \<open>What the program finds in its buffer when a call has stored \<^term>\<open>n\<close> bytes at its start.\<close>

lemma buffer_after:
  assumes "stable_area a p 2048 s" and "mem s = copied p f n (copied p (\<lambda>j. buf ! j) (length buf) m)"
    and "n \<le> length buf" and "length buf \<le> 2048"
  shows "user_loads a (length buf) s = Some (map f [0..<n] @ drop n buf)"
proof -
  have "user_loads a (length buf) s = Some (map (\<lambda>j. mem s (p + of_nat j)) [0..<length buf])"
    by (rule user_loads_area [OF assms(1,4)])
  moreover have "map (\<lambda>j. mem s (p + of_nat j)) [0..<length buf] = map f [0..<n] @ drop n buf"
  proof (rule nth_equalityI)
    fix j assume "j < length (map (\<lambda>j. mem s (p + of_nat j)) [0..<length buf])"
    then have j: "j < length buf" by simp
    have u: "unat (p + of_nat j - p) = j" using j assms(4) by (simp add: unat_of_nat_u32)
    then have "mem s (p + of_nat j) = (if j < n then f j else buf ! j)" unfolding assms(2) copied_def using j by simp
    then show "map (\<lambda>j. mem s (p + of_nat j)) [0..<length buf] ! j = (map f [0..<n] @ drop n buf) ! j"
      using j assms(3) by (simp add: nth_append)
  qed (use assms(3) in simp)
  ultimately show ?thesis by simp
qed

lemma call_read_chunk:
  assumes h: "kernel_file a p fd (c # cs) s" and len: "1024 \<le> length buf" "length buf \<le> 2048"
  shows "\<exists>b v. call_read env a fd buf 1024 s = Some (int (length c), c @ b, v) \<and> length (c @ b) = length buf \<and>
    0 < length c \<and> length c \<le> 1024 \<and> kernel_file a p fd cs v \<and> console_writes p [] s v"
proof -
  obtain k ino off where fd: "fd = int k" and fl: "file_open_at p k ino off s"
    and cs: "c # cs = file_chunks (mem s) (file_sys s) ino off" and r: "user_ready a p s"
    using h unfolding kernel_file_def by blast
  define s1 where "s1 = s\<lparr>mem := copied p (\<lambda>j. buf ! j) (length buf) (mem s)\<rparr>"
  note st = store_buffer [OF r len(2), folded s1_def]
  have s1: "same_task s s1" "same_outside p 2048 (mem s) (mem s1)"
    using copied_outside [OF len(2)] by (simp_all add: s1_def same_task_def)
  note fl1 = file_open_same [OF fl s1]
  let ?m = "mem s1" and ?fs = "file_sys s1" and ?files = "cur_files s1"
  let ?len = "file_len ?m ?fs ino"
  define n where "n = min 1024 ?len"
  define s2 where "s2 = s1\<lparr>mem := copied p (\<lambda>j. file_byte ?m ?fs ino (off + j)) n ?m\<rparr>"
  have off: "off < ?len" and c: "c = map (\<lambda>j. file_byte ?m ?fs ino (off + j)) [0..<chunk_size ?len off]"
    and cs': "cs = file_chunks ?m ?fs ino (off + 1024)"
    using cs unfolding fl1(2) [symmetric] by (simp_all add: file_chunks.simps [of _ _ _ off] split: if_splits)
  let ?u = "with_files (?files[k := (?files ! k)\<lparr>f_offset := of_nat (off + 1024)\<rparr>]) s2"
  have k: "k < 8" "in_use (?files ! k)" "f_fops (?files ! k) = Some FileFops" "1024 dvd off"
    using fl1(1) by (simp_all add: file_open_at_def)
  have ne: "k \<noteq> 1" using k(3) st(2) by (auto simp: user_ready_def)
  have ready: "get_cur_task s1 \<noteq> 0" "length ?files = 8" "stable_area a p 2048 s1" using st(2) by (simp_all add: user_ready_def)
  note ch = chunk_inside [OF off k(4), folded n_def]
  have out: "same_outside p 2048 (mem s1) (mem s2)" using copied_outside [of n 2048 p] by (simp add: s2_def n_def)
  have rd: "do_read ticks intrs fd a 1024 s1 = Some (int (length c), ?u)" for ticks intrs
    using file_read_chunk [OF fl1(1) ready off, folded n_def] do_read_open [OF st(2) k(1-3)]
    by (simp add: fd fops_read_def c s2_def)
  have r2: "user_ready a p s2" using user_ready_mem [OF st(2) out [unfolded s2_def, simplified]] by (simp add: s2_def)
  have r3: "user_ready a p ?u" by (rule user_ready_files [OF r2]) (use ready(2) ne in \<open>simp_all add: s2_def\<close>)
  have "user_loads a (length buf) ?u = Some (map (\<lambda>j. file_byte ?m ?fs ino (off + j)) [0..<n] @ drop n buf)"
    by (rule buffer_after [where m = "mem s"]) (use r3 len in \<open>auto simp: user_ready_def s2_def s1_def n_def\<close>)
  moreover have "map (\<lambda>j. file_byte ?m ?fs ino (off + j)) [0..<n] = c @ map (\<lambda>j. file_byte ?m ?fs ino (off + j)) [chunk_size ?len off..<n]"
    unfolding c map_append [symmetric] using ch(4) upt_add_eq_append [of 0 "chunk_size ?len off" "n - chunk_size ?len off"] by simp
  moreover have "length c = chunk_size ?len off" "n \<le> length buf" using len(1) by (simp_all add: c n_def)
  ultimately obtain b where b: "user_loads a (length buf) ?u = Some (c @ b)" "length (c @ b) = length buf"
    using ch(4) that [of "map (\<lambda>j. file_byte ?m ?fs ino (off + j)) [chunk_size ?len off..<n] @ drop n buf"] by simp
  have im: "same_image ?m (mem s2) ?fs"
    by (rule same_outside_image [OF _ out]) (use fl1(1) in \<open>simp add: file_open_at_def\<close>)
  have f2: "file_open_at p k ino (off + 1024) ?u" "file_chunks (mem s2) ?fs ino (off + 1024) = cs"
  proof -
    have t2: "same_task s1 s2" by (simp add: s2_def same_task_def)
    have "off < 2 ^ 31 - 1024"
    proof -
      have "?len div 4096 < 1023" using fl1(1) by (auto simp: file_open_at_def image_ok_def)
      then show ?thesis using room_bound [OF off] by simp
    qed
    then show "file_open_at p k ino (off + 1024) ?u"
      using file_open_same(1) [OF fl1(1) t2 out] ready(2) same_task_simps(4) [OF t2]
      by (auto simp: file_open_at_def in_use_def s2_def)
    show "file_chunks (mem s2) ?fs ino (off + 1024) = cs"
      unfolding cs' by (rule file_chunks_same [OF im]) (use fl1(1) k(4) in \<open>simp_all add: file_open_at_def\<close>)
  qed
  have "kernel_file a p fd cs ?u"
    unfolding fd by (rule kernel_fileI [OF r3 f2(1)]) (use f2(2) in \<open>simp add: s2_def\<close>)
  moreover have "console_writes p [] s s1" "console_writes p [] s1 s2"
    using console_writes_mem [OF r s1(2)] console_writes_mem [OF st(2) out] by (simp_all add: s1_def s2_def)
  then have "console_writes p [] s ?u"
    using console_writes_append [of p "[]" s s1 "[]" s2] by (intro console_writes_files) simp
  moreover have "call_read env a fd buf 1024 s = Some (int (length c), c @ b, ?u)"
    using st(1) rd b(1) by (simp add: call_read_def)
  ultimately show ?thesis
    using b(2) ch(3,4) by (intro exI [of _ b] exI [of _ ?u]) (auto simp: c n_def)
qed

lemma call_read_end:
  assumes h: "kernel_file a p fd [] s" and len: "length buf \<le> 2048"
  shows "\<exists>v. call_read env a fd buf n s = Some (0, buf, v) \<and> kernel_file a p fd [] v \<and> console_writes p [] s v"
proof -
  obtain k ino off where fd: "fd = int k" and fl: "file_open_at p k ino off s"
    and cs: "[] = file_chunks (mem s) (file_sys s) ino off" and r: "user_ready a p s"
    using h unfolding kernel_file_def by blast
  define s1 where "s1 = s\<lparr>mem := copied p (\<lambda>j. buf ! j) (length buf) (mem s)\<rparr>"
  note st = store_buffer [OF r len, folded s1_def]
  have s1: "same_task s s1" "same_outside p 2048 (mem s) (mem s1)"
    using copied_outside [OF len] by (simp_all add: s1_def same_task_def)
  note fl1 = file_open_same [OF fl s1]
  have "file_len (mem s1) (file_sys s1) ino \<le> off"
    using cs unfolding fl1(2) [symmetric] by (simp add: file_chunks.simps [of _ _ _ off] split: if_splits)
  then have "do_read ticks intrs fd a n s1 = Some (0, s1)" for ticks intrs
    using file_read_end [OF fl1(1)] st(2) do_read_open [OF st(2)] fl1(1)
    by (simp add: fd fops_read_def user_ready_def file_open_at_def)
  moreover have "user_loads a (length buf) s1 = Some buf"
    using load_buffer [OF st(2) _ order_refl len] map_nth_take [of "length buf" buf] by (simp add: s1_def)
  ultimately have "call_read env a fd buf n s = Some (0, buf, s1)" using st(1) by (simp add: call_read_def)
  moreover have "kernel_file a p fd [] s1" unfolding fd by (rule kernel_fileI [OF st(2) fl1(1)]) (simp only: cs fl1(2))
  moreover have "console_writes p [] s s1" using console_writes_mem [OF r s1(2)] by (simp add: s1_def)
  ultimately show ?thesis by blast
qed

lemma call_write_keeps:
  assumes h: "kernel_file a p fd cs s" and len: "n \<le> length buf" "length buf \<le> 2048"
    and w: "call_write dev a 1 buf (int n) s = Some (r, v)"
  shows "kernel_file a p fd cs v"
proof -
  obtain k ino off where fd: "fd = int k" and fl: "file_open_at p k ino off s"
    and cs: "cs = file_chunks (mem s) (file_sys s) ino off" and rs: "user_ready a p s"
    using h unfolding kernel_file_def by blast
  from call_write_result [OF rs len, of dev] w
  have v: "user_ready a p v" "console_writes p (take n buf) s v" "same_task s v" by auto
  have "same_outside p 2048 (mem s) (mem v)" using v(2) by (simp add: console_writes_def)
  note fl' = file_open_same [OF fl v(3) this]
  show ?thesis unfolding fd by (rule kernel_fileI [OF v(1) fl'(1)]) (simp only: cs fl'(2))
qed

interpretation disk: chunk_source "kernel_sys dev env exec a" "user_ready a p" "console_writes p" "kernel_file a p" 1024
  for dev env exec a p
proof unfold_locales
  show "user_ready a p w" if "kernel_file a p fd cs w" for fd cs and w :: "'a kbd_scheme"
    using that by (simp add: kernel_file_def)
  show "\<exists>b v. sys_read (kernel_sys dev env exec a) fd buf (int 1024) w = Some (int (length c), c @ b, v) \<and>
      length (c @ b) = length buf \<and> 0 < length c \<and> length c \<le> 1024 \<and> kernel_file a p fd cs v \<and> console_writes p [] w v"
    if "kernel_file a p fd (c # cs) w" "1024 \<le> length buf" "length buf \<le> 2048" for fd c cs buf and w :: "'a kbd_scheme"
    using call_read_chunk [OF that] by simp
  show "\<exists>v. sys_read (kernel_sys dev env exec a) fd buf (int n) w = Some (0, buf, v) \<and> kernel_file a p fd [] v \<and>
      console_writes p [] w v"
    if "kernel_file a p fd [] w" "n \<le> 1024" "n \<le> length buf" "length buf \<le> 2048" for fd n buf and w :: "'a kbd_scheme"
    using call_read_end [OF that(1,4)] by simp
  show "kernel_file a p fd cs v"
    if "kernel_file a p fd cs w" "n \<le> length buf" "length buf \<le> 2048"
      "sys_write (kernel_sys dev env exec a) 1 buf (int n) w = Some (r, v)" for fd cs n buf r and w v :: "'a kbd_scheme"
    using call_write_keeps [OF that(1-3)] that(4) by simp
qed

section \<open>cat on the kernel\<close>

text \<open>The number of bytes that reads of 1024 bytes deliver of a file of \<^term>\<open>len\<close> bytes.\<close>

definition cat_length :: "nat \<Rightarrow> nat" where
  "cat_length len = (if len < 1024 then len
     else let up = 1024 * ((len + 1023) div 1024) in if up = 4096 * (len div 4096 + 1) then up - 1 else up)"

lemma last_chunk:
  assumes "1024 * c < len" and "len \<le> 1024 * c + 1024" and "1024 \<le> len"
  shows "cat_length len = 1024 * c + chunk_size len (1024 * c)"
proof -
  have "(len + 1023) div 1024 = c + 1" by (rule div_nat_eqI) (use assms in simp_all)
  then show ?thesis using assms(3) by (simp add: cat_length_def chunk_size_def add.commute)
qed

lemma concat_chunks:
  assumes "off < file_len m fs ino" and "1024 dvd off"
  shows "concat (file_chunks m fs ino off) = map (file_byte m fs ino) [off..<cat_length (file_len m fs ino)]"
  using assms
proof (induction m fs ino off rule: file_chunks.induct)
  case (1 m fs ino off)
  let ?len = "file_len m fs ino"
  obtain c where c: "off = 1024 * c" using 1(3) by blast
  have shift: "map (\<lambda>j. file_byte m fs ino (off + j)) [0..<n] = map (file_byte m fs ino) [off..<off + n]" for n
    by (rule nth_equalityI) simp_all
  note step = file_chunks.simps [of m fs ino off]
  show ?case
  proof (cases "off + 1024 < ?len")
    case False
    then have "file_chunks m fs ino (off + 1024) = []" by (simp add: file_chunks.simps [of _ _ _ "off + 1024"])
    moreover have "cat_length ?len = off + chunk_size ?len off"
    proof (cases "?len < 1024")
      case True
      then have "off = 0" using 1(2) c by simp
      then show ?thesis using True by (simp add: cat_length_def chunk_size_def)
    next
      case len: False
      show ?thesis unfolding c by (rule last_chunk) (use 1(2) False len c in simp_all)
    qed
    ultimately show ?thesis using 1(2) step shift by simp
  next
    case True
    then have "?len \<ge> 1024" by simp
    moreover have "off + 1024 \<noteq> 4096 * (?len div 4096 + 1)" using room_bound [OF True] by simp
    ultimately have cs: "chunk_size ?len off = 1024" by (simp add: chunk_size_def)
    have "concat (file_chunks m fs ino (off + 1024)) = map (file_byte m fs ino) [off + 1024..<cat_length ?len]"
      by (rule 1(1) [OF 1(2) True]) (use 1(3) in simp)
    moreover have "off + 1024 \<le> cat_length ?len"
    proof -
      obtain d where d: "1024 * d < ?len" "?len \<le> 1024 * d + 1024"
      proof -
        have "?len - 1 = 1024 * ((?len - 1) div 1024) + (?len - 1) mod 1024" "(?len - 1) mod 1024 < 1024" by simp_all
        then have "1024 * ((?len - 1) div 1024) < ?len" "?len \<le> 1024 * ((?len - 1) div 1024) + 1024"
          using True by linarith+
        then show thesis by (rule that)
      qed
      have "c + 1 \<le> d" using d(2) True c by simp
      moreover have "cat_length ?len \<ge> 1024 * d" using last_chunk [OF d] \<open>?len \<ge> 1024\<close> by simp
      ultimately show ?thesis using c by simp
    qed
    then have "[off..<cat_length ?len] = [off..<off + 1024] @ [off + 1024..<cat_length ?len]"
      using upt_add_eq_append [of off "off + 1024" "cat_length ?len - (off + 1024)"] by simp
    ultimately show ?thesis using 1(2) step shift cs by simp
  qed
qed

lemma concat_all_chunks: "concat (file_chunks m fs ino 0) = map (file_byte m fs ino) [0..<cat_length (file_len m fs ino)]"
proof (cases "file_len m fs ino = 0")
  case True
  then show ?thesis by (simp add: file_chunks.simps cat_length_def)
next
  case False
  then show ?thesis using concat_chunks [of 0 m fs ino] by simp
qed

text \<open>All of the file comes out, and nothing else only if it is short, ends with a kilobyte, or lacks
  one byte of a block.\<close>

lemma cat_length_exact:
  "len \<le> cat_length len" "cat_length len = len \<longleftrightarrow> len \<le> 1024 \<or> 1024 dvd len \<or> len mod 4096 = 4095"
proof -
  obtain x z where xz: "len = 4096 * x + z" "z < 4096" by (metis mod_less_divisor mult_div_mod_eq zero_less_numeral)
  obtain y r where yr: "z = 1024 * y + r" "r < 1024" by (metis mod_less_divisor mult_div_mod_eq zero_less_numeral)
  have y: "y < 4" using xz(2) yr by simp
  have len: "len = 1024 * (4 * x + y) + r" using xz yr by simp
  have up: "(len + 1023) div 1024 = (if r = 0 then 4 * x + y else 4 * x + y + 1)"
    by (rule div_nat_eqI) (use len yr(2) in \<open>simp_all split: if_splits\<close>)
  have md: "len mod 1024 = r" unfolding len using yr(2) by (simp only: mod_mult_self4 mod_less)
  then have dv: "1024 dvd len \<longleftrightarrow> r = 0" by (simp add: dvd_eq_mod_eq_0)
  have b: "len div 4096 = x" "len mod 4096 = z" using xz by simp_all
  have last: "1024 * (4 * x + y + 1) = 4096 * (x + 1) \<longleftrightarrow> y = 3" by simp
  have first: "1024 * (4 * x + y) \<noteq> 4096 * (x + 1)" using y by simp
  have val: "cat_length len = (if len < 1024 then len else if r = 0 then len
      else if y = 3 then 4096 * x + 4095 else 1024 * (4 * x + y + 1))"
    using up b first last len y by (simp add: cat_length_def Let_def)
  show "len \<le> cat_length len" using val xz(2) len yr(2) by auto
  show "cat_length len = len \<longleftrightarrow> len \<le> 1024 \<or> 1024 dvd len \<or> len mod 4096 = 4095"
    unfolding val dv b(2) using xz yr len md by (cases "len = 1024") auto
qed

text \<open>The search for a name does not look outside the image.\<close>

lemma read_by_name_same:
  assumes same: "same_image (mem s) (mem u) (file_sys s)" and fs: "file_sys u = file_sys s"
    and n: "fs_num_dentries (mem s) (file_sys s) \<le> 63" and len: "length fname = 32"
  shows "read_dentry_by_name fname d u = read_dentry_by_name fname d s"
proof -
  note h = same_image_header [OF same]
  have n': "unat (fs_num_dentries (mem s) (file_sys s)) \<le> 63" using n by (simp add: word_le_nat_alt)
  have e: "copy_dentry (mem u) (file_sys s) (of_nat i) = copy_dentry (mem s) (file_sys s) (of_nat i)" if "i < 63" for i
    using same_image_entry [OF same that] .
  have z: "ld32 (mem u) (fs_dentry (file_sys s) 0 + 32) = ld32 (mem s) (fs_dentry (file_sys s) 0 + 32)"
    "ld32 (mem u) (fs_dentry (file_sys s) 0 + 36) = ld32 (mem s) (fs_dentry (file_sys s) 0 + 36)"
    using e [of 0] by (simp_all add: copy_dentry_def)
  let ?find = "\<lambda>m. find (\<lambda>k. entry_name m (file_sys s) k = take FILENAME_LEN fname) [0..<unat (fs_num_dentries (mem s) (file_sys s))]"
  have "?find (mem u) = ?find (mem s)"
    by (rule find_cong) (use e n' in \<open>auto simp: entry_name_def\<close>)
  moreover have "i < 63" if "?find (mem s) = Some i" for i using that n' by (auto simp: find_Some_iff)
  ultimately show ?thesis
    using e z len by (auto simp: read_dentry_by_name_def find_dentry_eq FILENAME_LEN_def fs h split: option.splits intro!: Option.bind_cong)
qed

text \<open>The copy of a name that fits.\<close>

lemma copy_name_pads:
  assumes "0 \<notin> set name" and "length pre + length name \<le> 32"
  shows "copy_name (name @ 0 # rest) (length pre) (pre @ replicate (32 - length pre) 0) =
    Some (pre @ name @ replicate (32 - length pre - length name) 0)"
  using assms
proof (induction name arbitrary: pre)
  case Nil
  then show ?case by simp
next
  case (Cons c name)
  have "wr (pre @ replicate (32 - length pre) 0) (length pre) c = Some ((pre @ [c]) @ replicate (32 - length (pre @ [c])) 0)"
    using Cons.prems(2) by (cases "32 - length pre") (simp_all add: wr_def list_update_append)
  then show ?case using Cons.IH [of "pre @ [c]"] Cons.prems by simp
qed

text \<open>The argument and the open file, as \<^verbatim>\<open>cat\<close> finds them.\<close>

lemma call_getargs_name:
  assumes r: "user_ready a p s" and args: "task_args (task_store s (get_cur_task s)) = name @ 0 # rest" "0 \<notin> set name"
    and len: "length name < 1023" "length buf = 1024"
  shows "\<exists>u. call_getargs a buf 1024 s = Some (0, name @ 0 # drop (Suc (length name)) buf, u) \<and> user_ready a p u \<and>
    same_task s u \<and> console_writes p [] s u"
proof -
  have l2: "length buf \<le> 2048" using len(2) by simp
  define s1 where "s1 = s\<lparr>mem := copied p (\<lambda>j. buf ! j) (length buf) (mem s)\<rparr>"
  note st = store_buffer [OF r l2, folded s1_def]
  have s1: "same_task s s1" "same_outside p 2048 (mem s) (mem s1)"
    using copied_outside [OF l2] by (simp_all add: s1_def same_task_def)
  let ?n = "Suc (length name)"
  define s2 where "s2 = s1\<lparr>mem := copied p (\<lambda>j. (name @ [0]) ! j) ?n (mem s1)\<rparr>"
  have "stable_area a p 2048 s1" using st(2) by (simp add: user_ready_def)
  then have area: "stable_area a p ?n s1" by (rule stable_area_less) (use len(1) in simp)
  have "do_getargs a 1024 s1 = Some (0, s2)"
    using getargs_result [of s1 "task_store s1 (get_cur_task s1)" name rest a 1024 ?n p] st(2) args len(1) area
    by (simp add: s2_def s1_def user_ready_def)
  moreover have out: "same_outside p 2048 (mem s1) (mem s2)"
    using copied_outside [of ?n 2048 p] len(1) by (simp add: s2_def)
  then have r2: "user_ready a p s2" using user_ready_mem [OF st(2)] by (simp add: s2_def)
  moreover have "user_loads a (length buf) s2 = Some (map (\<lambda>j. (name @ [0]) ! j) [0..<?n] @ drop ?n buf)"
    by (rule buffer_after [where m = "mem s"]) (use r2 len l2 in \<open>simp_all add: user_ready_def s2_def s1_def\<close>)
  moreover have "map (\<lambda>j. (name @ [0]) ! j) [0..<?n] = name @ [0]"
    using map_nth_take [of ?n "name @ [0]"] by simp
  moreover have "console_writes p [] s s1" "console_writes p [] s1 s2"
    using console_writes_mem [OF r s1(2)] console_writes_mem [OF st(2) out] by (simp_all add: s1_def s2_def)
  then have "console_writes p [] s s2" using console_writes_append [of p "[]" s s1 "[]" s2] by simp
  moreover have "same_task s s2" by (simp add: s1_def s2_def same_task_def)
  ultimately show ?thesis using st(1) by (simp add: call_getargs_def)
qed

lemma call_open_file:
  assumes r: "user_ready a p s" and k: "lowest_free (cur_files s) k"
    and name: "0 \<notin> set name" "length name \<le> 32"
      "read_dentry_by_name (name @ replicate (32 - length name) 0) blank_dentry s = Some (0, de)" "file_type de = 2"
    and img: "image_ok (mem s) (file_sys s)" "inode_num de < fs_num_inodes (mem s) (file_sys s)"
      "clear_of_image (mem s) (file_sys s) p 2048" "inode_addr (file_sys s) (inode_num de) \<noteq> 0"
  shows "\<exists>u. do_open dev (name @ 0 # rest) s = Some (int k, u) \<and> user_ready a p u \<and> file_open_at p k (inode_num de) 0 u \<and>
    mem u = mem s \<and> file_sys u = file_sys s \<and> (\<forall>xs v. console_writes p xs v s \<longrightarrow> console_writes p xs v u)"
proof -
  let ?f = "open_file de (get_inode (inode_num de) s) (cur_files s ! k)"
  let ?u = "with_files ((cur_files s)[k := ?f]) s"
  have c: "get_cur_task s \<noteq> 0" "length (cur_files s) = 8" using r by (simp_all add: user_ready_def)
  have k8: "2 \<le> k" "k < 8" using k by (simp_all add: lowest_free_def)
  have "do_open dev (name @ 0 # rest) s = Some (int k, ?u)"
    by (rule open_result [OF c k _ name(3)]) (use copy_name_pads [OF name(1), of "[]" rest] name(2,4) in simp_all)
  moreover have "user_ready a p ?u" by (rule user_ready_files [OF r]) (use c k8 in simp_all)
  moreover have "file_open_at p k (inode_num de) 0 ?u"
    using k8 c(2) img open_file_in_use(1) name(4) inode_at [OF img(2)]
    by (simp add: file_open_at_def) (simp add: open_file_def type_fops_def)
  moreover have "\<forall>xs v. console_writes p xs v s \<longrightarrow> console_writes p xs v ?u" using console_writes_files by blast
  ultimately show ?thesis by (intro exI [of _ ?u]) simp
qed

text \<open>C8. The program \<^verbatim>\<open>cat\<close> on this kernel: started with the name of a file as its argument, by a task
  whose terminal takes its output, it returns 0 and has written to the terminal the bytes of the
  file from the first one on, as many as \<^term>\<open>cat_length\<close> of the file's length. That is never less
  than the file; it is more, with what lies behind the file in its last block, unless the file has
  at most 1024 bytes, ends with a kilobyte, or lacks one byte of a block.\<close>

theorem cat_prints_file:
  assumes r: "user_ready a p s" and args: "task_args (task_store s (get_cur_task s)) = name @ 0 # rest" "0 \<notin> set name" "length name \<le> 32"
    and name: "read_dentry_by_name (name @ replicate (32 - length name) 0) blank_dentry s = Some (0, de)" "file_type de = 2"
    and k: "lowest_free (cur_files s) k" and n: "fs_num_dentries (mem s) (file_sys s) \<le> 63"
    and img: "image_ok (mem s) (file_sys s)" "inode_num de < fs_num_inodes (mem s) (file_sys s)"
      "clear_of_image (mem s) (file_sys s) p 2048" "inode_addr (file_sys s) (inode_num de) \<noteq> 0"
    and len: "len = file_len (mem s) (file_sys s) (inode_num de)" and buf: "length buf = 1024"
  shows "(\<exists>u. cat_main (kernel_sys dev env exec a) buf s = Some (0, u) \<and>
      console_writes p (map (file_byte (mem s) (file_sys s) (inode_num de)) [0..<cat_length len]) s u) \<and>
    len \<le> cat_length len \<and> (cat_length len = len \<longleftrightarrow> len \<le> 1024 \<or> 1024 dvd len \<or> len mod 4096 = 4095)"
proof (intro conjI cat_length_exact)
  let ?sys = "kernel_sys dev env exec a" and ?ino = "inode_num de" and ?b = "name @ 0 # drop (Suc (length name)) buf"
  obtain v where v: "call_getargs a buf 1024 s = Some (0, ?b, v)" "user_ready a p v" "same_task s v" "console_writes p [] s v"
    using call_getargs_name [OF r args(1,2) _ buf] args(3) by auto
  have out: "same_outside p 2048 (mem s) (mem v)" using v(4) by (simp add: console_writes_def)
  have im: "same_image (mem s) (mem v) (file_sys s)" by (rule same_outside_image [OF img(3) out])
  have fs: "file_sys v = file_sys s" "cur_files v = cur_files s" using same_task_simps [OF v(3)] by simp_all
  have img': "image_ok (mem v) (file_sys v)" "?ino < fs_num_inodes (mem v) (file_sys v)"
    "clear_of_image (mem v) (file_sys v) p 2048" "inode_addr (file_sys v) ?ino \<noteq> 0"
    using img same_image_ok [OF im] same_image_header [OF im] by (simp_all add: fs clear_of_image_def)
  have k': "lowest_free (cur_files v) k" using k by (simp add: fs)
  have nm: "read_dentry_by_name (name @ replicate (32 - length name) 0) blank_dentry v = Some (0, de)"
    using name(1) read_by_name_same [OF im fs(1) n] args(3) by simp
  obtain w where w: "do_open dev ?b v = Some (int k, w)" "user_ready a p w" "file_open_at p k ?ino 0 w" "mem w = mem v"
    "file_sys w = file_sys v" "\<forall>xs x. console_writes p xs x v \<longrightarrow> console_writes p xs x w"
    using call_open_file [OF v(2) k' args(2,3) nm name(2) img'] by blast
  have ch: "file_chunks (mem w) (file_sys w) ?ino 0 = file_chunks (mem s) (file_sys s) ?ino 0"
    unfolding w(4,5) fs by (rule file_chunks_same [OF im img(1,2)]) simp
  have kf: "kernel_file a p (int k) (file_chunks (mem w) (file_sys w) ?ino 0) w" by (rule kernel_fileI [OF w(2,3) refl])
  have lb: "length ?b = 1024" using buf args(3) by simp
  obtain u where u: "cat_loop ?sys (int k) ?b w = Some (0, u)"
    "console_writes p (map (file_byte (mem s) (file_sys s) ?ino) [0..<cat_length len]) w u"
    using disk.cat_writes [OF kf refl lb, of dev env exec] by (auto simp: ch concat_all_chunks len)
  have "cat_main ?sys buf s = Some (0, u)" using v(1) w(1) u(1) by (simp add: cat_main_def)
  moreover have "console_writes p (map (file_byte (mem s) (file_sys s) ?ino) [0..<cat_length len]) s u"
    using console_writes_append [of p "[]" s w] w(6) v(4) u(2) by auto
  ultimately show "\<exists>u. cat_main ?sys buf s = Some (0, u) \<and>
      console_writes p (map (file_byte (mem s) (file_sys s) ?ino) [0..<cat_length len]) s u" by blast
qed

text \<open>A task that was started with the argument \<^verbatim>\<open>ls\<close>, on terminal 1, with its terminal open as descriptor 1
  and its buffer at 2 MB.\<close>

definition user_task :: task_t where
  "user_task = task_demo_task\<lparr>task_args := [108, 115, 0] @ replicate 125 0,
     task_files := (task_files task_demo_task)[1 := \<lparr>f_fops = Some TermFops, f_dentry = blank_dentry, f_inode = 0,
       f_offset = 0, f_flags = 1\<rparr>]\<rparr>"

definition user_demo :: kbd where
  "user_demo = kernel.extend (reading_demo\<lparr>task_store := \<lambda>_. user_task\<rparr>) (kbd.fields (\<lambda>_. 0) [] 0)"

lemma user_demo_sel:
  "get_cur_task user_demo \<noteq> 0" "task_store user_demo (get_cur_task user_demo) = user_task" "mem user_demo = reading_mem"
  "file_sys user_demo = 0x10000" "cr3 user_demo = 0x1000" "cur_files user_demo = task_files user_task"
  "cur_ptree user_demo = 1" "current_terminal_index user_demo = 0" "term_at i user_demo = term_at i terminals_demo"
  "video_mem user_demo = video_mem terminals_demo" "screen_x user_demo = screen_x terminals_demo"
  "screen_y user_demo = screen_y terminals_demo"
  by (simp_all add: user_demo_def kernel.defs kbd.defs reading_demo_def get_cur_task_def get_task_0 cur_files_def term_at_def
      terminals_demo_def kernel_demo_def sched_init_def tasks.defs tasks_demo_def filesys.defs fs_demo_def)

lemma user_demo_ready: "user_ready 0x200000 0x200000 user_demo"
proof -
  have "stable_area 0x200000 0x200000 2048 reading_demo" by (rule reading_area) simp
  then have "stable_area 0x200000 0x200000 2048 user_demo"
    by (simp add: stable_area_def user_demo_sel reading_sel)
  moreover have "is_user_ptr 0x200000 user_demo = Some (- 1)"
    by (simp add: is_user_ptr_def task_at_def user_demo_sel get_task_addr_def user_task_def task_demo_task_def
        INIT_TASK_ADDR_def SIZE_4MB_PAGE_def u32_of_def)
  moreover have "term_at 1 user_demo = Some (terminal_demo\<lparr>chars_printed := 81\<rparr>)" "term_at 0 user_demo = Some terminal_demo"
    unfolding user_demo_sel(9) by (simp_all add: terminals_demo_def term_at_def rdi_def rd_def)
  moreover have "visible 1 0 (terminal_demo\<lparr>chars_printed := 81\<rparr>) user_demo"
    using terminal_demo_visible by (simp add: visible_def user_demo_sel(10-12))
  ultimately show ?thesis
    using user_demo_sel(1) by (simp add: user_ready_def user_demo_sel(6-8) user_task_def task_demo_task_def in_use_def FILE_OPEN_BIT_def)
qed

text \<open>The same with other contents of the memory below 4 MB, which its directory maps to itself.\<close>

lemma user_demo_mem_ready:
  assumes "ld32 m 0x1000 = 0x83"
  shows "user_ready 0x200000 0x200000 (user_demo\<lparr>mem := m\<rparr>)"
proof -
  let ?u = "user_demo\<lparr>mem := m\<rparr>"
  have c: "cr3 ?u = 0x1000" "is_user_ptr a ?u = is_user_ptr a user_demo" "term_at i ?u = term_at i user_demo"
    "visible e d t ?u = visible e d t user_demo" for a i e d t
    by (simp_all add: is_user_ptr_def task_at_def term_at_def visible_def user_demo_sel(5))
  have "stable_area 0x200000 0x200000 2048 ?u" by (intro identity_area [OF c(1)]) (simp_all add: assms)
  then show ?thesis using user_demo_ready by (simp add: user_ready_def c)
qed

lemma user_demo_image:
  "image_ok (mem user_demo) (file_sys user_demo)" "clear_of_image (mem user_demo) (file_sys user_demo) 0x200000 2048"
  "fs_num_inodes (mem user_demo) (file_sys user_demo) = 1" "fs_num_dentries (mem user_demo) (file_sys user_demo) = 1"
  "read_dentry_by_name ls_name blank_dentry user_demo = Some (0, \<lparr>file_name = ls_name, file_type = 2, inode_num = 0\<rparr>)"
proof -
  show "image_ok (mem user_demo) (file_sys user_demo)" "fs_num_inodes (mem user_demo) (file_sys user_demo) = 1"
    "fs_num_dentries (mem user_demo) (file_sys user_demo) = 1"
    using reading_image reading_header by (simp_all add: user_demo_sel)
  have "unat (0x200000 + of_nat i - 0x10000 :: u32) = 0x1F0000 + i" if "i < 2048" for i
  proof -
    have "(0x200000 + of_nat i - 0x10000 :: u32) = of_nat (0x1F0000 + i)" by simp
    then show ?thesis using that unat_of_nat_u32 [of "0x1F0000 + i"] by (simp del: of_nat_add)
  qed
  then show "clear_of_image (mem user_demo) (file_sys user_demo) 0x200000 2048"
    by (simp add: clear_of_image_def image_size_def reading_header user_demo_sel)
  have "same_image fs_demo_mem reading_mem 0x10000"
  proof -
    have "reading_mem (0x10000 + of_nat k) = fs_demo_mem (0x10000 + of_nat k)" if "k < 16384" for k
    proof -
      have u: "unat (0x10000 + of_nat k :: u32) = 0x10000 + k" using that by (simp add: unat_word_ariths unat_of_nat_u32)
      have "(0x10000 + of_nat k :: u32) \<noteq> c" if "unat c < 0x10000" for c :: u32 using u that by auto
      from this [of "0x1000"] this [of "0x1001"] this [of "0x1002"] this [of "0x1003"] show ?thesis
        by (simp add: reading_mem_def st32_def Let_def)
    qed
    then show ?thesis by (simp add: same_image_def fs_demo_image)
  qed
  then show "read_dentry_by_name ls_name blank_dentry user_demo = Some (0, \<lparr>file_name = ls_name, file_type = 2, inode_num = 0\<rparr>)"
    using ls_found by (subst read_by_name_same [of fs_demo]) (simp_all add: user_demo_sel fs_demo_header ls_name_def)
qed

theorem cat_prints_file_witness:
  "\<exists>u. cat_main (kernel_sys (\<lambda>_ _. 0) (\<lambda>_. ([], [])) (\<lambda>_ _. None) 0x200000) (replicate 1024 0) user_demo = Some (0, u) \<and>
     console_writes 0x200000 (map (file_byte reading_mem 0x10000 0) [0..<5120]) user_demo u \<and>
     file_len reading_mem 0x10000 0 = 5000"
proof -
  let ?d = "\<lparr>file_name = ls_name, file_type = 2, inode_num = 0\<rparr>"
  have args: "task_args (task_store user_demo (get_cur_task user_demo)) = [108, 115] @ 0 # replicate 125 0"
    by (simp add: user_demo_sel user_task_def)
  have "[108, 115] @ replicate (32 - length [108, 115 :: u8]) 0 = ls_name" by (simp add: ls_name_def bytes_of_def)
  then have nm: "read_dentry_by_name ([108, 115] @ replicate (32 - length [108, 115 :: u8]) 0) blank_dentry user_demo = Some (0, ?d)"
    using user_demo_image(5) by simp
  have k: "lowest_free (cur_files user_demo) 2"
    by (simp add: user_demo_sel user_task_def task_demo_task_def lowest_free_def in_use_def)
  have "cat_length 5000 = 5120" by (simp add: cat_length_def Let_def)
  then show ?thesis
    using cat_prints_file [OF user_demo_ready args _ _ nm _ k _ user_demo_image(1) _ user_demo_image(2) _ refl, of
        "replicate 1024 0" "\<lambda>_ _. 0" "\<lambda>_. ([], [])" "\<lambda>_ _. None"] user_demo_image(3,4) reading_header(4)
    by (simp add: user_demo_sel(3,4) inode_addr_def)
qed

end
