(* ===== verification/UserGrep.thy ===== *)
theory UserGrep
  imports UserRun
begin

text \<open>
  \<^verbatim>\<open>grep\<close> on the kernel: the search of one file, from its name to the closed descriptor, on the interpretation
  of the chunks of a file.
\<close>

unbundle bit_operations_syntax

section \<open>Closing a file\<close>

lemma do_close_file:
  assumes r: "user_ready a p s" and k: "2 \<le> k" "k < 8" and f: "in_use (cur_files s ! k)" "f_fops (cur_files s ! k) = Some FileFops"
  shows "do_close dev (int k) s = Some (0, with_files ((cur_files s)[k := closed_file (cur_files s ! k)]) s)"
    and "user_ready a p (with_files ((cur_files s)[k := closed_file (cur_files s ! k)]) s)"
proof -
  have c: "get_cur_task s \<noteq> 0" "length (cur_files s) = 8" using r by (simp_all add: user_ready_def)
  have "f_flags (cur_files s ! k) AND FILE_OPEN_BIT = 1"
    using f(1) by (simp add: in_use_def FILE_OPEN_BIT_def and_one_eq mod2_eq_if split: if_splits)
  then show "do_close dev (int k) s = Some (0, with_files ((cur_files s)[k := closed_file (cur_files s ! k)]) s)"
    using c k f(2) cur_file_in [OF c(1), of k] by (simp add: do_close_def fops_close_def file_close_def closed_file_def)
  show "user_ready a p (with_files ((cur_files s)[k := closed_file (cur_files s ! k)]) s)"
    by (rule user_ready_files [OF r]) (use c k in simp_all)
qed

lemma call_close_file:
  assumes r: "user_ready a p s" and k: "2 \<le> k" and f: "file_open_at p k ino off s"
  shows "\<exists>u. do_close dev (int k) s = Some (0, u) \<and> user_ready a p u \<and> \<not> in_use (cur_files u ! k) \<and>
    (\<forall>xs v. console_writes p xs v s \<longrightarrow> console_writes p xs v u)"
proof -
  have c: "k < 8" "in_use (cur_files s ! k)" "f_fops (cur_files s ! k) = Some FileFops" "length (cur_files s) = 8"
    "get_cur_task s \<noteq> 0" using r f by (simp_all add: user_ready_def file_open_at_def)
  then show ?thesis
    using do_close_file(1) [OF r k c(1-3), of dev] do_close_file(2) [OF r k c(1-3)] open_file_in_use(2)
    by (intro exI [of _ "with_files ((cur_files s)[k := closed_file (cur_files s ! k)]) s"]) (simp add: console_writes_files)
qed

section \<open>grep on the kernel\<close>

text \<open>C10. \<^verbatim>\<open>grep\<close> on this kernel, for a file that it reads at once, of at most 1024 bytes, and that has no zero byte: the search
  opens the file, returns 0, and has written to the terminal of the task exactly the lines of the file that
  contain the pattern, in their order, each after the name of the file and a colon; the descriptor
  is free again. Longer files, for which the rest of a line is carried over to the next read, are not covered: there the
  program tests a byte behind the data.\<close>

theorem grep_prints_matches:
  assumes r: "user_ready a p s" and k: "lowest_free (cur_files s) k"
    and name: "0 \<notin> set name" "length name \<le> 32" "length name + length rest < 2048"
      "read_dentry_by_name (name @ replicate (32 - length name) 0) blank_dentry s = Some (0, de)" "file_type de = 2"
    and img: "image_ok (mem s) (file_sys s)" "inode_num de < fs_num_inodes (mem s) (file_sys s)"
      "clear_of_image (mem s) (file_sys s) p 2048" "inode_addr (file_sys s) (inode_num de) \<noteq> 0"
    and content: "content = map (file_byte (mem s) (file_sys s) (inode_num de)) [0..<file_len (mem s) (file_sys s) (inode_num de)]"
      "length content \<le> 1024" "0 \<notin> set content"
    and pat: "pat \<noteq> []" "0 \<notin> set pat" and data: "length data = 1025"
  shows "\<exists>u. do_one_file (kernel_sys dev env exec a) data (pat @ 0 # t) (name @ 0 # rest) s = Some (0, u) \<and>
    user_ready a p u \<and> \<not> in_use (cur_files u ! k) \<and> console_writes p (matches_text name pat content) s u"
proof -
  let ?sys = "kernel_sys dev env exec a" and ?ino = "inode_num de"
  have k2: "2 \<le> k" using k by (simp add: lowest_free_def)
  obtain v where v: "do_open dev (name @ 0 # rest) s = Some (int k, v)" "user_ready a p v" "file_open_at p k ?ino 0 v"
    "mem v = mem s" "file_sys v = file_sys s" "\<forall>xs x. console_writes p xs x s \<longrightarrow> console_writes p xs x v"
    using call_open_file [OF r k name(1,2,4,5) img] by blast
  let ?len = "file_len (mem s) (file_sys s) ?ino"
  have len: "?len = length content" by (simp add: content(1))
  then have "chunk_size ?len 0 = ?len" using content(2) by (auto simp: chunk_size_def)
  moreover have "file_chunks (mem s) (file_sys s) ?ino 1024 = []" using len content(2) by (subst file_chunks.simps) simp
  ultimately have "file_chunks (mem s) (file_sys s) ?ino 0 = (if ?len = 0 then [] else [content])"
    using file_chunks.simps [of "mem s" "file_sys s" ?ino 0] by (simp add: content(1) [symmetric])
  then have "file_chunks (mem v) (file_sys v) ?ino 0 = (if content = [] then [] else [content])"
    by (simp add: v(4,5) len)
  then have kf: "kernel_file a p (int k) (if content = [] then [] else [content]) v"
    by (intro kernel_fileI [OF v(2,3)]) simp
  obtain w where w: "kernel_file a p (int k) [] w" "console_writes p (matches_text name pat content) v w"
    "grep_loop ?sys (pat @ 0 # t) (name @ 0 # rest) (length pat) (int k) data 0 v = do {
      (r, v) \<leftarrow> do_close dev (int k) w;
      (if r = - 1 then leave ?sys (cline ''file close failed'') (- 1) v else Some (0, v)) }"
    using disk.grep_loop_writes [OF kf refl data content(3) name(1,3) pat, of dev env exec "0 # t"] by auto
  obtain off ino where o: "file_open_at p k ino off w" "user_ready a p w"
    using w(1) by (auto simp: kernel_file_def)
  obtain u where u: "do_close dev (int k) w = Some (0, u)" "user_ready a p u" "\<not> in_use (cur_files u ! k)"
    "\<forall>xs x. console_writes p xs x w \<longrightarrow> console_writes p xs x u"
    using call_close_file [OF o(2) k2 o(1)] by blast
  have "ece391_strlen (pat @ 0 # t) 0 = Some (length pat)"
    using strlen_string [OF string_at_here [of 0 "pat @ 0 # t" pat t]] pat(2) by (simp add: ece391_strlen_eq)
  then have "do_one_file ?sys data (pat @ 0 # t) (name @ 0 # rest) s = Some (0, u)"
    using v(1) w(3) u(1) by (simp add: do_one_file_def)
  moreover have "console_writes p [] s v" using v(6) console_writes_nil [OF r] by simp
  ultimately show ?thesis using console_writes_append [of p "[]" s v _ u] w(2) u(2-4) by auto
qed

text \<open>The task of before, on an image whose file \<^verbatim>\<open>ls\<close> has the two lines \<^verbatim>\<open>ls\<close> and \<^verbatim>\<open>x\<close>, the second
  without a newline; the page directory has the entry of the page that \<^verbatim>\<open>vidmap\<close> gives.\<close>

definition searching_mem :: memory where
  "searching_mem = reading_mem(0x1100 := 0x87, 0x11000 := 4, 0x11001 := 0, 0x12000 := 108, 0x12001 := 115, 0x12002 := 10, 0x12003 := 120)"

lemma searching_image:
  "fs_num_dentries searching_mem 0x10000 = 1" "fs_num_inodes searching_mem 0x10000 = 1"
  "fs_num_blocks searching_mem 0x10000 = 2" "file_len searching_mem 0x10000 0 = 4"
  "inode_dblock searching_mem (inode_addr 0x10000 0) 0 = 0" "ld32 searching_mem 0x1000 = 0x83"
  by (simp_all add: fs_num_dentries_def fs_num_inodes_def fs_num_blocks_def file_len_def inode_len_def
      inode_addr_def inode_dblock_def ld32_def fs_demo_mem_def reading_mem_def searching_mem_def st32_def Let_def)

lemma searching_ok: "image_ok searching_mem 0x10000" "clear_of_image searching_mem 0x10000 0x200000 2048"
  "map (file_byte searching_mem 0x10000 0) [0..<4] = [108, 115, 10, 120]"
proof -
  have s: "image_size searching_mem 0x10000 = image_size reading_mem 0x10000"
    by (simp add: image_size_def searching_image reading_header)
  show "image_ok searching_mem 0x10000"
    using reading_image(1) searching_image by (simp add: image_ok_def s)
  show "clear_of_image searching_mem 0x10000 0x200000 2048"
    using user_demo_image(2) by (simp add: clear_of_image_def s user_demo_sel)
  show "map (file_byte searching_mem 0x10000 0) [0..<4] = [108, 115, 10, 120]"
    by (simp add: file_byte_def searching_image block_addr_def upt_rec) (simp add: searching_mem_def)
qed

lemma searching_found:
  "read_dentry_by_name ls_name blank_dentry (user_demo\<lparr>mem := searching_mem\<rparr>) = Some (0, \<lparr>file_name = ls_name, file_type = 2, inode_num = 0\<rparr>)"
proof -
  have d: "copy_dentry searching_mem 0x10000 0 = \<lparr>file_name = ls_name, file_type = 2, inode_num = 0\<rparr>"
    by (simp add: copy_dentry_def fs_dentry_def fs_demo_mem_def reading_mem_def searching_mem_def st32_def ls_name_def bytes_of_def ld32_def
      FILENAME_LEN_def Let_def upt_rec replicate_num)
  then have "entry_name searching_mem 0x10000 0 = ls_name" by (simp add: entry_name_def)
  moreover have "rd ls_name 0 = Some (ls_name ! 0)" by (simp add: rd_def ls_name_def)
  ultimately show ?thesis using d ls_entry
    by (simp add: read_dentry_by_name_def find_dentry_eq searching_image user_demo_sel)
qed

theorem grep_prints_matches_witness:
  "\<exists>u. do_one_file (kernel_sys (\<lambda>_ _. 0) (\<lambda>_. ([], [])) (\<lambda>_ _. None) 0x200000) (replicate 1025 0) (cstr ''ls'') (cstr ''ls'')
       (user_demo\<lparr>mem := searching_mem\<rparr>) = Some (0, u) \<and>
     console_writes 0x200000 (bytes_of ''ls:ls'' @ [10]) (user_demo\<lparr>mem := searching_mem\<rparr>) u"
proof -
  let ?s = "user_demo\<lparr>mem := searching_mem\<rparr>" and ?d = "\<lparr>file_name = ls_name, file_type = 2, inode_num = 0\<rparr>"
  have k: "lowest_free (cur_files ?s) 2"
    by (simp add: user_demo_sel user_task_def task_demo_task_def lowest_free_def in_use_def)
  have "cstr ''ls'' = [108, 115] @ 0 # []" "ls_name = [108, 115] @ replicate (32 - length [108, 115 :: u8]) 0"
    by (simp_all add: cstr_def bytes_of_def ls_name_def)
  note str = this
  have m: "matches_text [108, 115] [108, 115] [108, 115, 10, 120] = bytes_of ''ls:ls'' @ [10]"
    by (simp add: matches_text_def lines_of.simps match_text_def contains_def bytes_of_def)
  show ?thesis
    using grep_prints_matches [OF user_demo_mem_ready [OF searching_image(6)] k _ _ _ searching_found [unfolded str(2)] _ _ _ _ _ refl, of
        "[]" "[108, 115]" "replicate 1025 0" "\<lambda>_ _. 0" "\<lambda>_. ([], [])" "\<lambda>_ _. None" "[]"] searching_ok searching_image
    unfolding str(1) by (simp add: user_demo_sel(4) inode_addr_def m) blast
qed

end
