(* ===== verification/Blink.thy ===== *)
theory Blink
  imports Programs
begin

text \<open>
  The blinking characters of the program \<^verbatim>\<open>fish\<close>: the operations of \<^verbatim>\<open>blink.S\<close> on the structures that
  \<^verbatim>\<open>fish.c\<close> allocates in an array, linked into a list through that array. Below them the list of
  blinks and the page they are shown on, which the operations implement.
\<close>

unbundle bit_operations_syntax

section \<open>The state\<close>

text \<open>\<^verbatim>\<open>struct mp1_blink_struct\<close>. A pointer to one is its index in \<^verbatim>\<open>blink_array\<close>, \<^term>\<open>None\<close> is \<^verbatim>\<open>NULL\<close>.\<close>

record blink =
  bl_location :: u16
  bl_on_char :: u8
  bl_off_char :: u8
  bl_on_length :: u16
  bl_off_length :: u16
  bl_countdown :: u16
  bl_status :: u16
  bl_next :: "nat option"

definition zero_blink :: blink where
  "zero_blink = \<lparr>bl_location = 0, bl_on_char = 0, bl_off_char = 0, bl_on_length = 0, bl_off_length = 0, bl_countdown = 0,
     bl_status = 0, bl_next = None\<rparr>"

text \<open>The array, the head of the list, and the text page at \<^verbatim>\<open>vmem_base_addr\<close>.\<close>

record fish =
  blink_array :: "blink list"
  mp1_list_head :: "nat option"
  vmem :: "u8 list"

definition blink_at :: "nat \<Rightarrow> fish \<Rightarrow> blink option" where
  "blink_at i f = (if i < length (blink_array f) then Some (blink_array f ! i) else None)"

definition set_blink :: "nat \<Rightarrow> blink \<Rightarrow> fish \<Rightarrow> fish" where
  "set_blink i b f = f\<lparr>blink_array := (blink_array f)[i := b]\<rparr>"

definition mp1_poke :: "nat \<Rightarrow> u8 \<Rightarrow> fish \<Rightarrow> fish option" where
  "mp1_poke off c f = do { v \<leftarrow> wr (vmem f) off c; Some (f\<lparr>vmem := v\<rparr>) }"

section \<open>The clock\<close>

text \<open>One structure: the counter goes down, and when it is no longer positive, as a signed number, the
  other character is shown.\<close>

definition tasklet_step :: "nat \<Rightarrow> fish \<Rightarrow> (nat option \<times> fish) option" where
  "tasklet_step i f = do {
     b \<leftarrow> blink_at i f;
     let b = b\<lparr>bl_countdown := bl_countdown b - 1\<rparr>;
     (if 0 <s bl_countdown b then Some (bl_next b, set_blink i b f)
      else do {
        let eax = 2 * unat (bl_location b);
        let (cl, dx) = (if bl_status b AND 1 \<noteq> 0 then (bl_off_char b, bl_off_length b) else (bl_on_char b, bl_on_length b));
        f \<leftarrow> mp1_poke eax cl f;
        Some (bl_next b, set_blink i (b\<lparr>bl_countdown := dx, bl_status := bl_status b XOR 1\<rparr>) f) }) }"

partial_function (option) tasklet_loop :: "nat option \<Rightarrow> fish \<Rightarrow> fish option" where
  "tasklet_loop p f = (case p of
       None \<Rightarrow> Some f
     | Some i \<Rightarrow> do { (q, f) \<leftarrow> tasklet_step i f; tasklet_loop q f })"

definition mp1_rtc_tasklet :: "fish \<Rightarrow> fish option" where
  "mp1_rtc_tasklet f = tasklet_loop (mp1_list_head f) f"

section \<open>Adding\<close>

text \<open>\<^verbatim>\<open>mp1_malloc\<close> takes the first structure whose location is 0; \<^verbatim>\<open>mp1_free\<close> clears a structure.\<close>

definition mp1_malloc :: "fish \<Rightarrow> nat option" where
  "mp1_malloc f = find (\<lambda>i. bl_location (blink_array f ! i) = 0) [0..<80 * 25]"

definition mp1_free :: "nat \<Rightarrow> fish \<Rightarrow> fish" where
  "mp1_free i f = set_blink i zero_blink f"

definition mp1_ioctl_add :: "blink \<Rightarrow> fish \<Rightarrow> (int \<times> fish) option" where
  "mp1_ioctl_add arg f =
     (if bl_location arg \<ge> 80 * 25 then Some (- 1, f)
      else do {
        let b = arg\<lparr>bl_status := 1, bl_countdown := bl_on_length arg\<rparr>;
        (case mp1_malloc f of
           None \<Rightarrow> Some (- 1, f)
         | Some i \<Rightarrow> do {
             let f = (set_blink i (b\<lparr>bl_next := mp1_list_head f\<rparr>) f)\<lparr>mp1_list_head := Some i\<rparr>;
             f \<leftarrow> mp1_poke (2 * unat (bl_location b)) (bl_on_char b) f;
             Some (0, f) }) })"

section \<open>Finding, removing and copying\<close>

partial_function (option) mp1_find_helper :: "u16 \<Rightarrow> nat option \<Rightarrow> fish \<Rightarrow> nat option option" where
  "mp1_find_helper ax p f = (case p of
       None \<Rightarrow> Some None
     | Some i \<Rightarrow> do {
         b \<leftarrow> blink_at i f;
         (if bl_location b = ax then Some (Some i) else mp1_find_helper ax (bl_next b) f) })"

text \<open>The user's structure names a location and is overwritten with what is found there.\<close>

definition mp1_ioctl_find :: "blink \<Rightarrow> fish \<Rightarrow> (int \<times> blink) option" where
  "mp1_ioctl_find arg f = do {
     r \<leftarrow> mp1_find_helper (bl_location arg) (mp1_list_head f) f;
     (case r of
        None \<Rightarrow> Some (- 1, arg)
      | Some i \<Rightarrow> do { b \<leftarrow> blink_at i f; Some (0, b) }) }"

text \<open>The pointer that the search for the predecessor looks at: the head, or the \<^verbatim>\<open>next\<close> of a structure.\<close>

definition link_at :: "nat option \<Rightarrow> fish \<Rightarrow> nat option option" where
  "link_at l f = (case l of None \<Rightarrow> Some (mp1_list_head f) | Some j \<Rightarrow> map_option bl_next (blink_at j f))"

definition set_link :: "nat option \<Rightarrow> nat option \<Rightarrow> fish \<Rightarrow> fish" where
  "set_link l p f = (case l of None \<Rightarrow> f\<lparr>mp1_list_head := p\<rparr>
     | Some j \<Rightarrow> set_blink j ((blink_array f ! j)\<lparr>bl_next := p\<rparr>) f)"

partial_function (option) remove_find_prev :: "nat \<Rightarrow> nat option \<Rightarrow> fish \<Rightarrow> nat option option" where
  "remove_find_prev i l f = do {
     p \<leftarrow> link_at l f;
     (if p = Some i then Some l
      else (case p of None \<Rightarrow> None | Some j \<Rightarrow> remove_find_prev i (Some j) f)) }"

definition mp1_ioctl_remove :: "u32 \<Rightarrow> fish \<Rightarrow> (int \<times> fish) option" where
  "mp1_ioctl_remove arg f = do {
     r \<leftarrow> mp1_find_helper (ucast arg) (mp1_list_head f) f;
     (case r of
        None \<Rightarrow> Some (- 1, f)
      | Some i \<Rightarrow> do {
          l \<leftarrow> remove_find_prev i None f;
          b \<leftarrow> blink_at i f;
          Some (0, mp1_free i (set_link l (bl_next b) f)) }) }"

text \<open>\<^verbatim>\<open>cmovl\<close> moves when the sign flag differs from the overflow flag, which \<^verbatim>\<open>testb\<close> clears: \<^verbatim>\<open>cl\<close> becomes
  the first character if the byte \<^verbatim>\<open>1 & status\<close> is negative.\<close>

definition mp1_ioctl_sync :: "u32 \<Rightarrow> fish \<Rightarrow> (int \<times> fish) option" where
  "mp1_ioctl_sync arg f = do {
     r \<leftarrow> mp1_find_helper (ucast (drop_bit 16 arg)) (mp1_list_head f) f;
     (case r of
        None \<Rightarrow> Some (- 1, f)
      | Some si \<Rightarrow> do {
          q \<leftarrow> mp1_find_helper (ucast (arg AND 0xFFFF)) (mp1_list_head f) f;
          (case q of
             None \<Rightarrow> Some (- 1, f)
           | Some di \<Rightarrow> do {
               s \<leftarrow> blink_at si f;
               d \<leftarrow> blink_at di f;
               let d = d\<lparr>bl_on_length := bl_on_length s, bl_off_length := bl_off_length s,
                         bl_countdown := bl_countdown s, bl_status := bl_status s\<rparr>;
               let ecx = (if ucast (bl_status d) AND (1 :: u8) <s 0 then bl_on_char d else bl_off_char d);
               f \<leftarrow> mp1_poke (2 * unat (bl_location d)) ecx (set_blink di d f);
               Some (0, f) }) }) }"


section \<open>The dispatcher\<close>

text \<open>\<^verbatim>\<open>mp1_ioctl\<close> jumps through \<^verbatim>\<open>call_table\<close> with the command as the index. Its argument is a structure of the user or a
  number; a search overwrites the structure. What lies behind the table, and a call with the other kind of
  argument, is \<^term>\<open>None\<close>.\<close>

datatype ioctl_arg = Struct blink | Number u32

definition RTC_ADD :: u32 where "RTC_ADD = 0"
definition RTC_REMOVE :: u32 where "RTC_REMOVE = 1"
definition RTC_FIND :: u32 where "RTC_FIND = 2"
definition RTC_SYNC :: u32 where "RTC_SYNC = 3"

lemmas ioctl_defs = RTC_ADD_def RTC_REMOVE_def RTC_FIND_def RTC_SYNC_def

definition call_table :: "(ioctl_arg \<Rightarrow> fish \<Rightarrow> ((int \<times> ioctl_arg) \<times> fish) option) list" where
  "call_table =
     [\<lambda>arg f. case arg of Struct b \<Rightarrow> map_option (\<lambda>(r, f). ((r, arg), f)) (mp1_ioctl_add b f) | Number n \<Rightarrow> None,
      \<lambda>arg f. case arg of Struct b \<Rightarrow> None | Number n \<Rightarrow> map_option (\<lambda>(r, f). ((r, arg), f)) (mp1_ioctl_remove n f),
      \<lambda>arg f. case arg of Struct b \<Rightarrow> map_option (\<lambda>(r, b). ((r, Struct b), f)) (mp1_ioctl_find b f) | Number n \<Rightarrow> None,
      \<lambda>arg f. case arg of Struct b \<Rightarrow> None | Number n \<Rightarrow> map_option (\<lambda>(r, f). ((r, arg), f)) (mp1_ioctl_sync n f)]"

definition mp1_ioctl :: "ioctl_arg \<Rightarrow> u32 \<Rightarrow> fish \<Rightarrow> ((int \<times> ioctl_arg) \<times> fish) option" where
  "mp1_ioctl arg cmd f = (if unat cmd < length call_table then (call_table ! unat cmd) arg f else None)"

lemma mp1_ioctl_dispatch:
  "mp1_ioctl (Struct b) RTC_ADD f = map_option (\<lambda>(r, f). ((r, Struct b), f)) (mp1_ioctl_add b f)"
  "mp1_ioctl (Number n) RTC_REMOVE f = map_option (\<lambda>(r, f). ((r, Number n), f)) (mp1_ioctl_remove n f)"
  "mp1_ioctl (Struct b) RTC_FIND f = map_option (\<lambda>(r, b). ((r, Struct b), f)) (mp1_ioctl_find b f)"
  "mp1_ioctl (Number n) RTC_SYNC f = map_option (\<lambda>(r, f). ((r, Number n), f)) (mp1_ioctl_sync n f)"
  by (simp_all add: mp1_ioctl_def call_table_def ioctl_defs)

text \<open>No call changes the size of the page.\<close>

lemma poke_page: "mp1_poke off c f = Some g \<Longrightarrow> length (vmem g) = length (vmem f)"
  by (auto simp: mp1_poke_def wr_def bind_eq_Some_conv split: if_splits)

lemma tasklet_step_page: "tasklet_step i f = Some (q, g) \<Longrightarrow> length (vmem g) = length (vmem f)"
  by (auto simp: tasklet_step_def bind_eq_Some_conv set_blink_def Let_def dest!: poke_page split: if_splits prod.splits)

lemma tasklet_page: "mp1_rtc_tasklet f = Some g \<Longrightarrow> length (vmem g) = length (vmem f)"
proof -
  have "length (vmem g) = length (vmem f)" if "tasklet_loop p f = Some g" for p f g
  proof (rule tasklet_loop.raw_induct [OF _ that])
    fix loop p f g
    assume ih: "\<And>p f g. loop p f = Some g \<Longrightarrow> length (vmem g) = length (vmem f)"
      and "(case p of None \<Rightarrow> Some f | Some i \<Rightarrow> do { (q, f) \<leftarrow> tasklet_step i f; loop q f }) = Some g"
    then show "length (vmem g) = length (vmem f)"
      by (cases p) (auto simp: bind_eq_Some_conv dest!: tasklet_step_page ih)
  qed
  then show "mp1_rtc_tasklet f = Some g \<Longrightarrow> length (vmem g) = length (vmem f)" by (simp add: mp1_rtc_tasklet_def)
qed

lemma add_page: "mp1_ioctl_add b f = Some (r, g) \<Longrightarrow> length (vmem g) = length (vmem f)"
  by (auto simp: mp1_ioctl_add_def bind_eq_Some_conv set_blink_def Let_def dest!: poke_page split: if_splits option.splits)

lemma sync_page: "mp1_ioctl_sync n f = Some (r, g) \<Longrightarrow> length (vmem g) = length (vmem f)"
  by (auto simp: mp1_ioctl_sync_def bind_eq_Some_conv set_blink_def Let_def dest!: poke_page split: if_splits option.splits)

lemma remove_page: "mp1_ioctl_remove n f = Some (r, g) \<Longrightarrow> length (vmem g) = length (vmem f)"
  by (auto simp: mp1_ioctl_remove_def bind_eq_Some_conv set_blink_def mp1_free_def set_link_def split: if_splits option.splits)


section \<open>The list of blinks\<close>

text \<open>\<^term>\<open>chain h p is\<close>: from the pointer \<^term>\<open>p\<close> the structures \<^term>\<open>is\<close> are linked, up to \<^verbatim>\<open>NULL\<close>.\<close>

primrec chain :: "blink list \<Rightarrow> nat option \<Rightarrow> nat list \<Rightarrow> bool" where
  "chain h p [] = (p = None)"
| "chain h p (i # is) = (p = Some i \<and> i < length h \<and> chain h (bl_next (h ! i)) is)"

lemma chain_inside: "chain h p is \<Longrightarrow> i \<in> set is \<Longrightarrow> i < length h"
  by (induction "is" arbitrary: p) auto

lemma chain_cong:
  assumes "length g = length h" and "\<forall>i \<in> set is. bl_next (g ! i) = bl_next (h ! i)"
  shows "chain g p is = chain h p is"
  using assms(2) by (induction "is" arbitrary: p) (auto simp: assms(1))

lemma chain_update: "j \<notin> set is \<Longrightarrow> chain (h[j := b]) p is = chain h p is"
proof (rule chain_cong)
  assume "j \<notin> set is"
  then have "\<forall>i \<in> set is. j \<noteq> i" by auto
  then show "\<forall>i \<in> set is. bl_next (h[j := b] ! i) = bl_next (h ! i)" by simp
qed simp

text \<open>The structures of the list are in use and have a place on the page, those that are not in it are
  free.\<close>

definition fish_ok :: "nat list \<Rightarrow> fish \<Rightarrow> bool" where
  "fish_ok is f = (length (blink_array f) = 2000 \<and> length (vmem f) = 4000 \<and> chain (blink_array f) (mp1_list_head f) is \<and>
     distinct is \<and> (\<forall>i \<in> set is. 0 < bl_location (blink_array f ! i) \<and> bl_location (blink_array f ! i) < 2000) \<and>
     (\<forall>i < 2000. i \<notin> set is \<longrightarrow> bl_location (blink_array f ! i) = 0))"

text \<open>What the list is about: the structures without their links.\<close>

abbreviation bare :: "blink \<Rightarrow> blink" where
  "bare b \<equiv> b\<lparr>bl_next := None\<rparr>"

definition blinks :: "nat list \<Rightarrow> fish \<Rightarrow> blink list" where
  "blinks is f = map (\<lambda>i. bare (blink_array f ! i)) is"

definition tick_blink :: "blink \<Rightarrow> blink" where
  "tick_blink b = (if 0 <s bl_countdown b - 1 then b\<lparr>bl_countdown := bl_countdown b - 1\<rparr>
     else b\<lparr>bl_countdown := if bl_status b AND 1 \<noteq> 0 then bl_off_length b else bl_on_length b, bl_status := bl_status b XOR 1\<rparr>)"

definition tick_page :: "blink \<Rightarrow> u8 list \<Rightarrow> u8 list" where
  "tick_page b pg = (if 0 <s bl_countdown b - 1 then pg
     else pg[2 * unat (bl_location b) := if bl_status b AND 1 \<noteq> 0 then bl_off_char b else bl_on_char b])"

definition start_blink :: "blink \<Rightarrow> blink" where
  "start_blink b = b\<lparr>bl_status := 1, bl_countdown := bl_on_length b, bl_next := None\<rparr>"

fun remove_first :: "u16 \<Rightarrow> blink list \<Rightarrow> blink list" where
  "remove_first l [] = []"
| "remove_first l (b # bs) = (if bl_location b = l then bs else b # remove_first l bs)"

fun change_first :: "u16 \<Rightarrow> (blink \<Rightarrow> blink) \<Rightarrow> blink list \<Rightarrow> blink list" where
  "change_first l g [] = []"
| "change_first l g (b # bs) = (if bl_location b = l then g b # bs else b # change_first l g bs)"

definition find_blink :: "u16 \<Rightarrow> blink list \<Rightarrow> blink option" where
  "find_blink l bs = find (\<lambda>b. bl_location b = l) bs"

definition copy_rhythm :: "blink \<Rightarrow> blink \<Rightarrow> blink" where
  "copy_rhythm s d = d\<lparr>bl_on_length := bl_on_length s, bl_off_length := bl_off_length s, bl_countdown := bl_countdown s,
     bl_status := bl_status s\<rparr>"

text \<open>The operations on a list of blinks and a page, with the values they return.\<close>

datatype blink_call = Tick | Add blink | Remove u32 | Sync u32

type_synonym blink_spec = "blink list \<times> u8 list"

fun spec_call :: "blink_call \<Rightarrow> blink_spec \<Rightarrow> int \<times> blink_spec" where
  "spec_call Tick (bs, pg) = (0, map tick_blink bs, fold tick_page bs pg)"
| "spec_call (Add b) (bs, pg) =
     (if bl_location b \<ge> 2000 \<or> length bs = 2000 then (- 1, bs, pg)
      else (0, start_blink b # bs, pg[2 * unat (bl_location b) := bl_on_char b]))"
| "spec_call (Remove l) (bs, pg) =
     (if find_blink (ucast l) bs = None then (- 1, bs, pg) else (0, remove_first (ucast l) bs, pg))"
| "spec_call (Sync arg) (bs, pg) =
     (case (find_blink (ucast (drop_bit 16 arg)) bs, find_blink (ucast (arg AND 0xFFFF)) bs) of
        (Some s, Some d) \<Rightarrow> (0, change_first (ucast (arg AND 0xFFFF)) (copy_rhythm s) bs,
          pg[2 * unat (bl_location d) := bl_off_char d])
      | _ \<Rightarrow> (- 1, bs, pg))"

fun run_call :: "blink_call \<Rightarrow> fish \<Rightarrow> (int \<times> fish) option" where
  "run_call Tick f = do { f \<leftarrow> mp1_rtc_tasklet f; Some (0, f) }"
| "run_call (Add b) f = mp1_ioctl_add b f"
| "run_call (Remove l) f = mp1_ioctl_remove l f"
| "run_call (Sync arg) f = mp1_ioctl_sync arg f"

section \<open>The clock keeps the list\<close>

lemma tick_blink_simps [simp]:
  "bl_next (tick_blink b) = bl_next b" "bl_location (tick_blink b) = bl_location b"
  "bare (tick_blink b) = tick_blink (bare b)" "tick_page (bare b) = tick_page b"
  by (simp_all add: tick_blink_def tick_page_def fun_eq_iff)

lemma tasklet_step_result:
  assumes "i < length (blink_array f)" and "bl_location (blink_array f ! i) < 2000" and "length (vmem f) = 4000"
  shows "tasklet_step i f = Some (bl_next (blink_array f ! i), (set_blink i (tick_blink (blink_array f ! i)) f)\<lparr>vmem :=
    tick_page (blink_array f ! i) (vmem f)\<rparr>)"
proof -
  have "unat (bl_location (blink_array f ! i)) < 2000" using assms(2) by (simp add: word_less_nat_alt)
  then show ?thesis using assms(1,3)
    by (simp add: tasklet_step_def blink_at_def mp1_poke_def wr_def Let_def tick_blink_def tick_page_def set_blink_def)
qed

lemma tasklet_loop_result:
  assumes "chain (blink_array f) p is" and "distinct is" and "\<forall>i \<in> set is. bl_location (blink_array f ! i) < 2000"
    and "length (vmem f) = 4000"
  shows "\<exists>g. tasklet_loop p f = Some g \<and> length (blink_array g) = length (blink_array f) \<and> mp1_list_head g = mp1_list_head f \<and>
    (\<forall>i. blink_array g ! i = (if i \<in> set is then tick_blink (blink_array f ! i) else blink_array f ! i)) \<and>
    vmem g = fold tick_page (blinks is f) (vmem f)"
  using assms
proof (induction "is" arbitrary: p f)
  case Nil
  then show ?case by (subst tasklet_loop.simps) (simp add: blinks_def)
next
  case (Cons i "is")
  let ?b = "blink_array f ! i"
  let ?f = "(set_blink i (tick_blink ?b) f)\<lparr>vmem := tick_page ?b (vmem f)\<rparr>"
  have p: "p = Some i" "i < length (blink_array f)" "i \<notin> set is" "chain (blink_array f) (bl_next ?b) is" using Cons.prems by simp_all
  have step: "tasklet_step i f = Some (bl_next ?b, ?f)"
    by (rule tasklet_step_result) (use p Cons.prems in simp_all)
  have a: "blink_array ?f = (blink_array f)[i := tick_blink ?b]" by (simp add: set_blink_def)
  have other: "blink_array ?f ! j = blink_array f ! j" if "j \<in> set is" for j
    using that p(3) by (cases "j = i") (simp_all add: a)
  obtain g where g: "tasklet_loop (bl_next ?b) ?f = Some g" "length (blink_array g) = length (blink_array ?f)"
    "mp1_list_head g = mp1_list_head ?f"
    "\<And>j. blink_array g ! j = (if j \<in> set is then tick_blink (blink_array ?f ! j) else blink_array ?f ! j)"
    "vmem g = fold tick_page (blinks is ?f) (vmem ?f)"
  proof -
    have "chain (blink_array ?f) (bl_next ?b) is" using p(3,4) by (simp add: a chain_update)
    moreover have "\<forall>j \<in> set is. bl_location (blink_array ?f ! j) < 2000" using Cons.prems(3) other by simp
    moreover have "length (vmem ?f) = 4000" using Cons.prems(4) by (simp add: tick_page_def)
    ultimately show thesis using Cons.IH [of ?f "bl_next ?b"] Cons.prems(2) that by auto
  qed
  have "blinks is ?f = blinks is f" using other by (simp add: blinks_def)
  then have "vmem g = fold tick_page (blinks is f) (vmem ?f)" using g(5) by (simp only:)
  then have "vmem g = fold tick_page (blinks (i # is) f) (vmem f)" by (simp add: blinks_def)
  moreover have "blink_array g ! j = (if j \<in> set (i # is) then tick_blink (blink_array f ! j) else blink_array f ! j)" for j
    using g(4) [of j] p(2,3) by (cases "j = i") (auto simp: a)
  moreover have "tasklet_loop p f = Some g" using step g(1) p(1) by (subst tasklet_loop.simps) simp
  ultimately show ?case using g(2,3) by (intro exI [of _ g]) (simp add: set_blink_def)
qed

lemma length_fold_page [simp]: "length (fold tick_page bs pg) = length pg"
  by (induction bs arbitrary: pg) (simp_all add: tick_page_def)

lemma blinks_tick:
  assumes "fish_ok is f"
  shows "\<exists>g. mp1_rtc_tasklet f = Some g \<and> fish_ok is g \<and> blinks is g = map tick_blink (blinks is f) \<and>
    vmem g = fold tick_page (blinks is f) (vmem f)"
proof -
  note ok = assms [unfolded fish_ok_def]
  obtain g where g: "tasklet_loop (mp1_list_head f) f = Some g" "length (blink_array g) = length (blink_array f)"
    "mp1_list_head g = mp1_list_head f"
    "\<And>i. blink_array g ! i = (if i \<in> set is then tick_blink (blink_array f ! i) else blink_array f ! i)"
    "vmem g = fold tick_page (blinks is f) (vmem f)"
    using tasklet_loop_result [of f "mp1_list_head f" "is"] ok by blast
  have "chain (blink_array g) (mp1_list_head g) is"
    using ok g(2-4) by (subst chain_cong [of _ "blink_array f"]) simp_all
  then show ?thesis using ok g by (simp add: mp1_rtc_tasklet_def fish_ok_def blinks_def)
qed

section \<open>Adding and finding\<close>

lemma free_place:
  assumes "fish_ok is f"
  shows "length is \<le> 2000" and "length is = 2000 \<longleftrightarrow> mp1_malloc f = None"
    and "mp1_malloc f = Some i \<Longrightarrow> i < 2000 \<and> i \<notin> set is"
proof -
  note ok = assms [unfolded fish_ok_def]
  have sub: "set is \<subseteq> {..<2000}" using chain_inside [of "blink_array f" "mp1_list_head f" "is"] ok by auto
  have card: "card (set is) = length is" using ok by (simp add: distinct_card)
  then show "length is \<le> 2000" using card_mono [OF _ sub] by simp
  have free: "bl_location (blink_array f ! i) = 0 \<longleftrightarrow> i \<notin> set is" if "i < 2000" for i
    using ok that by auto
  have "mp1_malloc f = None \<longleftrightarrow> {..<2000} \<subseteq> set is"
    using free by (auto simp: mp1_malloc_def find_None_iff)
  also have "\<dots> \<longleftrightarrow> set is = {..<2000}" using sub by blast
  also have "\<dots> \<longleftrightarrow> length is = 2000"
    using card_subset_eq [OF _ sub] card by (metis card_lessThan finite_lessThan)
  finally show "length is = 2000 \<longleftrightarrow> mp1_malloc f = None" by simp
  show "mp1_malloc f = Some i \<Longrightarrow> i < 2000 \<and> i \<notin> set is"
    using free by (auto simp: mp1_malloc_def find_Some_iff)
qed

lemma blinks_other:
  assumes "i \<notin> set is"
  shows "blinks is (f\<lparr>blink_array := (blink_array f)[i := b]\<rparr>) = blinks is f"
proof -
  have "\<forall>j \<in> set is. i \<noteq> j" using assms by auto
  then show ?thesis by (simp add: blinks_def)
qed

lemma blinks_fields [simp]:
  "blinks is (f\<lparr>mp1_list_head := p\<rparr>) = blinks is f" "blinks is (f\<lparr>vmem := v\<rparr>) = blinks is f"
  by (simp_all add: blinks_def)

lemma add_result:
  assumes "fish_ok is f" and "0 < bl_location b"
  shows "\<exists>r g js. mp1_ioctl_add b f = Some (r, g) \<and> fish_ok js g \<and>
    spec_call (Add b) (blinks is f, vmem f) = (r, blinks js g, vmem g)"
proof (cases "bl_location b \<ge> 2000 \<or> length is = 2000")
  case True
  then show ?thesis using assms(1) free_place(2) [OF assms(1)]
    by (intro exI [of _ "- 1 :: int"] exI [of _ f] exI [of _ "is"]) (auto simp: mp1_ioctl_add_def Let_def blinks_def)
next
  case False
  note ok = assms(1) [unfolded fish_ok_def]
  obtain i where i: "mp1_malloc f = Some i" using False free_place(2) [OF assms(1)] by (cases "mp1_malloc f") auto
  then have i2: "i < 2000" "i \<notin> set is" using free_place(3) [OF assms(1)] by simp_all
  have l: "unat (bl_location b) < 2000" using False by (simp add: word_le_nat_alt not_le)
  let ?b = "b\<lparr>bl_status := 1, bl_countdown := bl_on_length b, bl_next := mp1_list_head f\<rparr>"
  let ?g = "f\<lparr>blink_array := (blink_array f)[i := ?b], mp1_list_head := Some i, vmem := (vmem f)[2 * unat (bl_location b) := bl_on_char b]\<rparr>"
  have at: "(blink_array f)[i := ?b] ! j = (if j = i then ?b else blink_array f ! j)" for j
    using i2 ok by (auto simp: nth_list_update)
  have "mp1_ioctl_add b f = Some (0, ?g)"
    using False i l ok by (simp add: mp1_ioctl_add_def mp1_poke_def wr_def set_blink_def Let_def)
  moreover have "fish_ok (i # is) ?g"
    using ok i2 False assms(2) by (auto simp: fish_ok_def at chain_update)
  moreover have "blinks (i # is) ?g = start_blink b # blinks is f"
    using i2 ok by (simp add: blinks_def start_blink_def at)
  ultimately show ?thesis using False
    by (intro exI [of _ "0 :: int"] exI [of _ ?g] exI [of _ "i # is"]) (simp add: blinks_def not_le)
qed

text \<open>The search along the links is the search of the list.\<close>

lemma find_helper_result:
  assumes "chain (blink_array f) p is"
  shows "mp1_find_helper l p f = Some (find (\<lambda>i. bl_location (blink_array f ! i) = l) is)"
  using assms
proof (induction "is" arbitrary: p)
  case Nil
  then show ?case by (subst mp1_find_helper.simps) simp
next
  case (Cons i "is")
  then show ?case by (subst mp1_find_helper.simps) (simp add: blink_at_def)
qed

lemma find_blinks: "find_blink l (blinks is f) = map_option (\<lambda>i. bare (blink_array f ! i)) (find (\<lambda>i. bl_location (blink_array f ! i) = l) is)"
  by (induction "is") (simp_all add: find_blink_def blinks_def)

lemma find_split:
  assumes "find P xs = Some x"
  shows "\<exists>us vs. xs = us @ x # vs \<and> P x \<and> (\<forall>u \<in> set us. \<not> P u)"
  using assms
proof (induction xs)
  case (Cons y xs)
  show ?case
  proof (cases "P y")
    case True
    then have "y # xs = [] @ x # xs \<and> P x" using Cons.prems by simp
    then show ?thesis by fastforce
  next
    case False
    then obtain us vs where "xs = us @ x # vs" "P x" "\<forall>u \<in> set us. \<not> P u" using Cons by auto
    then have "y # xs = (y # us) @ x # vs \<and> P x \<and> (\<forall>u \<in> set (y # us). \<not> P u)" using False by simp
    then show ?thesis by blast
  qed
qed simp

lemma find_place:
  assumes "fish_ok is f" and "find (\<lambda>i. bl_location (blink_array f ! i) = l) is = Some i"
  shows "blink_at i f = Some (blink_array f ! i)" and "i < 2000" and "0 < l" and "l < 2000" and "bl_location (blink_array f ! i) = l"
proof -
  have i: "i \<in> set is" "bl_location (blink_array f ! i) = l" using find_split [OF assms(2)] by auto
  then show "i < 2000" "0 < l" "l < 2000" "bl_location (blink_array f ! i) = l"
    using assms(1) chain_inside [of "blink_array f" "mp1_list_head f" "is" i] by (auto simp: fish_ok_def)
  then show "blink_at i f = Some (blink_array f ! i)" using assms(1) by (simp add: blink_at_def fish_ok_def)
qed

lemma find_result:
  assumes "fish_ok is f"
  shows "mp1_ioctl_find arg f = Some (case find (\<lambda>i. bl_location (blink_array f ! i) = bl_location arg) is of
    None \<Rightarrow> (- 1, arg) | Some i \<Rightarrow> (0, blink_array f ! i))"
proof -
  have c: "chain (blink_array f) (mp1_list_head f) is" using assms by (simp add: fish_ok_def)
  show ?thesis using find_place(1) [OF assms, of "bl_location arg"]
    by (simp add: mp1_ioctl_find_def find_helper_result [OF c] split: option.split)
qed

section \<open>Copying a rhythm\<close>

lemma blinks_changed:
  assumes "is = us @ i # vs" and "distinct is" and "i < length (blink_array f)" and "\<forall>u \<in> set us. bl_location (blink_array f ! u) \<noteq> l"
    and "bl_location (blink_array f ! i) = l" and "bare (h (blink_array f ! i)) = k (bare (blink_array f ! i))"
  shows "blinks is (set_blink i (h (blink_array f ! i)) f) = change_first l k (blinks is f)"
proof -
  have "change_first l k (map (\<lambda>j. bare (blink_array f ! j)) us @ b # bs) = map (\<lambda>j. bare (blink_array f ! j)) us @ k b # bs"
    if "bl_location b = l" for b bs
    using assms(4) that by (induction us) simp_all
  moreover have "\<forall>j \<in> set us \<union> set vs. (blink_array f)[i := b] ! j = blink_array f ! j" for b
    using assms(1,2) by (auto intro!: nth_list_update_neq)
  ultimately show ?thesis using assms(1-3,5,6) by (simp add: blinks_def set_blink_def)
qed

lemma cmovl_never: "\<not> ucast s AND (1 :: u8) <s 0"
proof -
  have "ucast s AND (1 :: u8) = 0 \<or> ucast s AND (1 :: u8) = 1" by (simp add: and_one_eq mod2_eq_if)
  then show ?thesis by (auto simp: word_sless_alt)
qed

lemma fish_ok_set:
  assumes "fish_ok is f" and "i < 2000" and "bl_location b = bl_location (blink_array f ! i)" and "bl_next b = bl_next (blink_array f ! i)"
  shows "fish_ok is ((set_blink i b f)\<lparr>vmem := (vmem f)[k := c]\<rparr>)"
proof -
  note ok = assms(1) [unfolded fish_ok_def]
  have "bl_location ((blink_array f)[i := b] ! j) = bl_location (blink_array f ! j)"
    "bl_next ((blink_array f)[i := b] ! j) = bl_next (blink_array f ! j)" for j
    using assms(2-4) ok by (auto simp: nth_list_update)
  moreover from this have "chain ((blink_array f)[i := b]) (mp1_list_head f) is"
    using ok by (subst chain_cong [of _ "blink_array f"]) simp_all
  ultimately show ?thesis using ok by (simp add: fish_ok_def set_blink_def)
qed

lemma sync_result:
  assumes "fish_ok is f"
  shows "\<exists>r g. mp1_ioctl_sync arg f = Some (r, g) \<and> fish_ok is g \<and>
    spec_call (Sync arg) (blinks is f, vmem f) = (r, blinks is g, vmem g)"
proof -
  let ?s = "ucast (drop_bit 16 arg) :: u16" and ?d = "ucast (arg AND 0xFFFF) :: u16"
  let ?find = "\<lambda>l. find (\<lambda>i. bl_location (blink_array f ! i) = l) is"
  have c: "chain (blink_array f) (mp1_list_head f) is" using assms by (simp add: fish_ok_def)
  note find = find_helper_result [OF c]
  show ?thesis
  proof (cases "?find ?s = None \<or> ?find ?d = None")
    case True
    then have "mp1_ioctl_sync arg f = Some (- 1, f)"
      by (auto simp: mp1_ioctl_sync_def find split: option.split)
    moreover have "spec_call (Sync arg) (blinks is f, vmem f) = (- 1, blinks is f, vmem f)"
      using True by (auto simp: find_blinks split: option.split)
    ultimately show ?thesis using assms by blast
  next
    case False
    then obtain i j where ij: "?find ?s = Some i" "?find ?d = Some j" by auto
    note i = find_place [OF assms ij(1)] and j = find_place [OF assms ij(2)]
    let ?b = "copy_rhythm (blink_array f ! i) (blink_array f ! j)"
    let ?g = "(set_blink j ?b f)\<lparr>vmem := (vmem f)[2 * unat ?d := bl_off_char (blink_array f ! j)]\<rparr>"
    have len: "length (vmem f) = 4000" "length (blink_array f) = 2000" "distinct is" using assms by (simp_all add: fish_ok_def)
    have l: "unat ?d < 2000" using j(4) by (simp add: word_less_nat_alt)
    have run: "mp1_ioctl_sync arg f = Some (0, ?g)"
      using ij i(1) j(1,5) l len
      by (simp add: mp1_ioctl_sync_def find mp1_poke_def wr_def Let_def set_blink_def copy_rhythm_def cmovl_never)
    obtain us vs where us: "is = us @ j # vs" "\<forall>u \<in> set us. bl_location (blink_array f ! u) \<noteq> ?d"
      using find_split [OF ij(2)] by blast
    have "blinks is ?g = change_first ?d (copy_rhythm (bare (blink_array f ! i))) (blinks is f)"
      using blinks_changed [OF us(1) len(3) _ us(2) j(5), of "copy_rhythm (blink_array f ! i)" "copy_rhythm (bare (blink_array f ! i))"]
        j(2) len(2) by (simp add: copy_rhythm_def)
    moreover have "fish_ok is ?g" by (rule fish_ok_set [OF assms j(2)]) (simp_all add: copy_rhythm_def)
    ultimately show ?thesis using run ij j(5) by (simp add: find_blinks)
  qed
qed

section \<open>Removing\<close>

lemma remove_find_prev_result:
  assumes "link_at l f = Some p" and "chain (blink_array f) p (us @ i # vs)" and "i \<notin> set us"
  shows "remove_find_prev i l f = Some (if us = [] then l else Some (last us))"
  using assms
proof (induction us arbitrary: l p)
  case Nil
  then show ?case by (subst remove_find_prev.simps) simp
next
  case (Cons u us)
  then have "remove_find_prev i (Some u) f = Some (if us = [] then Some u else Some (last us))"
    by (intro Cons.IH [of _ "bl_next (blink_array f ! u)"]) (simp_all add: link_at_def blink_at_def)
  then show ?case using Cons.prems by (subst remove_find_prev.simps) auto
qed

lemma chain_unlink:
  assumes "chain h p (us @ u # i # vs)" and "distinct (us @ u # i # vs)"
  shows "chain (h[u := (h ! u)\<lparr>bl_next := bl_next (h ! i)\<rparr>]) p (us @ u # vs)"
  using assms
proof (induction us arbitrary: p)
  case Nil
  then show ?case by (simp add: chain_update)
next
  case (Cons w us)
  then show ?case by (auto simp: nth_list_update)
qed

text \<open>The list without the structure that the search found.\<close>

lemma unlink_result:
  assumes ok: "fish_ok (us @ i # vs) f" and l: "l = (if us = [] then None else Some (last us))"
  shows "\<exists>g. mp1_free i (set_link l (bl_next (blink_array f ! i)) f) = g \<and> fish_ok (us @ vs) g \<and>
    blinks (us @ vs) g = blinks us f @ blinks vs f \<and> vmem g = vmem f"
proof -
  note f = ok [unfolded fish_ok_def]
  let ?h = "blink_array f" and ?g = "mp1_free i (set_link l (bl_next (blink_array f ! i)) f)"
  define h where "h = blink_array (set_link l (bl_next (?h ! i)) f)"
  have i: "i < 2000" using f chain_inside [of ?h "mp1_list_head f" "us @ i # vs" i] by simp
  have same: "bl_location (h ! j) = bl_location (?h ! j)" "bare (h ! j) = bare (?h ! j)" for j
    using f chain_inside [of ?h "mp1_list_head f" "us @ i # vs" "last us"]
    unfolding h_def l by (auto simp: set_link_def set_blink_def nth_list_update)
  have len: "length h = 2000" using f by (auto simp: h_def set_link_def set_blink_def split: option.split)
  have chain: "chain h (mp1_list_head ?g) (us @ vs)"
  proof (cases us rule: rev_cases)
    case Nil
    then show ?thesis using f by (simp add: h_def l set_link_def mp1_free_def set_blink_def)
  next
    case (snoc ws u)
    then have h: "h = ?h[u := (?h ! u)\<lparr>bl_next := bl_next (?h ! i)\<rparr>]" by (simp add: h_def l set_link_def set_blink_def)
    have "mp1_list_head ?g = mp1_list_head f" using snoc by (simp add: l set_link_def mp1_free_def set_blink_def)
    then show ?thesis using chain_unlink [of ?h "mp1_list_head f" ws u i vs] f snoc by (simp add: h)
  qed
  have g: "blink_array ?g = h[i := zero_blink]" "vmem ?g = vmem f"
    by (auto simp: h_def mp1_free_def set_blink_def set_link_def split: option.split)
  have i': "i \<notin> set (us @ vs)" using f by simp
  then have other: "h[i := zero_blink] ! j = h ! j" if "j \<in> set (us @ vs)" for j using that by (intro nth_list_update_neq) auto
  have "blinks (us @ vs) ?g = blinks us f @ blinks vs f"
    using other same(2) by (simp add: blinks_def g(1))
  moreover have "fish_ok (us @ vs) ?g"
    unfolding fish_ok_def g
  proof (intro conjI ballI allI impI)
    show "chain (h[i := zero_blink]) (mp1_list_head ?g) (us @ vs)" using chain chain_update [OF i'] by simp
    show "distinct (us @ vs)" using f by simp
    fix j assume "j \<in> set (us @ vs)"
    then show "0 < bl_location (h[i := zero_blink] ! j)" "bl_location (h[i := zero_blink] ! j) < 2000"
      using f other [of j] by (auto simp: same(1))
  next
    fix j :: nat assume "j < 2000" "j \<notin> set (us @ vs)"
    then show "bl_location (h[i := zero_blink] ! j) = 0"
      using f len by (cases "j = i") (simp_all add: same(1) zero_blink_def)
  qed (use f len in simp_all)
  ultimately show ?thesis using g(2) by blast
qed

lemma remove_first_split:
  assumes "\<forall>u \<in> set us. bl_location u \<noteq> l" and "bl_location b = l"
  shows "remove_first l (us @ b # bs) = us @ bs"
  using assms by (induction us) simp_all

lemma remove_result:
  assumes ok: "fish_ok is f"
  shows "\<exists>r g js. mp1_ioctl_remove arg f = Some (r, g) \<and> fish_ok js g \<and>
    spec_call (Remove arg) (blinks is f, vmem f) = (r, blinks js g, vmem g)"
proof -
  let ?l = "ucast arg :: u16"
  have c: "chain (blink_array f) (mp1_list_head f) is" using ok by (simp add: fish_ok_def)
  show ?thesis
  proof (cases "find (\<lambda>i. bl_location (blink_array f ! i) = ?l) is")
    case None
    then show ?thesis using ok
      by (intro exI [of _ "- 1 :: int"] exI [of _ f] exI [of _ "is"])
        (simp add: mp1_ioctl_remove_def find_helper_result [OF c] find_blinks)
  next
    case (Some i)
    obtain us vs where us: "is = us @ i # vs" "bl_location (blink_array f ! i) = ?l" "\<forall>u \<in> set us. bl_location (blink_array f ! u) \<noteq> ?l"
      using find_split [OF Some] by blast
    have "i \<notin> set us" using ok us(1) by (simp add: fish_ok_def)
    then have prev: "remove_find_prev i None f = Some (if us = [] then None else Some (last us))"
      by (intro remove_find_prev_result [where vs = vs]) (use c us(1) in \<open>simp_all add: link_at_def\<close>)
    obtain g where g: "mp1_free i (set_link (if us = [] then None else Some (last us)) (bl_next (blink_array f ! i)) f) = g"
      "fish_ok (us @ vs) g" "blinks (us @ vs) g = blinks us f @ blinks vs f" "vmem g = vmem f"
      using unlink_result [OF ok [unfolded us(1)] refl] by blast
    have "mp1_ioctl_remove arg f = Some (0, g)"
      using Some prev g(1) find_place(1) [OF ok Some] by (simp add: mp1_ioctl_remove_def find_helper_result [OF c])
    moreover have "remove_first ?l (blinks is f) = blinks us f @ blinks vs f"
      using remove_first_split [of "blinks us f" ?l "bare (blink_array f ! i)" "blinks vs f"] us by (simp add: blinks_def)
    ultimately show ?thesis using g(2-4) Some
      by (intro exI [of _ "0 :: int"] exI [of _ g] exI [of _ "us @ vs"]) (simp add: find_blinks)
  qed
qed

section \<open>The operations implement the list of blinks\<close>

lemma call_result:
  assumes "fish_ok is f" and "\<forall>b. c = Add b \<longrightarrow> 0 < bl_location b"
  shows "\<exists>r g js. run_call c f = Some (r, g) \<and> fish_ok js g \<and> spec_call c (blinks is f, vmem f) = (r, blinks js g, vmem g)"
proof (cases c)
  case Tick
  then show ?thesis using blinks_tick [OF assms(1)] by fastforce
next
  case (Add b)
  then show ?thesis using add_result [OF assms(1), of b] assms(2) by simp
next
  case (Remove l)
  then show ?thesis using remove_result [OF assms(1), of l] by simp
next
  case (Sync l)
  then show ?thesis using sync_result [OF assms(1), of l] by auto
qed

text \<open>A sequence of calls, with the values they return.\<close>

fun run_calls :: "blink_call list \<Rightarrow> fish \<Rightarrow> (int list \<times> fish) option" where
  "run_calls [] f = Some ([], f)"
| "run_calls (c # cs) f = do { (r, f) \<leftarrow> run_call c f; (rs, f) \<leftarrow> run_calls cs f; Some (r # rs, f) }"

fun spec_calls :: "blink_call list \<Rightarrow> blink_spec \<Rightarrow> int list \<times> blink_spec" where
  "spec_calls [] v = ([], v)"
| "spec_calls (c # cs) v = (let (r, v) = spec_call c v; (rs, v) = spec_calls cs v in (r # rs, v))"

lemma calls_result:
  assumes "fish_ok is f" and "\<forall>b. Add b \<in> set cs \<longrightarrow> 0 < bl_location b"
  shows "\<exists>rs g js. run_calls cs f = Some (rs, g) \<and> fish_ok js g \<and> spec_calls cs (blinks is f, vmem f) = (rs, blinks js g, vmem g)"
  using assms
proof (induction cs arbitrary: "is" f)
  case (Cons c cs)
  obtain r g js where g: "run_call c f = Some (r, g)" "fish_ok js g" "spec_call c (blinks is f, vmem f) = (r, blinks js g, vmem g)"
    using call_result [OF Cons.prems(1), of c] Cons.prems(2) by auto
  obtain rs u ks where u: "run_calls cs g = Some (rs, u)" "fish_ok ks u" "spec_calls cs (blinks js g, vmem g) = (rs, blinks ks u, vmem u)"
    using Cons.IH [OF g(2)] Cons.prems(2) by auto
  show ?case by (intro exI [of _ "r # rs"] exI [of _ u] exI [of _ ks]) (simp add: g u)
qed auto

text \<open>The state that \<^verbatim>\<open>fish\<close> starts with: the array cleared, no list.\<close>

definition fish_start :: "u8 list \<Rightarrow> fish" where
  "fish_start pg = \<lparr>blink_array = replicate 2000 zero_blink, mp1_list_head = None, vmem = pg\<rparr>"

lemma fish_start_ok: "length pg = 4000 \<Longrightarrow> fish_ok [] (fish_start pg)"
  by (simp add: fish_ok_def fish_start_def zero_blink_def)

text \<open>C14. The linked structures implement a list of blinks: whatever ticks and calls to add, remove and
  synchronise are made from the start of \<^verbatim>\<open>fish\<close> on, with no blink at location 0, all of them return, with
  the results of the list, and the page shows what the list shows. A call that finds no free structure, no such
  location or a location outside the page returns -1 and changes nothing.\<close>

theorem blinks_refine_list:
  assumes "length pg = 4000" and "\<forall>b. Add b \<in> set cs \<longrightarrow> 0 < bl_location b"
  shows "\<exists>rs g js. run_calls cs (fish_start pg) = Some (rs, g) \<and> fish_ok js g \<and>
    spec_calls cs ([], pg) = (rs, blinks js g, vmem g)"
  using calls_result [OF fish_start_ok [OF assms(1)] assms(2)] by (simp add: blinks_def fish_start_def)

definition demo_blink :: blink where
  "demo_blink = \<lparr>bl_location = 540, bl_on_char = 73, bl_off_char = 77, bl_on_length = 1, bl_off_length = 6, bl_countdown = 0,
     bl_status = 0, bl_next = None\<rparr>"

theorem blinks_refine_list_witness:
  "\<exists>g js. run_calls [Add demo_blink, Tick, Remove 540, Remove 540] (fish_start (replicate 4000 32)) = Some ([0, 0, 0, - 1], g) \<and>
     fish_ok js g \<and> blinks js g = [] \<and> vmem g = (replicate 4000 32)[1080 := 77]"
proof -
  let ?cs = "[Add demo_blink, Tick, Remove 540, Remove 540]" and ?pg = "replicate 4000 32 :: u8 list"
  have spec: "spec_calls ?cs ([], ?pg) = ([0, 0, 0, - 1], [], ?pg[1080 := 77])"
    by (simp add: demo_blink_def start_blink_def tick_blink_def tick_page_def find_blink_def word_sless_alt)
  have "\<forall>b. Add b \<in> set ?cs \<longrightarrow> 0 < bl_location b" by (simp add: demo_blink_def)
  from blinks_refine_list [OF _ this, of ?pg] obtain rs g js where "run_calls ?cs (fish_start ?pg) = Some (rs, g)"
    "fish_ok js g" "spec_calls ?cs ([], ?pg) = (rs, blinks js g, vmem g)"
    by (simp del: run_calls.simps spec_calls.simps) blast
  then show ?thesis unfolding spec by (intro exI [of _ g] exI [of _ js]) simp
qed


section \<open>The rhythm of a blink\<close>

lemma countdown_positive: "n < 2 ^ 15 \<Longrightarrow> (0 :: u16) <s of_nat n \<longleftrightarrow> 0 < n"
proof -
  assume n: "n < 2 ^ 15"
  then have u: "unat (of_nat n :: u16) = n" by (simp add: unsigned_of_nat take_bit_nat_eq_self)
  then have "sint (of_nat n :: u16) = int n"
    using n by (simp add: sint_uint signed_take_bit_int_eq_self_iff uint_nat)
  then show ?thesis by (simp add: word_sless_alt)
qed

text \<open>The state of a blink \<^term>\<open>k\<close> ticks after it was started.\<close>

definition in_rhythm :: "blink \<Rightarrow> nat \<Rightarrow> blink" where
  "in_rhythm b k = (let n = unat (bl_on_length b); m = unat (bl_off_length b); r = k mod (n + m) in
     (start_blink b)\<lparr>bl_countdown := of_nat (if r < n then n - r else n + m - r), bl_status := (if r < n then 1 else 0)\<rparr>)"

definition shown_char :: "blink \<Rightarrow> nat \<Rightarrow> u8" where
  "shown_char b k = (if k mod (unat (bl_on_length b) + unat (bl_off_length b)) < unat (bl_on_length b)
     then bl_on_char b else bl_off_char b)"

lemma in_rhythm_0: "0 < unat (bl_on_length b) \<Longrightarrow> in_rhythm b 0 = start_blink b"
  by (simp add: in_rhythm_def start_blink_def Let_def)

lemma rhythm_tick:
  assumes n: "0 < unat (bl_on_length b)" "unat (bl_on_length b) < 2 ^ 15" and m: "0 < unat (bl_off_length b)" "unat (bl_off_length b) < 2 ^ 15"
    and l: "2 * unat (bl_location b) < length pg" and pg: "pg ! (2 * unat (bl_location b)) = shown_char b k"
  shows "tick_blink (in_rhythm b k) = in_rhythm b (Suc k)"
    and "tick_page (in_rhythm b k) pg ! (2 * unat (bl_location b)) = shown_char b (Suc k)"
proof -
  let ?n = "unat (bl_on_length b)" and ?m = "unat (bl_off_length b)"
  define r where "r = k mod (?n + ?m)"
  have r: "r < ?n + ?m" using n(1) by (simp add: r_def)
  have sr: "Suc k mod (?n + ?m) = (if r + 1 = ?n + ?m then 0 else r + 1)" by (simp add: r_def mod_Suc)
  define c where "c = (if r < ?n then ?n - r else ?n + ?m - r)"
  have c: "0 < c" "c < 2 ^ 15" using r n(2) m(2) by (auto simp: c_def)
  have "of_nat c - 1 = (of_nat (c - 1) :: u16)" using c(1) by (simp add: of_nat_diff)
  then have pos: "(0 :: u16) <s of_nat c - 1 \<longleftrightarrow> 1 < c" using countdown_positive [of "c - 1"] c by simp
  have b: "in_rhythm b k = (start_blink b)\<lparr>bl_countdown := of_nat c, bl_status := (if r < ?n then 1 else 0)\<rparr>"
    by (simp add: in_rhythm_def Let_def r_def c_def)
  have next_c: "1 < c \<longleftrightarrow> (r + 1 \<noteq> ?n \<and> r + 1 \<noteq> ?n + ?m)" using r by (auto simp: c_def)
  show "tick_blink (in_rhythm b k) = in_rhythm b (Suc k)"
  proof (cases "1 < c")
    case True
    then have "of_nat c - 1 = (of_nat (if r + 1 < ?n then ?n - (r + 1) else ?n + ?m - (r + 1)) :: u16)"
      using \<open>of_nat c - 1 = (of_nat (c - 1) :: u16)\<close> next_c by (auto simp: c_def)
    then show ?thesis using True next_c pos unfolding b
      by (simp add: tick_blink_def in_rhythm_def Let_def sr start_blink_def)
  next
    case False
    then consider "r + 1 = ?n" | "r + 1 = ?n + ?m" using next_c by blast
    then show ?thesis
    proof cases
      case 1
      then have "r < ?n" "Suc k mod (?n + ?m) = ?n" using sr m(1) by simp_all
      then show ?thesis using False pos unfolding b
        by (simp add: tick_blink_def in_rhythm_def Let_def start_blink_def)
    next
      case 2
      then have "\<not> r < ?n" "Suc k mod (?n + ?m) = 0" using sr m(1) by simp_all
      then show ?thesis using False pos n(1) unfolding b
        by (simp add: tick_blink_def in_rhythm_def Let_def start_blink_def)
    qed
  qed
  show "tick_page (in_rhythm b k) pg ! (2 * unat (bl_location b)) = shown_char b (Suc k)"
  proof (cases "1 < c")
    case True
    then have "shown_char b (Suc k) = shown_char b k" using next_c by (auto simp: shown_char_def sr r_def [symmetric])
    then show ?thesis using True pos pg unfolding b by (simp add: tick_page_def)
  next
    case False
    then have "r + 1 = ?n \<or> r + 1 = ?n + ?m" using next_c by simp
    then show ?thesis using False pos l n(1) m(1) unfolding b
      by (auto simp: tick_page_def shown_char_def sr start_blink_def)
  qed
qed

lemma other_ticks:
  assumes "\<forall>b \<in> set bs. bl_location b \<noteq> l"
  shows "fold tick_page bs pg ! (2 * unat l) = pg ! (2 * unat l)"
  using assms
proof (induction bs arbitrary: pg)
  case (Cons b bs)
  then have "2 * unat l \<noteq> 2 * unat (bl_location b)" by (auto simp: word_unat_eq_iff)
  then have "tick_page b pg ! (2 * unat l) = pg ! (2 * unat l)" by (simp add: tick_page_def)
  then show ?case using Cons by simp
qed simp

text \<open>C28. Every blink keeps its own rhythm, whatever else blinks elsewhere: after it has been added, with lengths
  between 1 and 32767, the clock can tick any number of times, and the character at its location is the first
  one for as many ticks as the first length says, then the other one, and so on for ever.\<close>

theorem blink_keeps_rhythm:
  assumes ok: "fish_ok is f" and room: "length is < 2000" and l: "0 < bl_location b" "bl_location b < 2000"
    and alone: "\<forall>c \<in> set (blinks is f). bl_location c \<noteq> bl_location b"
    and n: "0 < unat (bl_on_length b)" "unat (bl_on_length b) < 2 ^ 15" and m: "0 < unat (bl_off_length b)" "unat (bl_off_length b) < 2 ^ 15"
  shows "\<exists>g h. mp1_ioctl_add b f = Some (0, g) \<and> fold_opt (\<lambda>_. mp1_rtc_tasklet) [0..<k] g = Some h \<and>
    vmem h ! (2 * unat (bl_location b)) =
      (if k mod (unat (bl_on_length b) + unat (bl_off_length b)) < unat (bl_on_length b) then bl_on_char b else bl_off_char b)"
proof -
  let ?at = "2 * unat (bl_location b)"
  have at: "?at < 4000" using l(2) by (simp add: word_less_nat_alt)
  have spec: "spec_call (Add b) (blinks is f, vmem f) = (0, start_blink b # blinks is f, (vmem f)[?at := bl_on_char b])"
    using room l(2) by (simp add: blinks_def not_le)
  obtain g js where g: "mp1_ioctl_add b f = Some (0, g)" "fish_ok js g" "blinks js g = start_blink b # blinks is f"
    "vmem g = (vmem f)[?at := bl_on_char b]"
    using add_result [OF ok l(1)] spec by (auto simp del: spec_call.simps)
  have "\<exists>h. fold_opt (\<lambda>_. mp1_rtc_tasklet) [0..<k] g = Some h \<and> fish_ok js h \<and> vmem h ! ?at = shown_char b k \<and>
    (\<exists>bs. blinks js h = in_rhythm b k # bs \<and> (\<forall>c \<in> set bs. bl_location c \<noteq> bl_location b))"
  proof (induction k)
    case 0
    have "length (vmem f) = 4000" using ok by (simp add: fish_ok_def)
    then show ?case using g at alone n(1) by (simp add: in_rhythm_0 shown_char_def)
  next
    case (Suc k)
    then obtain h bs where h: "fold_opt (\<lambda>_. mp1_rtc_tasklet) [0..<k] g = Some h" "fish_ok js h" "vmem h ! ?at = shown_char b k"
      "blinks js h = in_rhythm b k # bs" "\<forall>c \<in> set bs. bl_location c \<noteq> bl_location b" by blast
    obtain u where u: "mp1_rtc_tasklet h = Some u" "fish_ok js u" "blinks js u = map tick_blink (in_rhythm b k # bs)"
      "vmem u = fold tick_page (in_rhythm b k # bs) (vmem h)"
      using blinks_tick [OF h(2)] h(4) by auto
    have len: "?at < length (vmem h)" using h(2) at by (simp add: fish_ok_def)
    note t = rhythm_tick [OF n m len h(3)]
    have "vmem u ! ?at = shown_char b (Suc k)" using u(4) t(2) other_ticks [OF h(5)] by simp
    then show ?case using h(1,5) u(1-3) t(1) by (intro exI [of _ u]) (simp add: fold_opt_append)
  qed
  then show ?thesis using g(1) by (auto simp: shown_char_def)
qed

theorem blink_keeps_rhythm_witness:
  "\<exists>g h. mp1_ioctl_add demo_blink (fish_start (replicate 4000 32)) = Some (0, g) \<and>
     fold_opt (\<lambda>_. mp1_rtc_tasklet) [0..<14] g = Some h \<and> vmem h ! 1080 = 73"
proof -
  have ok: "fish_ok [] (fish_start (replicate 4000 32))" by (rule fish_start_ok) simp
  show ?thesis using blink_keeps_rhythm [OF ok, of demo_blink 14] by (simp add: demo_blink_def blinks_def del: upt_rec_numeral)
qed

section \<open>A blink at location 0\<close>

text \<open>A structure that is linked to itself keeps the clock's loop for ever.\<close>

lemma tasklet_circle:
  assumes "tasklet_loop p f = Some g"
  shows "\<not> (p = Some i \<and> i < length (blink_array f) \<and> bl_next (blink_array f ! i) = Some i)"
proof (rule tasklet_loop.raw_induct [OF _ assms], goal_cases)
  case (1 tl p f g)
  show ?case
  proof
    assume a: "p = Some i \<and> i < length (blink_array f) \<and> bl_next (blink_array f ! i) = Some i"
    then obtain q h where q: "tasklet_step i f = Some (q, h)" "tl q h = Some g"
      using 1(2) by (auto simp: bind_eq_Some_conv)
    have "q = Some i \<and> length (blink_array h) = length (blink_array f) \<and> bl_next (blink_array h ! i) = Some i"
      using q(1) a by (auto simp: tasklet_step_def blink_at_def mp1_poke_def set_blink_def Let_def bind_eq_Some_conv split: if_splits)
    then show False using 1(1) [OF q(2)] a by simp
  qed
qed

text \<open>C34. A blink at location 0, which the check of \<^verbatim>\<open>mp1_ioctl_add\<close> admits, destroys the list: its structure
  counts as free, so the next one that is added takes its place and is linked to itself, and from then on
  the clock never returns.\<close>

theorem location_zero_hangs_clock:
  assumes "length pg = 4000" and "bl_location a = 0" and "bl_location b < 2000"
  shows "\<exists>f g. mp1_ioctl_add a (fish_start pg) = Some (0, f) \<and> mp1_ioctl_add b f = Some (0, g) \<and>
    mp1_list_head g = Some 0 \<and> bl_next (blink_array g ! 0) = Some 0 \<and> mp1_rtc_tasklet g = None"
proof -
  have first: "mp1_malloc f = Some 0" if "bl_location (blink_array f ! 0) = 0" for f
  proof -
    have "[0..<80 * 25 :: nat] = 0 # [1..<80 * 25]" by (subst upt_conv_Cons) simp_all
    then show ?thesis using that by (simp add: mp1_malloc_def del: upt_rec_numeral)
  qed
  let ?start = "fish_start pg"
  let ?a = "a\<lparr>bl_status := 1, bl_countdown := bl_on_length a, bl_next := None\<rparr>"
  let ?b = "b\<lparr>bl_status := 1, bl_countdown := bl_on_length b, bl_next := Some 0\<rparr>"
  let ?f = "\<lparr>blink_array = (replicate 2000 zero_blink)[0 := ?a], mp1_list_head = Some 0, vmem = pg[0 := bl_on_char a]\<rparr>"
  let ?g = "\<lparr>blink_array = (replicate 2000 zero_blink)[0 := ?b], mp1_list_head = Some 0,
    vmem = (pg[0 := bl_on_char a])[2 * unat (bl_location b) := bl_on_char b]\<rparr>"
  have l: "unat (bl_location b) < 2000" using assms(3) by (simp add: word_less_nat_alt)
  have "mp1_malloc ?start = Some 0" "mp1_malloc ?f = Some 0"
    by (rule first; simp add: fish_start_def zero_blink_def assms(2))+
  note free = this
  have "mp1_ioctl_add a ?start = Some (0, ?f)"
    using assms(1) free(1) by (simp add: mp1_ioctl_add_def mp1_poke_def wr_def set_blink_def Let_def assms(2) fish_start_def)
  moreover have "mp1_ioctl_add b ?f = Some (0, ?g)"
    using assms(1,3) l free(2) by (simp add: mp1_ioctl_add_def mp1_poke_def wr_def set_blink_def Let_def not_le)
  moreover have "mp1_rtc_tasklet ?g = None"
  proof (cases "mp1_rtc_tasklet ?g")
    case (Some h)
    then show ?thesis using tasklet_circle [of "Some 0" ?g h 0] by (simp add: mp1_rtc_tasklet_def)
  qed
  ultimately show ?thesis by (intro exI [of _ ?f] exI [of _ ?g]) simp
qed

theorem location_zero_hangs_clock_witness:
  "\<exists>f g. mp1_ioctl_add (demo_blink\<lparr>bl_location := 0\<rparr>) (fish_start (replicate 4000 32)) = Some (0, f) \<and>
     mp1_ioctl_add demo_blink f = Some (0, g) \<and> mp1_rtc_tasklet g = None"
  using location_zero_hangs_clock [of "replicate 4000 32" "demo_blink\<lparr>bl_location := 0\<rparr>" demo_blink]
  by (auto simp: demo_blink_def)

end
