(* ===== verification/Fish.thy ===== *)
theory Fish
  imports Blink
begin

text \<open>
  The program \<^verbatim>\<open>fish\<close>: it reads two pictures side by side, adds a blink for each place where one of them has
  a character, and lets the clock run. Below it the two pictures as rows, and the blinks that their
  places give.
\<close>

unbundle bit_operations_syntax

section \<open>Filling and copying memory\<close>

definition ece391_memset :: "u8 list \<Rightarrow> nat \<Rightarrow> u8 \<Rightarrow> nat \<Rightarrow> u8 list option" where
  "ece391_memset m d c n = for_range 0 n (\<lambda>i m. wr m (d + i) c) m"

text \<open>Source and destination are different arrays.\<close>

definition ece391_memcpy :: "u8 list \<Rightarrow> nat \<Rightarrow> u8 list \<Rightarrow> nat \<Rightarrow> nat \<Rightarrow> u8 list option" where
  "ece391_memcpy m d src s n = for_range 0 n (\<lambda>i m. do { c \<leftarrow> rd src (s + i); wr m (d + i) c }) m"

section \<open>The text page of the program\<close>

text \<open>
  The page that \<^verbatim>\<open>vidmap\<close> gives is memory of the world, behind the address \<^verbatim>\<open>vmem_base_addr\<close>: the calls of the
  program and the kernel see the same bytes. \<^term>\<open>sys_vidmap vid v w\<close> makes the call with a variable that holds
  \<^term>\<open>v\<close> and gives back what it holds then. A call to the blinks works on the page as it is in the
  world and leaves it there.
\<close>

record 'w video =
  sys_vidmap :: "u32 \<Rightarrow> 'w \<Rightarrow> (int \<times> u32 \<times> 'w) option"
  load_page :: "u32 \<Rightarrow> 'w \<Rightarrow> u8 list option"
  store_page :: "u32 \<Rightarrow> u8 list \<Rightarrow> 'w \<Rightarrow> 'w option"

definition on_page :: "'w video \<Rightarrow> u32 \<Rightarrow> (fish \<Rightarrow> ('r \<times> fish) option) \<Rightarrow> fish \<Rightarrow> 'w \<Rightarrow> ('r \<times> fish \<times> 'w) option" where
  "on_page vid base op f w = do {
     pg \<leftarrow> load_page vid base w;
     (r, f) \<leftarrow> op (f\<lparr>vmem := pg\<rparr>);
     w \<leftarrow> store_page vid base (vmem f) w;
     Some (r, f, w) }"

section \<open>The pictures\<close>

text \<open>The next character of a picture, which stays at the newline; \<^verbatim>\<open>c\<close> is the byte the read fills.\<close>

definition next_char :: "'w sys \<Rightarrow> int \<Rightarrow> u8 \<Rightarrow> bool \<Rightarrow> 'w \<Rightarrow> (u8 \<times> bool \<times> 'w) option" where
  "next_char sys fd c eof w =
     (if c \<noteq> 10 then do {
        (num_bytes, b, w) \<leftarrow> sys_read sys fd [c] 1 w;
        c \<leftarrow> rd b 0;
        (if num_bytes = 0 then Some (10, True, w) else Some (c, eof, w)) }
      else Some (c, eof, w))"

text \<open>\<^verbatim>\<open>blink_struct\<close> with the lengths and the location set; the rest of it is what the stack held.\<close>

definition frame_blink :: "blink \<Rightarrow> nat \<Rightarrow> nat \<Rightarrow> u8 \<Rightarrow> u8 \<Rightarrow> blink" where
  "frame_blink junk row col c0 c1 = junk\<lparr>bl_on_length := 15, bl_off_length := 15,
     bl_on_char := (if c0 = 10 then 32 else c0), bl_off_char := (if c1 = 10 then 32 else c1),
     bl_location := of_nat (row * 80 + col + 40)\<rparr>"

definition add_cell :: "'w video \<Rightarrow> u32 \<Rightarrow> blink \<Rightarrow> nat \<Rightarrow> nat \<Rightarrow> u8 \<Rightarrow> u8 \<Rightarrow> fish \<Rightarrow> 'w \<Rightarrow> (fish \<times> 'w) option" where
  "add_cell vid base junk row col c0 c1 f w =
     (if c0 \<noteq> 32 \<and> c0 \<noteq> 10 \<or> c1 \<noteq> 32 \<and> c1 \<noteq> 10 then do {
        (_, f, w) \<leftarrow> on_page vid base (mp1_ioctl (Struct (frame_blink junk row col c0 c1)) RTC_ADD) f w;
        Some (f, w) }
      else Some (f, w))"

text \<open>The columns of a row, and the rows.\<close>

partial_function (option) cols_loop ::
  "'w sys \<Rightarrow> 'w video \<Rightarrow> u32 \<Rightarrow> blink \<Rightarrow> int \<Rightarrow> int \<Rightarrow> nat \<Rightarrow> nat \<Rightarrow> u8 \<Rightarrow> u8 \<Rightarrow> bool \<Rightarrow> bool \<Rightarrow> fish \<Rightarrow> 'w \<Rightarrow> (bool \<times> bool \<times> fish \<times> 'w) option" where
  "cols_loop sys vid base junk fd0 fd1 row col c0 c1 eof0 eof1 f w = do {
     (c0, eof0, w) \<leftarrow> next_char sys fd0 c0 eof0 w;
     (c1, eof1, w) \<leftarrow> next_char sys fd1 c1 eof1 w;
     (if c0 = 10 \<and> c1 = 10 then Some (eof0, eof1, f, w)
      else do {
        (f, w) \<leftarrow> add_cell vid base junk row col c0 c1 f w;
        cols_loop sys vid base junk fd0 fd1 row (col + 1) c0 c1 eof0 eof1 f w }) }"

definition end_of_row :: "'w sys \<Rightarrow> int \<Rightarrow> bool \<Rightarrow> 'w \<Rightarrow> (u8 \<times> 'w) option" where
  "end_of_row sys fd eof w =
     (if eof then do { (_, w) \<leftarrow> sys_close sys fd w; Some (10, w) } else Some (chr CHR ''0'', w))"

partial_function (option) rows_loop ::
  "'w sys \<Rightarrow> 'w video \<Rightarrow> u32 \<Rightarrow> blink \<Rightarrow> int \<Rightarrow> int \<Rightarrow> nat \<Rightarrow> u8 \<Rightarrow> u8 \<Rightarrow> bool \<Rightarrow> bool \<Rightarrow> fish \<Rightarrow> 'w \<Rightarrow> (fish \<times> 'w) option" where
  "rows_loop sys vid base junk fd0 fd1 row c0 c1 eof0 eof1 f w =
     (if \<not> eof0 \<or> \<not> eof1 then do {
        (eof0, eof1, f, w) \<leftarrow> cols_loop sys vid base junk fd0 fd1 row 0 c0 c1 eof0 eof1 f w;
        (c0, w) \<leftarrow> end_of_row sys fd0 eof0 w;
        (c1, w) \<leftarrow> end_of_row sys fd1 eof1 w;
        rows_loop sys vid base junk fd0 fd1 (row + 1) c0 c1 eof0 eof1 f w }
      else Some (f, w))"

text \<open>\<^verbatim>\<open>ece391_halt\<close> ends the program with a status byte: that is \<^term>\<open>Inl\<close>.\<close>

definition add_frames :: "'w sys \<Rightarrow> 'w video \<Rightarrow> u32 \<Rightarrow> blink \<Rightarrow> u8 list \<Rightarrow> u8 list \<Rightarrow> fish \<Rightarrow> 'w \<Rightarrow> (u8 \<times> 'w + fish \<times> 'w) option" where
  "add_frames sys vid base junk f0 f1 f w = do {
     (fd0, w) \<leftarrow> sys_open sys f0 w;
     (if fd0 < 0 then Some (Inl (- 1, w))
      else do {
        (fd1, w) \<leftarrow> sys_open sys f1 w;
        (if fd1 < 0 then Some (Inl (- 1, w))
         else do {
           r \<leftarrow> rows_loop sys vid base junk fd0 fd1 0 (chr CHR ''0'') (chr CHR ''0'') False False f w;
           Some (Inr r) }) }) }"

section \<open>The program\<close>

text \<open>A read of the clock and a tick, \<^verbatim>\<open>n\<close> times; \<^verbatim>\<open>garbage\<close> is the 4 bytes the read may fill.\<close>

primrec wait_ticks :: "'w sys \<Rightarrow> 'w video \<Rightarrow> u32 \<Rightarrow> int \<Rightarrow> nat \<Rightarrow> u8 list \<Rightarrow> fish \<Rightarrow> 'w \<Rightarrow> (u8 list \<times> fish \<times> 'w) option" where
  "wait_ticks sys vid base fd 0 g f w = Some (g, f, w)"
| "wait_ticks sys vid base fd (Suc n) g f w = do {
     (_, g, w) \<leftarrow> sys_read sys fd g 4 w;
     (_, f, w) \<leftarrow> on_page vid base (\<lambda>f. map_option (Pair ()) (mp1_rtc_tasklet f)) f w;
     wait_ticks sys vid base fd n g f w }"

text \<open>What \<^verbatim>\<open>mp1_set_video_mode\<close> returns, with 0 for the null pointer, what \<^verbatim>\<open>vmem_base_addr\<close> holds then, and the
  state; \<^verbatim>\<open>vmem_base_addr\<close> is 0 when the program starts.\<close>

definition mp1_set_video_mode :: "'w video \<Rightarrow> u32 \<Rightarrow> 'w \<Rightarrow> (u32 \<times> u32 \<times> 'w) option" where
  "mp1_set_video_mode vid vmem_base_addr w = do {
     (r, vmem_base_addr, w) \<leftarrow> sys_vidmap vid vmem_base_addr w;
     Some (if r = - 1 then 0 else vmem_base_addr, vmem_base_addr, w) }"

text \<open>\<^verbatim>\<open>main\<close> from the setting of the clock's frequency on: the blinks of the pictures, one more in the next 200 ticks, its
  rhythm copied, the call that is meant to remove it, and the rest of the ticks.\<close>

definition fish_blinks :: "'w sys \<Rightarrow> 'w video \<Rightarrow> u32 \<Rightarrow> int \<Rightarrow> blink \<Rightarrow> u8 list \<Rightarrow> fish \<Rightarrow> 'w \<Rightarrow> (int \<times> fish \<times> 'w) option" where
  "fish_blinks sys vid base rtc_fd junk garbage f w = do {
     (_, w) \<leftarrow> sys_write sys rtc_fd [32, 0, 0, 0] 4 w;
     (g, f, w) \<leftarrow> wait_ticks sys vid base rtc_fd 200 garbage f w;
     let b = junk\<lparr>bl_on_char := chr CHR ''I'', bl_off_char := chr CHR ''M'', bl_on_length := 7, bl_off_length := 6,
       bl_location := 6 * 80 + 60\<rparr>;
     (_, f, w) \<leftarrow> on_page vid base (mp1_ioctl (Struct b) RTC_ADD) f w;
     (g, f, w) \<leftarrow> wait_ticks sys vid base rtc_fd 200 g f w;
     (_, f, w) \<leftarrow> on_page vid base (mp1_ioctl (Number (push_bit 16 40 OR (6 * 80 + 60))) RTC_SYNC) f w;
     (g, f, w) \<leftarrow> wait_ticks sys vid base rtc_fd 200 g f w;
     (_, f, w) \<leftarrow> on_page vid base (mp1_ioctl (Number 200) RTC_REMOVE) f w;
     (g, f, w) \<leftarrow> wait_ticks sys vid base rtc_fd (80 * 25) g f w;
     (_, w) \<leftarrow> sys_close sys rtc_fd w;
     Some (0, f, w) }"

definition fish_main :: "'w sys \<Rightarrow> 'w video \<Rightarrow> blink \<Rightarrow> u8 list \<Rightarrow> 'w \<Rightarrow> (u8 \<times> 'w + int \<times> fish \<times> 'w) option" where
  "fish_main sys vid junk garbage w = do {
     let f = fish_start [];
     (video, base, w) \<leftarrow> mp1_set_video_mode vid 0 w;
     (if video = 0 then Some (Inr (- 1, f, w))
      else do {
        (rtc_fd, w) \<leftarrow> sys_open sys (cstr ''rtc'') w;
        r \<leftarrow> add_frames sys vid base junk (cstr ''frame0.txt'') (cstr ''frame1.txt'') f w;
        (case r of
           Inl h \<Rightarrow> Some (Inl h)
         | Inr (f, w) \<Rightarrow> map_option Inr (fish_blinks sys vid base rtc_fd junk garbage f w)) }) }"


lemma ece391_memset_fills:
  "d + n \<le> length m \<Longrightarrow> ece391_memset m d c n = Some (take d m @ replicate n c @ drop (d + n) m)"
proof -
  assume h: "d + n \<le> length m"
  show ?thesis unfolding ece391_memset_def
  proof (rule for_range_closed [where g = "\<lambda>j. take d m @ replicate j c @ drop (d + j) m"])
    fix i assume "0 \<le> i" "i < n"
    then show "wr (take d m @ replicate i c @ drop (d + i) m) (d + i) c = Some (take d m @ replicate (Suc i) c @ drop (d + Suc i) m)"
      using h by (simp add: wr_def list_update_append replicate_append_same Cons_nth_drop_Suc [symmetric])
  qed simp_all
qed

lemma ece391_memcpy_copies:
  "d + n \<le> length m \<Longrightarrow> s + n \<le> length src \<Longrightarrow> ece391_memcpy m d src s n = Some (take d m @ take n (drop s src) @ drop (d + n) m)"
proof -
  assume h: "d + n \<le> length m" "s + n \<le> length src"
  show ?thesis unfolding ece391_memcpy_def
  proof (rule for_range_closed [where g = "\<lambda>j. take d m @ take j (drop s src) @ drop (d + j) m"])
    fix i assume "0 \<le> i" "i < n"
    then show "(do { c \<leftarrow> rd src (s + i); wr (take d m @ take i (drop s src) @ drop (d + i) m) (d + i) c }) =
        Some (take d m @ take (Suc i) (drop s src) @ drop (d + Suc i) m)"
      using h Cons_nth_drop_Suc [of "d + i" m, symmetric]
      by (simp add: rd_def wr_def list_update_append take_Suc_conv_app_nth)
  qed simp_all
qed

section \<open>The pictures as rows\<close>

text \<open>A picture has one row more than it has newlines.\<close>

fun rows_of :: "u8 list \<Rightarrow> u8 list list" where
  "rows_of [] = [[]]"
| "rows_of (c # cs) = (if c = 10 then [] # rows_of cs
     else (case rows_of cs of [] \<Rightarrow> [] | r # rs \<Rightarrow> (c # r) # rs))"

lemma rows_of_last: "10 \<notin> set l \<Longrightarrow> rows_of l = [l]"
  by (induction l) auto

lemma rows_of_line: "10 \<notin> set l \<Longrightarrow> rows_of (l @ 10 # xs) = l # rows_of xs"
  by (induction l) auto

text \<open>The character at the start of the rest of a row: a row that has ended counts as newlines.\<close>

definition first_char :: "u8 list \<Rightarrow> u8" where
  "first_char l = (case l of [] \<Rightarrow> 10 | c # _ \<Rightarrow> c)"

definition first_row :: "u8 list list \<Rightarrow> u8 list" where
  "first_row rs = (case rs of [] \<Rightarrow> [] | r # _ \<Rightarrow> r)"

text \<open>The blinks of one place, of a row from a column on, and of two pictures from a row on.\<close>

definition cell_blinks :: "blink \<Rightarrow> nat \<Rightarrow> nat \<Rightarrow> u8 \<Rightarrow> u8 \<Rightarrow> blink list" where
  "cell_blinks junk row col c0 c1 =
     (if c0 \<in> {32, 10} \<and> c1 \<in> {32, 10} then [] else [frame_blink junk row col c0 c1])"

function row_blinks :: "blink \<Rightarrow> nat \<Rightarrow> nat \<Rightarrow> u8 list \<Rightarrow> u8 list \<Rightarrow> blink list" where
  "row_blinks junk row col l0 l1 = (if l0 = [] \<and> l1 = [] then []
     else cell_blinks junk row col (first_char l0) (first_char l1) @ row_blinks junk row (col + 1) (tl l0) (tl l1))"
  by pat_completeness auto
termination
proof (relation "measure (\<lambda>(junk, row, col, l0, l1). length l0 + length l1)", goal_cases)
  case (2 junk row col l0 l1)
  then show ?case by (cases l0; cases l1) simp_all
qed simp

declare row_blinks.simps [simp del]

function frame_blinks :: "blink \<Rightarrow> nat \<Rightarrow> u8 list list \<Rightarrow> u8 list list \<Rightarrow> blink list" where
  "frame_blinks junk row rs0 rs1 = (if rs0 = [] \<and> rs1 = [] then []
     else row_blinks junk row 0 (first_row rs0) (first_row rs1) @ frame_blinks junk (row + 1) (tl rs0) (tl rs1))"
  by pat_completeness auto
termination
proof (relation "measure (\<lambda>(junk, row, rs0, rs1). length rs0 + length rs1)", goal_cases)
  case (2 junk row rs0 rs1)
  then show ?case by (cases rs0; cases rs1) simp_all
qed simp

declare frame_blinks.simps [simp del]

definition add_all :: "blink list \<Rightarrow> fish \<Rightarrow> fish option" where
  "add_all bs f = fold_opt (\<lambda>b f. map_option snd (mp1_ioctl_add b f)) bs f"

lemma add_all_append: "add_all (bs @ cs) f = do { f \<leftarrow> add_all bs f; add_all cs f }"
  by (simp add: add_all_def fold_opt_append)

section \<open>Reading two files at once\<close>

text \<open>
  Descriptors that deliver bytes one by one and do not disturb each other. \<^term>\<open>shut fd w\<close> says that
  the descriptor has been closed: closing it again fails and changes nothing.
\<close>

locale byte_sources = chunk_source sys ready writes holds 1
  for sys :: "'w sys" and ready writes holds +
  fixes shut :: "int \<Rightarrow> 'w \<Rightarrow> bool"
  assumes shut_ready: "shut fd w \<Longrightarrow> ready w"
    and close_shuts: "holds fd [] w \<or> shut fd w \<Longrightarrow> \<exists>r v. sys_close sys fd w = Some (r, v) \<and> shut fd v \<and> writes [] w v"
    and read_others: "holds fd cs w \<Longrightarrow> fd' \<noteq> fd \<Longrightarrow> sys_read sys fd [c] 1 w = Some (r, b, v) \<Longrightarrow>
      (holds fd' ds w \<longrightarrow> holds fd' ds v) \<and> (shut fd' w \<longrightarrow> shut fd' v)"
    and close_others: "holds fd [] w \<or> shut fd w \<Longrightarrow> fd' \<noteq> fd \<Longrightarrow> sys_close sys fd w = Some (r, v) \<Longrightarrow>
      (holds fd' ds w \<longrightarrow> holds fd' ds v) \<and> (shut fd' w \<longrightarrow> shut fd' v)"
begin

abbreviation singles :: "u8 list \<Rightarrow> u8 list list" where
  "singles xs \<equiv> map (\<lambda>c. [c]) xs"

text \<open>A picture in the middle of a row: \<^term>\<open>row\<close> is what is left of it, and \<^term>\<open>rest\<close> the text behind its
  newline, \<^term>\<open>None\<close> when it is the last row. The row is over when \<^term>\<open>c\<close> is the newline.\<close>

definition picture :: "int \<Rightarrow> u8 \<Rightarrow> bool \<Rightarrow> u8 list \<Rightarrow> u8 list option \<Rightarrow> 'w \<Rightarrow> bool" where
  "picture fd c eof row rest w = (10 \<notin> set row \<and>
     (if c \<noteq> 10 then \<not> eof \<and> holds fd (singles (row @ (case rest of None \<Rightarrow> [] | Some t \<Rightarrow> 10 # t))) w
      else row = [] \<and> (case rest of None \<Rightarrow> eof \<and> (holds fd [] w \<or> shut fd w) | Some t \<Rightarrow> \<not> eof \<and> holds fd (singles t) w)))"

lemma next_char_picture:
  assumes "picture fd c eof row rest w" and "ready w"
  shows "\<exists>eof' v. next_char sys fd c eof w = Some (first_char row, eof', v) \<and> picture fd (first_char row) eof' (tl row) rest v \<and>
    ready v \<and> writes [] w v \<and> (\<forall>fd' c' e row' rest'. fd' \<noteq> fd \<longrightarrow> picture fd' c' e row' rest' w \<longrightarrow> picture fd' c' e row' rest' v)"
proof (cases "c = 10")
  case True
  then have "row = []" using assms(1) by (simp add: picture_def)
  then show ?thesis using assms True no_text [OF assms(2)] by (auto simp: next_char_def first_char_def)
next
  case False
  let ?text = "row @ (case rest of None \<Rightarrow> [] | Some t \<Rightarrow> 10 # t)"
  have p: "10 \<notin> set row" "\<not> eof" "holds fd (singles ?text) w" using assms(1) False by (simp_all add: picture_def)
  have others: "picture fd' c' e row' rest' v" if "sys_read sys fd [c] 1 w = Some (r, b, v)" "fd' \<noteq> fd" "picture fd' c' e row' rest' w"
    for fd' c' e row' rest' r b v
    using that(3) read_others [OF p(3) that(2,1)] by (auto simp: picture_def split: option.splits if_splits)
  show ?thesis
  proof (cases ?text)
    case Nil
    then have n: "row = []" "rest = None" by (auto split: option.splits)
    then obtain v where v: "sys_read sys fd [c] 1 w = Some (0, [c], v)" "holds fd [] v" "writes [] w v"
      using read_end [of fd w 1 "[c]"] p(3) by auto
    have "next_char sys fd c eof w = Some (first_char row, True, v)" using v(1) n(1) False by (simp add: next_char_def first_char_def rd_def)
    moreover have "picture fd (first_char row) True (tl row) rest v" using v(2) n by (simp add: picture_def first_char_def)
    ultimately show ?thesis using others [OF v(1)] holds_ready [OF v(2)] v(3) by auto
  next
    case (Cons x t)
    then obtain b v where v: "sys_read sys fd [c] 1 w = Some (1, [x] @ b, v)" "holds fd (singles t) v" "writes [] w v"
      using read_next [of fd "[x]" "singles t" w "[c]"] p(3) by auto
    have "next_char sys fd c eof w = Some (x, False, v)" using v(1) False p(2) by (simp add: next_char_def rd_def)
    moreover have "x = first_char row" using Cons by (cases row) (auto simp: first_char_def split: option.splits)
    moreover have "picture fd x False (tl row) rest v"
    proof (cases row)
      case Nil
      then show ?thesis using Cons v(2) by (auto simp: picture_def split: option.splits)
    next
      case (Cons y ys)
      then show ?thesis using \<open>?text = x # t\<close> v(2) p(1) by (auto simp: picture_def)
    qed
    ultimately show ?thesis using others [OF v(1)] holds_ready [OF v(2)] v(3) by auto
  qed
qed

text \<open>The rows behind the one that ended, and the rows from the present one on.\<close>

definition rows_left :: "u8 list option \<Rightarrow> u8 list list" where
  "rows_left rest = (case rest of None \<Rightarrow> [] | Some t \<Rightarrow> rows_of t)"

definition picture_rows :: "bool \<Rightarrow> u8 list \<Rightarrow> u8 list option \<Rightarrow> u8 list list" where
  "picture_rows eof row rest = (if eof then [] else row # rows_left rest)"

lemma split_row: "\<exists>row rest. 10 \<notin> set row \<and> t = row @ (case rest of None \<Rightarrow> [] | Some u \<Rightarrow> 10 # u) \<and> rows_of t = row # rows_left rest"
proof (cases "10 \<in> set t")
  case True
  then obtain row u where "t = row @ 10 # u" "10 \<notin> set row" by (meson split_list_first)
  then show ?thesis by (intro exI [of _ row] exI [of _ "Some u"]) (simp add: rows_of_line rows_left_def)
next
  case False
  then show ?thesis by (intro exI [of _ t] exI [of _ None]) (simp add: rows_of_last rows_left_def)
qed

lemma end_of_row_picture:
  assumes "picture fd 10 eof [] rest w" and "ready w"
  shows "\<exists>c v row rest'. end_of_row sys fd eof w = Some (c, v) \<and> (c = 10 \<longleftrightarrow> eof) \<and> picture fd c eof row rest' v \<and>
    picture_rows eof row rest' = rows_left rest \<and> ready v \<and> writes [] w v \<and>
    (\<forall>fd' c' e row' rest'. fd' \<noteq> fd \<longrightarrow> picture fd' c' e row' rest' w \<longrightarrow> picture fd' c' e row' rest' v)"
proof (cases rest)
  case None
  then have e: "eof" "holds fd [] w \<or> shut fd w" using assms(1) by (simp_all add: picture_def)
  obtain r v where v: "sys_close sys fd w = Some (r, v)" "shut fd v" "writes [] w v" using close_shuts [OF e(2)] by blast
  have "picture fd' c' e row' rest' v" if "fd' \<noteq> fd" "picture fd' c' e row' rest' w" for fd' c' e row' rest'
    using that(2) close_others [OF e(2) that(1) v(1)] by (auto simp: picture_def split: option.splits if_splits)
  moreover have "picture fd 10 True [] None v" using v(2) by (simp add: picture_def)
  moreover have "end_of_row sys fd eof w = Some (10, v)" using v(1) e(1) by (simp add: end_of_row_def)
  ultimately show ?thesis using v(3) shut_ready [OF v(2)] e(1) None
    by (intro exI [of _ 10] exI [of _ v] exI [of _ "[]"] exI [of _ None]) (simp add: picture_rows_def rows_left_def)
next
  case (Some t)
  then have e: "\<not> eof" "holds fd (singles t) w" using assms(1) by (simp_all add: picture_def)
  obtain row rest' where t: "10 \<notin> set row" "t = row @ (case rest' of None \<Rightarrow> [] | Some u \<Rightarrow> 10 # u)" "rows_of t = row # rows_left rest'"
    using split_row [of t] by blast
  have "picture fd (chr CHR ''0'') False row rest' w" using e(2) t(1) by (simp add: picture_def t(2) [symmetric])
  moreover have "end_of_row sys fd eof w = Some (chr CHR ''0'', w)" using e(1) by (simp add: end_of_row_def)
  ultimately show ?thesis using e(1) t(3) Some assms(2) no_text [OF assms(2)]
    by (intro exI [of _ "chr CHR ''0''"] exI [of _ w] exI [of _ row] exI [of _ rest']) (simp add: picture_rows_def rows_left_def [of "Some t"])
qed

end

text \<open>
  The same beside the text page: the address \<^term>\<open>base\<close> leads to a page of the world, \<^term>\<open>page w\<close>, which output of no
  text, reading and closing leave as it is, and drawing on it disturbs no descriptor. \<^term>\<open>keeps w v\<close> says that
  but for the page and the descriptors the world is the same.
\<close>

locale page_sources = byte_sources sys ready writes holds shut
  for sys :: "'w sys" and ready writes holds shut +
  fixes vid :: "'w video" and base :: u32 and page_of :: "'w \<Rightarrow> u8 list" and keeps :: "'w \<Rightarrow> 'w \<Rightarrow> bool"
  assumes page_loads: "ready w \<Longrightarrow> load_page vid base w = Some (page_of w)"
    and page_stores: "ready w \<Longrightarrow> length pg = length (page_of w) \<Longrightarrow> \<exists>v. store_page vid base pg w = Some v \<and> ready v \<and>
      page_of v = pg \<and> keeps w v \<and> (\<forall>fd cs. holds fd cs w \<longrightarrow> holds fd cs v) \<and> (\<forall>fd. shut fd w \<longrightarrow> shut fd v)"
    and no_text_keeps: "ready w \<Longrightarrow> ready v \<Longrightarrow> writes [] w v \<Longrightarrow> keeps w v \<and> page_of v = page_of w"
    and keeps_trans: "keeps w v \<Longrightarrow> keeps v u \<Longrightarrow> keeps w u"
begin

text \<open>The blinks with the page that the world has.\<close>

abbreviation attached :: "fish \<Rightarrow> 'w \<Rightarrow> fish" where
  "attached f w \<equiv> f\<lparr>vmem := page_of w\<rparr>"

lemma keeps_refl: "ready w \<Longrightarrow> keeps w w"
  using no_text_keeps [of w w] no_text [of w] by simp

lemma draws:
  assumes "ready w" and "op (attached f w) = Some (r, g)" and "length (vmem g) = length (page_of w)"
  shows "\<exists>v. on_page vid base op f w = Some (r, g, v) \<and> attached g v = g \<and> ready v \<and> keeps w v \<and>
    (\<forall>fd c e row rest. picture fd c e row rest w \<longrightarrow> picture fd c e row rest v)"
proof -
  obtain v where v: "store_page vid base (vmem g) w = Some v" "ready v" "page_of v = vmem g" "keeps w v"
    "\<forall>fd cs. holds fd cs w \<longrightarrow> holds fd cs v" "\<forall>fd. shut fd w \<longrightarrow> shut fd v"
    using page_stores [OF assms(1,3)] by blast
  have "picture fd c e row rest v" if "picture fd c e row rest w" for fd c e row rest
    using that v(5,6) by (auto simp: picture_def split: option.splits if_splits)
  then show ?thesis using v(1-4) assms(2) by (simp add: on_page_def page_loads [OF assms(1)])
qed

lemma add_cell_draws:
  assumes "ready w" and "add_all (cell_blinks junk row col c0 c1) (attached f w) = Some g"
  shows "\<exists>h v. add_cell vid base junk row col c0 c1 f w = Some (h, v) \<and> attached h v = g \<and> ready v \<and> keeps w v \<and>
    (\<forall>fd c e row rest. picture fd c e row rest w \<longrightarrow> picture fd c e row rest v)"
proof (cases "c0 \<in> {32, 10} \<and> c1 \<in> {32, 10}")
  case True
  then have "attached f w = g" "add_cell vid base junk row col c0 c1 f w = Some (f, w)"
    using assms(2) by (auto simp: cell_blinks_def add_all_def add_cell_def)
  then show ?thesis using assms(1) keeps_refl by blast
next
  case False
  let ?b = "frame_blink junk row col c0 c1"
  obtain r where r: "mp1_ioctl_add ?b (attached f w) = Some (r, g)"
    using assms(2) False by (auto simp: cell_blinks_def add_all_def bind_eq_Some_conv)
  have "mp1_ioctl (Struct ?b) RTC_ADD (attached f w) = Some ((r, Struct ?b), g)" using r by (simp add: mp1_ioctl_dispatch)
  from draws [where op = "mp1_ioctl (Struct ?b) RTC_ADD", OF assms(1) this] add_page [OF r]
  obtain v where v: "on_page vid base (mp1_ioctl (Struct ?b) RTC_ADD) f w = Some ((r, Struct ?b), g, v)" "attached g v = g" "ready v"
    "keeps w v" "\<forall>fd c e row rest. picture fd c e row rest w \<longrightarrow> picture fd c e row rest v" by auto
  moreover have "add_cell vid base junk row col c0 c1 f w = Some (g, v)" using False v(1) by (auto simp: add_cell_def)
  ultimately show ?thesis by blast
qed

lemma cols_loop_adds:
  assumes "picture fd0 c0 eof0 row0 rest0 w" and "picture fd1 c1 eof1 row1 rest1 w" and "fd0 \<noteq> fd1" and "ready w"
    and "add_all (row_blinks junk row col row0 row1) (attached f w) = Some g"
  shows "\<exists>e0 e1 h v. cols_loop sys vid base junk fd0 fd1 row col c0 c1 eof0 eof1 f w = Some (e0, e1, h, v) \<and> attached h v = g \<and>
    picture fd0 10 e0 [] rest0 v \<and> picture fd1 10 e1 [] rest1 v \<and> ready v \<and> keeps w v"
  using assms
proof (induction "length row0 + length row1" arbitrary: row0 row1 col c0 c1 eof0 eof1 f w rule: less_induct)
  case less
  obtain e0 v0 where s0: "next_char sys fd0 c0 eof0 w = Some (first_char row0, e0, v0)" "picture fd0 (first_char row0) e0 (tl row0) rest0 v0"
    "ready v0" "writes [] w v0" "picture fd1 c1 eof1 row1 rest1 v0"
    using next_char_picture [OF less.prems(1,4)] less.prems(2,3) by metis
  obtain e1 v where s1: "next_char sys fd1 c1 eof1 v0 = Some (first_char row1, e1, v)" "picture fd1 (first_char row1) e1 (tl row1) rest1 v"
    "ready v" "writes [] v0 v" "picture fd0 (first_char row0) e0 (tl row0) rest0 v"
    using next_char_picture [OF s0(5,3)] s0(2) less.prems(3) by metis
  have "writes [] w v" using also_writes [OF s0(4) s1(4)] by simp
  then have w: "keeps w v" "page_of v = page_of w" using no_text_keeps [OF less.prems(4) s1(3)] by simp_all
  have nl: "first_char row0 = 10 \<longleftrightarrow> row0 = []" "first_char row1 = 10 \<longleftrightarrow> row1 = []"
    using less.prems(1,2) by (auto simp: picture_def first_char_def split: list.split)
  show ?case
  proof (cases "row0 = [] \<and> row1 = []")
    case True
    then have "cols_loop sys vid base junk fd0 fd1 row col c0 c1 eof0 eof1 f w = Some (e0, e1, f, v)"
      using s0(1) s1(1) nl by (subst cols_loop.simps) simp
    moreover have "attached f v = g" using True less.prems(5) w(2) by (simp add: row_blinks.simps add_all_def)
    ultimately show ?thesis using True s1(2,3,5) nl w(1) by auto
  next
    case False
    then obtain h where h: "add_all (cell_blinks junk row col (first_char row0) (first_char row1)) (attached f v) = Some h"
      "add_all (row_blinks junk row (col + 1) (tl row0) (tl row1)) h = Some g"
      using less.prems(5) by (subst (asm) row_blinks.simps) (auto simp: add_all_append bind_eq_Some_conv w(2))
    obtain h' x where x: "add_cell vid base junk row col (first_char row0) (first_char row1) f v = Some (h', x)" "attached h' x = h" "ready x"
      "keeps v x" "\<forall>fd c e row rest. picture fd c e row rest v \<longrightarrow> picture fd c e row rest x"
      using add_cell_draws [OF s1(3) h(1)] by blast
    have p: "picture fd0 (first_char row0) e0 (tl row0) rest0 x" "picture fd1 (first_char row1) e1 (tl row1) rest1 x"
      using s1(5,2) x(5) by blast+
    have "length (tl row0) + length (tl row1) < length row0 + length row1" using False by (cases row0; cases row1) simp_all
    moreover have "add_all (row_blinks junk row (col + 1) (tl row0) (tl row1)) (attached h' x) = Some g" using h(2) by (simp add: x(2))
    ultimately obtain e0' e1' k u where u: "cols_loop sys vid base junk fd0 fd1 row (col + 1) (first_char row0) (first_char row1) e0 e1 h' x = Some (e0', e1', k, u)"
      "attached k u = g" "picture fd0 10 e0' [] rest0 u" "picture fd1 10 e1' [] rest1 u" "ready u" "keeps x u"
      using less.hyps [OF _ p less.prems(3) x(3)] by blast
    have "cols_loop sys vid base junk fd0 fd1 row col c0 c1 eof0 eof1 f w = Some (e0', e1', k, u)"
      using s0(1) s1(1) nl False x(1) u(1) by (subst cols_loop.simps) auto
    then show ?thesis using u(2-5) keeps_trans [OF w(1) keeps_trans [OF x(4) u(6)]] by auto
  qed
qed

lemma rows_loop_adds:
  assumes "picture fd0 c0 e0 row0 rest0 w" and "picture fd1 c1 e1 row1 rest1 w" and "fd0 \<noteq> fd1" and "ready w"
    and "c0 = 10 \<longleftrightarrow> e0" and "c1 = 10 \<longleftrightarrow> e1"
    and "add_all (frame_blinks junk row (picture_rows e0 row0 rest0) (picture_rows e1 row1 rest1)) (attached f w) = Some g"
  shows "\<exists>h v. rows_loop sys vid base junk fd0 fd1 row c0 c1 e0 e1 f w = Some (h, v) \<and> attached h v = g \<and> ready v \<and> keeps w v"
  using assms
proof (induction "length (picture_rows e0 row0 rest0) + length (picture_rows e1 row1 rest1)"
    arbitrary: c0 c1 e0 e1 row0 row1 rest0 rest1 row f w rule: less_induct)
  case less
  show ?case
  proof (cases "e0 \<and> e1")
    case True
    then show ?thesis using less.prems(4,7) keeps_refl
      by (subst rows_loop.simps) (simp add: picture_rows_def frame_blinks.simps add_all_def)
  next
    case False
    have p: "first_row (picture_rows e0 row0 rest0) = row0" "tl (picture_rows e0 row0 rest0) = rows_left rest0"
      "first_row (picture_rows e1 row1 rest1) = row1" "tl (picture_rows e1 row1 rest1) = rows_left rest1"
      using less.prems(1,2,5,6) by (auto simp: picture_rows_def picture_def first_row_def rows_left_def split: option.splits if_splits)
    obtain h where h: "add_all (row_blinks junk row 0 row0 row1) (attached f w) = Some h"
      "add_all (frame_blinks junk (row + 1) (rows_left rest0) (rows_left rest1)) h = Some g"
      using less.prems(7) False p
      by (subst (asm) frame_blinks.simps) (auto simp: add_all_append bind_eq_Some_conv picture_rows_def split: if_splits)
    obtain d0 d1 h' u where u: "cols_loop sys vid base junk fd0 fd1 row 0 c0 c1 e0 e1 f w = Some (d0, d1, h', u)"
      "picture fd0 10 d0 [] rest0 u" "picture fd1 10 d1 [] rest1 u" "ready u" "keeps w u" "attached h' u = h"
      using cols_loop_adds [OF less.prems(1-4) h(1)] by blast
    obtain b0 u0 r0 q0 where b0: "end_of_row sys fd0 d0 u = Some (b0, u0)" "b0 = 10 \<longleftrightarrow> d0" "picture fd0 b0 d0 r0 q0 u0"
      "picture_rows d0 r0 q0 = rows_left rest0" "ready u0" "writes [] u u0" "picture fd1 10 d1 [] rest1 u0"
      using end_of_row_picture [OF u(2,4)] u(3) less.prems(3) by metis
    obtain b1 u1 r1 q1 where b1: "end_of_row sys fd1 d1 u0 = Some (b1, u1)" "b1 = 10 \<longleftrightarrow> d1" "picture fd1 b1 d1 r1 q1 u1"
      "picture_rows d1 r1 q1 = rows_left rest1" "ready u1" "writes [] u0 u1" "picture fd0 b0 d0 r0 q0 u1"
      using end_of_row_picture [OF b0(7,5)] b0(3) less.prems(3) by metis
    have "writes [] u u1" using also_writes [OF b0(6) b1(6)] by simp
    then have w: "keeps w u1" "page_of u1 = page_of u" using no_text_keeps [OF u(4) b1(5)] keeps_trans [OF u(5)] by simp_all
    have lt: "length (picture_rows d0 r0 q0) + length (picture_rows d1 r1 q1) <
        length (picture_rows e0 row0 rest0) + length (picture_rows e1 row1 rest1)"
      using False unfolding b0(4) b1(4) p(2,4) [symmetric] by (auto simp: picture_rows_def)
    have "add_all (frame_blinks junk (row + 1) (picture_rows d0 r0 q0) (picture_rows d1 r1 q1)) (attached h' u1) = Some g"
      using h(2) by (simp add: b0(4) b1(4) w(2) u(6))
    from less.hyps [OF lt b1(7,3) less.prems(3) b1(5) b0(2) b1(2) this]
    obtain k v where v: "rows_loop sys vid base junk fd0 fd1 (row + 1) b0 b1 d0 d1 h' u1 = Some (k, v)" "attached k v = g" "ready v" "keeps u1 v"
      by blast
    have "rows_loop sys vid base junk fd0 fd1 row c0 c1 e0 e1 f w = Some (k, v)"
      using False u(1) b0(1) b1(1) v(1) by (subst rows_loop.simps) auto
    then show ?thesis using v(2,3) keeps_trans [OF w(1) v(4)] by auto
  qed
qed

text \<open>Two files that are open from their start: the blinks of the two pictures are added.\<close>

lemma frames_added:
  assumes "holds fd0 (singles t0) w" and "holds fd1 (singles t1) w" and "fd0 \<noteq> fd1"
    and "add_all (frame_blinks junk 0 (rows_of t0) (rows_of t1)) (attached f w) = Some g"
  shows "\<exists>h v. rows_loop sys vid base junk fd0 fd1 0 (chr CHR ''0'') (chr CHR ''0'') False False f w = Some (h, v) \<and> attached h v = g \<and>
    ready v \<and> keeps w v"
proof -
  obtain r0 q0 where r0: "10 \<notin> set r0" "t0 = r0 @ (case q0 of None \<Rightarrow> [] | Some u \<Rightarrow> 10 # u)" "rows_of t0 = r0 # rows_left q0"
    using split_row [of t0] by blast
  obtain r1 q1 where r1: "10 \<notin> set r1" "t1 = r1 @ (case q1 of None \<Rightarrow> [] | Some u \<Rightarrow> 10 # u)" "rows_of t1 = r1 # rows_left q1"
    using split_row [of t1] by blast
  have "picture fd0 (chr CHR ''0'') False r0 q0 w" "picture fd1 (chr CHR ''0'') False r1 q1 w"
    using assms(1,2) r0(1) r1(1) by (simp_all add: picture_def r0(2) [symmetric] r1(2) [symmetric])
  from rows_loop_adds [OF this assms(3) holds_ready [OF assms(1)]] show ?thesis
    using assms(4) by (simp add: picture_rows_def r0(3) r1(3))
qed

end


section \<open>What the blinks of two pictures show\<close>

lemma row_blinks_step:
  "\<not> (l0 = [] \<and> l1 = []) \<Longrightarrow> row_blinks junk row col l0 l1 =
     cell_blinks junk row col (first_char l0) (first_char l1) @ row_blinks junk row (col + 1) (tl l0) (tl l1)"
  by (subst row_blinks.simps) (rule if_not_P)

lemma frame_blinks_step:
  "\<not> (rs0 = [] \<and> rs1 = []) \<Longrightarrow> frame_blinks junk row rs0 rs1 =
     row_blinks junk row 0 (first_row rs0) (first_row rs1) @ frame_blinks junk (row + 1) (tl rs0) (tl rs1)"
  by (subst frame_blinks.simps) (rule if_not_P)

text \<open>The character at a place of a picture; outside the picture it is a newline.\<close>

definition row_char :: "u8 list \<Rightarrow> nat \<Rightarrow> u8" where
  "row_char l j = (if j < length l then l ! j else 10)"

definition picture_char :: "u8 list list \<Rightarrow> nat \<Rightarrow> nat \<Rightarrow> u8" where
  "picture_char rs i j = (if i < length rs then row_char (rs ! i) j else 10)"

lemma row_char_simps: "row_char l 0 = first_char l" "row_char l (Suc j) = row_char (tl l) j"
  by (cases l; simp add: row_char_def first_char_def)+

lemma picture_char_simps: "picture_char rs 0 j = row_char (first_row rs) j" "picture_char rs (Suc i) j = picture_char (tl rs) i j"
  by (cases rs; simp add: picture_char_def first_row_def row_char_def)+

definition place_visible :: "u8 \<Rightarrow> u8 \<Rightarrow> bool" where
  "place_visible c0 c1 = (c0 \<notin> {32, 10} \<or> c1 \<notin> {32, 10})"

lemma cell_blinks_iff: "b \<in> set (cell_blinks junk row col c0 c1) \<longleftrightarrow> place_visible c0 c1 \<and> b = frame_blink junk row col c0 c1"
  by (simp add: cell_blinks_def place_visible_def)

lemma row_blinks_iff:
  "b \<in> set (row_blinks junk row col l0 l1) \<longleftrightarrow>
     (\<exists>j. place_visible (row_char l0 j) (row_char l1 j) \<and> b = frame_blink junk row (col + j) (row_char l0 j) (row_char l1 j))"
proof (induction junk row col l0 l1 rule: row_blinks.induct)
  case (1 junk row col l0 l1)
  show ?case
  proof (cases "l0 = [] \<and> l1 = []")
    case True
    then show ?thesis by (subst row_blinks.simps) (simp add: row_char_def place_visible_def)
  next
    case False
    let ?P = "\<lambda>j. place_visible (row_char l0 j) (row_char l1 j) \<and> b = frame_blink junk row (col + j) (row_char l0 j) (row_char l1 j)"
    have "(\<exists>j. ?P j) \<longleftrightarrow> ?P 0 \<or> (\<exists>j. ?P (Suc j))" by (metis not0_implies_Suc)
    then show ?thesis using 1(1) [OF False] by (simp add: row_blinks_step [OF False] cell_blinks_iff row_char_simps)
  qed
qed

lemma frame_blinks_iff:
  "b \<in> set (frame_blinks junk row rs0 rs1) \<longleftrightarrow> (\<exists>i j. place_visible (picture_char rs0 i j) (picture_char rs1 i j) \<and>
     b = frame_blink junk (row + i) j (picture_char rs0 i j) (picture_char rs1 i j))"
proof (induction junk row rs0 rs1 rule: frame_blinks.induct)
  case (1 junk row rs0 rs1)
  show ?case
  proof (cases "rs0 = [] \<and> rs1 = []")
    case True
    then show ?thesis by (subst frame_blinks.simps) (simp add: picture_char_def place_visible_def)
  next
    case False
    let ?P = "\<lambda>i. \<exists>j. place_visible (picture_char rs0 i j) (picture_char rs1 i j) \<and>
      b = frame_blink junk (row + i) j (picture_char rs0 i j) (picture_char rs1 i j)"
    have "(\<exists>i. ?P i) \<longleftrightarrow> ?P 0 \<or> (\<exists>i. ?P (Suc i))" by (metis not0_implies_Suc)
    then show ?thesis using 1(1) [OF False] by (simp add: frame_blinks_step [OF False] row_blinks_iff picture_char_simps)
  qed
qed

text \<open>Two pictures that fit on the right half of the page.\<close>

definition pictures_fit :: "u8 list list \<Rightarrow> u8 list list \<Rightarrow> bool" where
  "pictures_fit rs0 rs1 = (list_all (\<lambda>r. length r \<le> 40) (rs0 @ rs1) \<and> length rs0 \<le> 25 \<and> length rs1 \<le> 25)"

lemma length_row_blinks: "length (row_blinks junk row col l0 l1) \<le> max (length l0) (length l1)"
proof (induction junk row col l0 l1 rule: row_blinks.induct)
  case (1 junk row col l0 l1)
  show ?case
  proof (cases "l0 = [] \<and> l1 = []")
    case True
    then show ?thesis by (subst row_blinks.simps) simp
  next
    case False
    have "length (cell_blinks junk row col (first_char l0) (first_char l1)) \<le> 1" by (simp add: cell_blinks_def)
    moreover have "max (length l0) (length l1) = Suc (max (length (tl l0)) (length (tl l1)))"
      using False by (cases l0; cases l1) simp_all
    ultimately show ?thesis using 1 [OF False] by (simp add: row_blinks_step [OF False])
  qed
qed

lemma length_frame_blinks:
  "list_all (\<lambda>r. length r \<le> n) (rs0 @ rs1) \<Longrightarrow> length (frame_blinks junk row rs0 rs1) \<le> n * max (length rs0) (length rs1)"
proof (induction junk row rs0 rs1 rule: frame_blinks.induct)
  case (1 junk row rs0 rs1)
  show ?case
  proof (cases "rs0 = [] \<and> rs1 = []")
    case True
    then show ?thesis by (subst frame_blinks.simps) simp
  next
    case False
    have "length (first_row rs0) \<le> n" "length (first_row rs1) \<le> n" using 1(2) by (cases rs0; cases rs1; simp add: first_row_def)+
    then have "length (row_blinks junk row 0 (first_row rs0) (first_row rs1)) \<le> n"
      using length_row_blinks [of junk row 0 "first_row rs0" "first_row rs1"] by simp
    moreover have "list_all (\<lambda>r. length r \<le> n) (tl rs0 @ tl rs1)" using 1(2) by (cases rs0; cases rs1) simp_all
    then have "length (frame_blinks junk (row + 1) (tl rs0) (tl rs1)) \<le> n * max (length (tl rs0)) (length (tl rs1))" by (rule 1(1) [OF False])
    moreover have "max (length rs0) (length rs1) = Suc (max (length (tl rs0)) (length (tl rs1)))"
      using False by (cases rs0; cases rs1) simp_all
    ultimately show ?thesis by (simp add: frame_blinks_step [OF False])
  qed
qed

lemma fitting_place:
  assumes "pictures_fit rs0 rs1" and "place_visible (picture_char rs0 i j) (picture_char rs1 i j)"
  shows "i < 25" and "j < 40" and "unat (bl_location (frame_blink junk i j c0 c1)) = i * 80 + j + 40"
proof -
  have "i < length rs0 \<and> j < length (rs0 ! i) \<or> i < length rs1 \<and> j < length (rs1 ! i)"
    using assms(2) by (auto simp: place_visible_def picture_char_def row_char_def split: if_splits)
  then have "(\<exists>r \<in> set (rs0 @ rs1). j < length r) \<and> (i < length rs0 \<or> i < length rs1)" using nth_mem by fastforce
  note h = this
  show ij: "i < 25" using h assms(1) by (auto simp: pictures_fit_def)
  obtain r where r: "r \<in> set (rs0 @ rs1)" "j < length r" using h by blast
  then have "length r \<le> 40" using assms(1) unfolding pictures_fit_def list_all_iff by blast
  then show j: "j < 40" using r(2) by simp
  have "unat (of_nat (i * 80 + j + 40) :: u16) = i * 80 + j + 40"
    unfolding unat_of_nat by (rule mod_less) (use ij j in simp)
  then show "unat (bl_location (frame_blink junk i j c0 c1)) = i * 80 + j + 40" by (simp add: frame_blink_def del: of_nat_add of_nat_mult)
qed

lemma add_all_result:
  assumes "fish_ok is f" and "\<forall>b \<in> set bs. 0 < bl_location b \<and> bl_location b < 2000" and "length is + length bs \<le> 2000"
  shows "\<exists>g js. add_all bs f = Some g \<and> fish_ok js g \<and> blinks js g = rev (map start_blink bs) @ blinks is f \<and>
    vmem g = fold (\<lambda>b pg. pg[2 * unat (bl_location b) := bl_on_char b]) bs (vmem f)"
  using assms
proof (induction bs arbitrary: "is" f)
  case Nil
  then show ?case by (auto simp: add_all_def)
next
  case (Cons b bs)
  have "spec_call (Add b) (blinks is f, vmem f) = (0, start_blink b # blinks is f, (vmem f)[2 * unat (bl_location b) := bl_on_char b])"
    using Cons.prems(2,3) by (simp add: blinks_def not_le)
  then obtain h js where h: "mp1_ioctl_add b f = Some (0, h)" "fish_ok js h" "blinks js h = start_blink b # blinks is f"
    "vmem h = (vmem f)[2 * unat (bl_location b) := bl_on_char b]"
    using add_result [OF Cons.prems(1), of b] Cons.prems(2) by (auto simp del: spec_call.simps)
  have "length js = Suc (length is)" using arg_cong [OF h(3), of length] by (simp add: blinks_def)
  then obtain g ks where "add_all bs h = Some g" "fish_ok ks g" "blinks ks g = rev (map start_blink bs) @ blinks js h"
    "vmem g = fold (\<lambda>b pg. pg[2 * unat (bl_location b) := bl_on_char b]) bs (vmem h)"
    using Cons.IH [OF h(2)] Cons.prems(2,3) by auto
  then show ?case using h by (intro exI [of _ g] exI [of _ ks]) (simp add: add_all_def)
qed

lemma page_of_blinks:
  assumes "\<forall>b \<in> set bs. unat (bl_location b) = l \<longrightarrow> bl_on_char b = c" and "2 * l < length pg"
  shows "fold (\<lambda>b pg. pg[2 * unat (bl_location b) := bl_on_char b]) bs pg ! (2 * l) =
    (if \<exists>b \<in> set bs. unat (bl_location b) = l then c else pg ! (2 * l))"
  using assms
proof (induction bs arbitrary: pg)
  case (Cons b bs)
  have "pg[2 * unat (bl_location b) := bl_on_char b] ! (2 * l) = (if unat (bl_location b) = l then c else pg ! (2 * l))"
    using Cons.prems by (auto simp: nth_list_update)
  then show ?case using Cons by auto
qed simp

lemma frame_blinks_located:
  assumes fit: "pictures_fit rs0 rs1" and b: "b \<in> set (frame_blinks junk 0 rs0 rs1)"
  shows "0 < bl_location b \<and> bl_location b < 2000"
proof -
  from b obtain x y where xy: "place_visible (picture_char rs0 x y) (picture_char rs1 x y)"
    "b = frame_blink junk x y (picture_char rs0 x y) (picture_char rs1 x y)"
    by (auto simp: frame_blinks_iff)
  have "unat (bl_location b) = x * 80 + y + 40" "x < 25" "y < 40" using fitting_place [OF fit xy(1)] xy(2) by simp_all
  then show ?thesis by (simp add: word_less_nat_alt)
qed

text \<open>The blinks of two pictures that fit on the right half of the page: all of them are added, and the
  page shows the first picture there, with a space where only the second one has a character, and is
  unchanged where both are blank.\<close>

lemma pictures_shown:
  assumes ok: "fish_ok is f" and room: "length is \<le> 1000" and fit: "pictures_fit rs0 rs1"
  shows "\<exists>g js. add_all (frame_blinks junk 0 rs0 rs1) f = Some g \<and> fish_ok js g \<and>
    blinks js g = rev (map start_blink (frame_blinks junk 0 rs0 rs1)) @ blinks is f \<and>
    (i < 25 \<and> j < 40 \<longrightarrow> vmem g ! (2 * (i * 80 + j + 40)) =
      (if place_visible (picture_char rs0 i j) (picture_char rs1 i j)
       then (if picture_char rs0 i j = 10 then 32 else picture_char rs0 i j) else vmem f ! (2 * (i * 80 + j + 40))))"
proof -
  let ?bs = "frame_blinks junk 0 rs0 rs1" and ?c = "picture_char rs0 i j"
  note loc = frame_blinks_located [OF fit, of _ junk]
  have "length ?bs \<le> 40 * max (length rs0) (length rs1)"
    by (rule length_frame_blinks) (use fit in \<open>simp add: pictures_fit_def\<close>)
  then have "length is + length ?bs \<le> 2000" using room fit by (auto simp: pictures_fit_def)
  then obtain g js where g: "add_all ?bs f = Some g" "fish_ok js g" "blinks js g = rev (map start_blink ?bs) @ blinks is f"
    "vmem g = fold (\<lambda>b pg. pg[2 * unat (bl_location b) := bl_on_char b]) ?bs (vmem f)"
    using add_all_result [OF ok] loc by blast
  have "vmem g ! (2 * (i * 80 + j + 40)) =
      (if place_visible ?c (picture_char rs1 i j) then (if ?c = 10 then 32 else ?c) else vmem f ! (2 * (i * 80 + j + 40)))"
    if ij: "i < 25" "j < 40"
  proof -
    let ?l = "i * 80 + j + 40"
    have there: "x = i \<and> y = j" if "place_visible (picture_char rs0 x y) (picture_char rs1 x y)"
        "unat (bl_location (frame_blink junk x y c0 c1)) = ?l" for x y c0 c1
    proof -
      have "y < 40" "x * 80 + y = i * 80 + j" using fitting_place [OF fit that(1)] that(2) by simp_all
      moreover from this have "\<not> x < i" "\<not> i < x" using ij(2) by linarith+
      then have "x = i" by simp
      ultimately show ?thesis by simp
    qed
    have "\<forall>b \<in> set ?bs. unat (bl_location b) = ?l \<longrightarrow> bl_on_char b = (if ?c = 10 then 32 else ?c)"
    proof (intro ballI impI)
      fix b assume b: "b \<in> set ?bs" "unat (bl_location b) = ?l"
      from b(1) obtain x y where xy: "place_visible (picture_char rs0 x y) (picture_char rs1 x y)"
        "b = frame_blink junk x y (picture_char rs0 x y) (picture_char rs1 x y)" by (auto simp: frame_blinks_iff)
      have "x = i \<and> y = j" by (rule there [OF xy(1)]) (use b(2) in \<open>simp only: xy(2)\<close>)
      then show "bl_on_char b = (if ?c = 10 then 32 else ?c)" using xy(2) by (simp add: frame_blink_def)
    qed
    moreover have "2 * ?l < length (vmem f)" using ok ij by (simp add: fish_ok_def)
    moreover have "(\<exists>b \<in> set ?bs. unat (bl_location b) = ?l) \<longleftrightarrow> place_visible ?c (picture_char rs1 i j)"
    proof
      assume "\<exists>b \<in> set ?bs. unat (bl_location b) = ?l"
      then obtain b where b: "b \<in> set ?bs" "unat (bl_location b) = ?l" by blast
      from b(1) obtain x y where xy: "place_visible (picture_char rs0 x y) (picture_char rs1 x y)"
        "b = frame_blink junk x y (picture_char rs0 x y) (picture_char rs1 x y)" by (auto simp: frame_blinks_iff)
      have "x = i \<and> y = j" by (rule there [OF xy(1)]) (use b(2) in \<open>simp only: xy(2)\<close>)
      then show "place_visible ?c (picture_char rs1 i j)" using xy(1) by simp
    next
      assume v: "place_visible ?c (picture_char rs1 i j)"
      then have "frame_blink junk i j ?c (picture_char rs1 i j) \<in> set ?bs" unfolding frame_blinks_iff by auto
      then show "\<exists>b \<in> set ?bs. unat (bl_location b) = ?l" using fitting_place(3) [OF fit v] by blast
    qed
    ultimately show ?thesis unfolding g(4) by (subst page_of_blinks [where c = "if ?c = 10 then 32 else ?c"]) simp_all
  qed
  then show ?thesis using g(1-3) by blast
qed

end
