(* ===== verification/UserFish.thy ===== *)
theory UserFish
  imports UserGrep Fish
begin

text \<open>
  The pictures of \<^verbatim>\<open>fish\<close> on the kernel. Its reads are of single bytes, of two open files by turns, and it draws on
  the page that \<^verbatim>\<open>vidmap\<close> has given it: the byte sources with a page of \<^verbatim>\<open>Fish\<close> are interpreted on the open files of
  a task and on the text page of the kernel's console.
\<close>

unbundle bit_operations_syntax

section \<open>The text page of a task\<close>

text \<open>\<^verbatim>\<open>vmem_base_addr\<close> is kept at the address of the program's buffers, as every variable that a call fills.\<close>

definition le32 :: "u32 \<Rightarrow> u8 list" where
  "le32 v = [ucast v, ucast (drop_bit 8 v), ucast (drop_bit 16 v), ucast (drop_bit 24 v)]"

definition call_vidmap :: "u32 \<Rightarrow> u32 \<Rightarrow> 'a kbd_scheme \<Rightarrow> (int \<times> u32 \<times> 'a kbd_scheme) option" where
  "call_vidmap a v s = do {
     s \<leftarrow> user_stores a (le32 v) s;
     (r, s) \<leftarrow> do_vidmap a s;
     bs \<leftarrow> user_loads a 4 s;
     Some (r, word_rcat (rev bs), s) }"

text \<open>The 4000 bytes behind an address of the program: the text page of the console if the task's page walk leads there,
  else other memory, as the page \<^verbatim>\<open>GARBAGE_VID_MEM\<close> of a task whose terminal is not displayed.\<close>

definition page_at :: "u32 \<Rightarrow> 'a paging_scheme \<Rightarrow> u32 option" where
  "page_at b s = do {
     q \<leftarrow> translate (mem s) (cr3 s) True b;
     (if list_all (\<lambda>i. translate (mem s) (cr3 s) True (b + of_nat i) = Some (q + of_nat i)) [0..<4000] then Some q else None) }"

definition user_page :: "u32 \<Rightarrow> 'a kbd_scheme \<Rightarrow> u8 list option" where
  "user_page b s = do {
     q \<leftarrow> page_at b s;
     Some (if q = VIDEO then video_mem s else map (\<lambda>i. mem s (q + of_nat i)) [0..<4000]) }"

definition draw_user_page :: "u32 \<Rightarrow> u8 list \<Rightarrow> 'a kbd_scheme \<Rightarrow> 'a kbd_scheme option" where
  "draw_user_page b pg s = do {
     q \<leftarrow> page_at b s;
     Some (if q = VIDEO then s\<lparr>video_mem := pg\<rparr> else s\<lparr>mem := copied q (\<lambda>i. pg ! i) 4000 (mem s)\<rparr>) }"

definition kernel_video :: "u32 \<Rightarrow> 'a kbd_scheme video" where
  "kernel_video a = \<lparr>sys_vidmap = call_vidmap a, load_page = user_page, store_page = draw_user_page\<rparr>"

text \<open>The task is displayed, and the entry of its page directory for the page of \<^verbatim>\<open>vidmap\<close> is the one that \<^verbatim>\<open>init_task\<close> and
  \<^verbatim>\<open>switch_task\<close> write; the buffer at \<^term>\<open>p\<close> does not lie over it.\<close>

definition shows_page :: "u32 \<Rightarrow> 'a kbd_scheme \<Rightarrow> bool" where
  "shows_page p s = (cur_ptree s = current_terminal_index s \<and>
     ld32 (mem s) (dword_at (cr3 s AND FIRST_20_BITS) 64) = entry_4mb VIDEO 1 \<and>
     (\<forall>j < 4. 2048 \<le> unat (dword_at (cr3 s AND FIRST_20_BITS) 64 + of_nat j - p)))"

text \<open>But for the text page and the task's descriptors nothing has changed.\<close>

definition drawn :: "u32 \<Rightarrow> 'a kbd_scheme \<Rightarrow> 'a kbd_scheme \<Rightarrow> bool" where
  "drawn p s u = console_writes p [] (s\<lparr>video_mem := video_mem u\<rparr>) u"

abbreviation vidmap_base :: u32 where
  "vidmap_base \<equiv> 0x100B8000"

lemma shown_page_at:
  assumes "shows_page p s"
  shows "page_at vidmap_base s = Some VIDEO"
proof -
  have "translate (mem s) (cr3 s) True (vidmap_base + of_nat i) = Some (VIDEO + of_nat i)" if "i < 4000" for i
  proof -
    have x: "0xB8000 + of_nat i < (0x400000 :: u32)" using that by (simp add: word_less_nat_alt unat_word_ariths unat_of_nat_u32)
    have va: "vidmap_base + of_nat i = 0x10000000 + (0xB8000 + of_nat i)" by simp
    note w = video_page [OF x]
    show ?thesis unfolding va
      using translate_4mb [of "mem s" "cr3 s" "0x10000000 + (0xB8000 + of_nat i)" VIDEO 1 True] assms w
      by (simp add: shows_page_def entry_4mb_def VIDEO_def FIRST_10_BITS_def)
  qed
  note walk = this
  have "translate (mem s) (cr3 s) True vidmap_base = Some VIDEO" using walk [of 0] by simp
  then show ?thesis using walk by (simp add: page_at_def list_all_iff)
qed

lemma shows_page_same:
  assumes "shows_page p s" and "same_outside p 2048 (mem s) (mem u)" and "cr3 u = cr3 s" and "cur_ptree u = cur_ptree s"
    and "current_terminal_index u = current_terminal_index s"
  shows "shows_page p u"
proof -
  have "mem u (dword_at (cr3 s AND FIRST_20_BITS) 64 + of_nat j) = mem s (dword_at (cr3 s AND FIRST_20_BITS) 64 + of_nat j)" if "j < 4" for j
    using assms(1,2) that unfolding shows_page_def same_outside_def by blast
  from this [of 0] this [of 1] this [of 2] this [of 3]
  have "ld32 (mem u) (dword_at (cr3 s AND FIRST_20_BITS) 64) = ld32 (mem s) (dword_at (cr3 s AND FIRST_20_BITS) 64)" by (simp add: ld32_def)
  then show ?thesis using assms by (simp add: shows_page_def)
qed

lemma shows_page_writes: "shows_page p s \<Longrightarrow> console_writes p xs s u \<Longrightarrow> shows_page p u"
  by (rule shows_page_same) (simp_all add: console_writes_def)

lemma page_fields:
  "cur_files (s\<lparr>video_mem := pg\<rparr>) = cur_files s" "get_cur_task (s\<lparr>video_mem := pg\<rparr>) = get_cur_task s"
  "is_user_ptr a (s\<lparr>video_mem := pg\<rparr>) = is_user_ptr a s" "term_at i (s\<lparr>video_mem := pg\<rparr>) = term_at i s"
  "stable_area a p n (s\<lparr>video_mem := pg\<rparr>) = stable_area a p n s" "shows_page p (s\<lparr>video_mem := pg\<rparr>) = shows_page p s"
  by (simp_all add: cur_files_def get_cur_task_def is_user_ptr_def task_at_def term_at_def stable_area_def shows_page_def)

lemma user_ready_page: "user_ready a p s \<Longrightarrow> length pg = 4000 \<Longrightarrow> user_ready a p (s\<lparr>video_mem := pg\<rparr>)"
  by (auto simp: user_ready_def page_fields visible_def page_def)

lemma ready_page: "user_ready a p s \<Longrightarrow> length (video_mem s) = 4000"
  by (auto simp: user_ready_def visible_def page_def)

lemma console_writes_page: "console_writes p [] s u \<Longrightarrow> console_writes p [] (s\<lparr>video_mem := pg\<rparr>) (u\<lparr>video_mem := pg\<rparr>)"
  by (auto simp: console_writes_def page_fields shown_at_def)

lemma drawn_trans:
  assumes "drawn p s v" and "drawn p v u"
  shows "drawn p s u"
proof -
  have "console_writes p [] (s\<lparr>video_mem := video_mem u\<rparr>) (v\<lparr>video_mem := video_mem u\<rparr>)"
    using console_writes_page [OF assms(1) [unfolded drawn_def], of "video_mem u"] by simp
  then show ?thesis using console_writes_append [of p "[]" _ _ "[]"] assms(2) by (simp add: drawn_def)
qed

text \<open>On a displayed terminal the text page is as it was when nothing has been written.\<close>

lemma cells_of_eq:
  assumes "length v = 4000" and "length w = 4000" and "cells_of v = cells_of w"
  shows "v = w"
proof (rule nth_equalityI)
  fix k assume "k < length v"
  then have k: "k div 2 < 2000" "k = 2 * (k div 2) \<or> k = 2 * (k div 2) + 1" using assms(1) by auto
  have "cells_of v ! (k div 2) = cells_of w ! (k div 2)" using assms(3) by simp
  then show "v ! k = w ! k" using k by (auto simp: cells_of_def)
qed (use assms in simp)

lemma nothing_drawn:
  assumes "user_ready a p s" and "user_ready a p u" and "shows_page p s" and "console_writes p [] s u"
  shows "video_mem u = video_mem s" and "drawn p s u"
proof -
  have "cells_of (video_mem u) = cells_of (video_mem s)"
    using assms(3,4) by (auto simp: console_writes_def shown_at_def shows_page_def)
  then show "video_mem u = video_mem s" using cells_of_eq ready_page assms(1,2) by blast
  then have "s\<lparr>video_mem := video_mem u\<rparr> = s" by simp
  then show "drawn p s u" unfolding drawn_def using assms(4) by (simp only:)
qed

lemma page_drawn:
  assumes "user_ready a p s" and "length pg = 4000"
  shows "drawn p s (s\<lparr>video_mem := pg\<rparr>)"
  using console_writes_nil [OF user_ready_page [OF assms]] by (simp add: drawn_def)

section \<open>A file that is read byte by byte\<close>

definition byte_open_at :: "u32 \<Rightarrow> nat \<Rightarrow> u32 \<Rightarrow> nat \<Rightarrow> 'a kbd_scheme \<Rightarrow> bool" where
  "byte_open_at p k ino off s = (2 \<le> k \<and> k < 8 \<and> in_use (cur_files s ! k) \<and> f_fops (cur_files s ! k) = Some FileFops \<and>
     inode_num (f_dentry (cur_files s ! k)) = ino \<and> f_inode (cur_files s ! k) = inode_addr (file_sys s) ino \<and>
     inode_addr (file_sys s) ino \<noteq> 0 \<and> f_offset (cur_files s ! k) = of_nat off \<and> off < 2 ^ 31 \<and>
     ino < fs_num_inodes (mem s) (file_sys s) \<and> image_ok (mem s) (file_sys s) \<and> clear_of_image (mem s) (file_sys s) p 2048)"

definition bytes_from :: "memory \<Rightarrow> u32 \<Rightarrow> u32 \<Rightarrow> nat \<Rightarrow> u8 list list" where
  "bytes_from m fs ino off = map (\<lambda>j. [file_byte m fs ino j]) [off..<file_len m fs ino]"

definition kernel_bytes :: "u32 \<Rightarrow> u32 \<Rightarrow> int \<Rightarrow> u8 list list \<Rightarrow> 'a kbd_scheme \<Rightarrow> bool" where
  "kernel_bytes a p fd cs s = (user_ready a p s \<and>
     (\<exists>k ino off. fd = int k \<and> byte_open_at p k ino off s \<and> cs = bytes_from (mem s) (file_sys s) ino off))"

definition kernel_shut :: "u32 \<Rightarrow> u32 \<Rightarrow> int \<Rightarrow> 'a kbd_scheme \<Rightarrow> bool" where
  "kernel_shut a p fd s = (user_ready a p s \<and> (\<exists>k. fd = int k \<and> 2 \<le> k \<and> k < 8 \<and> \<not> in_use (cur_files s ! k)))"

lemma kernel_bytesI:
  assumes "user_ready a p s" and "byte_open_at p k ino off s" and "cs = bytes_from (mem s) (file_sys s) ino off"
  shows "kernel_bytes a p (int k) cs s"
  using assms unfolding kernel_bytes_def by blast

text \<open>What a state keeps in which the descriptor and the image are as they were.\<close>

lemma bytes_same:
  assumes "byte_open_at p k ino off s" and "same_outside p 2048 (mem s) (mem u)" and "file_sys u = file_sys s"
  shows "bytes_from (mem u) (file_sys u) ino j = bytes_from (mem s) (file_sys s) ino j"
    and "image_ok (mem u) (file_sys u)" "ino < fs_num_inodes (mem u) (file_sys u)" "clear_of_image (mem u) (file_sys u) p 2048"
    and "same_image (mem s) (mem u) (file_sys s)"
proof -
  have h: "image_ok (mem s) (file_sys s)" "ino < fs_num_inodes (mem s) (file_sys s)" "clear_of_image (mem s) (file_sys s) p 2048"
    using assms(1) by (simp_all add: byte_open_at_def)
  show im: "same_image (mem s) (mem u) (file_sys s)" by (rule same_outside_image [OF h(3) assms(2)])
  note f = same_image_file [OF im h(1,2)]
  have "file_byte (mem u) (file_sys s) ino i = file_byte (mem s) (file_sys s) ino i" if "i < file_len (mem s) (file_sys s) ino" for i
    using f(4) [of i] that room_bound [of i "file_len (mem s) (file_sys s) ino"] by (simp add: file_room_def)
  then show "bytes_from (mem u) (file_sys u) ino j = bytes_from (mem s) (file_sys s) ino j"
    by (simp add: bytes_from_def assms(3) f(1))
  show "image_ok (mem u) (file_sys u)" "ino < fs_num_inodes (mem u) (file_sys u)" "clear_of_image (mem u) (file_sys u) p 2048"
    using h same_image_ok [OF im] same_image_header [OF im] by (simp_all add: assms(3) clear_of_image_def)
qed

lemma bytes_kept:
  assumes "kernel_bytes a p (int k) cs s" and "user_ready a p u" and "same_outside p 2048 (mem s) (mem u)" and "file_sys u = file_sys s"
    and "cur_files u ! k = cur_files s ! k"
  shows "kernel_bytes a p (int k) cs u"
proof -
  obtain ino off where h: "byte_open_at p k ino off s" "cs = bytes_from (mem s) (file_sys s) ino off"
    using assms(1) by (auto simp: kernel_bytes_def)
  note b = bytes_same [OF h(1) assms(3,4)]
  show ?thesis
    by (rule kernel_bytesI [OF assms(2), of k ino off]) (use h b in \<open>simp_all add: byte_open_at_def assms(4,5)\<close>)
qed

section \<open>Reading a byte\<close>

lemma file_read_byte:
  assumes f: "byte_open_at p k ino off s" and cur: "get_cur_task s \<noteq> 0" "length (cur_files s) = 8" and area: "stable_area a p 2048 s"
    and off: "off < file_len (mem s) (file_sys s) ino"
  shows "file_read (int k) a 1 s = Some (1, with_files ((cur_files s)[k := (cur_files s ! k)\<lparr>f_offset := of_nat (off + 1)\<rparr>])
      (s\<lparr>mem := copied p (\<lambda>j. file_byte (mem s) (file_sys s) ino (off + j)) 1 (mem s)\<rparr>))"
proof -
  let ?m = "mem s" and ?fs = "file_sys s" and ?f = "cur_files s ! k"
  let ?len = "file_len ?m ?fs ino"
  have k: "k < 8" "f_inode ?f = inode_addr ?fs ino" "inode_addr ?fs ino \<noteq> 0" "f_offset ?f = of_nat off"
    "off < 2 ^ 31" "inode_num (f_dentry ?f) = ino"
    and img: "ino < fs_num_inodes ?m ?fs" "image_ok ?m ?fs" "clear_of_image ?m ?fs p 2048"
    using f by (simp_all add: byte_open_at_def)
  have un: "unat (of_nat off :: u32) = off" using k(5) by (simp add: unat_of_nat_u32)
  have il: "unat (inode_len ?m (inode_addr ?fs ino)) = ?len" by (simp add: file_len_def)
  have lt: "\<not> f_offset ?f \<ge> inode_len ?m (f_inode ?f)"
    using off il un unfolding k(2,4) by (simp add: word_le_nat_alt)
  have w: "inode_len ?m (f_inode ?f) \<noteq> 0" "u32_of 1 = 1" using il off unfolding k(2) by (auto simp: u32_of_def)
  have "off mod 4096 + 1 \<le> 4096" using mod_less_divisor [of 4096 off] by linarith
  moreover have "off + 1 < file_room ?m ?fs ino"
    using off room_bound [of off ?len] div_le_mono [of off ?len 4096] room_bound [of ?len "?len + 1"] by (simp add: file_room_def)
  moreover have "clear_of_image ?m ?fs p 1" using img(3) unfolding clear_of_image_def by (auto dest: spec [of _ 0])
  ultimately have rd: "read_data ino (of_nat off) p 1 s = (1, s\<lparr>mem := copied p (\<lambda>j. file_byte ?m ?fs ino (off + j)) 1 ?m\<rparr>)"
    using read_data_inside_block [OF img(2,1), of p 1 "of_nat off"] un by simp
  have "cur_file (int k) s = Some ?f" using cur_file_in(1) [OF cur(1), of k] cur(2) k(1) by simp
  moreover have "set_cur_file (int k) (?f\<lparr>f_offset := of_nat (off + 1)\<rparr>) (s\<lparr>mem := m\<rparr>) =
      Some (with_files ((cur_files s)[k := ?f\<lparr>f_offset := of_nat (off + 1)\<rparr>]) (s\<lparr>mem := m\<rparr>))" for m
    using cur_file_in(2) [of "s\<lparr>mem := m\<rparr>" k] cur k(1) by simp
  moreover have "user_area a 1 s = Some p" using stable_user_area [OF area] by simp
  moreover have "f_inode ?f \<noteq> 0" using k(2,3) by simp
  ultimately show ?thesis
    using cur(1) k(1) lt by (simp add: file_read_def Let_def w rd k(4,6) add.commute)
qed

text \<open>The call with any buffer: the other descriptors stay as they are.\<close>

lemma call_read_byte:
  assumes r: "user_ready a p s" and f: "byte_open_at p k ino off s" and len: "length buf \<le> 2048"
  shows "\<exists>v. (if off < file_len (mem s) (file_sys s) ino
      then (buf \<noteq> [] \<longrightarrow> call_read env a (int k) buf 1 s = Some (1, file_byte (mem s) (file_sys s) ino off # tl buf, v)) \<and>
        byte_open_at p k ino (off + 1) v
      else (\<forall>n. call_read env a (int k) buf n s = Some (0, buf, v)) \<and> byte_open_at p k ino off v) \<and>
    user_ready a p v \<and> same_outside p 2048 (mem s) (mem v) \<and> file_sys v = file_sys s \<and> console_writes p [] s v \<and>
    (\<forall>j. j \<noteq> k \<longrightarrow> cur_files v ! j = cur_files s ! j)"
proof -
  let ?len = "file_len (mem s) (file_sys s) ino"
  define s1 where "s1 = s\<lparr>mem := copied p (\<lambda>j. buf ! j) (length buf) (mem s)\<rparr>"
  note st = store_buffer [OF r len, folded s1_def]
  have s1: "same_task s s1" "same_outside p 2048 (mem s) (mem s1)" "file_sys s1 = file_sys s" "cur_files s1 = cur_files s"
    using copied_outside [OF len] by (simp_all add: s1_def same_task_def)
  note b1 = bytes_same [OF f s1(2,3)]
  have f1: "byte_open_at p k ino off s1" using f b1(2-4) by (simp add: byte_open_at_def s1(3,4))
  have k: "2 \<le> k" "k < 8" "in_use (cur_files s1 ! k)" "f_fops (cur_files s1 ! k) = Some FileFops" using f1 by (simp_all add: byte_open_at_def)
  have ready: "get_cur_task s1 \<noteq> 0" "length (cur_files s1) = 8" "stable_area a p 2048 s1" using st(2) by (simp_all add: user_ready_def)
  have w1: "console_writes p [] s s1" using console_writes_mem [OF r s1(2)] by (simp add: s1_def)
  have img: "image_ok (mem s) (file_sys s)" "ino < fs_num_inodes (mem s) (file_sys s)" using f by (simp_all add: byte_open_at_def)
  note same = same_image_file [OF b1(5) img]
  show ?thesis
  proof (cases "off < ?len")
    case True
    then have off: "off < file_len (mem s1) (file_sys s1) ino" using same(1) by (simp add: s1(3))
    let ?g = "\<lambda>j. file_byte (mem s1) (file_sys s1) ino (off + j)"
    define s2 where "s2 = s1\<lparr>mem := copied p ?g 1 (mem s1)\<rparr>"
    let ?u = "with_files ((cur_files s1)[k := (cur_files s1 ! k)\<lparr>f_offset := of_nat (off + 1)\<rparr>]) s2"
    have out: "same_outside p 2048 (mem s1) (mem s2)" using copied_outside [of 1 2048 p] by (simp add: s2_def)
    have rd: "do_read ticks intrs (int k) a 1 s1 = Some (1, ?u)" for ticks intrs
      using file_read_byte [OF f1 ready off] do_read_open [OF st(2) k(2-4)] by (simp add: fops_read_def s2_def)
    have r2: "user_ready a p s2" using user_ready_mem [OF st(2) out [unfolded s2_def, simplified]] by (simp add: s2_def)
    have r3: "user_ready a p ?u" by (rule user_ready_files [OF r2]) (use ready(2) k(1) in \<open>simp_all add: s2_def\<close>)
    have "user_loads a (length buf) ?u = Some (map ?g [0..<1] @ drop 1 buf)" if "buf \<noteq> []"
      by (rule buffer_after [where m = "mem s"]) (use r3 len that in \<open>auto simp: user_ready_def s2_def s1_def Suc_le_eq\<close>)
    moreover have "?g 0 = file_byte (mem s) (file_sys s) ino off"
      using same(4) [of off] True room_bound [of off ?len] div_le_mono [of off ?len 4096] by (simp add: s1(3) file_room_def)
    ultimately have call: "buf \<noteq> [] \<longrightarrow> call_read env a (int k) buf 1 s = Some (1, file_byte (mem s) (file_sys s) ino off # tl buf, ?u)"
      using st(1) rd by (auto simp: call_read_def drop_Suc simp del: user_loads.simps user_stores.simps)
    have out2: "same_outside p 2048 (mem s) (mem ?u)" using same_outside_trans [OF s1(2) out] by simp
    have fs: "file_sys ?u = file_sys s" by (simp add: s2_def s1(3))
    have "off + 1 < 2 ^ 31"
    proof -
      have "?len div 4096 < 1023" using f by (auto simp: byte_open_at_def image_ok_def)
      then show ?thesis using room_bound [OF True] by simp
    qed
    then have "byte_open_at p k ino (off + 1) ?u"
      using f1 bytes_same(2-4) [OF f out2 fs] ready(2) k fs s1(3) by (simp add: byte_open_at_def in_use_def)
    moreover have "console_writes p [] s ?u"
    proof -
      have "console_writes p [] s1 s2" using console_writes_mem [OF st(2) out] by (simp add: s2_def)
      then show ?thesis using console_writes_append [OF w1] by (intro console_writes_files) simp
    qed
    ultimately show ?thesis using call r3 out2 fs True s1(4) by (intro exI [of _ ?u]) simp
  next
    case False
    have "unat (of_nat off :: u32) = off" using f1 by (simp add: byte_open_at_def unat_of_nat_u32)
    then have "f_offset (cur_files s1 ! k) \<ge> inode_len (mem s1) (f_inode (cur_files s1 ! k))"
      using f1 False same(1) by (simp add: byte_open_at_def word_le_nat_alt file_len_def s1(3))
    then have "file_read (int k) a n s1 = Some (0, s1)" for n
      using f1 ready cur_file_in(1) [OF ready(1), of k] by (simp add: file_read_def byte_open_at_def)
    then have "do_read ticks intrs (int k) a n s1 = Some (0, s1)" for ticks intrs n
      using do_read_open [OF st(2) k(2-4)] by (simp add: fops_read_def)
    moreover have "user_loads a (length buf) s1 = Some buf"
      using load_buffer [OF st(2) _ order_refl len] map_nth_take [of "length buf" "buf"] by (simp add: s1_def)
    ultimately have "call_read env a (int k) buf n s = Some (0, buf, s1)" for n
      using st(1) by (simp add: call_read_def del: user_loads.simps user_stores.simps)
    then show ?thesis using False f1 st(2) s1 w1 by (intro exI [of _ s1]) simp
  qed
qed

section \<open>The byte sources of the kernel\<close>

lemma bytes_next:
  assumes "c # cs = bytes_from m fs ino off"
  shows "off < file_len m fs ino" and "c = [file_byte m fs ino off]" and "cs = bytes_from m fs ino (off + 1)"
proof -
  show "off < file_len m fs ino" using assms by (auto simp: bytes_from_def intro: ccontr)
  then have "bytes_from m fs ino off = [file_byte m fs ino off] # bytes_from m fs ino (off + 1)"
    by (simp add: bytes_from_def upt_conv_Cons)
  then show "c = [file_byte m fs ino off]" "cs = bytes_from m fs ino (off + 1)" using assms by simp_all
qed

text \<open>A read leaves the other descriptors as they are.\<close>

lemma read_byte_keeps:
  assumes h: "kernel_bytes a p fd cs s" and ne: "fd' \<noteq> fd" and rd: "call_read env a fd [c] 1 s = Some (r, b, v)"
  shows "(kernel_bytes a p fd' ds s \<longrightarrow> kernel_bytes a p fd' ds v) \<and> (kernel_shut a p fd' s \<longrightarrow> kernel_shut a p fd' v)"
proof -
  obtain k ino off where k: "fd = int k" "byte_open_at p k ino off s" "user_ready a p s"
    using h by (auto simp: kernel_bytes_def)
  have v: "user_ready a p v" "same_outside p 2048 (mem s) (mem v)" "file_sys v = file_sys s"
    "\<forall>j. j \<noteq> k \<longrightarrow> cur_files v ! j = cur_files s ! j"
    using call_read_byte [OF k(3,2), of "[c]" env] rd by (auto simp: k(1) split: if_splits)
  have "kernel_bytes a p fd' ds v" if "kernel_bytes a p fd' ds s"
  proof -
    from that obtain j where j: "fd' = int j" by (auto simp: kernel_bytes_def)
    then show ?thesis using bytes_kept [of a p j ds s v] that v ne k(1) by simp
  qed
  moreover have "kernel_shut a p fd' v" if "kernel_shut a p fd' s"
    using that v ne k(1) by (auto simp: kernel_shut_def)
  ultimately show ?thesis by blast
qed

text \<open>So they are behind any read of the program, and nothing has been written.\<close>

lemma read_beside:
  assumes h: "kernel_bytes a p fd cs s" and rd: "call_read env a fd buf n s = Some (r, b, v)" and len: "length buf \<le> 2048"
    and n: "cs = [] \<or> n = 1 \<and> buf \<noteq> []" and ne: "fd \<noteq> int q"
  shows "cur_files v ! q = cur_files s ! q" and "console_writes p [] s v"
proof -
  obtain k ino off where k: "fd = int k" "byte_open_at p k ino off s" "user_ready a p s" "cs = bytes_from (mem s) (file_sys s) ino off"
    using h by (auto simp: kernel_bytes_def)
  have "cs \<noteq> [] \<longleftrightarrow> off < file_len (mem s) (file_sys s) ino" by (auto simp: k(4) bytes_from_def)
  then show "cur_files v ! q = cur_files s ! q" "console_writes p [] s v"
    using call_read_byte [OF k(3,2) len, of env] rd n ne by (auto simp: k(1) split: if_splits)
qed

lemma close_result_bytes:
  assumes "kernel_bytes a p fd [] s \<or> kernel_shut a p fd s"
  shows "\<exists>r v. do_close dev fd s = Some (r, v) \<and> kernel_shut a p fd v \<and> console_writes p [] s v \<and>
    (\<forall>fd' ds. fd' \<noteq> fd \<longrightarrow> (kernel_bytes a p fd' ds s \<longrightarrow> kernel_bytes a p fd' ds v) \<and> (kernel_shut a p fd' s \<longrightarrow> kernel_shut a p fd' v)) \<and>
    (\<forall>q. fd \<noteq> int q \<longrightarrow> cur_files v ! q = cur_files s ! q)"
  using assms
proof
  assume "kernel_bytes a p fd [] s"
  then obtain k ino off where k: "fd = int k" "byte_open_at p k ino off s" "user_ready a p s" by (auto simp: kernel_bytes_def)
  then have f: "2 \<le> k" "k < 8" "in_use (cur_files s ! k)" "f_fops (cur_files s ! k) = Some FileFops" "length (cur_files s) = 8"
    "get_cur_task s \<noteq> 0" by (simp_all add: byte_open_at_def user_ready_def)
  let ?v = "with_files ((cur_files s)[k := closed_file (cur_files s ! k)]) s"
  note c = do_close_file(1) [OF k(3) f(1-4), of dev] do_close_file(2) [OF k(3) f(1-4)]
  have files: "cur_files ?v = (cur_files s)[k := closed_file (cur_files s ! k)]" using f(6) by simp
  have "kernel_shut a p fd ?v" using c(2) f(1,2,5) open_file_in_use(2) unfolding kernel_shut_def files k(1) by auto
  moreover have "console_writes p [] s ?v" using console_writes_files [OF console_writes_nil [OF k(3)]] .
  moreover have "kernel_bytes a p fd' ds ?v" if "fd' \<noteq> fd" "kernel_bytes a p fd' ds s" for fd' ds
  proof -
    from that(2) obtain j where j: "fd' = int j" by (auto simp: kernel_bytes_def)
    then have "cur_files ?v ! j = cur_files s ! j" using that(1) k(1) files by simp
    then show ?thesis using bytes_kept [of a p j ds s ?v] that(2) c(2) j by simp
  qed
  moreover have "kernel_shut a p fd' ?v" if "fd' \<noteq> fd" "kernel_shut a p fd' s" for fd'
    using that c(2) k(1) unfolding kernel_shut_def files by auto
  moreover have "cur_files ?v ! q = cur_files s ! q" if "fd \<noteq> int q" for q using that files k(1) by simp
  ultimately show ?thesis using c(1) k(1) by blast
next
  assume h: "kernel_shut a p fd s"
  then obtain k where k: "fd = int k" "2 \<le> k" "k < 8" "\<not> in_use (cur_files s ! k)" "user_ready a p s" by (auto simp: kernel_shut_def)
  then have "do_close dev fd s = Some (- 1, s)"
    using cur_file_in(1) [of s k] by (simp add: do_close_def user_ready_def in_use_def)
  then show ?thesis using h console_writes_nil [OF k(5)] by blast
qed

text \<open>The descriptor \<^term>\<open>q\<close>, which is none of those that are read, keeps what it has, \<^term>\<open>f\<close>, and the task
  keeps its text page.\<close>

definition beside :: "u32 \<Rightarrow> nat \<Rightarrow> file_t \<Rightarrow> 'a kbd_scheme \<Rightarrow> bool" where
  "beside p q f s = (cur_files s ! q = f \<and> shows_page p s)"

definition bytes_beside :: "u32 \<Rightarrow> u32 \<Rightarrow> nat \<Rightarrow> file_t \<Rightarrow> int \<Rightarrow> u8 list list \<Rightarrow> 'a kbd_scheme \<Rightarrow> bool" where
  "bytes_beside a p q f fd cs s = (kernel_bytes a p fd cs s \<and> beside p q f s \<and> fd \<noteq> int q)"

definition shut_beside :: "u32 \<Rightarrow> u32 \<Rightarrow> nat \<Rightarrow> file_t \<Rightarrow> int \<Rightarrow> 'a kbd_scheme \<Rightarrow> bool" where
  "shut_beside a p q f fd s = (kernel_shut a p fd s \<and> beside p q f s \<and> fd \<noteq> int q)"

lemmas beside_defs = bytes_beside_def shut_beside_def beside_def

lemma kernel_bytes_page: "length pg = 4000 \<Longrightarrow> kernel_bytes a p fd cs s \<Longrightarrow> kernel_bytes a p fd cs (s\<lparr>video_mem := pg\<rparr>)"
  using user_ready_page by (fastforce simp: kernel_bytes_def byte_open_at_def page_fields)

lemma kernel_shut_page: "length pg = 4000 \<Longrightarrow> kernel_shut a p fd s \<Longrightarrow> kernel_shut a p fd (s\<lparr>video_mem := pg\<rparr>)"
  using user_ready_page by (fastforce simp: kernel_shut_def page_fields)

lemma beside_page: "beside p q f (s\<lparr>video_mem := pg\<rparr>) = beside p q f s"
  by (simp add: beside_def page_fields)

interpretation bytes: page_sources "kernel_sys dev env exec a" "\<lambda>s. user_ready a p s \<and> beside p q f s" "console_writes p" "bytes_beside a p q f"
    "shut_beside a p q f" "kernel_video a" vidmap_base video_mem "drawn p"
  for dev env exec a p q f
proof unfold_locales
  show "load_page (kernel_video a) vidmap_base w = Some (video_mem w)" if "user_ready a p w \<and> beside p q f w" for w :: "'a kbd_scheme"
    using that shown_page_at [of p w] by (simp add: kernel_video_def user_page_def beside_def)
  show "\<exists>v. store_page (kernel_video a) vidmap_base pg w = Some v \<and> (user_ready a p v \<and> beside p q f v) \<and> video_mem v = pg \<and> drawn p w v \<and>
      (\<forall>fd cs. bytes_beside a p q f fd cs w \<longrightarrow> bytes_beside a p q f fd cs v) \<and> (\<forall>fd. shut_beside a p q f fd w \<longrightarrow> shut_beside a p q f fd v)"
    if "user_ready a p w \<and> beside p q f w" "length pg = length (video_mem w)" for pg and w :: "'a kbd_scheme"
  proof -
    have w: "user_ready a p w" "beside p q f w" "length pg = 4000" using that ready_page by auto
    have "store_page (kernel_video a) vidmap_base pg w = Some (w\<lparr>video_mem := pg\<rparr>)"
      using shown_page_at [of p w] w(2) by (simp add: kernel_video_def draw_user_page_def beside_def)
    then show ?thesis using w user_ready_page [OF w(1,3)] page_drawn [OF w(1,3)] kernel_bytes_page [OF w(3)] kernel_shut_page [OF w(3)]
      by (intro exI [of _ "w\<lparr>video_mem := pg\<rparr>"]) (auto simp: bytes_beside_def shut_beside_def beside_page)
  qed
  show "drawn p w v \<and> video_mem v = video_mem w"
    if "user_ready a p w \<and> beside p q f w" "user_ready a p v \<and> beside p q f v" "console_writes p [] w v" for w v :: "'a kbd_scheme"
    using nothing_drawn [of a p w v] that by (simp add: beside_def)
  show "drawn p w u" if "drawn p w v" "drawn p v u" for w v u :: "'a kbd_scheme"
    by (rule drawn_trans [OF that])
  show "console_writes p [] w w" if "user_ready a p w \<and> beside p q f w" for w :: "'a kbd_scheme"
    using that console_writes_nil by blast
  show "console_writes p (xs @ ys) w u" if "console_writes p xs w v" "console_writes p ys v u" for xs ys and w v u :: "'a kbd_scheme"
    by (rule console_writes_append [OF that])
  show "\<exists>r v. sys_write (kernel_sys dev env exec a) 1 buf (int n) w = Some (r, v) \<and> r \<noteq> - 1 \<and> (user_ready a p v \<and> beside p q f v) \<and>
      console_writes p (take n buf) w v"
    if "user_ready a p w \<and> beside p q f w" "n \<le> length buf" "length buf \<le> 2048" for w :: "'a kbd_scheme" and n buf
    using call_write_result [of a p w n buf dev] that same_task_simps(2) shows_page_writes by (fastforce simp: beside_def)
  show "user_ready a p w \<and> beside p q f w" if "bytes_beside a p q f fd cs w" for fd cs and w :: "'a kbd_scheme"
    using that by (simp add: bytes_beside_def kernel_bytes_def)
  show "user_ready a p w \<and> beside p q f w" if "shut_beside a p q f fd w" for fd and w :: "'a kbd_scheme"
    using that by (simp add: shut_beside_def kernel_shut_def)
  show "bytes_beside a p q f fd cs v"
    if "bytes_beside a p q f fd cs w" "n \<le> length buf" "length buf \<le> 2048"
      "sys_write (kernel_sys dev env exec a) 1 buf (int n) w = Some (r, v)" for fd cs n buf r and w v :: "'a kbd_scheme"
  proof -
    from that(1) obtain k where k: "fd = int k" "user_ready a p w" by (auto simp: kernel_bytes_def bytes_beside_def)
    have v: "user_ready a p v" "same_task w v" "console_writes p (take n buf) w v"
      using call_write_result [OF k(2) that(2,3), of dev] that(4) by auto
    then have "same_outside p 2048 (mem w) (mem v)" by (simp add: console_writes_def)
    then show ?thesis using bytes_kept [of a p k cs w v] that(1) k(1) same_task_simps [of w v] v shows_page_writes [OF _ v(3)]
      by (simp add: beside_defs)
  qed
  show "\<exists>r v. sys_close (kernel_sys dev env exec a) fd w = Some (r, v) \<and> shut_beside a p q f fd v \<and> console_writes p [] w v"
    if "bytes_beside a p q f fd [] w \<or> shut_beside a p q f fd w" for fd and w :: "'a kbd_scheme"
    using close_result_bytes [of a p fd w dev] that shows_page_writes by (fastforce simp: beside_defs)
  show "(bytes_beside a p q f fd' ds w \<longrightarrow> bytes_beside a p q f fd' ds v) \<and> (shut_beside a p q f fd' w \<longrightarrow> shut_beside a p q f fd' v)"
    if "bytes_beside a p q f fd [] w \<or> shut_beside a p q f fd w" "fd' \<noteq> fd" "sys_close (kernel_sys dev env exec a) fd w = Some (r, v)"
    for fd fd' ds r and w v :: "'a kbd_scheme"
    using close_result_bytes [of a p fd w dev] that shows_page_writes by (fastforce simp: beside_defs)
  show "(bytes_beside a p q f fd' ds w \<longrightarrow> bytes_beside a p q f fd' ds v) \<and> (shut_beside a p q f fd' w \<longrightarrow> shut_beside a p q f fd' v)"
    if "bytes_beside a p q f fd cs w" "fd' \<noteq> fd" "sys_read (kernel_sys dev env exec a) fd [c] 1 w = Some (r, b, v)"
    for fd cs fd' c r b ds and w v :: "'a kbd_scheme"
    using read_byte_keeps [of a p fd cs w fd' env c r b v ds] read_beside [of a p fd cs w env "[c]" 1 r b v q] that shows_page_writes
    by (auto simp: beside_defs)
  show "\<exists>b v. sys_read (kernel_sys dev env exec a) fd buf (int 1) w = Some (int (length c), c @ b, v) \<and>
      length (c @ b) = length buf \<and> 0 < length c \<and> length c \<le> 1 \<and> bytes_beside a p q f fd cs v \<and> console_writes p [] w v"
    if "bytes_beside a p q f fd (c # cs) w" "1 \<le> length buf" "length buf \<le> 2048" for fd c cs buf and w :: "'a kbd_scheme"
  proof -
    note h = that
    from h(1) obtain k ino off where k: "fd = int k" "byte_open_at p k ino off w" "user_ready a p w"
      "c # cs = bytes_from (mem w) (file_sys w) ino off" by (auto simp: kernel_bytes_def bytes_beside_def)
    note n = bytes_next [OF k(4)]
    obtain v where v: "call_read env a fd buf 1 w = Some (1, c @ tl buf, v)" "byte_open_at p k ino (off + 1) v" "user_ready a p v"
      "same_outside p 2048 (mem w) (mem v)" "file_sys v = file_sys w" "console_writes p [] w v" "\<forall>j. j \<noteq> k \<longrightarrow> cur_files v ! j = cur_files w ! j"
      using call_read_byte [OF k(3,2) h(3), of env] n(1,2) h(2) by (auto simp: k(1))
    have "kernel_bytes a p fd cs v"
      unfolding k(1) by (rule kernel_bytesI [OF v(3,2)]) (simp only: n(3) bytes_same(1) [OF k(2) v(4,5)])
    then have "bytes_beside a p q f fd cs v" using h(1) v(7) k(1) shows_page_writes [OF _ v(6)] by (auto simp: beside_defs)
    then show ?thesis using v(1,6) n(2) h(2) by (intro exI [of _ "tl buf"] exI [of _ v]) simp
  qed
  show "\<exists>v. sys_read (kernel_sys dev env exec a) fd buf (int n) w = Some (0, buf, v) \<and> bytes_beside a p q f fd [] v \<and>
      console_writes p [] w v"
    if "bytes_beside a p q f fd [] w" "n \<le> 1" "n \<le> length buf" "length buf \<le> 2048" for fd n buf and w :: "'a kbd_scheme"
  proof -
    note h = that
    from h(1) obtain k ino off where k: "fd = int k" "byte_open_at p k ino off w" "user_ready a p w"
      "[] = bytes_from (mem w) (file_sys w) ino off" by (auto simp: kernel_bytes_def bytes_beside_def)
    then have "\<not> off < file_len (mem w) (file_sys w) ino" by (auto simp: bytes_from_def)
    then obtain v where v: "call_read env a fd buf (int n) w = Some (0, buf, v)" "byte_open_at p k ino off v" "user_ready a p v"
      "same_outside p 2048 (mem w) (mem v)" "file_sys v = file_sys w" "console_writes p [] w v" "\<forall>j. j \<noteq> k \<longrightarrow> cur_files v ! j = cur_files w ! j"
      using call_read_byte [OF k(3,2) h(4), of env] by (auto simp: k(1))
    have "kernel_bytes a p fd [] v"
      unfolding k(1) by (rule kernel_bytesI [OF v(3,2)]) (simp only: k(4) bytes_same(1) [OF k(2) v(4,5)])
    then have "bytes_beside a p q f fd [] v" using h(1) v(7) k(1) shows_page_writes [OF _ v(6)] by (auto simp: beside_defs)
    then show ?thesis using v(1,6) by (intro exI [of _ v]) simp
  qed
qed

section \<open>The pictures on the kernel\<close>

lemma open_bytes:
  assumes r: "user_ready a p s" and k: "lowest_free (cur_files s) k"
    and name: "0 \<notin> set name" "length name \<le> 32"
      "read_dentry_by_name (name @ replicate (32 - length name) 0) blank_dentry s = Some (0, de)" "file_type de = 2"
    and img: "image_ok (mem s) (file_sys s)" "inode_num de < fs_num_inodes (mem s) (file_sys s)"
      "clear_of_image (mem s) (file_sys s) p 2048" "inode_addr (file_sys s) (inode_num de) \<noteq> 0"
  shows "\<exists>u f. do_open dev (name @ [0]) s = Some (int k, u) \<and> user_ready a p u \<and> console_writes p [] s u \<and> mem u = mem s \<and>
    file_sys u = file_sys s \<and> kernel_bytes a p (int k) (bytes_from (mem s) (file_sys s) (inode_num de) 0) u \<and>
    cur_files u = (cur_files s)[k := f] \<and> in_use f"
proof -
  let ?f = "open_file de (get_inode (inode_num de) s) (cur_files s ! k)"
  let ?u = "with_files ((cur_files s)[k := ?f]) s"
  have c: "get_cur_task s \<noteq> 0" "length (cur_files s) = 8" using r by (simp_all add: user_ready_def)
  have k8: "2 \<le> k" "k < 8" using k by (simp_all add: lowest_free_def)
  have o: "do_open dev (name @ [0]) s = Some (int k, ?u)"
    by (rule open_result [OF c k _ name(3)]) (use copy_name_pads [OF name(1), of "[]" "[]"] name(2,4) in simp_all)
  have files: "cur_files ?u = (cur_files s)[k := ?f]" using c by simp
  have ru: "user_ready a p ?u" by (rule user_ready_files [OF r]) (use c k8 in simp_all)
  have "byte_open_at p k (inode_num de) 0 ?u"
    using k8 c(2) img open_file_in_use(1) name(4) inode_at [OF img(2)] unfolding byte_open_at_def files
    by simp (simp add: open_file_def type_fops_def)
  then have "kernel_bytes a p (int k) (bytes_from (mem s) (file_sys s) (inode_num de) 0) ?u"
    by (intro kernel_bytesI [OF ru]) simp_all
  moreover have "console_writes p [] s ?u" by (rule console_writes_files [OF console_writes_nil [OF r]])
  ultimately show ?thesis using o ru files open_file_in_use(1) by (intro exI [of _ ?u] exI [of _ ?f]) simp
qed

text \<open>With two descriptors free the pictures are read to their ends; another descriptor is as it was.\<close>

lemma frames_read:
  assumes r: "user_ready a p s" and k: "lowest_free (cur_files s) k0" "lowest_free ((cur_files s)[k0 := f]) k1" "in_use f"
    and n0: "0 \<notin> set n0" "length n0 \<le> 32" and n1: "0 \<notin> set n1" "length n1 \<le> 32"
    and d0: "read_dentry_by_name (n0 @ replicate (32 - length n0) 0) blank_dentry s = Some (0, d0)" "file_type d0 = 2"
      "inode_num d0 < fs_num_inodes (mem s) (file_sys s)" "inode_addr (file_sys s) (inode_num d0) \<noteq> 0"
    and d1: "read_dentry_by_name (n1 @ replicate (32 - length n1) 0) blank_dentry s = Some (0, d1)" "file_type d1 = 2"
      "inode_num d1 < fs_num_inodes (mem s) (file_sys s)" "inode_addr (file_sys s) (inode_num d1) \<noteq> 0"
    and img: "image_ok (mem s) (file_sys s)" "clear_of_image (mem s) (file_sys s) p 2048"
    and t0: "t0 = map (file_byte (mem s) (file_sys s) (inode_num d0)) [0..<file_len (mem s) (file_sys s) (inode_num d0)]"
    and t1: "t1 = map (file_byte (mem s) (file_sys s) (inode_num d1)) [0..<file_len (mem s) (file_sys s) (inode_num d1)]"
    and add: "add_all (frame_blinks junk 0 (rows_of t0) (rows_of t1)) (fi\<lparr>vmem := video_mem s\<rparr>) = Some g" and q: "q \<noteq> k0" "q \<noteq> k1"
    and pg: "shows_page p s"
  shows "\<exists>h u. add_frames (kernel_sys dev env exec a) (kernel_video a) vidmap_base junk (n0 @ [0]) (n1 @ [0]) fi s = Some (Inr (h, u)) \<and>
    h\<lparr>vmem := video_mem u\<rparr> = g \<and> user_ready a p u \<and> shows_page p u \<and> drawn p s u \<and> cur_files u ! q = cur_files s ! q"
proof -
  let ?sys = "kernel_sys dev env exec a" and ?m = "mem s" and ?fs = "file_sys s" and ?q = "cur_files s ! q"
  have singles: "bytes_from ?m ?fs ino 0 = map (\<lambda>c. [c]) (map (file_byte ?m ?fs ino) [0..<file_len ?m ?fs ino])" for ino
    by (simp add: bytes_from_def)
  obtain v f0 where v: "do_open dev (n0 @ [0]) s = Some (int k0, v)" "user_ready a p v" "console_writes p [] s v" "mem v = ?m"
    "file_sys v = ?fs" "kernel_bytes a p (int k0) (map (\<lambda>c. [c]) t0) v" "cur_files v = (cur_files s)[k0 := f0]" "in_use f0"
    using open_bytes [OF r k(1) n0 d0(1,2) img(1) d0(3) img(2) d0(4), of dev] unfolding singles t0 by blast
  have len: "length (cur_files s) = 8" using r by (simp add: user_ready_def)
  have ne: "k1 \<noteq> k0" using k len by (auto simp: lowest_free_def)
  have k1: "lowest_free (cur_files v) k1"
  proof -
    have "in_use ((cur_files s)[k0 := f0] ! j) = in_use ((cur_files s)[k0 := f] ! j)" for j
      using k(1,3) v(8) len by (cases "j = k0") (simp_all add: lowest_free_def)
    then show ?thesis using k(2) unfolding v(7) lowest_free_def by simp
  qed
  have "read_dentry_by_name x d v = read_dentry_by_name x d s" for x d using same_search [of v s] v(4,5) by simp
  then obtain w f1 where w: "do_open dev (n1 @ [0]) v = Some (int k1, w)" "user_ready a p w" "console_writes p [] v w" "mem w = mem v"
    "file_sys w = file_sys v" "kernel_bytes a p (int k1) (map (\<lambda>c. [c]) t1) w" "cur_files w = (cur_files v)[k1 := f1]"
    using open_bytes [OF v(2) k1 n1 _ d1(2), of dev] d1(1,3,4) img unfolding v(4,5) singles t1 by auto
  have "kernel_bytes a p (int k0) (map (\<lambda>c. [c]) t0) w"
    by (rule bytes_kept [OF v(6) w(2)]) (use w(4,5,7) ne in \<open>simp_all add: same_outside_refl\<close>)
  moreover have sw: "console_writes p [] s w" using console_writes_append [OF v(3) w(3)] by simp
  moreover note page = nothing_drawn [OF r w(2) pg sw] and shows_page_writes [OF pg sw]
  ultimately have b: "bytes_beside a p q ?q (int k0) (map (\<lambda>c. [c]) t0) w" "bytes_beside a p q ?q (int k1) (map (\<lambda>c. [c]) t1) w" "int k0 \<noteq> int k1"
    using w(6,7) v(7) q ne by (simp_all add: beside_defs)
  from bytes.frames_added [OF b, of junk fi g dev env exec] add
  obtain h u where u: "rows_loop ?sys (kernel_video a) vidmap_base junk (int k0) (int k1) 0 (chr CHR ''0'') (chr CHR ''0'') False False fi w = Some (h, u)"
    "h\<lparr>vmem := video_mem u\<rparr> = g" "user_ready a p u" "beside p q ?q u" "drawn p w u" by (auto simp: page(1))
  have "add_frames ?sys (kernel_video a) vidmap_base junk (n0 @ [0]) (n1 @ [0]) fi s = Some (Inr (h, u))"
    using v(1) w(1) u(1) by (simp add: add_frames_def)
  then show ?thesis using u(2-4) drawn_trans [OF page(2) u(5)] by (auto simp: beside_def)
qed

text \<open>C12. The pictures of \<^verbatim>\<open>fish\<close> on this kernel, for a task whose terminal is displayed: with two descriptors free,
  \<^verbatim>\<open>add_frames\<close> opens the two files, reads them to their ends by turns, a byte at a time, and closes them. If the
  pictures fit on the right half of the page, it has then added exactly the blinks of the two, one for each
  place where one of them has something else than a space; and the kernel's text page, behind the address that
  \<^verbatim>\<open>vidmap\<close> gives, shows the first picture there, with a space where only the second has a character,
  and what it showed before where both are blank. But for that page and the task's descriptors and buffer
  the terminals and the memory are as they were.\<close>

theorem fish_shows_pictures:
  assumes r: "user_ready a p s" "shows_page p s" and k: "lowest_free (cur_files s) k0" "lowest_free ((cur_files s)[k0 := f]) k1" "in_use f"
    and n0: "0 \<notin> set n0" "length n0 \<le> 32" and n1: "0 \<notin> set n1" "length n1 \<le> 32"
    and d0: "read_dentry_by_name (n0 @ replicate (32 - length n0) 0) blank_dentry s = Some (0, d0)" "file_type d0 = 2"
      "inode_num d0 < fs_num_inodes (mem s) (file_sys s)" "inode_addr (file_sys s) (inode_num d0) \<noteq> 0"
    and d1: "read_dentry_by_name (n1 @ replicate (32 - length n1) 0) blank_dentry s = Some (0, d1)" "file_type d1 = 2"
      "inode_num d1 < fs_num_inodes (mem s) (file_sys s)" "inode_addr (file_sys s) (inode_num d1) \<noteq> 0"
    and img: "image_ok (mem s) (file_sys s)" "clear_of_image (mem s) (file_sys s) p 2048"
    and t0: "t0 = map (file_byte (mem s) (file_sys s) (inode_num d0)) [0..<file_len (mem s) (file_sys s) (inode_num d0)]"
    and t1: "t1 = map (file_byte (mem s) (file_sys s) (inode_num d1)) [0..<file_len (mem s) (file_sys s) (inode_num d1)]"
    and fit: "pictures_fit (rows_of t0) (rows_of t1)" and ij: "i < 25" "j < 40"
  shows "\<exists>g js u. add_frames (kernel_sys dev env exec a) (kernel_video a) vidmap_base junk (n0 @ [0]) (n1 @ [0]) (fish_start []) s = Some (Inr (g, u)) \<and>
    user_ready a p u \<and> drawn p s u \<and> fish_ok js (g\<lparr>vmem := video_mem u\<rparr>) \<and>
    blinks js g = rev (map start_blink (frame_blinks junk 0 (rows_of t0) (rows_of t1))) \<and>
    video_mem u ! (2 * (i * 80 + j + 40)) =
      (let c = picture_char (rows_of t0) i j in
       if place_visible c (picture_char (rows_of t1) i j) then (if c = 10 then 32 else c) else video_mem s ! (2 * (i * 80 + j + 40)))"
proof -
  have start: "(fish_start [])\<lparr>vmem := video_mem s\<rparr> = fish_start (video_mem s)" by (simp add: fish_start_def)
  obtain g js where g: "add_all (frame_blinks junk 0 (rows_of t0) (rows_of t1)) (fish_start (video_mem s)) = Some g" "fish_ok js g"
    "blinks js g = rev (map start_blink (frame_blinks junk 0 (rows_of t0) (rows_of t1))) @ blinks [] (fish_start (video_mem s))"
    "vmem g ! (2 * (i * 80 + j + 40)) =
      (if place_visible (picture_char (rows_of t0) i j) (picture_char (rows_of t1) i j)
       then (if picture_char (rows_of t0) i j = 10 then 32 else picture_char (rows_of t0) i j)
       else vmem (fish_start (video_mem s)) ! (2 * (i * 80 + j + 40)))"
    using pictures_shown [OF fish_start_ok [OF ready_page [OF r(1)]] _ fit, of junk i j] ij by auto
  have q: "0 \<noteq> k0" "0 \<noteq> k1" using k(1,2) by (auto simp: lowest_free_def)
  from frames_read [OF r(1) k n0 n1 d0 d1 img t0 t1 g(1) [folded start] q r(2), of dev env exec]
  obtain h u where u: "add_frames (kernel_sys dev env exec a) (kernel_video a) vidmap_base junk (n0 @ [0]) (n1 @ [0]) (fish_start []) s = Some (Inr (h, u))"
    "h\<lparr>vmem := video_mem u\<rparr> = g" "user_ready a p u" "drawn p s u" by blast
  have b: "blinks js h = blinks js g" "vmem g = video_mem u" unfolding u(2) [symmetric] by simp_all
  have "blinks [] (fish_start (video_mem s)) = []" "vmem (fish_start (video_mem s)) = video_mem s" by (simp_all add: blinks_def fish_start_def)
  then show ?thesis using u g(2-4) unfolding b by (intro exI [of _ h] exI [of _ js] exI [of _ u]) (simp add: b Let_def)
qed

text \<open>The task of \<^verbatim>\<open>grep\<close>, displayed, with its one file as both pictures.\<close>

definition displayed_demo :: "memory \<Rightarrow> kbd" where
  "displayed_demo m = user_demo\<lparr>mem := m, current_terminal_index := 1\<rparr>"

lemma displayed_fields:
  fixes s :: "'a kbd_scheme" and m d
  defines "u \<equiv> s\<lparr>mem := m, current_terminal_index := d\<rparr>"
  shows "cur_files u = cur_files s" "get_cur_task u = get_cur_task s" "is_user_ptr a u = is_user_ptr a s" "term_at i u = term_at i s"
    "stable_area a p n u = stable_area a p n (s\<lparr>mem := m\<rparr>)"
  by (simp_all add: u_def cur_files_def get_cur_task_def is_user_ptr_def task_at_def term_at_def stable_area_def)

lemma displayed_demo_sel:
  "mem (displayed_demo m) = m" "file_sys (displayed_demo m) = 0x10000" "cur_files (displayed_demo m) = task_files user_task"
  "read_dentry_by_name x d (displayed_demo m) = read_dentry_by_name x d (user_demo\<lparr>mem := m\<rparr>)"
  unfolding displayed_demo_def displayed_fields by (simp_all add: user_demo_sel same_search)

lemma displayed_demo_ready:
  assumes "ld32 m 0x1000 = 0x83"
  shows "user_ready 0x200000 0x200000 (displayed_demo m)"
proof -
  have s: "stable_area 0x200000 0x200000 2048 (user_demo\<lparr>mem := m\<rparr>)" using user_demo_mem_ready [OF assms] by (simp add: user_ready_def)
  have "term_at 1 user_demo = Some (terminal_demo\<lparr>chars_printed := 81\<rparr>)"
    unfolding user_demo_sel(9) by (simp add: terminals_demo_def term_at_def rdi_def rd_def)
  moreover have "visible 1 1 (terminal_demo\<lparr>chars_printed := 81\<rparr>) (displayed_demo m)"
    using terminal_demo_visible by (simp add: visible_def displayed_demo_def user_demo_sel(10-12))
  ultimately show ?thesis
    using user_demo_ready s unfolding user_ready_def displayed_demo_def displayed_fields by (simp add: user_demo_sel(7))
qed

lemma displayed_demo_page:
  assumes "ld32 m 0x1100 = 0x87"
  shows "shows_page 0x200000 (displayed_demo m)"
proof -
  have j: "2048 \<le> unat (0x1100 + of_nat j - 0x200000 :: u32)" if "j < 4" for j
  proof -
    have "j = 0 \<or> j = 1 \<or> j = 2 \<or> j = 3" using that by linarith
    then show ?thesis by (elim disjE) simp_all
  qed
  have d: "dword_at (cr3 (displayed_demo m) AND FIRST_20_BITS) 64 = 0x1100"
    by (simp add: displayed_demo_def user_demo_sel FIRST_20_BITS_def)
  show ?thesis using assms j unfolding shows_page_def d
    by (simp add: displayed_demo_def user_demo_sel entry_4mb_def VIDEO_def FIRST_10_BITS_def PAGE_SIZE_BIT_def RW_PRESENT_def)
qed

theorem fish_shows_pictures_witness:
  "\<exists>g js u. add_frames (kernel_sys (\<lambda>_ _. 0) (\<lambda>_. ([], [])) (\<lambda>_ _. None) 0x200000) (kernel_video 0x200000) vidmap_base demo_blink
       ([108, 115] @ [0]) ([108, 115] @ [0]) (fish_start []) (displayed_demo searching_mem) = Some (Inr (g, u)) \<and>
     fish_ok js (g\<lparr>vmem := video_mem u\<rparr>) \<and> video_mem u ! 80 = 108"
proof -
  let ?s = "displayed_demo searching_mem" and ?d = "\<lparr>file_name = ls_name, file_type = 2, inode_num = 0\<rparr>"
    and ?f = "task_files user_task ! 1"
  have k: "lowest_free (cur_files ?s) 2" "lowest_free ((cur_files ?s)[2 := ?f]) 3" "in_use ?f"
    by (simp_all add: displayed_demo_sel user_task_def task_demo_task_def lowest_free_def in_use_def FILE_OPEN_BIT_def)
  have nm: "ls_name = [108, 115] @ replicate (32 - length [108, 115 :: u8]) 0" by (simp add: ls_name_def bytes_of_def)
  note found = searching_found [folded displayed_demo_sel(4), unfolded nm]
  have t: "map (file_byte (mem ?s) (file_sys ?s) (inode_num ?d)) [0..<file_len (mem ?s) (file_sys ?s) (inode_num ?d)] = [108, 115, 10, 120]"
    using searching_ok(3) by (simp add: displayed_demo_sel searching_image)
  have fit: "pictures_fit (rows_of [108, 115, 10, 120]) (rows_of [108, 115, 10, 120])" by (simp add: pictures_fit_def)
  have img: "image_ok (mem ?s) (file_sys ?s)" "clear_of_image (mem ?s) (file_sys ?s) 0x200000 2048"
    "inode_num ?d < fs_num_inodes (mem ?s) (file_sys ?s)" "inode_addr (file_sys ?s) (inode_num ?d) \<noteq> 0"
    using searching_ok searching_image by (simp_all add: displayed_demo_sel inode_addr_def)
  have page: "shows_page 0x200000 ?s" by (rule displayed_demo_page) (simp add: searching_mem_def reading_mem_def st32_def fs_demo_mem_def ld32_def Let_def)
  show ?thesis
    using fish_shows_pictures [OF displayed_demo_ready [OF searching_image(6)] page k _ _ _ _ found _ _ _ found _ _ _ img(1,2) _ _ fit, of 0 0
        "\<lambda>_ _. 0" "\<lambda>_. ([], [])" "\<lambda>_ _. None" demo_blink] t img(3,4)
    by (simp add: picture_char_def row_char_def place_visible_def) blast
qed

end
