(* ===== verification/UserClock.thy ===== *)
theory UserClock
  imports UserRun
begin

text \<open>
  The clock on the kernel as a program uses it: opened, set to a frequency, waited for and closed. The operations of
  the driver change nothing that a program sees but the descriptor.
\<close>

unbundle bit_operations_syntax

section \<open>The clock as something to wait for\<close>

text \<open>The operations of the clock change the flags, the ports and masks, and the flag of the clock.\<close>

definition without_clock :: "'a kbd_scheme \<Rightarrow> 'a kbd_scheme" where
  "without_clock s = s\<lparr>eflags := 0, io_trace := [], master_mask := 0, slave_mask := 0, interrupt_received := 0\<rparr>"

definition clock_frame :: "'a kbd_scheme \<Rightarrow> 'a kbd_scheme \<Rightarrow> bool" where
  "clock_frame s u = (without_clock u = without_clock s)"

lemma without_clock_simps [simp]:
  "without_clock (s\<lparr>eflags := e\<rparr>) = without_clock s" "without_clock (s\<lparr>io_trace := t\<rparr>) = without_clock s"
  "without_clock (s\<lparr>master_mask := m\<rparr>) = without_clock s" "without_clock (s\<lparr>slave_mask := m\<rparr>) = without_clock s"
  "without_clock (s\<lparr>interrupt_received := i\<rparr>) = without_clock s"
  by (simp_all add: without_clock_def)

lemma clock_ops:
  "without_clock (rtc_init dev s) = without_clock s" "without_clock (enable_irq n s) = without_clock s"
  "without_clock (do_idt_rtc dev s) = without_clock s"
  by (simp_all add: rtc_init_def enable_irq_def do_idt_rtc_def rtc_process_interrupt_def send_eoi_def kernel_simps)

lemma set_frequency_frame: "\<exists>r u. rtc_set_frequency dev n s = Some (r, u) \<and> without_clock u = without_clock s"
proof -
  obtain r u where u: "rtc_set_frequency dev n s = Some (r, u)" using set_frequency_total [of dev n s] by blast
  moreover have "without_clock u = without_clock s"
    using u by (auto simp: rtc_set_frequency_def kernel_simps bind_eq_Some_conv split: if_splits)
  ultimately show ?thesis by blast
qed

lemma rtc_open_frame: "\<exists>u. rtc_open dev s = Some (0, u) \<and> clock_frame s u"
  using set_frequency_frame [of dev 2 "enable_irq 8 (rtc_init dev s)"] by (auto simp: rtc_open_def clock_frame_def clock_ops)

lemma rtc_write_frame: "\<exists>r u. rtc_write dev q n s = Some (r, u) \<and> clock_frame s u"
  using set_frequency_frame by (simp add: rtc_write_def clock_frame_def)

lemma without_clock_sel:
  "cur_files (without_clock s) = cur_files s" "mem (without_clock s) = mem s" "file_sys (without_clock s) = file_sys s"
  "get_cur_task (without_clock s) = get_cur_task s" "cr3 (without_clock s) = cr3 s" "is_user_ptr a (without_clock s) = is_user_ptr a s"
  "term_at i (without_clock s) = term_at i s" "cur_ptree (without_clock s) = cur_ptree s"
  "current_terminal_index (without_clock s) = current_terminal_index s" "visible e d t (without_clock s) = visible e d t s"
  "shown_at e d t (without_clock s) = shown_at e d t s"
  by (simp_all add: without_clock_def cur_files_def get_cur_task_def is_user_ptr_def task_at_def term_at_def visible_def shown_at_def)

lemma without_clock_ready: "user_ready a p (without_clock s) = user_ready a p s"
  by (simp add: user_ready_def stable_area_def without_clock_sel)

lemma without_clock_writes: "console_writes p xs r (without_clock s) = console_writes p xs r s"
  by (simp add: console_writes_def without_clock_sel)

lemma clock_frame_same:
  assumes "clock_frame s u"
  shows "cur_files u = cur_files s" "mem u = mem s" "file_sys u = file_sys s" "get_cur_task u = get_cur_task s"
    "user_ready a p u = user_ready a p s" "console_writes p xs r u = console_writes p xs r s"
  using assms without_clock_sel(1-4) [of s] without_clock_sel(1-4) [of u] without_clock_ready [of a p] without_clock_writes [of p xs r]
  by (metis clock_frame_def)+

text \<open>Descriptor \<^term>\<open>k\<close> of the task is the clock.\<close>

definition clock_ready :: "u32 \<Rightarrow> u32 \<Rightarrow> nat \<Rightarrow> 'a kbd_scheme \<Rightarrow> bool" where
  "clock_ready a p k s = (user_ready a p s \<and> k < 8 \<and> in_use (cur_files s ! k) \<and> f_fops (cur_files s ! k) = Some RtcFops)"

lemma clock_ready_same: "clock_ready a p k s \<Longrightarrow> user_ready a p u \<Longrightarrow> cur_files u = cur_files s \<Longrightarrow> clock_ready a p k u"
  by (simp add: clock_ready_def)

text \<open>A read of the clock that the next tick ends.\<close>

lemma clock_wait:
  assumes r: "clock_ready a p k s" and len: "length g = 4"
  shows "\<exists>g' u. call_read (\<lambda>s. ([do_idt_rtc dev], intrs)) a (int k) g 4 s = Some (0, g', u) \<and> length g' = 4 \<and>
    clock_ready a p k u \<and> console_writes p [] s u"
proof -
  have ur: "user_ready a p s" and k: "k < 8" "in_use (cur_files s ! k)" "f_fops (cur_files s ! k) = Some RtcFops"
    using r by (simp_all add: clock_ready_def)
  have l: "length g \<le> 2048" using len by simp
  define s1 where "s1 = s\<lparr>mem := copied p (\<lambda>j. g ! j) (length g) (mem s)\<rparr>"
  note st = store_buffer [OF ur l, folded s1_def]
  have f: "cur_files s1 = cur_files s" by (simp add: s1_def)
  have "same_outside p 2048 (mem s) (mem s1)" using copied_outside [OF l] by (simp add: s1_def)
  then have w: "console_writes p [] s s1" using console_writes_mem [OF ur] by (simp add: s1_def)
  define u where "u = do_idt_rtc dev (s1\<lparr>interrupt_received := 0\<rparr>)"
  have "rtc_read [do_idt_rtc dev] s1 = Some (0, u)"
    by (simp add: rtc_read_def u_def rtc_spin_received tick_received)
  then have "do_read [do_idt_rtc dev] intrs (int k) a 4 s1 = Some (0, u)"
    using do_read_open [OF st(2) k [folded f]] by (simp add: fops_read_def)
  moreover have c: "clock_frame s1 u" by (simp add: clock_frame_def u_def clock_ops)
  note same = clock_frame_same [OF c]
  have ru: "user_ready a p u" using same(5) st(2) by simp
  obtain g' where g': "user_loads a (length g) u = Some g'" "length g' = length g"
    using load_buffer [OF ru _ order_refl l, of "\<lambda>j. g ! j"] same(2) by (simp add: s1_def)
  ultimately have "call_read (\<lambda>s. ([do_idt_rtc dev], intrs)) a (int k) g 4 s = Some (0, g', u)"
    using st(1) by (simp add: call_read_def)
  moreover have "console_writes p [] s u" using same(6) w by simp
  moreover have "clock_ready a p k u" by (rule clock_ready_same [OF r ru]) (simp add: same(1) f)
  ultimately show ?thesis using g'(2) len by auto
qed

text \<open>Opening the clock.\<close>

lemma open_clock:
  assumes r: "user_ready a p s" and k: "lowest_free (cur_files s) k"
    and de: "read_dentry_by_name (bytes_of ''rtc'' @ replicate 29 0) blank_dentry s = Some (0, de)" "file_type de = 0"
  shows "\<exists>u f. do_open dev (cstr ''rtc'') s = Some (int k, u) \<and> clock_ready a p k u \<and> console_writes p [] s u \<and> mem u = mem s \<and>
    file_sys u = file_sys s \<and> cur_files u = (cur_files s)[k := f] \<and> in_use f"
proof -
  have c: "get_cur_task s \<noteq> 0" "length (cur_files s) = 8" using r by (simp_all add: user_ready_def)
  have k8: "2 \<le> k" "k < 8" using k by (simp_all add: lowest_free_def)
  let ?f = "open_file de (get_inode (inode_num de) s) (cur_files s ! k)"
  let ?u = "with_files ((cur_files s)[k := ?f]) s"
  obtain u where u: "rtc_open dev ?u = Some (0, u)" "clock_frame ?u u" using rtc_open_frame by blast
  note same = clock_frame_same [OF u(2)]
  have nm: "copy_name (cstr ''rtc'') 0 (replicate 32 0) = Some (bytes_of ''rtc'' @ replicate 29 0)"
    using copy_name_pads [of "bytes_of ''rtc''" "[]" "[]"] by (simp add: cstr_def bytes_of_def)
  have "do_open dev (cstr ''rtc'') s = Some (int k, u)"
    using c nm de lowest_free_fd [OF c(2) k] cur_file_in [OF c(1), of k] k8 c(2) u(1)
    by (simp add: do_open_def task_at_def cur_files_def [symmetric] open_file_def type_fops_def fops_open_def)
  moreover have "user_ready a p ?u" by (rule user_ready_files [OF r]) (use c k8 in simp_all)
  then have "clock_ready a p k u"
    using same(1,5) k8 c(2) open_file_in_use(1) de(2) by (simp add: clock_ready_def) (simp add: open_file_def type_fops_def)
  moreover have "console_writes p [] s u"
    unfolding same(6) by (rule console_writes_files [OF console_writes_nil [OF r]])
  moreover have "cur_files u = (cur_files s)[k := ?f]" "mem u = mem s" "file_sys u = file_sys s" using same(1-3) c(1) by simp_all
  ultimately show ?thesis using open_file_in_use(1) by blast
qed

text \<open>Setting its frequency.\<close>

lemma write_clock:
  assumes r: "clock_ready a p k s" and len: "length buf = 4"
  shows "\<exists>r u. call_write dev a (int k) buf 4 s = Some (r, u) \<and> clock_ready a p k u \<and> console_writes p [] s u"
proof -
  have ur: "user_ready a p s" and k: "k < 8" "in_use (cur_files s ! k)" "f_fops (cur_files s ! k) = Some RtcFops"
    using r by (simp_all add: clock_ready_def)
  have l: "length buf \<le> 2048" using len by simp
  define s1 where "s1 = s\<lparr>mem := copied p (\<lambda>j. buf ! j) (length buf) (mem s)\<rparr>"
  note st = store_buffer [OF ur l, folded s1_def]
  have f: "cur_files s1 = cur_files s" by (simp add: s1_def)
  have "same_outside p 2048 (mem s) (mem s1)" using copied_outside [OF l] by (simp add: s1_def)
  then have w: "console_writes p [] s s1" using console_writes_mem [OF ur] by (simp add: s1_def)
  obtain c u where u: "rtc_write dev p 4 s1 = Some (c, u)" "clock_frame s1 u" using rtc_write_frame by blast
  note same = clock_frame_same [OF u(2)]
  have ru: "user_ready a p u" using same(5) st(2) by simp
  have "user_area a 4 s1 = Some p" by (rule stable_user_area [of a p 2048]) (use st(2) in \<open>simp_all add: user_ready_def\<close>)
  then have "do_write dev (int k) a 4 s1 = Some (c, u)"
    using st(2) k u(1) f cur_file_in(1) [of s1 k] by (simp add: do_write_def user_ready_def in_use_def fops_write_def)
  then have "call_write dev a (int k) buf 4 s = Some (c, u)" using st(1) by (simp add: call_write_def)
  moreover have "console_writes p [] s u" using same(6) w by simp
  moreover have "clock_ready a p k u" by (rule clock_ready_same [OF r ru]) (simp add: same(1) f)
  ultimately show ?thesis by blast
qed

text \<open>Closing it.\<close>

lemma rtc_close_frame: "\<exists>u. rtc_close dev s = Some (0, u) \<and> clock_frame s u"
  using set_frequency_frame [of dev 2 s] by (auto simp: rtc_close_def clock_frame_def)

lemma close_clock:
  assumes r: "clock_ready a p k s" and k: "2 \<le> k"
  shows "\<exists>u. do_close dev (int k) s = Some (0, u) \<and> user_ready a p u \<and> console_writes p [] s u"
proof -
  have ur: "user_ready a p s" and f: "k < 8" "in_use (cur_files s ! k)" "f_fops (cur_files s ! k) = Some RtcFops"
    using r by (simp_all add: clock_ready_def)
  have c: "get_cur_task s \<noteq> 0" "length (cur_files s) = 8" using ur by (simp_all add: user_ready_def)
  have fl: "f_flags (cur_files s ! k) AND FILE_OPEN_BIT = 1"
    using f(2) by (simp add: in_use_def FILE_OPEN_BIT_def and_one_eq mod2_eq_if split: if_splits)
  obtain v where v: "rtc_close dev s = Some (0, v)" "clock_frame s v" using rtc_close_frame by blast
  note same = clock_frame_same [OF v(2)]
  let ?u = "with_files ((cur_files v)[k := closed_file (cur_files v ! k)]) v"
  have "do_close dev (int k) s = Some (0, ?u)"
    using c k f fl v(1) cur_file_in [of s k] cur_file_in [of v k] same(1,4)
    by (simp add: do_close_def fops_close_def closed_file_def)
  moreover have "user_ready a p ?u" by (rule user_ready_files) (use same(1,5) ur c k in simp_all)
  moreover have "console_writes p [] s ?u" using console_writes_nil [OF ur] same(6) by (simp add: console_writes_files)
  ultimately show ?thesis by blast
qed

end
