(* ===== verification/FishRun.thy ===== *)
theory FishRun
  imports UserFish UserClock
begin

text \<open>
  The whole program \<^verbatim>\<open>fish\<close> on the kernel: \<^verbatim>\<open>vidmap\<close> gives the text page, the clock and the two pictures are three open descriptors of one task, and
  the blinks are what the calls of the program make of an empty list.
\<close>

unbundle bit_operations_syntax

section \<open>The calls of the program\<close>

text \<open>The calls that \<^verbatim>\<open>main\<close> makes to the blinks, in their order, for the pictures \<^term>\<open>t0\<close> and \<^term>\<open>t1\<close>.\<close>

definition fish_calls :: "blink \<Rightarrow> u8 list \<Rightarrow> u8 list \<Rightarrow> blink_call list" where
  "fish_calls junk t0 t1 = map Add (frame_blinks junk 0 (rows_of t0) (rows_of t1)) @ replicate 200 Tick @
     [Add (junk\<lparr>bl_on_char := chr CHR ''I'', bl_off_char := chr CHR ''M'', bl_on_length := 7, bl_off_length := 6, bl_location := 540\<rparr>)] @
     replicate 200 Tick @ [Sync (push_bit 16 40 OR 540)] @ replicate 200 Tick @ [Remove 200] @ replicate 2000 Tick"

lemma run_calls_append:
  "run_calls (xs @ ys) f = do { (rs, g) \<leftarrow> run_calls xs f; (qs, h) \<leftarrow> run_calls ys g; Some (rs @ qs, h) }"
  by (induction xs arbitrary: f) (auto split: Option.bind_split)

lemma run_adds: "run_calls (map Add bs) f = Some (rs, g) \<Longrightarrow> add_all bs f = Some g"
  by (induction bs arbitrary: f rs) (auto simp: add_all_def bind_eq_Some_conv)

section \<open>Drawing and waiting for the clock\<close>

text \<open>A call to the blinks draws on the text page and leaves the clock's descriptor.\<close>

lemma draws_on_screen:
  assumes "clock_ready a p k s" and "shows_page p s" and "op (f\<lparr>vmem := video_mem s\<rparr>) = Some (r, g)" and "length (vmem g) = 4000"
  shows "\<exists>u. on_page (kernel_video a) vidmap_base op f s = Some (r, g, u) \<and> g\<lparr>vmem := video_mem u\<rparr> = g \<and> clock_ready a p k u \<and>
    shows_page p u \<and> drawn p s u"
proof -
  let ?u = "s\<lparr>video_mem := vmem g\<rparr>"
  have r: "user_ready a p s" using assms(1) by (simp add: clock_ready_def)
  have "on_page (kernel_video a) vidmap_base op f s = Some (r, g, ?u)"
    using assms(3) shown_page_at [OF assms(2)] by (simp add: on_page_def kernel_video_def user_page_def draw_user_page_def)
  moreover have "clock_ready a p k ?u" using assms(1) user_ready_page [OF r assms(4)] by (simp add: clock_ready_def page_fields)
  ultimately show ?thesis using assms(2) page_drawn [OF r assms(4)] by (intro exI [of _ ?u]) (simp add: page_fields)
qed

lemma wait_ticks_run:
  assumes "clock_ready a p k s" and "shows_page p s" and "length g = 4" and "run_calls (replicate n Tick) (f\<lparr>vmem := video_mem s\<rparr>) = Some (rs, h)"
  shows "\<exists>g' f' u. wait_ticks (kernel_sys dev (\<lambda>s. ([do_idt_rtc dev], intrs)) exec a) (kernel_video a) vidmap_base (int k) n g f s = Some (g', f', u) \<and>
    f'\<lparr>vmem := video_mem u\<rparr> = h \<and> length g' = 4 \<and> clock_ready a p k u \<and> shows_page p u \<and> drawn p s u"
  using assms
proof (induction n arbitrary: f s g rs)
  case 0
  then have "drawn p s s" using nothing_drawn(2) [of a p s s] console_writes_nil [of a p s] by (simp add: clock_ready_def)
  then show ?case using 0 by auto
next
  case (Suc n)
  have r: "user_ready a p s" using Suc.prems(1) by (simp add: clock_ready_def)
  obtain f1 qs where f1: "mp1_rtc_tasklet (f\<lparr>vmem := video_mem s\<rparr>) = Some f1" "run_calls (replicate n Tick) f1 = Some (qs, h)"
    using Suc.prems(4) by (auto simp: bind_eq_Some_conv)
  obtain g1 v where v: "call_read (\<lambda>s. ([do_idt_rtc dev], intrs)) a (int k) g 4 s = Some (0, g1, v)" "length g1 = 4" "clock_ready a p k v"
    "console_writes p [] s v" using clock_wait [OF Suc.prems(1,3)] by blast
  have rv: "user_ready a p v" using v(3) by (simp add: clock_ready_def)
  note same = nothing_drawn [OF r rv Suc.prems(2) v(4)]
  have op: "(\<lambda>f. map_option (Pair ()) (mp1_rtc_tasklet f)) (f\<lparr>vmem := video_mem v\<rparr>) = Some ((), f1)" using f1(1) by (simp add: same(1))
  have "length (vmem f1) = 4000" using tasklet_page [OF f1(1)] ready_page [OF r] by simp
  from draws_on_screen [where op = "\<lambda>f. map_option (Pair ()) (mp1_rtc_tasklet f)", OF v(3) shows_page_writes [OF Suc.prems(2) v(4)] op this]
  obtain x where x: "on_page (kernel_video a) vidmap_base (\<lambda>f. map_option (Pair ()) (mp1_rtc_tasklet f)) f v = Some ((), f1, x)"
    "f1\<lparr>vmem := video_mem x\<rparr> = f1" "clock_ready a p k x" "shows_page p x" "drawn p v x" by blast
  obtain g2 f2 u where u: "wait_ticks (kernel_sys dev (\<lambda>s. ([do_idt_rtc dev], intrs)) exec a) (kernel_video a) vidmap_base (int k) n g1 f1 x = Some (g2, f2, u)"
    "f2\<lparr>vmem := video_mem u\<rparr> = h" "length g2 = 4" "clock_ready a p k u" "shows_page p u" "drawn p x u"
    using Suc.IH [OF x(3,4) v(2), of f1 qs] f1(2) x(2) by auto
  then show ?case using v(1) x(1) drawn_trans [OF drawn_trans [OF same(2) x(5)] u(6)] by auto
qed

text \<open>A call to the blinks and then the clock.\<close>

lemma draws_then_waits:
  assumes c: "clock_ready a p k s" "shows_page p s" and g: "length g = 4" and f: "f\<lparr>vmem := video_mem s\<rparr> = f0"
    and op: "op f0 = Some (r, f1)" "length (vmem f1) = length (vmem f0)" and run: "run_calls (replicate n Tick) f1 = Some (rs, h)"
  shows "\<exists>v g' f' u. on_page (kernel_video a) vidmap_base op f s = Some (r, f1, v) \<and>
    wait_ticks (kernel_sys dev (\<lambda>s. ([do_idt_rtc dev], intrs)) exec a) (kernel_video a) vidmap_base (int k) n g f1 v = Some (g', f', u) \<and>
    f'\<lparr>vmem := video_mem u\<rparr> = h \<and> length g' = 4 \<and> clock_ready a p k u \<and> shows_page p u \<and> drawn p s u"
proof -
  have "length (vmem f1) = 4000" using op(2) c(1) ready_page by (auto simp: f [symmetric] clock_ready_def)
  from draws_on_screen [where op = op, OF c op(1) [folded f] this]
  obtain v where v: "on_page (kernel_video a) vidmap_base op f s = Some (r, f1, v)" "f1\<lparr>vmem := video_mem v\<rparr> = f1" "clock_ready a p k v"
    "shows_page p v" "drawn p s v" by blast
  from wait_ticks_run [OF v(3,4) g, of n f1 rs h dev intrs exec] run v(2)
  show ?thesis using v(1) drawn_trans [OF v(5)] by fastforce
qed

section \<open>The program on the kernel\<close>

lemma vidmap_call: "sys_vidmap (kernel_video a) = call_vidmap a"
  by (simp add: kernel_video_def)

text \<open>The call of \<^verbatim>\<open>vidmap\<close> stores the address of the page.\<close>

lemma vidmap_gives_page:
  assumes r: "user_ready a p s"
  shows "\<exists>u. call_vidmap a v s = Some (0, vidmap_base, u) \<and> user_ready a p u \<and> console_writes p [] s u \<and>
    cur_files u = cur_files s \<and> same_outside p 2048 (mem s) (mem u) \<and> file_sys u = file_sys s"
proof -
  define s1 where "s1 = s\<lparr>mem := copied p (\<lambda>j. le32 v ! j) 4 (mem s)\<rparr>"
  have l: "length (le32 v) = 4" "length (le32 vidmap_base) = 4" by (simp_all add: le32_def)
  note st = store_buffer [OF r, of "le32 v", unfolded l, folded s1_def, simplified]
  define u where "u = s1\<lparr>mem := copied p (\<lambda>j. le32 vidmap_base ! j) 4 (mem s1)\<rparr>"
  note su = store_buffer [OF st(2), of "le32 vidmap_base", unfolded l, folded u_def, simplified]
  have b: "le32 (VIRTUAL_VID_MEM + VIDEO) = le32 vidmap_base" by (simp add: VIRTUAL_VID_MEM_def VIDEO_def)
  have "do_vidmap a s1 = Some (0, u)"
    using su(1) st(2) b unfolding le32_def by (simp add: do_vidmap_def user_ready_def Let_def del: user_stores.simps)
  moreover have "user_loads a 4 u = Some (le32 vidmap_base)"
    using load_buffer [OF su(2), of "\<lambda>j. le32 vidmap_base ! j" "le32 vidmap_base" "mem s1" 4] l map_nth_take [of 4 "le32 vidmap_base"]
    by (simp add: u_def)
  moreover have "word_rcat (rev (le32 vidmap_base)) = vidmap_base" by (simp add: le32_def word_rcat_def)
  ultimately have "call_vidmap a v s = Some (0, vidmap_base, u)" using st(1) by (simp add: call_vidmap_def del: user_stores.simps user_loads.simps)
  moreover have out: "same_outside p 2048 (mem s) (mem u)"
    using same_outside_trans [OF copied_outside copied_outside, of 4 2048 4 p] by (simp add: u_def s1_def)
  moreover have "u = s\<lparr>mem := mem u\<rparr>" by (simp add: u_def s1_def)
  then have "console_writes p [] s u" using console_writes_mem [OF r out] by simp
  moreover have "cur_files u = cur_files s" "file_sys u = file_sys s" by (simp_all add: u_def s1_def cur_files_def get_cur_task_def)
  ultimately show ?thesis using su(2) by blast
qed

text \<open>The clock and the pictures of a process that has just been started.\<close>

lemma fish_opens:
  assumes ready: "user_ready a p s" "shows_page p s" and free: "\<forall>j. 2 \<le> j \<and> j < 8 \<longrightarrow> \<not> in_use (cur_files s ! j)"
    and rtc: "read_dentry_by_name (bytes_of ''rtc'' @ replicate 29 0) blank_dentry s = Some (0, dr)" "file_type dr = 0"
    and d0: "read_dentry_by_name (bytes_of ''frame0.txt'' @ replicate 22 0) blank_dentry s = Some (0, d0)" "file_type d0 = 2"
      "inode_num d0 < fs_num_inodes (mem s) (file_sys s)" "inode_addr (file_sys s) (inode_num d0) \<noteq> 0"
    and d1: "read_dentry_by_name (bytes_of ''frame1.txt'' @ replicate 22 0) blank_dentry s = Some (0, d1)" "file_type d1 = 2"
      "inode_num d1 < fs_num_inodes (mem s) (file_sys s)" "inode_addr (file_sys s) (inode_num d1) \<noteq> 0"
    and img: "image_ok (mem s) (file_sys s)" "clear_of_image (mem s) (file_sys s) p 2048"
    and t0: "t0 = map (file_byte (mem s) (file_sys s) (inode_num d0)) [0..<file_len (mem s) (file_sys s) (inode_num d0)]"
    and t1: "t1 = map (file_byte (mem s) (file_sys s) (inode_num d1)) [0..<file_len (mem s) (file_sys s) (inode_num d1)]"
    and add: "add_all (frame_blinks junk 0 (rows_of t0) (rows_of t1)) (fi\<lparr>vmem := video_mem s\<rparr>) = Some g"
  shows "\<exists>v h w. do_open dev (cstr ''rtc'') s = Some (2, v) \<and>
    add_frames (kernel_sys dev env exec a) (kernel_video a) vidmap_base junk (cstr ''frame0.txt'') (cstr ''frame1.txt'') fi v = Some (Inr (h, w)) \<and>
    h\<lparr>vmem := video_mem w\<rparr> = g \<and> clock_ready a p 2 w \<and> shows_page p w \<and> drawn p s w"
proof -
  have len: "length (cur_files s) = 8" using ready by (simp add: user_ready_def)
  have "lowest_free (cur_files s) 2" using free by (simp add: lowest_free_def)
  from open_clock [OF ready(1) this rtc, of dev]
  obtain v fc where v: "do_open dev (cstr ''rtc'') s = Some (2, v)" "clock_ready a p 2 v" "console_writes p [] s v" "mem v = mem s"
    "file_sys v = file_sys s" "cur_files v = (cur_files s)[2 := fc]" "in_use fc" by auto
  have uv: "user_ready a p v" using v(2) by (simp add: clock_ready_def)
  note same = nothing_drawn [OF ready(1) uv ready(2) v(3)]
  have k: "lowest_free (cur_files v) 3" "lowest_free ((cur_files v)[3 := fc]) 4"
    using free len v(7) unfolding v(6) by (auto simp: lowest_free_def upt_rec)
  have look: "read_dentry_by_name x d v = read_dentry_by_name x d s" for x d using same_search [of v s] v(4,5) by simp
  have nm: "0 \<notin> set (bytes_of ''frame0.txt'')" "0 \<notin> set (bytes_of ''frame1.txt'')" by (simp_all add: bytes_of_def)
  have add': "add_all (frame_blinks junk 0 (rows_of t0) (rows_of t1)) (fi\<lparr>vmem := video_mem v\<rparr>) = Some g" using add by (simp add: same(1))
  obtain h w where w: "add_frames (kernel_sys dev env exec a) (kernel_video a) vidmap_base junk (cstr ''frame0.txt'') (cstr ''frame1.txt'') fi v =
      Some (Inr (h, w))" "h\<lparr>vmem := video_mem w\<rparr> = g" "user_ready a p w" "shows_page p w" "drawn p v w" "cur_files w ! 2 = cur_files v ! 2"
    using frames_read [OF uv k v(7) nm(1) _ nm(2) _ _ d0(2) _ _ _ d1(2) _ _ _ _ _ _ add' _ _ shows_page_writes [OF ready(2) v(3)], of 2 dev env exec]
      d0 d1 img t0 t1 by (auto simp: look v(4,5) cstr_def)
  have "clock_ready a p 2 w" using v(2) w(3,6) by (simp add: clock_ready_def)
  then show ?thesis using v(1) w(1,2,4) drawn_trans [OF same(2) w(5)] by auto
qed

text \<open>The text of a file after a change outside the image.\<close>

lemma file_text_same:
  assumes "same_image m m' fs" and "image_ok m fs" and "ino < fs_num_inodes m fs"
  shows "map (file_byte m' fs ino) [0..<file_len m' fs ino] = map (file_byte m fs ino) [0..<file_len m fs ino]"
proof -
  note f = same_image_file [OF assms]
  have "file_byte m' fs ino i = file_byte m fs ino i" if "i < file_len m fs ino" for i
    using f(4) [of i] that room_bound [of i "file_len m fs ino"] by (simp add: file_room_def)
  then show ?thesis by (simp add: f(1))
qed

text \<open>What a state keeps of the files when only bytes of the buffer have changed.\<close>

lemma files_kept:
  assumes img: "image_ok (mem s) (file_sys s)" "clear_of_image (mem s) (file_sys s) p 2048" "fs_num_dentries (mem s) (file_sys s) \<le> 63"
    and u: "same_outside p 2048 (mem s) (mem u)" "file_sys u = file_sys s"
  shows "length x = 32 \<Longrightarrow> read_dentry_by_name x d u = read_dentry_by_name x d s"
    and "image_ok (mem u) (file_sys u)" "clear_of_image (mem u) (file_sys u) p 2048"
    and "fs_num_inodes (mem u) (file_sys u) = fs_num_inodes (mem s) (file_sys s)"
    and "ino < fs_num_inodes (mem s) (file_sys s) \<Longrightarrow> map (file_byte (mem u) (file_sys u) ino) [0..<file_len (mem u) (file_sys u) ino] =
      map (file_byte (mem s) (file_sys s) ino) [0..<file_len (mem s) (file_sys s) ino]"
proof -
  have im: "same_image (mem s) (mem u) (file_sys s)" by (rule same_outside_image [OF img(2) u(1)])
  show "length x = 32 \<Longrightarrow> read_dentry_by_name x d u = read_dentry_by_name x d s" by (rule read_by_name_same [OF im u(2) img(3)])
  show "image_ok (mem u) (file_sys u)" "clear_of_image (mem u) (file_sys u) p 2048"
    "fs_num_inodes (mem u) (file_sys u) = fs_num_inodes (mem s) (file_sys s)"
    using same_image_ok [OF im img(1)] same_image_header [OF im] img(2) by (simp_all add: clear_of_image_def u(2))
  show "ino < fs_num_inodes (mem s) (file_sys s) \<Longrightarrow> map (file_byte (mem u) (file_sys u) ino) [0..<file_len (mem u) (file_sys u) ino] =
      map (file_byte (mem s) (file_sys s) ino) [0..<file_len (mem s) (file_sys s) ino]"
    unfolding u(2) by (rule file_text_same [OF im img(1)])
qed

text \<open>\<^verbatim>\<open>main\<close> behind the pictures, when the calls to the blinks succeed one after the other.\<close>

definition im_blink :: "blink \<Rightarrow> blink" where
  "im_blink junk = junk\<lparr>bl_on_char := chr CHR ''I'', bl_off_char := chr CHR ''M'', bl_on_length := 7, bl_off_length := 6, bl_location := 540\<rparr>"

lemma fish_blinks_run:
  assumes c: "clock_ready a p 2 w" "shows_page p w" and garbage: "length garbage = 4" and f: "f\<lparr>vmem := video_mem w\<rparr> = f0"
    and run: "run_calls (replicate 200 Tick) f0 = Some (r1, f1)" "mp1_ioctl_add (im_blink junk) f1 = Some (c2, f2)"
      "run_calls (replicate 200 Tick) f2 = Some (r3, f3)" "mp1_ioctl_sync (push_bit 16 40 OR 540) f3 = Some (c4, f4)"
      "run_calls (replicate 200 Tick) f4 = Some (r5, f5)" "mp1_ioctl_remove 200 f5 = Some (c6, f6)"
      "run_calls (replicate 2000 Tick) f6 = Some (r7, f7)"
  shows "\<exists>g u. fish_blinks (kernel_sys dev (\<lambda>s. ([do_idt_rtc dev], intrs)) exec a) (kernel_video a) vidmap_base 2 junk garbage f w = Some (0, g, u) \<and>
    g\<lparr>vmem := video_mem u\<rparr> = f7 \<and> user_ready a p u \<and> drawn p w u"
proof -
  let ?sys = "kernel_sys dev (\<lambda>s. ([do_idt_rtc dev], intrs)) exec a" and ?vid = "kernel_video a" and ?im = "im_blink junk"
  from write_clock [OF c(1), of "[32, 0, 0, 0]" dev]
  obtain q x where x: "call_write dev a 2 [32, 0, 0, 0] 4 w = Some (q, x)" "clock_ready a p 2 x" "console_writes p [] w x" by auto
  have ux: "user_ready a p w" "user_ready a p x" using c(1) x(2) by (simp_all add: clock_ready_def)
  note samex = nothing_drawn [OF ux c(2) x(3)] and pgx = shows_page_writes [OF c(2) x(3)]
  obtain g1 h1 x1 where x1: "wait_ticks ?sys ?vid vidmap_base 2 200 garbage f x = Some (g1, h1, x1)" "h1\<lparr>vmem := video_mem x1\<rparr> = f1"
    "length g1 = 4" "clock_ready a p 2 x1" "shows_page p x1" "drawn p x x1"
    using wait_ticks_run [OF x(2) pgx garbage, of 200 f r1 f1 dev intrs exec] run(1) f by (auto simp: samex(1))
  have op: "mp1_ioctl (Struct ?im) RTC_ADD f1 = Some ((c2, Struct ?im), f2)"
    "mp1_ioctl (Number (push_bit 16 40 OR 540)) RTC_SYNC f3 = Some ((c4, Number (push_bit 16 40 OR 540)), f4)"
    "mp1_ioctl (Number 200) RTC_REMOVE f5 = Some ((c6, Number 200), f6)"
    unfolding mp1_ioctl_dispatch run(2,4,6) by simp_all
  obtain y1 g2 h2 x2 where x2: "on_page ?vid vidmap_base (mp1_ioctl (Struct ?im) RTC_ADD) h1 x1 = Some ((c2, Struct ?im), f2, y1)"
    "wait_ticks ?sys ?vid vidmap_base 2 200 g1 f2 y1 = Some (g2, h2, x2)" "h2\<lparr>vmem := video_mem x2\<rparr> = f3"
    "length g2 = 4" "clock_ready a p 2 x2" "shows_page p x2" "drawn p x1 x2"
    using draws_then_waits [where op = "mp1_ioctl (Struct ?im) RTC_ADD", OF x1(4,5,3,2) op(1) add_page [OF run(2)] run(3), of dev intrs exec] by auto
  obtain y2 g3 h3 x3 where x3: "on_page ?vid vidmap_base (mp1_ioctl (Number (push_bit 16 40 OR 540)) RTC_SYNC) h2 x2 =
      Some ((c4, Number (push_bit 16 40 OR 540)), f4, y2)"
    "wait_ticks ?sys ?vid vidmap_base 2 200 g2 f4 y2 = Some (g3, h3, x3)" "h3\<lparr>vmem := video_mem x3\<rparr> = f5"
    "length g3 = 4" "clock_ready a p 2 x3" "shows_page p x3" "drawn p x2 x3"
    using draws_then_waits [where op = "mp1_ioctl (Number (push_bit 16 40 OR 540)) RTC_SYNC",
      OF x2(5,6,4,3) op(2) sync_page [OF run(4)] run(5), of dev intrs exec] by auto
  obtain y3 g4 h4 x4 where x4: "on_page ?vid vidmap_base (mp1_ioctl (Number 200) RTC_REMOVE) h3 x3 = Some ((c6, Number 200), f6, y3)"
    "wait_ticks ?sys ?vid vidmap_base 2 2000 g3 f6 y3 = Some (g4, h4, x4)" "h4\<lparr>vmem := video_mem x4\<rparr> = f7"
    "clock_ready a p 2 x4" "shows_page p x4" "drawn p x3 x4"
    using draws_then_waits [where op = "mp1_ioctl (Number 200) RTC_REMOVE", OF x3(5,6,4,3) op(3) remove_page [OF run(6)] run(7), of dev intrs exec]
    by auto
  obtain u where u: "do_close dev 2 x4 = Some (0, u)" "user_ready a p u" "console_writes p [] x4 u"
    using close_clock [OF x4(4), of dev] by auto
  have "user_ready a p x4" using x4(4) by (simp add: clock_ready_def)
  note sameu = nothing_drawn [OF this u(2) x4(5) u(3)]
  have "drawn p w u"
    by (rule drawn_trans [OF samex(2) drawn_trans [OF x1(6) drawn_trans [OF x2(7) drawn_trans [OF x3(7) drawn_trans [OF x4(6) sameu(2)]]]]])
  moreover have "fish_blinks ?sys ?vid vidmap_base 2 junk garbage f w = Some (0, h4, u)"
    using x(1) x1(1) x2(1,2) x3(1,2) x4(1,2) u(1) by (simp add: fish_blinks_def im_blink_def)
  ultimately show ?thesis using x4(3) u(2) by (auto simp: sameu(1))
qed

text \<open>C11. The whole program \<^verbatim>\<open>fish\<close> on this kernel, as a process that has just been started and whose terminal is
  displayed, where each wait ends with the next interrupt of the clock: if its pictures are files that fit on the
  right half of the page, it returns 0 after 2600 ticks. What the kernel's text page then shows, and the list of
  blinks, is what the calls of \<^verbatim>\<open>main\<close> to \<^verbatim>\<open>mp1_ioctl\<close> and \<^verbatim>\<open>mp1_rtc_tasklet\<close> make, as the list
  specification has them, of what the screen showed before and of an empty list: \<^verbatim>\<open>vidmap\<close> has given the program that page.
  But for the text page, the task's descriptors and its buffer, the terminals and the memory are as they were. The call that is
  meant to remove a blink is among them with the number 200, the counter of the loop before it.\<close>

theorem fish_runs:
  assumes garbage: "length garbage = 4" and ready: "user_ready a p s" "shows_page p s"
    and free: "\<forall>j. 2 \<le> j \<and> j < 8 \<longrightarrow> \<not> in_use (cur_files s ! j)"
    and rtc: "read_dentry_by_name (bytes_of ''rtc'' @ replicate 29 0) blank_dentry s = Some (0, dr)" "file_type dr = 0"
    and d0: "read_dentry_by_name (bytes_of ''frame0.txt'' @ replicate 22 0) blank_dentry s = Some (0, d0)" "file_type d0 = 2"
      "inode_num d0 < fs_num_inodes (mem s) (file_sys s)" "inode_addr (file_sys s) (inode_num d0) \<noteq> 0"
    and d1: "read_dentry_by_name (bytes_of ''frame1.txt'' @ replicate 22 0) blank_dentry s = Some (0, d1)" "file_type d1 = 2"
      "inode_num d1 < fs_num_inodes (mem s) (file_sys s)" "inode_addr (file_sys s) (inode_num d1) \<noteq> 0"
    and img: "image_ok (mem s) (file_sys s)" "clear_of_image (mem s) (file_sys s) p 2048" "fs_num_dentries (mem s) (file_sys s) \<le> 63"
    and t0: "t0 = map (file_byte (mem s) (file_sys s) (inode_num d0)) [0..<file_len (mem s) (file_sys s) (inode_num d0)]"
    and t1: "t1 = map (file_byte (mem s) (file_sys s) (inode_num d1)) [0..<file_len (mem s) (file_sys s) (inode_num d1)]"
    and fit: "pictures_fit (rows_of t0) (rows_of t1)"
  shows "\<exists>f js rs u. fish_main (kernel_sys dev (\<lambda>s. ([do_idt_rtc dev], intrs)) exec a) (kernel_video a) junk garbage s = Some (Inr (0, f, u)) \<and>
    user_ready a p u \<and> drawn p s u \<and> fish_ok js (f\<lparr>vmem := video_mem u\<rparr>) \<and>
    spec_calls (fish_calls junk t0 t1) ([], video_mem s) = (rs, blinks js f, video_mem u)"
proof -
  let ?sys = "kernel_sys dev (\<lambda>s. ([do_idt_rtc dev], intrs)) exec a" and ?bs = "frame_blinks junk 0 (rows_of t0) (rows_of t1)"
  let ?start = "(fish_start [])\<lparr>vmem := video_mem s\<rparr>"
  have start: "?start = fish_start (video_mem s)" by (simp add: fish_start_def)
  have loc: "\<forall>b. Add b \<in> set (fish_calls junk t0 t1) \<longrightarrow> 0 < bl_location b"
    using frame_blinks_located [OF fit] by (auto simp: fish_calls_def)
  obtain rs f js where spec: "run_calls (fish_calls junk t0 t1) ?start = Some (rs, f)" "fish_ok js f"
    "spec_calls (fish_calls junk t0 t1) ([], video_mem s) = (rs, blinks js f, vmem f)"
    using calls_result [OF fish_start_ok [OF ready_page [OF ready(1)]] loc] unfolding start by (auto simp: blinks_def fish_start_def)
  obtain r0 f0 r1 f1 c2 f2 r3 f3 c4 f4 r5 f5 c6 f6 r7 where run: "run_calls (map Add ?bs) ?start = Some (r0, f0)"
    "run_calls (replicate 200 Tick) f0 = Some (r1, f1)" "mp1_ioctl_add (im_blink junk) f1 = Some (c2, f2)" "run_calls (replicate 200 Tick) f2 = Some (r3, f3)"
    "mp1_ioctl_sync (push_bit 16 40 OR 540) f3 = Some (c4, f4)" "run_calls (replicate 200 Tick) f4 = Some (r5, f5)"
    "mp1_ioctl_remove 200 f5 = Some (c6, f6)" "run_calls (replicate 2000 Tick) f6 = Some (r7, f)"
    using spec(1) unfolding fish_calls_def im_blink_def [symmetric] run_calls_append by (auto simp: bind_eq_Some_conv)
  obtain s1 where s1: "call_vidmap a 0 s = Some (0, vidmap_base, s1)" "user_ready a p s1" "console_writes p [] s s1" "cur_files s1 = cur_files s"
    "same_outside p 2048 (mem s) (mem s1)" "file_sys s1 = file_sys s" using vidmap_gives_page [OF ready(1)] by blast
  note same1 = nothing_drawn [OF ready(1) s1(2) ready(2) s1(3)] and kept = files_kept [OF img s1(5,6)]
  have n: "read_dentry_by_name (bytes_of ''rtc'' @ replicate 29 0) blank_dentry s1 = Some (0, dr)"
    "read_dentry_by_name (bytes_of ''frame0.txt'' @ replicate 22 0) blank_dentry s1 = Some (0, d0)"
    "read_dentry_by_name (bytes_of ''frame1.txt'' @ replicate 22 0) blank_dentry s1 = Some (0, d1)"
    using rtc(1) d0(1) d1(1) by (simp_all add: kept(1) bytes_of_def)
  have add: "add_all ?bs ((fish_start [])\<lparr>vmem := video_mem s1\<rparr>) = Some f0" using run_adds [OF run(1)] by (simp add: same1(1))
  obtain v h w where w: "do_open dev (cstr ''rtc'') s1 = Some (2, v)"
    "add_frames ?sys (kernel_video a) vidmap_base junk (cstr ''frame0.txt'') (cstr ''frame1.txt'') (fish_start []) v = Some (Inr (h, w))"
    "h\<lparr>vmem := video_mem w\<rparr> = f0" "clock_ready a p 2 w" "shows_page p w" "drawn p s1 w"
    using fish_opens [OF s1(2) shows_page_writes [OF ready(2) s1(3)] free [folded s1(4)] n(1) rtc(2) n(2) d0(2) d0(3,4) [folded kept(4) s1(6)]
        n(3) d1(2) d1(3,4) [folded kept(4) s1(6)] kept(2,3) t0 [folded kept(5) [OF d0(3)]] t1 [folded kept(5) [OF d1(3)]] add] by blast
  obtain g u where u: "fish_blinks ?sys (kernel_video a) vidmap_base 2 junk garbage h w = Some (0, g, u)" "g\<lparr>vmem := video_mem u\<rparr> = f"
    "user_ready a p u" "drawn p w u"
    using fish_blinks_run [OF w(4,5) garbage w(3) run(2-8), of dev intrs exec] by blast
  have "fish_main ?sys (kernel_video a) junk garbage s = Some (Inr (0, g, u))"
    using s1(1) w(1,2) u(1) by (simp add: fish_main_def mp1_set_video_mode_def vidmap_call)
  moreover have "blinks js f = blinks js g" "vmem f = video_mem u" unfolding u(2) [symmetric] by (simp_all add: blinks_def)
  ultimately show ?thesis using u(2,3) spec(2,3) drawn_trans [OF same1(2) drawn_trans [OF w(6) u(4)]]
    by (intro exI [of _ g] exI [of _ js] exI [of _ rs] exI [of _ u]) simp
qed

text \<open>An image with the clock and the two pictures, which are the one file of two lines.\<close>

definition fishing_mem :: memory where
  "fishing_mem = searching_mem(0x10000 := 3, 0x10040 := 114, 0x10041 := 116, 0x10042 := 99, 0x10060 := 0,
     0x10080 := 102, 0x10081 := 114, 0x10082 := 97, 0x10083 := 109, 0x10084 := 101, 0x10085 := 48, 0x10086 := 46, 0x10087 := 116,
     0x10088 := 120, 0x10089 := 116, 0x100A0 := 2,
     0x100C0 := 102, 0x100C1 := 114, 0x100C2 := 97, 0x100C3 := 109, 0x100C4 := 101, 0x100C5 := 49, 0x100C6 := 46, 0x100C7 := 116,
     0x100C8 := 120, 0x100C9 := 116, 0x100E0 := 2)"

lemma fishing_image:
  "fs_num_dentries fishing_mem 0x10000 = 3" "fs_num_inodes fishing_mem 0x10000 = 1"
  "fs_num_blocks fishing_mem 0x10000 = 2" "file_len fishing_mem 0x10000 0 = 4"
  "inode_dblock fishing_mem (inode_addr 0x10000 0) 0 = 0" "ld32 fishing_mem 0x1000 = 0x83"
  by (simp_all add: fs_num_dentries_def fs_num_inodes_def fs_num_blocks_def file_len_def inode_len_def
      inode_addr_def inode_dblock_def ld32_def fs_demo_mem_def reading_mem_def searching_mem_def fishing_mem_def st32_def Let_def)

lemma fishing_ok: "image_ok fishing_mem 0x10000" "clear_of_image fishing_mem 0x10000 0x200000 2048"
  "map (file_byte fishing_mem 0x10000 0) [0..<4] = [108, 115, 10, 120]"
proof -
  have s: "image_size fishing_mem 0x10000 = image_size reading_mem 0x10000"
    by (simp add: image_size_def fishing_image reading_header)
  show "image_ok fishing_mem 0x10000"
    using reading_image(1) fishing_image by (simp add: image_ok_def s)
  show "clear_of_image fishing_mem 0x10000 0x200000 2048"
    using user_demo_image(2) by (simp add: clear_of_image_def s user_demo_sel)
  show "map (file_byte fishing_mem 0x10000 0) [0..<4] = [108, 115, 10, 120]"
    by (simp add: file_byte_def fishing_image block_addr_def upt_rec) (simp add: fishing_mem_def searching_mem_def)
qed

lemma fishing_dentries:
  "copy_dentry fishing_mem 0x10000 0 = \<lparr>file_name = bytes_of ''rtc'' @ replicate 29 0, file_type = 0, inode_num = 0\<rparr>"
  "copy_dentry fishing_mem 0x10000 1 = \<lparr>file_name = bytes_of ''frame0.txt'' @ replicate 22 0, file_type = 2, inode_num = 0\<rparr>"
  "copy_dentry fishing_mem 0x10000 2 = \<lparr>file_name = bytes_of ''frame1.txt'' @ replicate 22 0, file_type = 2, inode_num = 0\<rparr>"
  by (simp_all add: copy_dentry_def fs_dentry_def fs_demo_mem_def reading_mem_def searching_mem_def fishing_mem_def st32_def bytes_of_def
      ld32_def FILENAME_LEN_def Let_def upt_rec replicate_num)

lemma fishing_found:
  fixes s :: kbd
  defines "s \<equiv> user_demo\<lparr>mem := fishing_mem\<rparr>"
  shows "read_dentry_by_name (bytes_of ''rtc'' @ replicate 29 0) blank_dentry s =
      Some (0, \<lparr>file_name = bytes_of ''rtc'' @ replicate 29 0, file_type = 0, inode_num = 0\<rparr>)"
    and "read_dentry_by_name (bytes_of ''frame0.txt'' @ replicate 22 0) blank_dentry s =
      Some (0, \<lparr>file_name = bytes_of ''frame0.txt'' @ replicate 22 0, file_type = 2, inode_num = 0\<rparr>)"
    and "read_dentry_by_name (bytes_of ''frame1.txt'' @ replicate 22 0) blank_dentry s =
      Some (0, \<lparr>file_name = bytes_of ''frame1.txt'' @ replicate 22 0, file_type = 2, inode_num = 0\<rparr>)"
proof -
  have names: "entry_name fishing_mem 0x10000 0 = bytes_of ''rtc'' @ replicate 29 0"
    "entry_name fishing_mem 0x10000 1 = bytes_of ''frame0.txt'' @ replicate 22 0"
    "entry_name fishing_mem 0x10000 2 = bytes_of ''frame1.txt'' @ replicate 22 0"
    using fishing_dentries by (simp_all add: entry_name_def)
  note names = names names(2) [unfolded One_nat_def]
  have r: "[0..<3 :: nat] = [0, 1, 2]" by (simp add: upt_rec)
  show "read_dentry_by_name (bytes_of ''rtc'' @ replicate 29 0) blank_dentry s =
      Some (0, \<lparr>file_name = bytes_of ''rtc'' @ replicate 29 0, file_type = 0, inode_num = 0\<rparr>)"
    "read_dentry_by_name (bytes_of ''frame0.txt'' @ replicate 22 0) blank_dentry s =
      Some (0, \<lparr>file_name = bytes_of ''frame0.txt'' @ replicate 22 0, file_type = 2, inode_num = 0\<rparr>)"
    "read_dentry_by_name (bytes_of ''frame1.txt'' @ replicate 22 0) blank_dentry s =
      Some (0, \<lparr>file_name = bytes_of ''frame1.txt'' @ replicate 22 0, file_type = 2, inode_num = 0\<rparr>)"
    by (simp_all add: s_def read_dentry_by_name_def find_dentry_eq fishing_image user_demo_sel r names fishing_dentries rd_def bytes_of_def
        FILENAME_LEN_def del: upt_rec_numeral)
qed

theorem fish_runs_witness:
  "\<exists>f js rs u. fish_main (kernel_sys (\<lambda>_ _. 0) (\<lambda>s. ([do_idt_rtc (\<lambda>_ _. 0)], [])) (\<lambda>_ _. None) 0x200000)
       (kernel_video 0x200000) demo_blink [0, 0, 0, 0] (displayed_demo fishing_mem) = Some (Inr (0, f, u)) \<and>
     fish_ok js (f\<lparr>vmem := video_mem u\<rparr>) \<and>
     spec_calls (fish_calls demo_blink [108, 115, 10, 120] [108, 115, 10, 120]) ([], video_mem (displayed_demo fishing_mem)) = (rs, blinks js f, video_mem u)"
proof -
  let ?s = "displayed_demo fishing_mem"
  have free: "\<forall>j. 2 \<le> j \<and> j < 8 \<longrightarrow> \<not> in_use (cur_files ?s ! j)"
    by (auto simp: displayed_demo_sel user_task_def task_demo_task_def in_use_def)
  have t: "[108, 115, 10, 120] = map (file_byte (mem ?s) (file_sys ?s) 0) [0..<file_len (mem ?s) (file_sys ?s) 0]"
    using fishing_ok(3) by (simp add: displayed_demo_sel fishing_image)
  have fit: "pictures_fit (rows_of [108, 115, 10, 120]) (rows_of [108, 115, 10, 120])" by (simp add: pictures_fit_def)
  have img: "image_ok (mem ?s) (file_sys ?s)" "clear_of_image (mem ?s) (file_sys ?s) 0x200000 2048" "fs_num_dentries (mem ?s) (file_sys ?s) \<le> 63"
    "0 < fs_num_inodes (mem ?s) (file_sys ?s)" "inode_addr (file_sys ?s) 0 \<noteq> 0"
    using fishing_ok fishing_image by (simp_all add: displayed_demo_sel inode_addr_def)
  have page: "shows_page 0x200000 ?s"
    by (rule displayed_demo_page) (simp add: fishing_mem_def searching_mem_def reading_mem_def st32_def fs_demo_mem_def ld32_def Let_def)
  note found = fishing_found [folded displayed_demo_sel(4)]
  show ?thesis
    using fish_runs [OF _ displayed_demo_ready [OF fishing_image(6)] page free found(1) _ found(2) _ _ _ found(3) _ _ _
        img(1-3) _ _ fit, of "[0, 0, 0, 0]" "\<lambda>_ _. 0" "[]" "\<lambda>_ _. None" demo_blink] t img(4,5) by auto
qed

end
