(* ===== verification/UserDir.thy ===== *)
theory UserDir
  imports UserRun
begin

text \<open>
  The directory as a source of names, and the program \<^verbatim>\<open>ls\<close> on the kernel. A read of the directory
  gives the next entry's name, up to its first NUL.
\<close>

unbundle bit_operations_syntax

section \<open>Names of the directory\<close>

definition entry_label :: "memory \<Rightarrow> u32 \<Rightarrow> nat \<Rightarrow> u8 list" where
  "entry_label m fs i = takeWhile (\<lambda>c. c \<noteq> 0) (entry_name m fs i)"

lemma entry_bytes: "entry_name m fs i = map (\<lambda>j. m (fs_dentry fs (of_nat i) + of_nat j)) [0..<32]"
  by (simp add: entry_name_def copy_dentry_def FILENAME_LEN_def)

lemma entry_label_nth:
  "j < length (entry_label m fs i) \<Longrightarrow> entry_label m fs i ! j = m (fs_dentry fs (of_nat i) + of_nat j) \<and> entry_label m fs i ! j \<noteq> 0"
  "length (entry_label m fs i) \<le> 32"
  "length (entry_label m fs i) < 32 \<Longrightarrow> m (fs_dentry fs (of_nat i) + of_nat (length (entry_label m fs i))) = 0"
proof -
  let ?e = "entry_name m fs i" and ?l = "entry_label m fs i"
  have len: "length ?e = 32" and nth: "j < 32 \<Longrightarrow> ?e ! j = m (fs_dentry fs (of_nat i) + of_nat j)" for j
    by (simp_all add: entry_bytes)
  show le: "length ?l \<le> 32" using length_takeWhile_le [of "\<lambda>c. c \<noteq> 0" ?e] len by (simp add: entry_label_def)
  show "?l ! j = m (fs_dentry fs (of_nat i) + of_nat j) \<and> ?l ! j \<noteq> 0" if "j < length ?l"
    using that nth [of j] le takeWhile_nth [of j "\<lambda>c. c \<noteq> 0" ?e] nth_mem [OF that] set_takeWhileD [of "?l ! j" "\<lambda>c. c \<noteq> 0" ?e]
    by (auto simp: entry_label_def)
  show "m (fs_dentry fs (of_nat i) + of_nat (length ?l)) = 0" if "length ?l < 32"
    using that nth_length_takeWhile [of "\<lambda>c. c \<noteq> 0" ?e] len nth [of "length ?l"] by (simp add: entry_label_def)
qed

text \<open>The bytes of an entry that a position of the directory can name lie in the image.\<close>

lemma entry_inside:
  assumes "i \<le> unat (fs_num_inodes m fs)" and "j < 64"
  shows "fs_dentry fs (of_nat i) + of_nat j = fs + of_nat (64 + 64 * i + j)" and "64 + 64 * i + j < image_size m fs"
  using assms by (simp_all add: fs_dentry_def algebra_simps image_size_def)

lemma entry_label_same:
  assumes "same_image m m' fs" and "i \<le> unat (fs_num_inodes m fs)"
  shows "entry_label m' fs i = entry_label m fs i"
proof -
  have "m' (fs_dentry fs (of_nat i) + of_nat j) = m (fs_dentry fs (of_nat i) + of_nat j)" if "j < 32" for j
  proof -
    have j: "j < 64" using that by simp
    show ?thesis unfolding entry_inside(1) [OF assms(2) j] using assms(1) entry_inside(2) [OF assms(2) j] by (simp only: same_image_def)
  qed
  then have "entry_name m' fs i = entry_name m fs i" unfolding entry_bytes by (intro map_cong) simp_all
  then show ?thesis by (simp add: entry_label_def)
qed

text \<open>The copy of a name into the buffer, when the buffer lies outside the image.\<close>

lemma dentry_copy_label:
  fixes s :: "'a kernel_scheme"
  assumes area: "stable_area a p 2048 s" and clear: "clear_of_image (mem s) (file_sys s) p 2048"
    and i: "i \<le> unat (fs_num_inodes (mem s) (file_sys s))" and size: "image_size (mem s) (file_sys s) < 2 ^ 32"
  defines "label \<equiv> entry_label (mem s) (file_sys s) i"
  assumes k: "k \<le> length label"
  shows "dentry_copy (fs_dentry (file_sys s) (of_nat i)) a k (s\<lparr>mem := copied p (\<lambda>j. label ! j) k (mem s)\<rparr>) =
    Some (length label, s\<lparr>mem := copied p (\<lambda>j. label ! j) (length label) (mem s)\<rparr>)"
  using k
proof (induction "length label - k" arbitrary: k)
  case 0
  let ?tb = "fs_dentry (file_sys s) (of_nat i)"
  note l = entry_label_nth [where m = "mem s" and fs = "file_sys s" and i = i, folded label_def]
  have k: "k = length label" using 0 by simp
  have "copied p (\<lambda>j. label ! j) k (mem s) (?tb + of_nat k) = mem s (?tb + of_nat k)" if "k < 32"
  proof -
    have j: "k < 64" "k \<le> 2048" using that by simp_all
    show ?thesis unfolding entry_inside(1) [OF i j(1)] by (rule image_byte [OF clear size entry_inside(2) [OF i j(1)] j(2)])
  qed
  then show ?case using k l(3) by (subst dentry_copy.simps) (auto simp: Let_def)
next
  case (Suc d)
  let ?tb = "fs_dentry (file_sys s) (of_nat i)" and ?m = "copied p (\<lambda>j. label ! j) k (mem s)"
  note l = entry_label_nth [where m = "mem s" and fs = "file_sys s" and i = i, folded label_def]
  have k: "k < length label" "k < 32" using Suc.hyps(2) l(2) by simp_all
  have byte: "?m (?tb + of_nat k) = label ! k"
  proof -
    have j: "k < 64" "k \<le> 2048" using k(2) by simp_all
    have "?m (?tb + of_nat k) = mem s (?tb + of_nat k)"
      unfolding entry_inside(1) [OF i j(1)] by (rule image_byte [OF clear size entry_inside(2) [OF i j(1)] j(2)])
    then show ?thesis using l(1) [OF k(1)] by simp
  qed
  have "same_outside p 2048 (mem s) ?m" using copied_outside [of k 2048 p] k(2) by simp
  then have "stable_area a p 2048 (s\<lparr>mem := ?m\<rparr>)" by (intro stable_area_same [OF area]) simp_all
  then have "translate ?m (cr3 s) False (a + of_nat k) = Some (p + of_nat k)"
    using stable_area_walk [of a p 2048 "s\<lparr>mem := ?m\<rparr>" k] k(2) by simp
  then have st: "user_store (a + of_nat k) (label ! k) (s\<lparr>mem := ?m\<rparr>) = Some (s\<lparr>mem := copied p (\<lambda>j. label ! j) (Suc k) (mem s)\<rparr>)"
    using copied_Suc [of k p "\<lambda>j. label ! j" "mem s"] k(2) by (simp add: user_store_def)
  have "dentry_copy ?tb a (Suc k) (s\<lparr>mem := copied p (\<lambda>j. label ! j) (Suc k) (mem s)\<rparr>) =
      Some (length label, s\<lparr>mem := copied p (\<lambda>j. label ! j) (length label) (mem s)\<rparr>)"
    by (rule Suc.hyps(1)) (use Suc.hyps(2) in simp_all)
  moreover have "?m (?tb + of_nat k) \<noteq> 0" using conjunct2 [OF l(1) [OF k(1)]] unfolding byte .
  ultimately show ?case using byte st k(2) by (subst dentry_copy.simps) simp
qed

section \<open>The directory as a source of names\<close>

text \<open>A directory whose first \<^term>\<open>n\<close> entries have names and whose further ones, as far as \<^verbatim>\<open>directory_read\<close>
  goes, have none: it goes by the number of inodes, not by that of entries.\<close>

definition dir_ok :: "memory \<Rightarrow> u32 \<Rightarrow> nat \<Rightarrow> bool" where
  "dir_ok m fs n = (n \<le> unat (fs_num_inodes m fs) + 1 \<and> (\<forall>i < n. entry_label m fs i \<noteq> []) \<and>
     (\<forall>i \<le> unat (fs_num_inodes m fs). n \<le> i \<longrightarrow> entry_label m fs i = []))"

definition dir_open_at :: "u32 \<Rightarrow> nat \<Rightarrow> nat \<Rightarrow> nat \<Rightarrow> 'a kbd_scheme \<Rightarrow> bool" where
  "dir_open_at p k n off s = (k < 8 \<and> in_use (cur_files s ! k) \<and> f_fops (cur_files s ! k) = Some DirFops \<and>
     f_offset (cur_files s ! k) = of_nat off \<and> off \<le> unat (fs_num_inodes (mem s) (file_sys s)) + 1 \<and>
     dir_ok (mem s) (file_sys s) n \<and> image_size (mem s) (file_sys s) < 2 ^ 32 \<and>
     clear_of_image (mem s) (file_sys s) p 2048)"

definition dir_names :: "memory \<Rightarrow> u32 \<Rightarrow> nat \<Rightarrow> nat \<Rightarrow> u8 list list" where
  "dir_names m fs off n = map (entry_label m fs) [off..<n]"

definition kernel_dir :: "u32 \<Rightarrow> u32 \<Rightarrow> int \<Rightarrow> u8 list list \<Rightarrow> 'a kbd_scheme \<Rightarrow> bool" where
  "kernel_dir a p fd cs s = (user_ready a p s \<and>
     (\<exists>k n off. fd = int k \<and> dir_open_at p k n off s \<and> cs = dir_names (mem s) (file_sys s) off n))"

lemma kernel_dirI:
  assumes "user_ready a p s" and "dir_open_at p k n off s" and "cs = dir_names (mem s) (file_sys s) off n"
  shows "kernel_dir a p (int k) cs s"
  using assms unfolding kernel_dir_def by blast

lemma dir_image_same:
  assumes "same_image m m' fs" and "dir_ok m fs n"
  shows "dir_ok m' fs n" and "dir_names m' fs off n = dir_names m fs off n"
proof -
  note h = same_image_header [OF assms(1)] and e = entry_label_same [OF assms(1)]
  show "dir_ok m' fs n" using assms(2) e by (auto simp: dir_ok_def h)
  show "dir_names m' fs off n = dir_names m fs off n"
    unfolding dir_names_def by (rule map_cong) (use assms(2) e in \<open>auto simp: dir_ok_def\<close>)
qed

lemma dir_open_same:
  assumes "dir_open_at p k n off s" and "same_task s u" and "same_outside p 2048 (mem s) (mem u)"
  shows "dir_open_at p k n off u" and "dir_names (mem u) (file_sys u) off n = dir_names (mem s) (file_sys s) off n"
    and "same_image (mem s) (mem u) (file_sys s)"
proof -
  have fs: "file_sys u = file_sys s" "cur_files u = cur_files s" using same_task_simps [OF assms(2)] by simp_all
  show im: "same_image (mem s) (mem u) (file_sys s)"
    by (rule same_outside_image [OF _ assms(3)]) (use assms(1) in \<open>simp add: dir_open_at_def\<close>)
  have "clear_of_image (mem u) (file_sys s) p 2048"
    using assms(1) same_image_header(4) [OF im] by (simp add: dir_open_at_def clear_of_image_def)
  then show "dir_open_at p k n off u"
    using assms(1) dir_image_same(1) [OF im] same_image_header [OF im] by (simp add: dir_open_at_def fs)
  show "dir_names (mem u) (file_sys u) off n = dir_names (mem s) (file_sys s) off n"
    unfolding fs by (rule dir_image_same(2) [OF im]) (use assms(1) in \<open>simp add: dir_open_at_def\<close>)
qed

text \<open>A read of the directory at entry \<^term>\<open>off\<close>, in both cases.\<close>

lemma directory_read_entry:
  assumes dr: "dir_open_at p k n off s" and cur: "get_cur_task s \<noteq> 0" "length (cur_files s) = 8" and area: "stable_area a p 2048 s"
    and off: "off \<le> unat (fs_num_inodes (mem s) (file_sys s))"
  defines "label \<equiv> entry_label (mem s) (file_sys s) off"
  shows "directory_read (int k) a x s = Some (int (length label),
    with_files ((cur_files s)[k := (cur_files s ! k)\<lparr>f_offset := of_nat (Suc off)\<rparr>])
      (s\<lparr>mem := copied p (\<lambda>j. label ! j) (length label) (mem s)\<rparr>))"
proof -
  let ?f = "cur_files s ! k" and ?s = "s\<lparr>mem := copied p (\<lambda>j. label ! j) (length label) (mem s)\<rparr>"
  have k: "k < 8" "f_offset ?f = of_nat off" using dr by (simp_all add: dir_open_at_def)
  have cl: "clear_of_image (mem s) (file_sys s) p 2048" "image_size (mem s) (file_sys s) < 2 ^ 32"
    using dr by (simp_all add: dir_open_at_def)
  have "off < 2 ^ 32" using off unsigned_less [of "fs_num_inodes (mem s) (file_sys s)", where 'a = nat] by simp
  then have lt: "\<not> f_offset ?f > fs_num_inodes (mem s) (file_sys s)"
    using off k(2) by (simp add: word_less_nat_alt unat_of_nat_u32)
  have cp: "dentry_copy (fs_dentry (file_sys s) (of_nat off)) a 0 s = Some (length label, ?s)"
    using dentry_copy_label [OF area cl(1) off cl(2), of 0] by (simp add: label_def)
  have f: "cur_file (int k) s = Some ?f" "cur_file (int k) ?s = Some ?f"
    using cur_file_in(1) [of s k] cur_file_in(1) [of ?s k] cur k(1) by simp_all
  have w: "set_cur_file (int k) (?f\<lparr>f_offset := of_nat (Suc off)\<rparr>) ?s =
      Some (with_files ((cur_files s)[k := ?f\<lparr>f_offset := of_nat (Suc off)\<rparr>]) ?s)"
    using cur_file_in(2) [of ?s k] cur k(1) by simp
  have "f_offset ?f + 1 = of_nat (Suc off)" by (simp add: k(2))
  then show ?thesis
    using cur(1) k(1) lt f w cp by (simp add: directory_read_def k(2) del: of_nat_Suc)
qed

lemma directory_read_end:
  assumes dr: "dir_open_at p k n off s" and cur: "get_cur_task s \<noteq> 0" "length (cur_files s) = 8"
    and off: "off = unat (fs_num_inodes (mem s) (file_sys s)) + 1"
  shows "directory_read (int k) a x s = Some (0, s)"
proof -
  have "unat (fs_num_inodes (mem s) (file_sys s)) + 1 < 2 ^ 32"
    using dr by (simp add: dir_open_at_def image_size_def)
  then have "f_offset (cur_files s ! k) > fs_num_inodes (mem s) (file_sys s)"
    using off dr by (simp add: dir_open_at_def word_less_nat_alt unat_of_nat_u32 del: of_nat_Suc)
  then show ?thesis
    using dr cur cur_file_in(1) [of s k] by (simp add: directory_read_def dir_open_at_def)
qed

text \<open>The call, when an entry is left; the name is empty behind the last one.\<close>

lemma call_read_entry:
  assumes r: "user_ready a p s" and dr: "dir_open_at p k n off s" and off: "off \<le> unat (fs_num_inodes (mem s) (file_sys s))"
    and len: "length (entry_label (mem s) (file_sys s) off) \<le> length buf" "length buf \<le> 2048"
  defines "label \<equiv> entry_label (mem s) (file_sys s) off"
  shows "\<exists>v. call_read env a (int k) buf x s = Some (int (length label), label @ drop (length label) buf, v) \<and>
    user_ready a p v \<and> dir_open_at p k n (Suc off) v \<and> console_writes p [] s v \<and>
    dir_names (mem v) (file_sys v) (Suc off) n = dir_names (mem s) (file_sys s) (Suc off) n"
proof -
  define s1 where "s1 = s\<lparr>mem := copied p (\<lambda>j. buf ! j) (length buf) (mem s)\<rparr>"
  note st = store_buffer [OF r len(2), folded s1_def]
  have s1: "same_task s s1" "same_outside p 2048 (mem s) (mem s1)"
    using copied_outside [OF len(2)] by (simp_all add: s1_def same_task_def)
  note d1 = dir_open_same [OF dr s1]
  have fs: "file_sys s1 = file_sys s" by (simp add: s1_def)
  have off1: "off \<le> unat (fs_num_inodes (mem s1) (file_sys s1))" using off same_image_header(2) [OF d1(3)] by (simp add: fs)
  have lb: "entry_label (mem s1) (file_sys s1) off = label"
    using entry_label_same [OF d1(3) off] by (simp add: fs label_def)
  have ll: "length label \<le> 32" unfolding label_def by (rule entry_label_nth(2))
  define s2 where "s2 = s1\<lparr>mem := copied p (\<lambda>j. label ! j) (length label) (mem s1)\<rparr>"
  let ?u = "with_files ((cur_files s1)[k := (cur_files s1 ! k)\<lparr>f_offset := of_nat (Suc off)\<rparr>]) s2"
  have k: "k < 8" "in_use (cur_files s1 ! k)" "f_fops (cur_files s1 ! k) = Some DirFops" using d1(1) by (simp_all add: dir_open_at_def)
  have ne: "k \<noteq> 1" using k(3) st(2) by (auto simp: user_ready_def)
  have c: "get_cur_task s1 \<noteq> 0" "length (cur_files s1) = 8" "stable_area a p 2048 s1" using st(2) by (simp_all add: user_ready_def)
  have rd: "do_read ticks intrs (int k) a x s1 = Some (int (length label), ?u)" for ticks intrs
    using directory_read_entry [OF d1(1) c off1] do_read_open [OF st(2) k] by (simp add: fops_read_def lb s2_def)
  have out: "same_outside p 2048 (mem s1) (mem s2)" using copied_outside [of "length label" 2048 p] ll by (simp add: s2_def)
  have r2: "user_ready a p s2" using user_ready_mem [OF st(2) out] by (simp add: s2_def)
  have r3: "user_ready a p ?u" by (rule user_ready_files [OF r2]) (use c(2) ne in \<open>simp_all add: s2_def\<close>)
  have "user_loads a (length buf) ?u = Some (map (\<lambda>j. label ! j) [0..<length label] @ drop (length label) buf)"
    by (rule buffer_after [where m = "mem s"]) (use r3 len [folded label_def] in \<open>auto simp: user_ready_def s2_def s1_def\<close>)
  then have ld: "user_loads a (length buf) ?u = Some (label @ drop (length label) buf)" by (simp add: map_nth)
  have t2: "same_task s1 s2" by (simp add: s2_def same_task_def)
  note d2 = dir_open_same [OF d1(1) t2 out]
  have "dir_open_at p k n (Suc off) ?u"
    using d2(1) off1 same_image_header(2) [OF d2(3)] c(2) by (auto simp: dir_open_at_def in_use_def s2_def)
  moreover have "dir_names (mem ?u) (file_sys ?u) (Suc off) n = dir_names (mem s) (file_sys s) (Suc off) n"
    using dir_image_same(2) [OF d2(3), of n "Suc off"] dir_image_same(2) [OF d1(3), of n "Suc off"] d1(1) dr
    by (simp add: dir_open_at_def fs s2_def)
  moreover have "console_writes p [] s s1" "console_writes p [] s1 s2"
    using console_writes_mem [OF r s1(2)] console_writes_mem [OF st(2) out] by (simp_all add: s1_def s2_def)
  then have "console_writes p [] s ?u"
    using console_writes_append [of p "[]" s s1 "[]" s2] by (intro console_writes_files) simp
  moreover have "call_read env a (int k) buf x s = Some (int (length label), label @ drop (length label) buf, ?u)"
    using st(1) rd ld by (simp add: call_read_def)
  ultimately show ?thesis using r3 by blast
qed

lemma call_read_behind:
  assumes r: "user_ready a p s" and dr: "dir_open_at p k n off s" and off: "off = unat (fs_num_inodes (mem s) (file_sys s)) + 1"
    and len: "length buf \<le> 2048"
  shows "\<exists>v. call_read env a (int k) buf x s = Some (0, buf, v) \<and> user_ready a p v \<and> dir_open_at p k n off v \<and>
    console_writes p [] s v"
proof -
  define s1 where "s1 = s\<lparr>mem := copied p (\<lambda>j. buf ! j) (length buf) (mem s)\<rparr>"
  note st = store_buffer [OF r len, folded s1_def]
  have s1: "same_task s s1" "same_outside p 2048 (mem s) (mem s1)"
    using copied_outside [OF len] by (simp_all add: s1_def same_task_def)
  note d1 = dir_open_same [OF dr s1]
  have "off = unat (fs_num_inodes (mem s1) (file_sys s1)) + 1"
    using off same_image_header(2) [OF d1(3)] by (simp add: s1_def)
  then have "do_read ticks intrs (int k) a x s1 = Some (0, s1)" for ticks intrs
    using directory_read_end [OF d1(1)] st(2) do_read_open [OF st(2)] d1(1)
    by (simp add: fops_read_def user_ready_def dir_open_at_def)
  moreover have "user_loads a (length buf) s1 = Some buf"
    using load_buffer [OF st(2) _ order_refl len] map_nth_take [of "length buf" buf] by (simp add: s1_def)
  ultimately have "call_read env a (int k) buf x s = Some (0, buf, s1)" using st(1) by (simp add: call_read_def)
  then show ?thesis using st(2) d1(1) console_writes_mem [OF r s1(2)] by (auto simp: s1_def)
qed

interpretation listing: chunk_source "kernel_sys dev env exec a" "user_ready a p" "console_writes p" "kernel_dir a p" 32
  for dev env exec a p
proof unfold_locales
  show "user_ready a p w" if "kernel_dir a p fd cs w" for fd cs and w :: "'a kbd_scheme"
    using that by (simp add: kernel_dir_def)
  show "\<exists>b v. sys_read (kernel_sys dev env exec a) fd buf (int 32) w = Some (int (length c), c @ b, v) \<and>
      length (c @ b) = length buf \<and> 0 < length c \<and> length c \<le> 32 \<and> kernel_dir a p fd cs v \<and> console_writes p [] w v"
    if h: "kernel_dir a p fd (c # cs) w" "32 \<le> length buf" "length buf \<le> 2048" for fd c cs buf and w :: "'a kbd_scheme"
  proof -
    obtain k n off where fd: "fd = int k" and d: "dir_open_at p k n off w" and cs: "c # cs = dir_names (mem w) (file_sys w) off n"
      and r: "user_ready a p w" using h(1) unfolding kernel_dir_def by blast
    have off: "off < n" using cs by (cases "off < n") (simp_all add: dir_names_def)
    have c: "c = entry_label (mem w) (file_sys w) off" "cs = dir_names (mem w) (file_sys w) (Suc off) n"
      using cs off by (simp_all add: dir_names_def upt_conv_Cons)
    have lim: "off \<le> unat (fs_num_inodes (mem w) (file_sys w))" "c \<noteq> []" using d off c(1) by (auto simp: dir_open_at_def dir_ok_def)
    obtain v where v: "call_read env a (int k) buf 32 w = Some (int (length c), c @ drop (length c) buf, v)" "user_ready a p v"
      "dir_open_at p k n (Suc off) v" "console_writes p [] w v" "dir_names (mem v) (file_sys v) (Suc off) n = cs"
      using call_read_entry [OF r d lim(1) _ h(3), of env 32] c h(2) entry_label_nth(2) [of "mem w" "file_sys w" off] by auto
    moreover have "length c \<le> 32" using entry_label_nth(2) c(1) by simp
    ultimately show ?thesis using kernel_dirI [OF v(2,3)] lim(2) h(2) fd by auto
  qed
  show "\<exists>v. sys_read (kernel_sys dev env exec a) fd buf (int n) w = Some (0, buf, v) \<and> kernel_dir a p fd [] v \<and> console_writes p [] w v"
    if h: "kernel_dir a p fd [] w" "n \<le> 32" "n \<le> length buf" "length buf \<le> 2048" for fd n buf and w :: "'a kbd_scheme"
  proof -
    obtain k m off where fd: "fd = int k" and d: "dir_open_at p k m off w" and cs: "[] = dir_names (mem w) (file_sys w) off m"
      and r: "user_ready a p w" using h(1) unfolding kernel_dir_def by blast
    have le: "m \<le> off" using cs by (auto simp: dir_names_def)
    show ?thesis
    proof (cases "off \<le> unat (fs_num_inodes (mem w) (file_sys w))")
      case True
      then have l: "entry_label (mem w) (file_sys w) off = []" using d le by (simp add: dir_open_at_def dir_ok_def)
      obtain v where "call_read env a (int k) buf (int n) w = Some (0, buf, v)" "user_ready a p v" "dir_open_at p k m (Suc off) v"
        "console_writes p [] w v"
        using call_read_entry [OF r d True _ h(4), of env "int n"] l by auto
      then show ?thesis using kernel_dirI [of a p v k m "Suc off" "[]"] le fd by (auto simp: dir_names_def)
    next
      case False
      then have "off = unat (fs_num_inodes (mem w) (file_sys w)) + 1" using d by (simp add: dir_open_at_def)
      from call_read_behind [OF r d this h(4), of env "int n"]
      obtain v where "call_read env a (int k) buf (int n) w = Some (0, buf, v)" "user_ready a p v" "dir_open_at p k m off v"
        "console_writes p [] w v" by blast
      then show ?thesis using kernel_dirI [of a p v k m off "[]"] le fd by (auto simp: dir_names_def)
    qed
  qed
  show "kernel_dir a p fd cs v"
    if h: "kernel_dir a p fd cs w" "n \<le> length buf" "length buf \<le> 2048"
      and w: "sys_write (kernel_sys dev env exec a) 1 buf (int n) w = Some (r, v)" for fd cs n buf r and w v :: "'a kbd_scheme"
  proof -
    obtain k m off where fd: "fd = int k" and d: "dir_open_at p k m off w" and cs: "cs = dir_names (mem w) (file_sys w) off m"
      and rw: "user_ready a p w" using h(1) unfolding kernel_dir_def by blast
    from call_write_result [OF rw h(2,3), of dev] w
    have v: "user_ready a p v" "console_writes p (take n buf) w v" "same_task w v" by auto
    then have "same_outside p 2048 (mem w) (mem v)" by (simp add: console_writes_def)
    note d' = dir_open_same [OF d v(3) this]
    show ?thesis unfolding fd by (rule kernel_dirI [OF v(1) d'(1)]) (simp only: cs d'(2))
  qed
qed

section \<open>ls on the kernel\<close>

lemma dot_found:
  assumes "file_type (copy_dentry (mem s) (file_sys s) 0) = 1"
  shows "\<exists>de. copy_name (cstr ''.'') 0 (replicate 32 0) = Some (46 # replicate 31 0) \<and>
    read_dentry_by_name (46 # replicate 31 0) blank_dentry s = Some (0, de) \<and> file_type de = 1"
proof -
  have "copy_name (cstr ''.'') 0 (replicate 32 0) = Some (46 # replicate 31 0)"
    using copy_name_pads [of "[46]" "[]" "[]"] by (simp add: cstr_def bytes_of_def)
  then show ?thesis
    using assms by (simp add: read_dentry_by_name_def rd_def wr_def blank_dentry_def FILENAME_LEN_def copy_dentry_def)
qed

lemma open_dot:
  assumes r: "user_ready a p s" and k: "lowest_free (cur_files s) k" and ty: "file_type (copy_dentry (mem s) (file_sys s) 0) = 1"
    and ok: "dir_ok (mem s) (file_sys s) n" "image_size (mem s) (file_sys s) < 2 ^ 32" "clear_of_image (mem s) (file_sys s) p 2048"
  shows "\<exists>u. do_open dev (cstr ''.'') s = Some (int k, u) \<and> user_ready a p u \<and> dir_open_at p k n 0 u \<and>
    mem u = mem s \<and> file_sys u = file_sys s \<and> console_writes p [] s u"
proof -
  have c: "get_cur_task s \<noteq> 0" "length (cur_files s) = 8" using r by (simp_all add: user_ready_def)
  have k8: "2 \<le> k" "k < 8" using k by (simp_all add: lowest_free_def)
  let ?name = "46 # replicate 31 (0 :: u8)"
  obtain de where nm: "copy_name (cstr ''.'') 0 (replicate 32 0) = Some ?name"
    and de: "read_dentry_by_name ?name blank_dentry s = Some (0, de)" "file_type de = 1"
    using dot_found [OF ty] by blast
  let ?f = "open_file de (get_inode (inode_num de) s) (cur_files s ! k)"
  let ?u = "with_files ((cur_files s)[k := ?f]) s"
  have "do_open dev (cstr ''.'') s = Some (int k, ?u)"
    by (rule open_result [OF c k nm de(1)]) (simp add: de(2))
  moreover have "user_ready a p ?u" by (rule user_ready_files [OF r]) (use c k8 in simp_all)
  moreover have "dir_open_at p k n 0 ?u"
    using k8 c(2) ok open_file_in_use(1) de(2) by (simp add: dir_open_at_def) (simp add: open_file_def type_fops_def)
  moreover have "console_writes p [] s ?u" by (rule console_writes_files [OF console_writes_nil [OF r]])
  ultimately show ?thesis by (intro exI [of _ ?u]) simp
qed

text \<open>C9. The program \<^verbatim>\<open>ls\<close> on this kernel, on an image whose first entry is the directory and whose entries
  behind the last name are empty as far as \<^verbatim>\<open>directory_read\<close> goes: it returns 0 and has written the
  names of all entries to the terminal of the task, each on a line of its own. \<^verbatim>\<open>directory_read\<close>
  ignores the size of the buffer, and the names, of up to 32 bytes, still fit.\<close>

theorem ls_prints_names:
  assumes r: "user_ready a p s" and k: "lowest_free (cur_files s) k" and ty: "file_type (copy_dentry (mem s) (file_sys s) 0) = 1"
    and ok: "dir_ok (mem s) (file_sys s) n" "image_size (mem s) (file_sys s) < 2 ^ 32" "clear_of_image (mem s) (file_sys s) p 2048"
    and buf: "length buf = 33"
  shows "\<exists>u. ls_main (kernel_sys dev env exec a) buf s = Some (0, u) \<and>
    console_writes p (concat (map (\<lambda>i. entry_label (mem s) (file_sys s) i @ [10]) [0..<n])) s u"
proof -
  obtain v where v: "do_open dev (cstr ''.'') s = Some (int k, v)" "user_ready a p v" "dir_open_at p k n 0 v"
    "mem v = mem s" "file_sys v = file_sys s" "console_writes p [] s v"
    using open_dot [OF r k ty ok] by blast
  have "kernel_dir a p (int k) (dir_names (mem s) (file_sys s) 0 n) v"
    by (rule kernel_dirI [OF v(2,3)]) (simp only: v(4,5))
  from listing.ls_writes [OF this refl buf, of dev env exec]
  obtain u where u: "ls_loop (kernel_sys dev env exec a) (int k) buf v = Some (0, u)"
    "console_writes p (concat (map (\<lambda>i. entry_label (mem s) (file_sys s) i @ [10]) [0..<n])) v u"
    by (auto simp: dir_names_def comp_def)
  have "ls_main (kernel_sys dev env exec a) buf s = Some (0, u)" using v(1) u(1) by (simp add: ls_main_def)
  then show ?thesis using console_writes_append [OF v(6) u(2)] by auto
qed

text \<open>The task of before on an image whose only entry is a directory with the name \<^verbatim>\<open>ls\<close>.\<close>

definition listing_demo :: kbd where
  "listing_demo = user_demo\<lparr>mem := reading_mem(0x10060 := 1)\<rparr>"

lemma listing_demo_image:
  "fs_num_inodes (mem listing_demo) 0x10000 = 1" "image_size (mem listing_demo) 0x10000 = 16384"
  "file_type (copy_dentry (mem listing_demo) 0x10000 0) = 1"
  "entry_label (mem listing_demo) 0x10000 0 = [108, 115]" "entry_label (mem listing_demo) 0x10000 1 = []"
proof -
  have m: "mem listing_demo = reading_mem(0x10060 := 1)" by (simp add: listing_demo_def)
  show "fs_num_inodes (mem listing_demo) 0x10000 = 1" "image_size (mem listing_demo) 0x10000 = 16384"
    "file_type (copy_dentry (mem listing_demo) 0x10000 0) = 1"
    by (simp_all add: m image_size_def fs_num_inodes_def fs_num_blocks_def copy_dentry_def fs_dentry_def ld32_def
        fs_demo_mem_def reading_mem_def st32_def Let_def)
  have e: "entry_name (mem listing_demo) 0x10000 0 = 108 # 115 # replicate 30 0"
    "entry_name (mem listing_demo) 0x10000 1 = replicate 32 0"
    by (simp_all add: entry_bytes m fs_dentry_def fs_demo_mem_def reading_mem_def st32_def Let_def upt_rec replicate_num)
  show "entry_label (mem listing_demo) 0x10000 0 = [108, 115]" "entry_label (mem listing_demo) 0x10000 1 = []"
    by (simp_all only: entry_label_def e) simp_all
qed

lemma listing_demo_ready: "user_ready 0x200000 0x200000 listing_demo"
proof -
  have "ld32 (reading_mem(0x10060 := 1)) 0x1000 = 0x83" by (simp add: reading_mem_def st32_def ld32_def Let_def)
  then show ?thesis unfolding listing_demo_def by (rule user_demo_mem_ready)
qed

theorem ls_prints_names_witness:
  "\<exists>u. ls_main (kernel_sys (\<lambda>_ _. 0) (\<lambda>_. ([], [])) (\<lambda>_ _. None) 0x200000) (replicate 33 0) listing_demo = Some (0, u) \<and>
     console_writes 0x200000 [108, 115, 10] listing_demo u"
proof -
  have fs: "file_sys listing_demo = 0x10000" "cur_files listing_demo = task_files user_task"
    by (simp_all add: listing_demo_def user_demo_sel(4,6) flip: user_demo_sel(6))
  have k: "lowest_free (cur_files listing_demo) 2"
    by (simp add: fs user_task_def task_demo_task_def lowest_free_def in_use_def)
  have ok: "dir_ok (mem listing_demo) (file_sys listing_demo) 1"
    using listing_demo_image by (auto simp: dir_ok_def fs le_Suc_eq)
  have clear: "clear_of_image (mem listing_demo) (file_sys listing_demo) 0x200000 2048"
    using user_demo_image(2) listing_demo_image(2)
    by (simp add: clear_of_image_def fs user_demo_sel(3,4) image_size_def reading_header)
  show ?thesis
    using ls_prints_names [OF listing_demo_ready k _ ok _ clear, of "replicate 33 0" "\<lambda>_ _. 0" "\<lambda>_. ([], [])" "\<lambda>_ _. None"]
      listing_demo_image by (simp add: fs(1))
qed

end
