(* ===== verification/Pingpong.thy ===== *)
theory Pingpong
  imports Programs
begin

text \<open>
  The program \<^verbatim>\<open>pingpong\<close>: a letter that runs between two walls, one step for each tick of the clock. It relies
  on an output and on a clock that ticks: the locale \<^verbatim>\<open>clocked_output\<close>.
\<close>

section \<open>The program\<close>

text \<open>The array of \<^verbatim>\<open>BUFMAX\<close>, 81, bytes with the walls.\<close>

definition walls :: "u8 list \<Rightarrow> u8 list option" where
  "walls buf = do {
     buf \<leftarrow> for_range 0 81 (\<lambda>i buf. wr buf i 32) buf;
     buf \<leftarrow> wr buf 80 0;
     buf \<leftarrow> wr buf 79 10;
     buf \<leftarrow> wr buf 78 (chr CHR ''|'');
     wr buf 1 (chr CHR ''|'') }"

text \<open>A frame: the world between the walls is cleared, the letter is put at \<^verbatim>\<open>j\<close>, the line is written, and
  the program waits for the clock.\<close>

definition draw_frame :: "'w sys \<Rightarrow> int \<Rightarrow> u8 \<Rightarrow> nat \<Rightarrow> u8 list \<times> u8 list \<times> 'w \<Rightarrow> (u8 list \<times> u8 list \<times> 'w) option" where
  "draw_frame sys rtc_fd curchar j s = (case s of (buf, garbage, w) \<Rightarrow> do {
     buf \<leftarrow> for_range 2 78 (\<lambda>i buf. wr buf i 32) buf;
     buf \<leftarrow> wr buf j curchar;
     w \<leftarrow> fdputs sys buf w;
     (_, garbage, w) \<leftarrow> sys_read sys rtc_fd garbage 4 w;
     Some (buf, garbage, w) })"

text \<open>Out and back, and the letter after that.\<close>

definition next_letter :: "u8 \<Rightarrow> u8" where
  "next_letter curchar = (if curchar = chr CHR ''Z'' then chr CHR ''A'' else curchar + 1)"

definition bounce :: "'w sys \<Rightarrow> int \<Rightarrow> u8 \<Rightarrow> u8 list \<times> u8 list \<times> 'w \<Rightarrow> (u8 list \<times> u8 list \<times> 'w) option" where
  "bounce sys rtc_fd curchar s = do {
     s \<leftarrow> fold_opt (draw_frame sys rtc_fd curchar) [2..<78] s;
     fold_opt (draw_frame sys rtc_fd curchar) (rev [2..<78]) s }"

text \<open>The loop does not end: this is its first \<^term>\<open>n\<close> rounds.\<close>

primrec pingpong_rounds :: "nat \<Rightarrow> 'w sys \<Rightarrow> int \<Rightarrow> u8 \<Rightarrow> u8 list \<times> u8 list \<times> 'w \<Rightarrow> (u8 list \<times> u8 list \<times> 'w) option" where
  "pingpong_rounds 0 sys rtc_fd curchar s = Some s"
| "pingpong_rounds (Suc n) sys rtc_fd curchar s = do {
     s \<leftarrow> bounce sys rtc_fd curchar s;
     pingpong_rounds n sys rtc_fd (next_letter curchar) s }"

text \<open>\<^verbatim>\<open>main\<close> up to the end of round \<^term>\<open>n\<close>.\<close>

definition pingpong_main :: "nat \<Rightarrow> 'w sys \<Rightarrow> u8 list \<Rightarrow> u8 list \<Rightarrow> 'w \<Rightarrow> (u8 list \<times> u8 list \<times> 'w) option" where
  "pingpong_main n sys buf garbage w = do {
     buf \<leftarrow> walls buf;
     (rtc_fd, w) \<leftarrow> sys_open sys (cstr ''rtc'') w;
     (_, w) \<leftarrow> sys_write sys rtc_fd [32, 0, 0, 0] 4 w;
     pingpong_rounds n sys rtc_fd (chr CHR ''A'') (buf, garbage, w) }"

section \<open>What it prints\<close>

text \<open>The line with the letter at column \<^term>\<open>j\<close>.\<close>

definition frame_line :: "u8 \<Rightarrow> nat \<Rightarrow> u8 list" where
  "frame_line c j = (bytes_of '' |'' @ replicate 76 32 @ bytes_of ''|'' @ [10])[j := c]"

definition round_text :: "u8 \<Rightarrow> u8 list" where
  "round_text c = concat (map (frame_line c) ([2..<78] @ rev [2..<78]))"

text \<open>Round \<^term>\<open>r\<close> is that of the letter \<^term>\<open>r\<close> of the alphabet, from \<^verbatim>\<open>A\<close> on and round again.\<close>

definition letter :: "nat \<Rightarrow> u8" where
  "letter r = chr CHR ''A'' + of_nat (r mod 26)"

lemma unat_letter: "unat (letter r) = 65 + r mod 26"
proof -
  have "letter r = of_nat (65 + r mod 26)" by (simp add: letter_def)
  moreover have "unat (of_nat (65 + r mod 26) :: u8) = 65 + r mod 26"
    unfolding unat_of_nat by (rule mod_less) (use mod_less_divisor [of 26 r] in simp)
  ultimately show ?thesis by simp
qed

lemma letter_neq: "letter r \<noteq> 0"
  using unat_letter [of r] by auto

lemma next_letter: "next_letter (letter r) = letter (Suc r)"
proof -
  have m: "r mod 26 < 26" by simp
  have z: "letter r = chr CHR ''Z'' \<longleftrightarrow> r mod 26 = 25" by (simp add: word_unat_eq_iff unat_letter)
  show ?thesis
  proof (cases "r mod 26 = 25")
    case True
    then show ?thesis using z by (simp add: next_letter_def letter_def mod_Suc)
  next
    case False
    then show ?thesis using z by (simp add: next_letter_def letter_def mod_Suc)
  qed
qed

text \<open>The array with the walls, whatever is between them.\<close>

definition walled :: "u8 list \<Rightarrow> bool" where
  "walled buf = (\<exists>xs. length xs = 76 \<and> buf = bytes_of '' |'' @ xs @ bytes_of ''|'' @ [10, 0])"

lemma walls_walled: "length buf = 81 \<Longrightarrow> \<exists>b. walls buf = Some b \<and> walled b"
proof -
  assume "length buf = 81"
  then have f: "for_range 0 81 (\<lambda>i buf. wr buf i 32) buf = Some (replicate 81 32)"
    using fill_loop [of 0 81 buf 32] by simp
  have "(replicate 81 (32 :: u8))[80 := 0, 79 := 10, 78 := chr CHR ''|'', 1 := chr CHR ''|''] =
      bytes_of '' |'' @ replicate 76 32 @ bytes_of ''|'' @ [10, 0]"
    by (simp add: replicate_num bytes_of_def)
  then show ?thesis unfolding walls_def f walled_def by (simp add: wr_def)
qed

locale clocked_output = text_output +
  fixes clock :: int
  assumes waits: "ready w \<Longrightarrow> length g = 4 \<Longrightarrow>
    \<exists>r g' v. sys_read sys clock g 4 w = Some (r, g', v) \<and> length g' = 4 \<and> ready v \<and> writes [] w v"
begin

lemma draw_frame_writes:
  assumes "ready w" and "walled buf" and "length g = 4" and "2 \<le> j" "j < 78" and "c \<noteq> 0"
  shows "\<exists>b g' v. draw_frame sys clock c j (buf, g, w) = Some (b, g', v) \<and> walled b \<and> length g' = 4 \<and> ready v \<and>
    writes (frame_line c j) w v"
proof -
  obtain xs where xs: "length xs = 76" "buf = bytes_of '' |'' @ xs @ bytes_of ''|'' @ [10, 0]"
    using assms(2) unfolding walled_def by blast
  let ?line = "bytes_of '' |'' @ replicate 76 32 @ bytes_of ''|'' @ [10]"
  have "take 2 buf = bytes_of '' |''" "drop 78 buf = bytes_of ''|'' @ [10, 0]" "length buf = 80 + 1"
    using xs by (simp_all add: bytes_of_def)
  then have f: "for_range 2 78 (\<lambda>i buf. wr buf i 32) buf = Some (?line @ [0])"
    using fill_loop [of 2 78 buf 32] by simp
  have len: "length ?line = 80" by (simp add: bytes_of_def)
  then have w: "wr (?line @ [0]) j c = Some (frame_line c j @ [0])"
    using assms(5) list_update_append1 [of j ?line "[0]" c] by (simp add: wr_def frame_line_def)
  have "0 \<notin> set ?line" by (simp add: bytes_of_def)
  then have nz: "0 \<notin> set (frame_line c j)" using assms(6) set_update_subset_insert [of ?line j c] by (auto simp: frame_line_def)
  have "length (frame_line c j) = 80" using len by (simp add: frame_line_def)
  then obtain v where v: "fdputs sys (frame_line c j @ [0]) w = Some v" "ready v" "writes (frame_line c j) w v"
    using message_writes [OF assms(1) nz, of "[]"] by auto
  obtain r g' u where u: "sys_read sys clock g 4 v = Some (r, g', u)" "length g' = 4" "ready u" "writes [] v u"
    using waits [OF v(2) assms(3)] by blast
  have "walled (frame_line c j @ [0])"
  proof -
    have "frame_line c j = bytes_of '' |'' @ (replicate 76 32)[j - 2 := c] @ bytes_of ''|'' @ [10]"
    proof -
      have "length (bytes_of '' |'') = 2" by (simp add: bytes_of_def)
      moreover have "\<not> j < 2" "j - 2 < length (replicate 76 (32 :: u8))" using assms(4,5) by simp_all
      ultimately show ?thesis unfolding frame_line_def by (simp only: list_update_append if_True if_False)
    qed
    then show ?thesis unfolding walled_def by (intro exI [of _ "(replicate 76 32)[j - 2 := c]"]) simp
  qed
  then show ?thesis using f w v(1) u also_writes [OF v(3) u(4)] by (simp add: draw_frame_def)
qed

lemma frames_write:
  assumes "ready w" and "walled buf" and "length g = 4" and "c \<noteq> 0" and "\<forall>j \<in> set js. 2 \<le> j \<and> j < 78"
  shows "\<exists>b g' v. fold_opt (draw_frame sys clock c) js (buf, g, w) = Some (b, g', v) \<and> walled b \<and> length g' = 4 \<and> ready v \<and>
    writes (concat (map (frame_line c) js)) w v"
  using assms
proof (induction js arbitrary: buf g w)
  case Nil
  then show ?case using no_text by simp
next
  case (Cons j js)
  obtain b g' v where v: "draw_frame sys clock c j (buf, g, w) = Some (b, g', v)" "walled b" "length g' = 4" "ready v"
    "writes (frame_line c j) w v"
    using draw_frame_writes [OF Cons.prems(1-3) _ _ Cons.prems(4), of j] Cons.prems(5) by auto
  obtain b2 g2 u where "fold_opt (draw_frame sys clock c) js (b, g', v) = Some (b2, g2, u)" "walled b2" "length g2 = 4" "ready u"
    "writes (concat (map (frame_line c) js)) v u"
    using Cons.IH [OF v(4,2,3)] Cons.prems(4,5) by auto
  then show ?case using v(1) also_writes [OF v(5)] by simp
qed

text \<open>\<^term>\<open>n\<close> rounds from the letter \<^term>\<open>r\<close> on.\<close>

lemma rounds_write:
  assumes "ready w" and "walled buf" and "length g = 4"
  shows "\<exists>b g' v. pingpong_rounds n sys clock (letter r) (buf, g, w) = Some (b, g', v) \<and> walled b \<and> length g' = 4 \<and> ready v \<and>
    writes (concat (map (\<lambda>k. round_text (letter k)) [r..<r + n])) w v"
  using assms
proof (induction n arbitrary: r buf g w)
  case 0
  then show ?case using no_text by simp
next
  case (Suc n)
  obtain b g' v where v: "fold_opt (draw_frame sys clock (letter r)) [2..<78] (buf, g, w) = Some (b, g', v)" "walled b" "length g' = 4" "ready v"
    "writes (concat (map (frame_line (letter r)) [2..<78])) w v"
    using frames_write [OF Suc.prems letter_neq, of "[2..<78]" r] by auto
  obtain b2 g2 u where u: "fold_opt (draw_frame sys clock (letter r)) (rev [2..<78]) (b, g', v) = Some (b2, g2, u)" "walled b2" "length g2 = 4"
    "ready u" "writes (concat (map (frame_line (letter r)) (rev [2..<78]))) v u"
    using frames_write [OF v(4,2,3) letter_neq, of "rev [2..<78]" r] by auto
  obtain b3 g3 x where x: "pingpong_rounds n sys clock (letter (Suc r)) (b2, g2, u) = Some (b3, g3, x)" "walled b3" "length g3 = 4" "ready x"
    "writes (concat (map (\<lambda>k. round_text (letter k)) [Suc r..<Suc r + n])) u x"
    using Suc.IH [OF u(4,2,3)] by blast
  have "bounce sys clock (letter r) (buf, g, w) = Some (b2, g2, u)" using v(1) u(1) by (simp add: bounce_def)
  then have "pingpong_rounds (Suc n) sys clock (letter r) (buf, g, w) = Some (b3, g3, x)"
    using x(1) by (simp add: next_letter)
  moreover have "[r..<r + Suc n] = r # [Suc r..<Suc r + n]" by (simp add: upt_conv_Cons del: upt_Suc)
  ultimately show ?case using x(2-4) also_writes [OF also_writes [OF v(5) u(5)] x(5)] by (simp add: round_text_def)
qed

end

end
