(* ===== verification/UserTests.thy ===== *)
theory UserTests
  imports UserDir UserClock Pingpong
begin

text \<open>
  \<^verbatim>\<open>syserr\<close> and \<^verbatim>\<open>pingpong\<close> on the kernel: the errors that the calls report, and the clock as something a program
  waits for.
\<close>

unbundle bit_operations_syntax

section \<open>Calls that fail\<close>

lemma read_bad_fd:
  assumes r: "user_ready a p s" and fd: "fd < 0 \<or> 7 < fd" and len: "length buf \<le> 2048"
  shows "\<exists>v. call_read env a fd buf n s = Some (- 1, buf, v) \<and> user_ready a p v \<and> console_writes p [] s v"
proof -
  define s1 where "s1 = s\<lparr>mem := copied p (\<lambda>j. buf ! j) (length buf) (mem s)\<rparr>"
  note st = store_buffer [OF r len, folded s1_def]
  have "same_outside p 2048 (mem s) (mem s1)" using copied_outside [OF len] by (simp add: s1_def)
  then have "console_writes p [] s s1" using console_writes_mem [OF r] by (simp add: s1_def)
  moreover have "do_read ticks intrs fd a n s1 = Some (- 1, s1)" for ticks intrs
    using st(2) fd by (auto simp: do_read_def user_ready_def)
  moreover have "user_loads a (length buf) s1 = Some buf"
    using load_buffer [OF st(2) _ order_refl len] map_nth_take [of "length buf" buf] by (simp add: s1_def)
  ultimately show ?thesis using st by (auto simp: call_read_def)
qed

lemma write_bad_fd:
  assumes r: "user_ready a p s" and fd: "fd < 0 \<or> 7 < fd" and len: "length buf \<le> 2048"
  shows "\<exists>v. call_write dev a fd buf n s = Some (- 1, v) \<and> user_ready a p v \<and> console_writes p [] s v"
proof -
  define s1 where "s1 = s\<lparr>mem := copied p (\<lambda>j. buf ! j) (length buf) (mem s)\<rparr>"
  note st = store_buffer [OF r len, folded s1_def]
  have "same_outside p 2048 (mem s) (mem s1)" using copied_outside [OF len] by (simp add: s1_def)
  then have "console_writes p [] s s1" using console_writes_mem [OF r] by (simp add: s1_def)
  moreover have "do_write dev fd a n s1 = Some (- 1, s1)" using st(2) fd by (auto simp: do_write_def user_ready_def)
  ultimately show ?thesis using st by (auto simp: call_write_def)
qed

lemma open_missing:
  assumes "0 \<notin> set name" and "length name \<le> 32" and "read_dentry_by_name (name @ replicate (32 - length name) 0) blank_dentry s = Some (- 1, de)"
  shows "do_open dev (name @ [0]) s = Some (- 1, s)"
  using copy_name_pads [OF assms(1), of "[]" "[]"] assms(2,3) by (simp add: do_open_def)

lemma open_full:
  assumes r: "user_ready a p s" and full: "\<forall>j. 2 \<le> j \<and> j < 8 \<longrightarrow> in_use (cur_files s ! j)"
    and nm: "copy_name filename 0 (replicate 32 0) = Some fname" "read_dentry_by_name fname blank_dentry s = Some (0, de)"
  shows "do_open dev filename s = Some (- 1, s)"
proof -
  have c: "get_cur_task s \<noteq> 0" "length (cur_files s) = 8" using r by (simp_all add: user_ready_def)
  then show ?thesis using nm full_fd [OF c(2) full] by (simp add: do_open_def task_at_def cur_files_def [symmetric])
qed

text \<open>Opening the directory: the lowest descriptor that is free is in use afterwards, the others are as they were.\<close>

lemma open_dot_next:
  assumes r: "user_ready a p s" and ty: "file_type (copy_dentry (mem s) (file_sys s) 0) = 1" and k: "lowest_free (cur_files s) k"
  shows "\<exists>u. do_open dev (cstr ''.'') s = Some (int k, u) \<and> user_ready a p u \<and> mem u = mem s \<and> file_sys u = file_sys s \<and>
    console_writes p [] s u \<and> (\<forall>j. in_use (cur_files u ! j) \<longleftrightarrow> j = k \<or> in_use (cur_files s ! j))"
proof -
  have c: "get_cur_task s \<noteq> 0" "length (cur_files s) = 8" using r by (simp_all add: user_ready_def)
  have k8: "2 \<le> k" "k < 8" using k by (simp_all add: lowest_free_def)
  obtain de where de: "copy_name (cstr ''.'') 0 (replicate 32 0) = Some (46 # replicate 31 0)"
    "read_dentry_by_name (46 # replicate 31 0) blank_dentry s = Some (0, de)" "file_type de = 1"
    using dot_found [OF ty] by blast
  let ?u = "with_files ((cur_files s)[k := open_file de (get_inode (inode_num de) s) (cur_files s ! k)]) s"
  have "do_open dev (cstr ''.'') s = Some (int k, ?u)" by (rule open_result [OF c k de(1,2)]) (simp add: de(3))
  moreover have "user_ready a p ?u" by (rule user_ready_files [OF r]) (use c k8 in simp_all)
  moreover have "in_use (cur_files ?u ! j) \<longleftrightarrow> j = k \<or> in_use (cur_files s ! j)" for j
    using c k8 open_file_in_use(1) by (cases "j = k") simp_all
  moreover have "console_writes p [] s ?u" by (rule console_writes_files [OF console_writes_nil [OF r]])
  ultimately show ?thesis by (intro exI [of _ ?u]) simp
qed

lemma opens_fill:
  assumes "user_ready a p s" and "file_type (copy_dentry (mem s) (file_sys s) 0) = 1" and "\<forall>j. 2 \<le> j \<and> j < 8 \<longrightarrow> (in_use (cur_files s ! j) \<longleftrightarrow> j < k)"
    and "2 \<le> k" and "k + n = 8"
  shows "\<exists>u. fold_opt (\<lambda>i. open_again (kernel_sys dev env exec a)) [i..<i + n] (c, s) = Some (c, u) \<and> user_ready a p u \<and> mem u = mem s \<and>
    file_sys u = file_sys s \<and> console_writes p [] s u \<and> (\<forall>j. 2 \<le> j \<and> j < 8 \<longrightarrow> in_use (cur_files u ! j))"
  using assms
proof (induction n arbitrary: s k i)
  case 0
  then show ?case using console_writes_nil by auto
next
  case (Suc n)
  have "lowest_free (cur_files s) k" using Suc.prems(3-5) by (simp add: lowest_free_def list_all_iff)
  from open_dot_next [OF Suc.prems(1,2) this, of dev]
  obtain v where v: "do_open dev (cstr ''.'') s = Some (int k, v)" "user_ready a p v" "mem v = mem s" "file_sys v = file_sys s"
    "console_writes p [] s v" "\<forall>j. in_use (cur_files v ! j) \<longleftrightarrow> j = k \<or> in_use (cur_files s ! j)" by blast
  have "open_again (kernel_sys dev env exec a) (c, s) = Some (c, v)" using v(1) by (simp add: open_again_def)
  moreover have "\<exists>u. fold_opt (\<lambda>i. open_again (kernel_sys dev env exec a)) [Suc i..<Suc i + n] (c, v) = Some (c, u) \<and> user_ready a p u \<and>
      mem u = mem v \<and> file_sys u = file_sys v \<and> console_writes p [] v u \<and> (\<forall>j. 2 \<le> j \<and> j < 8 \<longrightarrow> in_use (cur_files u ! j))"
    by (rule Suc.IH [of _ "Suc k"]) (use v(2-4,6) Suc.prems in auto)
  moreover have "[i..<i + Suc n] = i # [Suc i..<Suc i + n]" by (simp add: upt_conv_Cons del: upt_Suc)
  ultimately show ?case using v(3,4) console_writes_append [OF v(5)] by (auto simp del: upt_Suc)
qed

text \<open>The verdict after a call that has printed nothing.\<close>

lemma verdict:
  assumes "user_ready a p v" and "console_writes p [] s v" and "0 \<notin> set (bytes_of m)" and "length m < 1000"
  shows "\<exists>u. leave (kernel_sys dev env exec a) (cline m) r v = Some (r, u) \<and> console_writes p (bytes_of m @ [10]) s u"
proof -
  have "0 \<notin> set (bytes_of m @ [10])" "length (bytes_of m @ [10]) < 2047" using assms(3,4) by (simp_all add: bytes_of_def)
  from console.leave_writes [OF assms(1) this, of dev env exec r]
  obtain u where u: "leave (kernel_sys dev env exec a) (cline m) r v = Some (r, u)" "console_writes p (bytes_of m @ [10]) v u"
    by (auto simp: cline_def)
  then show ?thesis using console_writes_append [OF assms(2) u(2)] by auto
qed

lemma attempt_fails:
  assumes r: "user_ready a p v" and w: "console_writes p xs s v" and name: "0 \<notin> set (bytes_of name)" "length name \<le> 32"
    and missing: "read_dentry_by_name (bytes_of name @ replicate (32 - length name) 0) blank_dentry s = Some (- 1, d)"
    and fs: "fs_num_dentries (mem s) (file_sys s) \<le> 63" "clear_of_image (mem s) (file_sys s) p 2048"
  shows "\<exists>u. attempt (kernel_sys dev env exec a) name v = Some (True, u) \<and> user_ready a p u \<and>
    console_writes p (xs @ bytes_of (attempt_text name ''PASS'') @ [10]) s u"
proof -
  have same: "same_image (mem s) (mem v) (file_sys s)" "file_sys v = file_sys s"
    using w same_outside_image [OF fs(2)] by (simp_all add: console_writes_def)
  have len: "length (bytes_of name) = length name" by (simp add: bytes_of_def)
  have "read_dentry_by_name (bytes_of name @ replicate (32 - length (bytes_of name)) 0) blank_dentry v = Some (- 1, d)"
    using read_by_name_same [OF same fs(1)] missing name(2) len by simp
  then have "do_open dev (cstr name) v = Some (- 1, v)"
    using open_missing [OF name(1)] name(2) len by (simp add: cstr_def)
  then have o: "sys_open (kernel_sys dev env exec a) (cstr name) v = Some (- 1, v)" by simp
  show ?thesis
    using console.attempt_passes [OF o r name(1)] name(2) console_writes_append [OF w] by fastforce
qed

section \<open>syserr on the kernel\<close>

lemma open_lots_passes:
  assumes r: "user_ready a p s" and dot: "file_type (copy_dentry (mem s) (file_sys s) 0) = 1"
    and free: "\<forall>j. 2 \<le> j \<and> j < 8 \<longrightarrow> \<not> in_use (cur_files s ! j)"
  shows "\<exists>u. err_open_lots (kernel_sys dev env exec a) s = Some (0, u) \<and> console_writes p (bytes_of ''err_open_lots: PASS'' @ [10]) s u"
proof -
  let ?sys = "kernel_sys dev env exec a"
  obtain v where v: "fold_opt (\<lambda>i. open_again ?sys) [0..<0 + 6] (0, s) = Some (0, v)" "user_ready a p v" "mem v = mem s"
    "file_sys v = file_sys s" "console_writes p [] s v" "\<forall>j. 2 \<le> j \<and> j < 8 \<longrightarrow> in_use (cur_files v ! j)"
    using opens_fill [OF r dot, of 2 6 dev env exec 0 0] free by auto
  obtain de where de: "copy_name (cstr ''.'') 0 (replicate 32 0) = Some (46 # replicate 31 0)"
    "read_dentry_by_name (46 # replicate 31 0) blank_dentry v = Some (0, de)"
    using dot_found [of v] dot v(3,4) by auto
  have "open_again ?sys (0, v) = Some (1, v)" using open_full [OF v(2,6) de] by (simp add: open_again_def)
  moreover have "[0..<7 :: nat] = [0..<0 + 6] @ [6]" by (simp add: upt_rec)
  ultimately have "for_range 0 7 (\<lambda>i. open_again ?sys) (0, s) = Some (1, v)"
    using v(1) by (simp add: for_range_def fold_opt_append del: upt_rec_numeral)
  then show ?thesis using verdict [OF v(2,5), of "''err_open_lots: PASS''" dev env exec 0] by (simp add: err_open_lots_def bytes_of_def)
qed

lemma open_missing_passes:
  assumes r: "user_ready a p s" and fs: "fs_num_dentries (mem s) (file_sys s) \<le> 63" "clear_of_image (mem s) (file_sys s) p 2048"
    and missing: "read_dentry_by_name (bytes_of ''helloo'' @ replicate 26 0) blank_dentry s = Some (- 1, d1)"
      "read_dentry_by_name (bytes_of ''shel'' @ replicate 28 0) blank_dentry s = Some (- 1, d2)"
      "read_dentry_by_name (replicate 32 0) blank_dentry s = Some (- 1, d3)"
  shows "\<exists>u. err_open (kernel_sys dev env exec a) s = Some (0, u) \<and>
    console_writes p (concat (map (\<lambda>name. bytes_of (attempt_text name ''PASS'') @ [10]) [''helloo'', ''shel'', []])) s u"
proof -
  let ?sys = "kernel_sys dev env exec a"
  note nil = console_writes_nil [OF r]
  obtain v where v: "attempt ?sys ''helloo'' s = Some (True, v)" "user_ready a p v"
    "console_writes p ([] @ bytes_of (attempt_text ''helloo'' ''PASS'') @ [10]) s v"
    using attempt_fails [OF r nil, of "''helloo''" d1 dev env exec] missing(1) fs by (auto simp: bytes_of_def)
  obtain w where w: "attempt ?sys ''shel'' v = Some (True, w)" "user_ready a p w"
    "console_writes p (([] @ bytes_of (attempt_text ''helloo'' ''PASS'') @ [10]) @ bytes_of (attempt_text ''shel'' ''PASS'') @ [10]) s w"
    using attempt_fails [OF v(2,3), of "''shel''" d2 dev env exec] missing(2) fs by (auto simp: bytes_of_def)
  obtain u where u: "attempt ?sys [] w = Some (True, u)"
    "console_writes p ((([] @ bytes_of (attempt_text ''helloo'' ''PASS'') @ [10]) @ bytes_of (attempt_text ''shel'' ''PASS'') @ [10]) @
      bytes_of (attempt_text [] ''PASS'') @ [10]) s u"
    using attempt_fails [OF w(2,3), of "[]" d3 dev env exec] missing(3) fs by (auto simp: bytes_of_def)
  have "err_open ?sys s = Some (0, u)" using v(1) w(1) u(1) by (simp add: err_open_def)
  then show ?thesis using u(2) by auto
qed

text \<open>C26. The tests of \<^verbatim>\<open>syserr\<close> pass on this kernel, each in the circumstances it asks for, and say so on the
  terminal: reading a negative descriptor and writing one that is too big fail; with six descriptors
  free only the seventh of seven opens fails; names that are one letter too long, one too short or
  empty are not found; a descriptor that is not open cannot be closed.\<close>

theorem syserr_passes:
  assumes r: "user_ready a p s" and buf: "length buf = 32"
    and dot: "file_type (copy_dentry (mem s) (file_sys s) 0) = 1" and free: "\<forall>j. 2 \<le> j \<and> j < 8 \<longrightarrow> \<not> in_use (cur_files s ! j)"
    and fs: "fs_num_dentries (mem s) (file_sys s) \<le> 63" "clear_of_image (mem s) (file_sys s) p 2048"
    and missing: "read_dentry_by_name (bytes_of ''helloo'' @ replicate 26 0) blank_dentry s = Some (- 1, d1)"
      "read_dentry_by_name (bytes_of ''shel'' @ replicate 28 0) blank_dentry s = Some (- 1, d2)"
      "read_dentry_by_name (replicate 32 0) blank_dentry s = Some (- 1, d3)"
  shows "(\<exists>u. err_read_neg_fd (kernel_sys dev env exec a) buf s = Some (0, u) \<and> console_writes p (bytes_of ''err_read_neg_fd: PASS'' @ [10]) s u) \<and>
    (\<exists>u. err_write_big_fd (kernel_sys dev env exec a) buf s = Some (0, u) \<and> console_writes p (bytes_of ''err_write_big_fd: PASS'' @ [10]) s u) \<and>
    (\<exists>u. err_open_lots (kernel_sys dev env exec a) s = Some (0, u) \<and> console_writes p (bytes_of ''err_open_lots: PASS'' @ [10]) s u) \<and>
    (\<exists>u. err_open (kernel_sys dev env exec a) s = Some (0, u) \<and>
      console_writes p (concat (map (\<lambda>name. bytes_of (attempt_text name ''PASS'') @ [10]) [''helloo'', ''shel'', []])) s u) \<and>
    (\<exists>u. err_close (kernel_sys dev env exec a) s = Some (0, u) \<and> console_writes p (bytes_of ''err_close: PASS'' @ [10]) s u)"
proof (intro conjI)
  let ?sys = "kernel_sys dev env exec a"
  have len: "length buf \<le> 2048" using buf by simp
  note nil = console_writes_nil [OF r]
  show "\<exists>u. err_read_neg_fd ?sys buf s = Some (0, u) \<and> console_writes p (bytes_of ''err_read_neg_fd: PASS'' @ [10]) s u"
  proof -
    obtain v where v: "call_read env a NEG_FD buf 31 s = Some (- 1, buf, v)" "user_ready a p v" "console_writes p [] s v"
      using read_bad_fd [OF r _ len, of NEG_FD env 31] by (auto simp: NEG_FD_def)
    show ?thesis using verdict [OF v(2,3), of "''err_read_neg_fd: PASS''" dev env exec 0] v(1) by (simp add: err_read_neg_fd_def bytes_of_def)
  qed
  show "\<exists>u. err_write_big_fd ?sys buf s = Some (0, u) \<and> console_writes p (bytes_of ''err_write_big_fd: PASS'' @ [10]) s u"
  proof -
    obtain v where v: "call_write dev a BIG_FD buf 31 s = Some (- 1, v)" "user_ready a p v" "console_writes p [] s v"
      using write_bad_fd [OF r _ len, of BIG_FD dev 31] by (auto simp: BIG_FD_def)
    show ?thesis using verdict [OF v(2,3), of "''err_write_big_fd: PASS''" dev env exec 0] v(1) by (simp add: err_write_big_fd_def bytes_of_def)
  qed
  show "\<exists>u. err_open_lots ?sys s = Some (0, u) \<and> console_writes p (bytes_of ''err_open_lots: PASS'' @ [10]) s u"
    by (rule open_lots_passes [OF r dot free])
  show "\<exists>u. err_open ?sys s = Some (0, u) \<and>
      console_writes p (concat (map (\<lambda>name. bytes_of (attempt_text name ''PASS'') @ [10]) [''helloo'', ''shel'', []])) s u"
    by (rule open_missing_passes [OF r fs missing])
  show "\<exists>u. err_close ?sys s = Some (0, u) \<and> console_writes p (bytes_of ''err_close: PASS'' @ [10]) s u"
  proof -
    have "do_close dev 7 s = Some (- 1, s)"
      using free cur_file_in(1) [of s 7] r by (simp add: do_close_def user_ready_def in_use_def)
    then show ?thesis using verdict [OF r nil, of "''err_close: PASS''" dev env exec 0] by (simp add: err_close_def bytes_of_def)
  qed
qed

theorem syserr_passes_witness:
  "(\<exists>u. err_open_lots (kernel_sys (\<lambda>_ _. 0) (\<lambda>_. ([], [])) (\<lambda>_ _. None) 0x200000) listing_demo = Some (0, u) \<and>
     console_writes 0x200000 (bytes_of ''err_open_lots: PASS'' @ [10]) listing_demo u) \<and>
   (\<exists>u. err_open (kernel_sys (\<lambda>_ _. 0) (\<lambda>_. ([], [])) (\<lambda>_ _. None) 0x200000) listing_demo = Some (0, u))"
proof -
  have fs: "file_sys listing_demo = 0x10000" "cur_files listing_demo = task_files user_task"
    by (simp_all add: listing_demo_def user_demo_sel(4,6) flip: user_demo_sel(6))
  have n: "fs_num_dentries (mem listing_demo) 0x10000 = 1"
    by (simp add: listing_demo_def fs_num_dentries_def ld32_def fs_demo_mem_def reading_mem_def st32_def Let_def)
  have e: "entry_name (mem listing_demo) 0x10000 0 = 108 # 115 # replicate 30 0"
    by (simp add: entry_bytes listing_demo_def fs_dentry_def fs_demo_mem_def reading_mem_def st32_def Let_def upt_rec replicate_num)
  have m: "read_dentry_by_name (bytes_of ''helloo'' @ replicate 26 0) blank_dentry listing_demo = Some (- 1, blank_dentry)"
    "read_dentry_by_name (bytes_of ''shel'' @ replicate 28 0) blank_dentry listing_demo = Some (- 1, blank_dentry)"
    "read_dentry_by_name (replicate 32 0) blank_dentry listing_demo = Some (- 1, blank_dentry)"
    by (simp_all add: read_dentry_by_name_def fs(1) n find_dentry_eq e bytes_of_def FILENAME_LEN_def rd_def replicate_num)
  have free: "\<forall>j. 2 \<le> j \<and> j < 8 \<longrightarrow> \<not> in_use (cur_files listing_demo ! j)"
    by (auto simp: fs(2) user_task_def task_demo_task_def in_use_def)
  have clear: "clear_of_image (mem listing_demo) (file_sys listing_demo) 0x200000 2048"
    using user_demo_image(2) listing_demo_image(2)
    by (simp add: clear_of_image_def fs user_demo_sel(3,4) image_size_def reading_header)
  show ?thesis
    using syserr_passes [OF listing_demo_ready _ _ free _ clear m, of "replicate 32 0" "\<lambda>_ _. 0" "\<lambda>_. ([], [])" "\<lambda>_ _. None"]
      listing_demo_image(3) by (simp add: fs(1) n) blast
qed

section \<open>The clock as the kernel has it\<close>

interpretation ticking: clocked_output "kernel_sys dev (\<lambda>s. ([do_idt_rtc dev], intrs)) exec a" "clock_ready a p k" "console_writes p" "int k"
  for dev intrs exec a p k
proof unfold_locales
  show "console_writes p [] w w" if "clock_ready a p k w" for w :: "'a kbd_scheme"
    using that by (auto simp: clock_ready_def intro: console_writes_nil)
  show "console_writes p (xs @ ys) w u" if "console_writes p xs w v" "console_writes p ys v u" for xs ys and w v u :: "'a kbd_scheme"
    by (rule console_writes_append [OF that])
  show "\<exists>r v. sys_write (kernel_sys dev (\<lambda>s. ([do_idt_rtc dev], intrs)) exec a) 1 buf (int n) w = Some (r, v) \<and> r \<noteq> - 1 \<and> clock_ready a p k v \<and>
      console_writes p (take n buf) w v"
    if "clock_ready a p k w" "n \<le> length buf" "length buf \<le> 2048" for w :: "'a kbd_scheme" and n buf
  proof -
    have ur: "user_ready a p w" using that(1) by (simp add: clock_ready_def)
    from call_write_result [OF ur that(2,3), of dev]
    obtain v where v: "call_write dev a 1 buf (int n) w = Some (0, v)" "user_ready a p v" "console_writes p (take n buf) w v" "same_task w v"
      by blast
    have "clock_ready a p k v" by (rule clock_ready_same [OF that(1) v(2)]) (rule same_task_simps(2) [OF v(4)])
    then show ?thesis using v by auto
  qed
  show "\<exists>r g' v. sys_read (kernel_sys dev (\<lambda>s. ([do_idt_rtc dev], intrs)) exec a) (int k) g 4 w = Some (r, g', v) \<and> length g' = 4 \<and>
      clock_ready a p k v \<and> console_writes p [] w v"
    if "clock_ready a p k w" "length g = 4" for w :: "'a kbd_scheme" and g
    using clock_wait [OF that, of dev intrs] by auto
qed

section \<open>pingpong on the kernel\<close>

text \<open>C25. The program \<^verbatim>\<open>pingpong\<close> on this kernel, where each of its waits ends with the next interrupt of the
  clock: its first \<^term>\<open>n\<close> rounds write \<^term>\<open>n\<close> times the 152 frames of a letter that goes from one
  wall to the other and back, one letter of the alphabet after the other, to the terminal of the
  task.\<close>

theorem pingpong_bounces:
  assumes r: "user_ready a p s" and k: "lowest_free (cur_files s) k"
    and de: "read_dentry_by_name (bytes_of ''rtc'' @ replicate 29 0) blank_dentry s = Some (0, de)" "file_type de = 0"
    and len: "length buf = 81" "length garbage = 4"
  shows "\<exists>b g u. pingpong_main n (kernel_sys dev (\<lambda>s. ([do_idt_rtc dev], intrs)) exec a) buf garbage s = Some (b, g, u) \<and>
    console_writes p (concat (map (\<lambda>r. round_text (letter r)) [0..<n])) s u"
proof -
  obtain b where b: "walls buf = Some b" "walled b" using walls_walled [OF len(1)] by blast
  obtain v where v: "do_open dev (cstr ''rtc'') s = Some (int k, v)" "clock_ready a p k v" "console_writes p [] s v"
    using open_clock [OF r k de] by blast
  obtain c w where w: "call_write dev a (int k) [32, 0, 0, 0] 4 v = Some (c, w)" "clock_ready a p k w" "console_writes p [] v w"
    using write_clock [OF v(2), of "[32, 0, 0, 0]" dev] by auto
  obtain b' g u where u: "pingpong_rounds n (kernel_sys dev (\<lambda>s. ([do_idt_rtc dev], intrs)) exec a) (int k) (letter 0) (b, garbage, w) =
      Some (b', g, u)" "console_writes p (concat (map (\<lambda>r. round_text (letter r)) [0..<0 + n])) w u"
    using ticking.rounds_write [OF w(2) b(2) len(2), of n dev intrs exec 0] by blast
  have "letter 0 = chr CHR ''A''" by (simp add: letter_def)
  then show ?thesis
    using b(1) v(1) w(1) u console_writes_append [OF console_writes_append [OF v(3) w(3)] u(2)] by (simp add: pingpong_main_def)
qed

text \<open>An image whose only entry is the clock.\<close>

definition ticking_mem :: memory where
  "ticking_mem = reading_mem(0x10040 := 114, 0x10041 := 116, 0x10042 := 99, 0x10060 := 0)"

lemma ticking_found:
  "read_dentry_by_name (bytes_of ''rtc'' @ replicate 29 0) blank_dentry (user_demo\<lparr>mem := ticking_mem\<rparr>) =
     Some (0, \<lparr>file_name = bytes_of ''rtc'' @ replicate 29 0, file_type = 0, inode_num = 0\<rparr>)"
  "ld32 ticking_mem 0x1000 = 0x83"
proof -
  have n: "fs_num_dentries ticking_mem 0x10000 = 1"
    by (simp add: fs_num_dentries_def ld32_def ticking_mem_def reading_mem_def fs_demo_mem_def st32_def Let_def)
  have d: "copy_dentry ticking_mem 0x10000 0 = \<lparr>file_name = bytes_of ''rtc'' @ replicate 29 0, file_type = 0, inode_num = 0\<rparr>"
    by (simp add: copy_dentry_def fs_dentry_def fs_demo_mem_def reading_mem_def ticking_mem_def st32_def bytes_of_def ld32_def
      FILENAME_LEN_def Let_def upt_rec replicate_num)
  then have "entry_name ticking_mem 0x10000 0 = bytes_of ''rtc'' @ replicate 29 0" by (simp add: entry_name_def)
  then show "read_dentry_by_name (bytes_of ''rtc'' @ replicate 29 0) blank_dentry (user_demo\<lparr>mem := ticking_mem\<rparr>) =
      Some (0, \<lparr>file_name = bytes_of ''rtc'' @ replicate 29 0, file_type = 0, inode_num = 0\<rparr>)"
    using d by (simp add: read_dentry_by_name_def find_dentry_eq n user_demo_sel rd_def bytes_of_def FILENAME_LEN_def)
  show "ld32 ticking_mem 0x1000 = 0x83" by (simp add: ld32_def ticking_mem_def reading_mem_def st32_def Let_def)
qed

theorem pingpong_bounces_witness:
  "\<exists>b g u. pingpong_main 1 (kernel_sys (\<lambda>_ _. 0) (\<lambda>s. ([do_idt_rtc (\<lambda>_ _. 0)], [])) (\<lambda>_ _. None) 0x200000) (replicate 81 0) [0, 0, 0, 0]
       (user_demo\<lparr>mem := ticking_mem\<rparr>) = Some (b, g, u) \<and>
     console_writes 0x200000 (round_text 65) (user_demo\<lparr>mem := ticking_mem\<rparr>) u"
proof -
  let ?s = "user_demo\<lparr>mem := ticking_mem\<rparr>"
  have k: "lowest_free (cur_files ?s) 2"
    by (simp add: user_demo_sel user_task_def task_demo_task_def lowest_free_def in_use_def)
  have "[0..<1 :: nat] = [0]" "letter 0 = 65" by (simp_all add: letter_def)
  then show ?thesis
    using pingpong_bounces [OF user_demo_mem_ready [OF ticking_found(2)] k ticking_found(1) _ _ _, of "replicate 81 0" "[0, 0, 0, 0]" 1
        "\<lambda>_ _. 0" "[]" "\<lambda>_ _. None"] by simp
qed

end
