(* ===== verification/Sigtest.thy ===== *)
theory Sigtest
  imports Programs
begin

text \<open>
  The program \<^verbatim>\<open>sigtest\<close>, whose subject is signals: it stores through a null pointer and expects that its handler is
  called, repairs the pointer and returns to the store. What a store outside of its variables does is a parameter, since
  it is up to the kernel: the kernel of this repository has no signals and ends the task.
\<close>

section \<open>The program\<close>

definition SEGFAULT :: int where "SEGFAULT = 1"
definition ALARM :: int where "ALARM = 3"

text \<open>The two static variables.\<close>

record sig_vars =
  charbuf :: u8
  badbuf :: u32

definition sig_vars_0 :: sig_vars where
  "sig_vars_0 = \<lparr>charbuf = 0, badbuf = 0\<rparr>"

definition signum_text :: "int \<Rightarrow> string" where
  "signum_text signum = (if signum = 0 then ''0'' else if signum = 1 then ''1'' else if signum = 2 then ''2''
     else if signum = 3 then ''3'' else ''invalid'')"

text \<open>The handlers; \<^term>\<open>frame\<close> is the stack from \<^verbatim>\<open>signum\<close> on in words, \<^term>\<open>c\<close> what the local \<^verbatim>\<open>buf\<close> holds.\<close>

definition segfault_sighandler ::
  "(string \<Rightarrow> u32) \<Rightarrow> 'w sys \<Rightarrow> u8 \<Rightarrow> int \<Rightarrow> u32 list \<Rightarrow> sig_vars \<Rightarrow> 'w \<Rightarrow> (u32 list \<times> sig_vars \<times> 'w) option" where
  "segfault_sighandler symbol sys c signum frame v w = do {
     w \<leftarrow> fdputs sys (cstr ''Segfault signal handler called, signum: '') w;
     w \<leftarrow> fdputs sys (cline (signum_text signum)) w;
     w \<leftarrow> fdputs sys (cline ''Press enter to continue...'') w;
     (_, _, w) \<leftarrow> sys_read sys 0 [c] 1 w;
     let v = v\<lparr>badbuf := symbol ''charbuf''\<rparr>;
     frame \<leftarrow> wr frame 7 (symbol ''charbuf'');
     w \<leftarrow> fdputs sys (cline ''Signal handler returning'') w;
     Some (frame, v, w) }"

definition alarm_sighandler :: "'w sys \<Rightarrow> int \<Rightarrow> 'w \<Rightarrow> 'w option" where
  "alarm_sighandler sys signum w = do {
     w \<leftarrow> fdputs sys (cstr ''Alarm signal handler called, signum: '') w;
     fdputs sys (cline (signum_text signum)) w }"

text \<open>What becomes of a store outside of the variables: it ends the program, it is made, or it is tried again at another
  address.\<close>

datatype 'w store_end = Killed 'w | Stored 'w | Again u32 sig_vars 'w

partial_function (option) store_byte ::
  "(string \<Rightarrow> u32) \<Rightarrow> (u32 \<Rightarrow> u8 \<Rightarrow> sig_vars \<Rightarrow> 'w \<Rightarrow> 'w store_end option) \<Rightarrow> u32 \<Rightarrow> u8 \<Rightarrow> sig_vars \<Rightarrow> 'w \<Rightarrow>
   ('w + sig_vars \<times> 'w) option" where
  "store_byte symbol elsewhere addr x v w =
     (if addr = symbol ''charbuf'' then Some (Inr (v\<lparr>charbuf := x\<rparr>, w))
      else do {
        r \<leftarrow> elsewhere addr x v w;
        (case r of
           Killed w \<Rightarrow> Some (Inl w)
         | Stored w \<Rightarrow> Some (Inr (v, w))
         | Again addr v w \<Rightarrow> store_byte symbol elsewhere addr x v w) })"

text \<open>\<^verbatim>\<open>main\<close>; the result is \<^term>\<open>Inl\<close> when the program is ended at the store.\<close>

definition sigtest_main ::
  "(string \<Rightarrow> u32) \<Rightarrow> 'w sys \<Rightarrow> (int \<Rightarrow> u32 \<Rightarrow> 'w \<Rightarrow> (int \<times> 'w) option) \<Rightarrow>
   (u32 \<Rightarrow> u8 \<Rightarrow> sig_vars \<Rightarrow> 'w \<Rightarrow> 'w store_end option) \<Rightarrow> u8 list \<Rightarrow> sig_vars \<Rightarrow> 'w \<Rightarrow> ('w + int \<times> 'w) option" where
  "sigtest_main symbol sys set_handler elsewhere buf v w = do {
     (r, buf, w) \<leftarrow> sys_getargs sys buf 1024 w;
     (if r \<noteq> 0 then do { e \<leftarrow> leave sys (cline ''could not read argument'') 3 w; Some (Inr e) }
      else do {
        c \<leftarrow> rd buf 0;
        w \<leftarrow> (if c = chr CHR ''1'' then do {
            w \<leftarrow> fdputs sys (cline ''Installing signal handlers'') w;
            (_, w) \<leftarrow> set_handler SEGFAULT (symbol ''segfault_sighandler'') w;
            (_, w) \<leftarrow> set_handler ALARM (symbol ''alarm_sighandler'') w;
            Some w }
          else Some w);
        w \<leftarrow> fdputs sys (cstr ''Hi, what's your name? '') w;
        (cnt, buf, w) \<leftarrow> sys_read sys 0 buf 1023 w;
        (if cnt = - 1 then do { e \<leftarrow> leave sys (cline ''Can't read name from keyboard.'') 3 w; Some (Inr e) }
         else do {
           r \<leftarrow> store_byte symbol elsewhere (badbuf v) 1 v w;
           (case r of
              Inl w \<Rightarrow> Some (Inl w)
            | Inr (v, w) \<Rightarrow> do {
                buf \<leftarrow> wri buf cnt 0;
                w \<leftarrow> fdputs sys (cstr ''Hello, '') w;
                w \<leftarrow> fdputs sys buf w;
                e \<leftarrow> leave sys (cline (if charbuf v = 1 then ''success'' else ''failure'')) 0 w;
                Some (Inr e) }) }) }) }"

section \<open>What becomes of the store\<close>

definition greeting :: "bool \<Rightarrow> u8 list" where
  "greeting handlers = (if handlers then bytes_of ''Installing signal handlers'' @ [10] else []) @ bytes_of ''Hi, what's your name? ''"

definition handler_text :: "int \<Rightarrow> u8 list" where
  "handler_text signum = bytes_of ''Segfault signal handler called, signum: '' @ bytes_of (signum_text signum) @ [10] @
     bytes_of ''Press enter to continue...'' @ [10] @ bytes_of ''Signal handler returning'' @ [10]"

definition farewell :: "u8 list \<Rightarrow> bool \<Rightarrow> u8 list" where
  "farewell name ok = bytes_of ''Hello, '' @ name @ bytes_of (if ok then ''success'' else ''failure'') @ [10]"

text \<open>The kernel without signals ends the program; one with signals runs the handler on \<^term>\<open>frame\<close> and goes back to the store
  with the register that the handler finds in the frame.\<close>

definition ends_program :: "u32 \<Rightarrow> u8 \<Rightarrow> sig_vars \<Rightarrow> 'w \<Rightarrow> 'w store_end option" where
  "ends_program addr x v w = Some (Killed w)"

definition signals_program ::
  "(string \<Rightarrow> u32) \<Rightarrow> 'w sys \<Rightarrow> u8 \<Rightarrow> u32 list \<Rightarrow> u32 \<Rightarrow> u8 \<Rightarrow> sig_vars \<Rightarrow> 'w \<Rightarrow> 'w store_end option" where
  "signals_program symbol sys c frame addr x v w = do {
     (frame, v, w) \<leftarrow> segfault_sighandler symbol sys c SEGFAULT frame v w;
     Some (Again (frame ! 7) v w) }"

lemma signum_text_fits: "0 \<notin> set (bytes_of (signum_text k))" "length (signum_text k) < 2000"
  by (auto simp: signum_text_def bytes_of_def)

context text_output
begin

lemma text_writes:
  assumes "ready w" and "0 \<notin> set (bytes_of t)" and "length t < 2000"
  shows "\<exists>v. fdputs sys (cstr t) w = Some v \<and> ready v \<and> writes (bytes_of t) w v"
    and "\<exists>v. fdputs sys (cline t) w = Some v \<and> ready v \<and> writes (bytes_of t @ [10]) w v"
proof -
  have l: "length (bytes_of t) = length t" by (simp add: bytes_of_def)
  show "\<exists>v. fdputs sys (cstr t) w = Some v \<and> ready v \<and> writes (bytes_of t) w v"
    using message_writes [OF assms(1,2), of "[]"] assms(3) l by (simp add: cstr_def)
  show "\<exists>v. fdputs sys (cline t) w = Some v \<and> ready v \<and> writes (bytes_of t @ [10]) w v"
    using message_writes [OF assms(1), of "bytes_of t @ [10]" "[]"] assms(2,3) l by (simp add: cline_def)
qed

lemma handler_repairs:
  assumes w: "ready w" and frame: "7 < length frame"
    and enter: "\<And>u. ready u \<Longrightarrow> \<exists>r b v. sys_read sys 0 [c] 1 u = Some (r, b, v) \<and> ready v \<and> writes [] u v"
  shows "\<exists>u. segfault_sighandler symbol sys c signum frame v w =
      Some (frame[7 := symbol ''charbuf''], v\<lparr>badbuf := symbol ''charbuf''\<rparr>, u) \<and> ready u \<and> writes (handler_text signum) w u"
proof -
  obtain a where a: "fdputs sys (cstr ''Segfault signal handler called, signum: '') w = Some a" "ready a"
    "writes (bytes_of ''Segfault signal handler called, signum: '') w a"
    using text_writes(1) [OF w, of "''Segfault signal handler called, signum: ''"] by (auto simp: bytes_of_def)
  obtain b where b: "fdputs sys (cline (signum_text signum)) a = Some b" "ready b" "writes (bytes_of (signum_text signum) @ [10]) a b"
    using text_writes(2) [OF a(2) signum_text_fits] by blast
  obtain d where d: "fdputs sys (cline ''Press enter to continue...'') b = Some d" "ready d"
    "writes (bytes_of ''Press enter to continue...'' @ [10]) b d"
    using text_writes(2) [OF b(2), of "''Press enter to continue...''"] by (auto simp: bytes_of_def)
  obtain r x e where e: "sys_read sys 0 [c] 1 d = Some (r, x, e)" "ready e" "writes [] d e" using enter [OF d(2)] by blast
  obtain u where u: "fdputs sys (cline ''Signal handler returning'') e = Some u" "ready u"
    "writes (bytes_of ''Signal handler returning'' @ [10]) e u"
    using text_writes(2) [OF e(2), of "''Signal handler returning''"] by (auto simp: bytes_of_def)
  have "writes (handler_text signum) w u"
    using also_writes [OF a(3) also_writes [OF b(3) also_writes [OF d(3) also_writes [OF e(3) u(3)]]]]
    by (simp add: handler_text_def)
  then show ?thesis using a(1) b(1) d(1) e(1) u(1,2) frame by (simp add: segfault_sighandler_def wr_def)
qed

lemma farewell_writes:
  assumes w: "ready w" and name: "0 \<notin> set name" "length name + length rest < 2048"
  shows "\<exists>u. do { w \<leftarrow> fdputs sys (cstr ''Hello, '') w; w \<leftarrow> fdputs sys (name @ 0 # rest) w;
      e \<leftarrow> leave sys (cline (if ok then ''success'' else ''failure'')) 0 w; Some (Inr e) } = Some (Inr (0, u)) \<and>
    ready u \<and> writes (farewell name ok) w u"
proof -
  obtain a where a: "fdputs sys (cstr ''Hello, '') w = Some a" "ready a" "writes (bytes_of ''Hello, '') w a"
    using text_writes(1) [OF w, of "''Hello, ''"] by (auto simp: bytes_of_def)
  obtain b where b: "fdputs sys (name @ 0 # rest) a = Some b" "ready b" "writes name a b"
    using message_writes [OF a(2) name] by blast
  let ?t = "if ok then ''success'' else ''failure''"
  have t: "0 \<notin> set (bytes_of ?t)" "length ?t < 2000" by (auto simp: bytes_of_def)
  obtain u where u: "fdputs sys (cline ?t) b = Some u" "ready u" "writes (bytes_of ?t @ [10]) b u"
    using text_writes(2) [OF b(2) t] by blast
  show ?thesis
    using a(1) b(1) u(1,2) also_writes [OF a(3) also_writes [OF b(3) u(3)]] by (simp add: leave_def farewell_def)
qed

text \<open>Up to the store: \<^term>\<open>b\<close> is the argument, \<^term>\<open>b'\<close> what the keyboard leaves in the buffer and
  \<^term>\<open>echo\<close> what is shown of it as it is typed.\<close>

lemma sigtest_asks:
  assumes args: "sys_getargs sys buf 1024 w = Some (0, b, w1)" "ready w1" "writes [] w w1" "b \<noteq> []"
    and set_handler: "\<forall>k h u. ready u \<longrightarrow> (\<exists>r v. set_handler k h u = Some (r, v) \<and> ready v \<and> writes [] u v)"
    and name: "\<forall>u. ready u \<and> writes (greeting (hd b = chr CHR ''1'')) w u \<longrightarrow>
      (\<exists>v. sys_read sys 0 b 1023 u = Some (int n, b', v) \<and> ready v \<and> writes echo u v)"
  shows "\<exists>u. ready u \<and> writes (greeting (hd b = chr CHR ''1'') @ echo) w u \<and>
    sigtest_main symbol sys set_handler elsewhere buf v w = do {
      r \<leftarrow> store_byte symbol elsewhere (badbuf v) 1 v u;
      (case r of
         Inl w \<Rightarrow> Some (Inl w)
       | Inr (v, w) \<Rightarrow> do {
           buf \<leftarrow> wri b' (int n) 0;
           w \<leftarrow> fdputs sys (cstr ''Hello, '') w;
           w \<leftarrow> fdputs sys buf w;
           e \<leftarrow> leave sys (cline (if charbuf v = 1 then ''success'' else ''failure'')) 0 w;
           Some (Inr e) }) }"
proof -
  let ?install = "if hd b = chr CHR ''1'' then do {
      w \<leftarrow> fdputs sys (cline ''Installing signal handlers'') w1;
      (_, w) \<leftarrow> set_handler SEGFAULT (symbol ''segfault_sighandler'') w;
      (_, w) \<leftarrow> set_handler ALARM (symbol ''alarm_sighandler'') w;
      Some w } else Some w1"
  obtain x where x: "fdputs sys (cline ''Installing signal handlers'') w1 = Some x" "ready x"
    "writes (bytes_of ''Installing signal handlers'' @ [10]) w1 x"
    using text_writes(2) [OF args(2), of "''Installing signal handlers''"] by (auto simp: bytes_of_def)
  obtain r1 y where y: "set_handler SEGFAULT (symbol ''segfault_sighandler'') x = Some (r1, y)" "ready y" "writes [] x y"
    using set_handler x(2) by blast
  obtain r2 z where z: "set_handler ALARM (symbol ''alarm_sighandler'') y = Some (r2, z)" "ready z" "writes [] y z"
    using set_handler y(2) by blast
  define w2 where "w2 = (if hd b = chr CHR ''1'' then z else w1)"
  have w2: "?install = Some w2" "ready w2"
    "writes (if hd b = chr CHR ''1'' then bytes_of ''Installing signal handlers'' @ [10] else []) w1 w2"
    using x(1) y(1) z(1,2) also_writes [OF x(3) also_writes [OF y(3) z(3)]] args(2) no_text by (auto simp: w2_def)
  obtain q where q: "fdputs sys (cstr ''Hi, what's your name? '') w2 = Some q" "ready q"
    "writes (bytes_of ''Hi, what's your name? '') w2 q"
    using text_writes(1) [OF w2(2), of "''Hi, what's your name? ''"] by (auto simp: bytes_of_def)
  have g: "writes (greeting (hd b = chr CHR ''1'')) w q"
    using also_writes [OF args(3) also_writes [OF w2(3) q(3)]] by (simp add: greeting_def)
  obtain u where u: "sys_read sys 0 b 1023 q = Some (int n, b', u)" "ready u" "writes echo q u" using name q(2) g by blast
  have "writes (greeting (hd b = chr CHR ''1'') @ echo) w u" by (rule also_writes [OF g u(3)])
  moreover have "rd b 0 = Some (hd b)" using args(4) by (simp add: rd_def hd_conv_nth)
  ultimately show ?thesis
    using args(1) w2(1) q(1) u(1,2) by (intro exI [of _ u]) (simp add: sigtest_main_def)
qed

text \<open>On a kernel without signals the program asks for the name and is ended.\<close>

lemma sigtest_killed:
  assumes "sys_getargs sys buf 1024 w = Some (0, b, w1)" "ready w1" "writes [] w w1" "b \<noteq> []"
    and "\<forall>k h u. ready u \<longrightarrow> (\<exists>r v. set_handler k h u = Some (r, v) \<and> ready v \<and> writes [] u v)"
    and "\<forall>u. ready u \<and> writes (greeting (hd b = chr CHR ''1'')) w u \<longrightarrow>
      (\<exists>v. sys_read sys 0 b 1023 u = Some (int n, b', v) \<and> ready v \<and> writes echo u v)"
    and "symbol ''charbuf'' \<noteq> 0"
  shows "\<exists>u. sigtest_main symbol sys set_handler ends_program buf sig_vars_0 w = Some (Inl u) \<and>
    writes (greeting (hd b = chr CHR ''1'') @ echo) w u"
  using sigtest_asks [where symbol = symbol and elsewhere = ends_program and v = sig_vars_0, OF assms(1-6)] assms(7)
  by (auto simp: store_byte.simps ends_program_def sig_vars_0_def)

text \<open>On one with signals the handler repairs the pointer and the store is made.\<close>

lemma sigtest_succeeds:
  assumes args: "sys_getargs sys buf 1024 w = Some (0, b, w1)" "ready w1" "writes [] w w1" "b \<noteq> []"
    and set_handler: "\<forall>k h u. ready u \<longrightarrow> (\<exists>r v. set_handler k h u = Some (r, v) \<and> ready v \<and> writes [] u v)"
    and read: "\<forall>u. ready u \<and> writes (greeting (hd b = chr CHR ''1'')) w u \<longrightarrow>
      (\<exists>v. sys_read sys 0 b 1023 u = Some (int (length name), name @ x # rest, v) \<and> ready v \<and> writes echo u v)"
    and enter: "\<And>u. ready u \<Longrightarrow> \<exists>r d v. sys_read sys 0 [c] 1 u = Some (r, d, v) \<and> ready v \<and> writes [] u v"
    and name: "0 \<notin> set name" "length name + length rest < 2048" and frame: "7 < length frame" and charbuf: "symbol ''charbuf'' \<noteq> 0"
  shows "\<exists>u. sigtest_main symbol sys set_handler (signals_program symbol sys c frame) buf sig_vars_0 w = Some (Inr (0, u)) \<and>
    writes (greeting (hd b = chr CHR ''1'') @ echo @ handler_text SEGFAULT @ farewell name True) w u"
proof -
  let ?store = "store_byte symbol (signals_program symbol sys c frame)"
  obtain q where q: "ready q" "writes (greeting (hd b = chr CHR ''1'') @ echo) w q"
    "sigtest_main symbol sys set_handler (signals_program symbol sys c frame) buf sig_vars_0 w = do {
      r \<leftarrow> ?store (badbuf sig_vars_0) 1 sig_vars_0 q;
      (case r of
         Inl w \<Rightarrow> Some (Inl w)
       | Inr (v, w) \<Rightarrow> do {
           buf \<leftarrow> wri (name @ x # rest) (int (length name)) 0;
           w \<leftarrow> fdputs sys (cstr ''Hello, '') w;
           w \<leftarrow> fdputs sys buf w;
           e \<leftarrow> leave sys (cline (if charbuf v = 1 then ''success'' else ''failure'')) 0 w;
           Some (Inr e) }) }"
    using sigtest_asks [where symbol = symbol and elsewhere = "signals_program symbol sys c frame" and v = sig_vars_0, OF args set_handler read] by blast
  obtain h where h: "segfault_sighandler symbol sys c SEGFAULT frame sig_vars_0 q =
      Some (frame[7 := symbol ''charbuf''], sig_vars_0\<lparr>badbuf := symbol ''charbuf''\<rparr>, h)" "ready h" "writes (handler_text SEGFAULT) q h"
    using handler_repairs [where symbol = symbol and signum = SEGFAULT and v = sig_vars_0, OF q(1) frame enter] by blast
  have again: "?store (symbol ''charbuf'') 1 v u = Some (Inr (v\<lparr>charbuf := 1\<rparr>, u))" for v u
    by (simp add: store_byte.simps)
  have "?store 0 1 sig_vars_0 q = Some (Inr (sig_vars_0\<lparr>badbuf := symbol ''charbuf'', charbuf := 1\<rparr>, h))"
    using h(1) charbuf frame by (subst store_byte.simps) (simp add: signals_program_def again)
  moreover have "wri (name @ x # rest) (int (length name)) 0 = Some (name @ 0 # rest)" by (simp add: wri_def wr_def)
  moreover obtain u where "do { w \<leftarrow> fdputs sys (cstr ''Hello, '') h; w \<leftarrow> fdputs sys (name @ 0 # rest) w;
      e \<leftarrow> leave sys (cline (if True then ''success'' else ''failure'')) 0 w; Some (Inr e :: 'w + int \<times> 'w) } = Some (Inr (0, u))"
    "writes (farewell name True) h u"
    using farewell_writes [OF h(2) name, of True] by blast
  ultimately show ?thesis
    using q(3) also_writes [OF q(2) also_writes [OF h(3)]] by (intro exI [of _ u]) (simp add: sig_vars_0_def)
qed

end

end
