(* ===== verification/Emulate.thy ===== *)
theory Emulate
  imports Programs
begin

text \<open>
  \<^verbatim>\<open>ece391emulate.c\<close>: the system calls of the user programs on Linux, for testing them there. What Linux
  does is a parameter, a record of functions of the state \<^typ>\<open>'h\<close> of the host. The state of the
  emulation is its static variables and that of the host. Properties: the words of a command
  become the arguments of the program that is started, that program gets them back as one text, and a
  read of the directory gives a name padded to 32 bytes.
\<close>

section \<open>Linux\<close>

datatype wait_status = Exited int | Signaled int

text \<open>\<^verbatim>\<open>lx_run\<close> is \<^verbatim>\<open>fork\<close>, then \<^verbatim>\<open>execv\<close> (or \<^verbatim>\<open>kill\<close>, where that fails) in the child, and \<^verbatim>\<open>wait\<close>; \<^verbatim>\<open>lx_open\<close>,
  \<^verbatim>\<open>lx_read\<close>, \<^verbatim>\<open>lx_write\<close> and \<^verbatim>\<open>lx_close\<close> give the value of \<^verbatim>\<open>eax\<close> after the trap; \<^verbatim>\<open>lx_readdir\<close> gives
  \<^verbatim>\<open>d_name\<close>, and \<^verbatim>\<open>lx_mmap\<close> the place of the first megabyte.\<close>

record 'h linux =
  lx_run :: "u8 list \<Rightarrow> u8 list list \<Rightarrow> 'h \<Rightarrow> (wait_status \<times> 'h) option"
  lx_open :: "u8 list \<Rightarrow> 'h \<Rightarrow> u32 \<times> 'h"
  lx_read :: "int \<Rightarrow> u8 list \<Rightarrow> int \<Rightarrow> 'h \<Rightarrow> (u32 \<times> u8 list \<times> 'h) option"
  lx_write :: "int \<Rightarrow> u8 list \<Rightarrow> int \<Rightarrow> 'h \<Rightarrow> (u32 \<times> 'h) option"
  lx_close :: "int \<Rightarrow> 'h \<Rightarrow> u32 \<times> 'h"
  lx_opendir :: "'h \<Rightarrow> bool \<times> 'h"
  lx_open_null :: "'h \<Rightarrow> int \<times> 'h"
  lx_readdir :: "'h \<Rightarrow> u8 list option \<times> 'h"
  lx_closedir :: "'h \<Rightarrow> 'h"
  lx_close_fd :: "int \<Rightarrow> 'h \<Rightarrow> 'h"
  lx_open_mem :: "'h \<Rightarrow> int \<times> 'h"
  lx_mmap :: "int \<Rightarrow> 'h \<Rightarrow> u32 option \<times> 'h"
  lx_perror :: "u8 list \<Rightarrow> 'h \<Rightarrow> 'h"

text \<open>The static variables, \<^verbatim>\<open>dir\<close> as whether it is not \<^verbatim>\<open>NULL\<close>; \<^verbatim>\<open>mem_fd\<close> is the one of
  \<^verbatim>\<open>ece391_vidmap\<close>.\<close>

record 'h emu =
  dir_fd :: int
  dir :: bool
  mem_fd :: int
  host :: 'h

definition emu_start :: "'h \<Rightarrow> 'h emu" where
  "emu_start h = \<lparr>dir_fd = - 1, dir = False, mem_fd = - 1, host = h\<rparr>"

text \<open>The end of a wrapper: the errors of Linux become -1.\<close>

definition emu_result :: "u32 \<Rightarrow> int" where
  "emu_result eax = (if eax > 0xFFFFC000 then - 1 else sint eax)"

section \<open>Starting a program\<close>

text \<open>\<^verbatim>\<open>ece391_strcpy\<close> from one array to another.\<close>

function strcpy_to :: "u8 list \<Rightarrow> nat \<Rightarrow> u8 list \<Rightarrow> nat \<Rightarrow> u8 list option" where
  "strcpy_to a dst b src = (case rd b src of
       None \<Rightarrow> None
     | Some c \<Rightarrow> (case wr a dst c of
         None \<Rightarrow> None
       | Some a \<Rightarrow> (if c \<noteq> 0 then strcpy_to a (Suc dst) b (Suc src) else Some a)))"
  by pat_completeness auto
termination by (relation "measure (\<lambda>(a, dst, b, src). length b - src)") (auto simp: rd_def split: if_splits)

declare strcpy_to.simps [simp del]

definition in_word :: "u8 \<Rightarrow> bool" where
  "in_word c = (c \<noteq> 0 \<and> c \<noteq> chr CHR '' '' \<and> c \<noteq> 10)"

text \<open>The two loops that move \<^verbatim>\<open>scan\<close>.\<close>

function scan_word :: "u8 list \<Rightarrow> nat \<Rightarrow> nat option" where
  "scan_word buf scan = (case rd buf scan of
       None \<Rightarrow> None
     | Some c \<Rightarrow> (if in_word c then scan_word buf (Suc scan) else Some scan))"
  by pat_completeness auto
termination by (relation "measure (\<lambda>(buf, scan). length buf - scan)") (auto simp: rd_def split: if_splits)

function scan_blanks :: "u8 list \<Rightarrow> nat \<Rightarrow> nat option" where
  "scan_blanks buf scan = (case rd buf scan of
       None \<Rightarrow> None
     | Some c \<Rightarrow> (if c = chr CHR '' '' then scan_blanks buf (Suc scan) else Some scan))"
  by pat_completeness auto
termination by (relation "measure (\<lambda>(buf, scan). length buf - scan)") (auto simp: rd_def split: if_splits)

declare scan_word.simps [simp del] scan_blanks.simps [simp del]

text \<open>The loop over the arguments; \<^verbatim>\<open>args\<close> is an array of pointers into \<^verbatim>\<open>buf\<close>.\<close>

function parse_args :: "u8 list \<Rightarrow> nat option list \<Rightarrow> nat \<Rightarrow> nat \<Rightarrow> (u8 list \<times> nat option list \<times> nat) option" where
  "parse_args buf args n_arg scan = do {
     scan \<leftarrow> scan_blanks buf scan;
     c \<leftarrow> rd buf scan;
     (if c = 0 \<or> c = 10 then do { buf \<leftarrow> wr buf scan 0; Some (buf, args, n_arg) }
      else (case wr args n_arg (Some scan) of
          None \<Rightarrow> None
        | Some args \<Rightarrow> do {
            scan \<leftarrow> scan_word buf scan;
            c \<leftarrow> rd buf scan;
            (buf, scan) \<leftarrow> (if c \<noteq> 0 then do { buf \<leftarrow> wr buf scan 0; Some (buf, Suc scan) } else Some (buf, scan));
            parse_args buf args (Suc n_arg) scan })) }"
  by pat_completeness auto
termination by (relation "measure (\<lambda>(buf, args, n_arg, scan). length args - n_arg)") (auto simp: wr_def split: if_splits)

declare parse_args.simps [simp del]

text \<open>The strings that the kernel of the host finds in the arrays, up to the null pointer.\<close>

definition string_in :: "u8 list \<Rightarrow> nat \<Rightarrow> u8 list" where
  "string_in buf i = takeWhile (\<lambda>c. c \<noteq> 0) (drop i buf)"

definition argv_of :: "u8 list \<Rightarrow> nat option list \<Rightarrow> u8 list list" where
  "argv_of buf args = map (\<lambda>p. string_in buf (the p)) (takeWhile (\<lambda>p. p \<noteq> None) args)"

definition ece391_execute ::
  "'h linux \<Rightarrow> u8 list \<Rightarrow> u8 list \<Rightarrow> nat option list \<Rightarrow> 'h emu \<Rightarrow> (int \<times> 'h emu) option" where
  "ece391_execute lx command buf args s = do {
     n \<leftarrow> ece391_strlen command 0;
     (if 1023 < n then Some (- 1, s)
      else do {
        buf \<leftarrow> wr buf 0 (chr CHR ''.'');
        buf \<leftarrow> wr buf 1 (chr CHR ''/'');
        buf \<leftarrow> strcpy_to buf 2 command 0;
        scan \<leftarrow> scan_word buf 2;
        args \<leftarrow> wr args 0 (Some 0);
        c \<leftarrow> rd buf scan;
        (buf, args, n_arg) \<leftarrow> (if c \<noteq> 0 then do { buf \<leftarrow> wr buf scan 0; parse_args buf args 1 (Suc scan) }
                           else Some (buf, args, 1));
        args \<leftarrow> wr args n_arg None;
        (status, h) \<leftarrow> lx_run lx (string_in buf 0) (argv_of buf args) (host s);
        let s = s\<lparr>host := h\<rparr>;
        Some (case status of
            Exited k \<Rightarrow> (k, s)
          | Signaled k \<Rightarrow> (if k = 9 then - 1 else 256, s)) }) }"

section \<open>Getting the arguments\<close>

text \<open>The loop of \<^verbatim>\<open>ece391_getargs\<close> over the arguments from \<^verbatim>\<open>idx\<close> on, and what follows it.\<close>

definition getargs_end :: "u8 list \<Rightarrow> nat \<Rightarrow> int \<Rightarrow> (int \<times> u8 list) option" where
  "getargs_end a buf nbytes = (if nbytes < 1 then Some (- 1, a) else do { a \<leftarrow> wr a buf 0; Some (0, a) })"

fun getargs_loop :: "u8 list list \<Rightarrow> u8 list \<Rightarrow> nat \<Rightarrow> int \<Rightarrow> (int \<times> u8 list) option" where
  "getargs_loop [] a buf nbytes = getargs_end a buf nbytes"
| "getargs_loop (arg # argv) a buf nbytes = do {
     len \<leftarrow> ece391_strlen arg 0;
     (if int len > nbytes then Some (- 1, a)
      else do {
        a \<leftarrow> strcpy_to a buf arg 0;
        let buf = buf + len;
        let nbytes = nbytes - int len;
        (if argv = [] then getargs_end a buf nbytes
         else if nbytes < 1 then Some (- 1, a)
         else do { a \<leftarrow> wr a buf (chr CHR '' ''); getargs_loop argv a (buf + 1) (nbytes - 1) }) }) }"

text \<open>\<^verbatim>\<open>argv\<close> is on the stack that \<^verbatim>\<open>_start\<close> remembers.\<close>

definition ece391_getargs :: "u8 list list \<Rightarrow> u8 list \<Rightarrow> int \<Rightarrow> (int \<times> u8 list) option" where
  "ece391_getargs argv buf nbytes = getargs_loop (drop 1 argv) buf 0 nbytes"

section \<open>Files and the directory\<close>

definition ece391_open :: "'h linux \<Rightarrow> u8 list \<Rightarrow> 'h emu \<Rightarrow> (int \<times> 'h emu) option" where
  "ece391_open lx filename s = do {
     r \<leftarrow> ece391_strcmp filename 0 (cstr ''.'') 0;
     (if r = 0 then
        let (d, h) = lx_opendir lx (host s);
            (fd, h) = lx_open_null lx h
        in Some (fd, s\<lparr>dir_fd := fd, dir := d, host := h\<rparr>)
      else let (eax, h) = lx_open lx filename (host s) in Some (emu_result eax, s\<lparr>host := h\<rparr>)) }"

text \<open>The loops that copy a name: up to its end, up to \<^verbatim>\<open>nbytes\<close> and up to 32 bytes, then the padding.\<close>

function pad_name :: "u8 list \<Rightarrow> nat \<Rightarrow> int \<Rightarrow> (int \<times> u8 list) option" where
  "pad_name to copied nbytes =
     (if nbytes > int copied \<and> 32 > copied then (case wr to copied 0 of
          None \<Rightarrow> None
        | Some to \<Rightarrow> pad_name to (Suc copied) nbytes)
      else Some (int copied, to))"
  by pat_completeness auto
termination by (relation "measure (\<lambda>(to, copied, nbytes). 32 - copied)") auto

function copy_dir_name :: "u8 list \<Rightarrow> u8 list \<Rightarrow> nat \<Rightarrow> int \<Rightarrow> (int \<times> u8 list) option" where
  "copy_dir_name from to copied nbytes = (case rd from copied of
       None \<Rightarrow> None
     | Some c \<Rightarrow>
         (if c \<noteq> 0 then (case wr to copied c of
            None \<Rightarrow> None
          | Some to \<Rightarrow>
              (if int (Suc copied) = nbytes then Some (nbytes, to)
               else if Suc copied = 32 then Some (32, to)
               else copy_dir_name from to (Suc copied) nbytes))
          else pad_name to copied nbytes))"
  by pat_completeness auto
termination by (relation "measure (\<lambda>(from, to, copied, nbytes). length from - copied)") (auto simp: rd_def split: if_splits)

declare pad_name.simps [simp del] copy_dir_name.simps [simp del]

definition ece391_read :: "'h linux \<Rightarrow> int \<Rightarrow> u8 list \<Rightarrow> int \<Rightarrow> 'h emu \<Rightarrow> (int \<times> u8 list \<times> 'h emu) option" where
  "ece391_read lx fd buf nbytes s =
     (if \<not> dir s \<or> dir_fd s \<noteq> fd then do {
        (eax, buf, h) \<leftarrow> lx_read lx fd buf nbytes (host s);
        Some (emu_result eax, buf, s\<lparr>host := h\<rparr>) }
      else (case lx_readdir lx (host s) of
          (None, h) \<Rightarrow> Some (0, buf, s\<lparr>host := h\<rparr>)
        | (Some d_name, h) \<Rightarrow> do {
            (copied, buf) \<leftarrow> copy_dir_name d_name buf 0 nbytes;
            Some (copied, buf, s\<lparr>host := h\<rparr>) }))"

definition ece391_write :: "'h linux \<Rightarrow> int \<Rightarrow> u8 list \<Rightarrow> int \<Rightarrow> 'h emu \<Rightarrow> (int \<times> 'h emu) option" where
  "ece391_write lx fd buf nbytes s =
     (if \<not> dir s \<or> dir_fd s \<noteq> fd then do {
        (eax, h) \<leftarrow> lx_write lx fd buf nbytes (host s);
        Some (emu_result eax, s\<lparr>host := h\<rparr>) }
      else Some (- 1, s))"

definition ece391_close :: "'h linux \<Rightarrow> int \<Rightarrow> 'h emu \<Rightarrow> int \<times> 'h emu" where
  "ece391_close lx fd s =
     (if \<not> dir s \<or> dir_fd s \<noteq> fd then
        let (eax, h) = lx_close lx fd (host s) in (emu_result eax, s\<lparr>host := h\<rparr>)
      else
        let h = lx_closedir lx (host s);
            h = lx_close_fd lx (dir_fd s) h
        in (0, s\<lparr>dir_fd := - 1, dir := False, host := h\<rparr>))"

text \<open>The result is the value, the address stored for the caller and the state.\<close>

definition ece391_vidmap :: "'h linux \<Rightarrow> 'h emu \<Rightarrow> int \<times> u32 option \<times> 'h emu" where
  "ece391_vidmap lx s = (
     let s = (if mem_fd s = - 1 then (let (fd, h) = lx_open_mem lx (host s) in s\<lparr>mem_fd := fd, host := h\<rparr>) else s)
     in (case lx_mmap lx (mem_fd s) (host s) of
          (None, h) \<Rightarrow> (- 1, None, s\<lparr>host := lx_perror lx (cstr ''mmap low memory'') h\<rparr>)
        | (Some mem_image, h) \<Rightarrow> (0, Some (mem_image + 0xB8000), s\<lparr>host := h\<rparr>)))"

section \<open>What the loops compute\<close>

lemma strcpy_to_copies:
  assumes "drop src b = xs @ 0 # u" and "0 \<notin> set xs" and "dst + length xs < length a"
  shows "strcpy_to a dst b src = Some (take dst a @ xs @ 0 # drop (Suc (dst + length xs)) a)"
  using assms
proof (induction xs arbitrary: a dst src)
  case Nil
  then show ?case using rd_drop(1) [of src b 0 u] upd_conv_take_nth_drop [of dst a 0]
    by (subst strcpy_to.simps) (simp add: wr_def)
next
  case (Cons x xs)
  note d = rd_drop [of src b x "xs @ 0 # u"]
  have "strcpy_to (a[dst := x]) (Suc dst) b (Suc src) =
      Some (take (Suc dst) (a[dst := x]) @ xs @ 0 # drop (Suc (Suc dst + length xs)) (a[dst := x]))"
    by (rule Cons.IH) (use Cons.prems d in auto)
  moreover have "take (Suc dst) (a[dst := x]) = take dst a @ [x]" using Cons.prems(3) by (simp add: take_Suc_conv_app_nth)
  ultimately show ?case using Cons.prems d by (subst strcpy_to.simps) (simp add: wr_def)
qed

lemma scan_word_stops:
  assumes "drop i buf = xs @ c # r" and "\<forall>x \<in> set xs. in_word x" and "\<not> in_word c"
  shows "scan_word buf i = Some (i + length xs)"
  using assms
proof (induction xs arbitrary: i)
  case Nil
  then show ?case using rd_drop(1) [of i buf c r] by (subst scan_word.simps) simp
next
  case (Cons x xs)
  note d = rd_drop [of i buf x "xs @ c # r"]
  show ?case using Cons d by (subst scan_word.simps) simp
qed

lemma scan_blanks_stops:
  assumes "drop i buf = xs @ c # r" and "\<forall>x \<in> set xs. x = 32" and "c \<noteq> 32"
  shows "scan_blanks buf i = Some (i + length xs)"
  using assms
proof (induction xs arbitrary: i)
  case Nil
  then show ?case using rd_drop(1) [of i buf c r] by (subst scan_blanks.simps) simp
next
  case (Cons x xs)
  note d = rd_drop [of i buf x "xs @ c # r"]
  show ?case using Cons d by (subst scan_blanks.simps) simp
qed

lemma dropWhile_head: "dropWhile f xs = y # ys \<Longrightarrow> \<not> f y"
  by (metis hd_dropWhile list.distinct(1) list.sel(1))

lemma string_in_at: "0 \<notin> set w \<Longrightarrow> string_in (pre @ w @ 0 # r) (length pre) = w"
proof (induction w arbitrary: pre)
  case Nil
  then show ?case by (simp add: string_in_def)
next
  case (Cons c w)
  then show ?case using Cons.IH [of "pre @ [c]"] by (simp add: string_in_def)
qed

section \<open>The words of a command\<close>

text \<open>The words behind the first: blanks stand between them; a newline ends a word like a blank, and behind a
  blank it ends the command.\<close>

function arg_words :: "u8 list \<Rightarrow> u8 list list" where
  "arg_words cs = (case dropWhile (\<lambda>c. c = 32) cs of
       [] \<Rightarrow> []
     | c # ds \<Rightarrow> (if c = 10 then [] else (c # takeWhile in_word ds) # arg_words (drop 1 (dropWhile in_word ds))))"
  by pat_completeness auto
termination
proof (relation "measure length")
  fix cs ds :: "u8 list" and c
  assume "dropWhile (\<lambda>c. c = 32) cs = c # ds"
  then have "Suc (length ds) \<le> length cs" by (metis length_Cons length_dropWhile_le)
  then show "(drop 1 (dropWhile in_word ds), cs) \<in> measure length"
    using length_dropWhile_le [of in_word ds] by simp
qed simp

declare arg_words.simps [simp del]

definition command_argv :: "u8 list \<Rightarrow> u8 list list" where
  "command_argv cmd = (bytes_of ''./'' @ takeWhile in_word cmd) # arg_words (drop 1 (dropWhile in_word cmd))"

lemma parse_args_words:
  assumes "buf = pre @ cs @ 0 # post" and "0 \<notin> set cs" and "n + length cs < length args"
  shows "\<exists>ps rest. parse_args buf args n (length pre) =
      Some (pre @ rest, take n args @ map Some ps @ drop (n + length ps) args, n + length ps) \<and>
    length rest = length cs + 1 + length post \<and> map (string_in (pre @ rest)) ps = arg_words cs \<and> length ps \<le> length cs"
  using assms
proof (induction cs arbitrary: buf pre n args rule: arg_words.induct)
  case (1 cs)
  define bl where "bl = takeWhile (\<lambda>c. c = (32 :: u8)) cs"
  have bl: "\<forall>x \<in> set bl. x = 32" using set_takeWhileD unfolding bl_def by fastforce
  show ?case
  proof (cases "dropWhile (\<lambda>c. c = 32) cs")
    case Nil
    then have cs: "cs = bl" unfolding bl_def by (metis append_Nil2 takeWhile_dropWhile_id)
    have "scan_blanks buf (length pre) = Some (length pre + length bl)"
      by (rule scan_blanks_stops [of _ _ bl 0 post]) (use 1(2) bl cs in simp_all)
    moreover have "rd buf (length pre + length bl) = Some 0" "wr buf (length pre + length bl) 0 = Some buf"
      using 1(2) cs by (simp_all add: rd_def wr_def nth_append list_update_append)
    moreover have "arg_words cs = []" by (subst arg_words.simps) (simp only: Nil list.case)
    ultimately show ?thesis using 1(2) by (subst parse_args.simps) (intro exI [of _ "[]"] exI [of _ "cs @ 0 # post"], simp)
  next
    case (Cons c ds)
    then have cs: "cs = bl @ c # ds" using takeWhile_dropWhile_id [of "\<lambda>c. c = 32" cs] by (simp add: bl_def)
    have c: "c \<noteq> 32" "c \<noteq> 0" using dropWhile_head [OF Cons] 1(3) cs by auto
    let ?p = "length pre + length bl"
    have sb: "scan_blanks buf (length pre) = Some ?p"
      by (rule scan_blanks_stops [of _ _ bl c "ds @ 0 # post"]) (use 1(2) bl cs c in simp_all)
    have rb: "rd buf ?p = Some c" using 1(2) cs by (simp add: rd_def nth_append)
    show ?thesis
    proof (cases "c = 10")
      case True
      have "wr buf ?p 0 = Some (pre @ bl @ 0 # ds @ 0 # post)" using 1(2) cs by (simp add: wr_def list_update_append)
      moreover have "arg_words cs = []" using Cons True by (subst arg_words.simps) simp
      ultimately show ?thesis using sb rb True cs
        by (subst parse_args.simps) (intro exI [of _ "[]"] exI [of _ "bl @ 0 # ds @ 0 # post"], simp)
    next
      case False
      define w where "w = takeWhile in_word ds"
      have cw: "in_word c" "\<forall>x \<in> set w. in_word x" using c False set_takeWhileD [of _ in_word ds] by (auto simp: in_word_def w_def)
      then have nz: "0 \<notin> set (c # w)" by (auto simp: in_word_def)
      have aw: "arg_words cs = (c # w) # arg_words (drop 1 (dropWhile in_word ds))"
        using Cons False by (subst arg_words.simps) (simp add: w_def)
      have n: "n < length args" using 1(4) by simp
      let ?args = "args[n := Some ?p]" and ?q = "?p + length (c # w)"
      have wa: "wr args n (Some ?p) = Some ?args" using n by (simp add: wr_def)
      show ?thesis
      proof (cases "dropWhile in_word ds")
        case Nil
        then have ds: "ds = w" unfolding w_def by (metis append_Nil2 takeWhile_dropWhile_id)
        have b: "buf = (pre @ bl) @ (c # w) @ 0 # post" using 1(2) cs ds by simp
        have "scan_word buf ?p = Some ?q"
          by (rule scan_word_stops [of _ _ "c # w" 0 post]) (use b cw in \<open>simp_all add: in_word_def\<close>)
        moreover have r0: "rd buf ?q = Some 0" "wr buf ?q 0 = Some buf" using b by (simp_all add: rd_def wr_def nth_append list_update_append)
        moreover have "scan_blanks buf ?q = Some ?q" using scan_blanks_stops [of ?q buf "[]" 0 post] b by simp
        then have "parse_args buf ?args (Suc n) ?q = Some (buf, ?args, Suc n)" using r0 by (subst parse_args.simps) simp
        ultimately have "parse_args buf args n (length pre) = Some (buf, ?args, Suc n)"
          using sb rb wa c False by (subst parse_args.simps) simp
        moreover have "string_in buf ?p = c # w" using string_in_at [OF nz, of "pre @ bl" post] b by simp
        moreover have "arg_words cs = [c # w]" unfolding aw Nil by (simp add: arg_words.simps [of "[]"])
        ultimately show ?thesis using n b cs ds
          by (intro exI [of _ "[?p]"] exI [of _ "bl @ (c # w) @ 0 # post"]) (simp add: upd_conv_take_nth_drop)
      next
        case (Cons e r)
        then have ds: "ds = w @ e # r" using takeWhile_dropWhile_id [of in_word ds] by (simp add: w_def)
        have e: "\<not> in_word e" "e \<noteq> 0" using dropWhile_head [OF Cons] 1(3) cs ds by auto
        have b: "buf = (pre @ bl) @ (c # w) @ e # r @ 0 # post" using 1(2) cs ds by simp
        let ?pre = "pre @ bl @ (c # w) @ [0]"
        let ?buf = "?pre @ r @ 0 # post"
        have "scan_word buf ?p = Some ?q"
          by (rule scan_word_stops [of _ _ "c # w" e "r @ 0 # post"]) (use b cw e in simp_all)
        moreover have "rd buf ?q = Some e" "wr buf ?q 0 = Some ?buf" using b by (simp_all add: rd_def wr_def nth_append list_update_append)
        ultimately have p: "parse_args buf args n (length pre) = parse_args ?buf ?args (Suc n) (length ?pre)"
          using sb rb wa c False e by (subst parse_args.simps) (simp add: add.assoc)
        have "\<exists>ps rest. parse_args ?buf ?args (Suc n) (length ?pre) =
            Some (?pre @ rest, take (Suc n) ?args @ map Some ps @ drop (Suc n + length ps) ?args, Suc n + length ps) \<and>
          length rest = length r + 1 + length post \<and> map (string_in (?pre @ rest)) ps = arg_words r \<and> length ps \<le> length r"
          using 1(1) [OF \<open>dropWhile (\<lambda>c. c = 32) cs = c # ds\<close> False, of ?buf ?pre "Suc n" ?args] Cons 1(3,4) cs ds by auto
        then obtain ps rest where ih: "parse_args ?buf ?args (Suc n) (length ?pre) =
            Some (?pre @ rest, take (Suc n) ?args @ map Some ps @ drop (Suc n + length ps) ?args, Suc n + length ps)"
          "length rest = length r + 1 + length post" "map (string_in (?pre @ rest)) ps = arg_words r" "length ps \<le> length r"
          by blast
        have "string_in (?pre @ rest) ?p = c # w" using string_in_at [OF nz, of "pre @ bl" rest] by simp
        moreover have "take (Suc n) ?args = take n args @ [Some ?p]" using n by (simp add: take_Suc_conv_app_nth)
        ultimately show ?thesis using p ih aw Cons cs ds
          by (intro exI [of _ "?p # ps"] exI [of _ "bl @ (c # w) @ [0] @ rest"]) simp
      qed
    qed
  qed
qed

lemma argv_of_terminated:
  assumes "xs \<noteq> []"
  shows "argv_of b ((Some p # map Some ps @ xs)[Suc (length ps) := None]) = map (string_in b) (p # ps)"
proof -
  have "(map Some ps @ xs)[length ps := None] = map Some ps @ None # tl xs"
    using assms by (cases xs) (simp_all add: list_update_append)
  then show ?thesis by (simp add: argv_of_def takeWhile_append takeWhile_map o_def)
qed

lemma execute_runs:
  assumes cmd: "command = cmd @ 0 # rest" "0 \<notin> set cmd" "length cmd \<le> 1023" and len: "length buf = 1026" "length args = 1024"
  shows "\<exists>b as. ece391_execute lx command buf args s = do {
      (status, h) \<leftarrow> lx_run lx (string_in b 0) (argv_of b as) (host s);
      Some (case status of Exited k \<Rightarrow> (k, s\<lparr>host := h\<rparr>) | Signaled k \<Rightarrow> (if k = 9 then - 1 else 256, s\<lparr>host := h\<rparr>)) } \<and>
    argv_of b as = command_argv cmd \<and> string_in b 0 = hd (command_argv cmd)"
proof -
  let ?ds = "bytes_of ''./''" and ?tail = "drop (length cmd + 3) buf"
  let ?w = "takeWhile in_word cmd" and ?args = "Some 0 # tl args"
  have n: "ece391_strlen command 0 = Some (length cmd)"
    using strlen_string [of command 0 "length cmd"] cmd(1,2) by (auto simp: ece391_strlen_eq string_at_def nth_append in_set_conv_nth)
  obtain x y z where buf: "buf = x # y # z" using len(1) by (cases buf rule: list.exhaust [case_product list.exhaust]; cases "tl buf") auto
  have b0: "wr buf 0 (chr CHR ''.'') = Some (chr CHR ''.'' # y # z)" "wr (chr CHR ''.'' # y # z) 1 (chr CHR ''/'') = Some (?ds @ z)"
    by (simp_all add: buf wr_def bytes_of_def)
  have b1: "strcpy_to (?ds @ z) 2 command 0 = Some (?ds @ cmd @ 0 # ?tail)"
    using strcpy_to_copies [of 0 command cmd rest 2 "?ds @ z"] cmd len(1) buf by (simp add: bytes_of_def numeral_3_eq_3)
  have a: "wr args 0 (Some 0) = Some ?args" using len(2) by (cases args) (simp_all add: wr_def)
  have dw: "bytes_of ''./'' = [46, 47]" by (simp add: bytes_of_def)
  have w: "\<forall>x \<in> set ?w. in_word x" using set_takeWhileD by fastforce
  have nz: "0 \<notin> set (?ds @ ?w)" using w by (auto simp: dw in_word_def)
  show ?thesis
  proof (cases "dropWhile in_word cmd")
    case Nil
    then have c: "?w = cmd" by (metis append_Nil2 takeWhile_dropWhile_id)
    let ?b = "?ds @ cmd @ 0 # ?tail" and ?as = "(Some 0 # map Some [] @ tl args)[Suc (length ([] :: nat list)) := None]"
    have "scan_word ?b 2 = Some (2 + length cmd)"
      by (rule scan_word_stops [of _ _ cmd 0 ?tail]) (use c w in \<open>simp_all add: dw in_word_def\<close>)
    moreover have "rd ?b (2 + length cmd) = Some 0" by (simp add: rd_def dw nth_append)
    moreover have "wr ?args 1 None = Some ?as" using len(2) by (simp add: wr_def)
    moreover have "string_in ?b 0 = ?ds @ ?w" using string_in_at [OF nz, of "[]" ?tail] unfolding c by simp
    moreover have "command_argv cmd = [?ds @ ?w]" using Nil by (simp only: command_argv_def drop_Nil) (simp add: arg_words.simps [of "[]"])
    moreover have "argv_of ?b ?as = map (string_in ?b) [0]" by (rule argv_of_terminated) (use len(2) in \<open>cases args; auto\<close>)
    ultimately show ?thesis using n b0 b1 a cmd(3)
      by (intro exI [of _ ?b] exI [of _ ?as]) (simp add: ece391_execute_def Let_def cong: if_cong)
  next
    case (Cons e r)
    then have c: "cmd = ?w @ e # r" by (metis takeWhile_dropWhile_id)
    have e: "\<not> in_word e" "e \<noteq> 0" "0 \<notin> set r" using dropWhile_head [OF Cons] cmd(2) arg_cong [OF c, of set] by auto
    let ?b = "?ds @ cmd @ 0 # ?tail" and ?pre = "?ds @ ?w @ [0]"
    have b: "?b = ?ds @ ?w @ e # r @ 0 # ?tail" using c by (metis append_assoc append_Cons)
    have "scan_word ?b 2 = Some (2 + length ?w)"
      unfolding b by (rule scan_word_stops [of _ _ ?w e "r @ 0 # ?tail"]) (use w e in \<open>simp_all add: dw\<close>)
    moreover have "rd ?b (2 + length ?w) = Some e" unfolding b by (simp add: rd_def dw nth_append)
    moreover have "wr ?b (2 + length ?w) 0 = Some (?pre @ r @ 0 # ?tail)" unfolding b by (simp add: wr_def dw list_update_append)
    moreover have "length cmd = length ?w + 1 + length r" using c by (metis length_append length_Cons add.assoc plus_1_eq_Suc)
    then obtain ps q where p: "parse_args (?pre @ r @ 0 # ?tail) ?args 1 (length ?pre) =
        Some (?pre @ q, take 1 ?args @ map Some ps @ drop (1 + length ps) ?args, 1 + length ps)"
      "map (string_in (?pre @ q)) ps = arg_words r" "length ps \<le> length r"
      using parse_args_words [of "?pre @ r @ 0 # ?tail" ?pre r ?tail 1 ?args] e(3) cmd(3) len(2) by auto
    let ?as = "(Some 0 # map Some ps @ drop (length ps) (tl args))[Suc (length ps) := None]"
    have lp: "length ps < length (tl args)" using p(3) cmd(3) len(2) \<open>length cmd = length ?w + 1 + length r\<close> by simp
    then have "wr (take 1 ?args @ map Some ps @ drop (1 + length ps) ?args) (1 + length ps) None = Some ?as" by (simp add: wr_def)
    moreover have "argv_of (?pre @ q) ?as = map (string_in (?pre @ q)) (0 # ps)" by (rule argv_of_terminated) (use lp in simp)
    moreover have "string_in (?pre @ q) 0 = ?ds @ ?w" using string_in_at [OF nz, of "[]" q] by simp
    moreover have "command_argv cmd = (?ds @ ?w) # arg_words r" using Cons by (simp add: command_argv_def)
    ultimately show ?thesis using n b0 b1 a cmd(3) e(2) p(1,2)
      by (intro exI [of _ "?pre @ q"] exI [of _ ?as]) (simp add: ece391_execute_def Let_def dw cong: if_cong)
  qed
qed

text \<open>Words and the text they make.\<close>

fun join_words :: "u8 list list \<Rightarrow> u8 list" where
  "join_words [] = []"
| "join_words [w] = w"
| "join_words (w # ws) = w @ 32 # join_words ws"

definition is_word :: "u8 list \<Rightarrow> bool" where
  "is_word w = (w \<noteq> [] \<and> (\<forall>c \<in> set w. in_word c))"

lemma word_scans:
  assumes "\<forall>x \<in> set w. in_word x"
  shows "takeWhile in_word w = w" "dropWhile in_word w = []"
    "takeWhile in_word (w @ 32 # xs) = w" "dropWhile in_word (w @ 32 # xs) = 32 # xs"
proof -
  have "\<not> in_word 32" by (simp add: in_word_def)
  then show "takeWhile in_word w = w" "dropWhile in_word w = []"
    "takeWhile in_word (w @ 32 # xs) = w" "dropWhile in_word (w @ 32 # xs) = 32 # xs"
    using assms by (simp_all add: takeWhile_tail dropWhile_append takeWhile_append takeWhile_eq_all_conv)
qed

lemma arg_words_Cons:
  "in_word c \<Longrightarrow> arg_words (c # ds) = (c # takeWhile in_word ds) # arg_words (drop 1 (dropWhile in_word ds))"
  by (subst arg_words.simps) (simp add: in_word_def)

lemma arg_words_join: "\<forall>w \<in> set ws. is_word w \<Longrightarrow> arg_words (join_words ws) = ws"
proof (induction ws rule: join_words.induct)
  case 1
  then show ?case by (simp add: arg_words.simps [of "[]"])
next
  case (2 w)
  then obtain c v where w: "w = c # v" "in_word c" "\<forall>x \<in> set v. in_word x" by (cases w) (auto simp: is_word_def)
  show ?case using w by (simp add: arg_words_Cons word_scans [OF w(3)] arg_words.simps [of "[]"])
next
  case (3 w v ws)
  then obtain c u where w: "w = c # u" "in_word c" "\<forall>x \<in> set u. in_word x" by (cases w) (auto simp: is_word_def)
  show ?case using 3 w by (simp add: arg_words_Cons word_scans [OF w(3)])
qed

lemma command_argv_join:
  assumes "\<forall>w \<in> set (prog # ws). is_word w"
  shows "command_argv (join_words (prog # ws)) = (bytes_of ''./'' @ prog) # ws"
proof -
  have p: "\<forall>x \<in> set prog. in_word x" using assms by (simp add: is_word_def)
  show ?thesis
  proof (cases ws)
    case Nil
    then show ?thesis by (simp add: command_argv_def word_scans [OF p] arg_words.simps [of "[]"])
  next
    case (Cons v vs)
    then show ?thesis using assms arg_words_join [of ws] by (simp add: command_argv_def word_scans [OF p])
  qed
qed

section \<open>What the program gets\<close>

lemma strlen_array: "0 \<notin> set w \<Longrightarrow> ece391_strlen (w @ [0]) 0 = Some (length w)"
  using strlen_string [of "w @ [0]" 0 "length w"] by (auto simp: ece391_strlen_eq string_at_def nth_append in_set_conv_nth)

lemma getargs_next:
  assumes "0 \<notin> set w" and "length pre + length w < length a" and "take (length pre) a = pre" and "int (length w) < n" and "argv \<noteq> []"
  shows "getargs_loop ((w @ [0]) # argv) a (length pre) n =
    getargs_loop argv (pre @ w @ 32 # drop (Suc (length pre + length w)) a) (length (pre @ w @ [32])) (n - int (length w) - 1)"
proof -
  have "strcpy_to a (length pre) (w @ [0]) 0 = Some (pre @ w @ 0 # drop (Suc (length pre + length w)) a)"
    using strcpy_to_copies [of 0 "w @ [0]" w "[]" "length pre" a] assms(1-3) by simp
  moreover have "Suc (length a - Suc 0) = length a" using assms(2) by simp
  ultimately show ?thesis using assms strlen_array [of w] by (simp add: wr_def list_update_append Let_def)
qed

lemma getargs_joins:
  assumes "\<forall>w \<in> set ws. 0 \<notin> set w" and "length pre + length (join_words ws) < length a" and "take (length pre) a = pre"
    and "int (length (join_words ws)) < n"
  shows "getargs_loop (map (\<lambda>w. w @ [0]) ws) a (length pre) n =
    Some (0, pre @ join_words ws @ 0 # drop (Suc (length pre + length (join_words ws))) a)"
  using assms
proof (induction ws arbitrary: pre a n rule: join_words.induct)
  case 1
  then show ?case by (simp add: getargs_end_def wr_def upd_conv_take_nth_drop)
next
  case (2 w)
  have "strcpy_to a (length pre) (w @ [0]) 0 = Some (pre @ w @ 0 # drop (Suc (length pre + length w)) a)"
    using strcpy_to_copies [of 0 "w @ [0]" w "[]" "length pre" a] 2 by simp
  then show ?case using 2 strlen_array [of w] by (simp add: getargs_end_def wr_def list_update_append Let_def)
next
  case (3 w v ws)
  let ?b = "pre @ w @ 32 # drop (Suc (length pre + length w)) a" and ?r = "map (\<lambda>w. w @ [0]) (v # ws)"
  have "getargs_loop (map (\<lambda>w. w @ [0]) (w # v # ws)) a (length pre) n =
      getargs_loop ?r ?b (length (pre @ w @ [32])) (n - int (length w) - 1)"
    using getargs_next [of w pre a n ?r] "3.prems" by (simp del: getargs_loop.simps)
  also have "\<dots> = Some (0, (pre @ w @ [32]) @ join_words (v # ws) @ 0 # drop (Suc (length (pre @ w @ [32]) + length (join_words (v # ws)))) ?b)"
    by (rule "3.IH") (use "3.prems" in simp_all)
  also have "drop (Suc (length (pre @ w @ [32]) + length (join_words (v # ws)))) ?b =
      drop (Suc (length pre + length (join_words (w # v # ws)))) a"
    by (simp add: ac_simps)
  finally show ?case by (simp del: getargs_loop.simps)
qed

text \<open>C27. A command of words that \<^verbatim>\<open>ece391_execute\<close> of the emulation takes starts the program \<^verbatim>\<open>./\<close> and the first
  word with those words as its arguments, and its result is the exit status, -1 for a program that
  cannot be started and 256 for one that a signal has ended; \<^verbatim>\<open>ece391_getargs\<close> gives that program the
  words behind the first with a blank between them, as the kernel's \<^verbatim>\<open>getargs\<close> would.\<close>

theorem emulated_arguments:
  assumes words: "\<forall>w \<in> set (prog # ws). is_word w" and fits: "length (join_words (prog # ws)) \<le> 1023"
    and len: "length buf = 1026" "length args = 1024" and room: "length (join_words ws) < length out"
  shows "ece391_execute lx (join_words (prog # ws) @ 0 # rest) buf args s = do {
      (status, h) \<leftarrow> lx_run lx (bytes_of ''./'' @ prog) ((bytes_of ''./'' @ prog) # ws) (host s);
      Some (case status of Exited k \<Rightarrow> (k, s\<lparr>host := h\<rparr>) | Signaled k \<Rightarrow> (if k = 9 then - 1 else 256, s\<lparr>host := h\<rparr>)) } \<and>
    ece391_getargs (map (\<lambda>w. w @ [0]) ((bytes_of ''./'' @ prog) # ws)) out (int (length out)) =
      Some (0, join_words ws @ 0 # drop (Suc (length (join_words ws))) out)"
proof
  have nz: "0 \<notin> set w" if "is_word w" for w using that by (auto simp: is_word_def in_word_def)
  have j: "0 \<notin> set (join_words us)" if "\<forall>w \<in> set us. is_word w" for us
    using that by (induction us rule: join_words.induct) (auto dest: nz)
  note argv = command_argv_join [OF words]
  show "ece391_execute lx (join_words (prog # ws) @ 0 # rest) buf args s = do {
      (status, h) \<leftarrow> lx_run lx (bytes_of ''./'' @ prog) ((bytes_of ''./'' @ prog) # ws) (host s);
      Some (case status of Exited k \<Rightarrow> (k, s\<lparr>host := h\<rparr>) | Signaled k \<Rightarrow> (if k = 9 then - 1 else 256, s\<lparr>host := h\<rparr>)) }"
    using execute_runs [OF refl j [OF words] fits len, of lx rest s] argv by auto
  show "ece391_getargs (map (\<lambda>w. w @ [0]) ((bytes_of ''./'' @ prog) # ws)) out (int (length out)) =
      Some (0, join_words ws @ 0 # drop (Suc (length (join_words ws))) out)"
    using getargs_joins [of ws "[]" out "int (length out)"] words room nz by (simp add: ece391_getargs_def)
qed

theorem emulated_arguments_witness:
  "ece391_getargs [cstr ''./cat'', cstr ''a'', cstr ''b''] [9, 9, 9, 9, 9] 5 = Some (0, [97, 32, 98, 0, 9])"
  using emulated_arguments [of "bytes_of ''cat''" "[[97], [98]]" "replicate 1026 0" "replicate 1024 None" "[9, 9, 9, 9, 9]" undefined "[]" undefined, THEN conjunct2]
  by (simp add: is_word_def in_word_def bytes_of_def cstr_def)

lemma strcpy_to_overruns:
  assumes "drop src b = xs @ 0 # u" and "0 \<notin> set xs" and "dst + length xs = length a"
  shows "strcpy_to a dst b src = None"
  using assms
proof (induction xs arbitrary: a dst src)
  case Nil
  then show ?case using rd_drop(1) [of src b 0 u] by (subst strcpy_to.simps) (simp add: wr_def)
next
  case (Cons x xs)
  note d = rd_drop [of src b x "xs @ 0 # u"]
  have "strcpy_to (a[dst := x]) (Suc dst) b (Suc src) = None" by (rule Cons.IH) (use Cons.prems d in auto)
  then show ?case using Cons.prems d by (subst strcpy_to.simps) (simp add: wr_def)
qed

lemma getargs_loop_overruns:
  assumes "ws \<noteq> []" and "\<forall>w \<in> set ws. 0 \<notin> set w" and "length pre + length (join_words ws) = length a" and "take (length pre) a = pre"
  shows "getargs_loop (map (\<lambda>w. w @ [0]) ws) a (length pre) (int (length (join_words ws))) = None"
  using assms
proof (induction ws arbitrary: pre a rule: join_words.induct)
  case 1
  then show ?case by simp
next
  case (2 w)
  have "strcpy_to a (length pre) (w @ [0]) 0 = None"
    using strcpy_to_overruns [of 0 "w @ [0]" w "[]" "length pre" a] 2 by simp
  then show ?case using 2 strlen_array [of w] by simp
next
  case (3 w v ws)
  let ?b = "pre @ w @ 32 # drop (Suc (length pre + length w)) a" and ?r = "map (\<lambda>w. w @ [0]) (v # ws)"
  have "getargs_loop (map (\<lambda>w. w @ [0]) (w # v # ws)) a (length pre) (int (length (join_words (w # v # ws)))) =
      getargs_loop ?r ?b (length (pre @ w @ [32])) (int (length (join_words (v # ws))))"
    using getargs_next [of w pre a "int (length (join_words (w # v # ws)))" ?r] "3.prems" by (simp del: getargs_loop.simps)
  also have "\<dots> = None" by (rule "3.IH") (use "3.prems" in simp_all)
  finally show ?case .
qed

text \<open>Arguments that fill the buffer to its last byte are not refused by \<^verbatim>\<open>ece391_getargs\<close> of the emulation:
  it copies the last one with its terminator and writes one byte behind the buffer.\<close>

theorem emulated_getargs_overruns:
  assumes "ws \<noteq> []" and "\<forall>w \<in> set ws. 0 \<notin> set w" and "length (join_words ws) = length out"
  shows "ece391_getargs (prog # map (\<lambda>w. w @ [0]) ws) out (int (length out)) = None"
  using getargs_loop_overruns [OF assms(1,2), of "[]" out] assms(3) by (simp add: ece391_getargs_def)

theorem emulated_getargs_overruns_witness:
  "ece391_getargs [cstr ''./cat'', cstr ''a'', cstr ''b''] [9, 9, 9] 3 = None"
  using emulated_getargs_overruns [of "[[97], [98]]" "[9, 9, 9]" "cstr ''./cat''"] by (simp add: bytes_of_def cstr_def)

section \<open>A read of the directory\<close>

lemma pad_name_pads:
  assumes "n \<le> length to" and "k \<le> n" and "n = min 32 (nat nbytes)"
  shows "pad_name to k nbytes = Some (int n, take k to @ replicate (n - k) 0 @ drop n to)"
  using assms
proof (induction "n - k" arbitrary: k to)
  case 0
  then show ?case by (subst pad_name.simps) (simp add: min_def split: if_splits)
next
  case (Suc d)
  have k: "k < n" using Suc.hyps(2) by simp
  then have "k < length to" "k < 32" "int k < nbytes" using Suc.prems(1) unfolding Suc.prems(3) by auto
  note k = k this
  have "pad_name (to[k := 0]) (Suc k) nbytes = Some (int n, take (Suc k) (to[k := 0]) @ replicate (n - Suc k) 0 @ drop n (to[k := 0]))"
  proof (rule Suc.hyps(1))
    show "d = n - Suc k" using Suc.hyps(2) by simp
    show "n \<le> length (to[k := 0])" "Suc k \<le> n" using Suc.prems(1) k(1) by simp_all
    show "n = min 32 (nat nbytes)" by (rule Suc.prems(3))
  qed
  moreover have "take (Suc k) (to[k := 0]) = take k to @ [0]" using k by (simp add: take_Suc_conv_app_nth)
  moreover have "replicate (n - k) (0 :: u8) = 0 # replicate (n - Suc k) 0"
    using k by (simp add: Suc_diff_Suc flip: replicate_Suc)
  ultimately show ?case using k by (subst pad_name.simps) (simp add: wr_def)
qed

lemma copy_dir_name_copies:
  assumes "drop k from = xs @ 0 # u" and "0 \<notin> set xs" and "k < n" and "n \<le> length to" and "n = min 32 (nat nbytes)"
  shows "copy_dir_name from to k nbytes = Some (int n, take k to @ take (n - k) (xs @ replicate 32 0) @ drop n to)"
  using assms
proof (induction xs arbitrary: k to)
  case Nil
  then show ?case using rd_drop(1) [of k "from" 0 u] pad_name_pads [of n to k nbytes]
    by (subst copy_dir_name.simps) simp
next
  case (Cons x xs)
  have "drop k from = x # xs @ 0 # u" using Cons.prems(1) by simp
  note d = rd_drop [OF this]
  have k: "k < length to" using Cons.prems(3,4) by (rule less_le_trans)
  have t: "take (Suc k) (to[k := x]) = take k to @ [x]" using k by (simp add: take_Suc_conv_app_nth)
  have n: "n - k = Suc (n - Suc k)" and x: "x \<noteq> 0" using Cons.prems(2,3) by simp_all
  show ?case
  proof (cases "Suc k = n")
    case True
    then have "to[k := x] = take k to @ x # drop n to" using k by (simp add: upd_conv_take_nth_drop)
    moreover have "int (Suc k) = nbytes \<or> int (Suc k) \<noteq> nbytes \<and> Suc k = 32" using True Cons.prems(5) by (auto simp: min_def split: if_splits)
    moreover have "take (n - k) ((x # xs) @ replicate 32 0) = [x]" using n True by simp
    ultimately show ?thesis using True k d(1) x by (subst copy_dir_name.simps) (auto simp: wr_def)
  next
    case False
    have "copy_dir_name from (to[k := x]) (Suc k) nbytes =
        Some (int n, take (Suc k) (to[k := x]) @ take (n - Suc k) (xs @ replicate 32 0) @ drop n (to[k := x]))"
    proof (rule Cons.IH)
      show "drop (Suc k) from = xs @ 0 # u" "0 \<notin> set xs" using d(2) Cons.prems(1,2) by simp_all
      show "Suc k < n" "n \<le> length (to[k := x])" using False Cons.prems(3,4) by simp_all
      show "n = min 32 (nat nbytes)" by (rule Cons.prems(5))
    qed
    moreover have "int (Suc k) \<noteq> nbytes" "Suc k \<noteq> 32" using False Cons.prems(3) unfolding Cons.prems(5) by auto
    moreover have "take (n - k) ((x # xs) @ replicate 32 0) = x # take (n - Suc k) (xs @ replicate 32 0)"
      unfolding n by simp
    moreover have "drop n (to[k := x]) = drop n to" using Cons.prems(3) by simp
    ultimately show ?thesis using k d(1) x t by (subst copy_dir_name.simps) (simp add: wr_def)
  qed
qed

text \<open>A read of the open directory by the emulation gives the next name of the host as the kernel's file
  system would: the name, of any length, cut or padded with zeros to the size of the buffer, which
  counts for at most 32 bytes; at the end of the directory it gives 0 and leaves the buffer alone.\<close>

theorem emulated_name_padded:
  assumes "dir s" and "0 < nbytes" and "min 32 (nat nbytes) \<le> length buf"
    and "snd (lx_readdir lx (host s)) = h" and "\<forall>n. fst (lx_readdir lx (host s)) = Some n \<longrightarrow> n = d_name @ [0] \<and> 0 \<notin> set d_name"
  shows "ece391_read lx (dir_fd s) buf nbytes s = (case fst (lx_readdir lx (host s)) of
      None \<Rightarrow> Some (0, buf, s\<lparr>host := h\<rparr>)
    | Some n \<Rightarrow> Some (int (min 32 (nat nbytes)),
        take (min 32 (nat nbytes)) (d_name @ replicate 32 0) @ drop (min 32 (nat nbytes)) buf, s\<lparr>host := h\<rparr>))"
proof (cases "lx_readdir lx (host s)")
  case (Pair r g)
  show ?thesis
  proof (cases r)
    case None
    then show ?thesis using Pair assms by (simp add: ece391_read_def)
  next
    case (Some n)
    then have "n = d_name @ [0]" "0 \<notin> set d_name" using Pair assms(5) by auto
    then show ?thesis using Pair Some assms copy_dir_name_copies [of 0 n d_name "[]" "min 32 (nat nbytes)" buf nbytes]
      by (simp add: ece391_read_def)
  qed
qed

text \<open>A host with no more than the names of a directory.\<close>

definition demo_linux :: "u8 list list linux" where
  "demo_linux = \<lparr>lx_run = (\<lambda>_ _ h. Some (Exited 0, h)), lx_open = (\<lambda>_ h. (3, h)), lx_read = (\<lambda>_ b _ h. Some (0, b, h)),
     lx_write = (\<lambda>_ _ _ h. Some (0, h)), lx_close = (\<lambda>_ h. (0, h)), lx_opendir = (\<lambda>h. (True, h)), lx_open_null = (\<lambda>h. (3, h)),
     lx_readdir = (\<lambda>h. case h of [] \<Rightarrow> (None, []) | n # h \<Rightarrow> (Some (n @ [0]), h)), lx_closedir = (\<lambda>h. h), lx_close_fd = (\<lambda>_ h. h),
     lx_open_mem = (\<lambda>h. (4, h)), lx_mmap = (\<lambda>_ h. (None, h)), lx_perror = (\<lambda>_ h. h)\<rparr>"

theorem emulated_name_padded_witness:
  "ece391_read demo_linux 3 [9, 9, 9, 9, 9] 4 \<lparr>dir_fd = 3, dir = True, mem_fd = - 1, host = [[108, 115]]\<rparr> =
     Some (4, [108, 115, 0, 0, 9], \<lparr>dir_fd = 3, dir = True, mem_fd = - 1, host = []\<rparr>)"
  using emulated_name_padded [of "\<lparr>dir_fd = 3, dir = True, mem_fd = - 1, host = [[108, 115]]\<rparr>" 4 "[9, 9, 9, 9, 9]" demo_linux "[]" "[108, 115]"]
  by (simp add: demo_linux_def replicate_num)

end
